(* ===== verification/Trace_Prelude.thy ===== *)
theory Trace_Prelude
  imports Main "HOL-Library.Word" "HOL-Library.Sublist" "HOL-Library.AList"
    "HOL-Library.Char_ord" "HOL-Library.List_Lexorder" "HOL-Library.Product_Lexorder"
    "HOL-Library.Option_ord"
begin

text \<open>
  Shared vocabulary of the development: the widths of the machine integers the
  Rust code uses, the standard-library operations on them (saturating, checked,
  wrapping), the string operations of \<^verbatim>\<open>core::str\<close> the code calls, decimal and
  hexadecimal printing and parsing, and the generic list and map lemmas that
  the component theories rely on.

  Conventions.
  \<^item> \<^verbatim>\<open>u64\<close>, \<^verbatim>\<open>u32\<close> and \<^verbatim>\<open>usize\<close> values are natural numbers; every operation
    that can leave the range is written out (\<open>sat_add64\<close>, \<open>checked_mul64\<close>,
    \<open>inc32\<close>, ...). Truncating subtraction on \<^typ>\<open>nat\<close> is \<^verbatim>\<open>saturating_sub\<close>.
    Bit sets and wrapping 64-bit arithmetic use words.
  \<^item> A Rust \<^verbatim>\<open>String\<close> or byte slice is a \<^typ>\<open>string\<close>, one \<^typ>\<open>char\<close> per byte.
    The text the program parses and prints is ASCII, where bytes and characters
    agree.
\<close>

named_theorems str_simps \<open>evaluation rules for the string operations\<close>
named_theorems width_simps \<open>definitions of the fixed-width arithmetic\<close>

section \<open>Fixed-width arithmetic\<close>

type_synonym u64 = nat
type_synonym u32 = nat

definition u64_max :: nat where
  "u64_max = 2 ^ 64 - 1"

definition u32_max :: nat where
  "u32_max = 2 ^ 32 - 1"

definition sat_add64 :: "u64 \<Rightarrow> u64 \<Rightarrow> u64" where
  "sat_add64 a b = min (a + b) u64_max"

definition sat_mul64 :: "u64 \<Rightarrow> u64 \<Rightarrow> u64" where
  "sat_mul64 a b = min (a * b) u64_max"

definition checked_add64 :: "u64 \<Rightarrow> u64 \<Rightarrow> u64 option" where
  "checked_add64 a b = (if a + b \<le> u64_max then Some (a + b) else None)"

definition checked_mul64 :: "u64 \<Rightarrow> u64 \<Rightarrow> u64 option" where
  "checked_mul64 a b = (if a * b \<le> u64_max then Some (a * b) else None)"

definition checked_sub :: "nat \<Rightarrow> nat \<Rightarrow> nat option" where
  "checked_sub a b = (if b \<le> a then Some (a - b) else None)"

definition inc32 :: "u32 \<Rightarrow> u32" where
  "inc32 n = Suc n mod 2 ^ 32"

definition div_ceil :: "nat \<Rightarrow> nat \<Rightarrow> nat" where
  "div_ceil a b = (a + b - 1) div b"

definition is_power_of_two :: "nat \<Rightarrow> bool" where
  "is_power_of_two n \<longleftrightarrow> (\<exists>k\<in>{..<64}. n = 2 ^ k)"

definition as_u32 :: "nat \<Rightarrow> u32" where
  "as_u32 n = n mod 2 ^ 32"

section \<open>Sequences\<close>

text \<open>\<^verbatim>\<open>Iterator::position\<close>: the index of the first element that satisfies \<open>P\<close>.\<close>

fun position :: "('a \<Rightarrow> bool) \<Rightarrow> 'a list \<Rightarrow> nat option" where
  "position P [] = None"
| "position P (x # xs) = (if P x then Some 0 else map_option Suc (position P xs))"

text \<open>Options merged as \<^verbatim>\<open>a.or(b)\<close>.\<close>

definition opt_or :: "'a option \<Rightarrow> 'a option \<Rightarrow> 'a option" where
  "opt_or a b = (case a of Some x \<Rightarrow> Some x | None \<Rightarrow> b)"

section \<open>Strings\<close>

definition is_ws :: "char \<Rightarrow> bool" where
  "is_ws c \<longleftrightarrow> (of_char c :: nat) \<in> {9, 10, 11, 12, 13, 32}"

definition trim_start :: "string \<Rightarrow> string" where
  "trim_start s = dropWhile is_ws s"

definition trim_end :: "string \<Rightarrow> string" where
  "trim_end s = rev (dropWhile is_ws (rev s))"

definition trim_str :: "string \<Rightarrow> string" where
  "trim_str s = trim_end (trim_start s)"

definition strip_prefix_str :: "string \<Rightarrow> string \<Rightarrow> string option" where
  "strip_prefix_str p s = (if prefix p s then Some (drop (length p) s) else None)"

definition contains_str :: "string \<Rightarrow> string \<Rightarrow> bool" where
  "contains_str s p \<longleftrightarrow> sublist p s"

text \<open>\<^verbatim>\<open>str::find(&str)\<close>: the offset of the first occurrence.\<close>

fun find_str :: "string \<Rightarrow> string \<Rightarrow> nat option" where
  "find_str p [] = (if p = [] then Some 0 else None)"
| "find_str p (c # cs) =
     (if prefix p (c # cs) then Some 0 else map_option Suc (find_str p cs))"

text \<open>\<^verbatim>\<open>split_once\<close> and \<^verbatim>\<open>rsplit_once\<close> on a single character.\<close>

definition split_once_ch :: "char \<Rightarrow> string \<Rightarrow> (string \<times> string) option" where
  "split_once_ch c s =
     (if c \<in> set s
      then Some (takeWhile (\<lambda>x. x \<noteq> c) s, tl (dropWhile (\<lambda>x. x \<noteq> c) s))
      else None)"

definition rsplit_once_ch :: "char \<Rightarrow> string \<Rightarrow> (string \<times> string) option" where
  "rsplit_once_ch c s =
     (case split_once_ch c (rev s) of
        None \<Rightarrow> None
      | Some (r, l) \<Rightarrow> Some (rev l, rev r))"

definition split_once_str :: "string \<Rightarrow> string \<Rightarrow> (string \<times> string) option" where
  "split_once_str p s =
     (case find_str p s of
        None \<Rightarrow> None
      | Some i \<Rightarrow> Some (take i s, drop (i + length p) s))"

text \<open>\<^verbatim>\<open>str::split(char)\<close>: always at least one piece.\<close>

fun split_ch :: "char \<Rightarrow> string \<Rightarrow> string list" where
  "split_ch c [] = [[]]"
| "split_ch c (x # xs) =
     (if x = c then [] # split_ch c xs
      else (case split_ch c xs of
              [] \<Rightarrow> [[x]]
            | p # ps \<Rightarrow> (x # p) # ps))"

text \<open>\<^verbatim>\<open>split_whitespace\<close>: the maximal runs of non-whitespace.\<close>

fun split_ws_acc :: "string \<Rightarrow> string \<Rightarrow> string list" where
  "split_ws_acc acc [] = (if acc = [] then [] else [acc])"
| "split_ws_acc acc (c # cs) =
     (if is_ws c
      then (if acc = [] then split_ws_acc [] cs else acc # split_ws_acc [] cs)
      else split_ws_acc (acc @ [c]) cs)"

definition split_whitespace :: "string \<Rightarrow> string list" where
  "split_whitespace s = split_ws_acc [] s"

fun join_str :: "string \<Rightarrow> string list \<Rightarrow> string" where
  "join_str sep [] = []"
| "join_str sep [x] = x"
| "join_str sep (x # y # xs) = x @ sep @ join_str sep (y # xs)"

section \<open>Numbers as text\<close>

fun digits_of :: "nat \<Rightarrow> nat \<Rightarrow> nat list" where
  "digits_of b n = (if b < 2 \<or> n < b then [n] else digits_of b (n div b) @ [n mod b])"

declare digits_of.simps [simp del]

definition digit_char :: "nat \<Rightarrow> char" where
  "digit_char d = (if d < 10 then char_of (48 + d) else char_of (87 + d))"

definition digit_val :: "nat \<Rightarrow> char \<Rightarrow> nat option" where
  "digit_val b c =
     (let n = of_char c;
          v = (if 48 \<le> n \<and> n \<le> 57 then n - 48
               else if 97 \<le> n \<and> n \<le> 102 then n - 87
               else if 65 \<le> n \<and> n \<le> 70 then n - 55
               else 16)
      in if v < b then Some v else None)"

definition show_base :: "nat \<Rightarrow> nat \<Rightarrow> string" where
  "show_base b n = map digit_char (digits_of b n)"

abbreviation show_dec :: "nat \<Rightarrow> string" where
  "show_dec \<equiv> show_base 10"

abbreviation show_hex :: "nat \<Rightarrow> string" where
  "show_hex \<equiv> show_base 16"

fun digits_val :: "nat \<Rightarrow> nat \<Rightarrow> string \<Rightarrow> nat option" where
  "digits_val b acc [] = Some acc"
| "digits_val b acc (c # cs) =
     (case digit_val b c of
        None \<Rightarrow> None
      | Some d \<Rightarrow> digits_val b (acc * b + d) cs)"

text \<open>
  \<^verbatim>\<open>from_str_radix\<close> and \<^verbatim>\<open>str::parse\<close> on an unsigned type whose largest value is
  \<open>m\<close>: an optional \<^verbatim>\<open>+\<close>, then at least one digit, and no overflow.
\<close>

definition parse_uint :: "nat \<Rightarrow> nat \<Rightarrow> string \<Rightarrow> nat option" where
  "parse_uint b m s =
     (let ds = (case s of [] \<Rightarrow> [] | c # cs \<Rightarrow> if c = CHR ''+'' then cs else s)
      in if ds = [] then None
         else (case digits_val b 0 ds of
                 None \<Rightarrow> None
               | Some v \<Rightarrow> if v \<le> m then Some v else None))"

abbreviation parse_u64 :: "string \<Rightarrow> nat option" where
  "parse_u64 \<equiv> parse_uint 10 u64_max"

abbreviation parse_u32 :: "string \<Rightarrow> nat option" where
  "parse_u32 \<equiv> parse_uint 10 u32_max"

section \<open>Generic lemmas\<close>

lemmas fixed_width_defs [width_simps] =
  u64_max_def u32_max_def sat_add64_def sat_mul64_def checked_add64_def
  checked_mul64_def checked_sub_def inc32_def div_ceil_def

lemma checked_sub_Some [simp]:
  "checked_sub a b = Some c \<longleftrightarrow> b \<le> a \<and> c = a - b"
  by (auto simp: checked_sub_def)

lemma checked_sub_None [simp]: "checked_sub a b = None \<longleftrightarrow> a < b"
  by (auto simp: checked_sub_def)

lemma inc32_eq: "n < 2 ^ 32 - 1 \<Longrightarrow> inc32 n = Suc n"
  by (simp add: inc32_def)

lemma div_ceil_le_iff:
  assumes "0 < b"
  shows "div_ceil a b \<le> q \<longleftrightarrow> a \<le> q * b"
proof -
  have "div_ceil a b \<le> q \<longleftrightarrow> a + b - 1 < (Suc q) * b"
    unfolding div_ceil_def using assms by (metis div_less_iff_less_mult less_Suc_eq_le)
  also have "\<dots> \<longleftrightarrow> a \<le> q * b"
    using assms by auto
  finally show ?thesis .
qed

lemma position_SomeD:
  "position P xs = Some i \<Longrightarrow> i < length xs \<and> P (xs ! i) \<and> (\<forall>j<i. \<not> P (xs ! j))"
proof (induction xs arbitrary: i)
  case Nil
  then show ?case by simp
next
  case (Cons x xs)
  then show ?case
    by (auto simp: less_Suc_eq_0_disj nth_Cons' split: if_splits)
qed

lemma position_None_iff: "position P xs = None \<longleftrightarrow> (\<forall>x\<in>set xs. \<not> P x)"
  by (induction xs) auto

lemma opt_or_simps [simp]: "opt_or (Some x) b = Some x" "opt_or None b = b"
  by (simp_all add: opt_or_def)

lemma digits_of_nonempty [simp]: "digits_of b n \<noteq> []"
  by (subst digits_of.simps) simp

lemma digits_of_small:
  "2 \<le> b \<Longrightarrow> d \<in> set (digits_of b n) \<Longrightarrow> d < b"
proof (induction b n rule: digits_of.induct)
  case (1 b n)
  show ?case
  proof (cases "n < b")
    case True
    with 1 show ?thesis by (simp add: digits_of.simps [of b n])
  next
    case False
    with 1 show ?thesis by (auto simp: digits_of.simps [of b n])
  qed
qed

lemma digit_val_digit_char:
  assumes "d < b" "b \<le> 16"
  shows "digit_val b (digit_char d) = Some d"
  using assms by (auto simp: digit_val_def digit_char_def Let_def)

lemma digits_val_append:
  "digits_val b acc (xs @ ys) =
     (case digits_val b acc xs of None \<Rightarrow> None | Some v \<Rightarrow> digits_val b v ys)"
  by (induction b acc xs rule: digits_val.induct) (auto split: option.splits)

lemma digits_val_show_base:
  "2 \<le> b \<Longrightarrow> b \<le> 16 \<Longrightarrow> digits_val b 0 (show_base b n) = Some n"
proof (induction b n rule: digits_of.induct)
  case (1 b n)
  show ?case
  proof (cases "n < b")
    case True
    with 1 show ?thesis
      by (simp add: show_base_def digits_of.simps [of b n] digit_val_digit_char)
  next
    case False
    with 1 have IH: "digits_val b 0 (show_base b (n div b)) = Some (n div b)" by simp
    have "n mod b < b" using 1 by simp
    with False 1 IH show ?thesis
      by (simp add: show_base_def digits_of.simps [of b n] digits_val_append digit_val_digit_char)
  qed
qed

lemma show_base_nonempty [simp]: "show_base b n \<noteq> []"
  by (simp add: show_base_def)

lemma digit_char_alnum:
  assumes "c \<in> set (show_base b n)" "2 \<le> b" "b \<le> 16"
  shows "digit_val b c \<noteq> None"
proof -
  from assms obtain d where "d \<in> set (digits_of b n)" and c: "c = digit_char d"
    by (auto simp: show_base_def)
  with assms have "d < b" by (auto intro: digits_of_small)
  with c assms(3) show ?thesis by (simp add: digit_val_digit_char)
qed

lemma not_digit_not_in_show:
  "digit_val b c = None \<Longrightarrow> 2 \<le> b \<Longrightarrow> b \<le> 16 \<Longrightarrow> c \<notin> set (show_base b n)"
  using digit_char_alnum by blast

lemma parse_uint_show_base:
  assumes "2 \<le> b" "b \<le> 16"
  shows "parse_uint b m (show_base b n) = (if n \<le> m then Some n else None)"
proof -
  obtain c cs where s: "show_base b n = c # cs"
    by (meson neq_Nil_conv show_base_nonempty)
  have "CHR ''+'' \<notin> set (show_base b n)"
    using assms by (intro not_digit_not_in_show) (auto simp: digit_val_def)
  with s have "c \<noteq> CHR ''+''" by auto
  with s show ?thesis
    using digits_val_show_base [OF assms, of n] by (simp add: parse_uint_def)
qed

lemma split_once_ch_append:
  "c \<notin> set l \<Longrightarrow> split_once_ch c (l @ c # r) = Some (l, r)"
  by (simp add: split_once_ch_def takeWhile_append dropWhile_append)

lemma rsplit_once_ch_append:
  "c \<notin> set r \<Longrightarrow> rsplit_once_ch c (l @ c # r) = Some (l, r)"
  using split_once_ch_append [of c "rev r" "rev l"] by (simp add: rsplit_once_ch_def)

text \<open>Searching for a substring, and \<^verbatim>\<open>str::split(&str)\<close> on a non-empty pattern.\<close>

function split_str :: "string \<Rightarrow> string \<Rightarrow> string list" where
  "split_str sep s =
     (if sep = [] then [s]
      else (case split_once_str sep s of
              None \<Rightarrow> [s]
            | Some (a, b) \<Rightarrow> a # split_str sep b))"
  by pat_completeness auto

lemma find_str_bound: "find_str p s = Some i \<Longrightarrow> i + length p \<le> length s"
  by (induction p s arbitrary: i rule: find_str.induct) (auto split: if_splits dest: prefix_length_le)

lemma find_str_progress: "find_str p s = Some i \<Longrightarrow> p \<noteq> [] \<Longrightarrow> length s - (i + length p) < length s"
  using find_str_bound [of p s i] by (cases p) auto

termination split_str
  by (relation "measure (\<lambda>(sep, s). length s)")
     (auto simp: split_once_str_def intro: find_str_progress split: option.splits)

declare split_str.simps [simp del]

lemma find_str_here: "find_str p (p @ s) = Some 0"
proof (cases "p @ s")
  case (Cons a l)
  then have "prefix p (a # l)"
    by (metis prefixI)
  then show ?thesis
    by (simp add: Cons)
qed simp

lemma find_str_skip:
  assumes "\<forall>i<length a. \<not> prefix p (drop i (a @ s))" "find_str p s = Some j"
  shows "find_str p (a @ s) = Some (length a + j)"
  using assms
proof (induction a)
  case (Cons c a)
  have "\<not> prefix p (drop i (a @ s))" if "i < length a" for i
    using Cons.prems(1) that by (auto dest: spec [of _ "Suc i"])
  then show ?case
    using Cons by (auto dest: spec [of _ 0])
qed simp

lemma find_str_none: "c \<notin> set s \<Longrightarrow> find_str (c # p) s = None"
  by (induction s) auto

lemma find_str_after:
  assumes "c \<notin> set a"
  shows "find_str (c # p) (a @ (c # p) @ s) = Some (length a)"
proof -
  have "\<not> prefix (c # p) (drop i (a @ (c # p) @ s))" if "i < length a" for i
    using that assms by (auto simp: prefix_def drop_append Cons_nth_drop_Suc [symmetric])
  then show ?thesis
    using find_str_skip [of a "c # p" "(c # p) @ s" 0] find_str_here [of "c # p" s] by simp
qed

lemma split_once_after: "c \<notin> set l \<Longrightarrow> split_once_str (c # p) (l @ (c # p) @ r) = Some (l, r)"
  unfolding split_once_str_def using find_str_after [of c l p r] by simp

end
