(* ===== verification/Error_Codes.thy ===== *)
theory Error_Codes
  imports Trace_Prelude
begin

text \<open>
  \<^verbatim>\<open>src/error.rs\<close>: the stable error codes of the CLI and MCP interface, the
  application error with its reason and next action, and the conversion of I/O
  errors. \<open>failure\<close> adds to the application error the panics of the Rust code,
  so that a slice out of range or an \<^verbatim>\<open>unwrap\<close> is a value of the model too.
\<close>

datatype error_code =
    PtUnavailable | PermissionDenied | UnsupportedPerf | UnsupportedPtConfig
  | InvalidArgument | SessionBusy | Busy | NotReady | NotFound | DetailNotReady
  | DecodeFailed | MissingImageCode | LimitExceeded | Incomparable | CancelledCode

fun as_str :: "error_code \<Rightarrow> string" where
  "as_str PtUnavailable = ''PT_UNAVAILABLE''"
| "as_str PermissionDenied = ''PERMISSION_DENIED''"
| "as_str UnsupportedPerf = ''UNSUPPORTED_PERF''"
| "as_str UnsupportedPtConfig = ''UNSUPPORTED_PT_CONFIG''"
| "as_str InvalidArgument = ''INVALID_ARGUMENT''"
| "as_str SessionBusy = ''SESSION_BUSY''"
| "as_str Busy = ''BUSY''"
| "as_str NotReady = ''NOT_READY''"
| "as_str NotFound = ''NOT_FOUND''"
| "as_str DetailNotReady = ''DETAIL_NOT_READY''"
| "as_str DecodeFailed = ''DECODE_FAILED''"
| "as_str MissingImageCode = ''MISSING_IMAGE''"
| "as_str LimitExceeded = ''LIMIT_EXCEEDED''"
| "as_str Incomparable = ''INCOMPARABLE''"
| "as_str CancelledCode = ''CANCELLED''"

record error =
  err_code :: error_code
  err_reason :: string
  err_next :: "string option"

definition error_new :: "error_code \<Rightarrow> string \<Rightarrow> error" where
  "error_new c r = \<lparr>err_code = c, err_reason = r, err_next = None\<rparr>"

definition with_next :: "string \<Rightarrow> error \<Rightarrow> error" where
  "with_next n e = e\<lparr>err_next := Some n\<rparr>"

definition error_display :: "error \<Rightarrow> string" where
  "error_display e = as_str (err_code e) @ '': '' @ err_reason e"

definition invalid_argument :: "string \<Rightarrow> error" where
  "invalid_argument r = error_new InvalidArgument r"

definition not_found :: "string \<Rightarrow> error" where
  "not_found r = error_new NotFound r"

definition busy_error :: "string \<Rightarrow> error" where
  "busy_error r = error_new Busy r"

definition limit_error :: "string \<Rightarrow> error" where
  "limit_error r = error_new LimitExceeded r"

definition decode_failed :: "string \<Rightarrow> error" where
  "decode_failed r = error_new DecodeFailed r"

definition cancelled_error :: "string \<Rightarrow> error" where
  "cancelled_error r = error_new CancelledCode r"

text \<open>The \<^verbatim>\<open>io::ErrorKind\<close>s the code distinguishes.\<close>

datatype io_kind = IoNotFound | IoPermissionDenied | IoWouldBlock | IoOther

fun error_of_io :: "io_kind \<Rightarrow> string \<Rightarrow> error" where
  "error_of_io IoNotFound msg = not_found msg"
| "error_of_io IoPermissionDenied msg =
     with_next ''Check file permissions and perf_event_paranoid''
       (error_new PermissionDenied msg)"
| "error_of_io IoWouldBlock msg = busy_error msg"
| "error_of_io IoOther msg = error_new DecodeFailed msg"

definition io_ctx :: "io_kind \<Rightarrow> string \<Rightarrow> string \<Rightarrow> string \<Rightarrow> error" where
  "io_ctx k msg path what =
     error_new
       (case k of
          IoPermissionDenied \<Rightarrow> PermissionDenied
        | IoNotFound \<Rightarrow> NotFound
        | _ \<Rightarrow> LimitExceeded)
       (what @ '' '' @ path @ '': '' @ msg)"

text \<open>An application error, or a panic of the code that computes the result.\<close>

datatype failure = Err error | Panic

text \<open>Chaining of fallible steps: the \<^verbatim>\<open>?\<close> operator.\<close>

definition try_bind :: "'e + 'a \<Rightarrow> ('a \<Rightarrow> 'e + 'b) \<Rightarrow> 'e + 'b" where
  "try_bind r f = (case r of Inl e \<Rightarrow> Inl e | Inr x \<Rightarrow> f x)"

fun fold_try :: "('a \<Rightarrow> 's \<Rightarrow> 'e + 's) \<Rightarrow> 'a list \<Rightarrow> 's \<Rightarrow> 'e + 's" where
  "fold_try f [] s = Inr s"
| "fold_try f (x # xs) s = (case f x s of Inl e \<Rightarrow> Inl e | Inr s' \<Rightarrow> fold_try f xs s')"

fun map_try :: "('a \<Rightarrow> 'e + 'b) \<Rightarrow> 'a list \<Rightarrow> 'e + 'b list" where
  "map_try f [] = Inr []"
| "map_try f (x # xs) =
     (case f x of
        Inl e \<Rightarrow> Inl e
      | Inr y \<Rightarrow> (case map_try f xs of Inl e \<Rightarrow> Inl e | Inr ys \<Rightarrow> Inr (y # ys)))"

lemma try_bind_simps [simp]:
  "try_bind (Inl e) f = Inl e"
  "try_bind (Inr x) f = f x"
  by (simp_all add: try_bind_def)

lemma try_bind_Inr_iff:
  "try_bind r f = Inr y \<longleftrightarrow> (\<exists>x. r = Inr x \<and> f x = Inr y)"
  by (cases r) auto

lemma map_try_Inr_iff:
  "(\<exists>ys. map_try f xs = Inr ys) \<longleftrightarrow> (\<forall>x\<in>set xs. \<exists>y. f x = Inr y)"
  by (induction xs) (auto split: sum.splits)

lemma map_try_all:
  "(\<And>x. x \<in> set xs \<Longrightarrow> f x = Inr (g x)) \<Longrightarrow> map_try f xs = Inr (map g xs)"
  by (induction xs) auto

lemma map_try_length: "map_try f xs = Inr ys \<Longrightarrow> length ys = length xs"
  by (induction xs arbitrary: ys) (auto split: sum.splits)

lemma fold_try_append:
  "fold_try f (xs @ ys) s =
     (case fold_try f xs s of Inl e \<Rightarrow> Inl e | Inr s' \<Rightarrow> fold_try f ys s')"
  by (induction xs arbitrary: s) (auto split: sum.splits)

text \<open>The workhorse for invariants of streaming code: a step that keeps \<open>P\<close> keeps it
  over a whole stream.\<close>

lemma fold_try_invariant:
  assumes step: "\<And>x s s'. x \<in> set xs \<Longrightarrow> P s \<Longrightarrow> f x s = Inr s' \<Longrightarrow> P s'"
    and "P s" "fold_try f xs s = Inr s'"
  shows "P s'"
  using assms
proof (induction xs arbitrary: s)
  case Nil
  then show ?case by simp
next
  case (Cons x xs)
  from Cons.prems(3) obtain t where t: "f x s = Inr t" "fold_try f xs t = Inr s'"
    by (auto split: sum.splits)
  then have "P t" using Cons.prems(1) [of x s t] Cons.prems(2) by simp
  show ?case
    by (rule Cons.IH [OF _ \<open>P t\<close> t(2)]) (use Cons.prems(1) in auto)
qed

text \<open>The error codes clients match on are pairwise distinct.\<close>

lemma as_str_inject [simp]: "as_str a = as_str b \<longleftrightarrow> a = b"
  by (cases a; cases b; simp)

end
