(* ===== verification/Json_Ids.thy ===== *)
theory Json_Ids
  imports Error_Codes
begin

text \<open>
  \<^verbatim>\<open>src/model/json.rs\<close> and \<^verbatim>\<open>src/model/ids.rs\<close>: counts and addresses as JSON
  strings, the typed identifiers, and the namespaced row identifiers
  \<^verbatim>\<open>{analysis}:{kind}{local}\<close> that every query result carries.
\<close>

section \<open>Counts and addresses\<close>

datatype count = Count (count_val: u64)

definition serialize_count :: "count \<Rightarrow> string" where
  "serialize_count c = show_dec (count_val c)"

definition deserialize_count :: "string \<Rightarrow> count option" where
  "deserialize_count s = map_option Count (parse_u64 s)"

datatype address = Address (address_val: u64)

definition serialize_address :: "address \<Rightarrow> string" where
  "serialize_address a = ''0x'' @ show_hex (address_val a)"

definition parse_address :: "string \<Rightarrow> u64 option" where
  "parse_address s =
     (let t = trim_str s;
          hex = (case strip_prefix_str ''0x'' t of
                   Some h \<Rightarrow> h
                 | None \<Rightarrow> (case strip_prefix_str ''0X'' t of Some h \<Rightarrow> h | None \<Rightarrow> t))
      in parse_uint 16 u64_max hex)"

definition deserialize_address :: "string \<Rightarrow> address option" where
  "deserialize_address s = map_option Address (parse_address s)"

section \<open>Typed identifiers\<close>

text \<open>
  \<^verbatim>\<open>SessionId\<close>, \<^verbatim>\<open>SnapshotId\<close>, \<^verbatim>\<open>AnalysisId\<close>, \<^verbatim>\<open>ReportId\<close>, \<^verbatim>\<open>JobId\<close>, \<^verbatim>\<open>ThreadId\<close> and
  \<^verbatim>\<open>RequestId\<close> wrap a string that passed \<open>from_raw\<close>. The random part of a
  generated id comes from the operating system and is an argument here.
\<close>

type_synonym analysis_id = string
type_synonym thread_id = string
type_synonym snapshot_id = string

definition valid_raw :: "string \<Rightarrow> bool" where
  "valid_raw raw \<longleftrightarrow> raw \<noteq> [] \<and> CHR ''/'' \<notin> set raw \<and> CHR 0x00 \<notin> set raw"

definition from_raw :: "string \<Rightarrow> string \<Rightarrow> error + string" where
  "from_raw tyname raw =
     (if raw = [] \<or> CHR ''/'' \<in> set raw \<or> CHR 0x00 \<in> set raw
      then Inl (invalid_argument (''invalid '' @ tyname @ '' '' @ raw))
      else Inr raw)"

definition generate_id :: "string \<Rightarrow> string \<Rightarrow> string" where
  "generate_id pfx random_text = pfx @ ''_'' @ random_text"

type_synonym local_id = u32

datatype id_kind = KEvent | KSpan | KFunction | KLocation | KGap

fun kind_tag :: "id_kind \<Rightarrow> string" where
  "kind_tag KEvent = ''e''"
| "kind_tag KSpan = ''sp''"
| "kind_tag KFunction = ''f''"
| "kind_tag KLocation = ''l''"
| "kind_tag KGap = ''g''"

definition kind_parse :: "string \<Rightarrow> id_kind option" where
  "kind_parse s =
     (if s = ''e'' then Some KEvent
      else if s = ''sp'' then Some KSpan
      else if s = ''f'' then Some KFunction
      else if s = ''l'' then Some KLocation
      else if s = ''g'' then Some KGap
      else None)"

record namespaced_id =
  ns_analysis :: analysis_id
  ns_kind :: id_kind
  ns_local :: local_id

definition render :: "namespaced_id \<Rightarrow> string" where
  "render i = ns_analysis i @ '':'' @ kind_tag (ns_kind i) @ show_dec (ns_local i)"

text \<open>
  \<open>parse_namespaced\<close> splits at the last colon and then calls \<^verbatim>\<open>split_at\<close> with the
  length of the kind tag, which panics when nothing follows the colon.
\<close>

definition parse_namespaced :: "string \<Rightarrow> failure + namespaced_id" where
  "parse_namespaced s =
     (case rsplit_once_ch (CHR '':'') s of
        None \<Rightarrow> Inl (Err (invalid_argument (''expected namespaced id, got '' @ s)))
      | Some (analysis, rest) \<Rightarrow>
          (let kind_len = (if prefix ''sp'' rest then 2 else 1)
           in if length rest < kind_len then Inl Panic
              else (case kind_parse (take kind_len rest) of
                      None \<Rightarrow> Inl (Err (invalid_argument (''unknown id kind in '' @ s)))
                    | Some kind \<Rightarrow>
                        (case parse_u32 (drop kind_len rest) of
                           None \<Rightarrow> Inl (Err (invalid_argument (''invalid local id in '' @ s)))
                         | Some loc \<Rightarrow>
                             (case from_raw ''AnalysisId'' analysis of
                                Inl e \<Rightarrow> Inl (Err e)
                              | Inr a \<Rightarrow> Inr \<lparr>ns_analysis = a, ns_kind = kind, ns_local = loc\<rparr>)))))"

section \<open>Lemmas\<close>

lemma from_raw_valid [simp]: "valid_raw raw \<Longrightarrow> from_raw ty raw = Inr raw"
  by (simp add: from_raw_def valid_raw_def)

lemma from_raw_Inr_iff: "from_raw ty raw = Inr r \<longleftrightarrow> valid_raw raw \<and> r = raw"
  by (auto simp: from_raw_def valid_raw_def)

lemma is_ws_not_digit: "is_ws c \<Longrightarrow> digit_val b c = None \<or> 16 < b"
  by (auto simp: is_ws_def digit_val_def Let_def)

lemma trim_str_id:
  assumes "s \<noteq> []" "\<not> is_ws (hd s)" "\<not> is_ws (last s)"
  shows "trim_str s = s"
proof -
  have "trim_start s = s"
    using assms by (cases s) (auto simp: trim_start_def)
  moreover have "trim_end s = s"
    using assms by (cases s rule: rev_cases) (auto simp: trim_end_def)
  ultimately show ?thesis by (simp add: trim_str_def)
qed

lemma last_show_base_not_ws:
  assumes "2 \<le> b" "b \<le> 16"
  shows "\<not> is_ws (last (show_base b n))"
proof
  assume "is_ws (last (show_base b n))"
  moreover have "last (show_base b n) \<in> set (show_base b n)" by simp
  ultimately show False
    using is_ws_not_digit [of "last (show_base b n)" b] digit_char_alnum [OF _ assms] assms
    by fastforce
qed

lemma parse_address_serialize:
  assumes "n \<le> u64_max"
  shows "parse_address (''0x'' @ show_hex n) = Some n"
proof -
  have "trim_str (''0x'' @ show_hex n) = ''0x'' @ show_hex n"
    using last_show_base_not_ws [of 16 n] by (intro trim_str_id) (auto simp: is_ws_def)
  then show ?thesis
    using assms
    by (simp add: parse_address_def strip_prefix_str_def parse_uint_show_base)
qed

lemma kind_parse_tag [simp]: "kind_parse (kind_tag k) = Some k"
  by (cases k) (simp_all add: kind_parse_def)

lemma colon_not_in_local: "CHR '':'' \<notin> set (kind_tag k @ show_dec n)"
proof -
  have "CHR '':'' \<notin> set (show_dec n)"
    by (rule not_digit_not_in_show) (auto simp: digit_val_def Let_def)
  then show ?thesis by (cases k) auto
qed

lemma kind_split:
  "take (if prefix ''sp'' (kind_tag k @ d) then 2 else 1) (kind_tag k @ d) = kind_tag k"
  "drop (if prefix ''sp'' (kind_tag k @ d) then 2 else 1) (kind_tag k @ d) = d"
  "(if prefix ''sp'' (kind_tag k @ d) then 2 else 1) \<le> length (kind_tag k @ d)"
  by (cases k; simp)+

lemma parse_rendered:
  assumes "valid_raw a" "n \<le> u32_max"
  shows "parse_namespaced (a @ '':'' @ kind_tag k @ show_dec n) =
    Inr \<lparr>ns_analysis = a, ns_kind = k, ns_local = n\<rparr>"
proof -
  let ?rest = "kind_tag k @ show_dec n"
  have "rsplit_once_ch (CHR '':'') (a @ CHR '':'' # ?rest) = Some (a, ?rest)"
    by (rule rsplit_once_ch_append) (rule colon_not_in_local)
  then show ?thesis
    using assms kind_split [of k "show_dec n"]
    by (simp add: parse_namespaced_def parse_uint_show_base Let_def not_less)
qed

section \<open>Properties\<close>

text \<open>
  C6: Round trip of row identifiers. Whatever valid analysis id, row kind and
  32-bit row number a namespaced id has (the analysis id may itself contain
  colons), parsing its rendering gives the id back.
\<close>

theorem parse_render_namespaced:
  assumes "valid_raw (ns_analysis i)" "ns_local i \<le> u32_max"
  shows "parse_namespaced (render i) = Inr i"
  using parse_rendered [OF assms, of "ns_kind i"] by (simp add: render_def)

theorem parse_render_namespaced_witness:
  "parse_namespaced (render \<lparr>ns_analysis = ''a:1'', ns_kind = KSpan, ns_local = 3\<rparr>) =
     Inr \<lparr>ns_analysis = ''a:1'', ns_kind = KSpan, ns_local = 3\<rparr>"
  by (rule parse_render_namespaced) (simp_all add: valid_raw_def u32_max_def)

text \<open>
  Where \<open>parse_namespaced\<close> panics. The parser aborts with a panic, instead of an
  \<^verbatim>\<open>INVALID_ARGUMENT\<close> error, exactly on the strings that end in a colon: the
  split after the kind tag is out of range when nothing follows the last colon.
\<close>

theorem parse_namespaced_panics_iff:
  "parse_namespaced s = Inl Panic \<longleftrightarrow> s \<noteq> [] \<and> last s = CHR '':''"
proof (cases s rule: rev_cases)
  case Nil
  then show ?thesis
    by (simp add: parse_namespaced_def rsplit_once_ch_def split_once_ch_def)
next
  case (snoc ys y)
  show ?thesis
  proof (cases "y = CHR '':''")
    case True
    then have "rsplit_once_ch (CHR '':'') s = Some (ys, [])"
      using rsplit_once_ch_append [of "CHR '':''" "[]" ys] snoc by simp
    with snoc True show ?thesis by (simp add: parse_namespaced_def)
  next
    case False
    have "rest \<noteq> []" if "rsplit_once_ch (CHR '':'') s = Some (a, rest)" for a rest
      using that snoc False
      by (auto simp: rsplit_once_ch_def split_once_ch_def split: option.splits if_splits)
    then have "length rest \<ge> (if prefix ''sp'' rest then 2 else 1)"
      if "rsplit_once_ch (CHR '':'') s = Some (a, rest)" for a rest
      using that by (cases rest) (auto simp: prefix_def)
    with snoc False show ?thesis
      by (auto simp: parse_namespaced_def Let_def split: option.splits sum.splits)
  qed
qed

text \<open>
  C9: Addresses survive JSON. Every 64-bit address printed as \<^verbatim>\<open>0x...\<close> is read back
  unchanged, and so are its bare hexadecimal digits; counts printed in decimal are
  read back too.
\<close>

theorem json_numbers_roundtrip:
  assumes "n \<le> u64_max"
  shows "deserialize_address (serialize_address (Address n)) = Some (Address n)
       \<and> parse_address (show_hex n) = Some n
       \<and> deserialize_count (serialize_count (Count n)) = Some (Count n)"
proof -
  have "trim_str (show_hex n) = show_hex n"
    using last_show_base_not_ws [of 16 n] is_ws_not_digit [of "hd (show_hex n)" 16]
      digit_char_alnum [of "hd (show_hex n)" 16 n]
    by (intro trim_str_id) auto
  moreover have "\<not> prefix ''0x'' (show_hex n)" "\<not> prefix ''0X'' (show_hex n)"
    using not_digit_not_in_show [of 16 "CHR ''x''" n] not_digit_not_in_show [of 16 "CHR ''X''" n]
    by (auto simp: prefix_def digit_val_def Let_def)
  ultimately have "parse_address (show_hex n) = Some n"
    using assms by (simp add: parse_address_def strip_prefix_str_def parse_uint_show_base)
  then show ?thesis
    using assms parse_address_serialize [OF assms]
    by (simp add: deserialize_address_def serialize_address_def deserialize_count_def
        serialize_count_def parse_uint_show_base)
qed

theorem json_numbers_roundtrip_witness:
  "deserialize_address (serialize_address (Address 4198400)) = Some (Address 4198400)"
  using json_numbers_roundtrip [of 4198400] by (simp add: u64_max_def)

end
