(* ===== verification/Event_Model.thy ===== *)
theory Event_Model
  imports Json_Ids
begin

text \<open>
  \<^verbatim>\<open>src/model/events.rs\<close>, the data part of \<^verbatim>\<open>src/model/trace.rs\<close> and the query
  types of \<^verbatim>\<open>src/model/report.rs\<close>: event times, control-flow events, spans, gaps,
  instruction rows, mappings, threads, functions, locations, quality reports and
  selections.
\<close>

section \<open>Times\<close>

datatype time_quality = DecoderEstimate | MarkerClock | UnknownTime

record event_time =
  relative_ns :: "u64 option"
  time_quality_of :: time_quality

definition is_estimate :: "time_quality \<Rightarrow> bool" where
  "is_estimate q \<longleftrightarrow> q = DecoderEstimate"

definition time_unknown :: event_time where
  "time_unknown = \<lparr>relative_ns = None, time_quality_of = UnknownTime\<rparr>"

definition time_estimate :: "u64 \<Rightarrow> event_time" where
  "time_estimate t = \<lparr>relative_ns = Some t, time_quality_of = DecoderEstimate\<rparr>"

section \<open>Control flow\<close>

datatype flow_kind =
  Call | Return | Jump | Conditional | AsyncBoundary | TraceBegin | TraceEnd

record boundary_flags =
  trace_begin :: bool
  trace_end :: bool
  async_event :: bool
  transaction :: bool
  interrupt :: bool
  syscall :: bool

definition takes_precedence :: "boundary_flags \<Rightarrow> bool" where
  "takes_precedence b \<longleftrightarrow>
     trace_begin b \<or> trace_end b \<or> async_event b \<or> interrupt b \<or> syscall b \<or> transaction b"

definition boundary_any :: "boundary_flags \<Rightarrow> bool" where
  "boundary_any b = takes_precedence b"

definition is_discontinuity :: "boundary_flags \<Rightarrow> bool" where
  "is_discontinuity b \<longleftrightarrow> trace_end b \<or> async_event b"

definition boundary_is_none :: "boundary_flags \<Rightarrow> bool" where
  "boundary_is_none b \<longleftrightarrow> \<not> boundary_any b"

record flow_event =
  ev_id :: local_id
  ev_thread :: thread_id
  ev_sequence :: u64
  ev_time :: event_time
  ev_from :: "local_id option"
  ev_to :: "local_id option"
  ev_kind :: flow_kind
  ev_boundary :: boundary_flags
  ev_virt_from :: "address option"
  ev_virt_to :: "address option"

datatype span_completeness =
  Complete | OpenStart | OpenEnd | OpenBoth | InterruptedByGap | UncertainUnwind

record event_range =
  er_start :: local_id
  er_end :: local_id

record function_span =
  sp_id :: local_id
  sp_thread :: thread_id
  sp_function :: "local_id option"
  sp_parent :: "local_id option"
  sp_start :: event_time
  sp_end :: event_time
  sp_completeness :: span_completeness
  sp_evidence :: event_range
  sp_call_site :: "address option"

datatype gap_kind =
    RingTruncation | UndecodablePrefix | PtLoss | MissingImage | DecoderError
  | TimeRegression | TraceBoundary | UnknownGap

text \<open>The \<^verbatim>\<open>snake_case\<close> names serde gives the gap kinds.\<close>

fun gap_kind_name :: "gap_kind \<Rightarrow> string" where
  "gap_kind_name RingTruncation = ''ring_truncation''"
| "gap_kind_name UndecodablePrefix = ''undecodable_prefix''"
| "gap_kind_name PtLoss = ''pt_loss''"
| "gap_kind_name MissingImage = ''missing_image''"
| "gap_kind_name DecoderError = ''decoder_error''"
| "gap_kind_name TimeRegression = ''time_regression''"
| "gap_kind_name TraceBoundary = ''trace_boundary''"
| "gap_kind_name UnknownGap = ''unknown''"

record gap_record =
  gap_id :: local_id
  gap_thread :: thread_id
  gap_kind_of :: gap_kind
  gap_start :: event_time
  gap_end :: event_time
  gap_extent_known :: bool
  gap_reason :: string

section \<open>Instructions, mappings, threads, functions\<close>

datatype branch_outcome = Taken | NotTaken | UnknownOutcome

datatype insn_kind =
    Sequential | InsnConditional | InsnJump | IndirectJump | InsnCall | IndirectCall
  | InsnReturn | OtherInsn

record instruction_record =
  in_id :: local_id
  in_thread :: thread_id
  in_sequence :: u64
  in_time :: event_time
  in_location :: "local_id option"
  in_virt_ip :: address
  in_symbol :: "string option"
  in_inlined :: "string option"
  in_image_offset :: "address option"
  in_len :: nat
  in_kind :: insn_kind
  in_branch_target :: "address option"
  in_fallthrough :: "address option"
  in_outcome :: "branch_outcome option"
  in_bytes_hex :: string

record mapping_record =
  mp_generation :: u32
  mp_pid :: u32
  mp_start :: address
  mp_end :: address
  mp_pgoff :: u64
  mp_prot :: string
  mp_path :: string
  mp_build_id :: "string option"
  mp_valid_from :: event_time
  mp_valid_to :: "event_time option"

record thread_lifetime =
  tl_id :: thread_id
  tl_pid :: u32
  tl_tid :: u32
  tl_start :: event_time
  tl_end :: "event_time option"
  tl_comm :: "string option"
  tl_branch_count :: count
  tl_event_count :: count
  tl_span_count :: count
  tl_gap_count :: count
  tl_covered_ns :: count
  tl_segment_count :: count
  tl_segments :: "(u64 \<times> u64) list"

record function_record =
  fn_id :: local_id
  fn_name :: string
  fn_demangled :: string
  fn_image_id :: string
  fn_start :: address
  fn_end :: address

record code_location =
  loc_id :: local_id
  loc_image_id :: string
  image_offset :: address
  virt_ip :: "address option"
  loc_function :: "local_id option"
  loc_file :: "string option"
  loc_line :: "u32 option"
  loc_inlined :: "string option"

record inline_row =
  il_thread :: thread_id
  il_function :: "local_id option"
  il_chain :: "string list"
  il_instructions :: count
  il_blocks :: count
  il_elapsed_ns :: count

record quality_report =
  qr_timing :: time_quality
  qr_gap_count :: count
  qr_incomplete_span_count :: count
  qr_missing_image_count :: count
  qr_decoder_error_count :: count
  qr_ring_truncation :: bool
  qr_undecodable_prefix :: bool
  qr_notes :: "string list"
  qr_gaps_by_kind :: "string \<rightharpoonup> count"

record clock_origin =
  abs_perf_time :: string
  relative_zero_ns :: u64

datatype detail_level = Calls | Instructions

record image_identity =
  img_path :: string
  content_hash :: string
  build_id :: "string option"
  archived :: bool

section \<open>Selections\<close>

definition json_safe_int_max :: u64 where
  "json_safe_int_max = 9007199254740991"

definition validate_relative_ns :: "u64 \<Rightarrow> error + u64" where
  "validate_relative_ns ns =
     (if ns > json_safe_int_max
      then Inl (invalid_argument
             (''relative_ns '' @ show_dec ns @ '' exceeds JSON-safe integer '' @
              show_dec json_safe_int_max))
      else Inr ns)"

record selection =
  sel_thread :: "thread_id option"
  sel_start :: "u64 option"
  sel_end :: "u64 option"

definition selection_validate :: "selection \<Rightarrow> error + unit" where
  "selection_validate s =
     try_bind (case sel_start s of None \<Rightarrow> Inr 0 | Some a \<Rightarrow> validate_relative_ns a) (\<lambda>_.
     try_bind (case sel_end s of None \<Rightarrow> Inr 0 | Some b \<Rightarrow> validate_relative_ns b) (\<lambda>_.
     (case (sel_start s, sel_end s) of
        (Some a, Some b) \<Rightarrow>
          if a \<ge> b then Inl (invalid_argument ''start_ns must be < end_ns'') else Inr ()
      | _ \<Rightarrow> Inr ())))"

definition contains_instant :: "selection \<Rightarrow> u64 \<Rightarrow> bool" where
  "contains_instant s ns \<longleftrightarrow>
     (case sel_start s of None \<Rightarrow> True | Some a \<Rightarrow> ns \<ge> a) \<and>
     (case sel_end s of None \<Rightarrow> True | Some b \<Rightarrow> ns < b)"

definition intersects :: "selection \<Rightarrow> u64 option \<Rightarrow> u64 option \<Rightarrow> bool" where
  "intersects s start stop \<longleftrightarrow>
     (let sel_s = (case sel_start s of None \<Rightarrow> 0 | Some a \<Rightarrow> a);
          sel_e = (case sel_end s of None \<Rightarrow> u64_max | Some b \<Rightarrow> b);
          a = (case start of None \<Rightarrow> 0 | Some t \<Rightarrow> t);
          b = (case stop of None \<Rightarrow> u64_max | Some t \<Rightarrow> t)
      in a < sel_e \<and> b > sel_s)"

datatype hotpath_group = GroupPath | GroupFunction | GroupInline

datatype hotpath_sort = SortInclusive | SortSelfTime | SortCalls

section \<open>Lemmas\<close>

lemma relative_ns_unknown [simp]: "relative_ns time_unknown = None"
  by (simp add: time_unknown_def)

lemma relative_ns_estimate [simp]: "relative_ns (time_estimate t) = Some t"
  by (simp add: time_estimate_def)

lemma gap_kind_name_inject [simp]: "gap_kind_name a = gap_kind_name b \<longleftrightarrow> a = b"
  by (cases a; cases b; simp)

lemma not_takes_precedence:
  "\<not> takes_precedence b \<longleftrightarrow>
     \<not> trace_begin b \<and> \<not> trace_end b \<and> \<not> async_event b \<and> \<not> interrupt b
     \<and> \<not> syscall b \<and> \<not> transaction b"
  by (auto simp: takes_precedence_def)

text \<open>A non-empty interval meets a selection exactly when they share an instant.\<close>

lemma intersects_iff_common_instant:
  assumes "a < b" "b \<le> u64_max"
    and "\<And>s. sel_end sel = Some s \<Longrightarrow> s \<le> u64_max"
    and "\<And>s e. sel_start sel = Some s \<Longrightarrow> sel_end sel = Some e \<Longrightarrow> s < e"
    and "\<And>e. sel_end sel = Some e \<Longrightarrow> 0 < e"
  shows "intersects sel (Some a) (Some b) \<longleftrightarrow> (\<exists>t. a \<le> t \<and> t < b \<and> contains_instant sel t)"
proof (cases "sel_start sel")
  case None
  show ?thesis
  proof (cases "sel_end sel")
    case N: None
    with None assms(1,2) show ?thesis
      by (auto simp: intersects_def contains_instant_def)
  next
    case (Some e)
    with None assms(1,2) show ?thesis
      by (auto simp: intersects_def contains_instant_def)
  qed
next
  case S: (Some s)
  show ?thesis
  proof (cases "sel_end sel")
    case None
    with S assms(1,2) show ?thesis
      by (auto simp: intersects_def contains_instant_def intro!: exI [of _ "max a s"])
  next
    case (Some e)
    with S assms show ?thesis
      by (auto simp: intersects_def contains_instant_def intro!: exI [of _ "max a s"])
  qed
qed

end
