(* ===== verification/Perf_Records.thy ===== *)
theory Perf_Records
  imports Event_Model
begin

text \<open>
  The record types of \<^verbatim>\<open>src/decode/perf_script.rs\<close>: perf's flag vocabulary as a
  16-bit set with its two textual forms, samples and sideband records, and the
  tracker of the traced process tree.
\<close>

unbundle bit_operations_syntax

section \<open>Flags\<close>

datatype sample_event = Branches | InstructionsEvent | OtherEvent

definition is_instruction :: "sample_event \<Rightarrow> bool" where
  "is_instruction e \<longleftrightarrow> e = InstructionsEvent"

type_synonym flags = "16 word"

definition F_CALL :: flags where "F_CALL = push_bit 0 1"
definition F_RETURN :: flags where "F_RETURN = push_bit 1 1"
definition F_JCC :: flags where "F_JCC = push_bit 2 1"
definition F_JMP :: flags where "F_JMP = push_bit 3 1"
definition F_INT :: flags where "F_INT = push_bit 4 1"
definition F_IRET :: flags where "F_IRET = push_bit 5 1"
definition F_SYSCALL :: flags where "F_SYSCALL = push_bit 6 1"
definition F_SYSRET :: flags where "F_SYSRET = push_bit 7 1"
definition F_ASYNC :: flags where "F_ASYNC = push_bit 8 1"
definition F_HW_INT :: flags where "F_HW_INT = push_bit 9 1"
definition F_TX_ABORT :: flags where "F_TX_ABORT = push_bit 10 1"
definition F_TR_START :: flags where "F_TR_START = push_bit 11 1"
definition F_TR_END :: flags where "F_TR_END = push_bit 12 1"
definition F_VMENTRY :: flags where "F_VMENTRY = push_bit 13 1"
definition F_VMEXIT :: flags where "F_VMEXIT = push_bit 14 1"
definition F_UNKNOWN :: flags where "F_UNKNOWN = push_bit 15 1"

definition has_flag :: "flags \<Rightarrow> flags \<Rightarrow> bool" where
  "has_flag s f \<longleftrightarrow> s AND f \<noteq> 0"

definition flags_union :: "flags \<Rightarrow> flags \<Rightarrow> flags" where
  "flags_union s f = s OR f"

definition flags_is_empty :: "flags \<Rightarrow> bool" where
  "flags_is_empty s \<longleftrightarrow> s = 0"

definition from_token :: "string \<Rightarrow> flags option" where
  "from_token tok =
     (if tok = ''call'' then Some F_CALL
      else if tok = ''return'' then Some F_RETURN
      else if tok = ''jcc'' then Some F_JCC
      else if tok = ''jmp'' then Some F_JMP
      else if tok = ''int'' then Some F_INT
      else if tok = ''iret'' then Some F_IRET
      else if tok = ''syscall'' then Some F_SYSCALL
      else if tok = ''sysret'' then Some F_SYSRET
      else if tok = ''async'' then Some F_ASYNC
      else if tok = ''abrt'' then Some F_TX_ABORT
      else if tok = ''strt'' \<or> tok = ''start'' then Some F_TR_START
      else if tok = ''end'' then Some F_TR_END
      else if tok = ''vmentry'' then Some F_VMENTRY
      else if tok = ''vmexit'' then Some F_VMEXIT
      else if tok \<in> {''tr'', ''hw'', ''tx'', ''trace'', ''begin''} then Some 0
      else None)"

definition raw_letter :: "char \<Rightarrow> flags option" where
  "raw_letter c =
     (if c = CHR ''b'' then Some 0
      else if c = CHR ''c'' then Some F_CALL
      else if c = CHR ''r'' then Some F_RETURN
      else if c = CHR ''o'' then Some F_JCC
      else if c = CHR ''s'' then Some F_SYSCALL
      else if c = CHR ''y'' then Some F_ASYNC
      else if c = CHR ''i'' then Some F_INT
      else if c = CHR ''A'' then Some F_TX_ABORT
      else if c = CHR ''B'' then Some F_TR_START
      else if c = CHR ''E'' then Some F_TR_END
      else if c \<in> set ''xghDt'' then Some F_UNKNOWN
      else None)"

fun raw_letters_acc :: "flags \<Rightarrow> string \<Rightarrow> flags option" where
  "raw_letters_acc f [] = Some f"
| "raw_letters_acc f (c # cs) =
     (case raw_letter c of
        None \<Rightarrow> None
      | Some x \<Rightarrow> raw_letters_acc (flags_union f x) cs)"

definition from_raw_letters :: "string \<Rightarrow> flags option" where
  "from_raw_letters tok =
     (if tok = [] \<or> length tok > 16 then None else raw_letters_acc 0 tok)"

text \<open>The token loop of \<^verbatim>\<open>Flags::parse_str\<close>; the boolean is \<^verbatim>\<open>saw_hw\<close>.\<close>

fun parse_flag_tokens :: "flags \<Rightarrow> bool \<Rightarrow> string list \<Rightarrow> flags" where
  "parse_flag_tokens f saw_hw [] = f"
| "parse_flag_tokens f saw_hw (tok # toks) =
     parse_flag_tokens
       (case from_token tok of
          Some x \<Rightarrow> if x = F_INT \<and> saw_hw then flags_union f F_HW_INT else flags_union f x
        | None \<Rightarrow>
            flags_union f
              (case from_raw_letters tok of Some x \<Rightarrow> x | None \<Rightarrow> F_UNKNOWN))
       (tok = ''hw'') toks"

definition flags_parse_str :: "string \<Rightarrow> flags" where
  "flags_parse_str s = parse_flag_tokens 0 False (split_whitespace s)"

definition flag_table :: "(flags \<times> string) list" where
  "flag_table =
     [(F_TR_START, ''tr strt''), (F_TR_END, ''tr end''),
      (F_HW_INT, ''hw int''), (F_CALL, ''call''), (F_RETURN, ''return''),
      (F_JCC, ''jcc''), (F_JMP, ''jmp''), (F_INT, ''int''), (F_IRET, ''iret''),
      (F_SYSCALL, ''syscall''), (F_SYSRET, ''sysret''), (F_ASYNC, ''async''),
      (F_TX_ABORT, ''tx abrt''), (F_VMENTRY, ''vmentry''), (F_VMEXIT, ''vmexit''),
      (F_UNKNOWN, ''?'')]"

definition flag_names :: "flags \<Rightarrow> string list" where
  "flag_names f = map snd (filter (\<lambda>(b, _). has_flag f b) flag_table)"

definition flags_display :: "flags \<Rightarrow> string" where
  "flags_display f = join_str '' '' (flag_names f)"

definition flags_boundary :: "flags \<Rightarrow> boundary_flags" where
  "flags_boundary f =
     \<lparr>trace_begin = has_flag f F_TR_START,
      trace_end = has_flag f F_TR_END,
      async_event = (has_flag f F_ASYNC \<or> has_flag f F_HW_INT),
      transaction = has_flag f F_TX_ABORT,
      interrupt = (has_flag f F_INT \<or> has_flag f F_IRET \<or> has_flag f F_HW_INT),
      syscall = (has_flag f F_SYSCALL \<or> has_flag f F_SYSRET)\<rparr>"

definition flags_kind :: "flags \<Rightarrow> flow_kind" where
  "flags_kind f =
     (if has_flag f F_TR_START then TraceBegin
      else if has_flag f F_TR_END then TraceEnd
      else if has_flag f F_ASYNC \<or> has_flag f F_HW_INT \<or> has_flag f F_INT
           \<or> has_flag f F_IRET \<or> has_flag f F_SYSCALL \<or> has_flag f F_SYSRET
           \<or> has_flag f F_TX_ABORT \<or> has_flag f F_VMENTRY \<or> has_flag f F_VMEXIT
      then AsyncBoundary
      else if has_flag f F_CALL then Call
      else if has_flag f F_RETURN then Return
      else if has_flag f F_JCC then Conditional
      else Jump)"

section \<open>Records\<close>

text \<open>\<^verbatim>\<open>InsnBytes\<close>: at most 15 instruction bytes.\<close>

type_synonym insn_bytes = "nat list"

definition insn_hex_byte :: "nat \<Rightarrow> string" where
  "insn_hex_byte b = [digit_char (b div 16), digit_char (b mod 16)]"

definition insn_hex :: "insn_bytes \<Rightarrow> string" where
  "insn_hex bs = join_str '' '' (map insn_hex_byte (take 15 bs))"

record sample =
  s_pid :: u32
  s_tid :: u32
  s_cpu :: "u32 option"
  s_time :: "u64 option"
  s_event :: sample_event
  s_ip :: "u64 option"
  s_addr :: "u64 option"
  s_flags :: flags
  s_insn_len :: "nat option"
  s_insn :: insn_bytes

definition sample_insn_hex :: "sample \<Rightarrow> string option" where
  "sample_insn_hex s = (if s_insn s = [] then None else Some (insn_hex (s_insn s)))"

record mmap_event =
  mm_pid :: u32
  mm_tid :: u32
  mm_time :: "u64 option"
  mm_start :: u64
  mm_len :: u64
  mm_pgoff :: u64
  mm_prot :: string
  mm_path :: string

datatype task_kind = TComm | TExec | TFork | TExit

record task_event =
  t_kind :: task_kind
  t_pid :: u32
  t_tid :: u32
  t_ppid :: "u32 option"
  t_ptid :: "u32 option"
  t_time :: "u64 option"
  t_comm :: "string option"

record lost_event =
  l_time :: "u64 option"
  l_cpu :: "u32 option"
  l_lost :: u64

record decoder_error_event =
  de_time :: "u64 option"
  de_cpu :: "u32 option"
  de_pid :: "u32 option"
  de_tid :: "u32 option"
  de_ip :: "u64 option"
  de_code :: "u32 option"
  de_message :: string

datatype raw_record =
    RSample sample
  | RMmap mmap_event
  | RTask task_event
  | RSwitch u32 u32 "u64 option" bool
  | RLost lost_event
  | RDecoderError decoder_error_event

section \<open>The traced process tree\<close>

record pid_tracker =
  pt_pids :: "u32 set"
  pt_target_comm :: "string option"
  pt_exec_done :: "u32 set"
  pt_exec_time :: "u32 \<rightharpoonup> u64"
  pt_pre_exec_threads :: "(u32 \<times> u32) set"

definition tracker_empty :: pid_tracker where
  "tracker_empty =
     \<lparr>pt_pids = {}, pt_target_comm = None, pt_exec_done = {}, pt_exec_time = Map.empty,
      pt_pre_exec_threads = {}\<rparr>"

definition with_root :: "u32 \<Rightarrow> pid_tracker" where
  "with_root pid = tracker_empty\<lparr>pt_pids := {pid}, pt_exec_done := {pid}\<rparr>"

text \<open>\<^verbatim>\<open>expecting_exec_of\<close>; \<open>base\<close> is the file name of the launched executable.\<close>

definition expecting_exec_of :: "string \<Rightarrow> pid_tracker \<Rightarrow> pid_tracker" where
  "expecting_exec_of base t = t\<lparr>pt_target_comm := Some (take 15 base)\<rparr>"

definition observe_task :: "task_event \<Rightarrow> pid_tracker \<Rightarrow> pid_tracker" where
  "observe_task t p =
     (if (t_kind t = TComm \<or> t_kind t = TExec) \<and> t_comm t = Some ''perf-exec''
      then (let p1 = p\<lparr>pt_pids := insert (t_pid t) (pt_pids p)\<rparr>
            in if pt_target_comm p1 = None
               then p1\<lparr>pt_exec_done := insert (t_pid t) (pt_exec_done p1)\<rparr>
               else p1)
      else if (t_kind t = TComm \<or> t_kind t = TExec) \<and> t_pid t \<in> pt_pids p
              \<and> pt_target_comm p \<noteq> None \<and> t_comm t = pt_target_comm p
      then (let p1 = p\<lparr>pt_exec_done := insert (t_pid t) (pt_exec_done p)\<rparr>
            in case t_time t of
                 None \<Rightarrow> p1
               | Some ts \<Rightarrow> p1\<lparr>pt_exec_time := (pt_exec_time p1)(t_pid t \<mapsto> ts)\<rparr>)
      else if t_kind t = TFork \<and> (case t_ppid t of None \<Rightarrow> False | Some pp \<Rightarrow> pp \<in> pt_pids p)
      then (if t_ppid t = Some (t_pid t) \<and> t_tid t \<noteq> t_pid t
            then (if pt_target_comm p \<noteq> None \<and> t_pid t \<notin> pt_exec_done p
                  then p\<lparr>pt_pre_exec_threads :=
                           insert (t_pid t, t_tid t) (pt_pre_exec_threads p)\<rparr>
                  else p)
            else (let p1 = p\<lparr>pt_pids := insert (t_pid t) (pt_pids p)\<rparr>
                  in if (case t_ppid t of None \<Rightarrow> False | Some pp \<Rightarrow> pp \<in> pt_exec_done p1)
                     then p1\<lparr>pt_exec_done := insert (t_pid t) (pt_exec_done p1)\<rparr>
                     else p1))
      else if t_kind t = TExit
      then p\<lparr>pt_pre_exec_threads := pt_pre_exec_threads p - {(t_pid t, t_tid t)}\<rparr>
      else p)"

definition observe :: "raw_record \<Rightarrow> pid_tracker \<Rightarrow> pid_tracker" where
  "observe rec p = (case rec of RTask t \<Rightarrow> observe_task t p | _ \<Rightarrow> p)"

definition is_live :: "pid_tracker \<Rightarrow> u32 \<Rightarrow> bool" where
  "is_live p pid \<longleftrightarrow> pid \<in> pt_pids p \<and> (pt_target_comm p = None \<or> pid \<in> pt_exec_done p)"

definition is_live_thread :: "pid_tracker \<Rightarrow> u32 \<Rightarrow> u32 \<Rightarrow> bool" where
  "is_live_thread p pid tid \<longleftrightarrow> is_live p pid \<and> (pid, tid) \<notin> pt_pre_exec_threads p"

definition mapping_is_live :: "pid_tracker \<Rightarrow> mmap_event \<Rightarrow> bool" where
  "mapping_is_live p m \<longleftrightarrow>
     (if mm_pid m \<notin> pt_pids p then False
      else if pt_target_comm p = None then True
      else (case (pt_exec_time p (mm_pid m), mm_time m) of
              (Some ex, Some t) \<Rightarrow> t \<ge> ex
            | (Some _, None) \<Rightarrow> False
            | (None, _) \<Rightarrow> mm_pid m \<in> pt_exec_done p))"

definition tracker_contains :: "pid_tracker \<Rightarrow> u32 \<Rightarrow> bool" where
  "tracker_contains p pid \<longleftrightarrow> pid \<in> pt_pids p"

definition tracker_pids :: "pid_tracker \<Rightarrow> u32 list" where
  "tracker_pids p = sorted_list_of_set (pt_pids p)"

text \<open>
  Reference definition of the traced tree for an attached root: the root, every
  task that announced \<^verbatim>\<open>perf-exec\<close>, and every task forked by a member at the
  time of the fork.
\<close>

definition announces_perf_exec :: "raw_record \<Rightarrow> u32 \<Rightarrow> bool" where
  "announces_perf_exec rec pid \<longleftrightarrow>
     (case rec of
        RTask t \<Rightarrow> (t_kind t = TComm \<or> t_kind t = TExec) \<and> t_comm t = Some ''perf-exec''
                   \<and> t_pid t = pid
      | _ \<Rightarrow> False)"

definition forks :: "raw_record \<Rightarrow> u32 \<Rightarrow> u32 \<Rightarrow> bool" where
  "forks rec parent child \<longleftrightarrow>
     (case rec of
        RTask t \<Rightarrow> t_kind t = TFork \<and> t_ppid t = Some parent \<and> t_pid t = child
      | _ \<Rightarrow> False)"

inductive in_tree :: "u32 \<Rightarrow> raw_record list \<Rightarrow> u32 \<Rightarrow> bool" for root :: u32 where
  root: "in_tree root recs root"
| exec: "r \<in> set recs \<Longrightarrow> announces_perf_exec r p \<Longrightarrow> in_tree root recs p"
| fork: "recs = xs @ r # ys \<Longrightarrow> in_tree root xs parent \<Longrightarrow> forks r parent p \<Longrightarrow>
         in_tree root recs p"

section \<open>Lemmas on flags\<close>

lemmas flag_bits =
  F_CALL_def F_RETURN_def F_JCC_def F_JMP_def F_INT_def F_IRET_def F_SYSCALL_def
  F_SYSRET_def F_ASYNC_def F_HW_INT_def F_TX_ABORT_def F_TR_START_def F_TR_END_def
  F_VMENTRY_def F_VMEXIT_def F_UNKNOWN_def

lemma has_flag_bit: "has_flag f (push_bit k 1) \<longleftrightarrow> bit f k"
  by (simp add: has_flag_def bit_iff_and_push_bit_not_eq_0)

lemma split_ws_acc_append:
  "split_ws_acc acc (s @ CHR '' '' # t) = split_ws_acc acc s @ split_ws_acc [] t"
  by (induction acc s rule: split_ws_acc.induct) (simp_all add: is_ws_def)

lemma split_whitespace_join:
  "split_whitespace (join_str '' '' xs) = concat (map split_whitespace xs)"
  by (induction xs rule: induct_list012)
    (simp_all add: split_whitespace_def split_ws_acc_append)

text \<open>Each name of the table parses, from a fresh state, to exactly its bit.\<close>

lemma parse_flag_table:
  assumes "(b, name) \<in> set flag_table"
  shows "parse_flag_tokens f False (split_whitespace name @ toks) =
         parse_flag_tokens (flags_union f b) False toks"
  using assms
  by (auto simp: flag_table_def split_whitespace_def is_ws_def from_token_def
      from_raw_letters_def raw_letter_def flag_bits flags_union_def)

lemma parse_flag_names:
  assumes "set tab \<subseteq> set flag_table"
  shows "parse_flag_tokens f False (concat (map (split_whitespace \<circ> snd) tab)) =
         foldl flags_union f (map fst tab)"
  using assms
proof (induction tab arbitrary: f)
  case Nil
  then show ?case by simp
next
  case (Cons e tab)
  then show ?case
    using parse_flag_table [of "fst e" "snd e" f] by simp
qed

lemma bit_foldl_union:
  "bit (foldl flags_union f bs) n \<longleftrightarrow> bit f n \<or> (\<exists>b\<in>set bs. bit b n)"
  by (induction bs arbitrary: f) (auto simp: flags_union_def bit_or_iff)

lemma flag_table_fst:
  "fst ` set flag_table =
     (\<lambda>k. push_bit k 1) ` {11, 12, 9, 0, 1, 2, 3, 4, 5, 6, 7, 8, 10, 13, 14, 15}"
  by (simp only: flag_table_def flag_bits list.set image_insert image_empty fst_conv)

lemma flag_table_bits:
  assumes "n < 16" "(b, s) \<in> set flag_table"
  shows "bit b n \<longleftrightarrow> b = push_bit n 1"
proof -
  have "b \<in> fst ` set flag_table" using assms(2) by force
  then obtain k where k: "k \<in> {11, 12, 9, 0, 1, 2, 3, 4, 5, 6, 7, 8, 10, 13, 14, 15}"
      "b = push_bit k 1"
    unfolding flag_table_fst by (rule imageE)
  then have "bit b n \<Longrightarrow> b = push_bit n 1" by (simp add: bit_exp_iff)
  moreover have "bit (push_bit n 1 :: flags) n"
    using assms(1) by (simp add: bit_exp_iff)
  ultimately show ?thesis by auto
qed

lemma flag_table_covers:
  assumes "n < 16"
  shows "\<exists>s. (push_bit n 1, s) \<in> set flag_table"
proof -
  have "n \<in> {11, 12, 9, 0, 1, 2, 3, 4, 5, 6, 7, 8, 10, 13, 14, 15}"
    using assms by (simp only: insert_iff empty_iff) presburger
  then have "push_bit n 1 \<in> fst ` set flag_table"
    unfolding flag_table_fst by (rule imageI)
  then show ?thesis by force
qed

section \<open>Lemmas on the process tree\<close>

lemma pids_observe:
  "pt_pids (observe r p) =
     pt_pids p \<union> {pid. announces_perf_exec r pid} \<union> {c. \<exists>q\<in>pt_pids p. forks r q c}"
  by (cases r)
    (auto simp: observe_def observe_task_def announces_perf_exec_def forks_def Let_def
      split: option.splits)

lemma in_tree_append_mono: "in_tree root xs p \<Longrightarrow> in_tree root (xs @ ys) p"
proof (induction rule: in_tree.cases)
  case root
  then show ?thesis by (auto intro: in_tree.root)
next
  case (exec r recs)
  then show ?thesis by (auto intro: in_tree.exec [of r])
next
  case (fork recs as r bs parent)
  then show ?thesis by (auto intro: in_tree.fork [of _ as r "bs @ ys" root parent])
qed

lemma in_tree_snoc:
  "in_tree root (xs @ [r]) p \<longleftrightarrow>
     in_tree root xs p \<or> announces_perf_exec r p \<or> (\<exists>q. in_tree root xs q \<and> forks r q p)"
proof
  assume "in_tree root (xs @ [r]) p"
  then show "in_tree root xs p \<or> announces_perf_exec r p \<or> (\<exists>q. in_tree root xs q \<and> forks r q p)"
  proof cases
    case root
    then show ?thesis by (auto intro: in_tree.root)
  next
    case (exec r')
    then show ?thesis by (auto intro: in_tree.exec)
  next
    case (fork as r' bs parent)
    then show ?thesis
      by (cases bs rule: rev_cases) (auto intro: in_tree.fork)
  qed
next
  assume "in_tree root xs p \<or> announces_perf_exec r p \<or> (\<exists>q. in_tree root xs q \<and> forks r q p)"
  then show "in_tree root (xs @ [r]) p"
    by (auto intro: in_tree_append_mono in_tree.exec [of r] in_tree.fork [of _ xs r "[]"])
qed

lemma target_comm_observe [simp]: "pt_target_comm (observe r p) = pt_target_comm p"
  by (cases r) (auto simp: observe_def observe_task_def Let_def split: option.splits)

lemma target_comm_fold_observe [simp]:
  "pt_target_comm (fold observe recs p) = pt_target_comm p"
  by (induction recs arbitrary: p) simp_all

lemma pids_fold_observe:
  "p \<in> pt_pids (fold observe recs (with_root root)) \<longleftrightarrow> in_tree root recs p"
proof (induction recs arbitrary: p rule: rev_induct)
  case Nil
  show ?case
    by (auto simp: with_root_def intro: in_tree.root elim: in_tree.cases)
next
  case (snoc r recs)
  then show ?case
    by (auto simp: pids_observe in_tree_snoc)
qed

text \<open>The bits of a flag set, read off the table, union to the set.\<close>

lemma flag_names_union:
  "foldl flags_union 0 (map fst (filter (\<lambda>(b, _). has_flag f b) flag_table)) = f"
  (is "foldl flags_union 0 (map fst ?tab) = f")
proof (rule bit_word_eqI)
  fix n assume n: "n < LENGTH(16)"
  have "bit (foldl flags_union 0 (map fst ?tab)) n \<longleftrightarrow>
        (\<exists>(b, s)\<in>set flag_table. has_flag f b \<and> bit b n)"
    by (auto simp: bit_foldl_union)
  also have "\<dots> \<longleftrightarrow> has_flag f (push_bit n 1)"
    using n flag_table_bits [of n] flag_table_covers [of n] by fastforce
  finally show "bit (foldl flags_union 0 (map fst ?tab)) n = bit f n"
    unfolding has_flag_bit .
qed

section \<open>Properties\<close>

text \<open>
  C7: Printing and parsing of the flag vocabulary. Every one of the 65536 flag
  sets, printed in perf's word form, parses back to the same set; the two-word
  flags and the context-dependent \<^verbatim>\<open>hw int\<close> included.
\<close>

theorem flags_display_parse: "flags_parse_str (flags_display f) = f"
proof -
  let ?tab = "filter (\<lambda>(b, _). has_flag f b) flag_table"
  have "flags_parse_str (flags_display f) =
        parse_flag_tokens 0 False (concat (map (split_whitespace \<circ> snd) ?tab))"
    by (simp add: flags_parse_str_def flags_display_def flag_names_def split_whitespace_join)
  also have "\<dots> = foldl flags_union 0 (map fst ?tab)"
    by (rule parse_flag_names) auto
  also have "\<dots> = f"
    by (rule flag_names_union)
  finally show ?thesis .
qed

text \<open>
  C8: The process tree. After any sideband stream the tracker of an attached root
  holds exactly the root, the tasks that announced \<^verbatim>\<open>perf-exec\<close> and the
  tasks forked by a task that was already in the tree when it forked; all of them
  are live.
\<close>

theorem tracker_is_process_tree:
  "tracker_contains (fold observe recs (with_root root)) p = in_tree root recs p
   \<and> is_live (fold observe recs (with_root root)) p = in_tree root recs p"
proof -
  have "p \<in> pt_pids (fold observe recs (with_root root)) \<longleftrightarrow> in_tree root recs p"
    by (rule pids_fold_observe)
  then show ?thesis
    by (simp add: tracker_contains_def is_live_def) (simp add: with_root_def tracker_empty_def)
qed

end
