(* ===== verification/Image_Index.thy ===== *)
theory Image_Index
  imports Event_Model
begin

text \<open>
  The address part of \<^verbatim>\<open>src/decode/images.rs\<close>: file offsets, image-relative
  addresses through the \<^verbatim>\<open>PT_LOAD\<close> segments, the table of function ranges and its
  lookup. ELF parsing and symbol demangling are done by external crates; their
  results (segments, symbols, demangled names) are arguments.
\<close>

record func_range =
  fr_name :: string
  fr_demangled :: string
  fr_start :: u64
  fr_end :: u64

record segment =
  seg_file_off :: u64
  seg_file_size :: u64
  seg_vaddr :: u64

record image_index =
  ix_segments :: "segment list"
  ix_funcs :: "func_range list"

record archived_image =
  ai_identity :: image_identity
  ai_archive_path :: string
  ai_bytes :: "nat list"

text \<open>A symbol as the ELF reader reports it; \<open>None\<close> is an undecodable name.\<close>

record elf_symbol =
  sym_is_definition :: bool
  sym_name :: "string option"
  sym_address :: u64
  sym_size :: u64

definition file_offset :: "u64 \<Rightarrow> u64 \<Rightarrow> u64 \<Rightarrow> u64 option" where
  "file_offset ip mstart off =
     (case checked_sub ip mstart of None \<Rightarrow> None | Some d \<Rightarrow> checked_add64 d off)"

fun relative_in_segments :: "segment list \<Rightarrow> u64 \<Rightarrow> u64" where
  "relative_in_segments [] foff = foff"
| "relative_in_segments (seg # segs) foff =
     (if foff \<ge> seg_file_off seg \<and> foff < sat_add64 (seg_file_off seg) (seg_file_size seg)
      then sat_add64 (seg_vaddr seg) (foff - seg_file_off seg)
      else relative_in_segments segs foff)"

definition relative_addr :: "image_index \<Rightarrow> u64 \<Rightarrow> u64 \<Rightarrow> u64 \<Rightarrow> u64 option" where
  "relative_addr ix ip mstart off =
     map_option (relative_in_segments (ix_segments ix)) (file_offset ip mstart off)"

text \<open>\<^verbatim>\<open>image_relative_addr\<close> re-parses the file: \<open>None\<close> when it is not an object file.\<close>

definition image_relative_addr ::
    "u64 \<Rightarrow> u64 \<Rightarrow> u64 \<Rightarrow> segment list option \<Rightarrow> u64 option" where
  "image_relative_addr ip mstart off parsed =
     (case file_offset ip mstart off of
        None \<Rightarrow> None
      | Some foff \<Rightarrow>
          (case parsed of
             None \<Rightarrow> None
           | Some segs \<Rightarrow> Some (relative_in_segments segs foff)))"

definition symbol_range :: "(string \<Rightarrow> string) \<Rightarrow> elf_symbol \<Rightarrow> func_range option" where
  "symbol_range demangle sy =
     (if \<not> sym_is_definition sy then None
      else (case sym_name sy of
              None \<Rightarrow> None
            | Some name \<Rightarrow>
                if name = [] \<or> prefix ''$'' name then None
                else if sym_address sy = 0 then None
                else Some \<lparr>fr_name = name, fr_demangled = demangle name,
                           fr_start = sym_address sy,
                           fr_end = sat_add64 (sym_address sy) (max (sym_size sy) 1)\<rparr>))"

definition function_ranges :: "(string \<Rightarrow> string) \<Rightarrow> elf_symbol list \<Rightarrow> func_range list" where
  "function_ranges demangle syms =
     sort_key fr_start (List.map_filter (symbol_range demangle) syms)"

text \<open>
  \<^verbatim>\<open>partition_point\<close> on a slice partitioned by \<open>P\<close> is the number of leading elements
  that satisfy it; the table is sorted, so it is partitioned by \<^verbatim>\<open>start <= addr\<close>.
\<close>

definition partition_point :: "('a \<Rightarrow> bool) \<Rightarrow> 'a list \<Rightarrow> nat" where
  "partition_point P xs = length (takeWhile P xs)"

definition lookup_function :: "func_range list \<Rightarrow> u64 \<Rightarrow> func_range option" where
  "lookup_function ranges addr =
     (let i = partition_point (\<lambda>f. fr_start f \<le> addr) ranges
      in if i = 0 then None
         else (let f = ranges ! (i - 1)
               in if addr \<ge> fr_start f \<and> addr < fr_end f then Some f else None))"

definition index_build ::
    "(string \<Rightarrow> string) \<Rightarrow> segment list option \<Rightarrow> elf_symbol list option \<Rightarrow> image_index" where
  "index_build demangle segs syms =
     \<lparr>ix_segments = (case segs of None \<Rightarrow> [] | Some ss \<Rightarrow> ss),
      ix_funcs = (case syms of None \<Rightarrow> [] | Some ys \<Rightarrow> function_ranges demangle ys)\<rparr>"

definition index_function :: "image_index \<Rightarrow> u64 \<Rightarrow> func_range option" where
  "index_function ix rel = lookup_function (ix_funcs ix) rel"

section \<open>Lemmas\<close>

abbreviation in_segment :: "u64 \<Rightarrow> segment \<Rightarrow> bool" where
  "in_segment foff s \<equiv>
     seg_file_off s \<le> foff \<and> foff < sat_add64 (seg_file_off s) (seg_file_size s)"

lemma relative_in_segments_hit:
  assumes "seg \<in> set segs" "in_segment foff seg"
    and uniq: "\<And>s. s \<in> set segs \<Longrightarrow> in_segment foff s \<Longrightarrow> s = seg"
  shows "relative_in_segments segs foff = sat_add64 (seg_vaddr seg) (foff - seg_file_off seg)"
  using assms
proof (induction segs)
  case Nil
  then show ?case by simp
next
  case (Cons s segs)
  show ?case
  proof (cases "in_segment foff s")
    case True
    then have "s = seg" by (rule Cons.prems(3) [of s, simplified])
    with True show ?thesis by simp
  next
    case False
    with Cons.prems(1,2) have "seg \<in> set segs" by auto
    then have "relative_in_segments segs foff = sat_add64 (seg_vaddr seg) (foff - seg_file_off seg)"
      using Cons.prems(2) by (rule Cons.IH) (rule Cons.prems(3); simp)
    with False show ?thesis by auto
  qed
qed

lemma lookup_function_Some:
  assumes "sorted (map fr_start ranges)"
  shows "lookup_function ranges addr = Some f \<longleftrightarrow>
         (\<exists>i<length ranges. ranges ! i = f \<and> fr_start f \<le> addr \<and> addr < fr_end f
            \<and> (\<forall>j. i < j \<and> j < length ranges \<longrightarrow> addr < fr_start (ranges ! j)))"
    (is "?l \<longleftrightarrow> ?r")
proof -
  define n where "n = partition_point (\<lambda>f. fr_start f \<le> addr) ranges"
  have n: "n = length (takeWhile (\<lambda>f. fr_start f \<le> addr) ranges)"
    by (simp add: n_def partition_point_def)
  have len: "n \<le> length ranges" unfolding n by (rule length_takeWhile_le)
  have below: "fr_start (ranges ! j) \<le> addr" if "j < n" for j
    using that unfolding n by (metis nth_mem set_takeWhileD takeWhile_nth)
  have above: "addr < fr_start (ranges ! j)" if "n \<le> j" "j < length ranges" for j
  proof -
    have "\<not> fr_start (ranges ! n) \<le> addr"
      using nth_length_takeWhile [of "\<lambda>f. fr_start f \<le> addr" ranges] that n by simp
    moreover have "fr_start (ranges ! n) \<le> fr_start (ranges ! j)"
      using assms that by (simp add: sorted_iff_nth_mono)
    ultimately show ?thesis by simp
  qed
  have eq: "lookup_function ranges addr =
      (if n = 0 then None
       else if fr_start (ranges ! (n - 1)) \<le> addr \<and> addr < fr_end (ranges ! (n - 1))
       then Some (ranges ! (n - 1)) else None)"
    by (simp add: lookup_function_def n_def [symmetric] Let_def)
  show ?thesis
  proof
    assume ?l
    then have "n \<noteq> 0" "ranges ! (n - 1) = f" "fr_start f \<le> addr" "addr < fr_end f"
      by (auto simp: eq split: if_splits)
    moreover from this len have "n - 1 < length ranges" by simp
    ultimately show ?r using above by (intro exI [of _ "n - 1"]) auto
  next
    assume ?r
    then obtain i where i: "i < length ranges" "ranges ! i = f" "fr_start f \<le> addr"
      "addr < fr_end f" "\<And>j. i < j \<Longrightarrow> j < length ranges \<Longrightarrow> addr < fr_start (ranges ! j)"
      by blast
    have "i < n" using above [of i] i by force
    moreover have "\<not> Suc i < n" using below [of "Suc i"] i(5) [of "Suc i"] len by force
    ultimately have "n = Suc i" by simp
    with i show ?l by (simp add: eq)
  qed
qed

lemma sorted_function_ranges: "sorted (map fr_start (function_ranges demangle syms))"
  by (simp add: function_ranges_def)

section \<open>Properties\<close>

text \<open>
  C9: Symbol lookup. On the table built from any symbol list, the lookup of an
  address returns a range exactly when that range is the last one that starts at or
  below the address and the address lies inside it.
\<close>

theorem lookup_function_correct:
  "lookup_function (function_ranges demangle syms) addr = Some f \<longleftrightarrow>
     (\<exists>i<length (function_ranges demangle syms).
        function_ranges demangle syms ! i = f \<and> fr_start f \<le> addr \<and> addr < fr_end f
        \<and> (\<forall>j\<in>{i<..<length (function_ranges demangle syms)}.
             addr < fr_start (function_ranges demangle syms ! j)))"
  using lookup_function_Some [OF sorted_function_ranges, of demangle syms addr f] by auto

theorem lookup_function_correct_witness:
  "lookup_function (function_ranges id
     [\<lparr>sym_is_definition = True, sym_name = Some ''b'', sym_address = 64, sym_size = 8\<rparr>,
      \<lparr>sym_is_definition = True, sym_name = Some ''a'', sym_address = 16, sym_size = 32\<rparr>]) 20
   = Some \<lparr>fr_name = ''a'', fr_demangled = ''a'', fr_start = 16, fr_end = 48\<rparr>"
  unfolding lookup_function_correct
  by (rule exI [of _ 0])
    (simp add: function_ranges_def List.map_filter_def symbol_range_def sat_add64_def u64_max_def
      sort_key_def nth_Cons')

end
