(* ===== verification/Reconstruct.thy ===== *)
theory Reconstruct
  imports Perf_Records Image_Index
begin

text \<open>
  \<^verbatim>\<open>src/decode/reconstruct.rs\<close>: streaming call reconstruction. The state of the
  \<^verbatim>\<open>Reconstructor\<close> is the record \<open>recon\<close>; \<open>push\<close> consumes one decoded record and
  \<open>finish\<close> produces the analysis. Conventions of this theory:
  \<^item> a thread's call stack is a list with the innermost frame first (the Rust
    \<^verbatim>\<open>Vec\<close> has it last), so \<^verbatim>\<open>into_iter().rev()\<close> is the list order;
  \<^item> hash maps keyed by task or address are maps; the two maps that \<open>finish\<close>
    iterates over or measures (\<^verbatim>\<open>blocks\<close>, \<^verbatim>\<open>agg\<close>) are association lists;
  \<^item> the 32-bit row counters wrap (\<open>inc32\<close>), as in a release build; 64-bit
    counters that grow by at most one per record are unbounded;
  \<^item> \<^verbatim>\<open>threads.get_mut(key).unwrap()\<close> is \<open>upd_thread\<close>, which acts on a present key;
    that the key is present at every call is part of the invariant of
    \<^verbatim>\<open>Reconstruct_Inv\<close>;
  \<^item> the x86 decoder, the DWARF reader, JSON line writing and float formatting
    are the fields of \<open>env\<close>.
\<close>

section \<open>State\<close>

text \<open>
  The calls of the second pass over a spilled file, any of which may fail: its writer is flushed, the file is
  opened, its rewritten copy is created, each row is read and parsed, written again, and the copy is flushed.
  Reading also finds the end of the file.
\<close>

datatype spill_file = EventsFile | SpansFile

datatype spill_io =
    FlushFile spill_file | OpenSource spill_file | CreateDest spill_file | ReadRow spill_file nat
  | WriteRow spill_file nat | FlushDest spill_file

record env =
  x_insn_len :: "nat list \<Rightarrow> nat option"
  x_frames :: "string \<Rightarrow> u64 \<Rightarrow> string list option"
  x_write_event :: "u64 \<Rightarrow> flow_event \<Rightarrow> error + u64"
  x_write_span :: "u64 \<Rightarrow> function_span \<Rightarrow> error + u64"
  x_fmt_ms :: "u64 \<Rightarrow> string"
  x_spill_io :: "spill_io \<Rightarrow> error + unit"

record spill =
  spill_events :: "flow_event list"
  spill_spans :: "function_span list"
  spill_bytes :: u64
  spill_budget :: u64
  spill_events_n :: u64
  spill_spans_n :: u64

definition spill_open :: "u64 \<Rightarrow> spill" where
  "spill_open budget =
     \<lparr>spill_events = [], spill_spans = [], spill_bytes = 0, spill_budget = budget,
      spill_events_n = 0, spill_spans_n = 0\<rparr>"

definition spill_check :: "spill \<Rightarrow> error + unit" where
  "spill_check sp =
     (if spill_bytes sp > spill_budget sp
      then Inl (with_next ''Capture with a smaller aux_bytes_per_buffer or fewer cpus''
             (limit_error (''derived artifact budget '' @ show_dec (spill_budget sp)
                @ '' exceeded while writing '' @ show_dec (spill_events_n sp) @ '' events and ''
                @ show_dec (spill_spans_n sp) @ '' spans'')))
      else Inr ())"

record open_span =
  os_id :: local_id
  os_function :: "local_id option"
  os_parent :: "local_id option"
  os_start_abs :: "u64 option"
  os_start_event :: local_id
  os_completeness :: span_completeness
  os_call_site :: "u64 option"

record pending_end =
  pe_from_fn :: "local_id option"
  pe_from_loc :: "local_id option"
  pe_abs :: "u64 option"
  pe_cpu :: "u32 option"
  pe_reason :: string

record thread_state =
  ts_id :: thread_id
  ts_pid :: u32
  ts_tid :: u32
  ts_stack :: "open_span list"
  ts_last_abs :: "u64 option"
  ts_last_seq :: u64
  ts_comm :: "string option"
  ts_first_abs :: "u64 option"
  ts_branches :: u64
  ts_retained :: u64
  ts_spans :: u64
  ts_gaps :: u64
  ts_pending_end :: "pending_end option"
  ts_segments :: "(u64 \<times> u64) list"
  ts_last_cpu :: "u32 option"
  ts_block_start :: "(u64 \<times> u64 option) option"

record block_info =
  bi_function :: "local_id option"
  bi_chain_key :: nat
  bi_instructions :: nat

record inline_agg =
  ia_instructions :: u64
  ia_blocks :: u64
  ia_elapsed :: u64

type_synonym task_key = "u32 \<times> u32"
type_synonym inline_key = "task_key \<times> local_id option \<times> nat"

record inline_state =
  is_chains :: "string list list"
  is_chain_index :: "string list \<rightharpoonup> nat"
  is_blocks :: "((u32 \<times> u64 \<times> u64) \<times> block_info) list"
  is_agg :: "(inline_key \<times> inline_agg) list"
  is_block_count :: u64

record resolved =
  r_loc :: "local_id option"
  r_func :: "local_id option"
  r_map :: "u32 option"

definition resolved_none :: resolved where
  "resolved_none = \<lparr>r_loc = None, r_func = None, r_map = None\<rparr>"

section \<open>Thread identities\<close>

record thread_ids =
  tg_generation :: "task_key \<rightharpoonup> u32"
  tg_exited :: "task_key set"

definition thread_ids_default :: thread_ids where
  "thread_ids_default = \<lparr>tg_generation = Map.empty, tg_exited = {}\<rparr>"

definition thread_ids_observe :: "raw_record \<Rightarrow> thread_ids \<Rightarrow> thread_ids" where
  "thread_ids_observe rec g =
     (case rec of
        RTask t \<Rightarrow>
          if t_kind t = TExit
          then g\<lparr>tg_exited := insert (t_pid t, t_tid t) (tg_exited g)\<rparr> else g
      | _ \<Rightarrow> g)"

definition take_exited :: "task_key \<Rightarrow> thread_ids \<Rightarrow> bool \<times> thread_ids" where
  "take_exited key g =
     (if key \<in> tg_exited g
      then (True, g\<lparr>tg_exited := tg_exited g - {key},
                    tg_generation := (tg_generation g)(key \<mapsto>
                      (case tg_generation g key of None \<Rightarrow> 0 | Some n \<Rightarrow> n) + 1)\<rparr>)
      else (False, g))"

definition thread_id_for :: "u32 \<Rightarrow> u32 \<Rightarrow> thread_id" where
  "thread_id_for pid tid = ''t_'' @ show_dec tid"

definition thread_ids_id :: "thread_ids \<Rightarrow> u32 \<Rightarrow> u32 \<Rightarrow> thread_id" where
  "thread_ids_id g pid tid =
     (let n = (case tg_generation g (pid, tid) of None \<Rightarrow> 0 | Some n \<Rightarrow> n)
      in if n = 0 then ''t_'' @ show_dec tid
         else ''t_'' @ show_dec tid @ ''_g'' @ show_dec n)"

section \<open>The reconstructor\<close>

record recon =
  rc_analysis_id :: analysis_id
  rc_images :: "archived_image list"
  rc_index :: "image_index list"
  rc_mappings :: "mapping_record list"
  rc_mapping_abs :: "u64 option list"
  rc_maps_by_pid :: "u32 \<rightharpoonup> u32 list"
  rc_threads :: "task_key \<rightharpoonup> thread_state"
  rc_thread_order :: "task_key list"
  rc_retired :: "thread_state list"
  rc_thread_ids :: thread_ids
  rc_functions :: "function_record list"
  rc_func_index :: "(u32 \<times> u64) \<rightharpoonup> local_id"
  rc_locations :: "code_location list"
  rc_loc_index :: "(u32 \<times> u64) \<rightharpoonup> local_id"
  rc_ip_cache :: "(u32 \<times> u64) \<rightharpoonup> resolved"
  rc_events :: "flow_event list"
  rc_spans :: "function_span list"
  rc_gaps :: "gap_record list"
  rc_next_event :: u32
  rc_next_span :: u32
  rc_next_gap :: u32
  rc_decoder_errors :: u64
  rc_missing_image_samples :: u64
  rc_missing_image_paths :: "string list"
  rc_unwind_mismatch :: u64
  rc_unwind_examples :: "string list"
  rc_lost_records :: u64
  rc_time_unknown :: u64
  rc_samples :: u64
  rc_min_abs :: "u64 option"
  rc_budget_bytes :: u64
  rc_cpu_first_abs :: "u32 \<rightharpoonup> u64"
  rc_ring_holes :: u64
  rc_min_time_step :: "u64 option"
  rc_trigger :: "(u64 \<times> u32) option"
  rc_trigger_traps :: u32
  rc_trigger_hit_abs :: "u64 option"
  rc_cur_call_site :: "u64 option"
  rc_inline :: "inline_state option"
  rc_spill :: "spill option"
  rc_extra_notes :: "string list"
  rc_events_n :: u64
  rc_spans_n :: u64
  rc_pid_filter :: "pid_tracker option"
  rc_foreign_samples :: u64
  rc_foreign_pids :: "u32 set"
  rc_comms :: "task_key \<rightharpoonup> string"

text \<open>
  \<^verbatim>\<open>Reconstructor::new\<close>; the index of each image is the result of \<open>index_build\<close>
  on its parsed bytes.
\<close>

definition recon_new :: "analysis_id \<Rightarrow> archived_image list \<Rightarrow> image_index list \<Rightarrow> recon" where
  "recon_new aid imgs ixs =
     \<lparr>rc_analysis_id = aid, rc_images = imgs, rc_index = ixs, rc_mappings = [],
      rc_mapping_abs = [], rc_maps_by_pid = Map.empty, rc_threads = Map.empty,
      rc_thread_order = [], rc_retired = [], rc_thread_ids = thread_ids_default,
      rc_functions = [], rc_func_index = Map.empty, rc_locations = [],
      rc_loc_index = Map.empty, rc_ip_cache = Map.empty, rc_events = [], rc_spans = [],
      rc_gaps = [], rc_next_event = 0, rc_next_span = 0, rc_next_gap = 0,
      rc_decoder_errors = 0, rc_missing_image_samples = 0, rc_missing_image_paths = [],
      rc_unwind_mismatch = 0, rc_unwind_examples = [], rc_lost_records = 0,
      rc_time_unknown = 0, rc_samples = 0, rc_min_abs = None, rc_budget_bytes = u64_max,
      rc_cpu_first_abs = Map.empty, rc_ring_holes = 0, rc_min_time_step = None,
      rc_trigger = None, rc_trigger_traps = 0, rc_trigger_hit_abs = None,
      rc_cur_call_site = None, rc_inline = None, rc_spill = None, rc_extra_notes = [],
      rc_events_n = 0, rc_spans_n = 0, rc_pid_filter = None, rc_foreign_samples = 0,
      rc_foreign_pids = {}, rc_comms = Map.empty\<rparr>"

definition with_note :: "string \<Rightarrow> recon \<Rightarrow> recon" where
  "with_note n st = st\<lparr>rc_extra_notes := rc_extra_notes st @ [n]\<rparr>"

definition with_trigger :: "u64 \<Rightarrow> u32 \<Rightarrow> recon \<Rightarrow> recon" where
  "with_trigger addr hits st = st\<lparr>rc_trigger := Some (addr, max hits 1)\<rparr>"

definition with_pid_filter :: "pid_tracker \<Rightarrow> recon \<Rightarrow> recon" where
  "with_pid_filter p st = st\<lparr>rc_pid_filter := Some p\<rparr>"

definition with_spill :: "u64 \<Rightarrow> recon \<Rightarrow> recon" where
  "with_spill budget st = st\<lparr>rc_spill := Some (spill_open budget)\<rparr>"

definition with_budget :: "u64 \<Rightarrow> recon \<Rightarrow> recon" where
  "with_budget bytes st = st\<lparr>rc_budget_bytes := bytes\<rparr>"

definition with_inline_attribution :: "recon \<Rightarrow> recon" where
  "with_inline_attribution st =
     st\<lparr>rc_inline := Some \<lparr>is_chains = [], is_chain_index = Map.empty, is_blocks = [],
                            is_agg = [], is_block_count = 0\<rparr>\<rparr>"

definition abs_time :: "u64 option \<Rightarrow> event_time" where
  "abs_time a = (case a of Some t \<Rightarrow> time_estimate t | None \<Rightarrow> time_unknown)"

definition retained_bytes :: "recon \<Rightarrow> u64" where
  "retained_bytes st =
     length (rc_events st) * 96 + length (rc_spans st) * 112 + length (rc_locations st) * 128
     + length (rc_functions st) * 256 + length (rc_gaps st) * 128"

definition emit_event :: "env \<Rightarrow> flow_event \<Rightarrow> recon \<Rightarrow> error + recon" where
  "emit_event x ev st0 =
     (let st = st0\<lparr>rc_events_n := Suc (rc_events_n st0)\<rparr>
      in case rc_spill st of
           Some sp \<Rightarrow>
             (case x_write_event x (spill_events_n sp) ev of
                Inl e \<Rightarrow> Inl e
              | Inr n \<Rightarrow>
                  (let sp' = sp\<lparr>spill_bytes := spill_bytes sp + n,
                                spill_events := spill_events sp @ [ev],
                                spill_events_n := Suc (spill_events_n sp)\<rparr>
                   in if spill_events_n sp' mod 65536 = 0
                      then try_bind (spill_check sp') (\<lambda>_. Inr (st\<lparr>rc_spill := Some sp'\<rparr>))
                      else Inr (st\<lparr>rc_spill := Some sp'\<rparr>)))
         | None \<Rightarrow> Inr (st\<lparr>rc_events := rc_events st @ [ev]\<rparr>))"

definition emit_span :: "env \<Rightarrow> function_span \<Rightarrow> recon \<Rightarrow> recon" where
  "emit_span x s st0 =
     (let st = st0\<lparr>rc_spans_n := Suc (rc_spans_n st0)\<rparr>
      in case rc_spill st of
           Some sp \<Rightarrow>
             (let sp1 = (case x_write_span x (spill_spans_n sp) s of
                           Inr n \<Rightarrow> sp\<lparr>spill_bytes := spill_bytes sp + n,
                                       spill_spans := spill_spans sp @ [s]\<rparr>
                         | Inl _ \<Rightarrow> sp)
              in st\<lparr>rc_spill := Some (sp1\<lparr>spill_spans_n := Suc (spill_spans_n sp1)\<rparr>)\<rparr>)
         | None \<Rightarrow> st\<lparr>rc_spans := rc_spans st @ [s]\<rparr>)"

definition note_abs :: "u64 option \<Rightarrow> recon \<Rightarrow> recon" where
  "note_abs a st =
     (case a of
        None \<Rightarrow> st
      | Some t \<Rightarrow>
          if t \<noteq> 0
          then st\<lparr>rc_min_abs := Some (case rc_min_abs st of None \<Rightarrow> t | Some m \<Rightarrow> min m t)\<rparr>
          else st)"

definition upd_thread :: "task_key \<Rightarrow> (thread_state \<Rightarrow> thread_state) \<Rightarrow> recon \<Rightarrow> recon" where
  "upd_thread key f st =
     (case rc_threads st key of
        None \<Rightarrow> st
      | Some t \<Rightarrow> st\<lparr>rc_threads := (rc_threads st)(key \<mapsto> f t)\<rparr>)"

definition new_thread_state :: "thread_id \<Rightarrow> u32 \<Rightarrow> u32 \<Rightarrow> string option \<Rightarrow> thread_state" where
  "new_thread_state i pid tid comm =
     \<lparr>ts_id = i, ts_pid = pid, ts_tid = tid, ts_stack = [], ts_last_abs = None,
      ts_last_seq = 0, ts_comm = comm, ts_first_abs = None, ts_branches = 0,
      ts_retained = 0, ts_spans = 0, ts_gaps = 0, ts_pending_end = None,
      ts_segments = [], ts_last_cpu = None, ts_block_start = None\<rparr>"

text \<open>\<^verbatim>\<open>fn thread\<close>: the state of the task, created on first use.\<close>

definition ensure_thread :: "u32 \<Rightarrow> u32 \<Rightarrow> recon \<Rightarrow> recon" where
  "ensure_thread pid tid st =
     (case rc_threads st (pid, tid) of
        Some _ \<Rightarrow> st
      | None \<Rightarrow>
          st\<lparr>rc_thread_order := rc_thread_order st @ [(pid, tid)],
             rc_threads := (rc_threads st)((pid, tid) \<mapsto>
               new_thread_state (thread_ids_id (rc_thread_ids st) pid tid) pid tid
                 (rc_comms st (pid, tid)))\<rparr>)"

definition thread_of :: "task_key \<Rightarrow> recon \<Rightarrow> thread_state" where
  "thread_of key st = the (rc_threads st key)"

definition push_gap ::
    "thread_id \<Rightarrow> gap_kind \<Rightarrow> u64 option \<Rightarrow> u64 option \<Rightarrow> bool \<Rightarrow> string \<Rightarrow> recon \<Rightarrow> recon" where
  "push_gap thread kind start_abs end_abs known reason st =
     st\<lparr>rc_next_gap := inc32 (rc_next_gap st),
        rc_gaps := rc_gaps st @
          [\<lparr>gap_id = rc_next_gap st, gap_thread = thread, gap_kind_of = kind,
            gap_start = abs_time start_abs, gap_end = abs_time end_abs,
            gap_extent_known = known, gap_reason = reason\<rparr>]\<rparr>"

section \<open>Spans\<close>

definition span_of_open ::
    "thread_id \<Rightarrow> open_span \<Rightarrow> event_time \<Rightarrow> span_completeness \<Rightarrow> local_id \<Rightarrow> function_span" where
  "span_of_open thread os stop compl end_event =
     \<lparr>sp_id = os_id os, sp_thread = thread, sp_function = os_function os,
      sp_parent = os_parent os, sp_start = abs_time (os_start_abs os), sp_end = stop,
      sp_completeness = compl,
      sp_evidence = \<lparr>er_start = os_start_event os, er_end = end_event\<rparr>,
      sp_call_site = map_option Address (os_call_site os)\<rparr>"

definition push_open ::
    "task_key \<Rightarrow> local_id option \<Rightarrow> u64 option \<Rightarrow> local_id \<Rightarrow> span_completeness \<Rightarrow> recon \<Rightarrow> recon"
  where
  "push_open key f a eid compl st =
     (let i = rc_next_span st;
          site = rc_cur_call_site st
      in upd_thread key
           (\<lambda>t. t\<lparr>ts_stack :=
              \<lparr>os_id = i, os_function = f,
               os_parent = (case ts_stack t of [] \<Rightarrow> None | s # _ \<Rightarrow> Some (os_id s)),
               os_start_abs = a, os_start_event = eid, os_completeness = compl,
               os_call_site = site\<rparr> # ts_stack t\<rparr>)
           (st\<lparr>rc_next_span := inc32 i\<rparr>))"

definition close_span ::
    "env \<Rightarrow> task_key \<Rightarrow> open_span \<Rightarrow> u64 option \<Rightarrow> local_id \<Rightarrow> span_completeness \<Rightarrow> recon \<Rightarrow> recon"
  where
  "close_span x key os end_abs end_event compl st =
     emit_span x
       (span_of_open (ts_id (thread_of key st)) os (abs_time end_abs) compl end_event)
       (upd_thread key (\<lambda>t. t\<lparr>ts_spans := Suc (ts_spans t)\<rparr>) st)"

definition close_completeness :: "span_completeness \<Rightarrow> span_completeness" where
  "close_completeness c =
     (case c of OpenStart \<Rightarrow> OpenBoth | OpenBoth \<Rightarrow> OpenBoth | _ \<Rightarrow> OpenEnd)"

definition emit_open_spans ::
    "env \<Rightarrow> thread_id \<Rightarrow> event_time \<Rightarrow> (open_span \<Rightarrow> span_completeness) \<Rightarrow> open_span list \<Rightarrow>
     recon \<Rightarrow> recon" where
  "emit_open_spans x thread stop compl stack st =
     fold (\<lambda>os. emit_span x (span_of_open thread os stop (compl os) (os_start_event os))) stack st"

definition take_stack :: "thread_state \<Rightarrow> thread_state" where
  "take_stack t = t\<lparr>ts_spans := ts_spans t + length (ts_stack t), ts_stack := []\<rparr>"

definition interrupt_thread :: "env \<Rightarrow> task_key \<Rightarrow> recon \<Rightarrow> recon" where
  "interrupt_thread x key st =
     (case rc_threads st key of
        None \<Rightarrow> st
      | Some t \<Rightarrow>
          emit_open_spans x (ts_id t) time_unknown (\<lambda>_. InterruptedByGap) (ts_stack t)
            (st\<lparr>rc_threads := (rc_threads st)(key \<mapsto> take_stack t)\<rparr>))"

definition retire_thread :: "env \<Rightarrow> task_key \<Rightarrow> u64 option \<Rightarrow> recon \<Rightarrow> recon" where
  "retire_thread x key a st =
     (case rc_threads st key of
        None \<Rightarrow> st
      | Some t \<Rightarrow>
          (let st1 = st\<lparr>rc_threads := (rc_threads st)(key := None),
                        rc_thread_order := filter (\<lambda>k. k \<noteq> key) (rc_thread_order st)\<rparr>;
               st2 = emit_open_spans x (ts_id t) (abs_time a)
                       (\<lambda>os. close_completeness (os_completeness os)) (ts_stack t) st1
           in st2\<lparr>rc_thread_ids := snd (take_exited key (rc_thread_ids st2)),
                  rc_retired := rc_retired st2 @ [(take_stack t)\<lparr>ts_pending_end := None\<rparr>]\<rparr>))"

section \<open>Address resolution\<close>

definition find_mapping ::
    "mapping_record list \<Rightarrow> u32 list \<Rightarrow> (mapping_record \<Rightarrow> bool) \<Rightarrow> u32 option" where
  "find_mapping ms idxs P = find (\<lambda>i. P (ms ! i)) (rev idxs)"

definition intern_function ::
    "u32 \<Rightarrow> string \<Rightarrow> func_range \<Rightarrow> recon \<Rightarrow> local_id \<times> recon" where
  "intern_function image_key image_id fr st =
     (case rc_func_index st (image_key, fr_start fr) of
        Some i \<Rightarrow> (i, st)
      | None \<Rightarrow>
          (let i = as_u32 (length (rc_functions st))
           in (i, st\<lparr>rc_functions := rc_functions st @
                       [\<lparr>fn_id = i, fn_name = fr_name fr, fn_demangled = fr_demangled fr,
                         fn_image_id = image_id, fn_start = Address (fr_start fr),
                         fn_end = Address (fr_end fr)\<rparr>],
                     rc_func_index := (rc_func_index st)((image_key, fr_start fr) \<mapsto> i)\<rparr>)))"

definition intern_location ::
    "u32 \<Rightarrow> string \<Rightarrow> u64 \<Rightarrow> u64 \<Rightarrow> local_id option \<Rightarrow> recon \<Rightarrow> local_id \<times> recon" where
  "intern_location image_key image_id rel ip func st =
     (case rc_loc_index st (image_key, rel) of
        Some i \<Rightarrow> (i, st)
      | None \<Rightarrow>
          (let i = as_u32 (length (rc_locations st))
           in (i, st\<lparr>rc_locations := rc_locations st @
                       [\<lparr>loc_id = i, loc_image_id = image_id, image_offset = Address rel,
                         virt_ip = Some (Address ip), loc_function = func, loc_file = None,
                         loc_line = None, loc_inlined = None\<rparr>],
                     rc_loc_index := (rc_loc_index st)((image_key, rel) \<mapsto> i)\<rparr>)))"

definition note_missing_image :: "string \<Rightarrow> recon \<Rightarrow> recon" where
  "note_missing_image path st =
     (if path \<noteq> [] \<and> \<not> prefix ''['' path
      then st\<lparr>rc_missing_image_samples := Suc (rc_missing_image_samples st),
              rc_missing_image_paths :=
                (if path \<in> set (rc_missing_image_paths st) then rc_missing_image_paths st
                 else rc_missing_image_paths st @ [path])\<rparr>
      else st)"

definition resolve_uncached :: "u32 \<Rightarrow> u64 \<Rightarrow> recon \<Rightarrow> resolved \<times> recon" where
  "resolve_uncached pid ip st =
     (case rc_maps_by_pid st pid of
        None \<Rightarrow> (resolved_none, st)
      | Some maps \<Rightarrow>
          (case find_mapping (rc_mappings st) maps
                  (\<lambda>m. ip \<ge> address_val (mp_start m) \<and> ip < address_val (mp_end m)) of
             None \<Rightarrow> (resolved_none, st)
           | Some map_idx \<Rightarrow>
               (let m = rc_mappings st ! map_idx;
                    mstart = address_val (mp_start m);
                    (image_key, image_id, rel, func, st1) =
                      (case position (\<lambda>i. img_path (ai_identity i) = mp_path m) (rc_images st) of
                         Some ii \<Rightarrow>
                           (let ix = rc_index st ! ii;
                                rel = (case relative_addr ix ip mstart (mp_pgoff m) of
                                         Some r \<Rightarrow> r | None \<Rightarrow> ip - mstart)
                            in (as_u32 ii, content_hash (ai_identity (rc_images st ! ii)), rel,
                                index_function ix rel, st))
                       | None \<Rightarrow>
                           (u32_max - map_idx, mp_path m, ip - mstart, None,
                            note_missing_image (mp_path m) st));
                    (func_id, st2) =
                      (case func of
                         None \<Rightarrow> (None, st1)
                       | Some fr \<Rightarrow>
                           (let (i, s) = intern_function image_key image_id fr st1
                            in (Some i, s)));
                    (lid, st3) = intern_location image_key image_id rel ip func_id st2
                in (\<lparr>r_loc = Some lid, r_func = func_id, r_map = Some map_idx\<rparr>, st3))))"

definition resolve :: "u32 \<Rightarrow> u64 option \<Rightarrow> recon \<Rightarrow> resolved \<times> recon" where
  "resolve pid ip st =
     (case ip of
        None \<Rightarrow> (resolved_none, st)
      | Some a \<Rightarrow>
          (case rc_ip_cache st (pid, a) of
             Some r \<Rightarrow> (r, st)
           | None \<Rightarrow>
               (let (r, st1) = resolve_uncached pid a st
                in (r, st1\<lparr>rc_ip_cache := (rc_ip_cache st1)((pid, a) \<mapsto> r)\<rparr>))))"

section \<open>Inline attribution\<close>

text \<open>
  Instructions of a straight-line block: the decoder is at \<open>ip\<close> with the given bytes
  left; \<open>x_insn_len\<close> is \<open>None\<close> on an invalid instruction. Fuel is the number of
  bytes: an instruction has at least one.
\<close>

fun count_instructions :: "env \<Rightarrow> nat \<Rightarrow> nat list \<Rightarrow> u64 \<Rightarrow> u64 \<Rightarrow> nat" where
  "count_instructions x 0 bytes ip stop = 0"
| "count_instructions x (Suc fuel) bytes ip stop =
     (if bytes = [] \<or> ip > stop then 0
      else (case x_insn_len x bytes of
              None \<Rightarrow> 0
            | Some n \<Rightarrow> Suc (count_instructions x fuel (drop n bytes) (ip + n) stop)))"

definition inline_chain :: "env \<Rightarrow> string \<Rightarrow> u64 \<Rightarrow> string list" where
  "inline_chain x path rel = (case x_frames x path rel of None \<Rightarrow> [] | Some ns \<Rightarrow> butlast ns)"

definition intern_chain :: "string list \<Rightarrow> inline_state \<Rightarrow> nat \<times> inline_state" where
  "intern_chain chain s =
     (case is_chain_index s chain of
        Some k \<Rightarrow> (k, s)
      | None \<Rightarrow>
          (let k = as_u32 (length (is_chains s))
           in (k, s\<lparr>is_chains := is_chains s @ [chain],
                    is_chain_index := (is_chain_index s)(chain \<mapsto> k)\<rparr>)))"

text \<open>The facts of a block not seen before; \<open>None\<close> where the code returns early.\<close>

definition compute_block ::
    "env \<Rightarrow> u32 \<Rightarrow> u64 \<Rightarrow> u64 \<Rightarrow> recon \<Rightarrow> inline_state \<Rightarrow> (block_info \<times> inline_state) option" where
  "compute_block x pid start end_ip st inl =
     (case rc_maps_by_pid st pid of
        None \<Rightarrow> None
      | Some maps \<Rightarrow>
     (case find_mapping (rc_mappings st) maps
             (\<lambda>m. start \<ge> address_val (mp_start m) \<and> end_ip < address_val (mp_end m)) of
        None \<Rightarrow> None
      | Some map_idx \<Rightarrow>
     (let m = rc_mappings st ! map_idx; mstart = address_val (mp_start m) in
     (case position (\<lambda>i. img_path (ai_identity i) = mp_path m) (rc_images st) of
        None \<Rightarrow> None
      | Some ii \<Rightarrow>
     (let ix = rc_index st ! ii; img = rc_images st ! ii in
     (case (relative_addr ix start mstart (mp_pgoff m), relative_addr ix end_ip mstart (mp_pgoff m),
            file_offset start mstart (mp_pgoff m), file_offset end_ip mstart (mp_pgoff m)) of
        (Some rel_start, Some rel_end, Some off, Some off_end) \<Rightarrow>
          if off_end \<ge> length (ai_bytes img) then None
          else
            (let func = Option.bind (index_function ix rel_start)
                          (\<lambda>fr. rc_func_index st (as_u32 ii, fr_start fr));
                 slice_end = min (off_end + 16) (length (ai_bytes img));
                 bytes = take (slice_end - off) (drop off (ai_bytes img));
                 n = count_instructions x (length bytes) bytes rel_start rel_end;
                 (k, inl1) = intern_chain (inline_chain x (ai_archive_path img) rel_start) inl;
                 info = \<lparr>bi_function = func, bi_chain_key = k, bi_instructions = n\<rparr>
             in Some (info,
                  if length (is_blocks inl1) < 4000000
                  then inl1\<lparr>is_blocks := AList.update (pid, start, end_ip) info (is_blocks inl1)\<rparr>
                  else inl1))
      | _ \<Rightarrow> None))))))"

definition attribute_block ::
    "env \<Rightarrow> task_key \<Rightarrow> u32 \<Rightarrow> u64 \<Rightarrow> u64 \<Rightarrow> u64 option \<Rightarrow> u64 option \<Rightarrow> recon \<Rightarrow> recon" where
  "attribute_block x key pid start end_ip t0 t1 st =
     (case rc_inline st of
        None \<Rightarrow> st
      | Some inl \<Rightarrow>
          if end_ip < start \<or> end_ip - start > 2 ^ 20 then st
          else
            (let elapsed = (case (t0, t1) of
                              (Some a, Some b) \<Rightarrow> if b \<ge> a then b - a else 0 | _ \<Rightarrow> 0)
             in case (case map_of (is_blocks inl) (pid, start, end_ip) of
                        Some i \<Rightarrow> Some (i, inl)
                      | None \<Rightarrow> compute_block x pid start end_ip st inl) of
                  None \<Rightarrow> st
                | Some (info, inl1) \<Rightarrow>
                    (let k = (key, bi_function info, bi_chain_key info);
                         e = (case map_of (is_agg inl1) k of
                                Some e \<Rightarrow> e
                              | None \<Rightarrow> \<lparr>ia_instructions = 0, ia_blocks = 0, ia_elapsed = 0\<rparr>);
                         e' = \<lparr>ia_instructions = ia_instructions e + bi_instructions info,
                               ia_blocks = Suc (ia_blocks e),
                               ia_elapsed = ia_elapsed e + elapsed\<rparr>
                     in st\<lparr>rc_inline := Some (inl1\<lparr>is_block_count := Suc (is_block_count inl1),
                            is_agg := AList.update k e' (is_agg inl1)\<rparr>)\<rparr>)))"

end
