(* ===== verification/Reconstruct_Flow.thy ===== *)
theory Reconstruct_Flow
  imports Reconstruct
begin

text \<open>
  The second half of \<^verbatim>\<open>src/decode/reconstruct.rs\<close>'s streaming part: what one control
  transfer does to a thread's stack (\<^verbatim>\<open>apply_flow\<close>), one sample
  (\<^verbatim>\<open>push_sample\<close>) and one decoded record (\<^verbatim>\<open>push\<close>). The long Rust functions are
  cut at their early returns into \<open>resolve_pending\<close>, \<open>apply_boundary\<close>,
  \<open>apply_return\<close>, \<open>apply_jump\<close> and the steps of \<open>push_sample\<close>, and composed in the
  order of the code.
\<close>

section \<open>Applying one control transfer\<close>

definition bump_gaps :: "task_key \<Rightarrow> recon \<Rightarrow> recon" where
  "bump_gaps key st = upd_thread key (\<lambda>t. t\<lparr>ts_gaps := Suc (ts_gaps t)\<rparr>) st"

definition opt_text :: "u32 option \<Rightarrow> string" where
  "opt_text c = (case c of None \<Rightarrow> ''?'' | Some n \<Rightarrow> show_dec n)"

text \<open>The thread resumed on a CPU whose ring does not reach back to where it left.\<close>

definition is_ring_hole :: "pending_end \<Rightarrow> u32 option \<Rightarrow> u64 option \<Rightarrow> bool" where
  "is_ring_hole p cpu cpu_first \<longleftrightarrow>
     cpu \<noteq> None \<and> cpu \<noteq> pe_cpu p \<and>
     (case (pe_abs p, cpu_first) of
        (Some left, Some first) \<Rightarrow> first > left
      | (Some _, None) \<Rightarrow> True
      | _ \<Rightarrow> False)"

definition split_segment :: "u64 option \<Rightarrow> u64 option \<Rightarrow> (u64 \<times> u64) list \<Rightarrow> (u64 \<times> u64) list" where
  "split_segment a left segs =
     (case a of
        None \<Rightarrow> segs
      | Some t \<Rightarrow>
          (case left of
             Some l \<Rightarrow> (if segs = [] then [] else butlast segs @ [(fst (last segs), l)])
           | None \<Rightarrow> segs) @ [(t, t)])"

definition open_at ::
    "task_key \<Rightarrow> local_id option \<Rightarrow> u64 option \<Rightarrow> local_id \<Rightarrow> recon \<Rightarrow> recon" where
  "open_at key f a eid st =
     (case f of None \<Rightarrow> st | Some g \<Rightarrow> push_open key (Some g) a eid OpenStart st)"

text \<open>
  The part of \<^verbatim>\<open>apply_flow\<close> that settles a pending \<^verbatim>\<open>tr end\<close>. The boolean result
  is \<open>True\<close> where the Rust function returns, \<open>False\<close> where it falls through.
\<close>

definition resolve_pending ::
    "env \<Rightarrow> task_key \<Rightarrow> boundary_flags \<Rightarrow> resolved \<Rightarrow> resolved \<Rightarrow> u64 option \<Rightarrow> u32 option \<Rightarrow>
     local_id \<Rightarrow> recon \<Rightarrow> bool \<times> recon" where
  "resolve_pending x key bd from to a cpu eid st0 =
     (case ts_pending_end (thread_of key st0) of
        None \<Rightarrow> (False, st0)
      | Some p \<Rightarrow>
          (let st = upd_thread key (\<lambda>t. t\<lparr>ts_pending_end := None\<rparr>) st0;
               thread = ts_id (thread_of key st);
               cpu_first = Option.bind cpu (rc_cpu_first_abs st)
           in if is_ring_hole p cpu cpu_first then
                (let hole_end = opt_or cpu_first a;
                     st1 = interrupt_thread x key (st\<lparr>rc_ring_holes := Suc (rc_ring_holes st)\<rparr>);
                     st2 = push_gap thread RingTruncation (pe_abs p) hole_end
                             (pe_abs p \<noteq> None \<and> hole_end \<noteq> None)
                             (''thread moved from cpu '' @ opt_text (pe_cpu p) @ '' to cpu ''
                              @ opt_text cpu @ ''; execution in between was overwritten in the AUX ring'')
                             st1;
                     st3 = upd_thread key (\<lambda>t. t\<lparr>ts_gaps := Suc (ts_gaps t),
                             ts_segments := split_segment a (pe_abs p) (ts_segments t)\<rparr>) st2
                 in if trace_begin bd
                    then (True, open_at key (opt_or (r_func to) (r_func from)) a eid st3)
                    else (False, st3))
              else if trace_begin bd then
                (if pe_from_fn p \<noteq> None \<and> r_func to = pe_from_fn p then
                   (let st1 = bump_gaps key
                          (push_gap thread TraceBoundary (pe_abs p) a
                             (pe_abs p \<noteq> None \<and> a \<noteq> None) (pe_reason p) st)
                    in (True, if ts_stack (thread_of key st1) = []
                              then open_at key (r_func to) (opt_or (pe_abs p) a) eid st1
                              else st1))
                 else
                   (let st1 = bump_gaps key
                          (push_gap thread UnknownGap (pe_abs p) a False
                             (pe_reason p @ ''; resumed elsewhere'')
                             (interrupt_thread x key st))
                    in (True, open_at key (opt_or (r_func to) (r_func from)) a eid st1)))
              else
                (False, bump_gaps key
                   (push_gap thread UnknownGap (pe_abs p) a False
                      (pe_reason p @ ''; no trace start before next sample'')
                      (interrupt_thread x key st)))))"

definition end_reason :: "boundary_flags \<Rightarrow> string" where
  "end_reason bd =
     (if syscall bd then ''syscall''
      else if async_event bd then ''async''
      else if interrupt bd then ''interrupt''
      else ''trace end'')"

definition apply_boundary ::
    "env \<Rightarrow> task_key \<Rightarrow> boundary_flags \<Rightarrow> resolved \<Rightarrow> resolved \<Rightarrow> u64 option \<Rightarrow> u32 option \<Rightarrow>
     local_id \<Rightarrow> recon \<Rightarrow> recon" where
  "apply_boundary x key bd from to a cpu eid st =
     (if trace_end bd then
        upd_thread key (\<lambda>t. t\<lparr>ts_pending_end :=
          Some \<lparr>pe_from_fn = r_func from, pe_from_loc = r_loc from, pe_abs = a,
                pe_cpu = cpu, pe_reason = end_reason bd\<rparr>\<rparr>) st
      else if async_event bd \<or> interrupt bd \<or> transaction bd then
        bump_gaps key
          (push_gap (ts_id (thread_of key st)) UnknownGap a None False
             ''async or interrupt transfer'' (interrupt_thread x key st))
      else if trace_begin bd then
        (if ts_stack (thread_of key st) = []
         then open_at key (opt_or (r_func to) (r_func from)) a eid st
         else st)
      else st)"

definition function_name :: "recon \<Rightarrow> local_id option \<Rightarrow> string" where
  "function_name st i =
     (case i of
        None \<Rightarrow> ''<unknown>''
      | Some n \<Rightarrow>
          if n < length (rc_functions st) then fn_demangled (rc_functions st ! n)
          else ''<unknown>'')"

definition note_unwind_mismatch :: "resolved \<Rightarrow> local_id \<Rightarrow> local_id \<Rightarrow> recon \<Rightarrow> recon" where
  "note_unwind_mismatch from t tp st =
     st\<lparr>rc_unwind_mismatch := Suc (rc_unwind_mismatch st),
        rc_unwind_examples :=
          (if length (rc_unwind_examples st) < 5
           then rc_unwind_examples st @
             [''return from '' @ function_name st (r_func from) @ '' landed in ''
              @ function_name st (Some t) @ '' but the open frame is ''
              @ function_name st (Some tp)]
           else rc_unwind_examples st)\<rparr>"

definition apply_return ::
    "env \<Rightarrow> task_key \<Rightarrow> resolved \<Rightarrow> resolved \<Rightarrow> u64 option \<Rightarrow> local_id \<Rightarrow> recon \<Rightarrow> recon" where
  "apply_return x key from to a eid st =
     (case ts_stack (thread_of key st) of
        os # rest \<Rightarrow>
          (let st1 = upd_thread key (\<lambda>t. t\<lparr>ts_stack := rest\<rparr>) st;
               st2 = close_span x key os a eid
                       (if os_completeness os = OpenStart then OpenBoth else Complete) st1
           in case (rest, r_func to) of
                (tp # _, Some t) \<Rightarrow>
                  (case os_function tp of
                     Some f \<Rightarrow> if f \<noteq> t then note_unwind_mismatch from t f st2 else st2
                   | None \<Rightarrow> st2)
              | _ \<Rightarrow> st2)
      | [] \<Rightarrow>
          (let i = rc_next_span st;
               st1 = upd_thread key (\<lambda>t. t\<lparr>ts_spans := Suc (ts_spans t)\<rparr>)
                       (st\<lparr>rc_next_span := inc32 i\<rparr>);
               st2 = emit_span x
                       \<lparr>sp_id = i, sp_thread = ts_id (thread_of key st),
                        sp_function = r_func from, sp_parent = None, sp_start = time_unknown,
                        sp_end = abs_time a, sp_completeness = UncertainUnwind,
                        sp_evidence = \<lparr>er_start = eid, er_end = eid\<rparr>, sp_call_site = None\<rparr> st1
           in open_at key (r_func to) a eid st2))"

definition apply_jump ::
    "env \<Rightarrow> task_key \<Rightarrow> resolved \<Rightarrow> resolved \<Rightarrow> u64 option \<Rightarrow> local_id \<Rightarrow> recon \<Rightarrow> recon" where
  "apply_jump x key from to a eid st =
     (case (r_func from, r_func to) of
        (Some f, Some g) \<Rightarrow>
          if f \<noteq> g then
            (let stack = ts_stack (thread_of key st);
                 parent = (case stack of [] \<Rightarrow> None | os # _ \<Rightarrow> os_parent os);
                 st1 = (case stack of
                          [] \<Rightarrow> st
                        | os # rest \<Rightarrow>
                            close_span x key os a eid UncertainUnwind
                              (upd_thread key (\<lambda>t. t\<lparr>ts_stack := rest\<rparr>) st));
                 st2 = push_open key (Some g) a eid OpenStart st1
             in upd_thread key
                  (\<lambda>t. t\<lparr>ts_stack := (case ts_stack t of
                                       [] \<Rightarrow> [] | n # ns \<Rightarrow> n\<lparr>os_parent := parent\<rparr> # ns)\<rparr>) st2)
          else st
      | (None, Some g) \<Rightarrow>
          (case ts_stack (thread_of key st) of
             os # rest \<Rightarrow>
               if os_function os = None
               then upd_thread key (\<lambda>t. t\<lparr>ts_stack := os\<lparr>os_function := Some g\<rparr> # rest\<rparr>) st
               else st
           | [] \<Rightarrow> st)
      | _ \<Rightarrow> st)"

definition apply_kind ::
    "env \<Rightarrow> task_key \<Rightarrow> flow_kind \<Rightarrow> resolved \<Rightarrow> resolved \<Rightarrow> u64 option \<Rightarrow> local_id \<Rightarrow> recon \<Rightarrow>
     recon" where
  "apply_kind x key kind from to a eid st =
     (case kind of
        Call \<Rightarrow> push_open key (r_func to) a eid OpenEnd st
      | Return \<Rightarrow> apply_return x key from to a eid st
      | Jump \<Rightarrow> apply_jump x key from to a eid st
      | Conditional \<Rightarrow> apply_jump x key from to a eid st
      | _ \<Rightarrow> st)"

definition apply_flow ::
    "env \<Rightarrow> task_key \<Rightarrow> flow_kind \<Rightarrow> boundary_flags \<Rightarrow> resolved \<Rightarrow> resolved \<Rightarrow> u64 option \<Rightarrow>
     u32 option \<Rightarrow> local_id \<Rightarrow> recon \<Rightarrow> recon" where
  "apply_flow x key kind bd from to a cpu eid st =
     (let (done, st1) = resolve_pending x key bd from to a cpu eid st
      in if done then st1
         else if takes_precedence bd then apply_boundary x key bd from to a cpu eid st1
         else apply_kind x key kind from to a eid st1)"

section \<open>Samples and records\<close>

definition touch_thread :: "sample \<Rightarrow> thread_state \<Rightarrow> thread_state" where
  "touch_thread s t =
     t\<lparr>ts_branches := Suc (ts_branches t),
       ts_last_seq := Suc (ts_last_seq t),
       ts_first_abs := (if ts_first_abs t = None then s_time s else ts_first_abs t),
       ts_segments :=
         (case s_time s of
            None \<Rightarrow> ts_segments t
          | Some a \<Rightarrow>
              if ts_segments t = [] then [(a, a)]
              else butlast (ts_segments t)
                   @ [(fst (last (ts_segments t)), max (snd (last (ts_segments t))) a)]),
       ts_last_cpu := opt_or (s_cpu s) (ts_last_cpu t)\<rparr>"

text \<open>The time checks of \<^verbatim>\<open>push_sample\<close>: a regression interrupts the thread.\<close>

definition advance_time :: "env \<Rightarrow> task_key \<Rightarrow> u64 option \<Rightarrow> recon \<Rightarrow> recon" where
  "advance_time x key now st =
     (let prev = ts_last_abs (thread_of key st);
          thread = ts_id (thread_of key st);
          st1 = (case (prev, now) of
                   (Some p, Some n) \<Rightarrow>
                     if n < p
                     then bump_gaps key
                            (push_gap thread TimeRegression (Some p) now True ''time regression''
                               (interrupt_thread x key st))
                     else st
                 | _ \<Rightarrow> st)
      in case now of
           None \<Rightarrow> st1
         | Some n \<Rightarrow>
             (let st2 = (case prev of
                           Some p \<Rightarrow>
                             if n > p
                             then st1\<lparr>rc_min_time_step :=
                                    Some (case rc_min_time_step st1 of
                                            None \<Rightarrow> n - p | Some m \<Rightarrow> min m (n - p))\<rparr>
                             else st1
                         | None \<Rightarrow> st1)
              in upd_thread key (\<lambda>t. t\<lparr>ts_last_abs := Some n\<rparr>) st2))"

definition note_trigger :: "sample \<Rightarrow> boundary_flags \<Rightarrow> recon \<Rightarrow> recon" where
  "note_trigger s bd st =
     (case rc_trigger st of
        None \<Rightarrow> st
      | Some (addr, _) \<Rightarrow>
          if s_ip s = Some addr \<and> (trace_end bd \<or> interrupt bd \<or> async_event bd)
          then st\<lparr>rc_trigger_traps := inc32 (rc_trigger_traps st),
                  rc_trigger_hit_abs :=
                    (if s_time s \<noteq> None then s_time s else rc_trigger_hit_abs st)\<rparr>
          else st)"

definition step_inline :: "env \<Rightarrow> task_key \<Rightarrow> sample \<Rightarrow> boundary_flags \<Rightarrow> recon \<Rightarrow> recon" where
  "step_inline x key s bd st =
     (if rc_inline st = None then st
      else
        (let prev = ts_block_start (thread_of key st);
             st1 = upd_thread key (\<lambda>t. t\<lparr>ts_block_start := None\<rparr>) st;
             st2 = (case (prev, s_ip s) of
                      (Some (bs, t0), Some ip) \<Rightarrow>
                        if \<not> trace_begin bd
                        then attribute_block x key (s_pid s) bs ip t0 (s_time s) st1 else st1
                    | _ \<Rightarrow> st1);
             nxt = (if trace_end bd \<or> async_event bd \<or> interrupt bd then None
                    else (case s_addr s of
                            None \<Rightarrow> None
                          | Some a \<Rightarrow> if a \<noteq> 0 then Some (a, s_time s) else None))
         in upd_thread key (\<lambda>t. t\<lparr>ts_block_start := nxt\<rparr>) st2))"

definition is_intra :: "flow_kind \<Rightarrow> boundary_flags \<Rightarrow> resolved \<Rightarrow> resolved \<Rightarrow> bool" where
  "is_intra kind bd from to \<longleftrightarrow>
     (kind = Jump \<or> kind = Conditional) \<and> \<not> boundary_any bd \<and> r_func from = r_func to \<and>
     (r_func from \<noteq> None \<or>
      (r_map from = r_map to \<and> (kind = Conditional \<or> r_map from = None)))"

definition retain_event ::
    "env \<Rightarrow> sample \<Rightarrow> flow_kind \<Rightarrow> boundary_flags \<Rightarrow> resolved \<Rightarrow> resolved \<Rightarrow> thread_id \<Rightarrow> u64 \<Rightarrow>
     local_id \<Rightarrow> recon \<Rightarrow> error + recon" where
  "retain_event x s kind bd from to thread seq eid st =
     (if is_intra kind bd from to then Inr st
      else try_bind
        (emit_event x
           \<lparr>ev_id = eid, ev_thread = thread, ev_sequence = seq, ev_time = abs_time (s_time s),
            ev_from = r_loc from, ev_to = r_loc to, ev_kind = kind, ev_boundary = bd,
            ev_virt_from = map_option Address (s_ip s),
            ev_virt_to = map_option Address (s_addr s)\<rparr> st)
        (\<lambda>st1. Inr (upd_thread (s_pid s, s_tid s)
                      (\<lambda>t. t\<lparr>ts_retained := Suc (ts_retained t)\<rparr>) st1)))"

text \<open>Everything of \<^verbatim>\<open>push_sample\<close> before the event id is drawn.\<close>

definition prepare_sample :: "env \<Rightarrow> sample \<Rightarrow> recon \<Rightarrow> recon" where
  "prepare_sample x s st0 =
     (let key = (s_pid s, s_tid s);
          bd = flags_boundary (s_flags s);
          st1 = note_abs (s_time s) (st0\<lparr>rc_samples := Suc (rc_samples st0)\<rparr>);
          st2 = (if s_time s = None
                 then st1\<lparr>rc_time_unknown := Suc (rc_time_unknown st1)\<rparr> else st1);
          st3 = upd_thread key (touch_thread s) (ensure_thread (s_pid s) (s_tid s) st2)
      in note_trigger s bd (advance_time x key (s_time s) st3))"

definition push_sample :: "env \<Rightarrow> sample \<Rightarrow> recon \<Rightarrow> error + recon" where
  "push_sample x s st0 =
     (let key = (s_pid s, s_tid s);
          bd = flags_boundary (s_flags s);
          kind = flags_kind (s_flags s);
          st1 = prepare_sample x s st0;
          thread = ts_id (thread_of key st1);
          seq = ts_last_seq (thread_of key st1);
          (from, st2) = resolve (s_pid s) (s_ip s) st1;
          (to, st3) = resolve (s_pid s) (s_addr s) st2;
          st4 = step_inline x key s bd st3;
          eid = rc_next_event st4;
          st5 = st4\<lparr>rc_next_event := inc32 eid\<rparr>
      in try_bind (retain_event x s kind bd from to thread seq eid st5) (\<lambda>st6.
           let st7 = apply_flow x key kind bd from to (s_time s) (s_cpu s) eid
                       (st6\<lparr>rc_cur_call_site := (if kind = Call then s_ip s else None)\<rparr>);
               st8 = st7\<lparr>rc_cur_call_site := None\<rparr>
           in if rc_samples st8 mod 65536 = 0 \<and> retained_bytes st8 > rc_budget_bytes st8
              then Inl (with_next ''Capture with a smaller aux_bytes_per_buffer or fewer cpus''
                     (limit_error (''resident decode budget '' @ show_dec (rc_budget_bytes st8)
                        @ '' exceeded after '' @ show_dec (rc_samples st8) @ '' samples (''
                        @ show_dec (length (rc_events st8)) @ '' events, ''
                        @ show_dec (length (rc_spans st8)) @ '' spans, ''
                        @ show_dec (length (rc_locations st8)) @ '' locations resident)'')))
              else Inr st8))"

definition push_mmap :: "mmap_event \<Rightarrow> recon \<Rightarrow> recon" where
  "push_mmap m st0 =
     (let st = note_abs (mm_time m) st0;
          bid = Option.bind (find (\<lambda>i. img_path (ai_identity i) = mm_path m) (rc_images st))
                  (\<lambda>i. build_id (ai_identity i));
          idx = as_u32 (length (rc_mappings st))
      in st\<lparr>rc_mappings := rc_mappings st @
              [\<lparr>mp_generation = idx, mp_pid = mm_pid m, mp_start = Address (mm_start m),
                mp_end = Address (sat_add64 (mm_start m) (mm_len m)), mp_pgoff = mm_pgoff m,
                mp_prot = mm_prot m, mp_path = mm_path m, mp_build_id = bid,
                mp_valid_from = time_unknown, mp_valid_to = None\<rparr>],
            rc_mapping_abs := rc_mapping_abs st @
              [case mm_time m of None \<Rightarrow> None | Some t \<Rightarrow> if t \<noteq> 0 then Some t else None],
            rc_maps_by_pid := (rc_maps_by_pid st)(mm_pid m \<mapsto>
              (case rc_maps_by_pid st (mm_pid m) of None \<Rightarrow> [] | Some is \<Rightarrow> is) @ [idx]),
            rc_ip_cache := (\<lambda>(pid, ip). if pid = mm_pid m then None else rc_ip_cache st (pid, ip))\<rparr>)"

definition push_task :: "env \<Rightarrow> task_event \<Rightarrow> recon \<Rightarrow> recon" where
  "push_task x t st0 =
     (let key = (t_pid t, t_tid t);
          st1 = note_abs (t_time t) st0;
          st2 = st1\<lparr>rc_thread_ids := thread_ids_observe (RTask t) (rc_thread_ids st1)\<rparr>;
          st3 = (if t_kind t = TExit \<and> rc_threads st2 key \<noteq> None
                 then retire_thread x key (t_time t) st2 else st2)
      in case t_comm t of
           None \<Rightarrow> st3
         | Some c \<Rightarrow>
             if t_pid t \<noteq> 0 \<and> c \<noteq> ''perf-exec''
             then upd_thread key (\<lambda>ts. ts\<lparr>ts_comm := Some c\<rparr>)
                    (st3\<lparr>rc_comms := (rc_comms st3)(key \<mapsto> c)\<rparr>)
             else st3)"

definition push_lost :: "recon \<Rightarrow> recon" where
  "push_lost st =
     st\<lparr>rc_lost_records := Suc (rc_lost_records st),
        rc_next_gap := inc32 (rc_next_gap st),
        rc_gaps := rc_gaps st @
          [\<lparr>gap_id = rc_next_gap st, gap_thread = ''t_unknown'', gap_kind_of = PtLoss,
            gap_start = time_unknown, gap_end = time_unknown, gap_extent_known = False,
            gap_reason = ''PERF_RECORD_LOST''\<rparr>]\<rparr>"

definition push_decoder_error :: "env \<Rightarrow> decoder_error_event \<Rightarrow> recon \<Rightarrow> recon" where
  "push_decoder_error x e st0 =
     (let st = note_abs (de_time e) (st0\<lparr>rc_decoder_errors := Suc (rc_decoder_errors st0)\<rparr>);
          kind = (if de_code e = Some 5 then MissingImage else DecoderError)
      in case (de_pid e, de_tid e) of
           (Some pid, Some tid) \<Rightarrow>
             (let st1 = ensure_thread pid tid st;
                  thread = ts_id (thread_of (pid, tid) st1)
              in bump_gaps (pid, tid)
                   (push_gap thread kind (de_time e) None False (de_message e)
                      (interrupt_thread x (pid, tid) st1)))
         | _ \<Rightarrow> push_gap ''t_unknown'' kind (de_time e) None False (de_message e) st)"

definition dropped_pid :: "pid_tracker \<Rightarrow> raw_record \<Rightarrow> u32 option" where
  "dropped_pid f rec =
     (case rec of
        RSample s \<Rightarrow> if is_live_thread f (s_pid s) (s_tid s) then None else Some (s_pid s)
      | RDecoderError e \<Rightarrow>
          (case de_pid e of
             None \<Rightarrow> None
           | Some p \<Rightarrow>
               if (case de_tid e of None \<Rightarrow> False | Some t \<Rightarrow> is_live_thread f p t)
               then None else Some p)
      | RMmap m \<Rightarrow> if mapping_is_live f m then None else Some (mm_pid m)
      | RTask t \<Rightarrow> if tracker_contains f (t_pid t) then None else Some (t_pid t)
      | _ \<Rightarrow> None)"

definition note_cpu_first :: "raw_record \<Rightarrow> recon \<Rightarrow> recon" where
  "note_cpu_first rec st =
     (case rec of
        RSample s \<Rightarrow>
          (case (s_cpu s, s_time s) of
             (Some cpu, Some t) \<Rightarrow>
               (case rc_cpu_first_abs st cpu of
                  Some _ \<Rightarrow> st
                | None \<Rightarrow> st\<lparr>rc_cpu_first_abs := (rc_cpu_first_abs st)(cpu \<mapsto> t)\<rparr>)
           | _ \<Rightarrow> st)
      | _ \<Rightarrow> st)"

definition note_foreign :: "raw_record \<Rightarrow> u32 \<Rightarrow> recon \<Rightarrow> recon" where
  "note_foreign rec p st =
     (case rec of
        RSample _ \<Rightarrow>
          st\<lparr>rc_foreign_samples := Suc (rc_foreign_samples st),
             rc_foreign_pids := (if card (rc_foreign_pids st) < 64
                                 then insert p (rc_foreign_pids st) else rc_foreign_pids st)\<rparr>
      | _ \<Rightarrow> st)"

definition dispatch :: "env \<Rightarrow> raw_record \<Rightarrow> recon \<Rightarrow> error + recon" where
  "dispatch x rec st =
     (case rec of
        RMmap m \<Rightarrow> Inr (push_mmap m st)
      | RTask t \<Rightarrow> Inr (push_task x t st)
      | RSwitch _ _ time _ \<Rightarrow> Inr (note_abs time st)
      | RLost _ \<Rightarrow> Inr (push_lost st)
      | RDecoderError e \<Rightarrow> Inr (push_decoder_error x e st)
      | RSample s \<Rightarrow> push_sample x s st)"

definition push :: "env \<Rightarrow> raw_record \<Rightarrow> recon \<Rightarrow> error + recon" where
  "push x rec st0 =
     (let st1 = note_cpu_first rec st0
      in case rc_pid_filter st1 of
           None \<Rightarrow> dispatch x rec st1
         | Some f0 \<Rightarrow>
             (let f = observe rec f0;
                  st2 = st1\<lparr>rc_pid_filter := Some f\<rparr>
              in case dropped_pid f rec of
                   Some p \<Rightarrow> Inr (note_foreign rec p st2)
                 | None \<Rightarrow> dispatch x rec st2))"

end
