(* ===== verification/Reconstruct_Finish.thy ===== *)
theory Reconstruct_Finish
  imports Reconstruct_Flow
begin

text \<open>
  \<^verbatim>\<open>Reconstructor::finish\<close> and the convenience functions at the end of
  \<^verbatim>\<open>src/decode/reconstruct.rs\<close>: open frames are closed, absolute times are rebased
  onto the snapshot origin, rows are sorted and counted, and the quality notes are
  written. A spilled run keeps its rows in files; the model holds their contents.
\<close>

record analysis_ir =
  ir_analysis_id :: analysis_id
  ir_origin :: clock_origin
  ir_threads :: "thread_lifetime list"
  ir_functions :: "function_record list"
  ir_locations :: "code_location list"
  ir_events :: "flow_event list"
  ir_spans :: "function_span list"
  ir_gaps :: "gap_record list"
  ir_mappings :: "mapping_record list"
  ir_quality :: quality_report
  ir_inline_rows :: "inline_row list"
  ir_samples_kept :: u64
  ir_event_count :: u64
  ir_span_count :: u64
  ir_spilled :: "(flow_event list \<times> function_span list) option"
  ir_trigger_hit_ns :: "u64 option"

definition rebase :: "u64 \<Rightarrow> event_time \<Rightarrow> error + event_time" where
  "rebase origin t =
     (case relative_ns t of
        None \<Rightarrow> Inr t
      | Some a \<Rightarrow>
          (case checked_sub a origin of
             None \<Rightarrow> Inl (decode_failed (''timestamp '' @ show_dec a
                      @ '' precedes snapshot origin '' @ show_dec origin))
           | Some r \<Rightarrow> Inr (t\<lparr>relative_ns := Some r\<rparr>)))"

definition rel_time :: "u64 option \<Rightarrow> u64 \<Rightarrow> event_time" where
  "rel_time a origin =
     (case a of None \<Rightarrow> time_unknown | Some t \<Rightarrow> time_estimate (t - origin))"

definition rebase_event :: "u64 \<Rightarrow> flow_event \<Rightarrow> error + flow_event" where
  "rebase_event origin e =
     try_bind (rebase origin (ev_time e)) (\<lambda>t. Inr (e\<lparr>ev_time := t\<rparr>))"

definition rebase_span :: "u64 \<Rightarrow> function_span \<Rightarrow> error + function_span" where
  "rebase_span origin s =
     try_bind (rebase origin (sp_start s)) (\<lambda>a.
     try_bind (rebase origin (sp_end s)) (\<lambda>b.
       Inr (s\<lparr>sp_start := a, sp_end := b\<rparr>)))"

definition rebase_gap :: "u64 \<Rightarrow> gap_record \<Rightarrow> error + gap_record" where
  "rebase_gap origin g =
     try_bind (rebase origin (gap_start g)) (\<lambda>a.
     try_bind (rebase origin (gap_end g)) (\<lambda>b.
       Inr (g\<lparr>gap_start := a, gap_end := b\<rparr>)))"

text \<open>Open frames at the end of the snapshot, one thread at a time.\<close>

definition finish_thread :: "env \<Rightarrow> task_key \<Rightarrow> recon \<Rightarrow> recon" where
  "finish_thread x key st =
     (case rc_threads st key of
        None \<Rightarrow> st
      | Some t \<Rightarrow>
          emit_open_spans x (ts_id t) time_unknown
            (\<lambda>os. close_completeness (os_completeness os)) (ts_stack t)
            (st\<lparr>rc_threads :=
                  (rc_threads st)(key \<mapsto> (take_stack t)\<lparr>ts_pending_end := None\<rparr>)\<rparr>))"

definition finish_threads :: "env \<Rightarrow> recon \<Rightarrow> recon" where
  "finish_threads x st = fold (finish_thread x) (rc_thread_order st) st"

definition count_incomplete :: "function_span list \<Rightarrow> nat" where
  "count_incomplete ss = length (filter (\<lambda>s. sp_completeness s \<noteq> Complete) ss)"

text \<open>
  The second pass over the spilled files: each row is read, fixed and written to the final file, and the first
  failing call or row ends it. A row that is read and parsed is the row that was spilled.
\<close>

fun rewrite_rows ::
    "(spill_io \<Rightarrow> error + unit) \<Rightarrow> spill_file \<Rightarrow> ('a \<Rightarrow> error + 'a) \<Rightarrow> nat \<Rightarrow> 'a list \<Rightarrow> error + 'a list" where
  "rewrite_rows io f fix_row i [] = try_bind (io (ReadRow f i)) (\<lambda>_. Inr [])"
| "rewrite_rows io f fix_row i (r # rows) =
     try_bind (io (ReadRow f i)) (\<lambda>_.
     try_bind (fix_row r) (\<lambda>r'.
     try_bind (io (WriteRow f i)) (\<lambda>_.
     try_bind (rewrite_rows io f fix_row (Suc i) rows) (\<lambda>rs. Inr (r' # rs)))))"

definition rewrite_rebased ::
    "(spill_io \<Rightarrow> error + unit) \<Rightarrow> spill_file \<Rightarrow> ('a \<Rightarrow> error + 'a) \<Rightarrow> 'a list \<Rightarrow> error + 'a list" where
  "rewrite_rebased io f fix_row rows =
     try_bind (io (OpenSource f)) (\<lambda>_.
     try_bind (io (CreateDest f)) (\<lambda>_.
     try_bind (rewrite_rows io f fix_row 0 rows) (\<lambda>rs.
     try_bind (io (FlushDest f)) (\<lambda>_. Inr rs))))"

definition finish_spill ::
    "env \<Rightarrow> u64 \<Rightarrow> recon \<Rightarrow> error + (flow_event list \<times> function_span list) option \<times> nat" where
  "finish_spill x origin st =
     (case rc_spill st of
        None \<Rightarrow> Inr (None, 0)
      | Some sp \<Rightarrow>
          try_bind (x_spill_io x (FlushFile EventsFile)) (\<lambda>_.
          try_bind (x_spill_io x (FlushFile SpansFile)) (\<lambda>_.
          try_bind (spill_check sp) (\<lambda>_.
          try_bind (rewrite_rebased (x_spill_io x) EventsFile (rebase_event origin) (spill_events sp)) (\<lambda>es.
          try_bind (rewrite_rebased (x_spill_io x) SpansFile (rebase_span origin) (spill_spans sp)) (\<lambda>ss.
            Inr (Some (es, ss), count_incomplete (spill_spans sp))))))))"

definition latest_abs :: "recon \<Rightarrow> u64 option" where
  "latest_abs st =
     fold (\<lambda>k acc. case Option.bind (rc_threads st k) ts_last_abs of
                     None \<Rightarrow> acc
                   | Some t \<Rightarrow> Some (case acc of None \<Rightarrow> t | Some m \<Rightarrow> max m t))
       (rc_thread_order st) None"

definition trigger_note :: "env \<Rightarrow> u64 \<Rightarrow> recon \<Rightarrow> string list" where
  "trigger_note x origin st =
     (case rc_trigger st of
        None \<Rightarrow> []
      | Some (addr, hits) \<Rightarrow>
          (case rc_trigger_hit_abs st of
             Some h \<Rightarrow>
               (let t = h - origin;
                    latest = (case latest_abs st of None \<Rightarrow> origin | Some a \<Rightarrow> a) - origin
                in [''trigger trap (hit #'' @ show_dec hits @ '' at 0x'' @ show_hex addr
                    @ '') observed at '' @ show_dec t @ '' ns ('' @ show_dec (rc_trigger_traps st)
                    @ '' of the traps are in the ring); decoded history continues ''
                    @ x_fmt_ms x (latest - t) @ '' ms past it''])
           | None \<Rightarrow>
               [''trigger trap at 0x'' @ show_hex addr @ '' not found in the decoded trace (''
                @ show_dec (rc_trigger_traps st) @ '' traps seen, '' @ show_dec hits
                @ '' expected): the ring may have overwritten it'']))"

definition finish_notes :: "env \<Rightarrow> u64 \<Rightarrow> recon \<Rightarrow> string list" where
  "finish_notes x origin st =
     rc_extra_notes st
     @ [show_dec (rc_samples st) @ '' PT branch samples decoded; '' @ show_dec (rc_events_n st)
        @ '' retained as function-transfer events (intra-function jumps are counted per thread, not stored)'']
     @ (if rc_lost_records st > 0
        then [show_dec (rc_lost_records st)
              @ '' PERF_RECORD_LOST records; ring history may be truncated''] else [])
     @ (if rc_foreign_samples st > 0
        then [show_dec (rc_foreign_samples st) @ '' samples from ''
              @ show_dec (card (rc_foreign_pids st))
              @ '' other pids (unrelated tasks on the recorded CPUs, or the launch shim before exec) were excluded; they remain in perf.data'']
        else [])
     @ (if rc_ring_holes st > 0
        then [show_dec (rc_ring_holes st)
              @ '' ring holes: a thread migrated CPUs and the new CPU's AUX ring did not reach back to the migration; per-thread coverage segments are listed in threads'']
        else [])
     @ (if rc_time_unknown st > 0
        then [show_dec (rc_time_unknown st) @ '' records had unknown timestamps''] else [])
     @ (if rc_missing_image_paths st \<noteq> []
        then [show_dec (rc_missing_image_samples st) @ '' samples in unarchived images: ''
              @ join_str '', '' (rc_missing_image_paths st)] else [])
     @ (if rc_unwind_mismatch st > 0
        then [show_dec (rc_unwind_mismatch st)
              @ '' returns landed in a function other than the reconstructed caller, e.g. ''
              @ join_str ''; '' (rc_unwind_examples st)] else [])
     @ [''Snapshot history starts at each thread's first decoded sample; earlier execution was overwritten in the AUX ring'']
     @ trigger_note x origin st
     @ (case rc_min_time_step st of
          Some step \<Rightarrow>
            [''timestamp granularity: samples advance in steps of >= '' @ show_dec step
             @ '' ns (PT timing packets); durations below that are 0 or one step, not measurements'']
        | None \<Rightarrow> [''timestamp granularity unknown''])
     @ [''Durations are decoder estimates, not exact per-instruction cycles'']"

definition max_segments_listed :: nat where
  "max_segments_listed = 32"

definition lifetime_of :: "u64 \<Rightarrow> thread_state \<Rightarrow> thread_lifetime" where
  "lifetime_of origin t =
     \<lparr>tl_id = ts_id t, tl_pid = ts_pid t, tl_tid = ts_tid t,
      tl_start = rel_time (ts_first_abs t) origin,
      tl_end = map_option (\<lambda>a. rel_time (Some a) origin) (ts_last_abs t),
      tl_comm = ts_comm t, tl_branch_count = Count (ts_branches t),
      tl_event_count = Count (ts_retained t), tl_span_count = Count (ts_spans t),
      tl_gap_count = Count (ts_gaps t),
      tl_covered_ns = Count (sum_list (map (\<lambda>(a, b). b - a) (ts_segments t))),
      tl_segment_count = Count (length (ts_segments t)),
      tl_segments = map (\<lambda>(a, b). (a - origin, b - origin))
        (take max_segments_listed (ts_segments t))\<rparr>"

definition thread_list :: "u64 \<Rightarrow> recon \<Rightarrow> thread_lifetime list" where
  "thread_list origin st =
     map (lifetime_of origin)
       (rc_retired st @ map (\<lambda>k. thread_of k st) (rc_thread_order st))"

definition inline_thread_id :: "recon \<Rightarrow> task_key \<Rightarrow> thread_id" where
  "inline_thread_id st key =
     (case rc_threads st key of
        Some t \<Rightarrow> ts_id t
      | None \<Rightarrow>
          (case find (\<lambda>t. ts_pid t = fst key \<and> ts_tid t = snd key) (rc_retired st) of
             Some t \<Rightarrow> ts_id t
           | None \<Rightarrow> thread_id_for (fst key) (snd key)))"

definition inline_rows_of :: "recon \<Rightarrow> inline_state \<Rightarrow> inline_row list" where
  "inline_rows_of st inl =
     sort_key (\<lambda>r. (- int (count_val (il_instructions r)), il_chain r))
       (map (\<lambda>((key, func, k), agg).
          \<lparr>il_thread = inline_thread_id st key, il_function = func,
           il_chain = is_chains inl ! k,
           il_instructions = Count (ia_instructions agg), il_blocks = Count (ia_blocks agg),
           il_elapsed_ns = Count (ia_elapsed agg)\<rparr>) (is_agg inl))"

definition inline_note :: "inline_state \<Rightarrow> string" where
  "inline_note inl =
     ''inline attribution: '' @ show_dec (is_block_count inl)
     @ '' straight-line blocks attributed to DWARF inline chains at their start address (a block spanning an inline boundary is charged to the frame at its start)''"

definition count_gaps_by_kind :: "gap_record list \<Rightarrow> string \<rightharpoonup> count" where
  "count_gaps_by_kind gs =
     fold (\<lambda>g m. let k = gap_kind_name (gap_kind_of g)
                 in m(k \<mapsto> Count ((case m k of None \<Rightarrow> 0 | Some c \<Rightarrow> count_val c) + 1)))
       gs Map.empty"

definition date_mappings :: "u64 \<Rightarrow> recon \<Rightarrow> mapping_record list" where
  "date_mappings origin st =
     map (\<lambda>(m, a). m\<lparr>mp_valid_from := rel_time a origin\<rparr>)
       (zip (rc_mappings st) (rc_mapping_abs st))
     @ drop (length (rc_mapping_abs st)) (rc_mappings st)"

definition finish :: "env \<Rightarrow> recon \<Rightarrow> error + analysis_ir" where
  "finish x st0 =
     (case rc_min_abs st0 of
        None \<Rightarrow>
          Inl (decode_failed
            ''no usable timestamps in capture; cannot establish snapshot origin'')
      | Some origin \<Rightarrow>
          (let st = finish_threads x st0 in
           try_bind (map_try (rebase_event origin) (rc_events st)) (\<lambda>events.
           try_bind (map_try (rebase_span origin) (rc_spans st)) (\<lambda>spans0.
           try_bind (finish_spill x origin st) (\<lambda>(spilled, incomplete_spilled).
           try_bind (map_try (rebase_gap origin) (rc_gaps st)) (\<lambda>gaps.
             let spans = sort_key sp_id spans0;
                 notes0 = finish_notes x origin st;
                 (irows, nts) = (case rc_inline st of
                                   None \<Rightarrow> ([], notes0)
                                 | Some inl \<Rightarrow>
                                     (inline_rows_of st inl, notes0 @ [inline_note inl]))
             in Inr \<lparr>ir_analysis_id = rc_analysis_id st,
                  ir_origin = \<lparr>abs_perf_time = show_dec origin, relative_zero_ns = 0\<rparr>,
                  ir_threads = thread_list origin st,
                  ir_functions = rc_functions st,
                  ir_locations = rc_locations st,
                  ir_events = events,
                  ir_spans = spans,
                  ir_gaps = gaps,
                  ir_mappings = date_mappings origin st,
                  ir_quality =
                    \<lparr>qr_timing = DecoderEstimate,
                     qr_gap_count = Count (length gaps),
                     qr_incomplete_span_count =
                       Count (count_incomplete spans + incomplete_spilled),
                     qr_missing_image_count = Count (length (rc_missing_image_paths st)),
                     qr_decoder_error_count = Count (rc_decoder_errors st),
                     qr_ring_truncation = (rc_lost_records st > 0 \<or> rc_ring_holes st > 0),
                     qr_undecodable_prefix = False,
                     qr_notes = nts,
                     qr_gaps_by_kind = count_gaps_by_kind gaps\<rparr>,
                  ir_inline_rows = irows,
                  ir_samples_kept = rc_samples st,
                  ir_event_count = rc_events_n st,
                  ir_span_count = rc_spans_n st,
                  ir_spilled = spilled,
                  ir_trigger_hit_ns = map_option (\<lambda>t. t - origin) (rc_trigger_hit_abs st)\<rparr>))))))"

text \<open>A whole run: push every record, then finish (\<^verbatim>\<open>fn reconstruct\<close>).\<close>

definition push_all :: "env \<Rightarrow> raw_record list \<Rightarrow> recon \<Rightarrow> error + recon" where
  "push_all x recs st = fold_try (push x) recs st"

definition reconstruct ::
    "env \<Rightarrow> analysis_id \<Rightarrow> raw_record list \<Rightarrow> archived_image list \<Rightarrow> image_index list \<Rightarrow>
     error + analysis_ir" where
  "reconstruct x aid recs imgs ixs =
     try_bind (push_all x recs (recon_new aid imgs ixs)) (finish x)"

section \<open>Basic lemmas\<close>

lemma relative_ns_abs_time [simp]: "relative_ns (abs_time a) = a"
  by (cases a) (simp_all add: abs_time_def)

lemma rebase_ok_iff:
  "(\<exists>t'. rebase origin t = Inr t') \<longleftrightarrow> (\<forall>a. relative_ns t = Some a \<longrightarrow> origin \<le> a)"
  by (auto simp: rebase_def split: option.splits)

lemma rebase_event_ok_iff:
  "(\<exists>e'. rebase_event origin e = Inr e') \<longleftrightarrow>
     (\<forall>a. relative_ns (ev_time e) = Some a \<longrightarrow> origin \<le> a)"
  using rebase_ok_iff [of origin "ev_time e"]
  by (auto simp: rebase_event_def try_bind_Inr_iff)

lemma rebase_span_ok_iff:
  "(\<exists>s'. rebase_span origin s = Inr s') \<longleftrightarrow>
     (\<forall>a. relative_ns (sp_start s) = Some a \<longrightarrow> origin \<le> a) \<and>
     (\<forall>a. relative_ns (sp_end s) = Some a \<longrightarrow> origin \<le> a)"
  using rebase_ok_iff [of origin "sp_start s"] rebase_ok_iff [of origin "sp_end s"]
  by (auto simp: rebase_span_def try_bind_Inr_iff)

lemma rebase_gap_ok_iff:
  "(\<exists>g'. rebase_gap origin g = Inr g') \<longleftrightarrow>
     (\<forall>a. relative_ns (gap_start g) = Some a \<longrightarrow> origin \<le> a) \<and>
     (\<forall>a. relative_ns (gap_end g) = Some a \<longrightarrow> origin \<le> a)"
  using rebase_ok_iff [of origin "gap_start g"] rebase_ok_iff [of origin "gap_end g"]
  by (auto simp: rebase_gap_def try_bind_Inr_iff)

text \<open>The calls that rewriting a file of \<open>n\<close> rows makes.\<close>

definition row_calls :: "spill_file \<Rightarrow> nat \<Rightarrow> nat \<Rightarrow> spill_io set" where
  "row_calls f i n = {ReadRow f k |k. i \<le> k \<and> k \<le> i + n} \<union> {WriteRow f k |k. i \<le> k \<and> k < i + n}"

definition rewrite_calls :: "spill_file \<Rightarrow> nat \<Rightarrow> spill_io set" where
  "rewrite_calls f n = {OpenSource f, CreateDest f, FlushDest f} \<union> row_calls f 0 n"

definition spill_calls :: "spill \<Rightarrow> spill_io set" where
  "spill_calls sp = {FlushFile EventsFile, FlushFile SpansFile} \<union>
     rewrite_calls EventsFile (length (spill_events sp)) \<union> rewrite_calls SpansFile (length (spill_spans sp))"

lemma row_calls_Suc: "row_calls f i (Suc n) = {ReadRow f i, WriteRow f i} \<union> row_calls f (Suc i) n"
  by (auto simp: row_calls_def)

lemma rewrite_rows_cases:
  "case rewrite_rows io f fix_row i rows of
     Inl e \<Rightarrow> (\<exists>c\<in>row_calls f i (length rows). io c = Inl e) \<or> (\<exists>r\<in>set rows. fix_row r = Inl e)
   | Inr rs \<Rightarrow> (\<forall>c\<in>row_calls f i (length rows). io c = Inr ()) \<and> map_try fix_row rows = Inr rs"
proof (induction io f fix_row i rows rule: rewrite_rows.induct)
  case (1 io f fix_row i)
  have "row_calls f i 0 = {ReadRow f i}"
    by (auto simp: row_calls_def)
  then show ?case
    by (simp add: try_bind_def split: sum.split)
next
  case (2 io f fix_row i r rows)
  show ?case
    using 2 by (cases "io (ReadRow f i)"; cases "fix_row r"; cases "io (WriteRow f i)")
      (auto simp: row_calls_Suc try_bind_def split: sum.splits)
qed

lemma rewrite_rebased_cases:
  "case rewrite_rebased io f fix_row rows of
     Inl e \<Rightarrow> (\<exists>c\<in>rewrite_calls f (length rows). io c = Inl e) \<or> (\<exists>r\<in>set rows. fix_row r = Inl e)
   | Inr rs \<Rightarrow> (\<forall>c\<in>rewrite_calls f (length rows). io c = Inr ()) \<and> map_try fix_row rows = Inr rs"
  using rewrite_rows_cases [of f 0 rows io fix_row]
  by (cases "io (OpenSource f)"; cases "io (CreateDest f)"; cases "io (FlushDest f)")
    (auto simp: rewrite_rebased_def rewrite_calls_def try_bind_def split: sum.splits)

lemma rewrite_rebased_Inr:
  "rewrite_rebased io f fix_row rows = Inr rs \<longleftrightarrow>
     (\<forall>c\<in>rewrite_calls f (length rows). io c = Inr ()) \<and> map_try fix_row rows = Inr rs"
proof
  assume "(\<forall>c\<in>rewrite_calls f (length rows). io c = Inr ()) \<and> map_try fix_row rows = Inr rs"
  then have ok: "\<forall>c\<in>rewrite_calls f (length rows). io c = Inr ()" "map_try fix_row rows = Inr rs"
    by auto
  then have rows: "\<forall>r\<in>set rows. \<exists>y. fix_row r = Inr y"
    using map_try_Inr_iff [of fix_row rows] by blast
  show "rewrite_rebased io f fix_row rows = Inr rs"
  proof (cases "rewrite_rebased io f fix_row rows")
    case (Inl e)
    then show ?thesis
      using rewrite_rebased_cases [of f rows io fix_row] ok rows by fastforce
  next
    case (Inr rs')
    then show ?thesis
      using rewrite_rebased_cases [of f rows io fix_row] ok by simp
  qed
qed (use rewrite_rebased_cases [of f rows io fix_row] in simp)

lemma finish_spill_ok:
  "(\<exists>r. finish_spill x origin st = Inr r) \<longleftrightarrow>
     (\<forall>sp. rc_spill st = Some sp \<longrightarrow>
        spill_bytes sp \<le> spill_budget sp \<and> (\<forall>c\<in>spill_calls sp. x_spill_io x c = Inr ()) \<and>
        (\<exists>es. map_try (rebase_event origin) (spill_events sp) = Inr es) \<and>
        (\<exists>ss. map_try (rebase_span origin) (spill_spans sp) = Inr ss))"
proof (cases "rc_spill st")
  case (Some sp)
  have "spill_check sp = Inr () \<longleftrightarrow> spill_bytes sp \<le> spill_budget sp"
    by (auto simp: spill_check_def)
  then show ?thesis
    using Some by (auto simp: finish_spill_def try_bind_Inr_iff rewrite_rebased_Inr spill_calls_def)
qed (simp add: finish_spill_def)

lemma finish_spill_error:
  assumes "finish_spill x origin st = Inl e"
  obtains sp where "rc_spill st = Some sp"
    "spill_check sp = Inl e \<or> (\<exists>c\<in>spill_calls sp. x_spill_io x c = Inl e) \<or>
     (\<exists>r\<in>set (spill_events sp). rebase_event origin r = Inl e) \<or> (\<exists>r\<in>set (spill_spans sp). rebase_span origin r = Inl e)"
proof -
  obtain sp where sp: "rc_spill st = Some sp"
    using assms by (cases "rc_spill st") (auto simp: finish_spill_def)
  show thesis
    using that [OF sp] sp assms
      rewrite_rebased_cases [of EventsFile "spill_events sp" "x_spill_io x" "rebase_event origin"]
      rewrite_rebased_cases [of SpansFile "spill_spans sp" "x_spill_io x" "rebase_span origin"]
    by (auto simp: finish_spill_def try_bind_def spill_calls_def split: sum.splits)
qed

lemma rebase_span_fields:
  "rebase_span origin s = Inr s' \<Longrightarrow>
     sp_id s' = sp_id s \<and> sp_thread s' = sp_thread s \<and> sp_function s' = sp_function s
     \<and> sp_parent s' = sp_parent s \<and> sp_completeness s' = sp_completeness s
     \<and> sp_evidence s' = sp_evidence s \<and> sp_call_site s' = sp_call_site s"
  by (auto simp: rebase_span_def try_bind_Inr_iff)

end
