(* ===== verification/Reconstruct_Steps.thy ===== *)
theory Reconstruct_Steps
  imports Reconstruct_Finish
begin

text \<open>
  The reconstructor as a step machine. Every state change that \<open>push\<close> and
  \<open>finish\<close> make to the part of the state that ends up in the analysis (the
  \<open>ledger\<close>) is one of a dozen atomic steps of \<open>rstep\<close>: a frame opened, closed, flushed,
  a gap or an event recorded, a clock advanced. That \<open>push\<close> is a run of
  such steps is proved once here; each invariant is then a rule induction over the
  steps, and never looks at the control flow of \<open>apply_flow\<close> again.

  A step carries a ghost counter of the event ids drawn so far. The flag \<open>tz\<close> turns
  on the guards about absolute times, which need input records without zero
  timestamps.
\<close>

section \<open>The ledger\<close>

definition ledger where
  "ledger st =
     (rc_threads st, rc_thread_order st, rc_retired st, rc_events st, rc_spans st, rc_gaps st,
      rc_next_event st, rc_next_span st, rc_next_gap st, rc_min_abs st, rc_spill st,
      rc_events_n st, rc_spans_n st)"

definition thread_ledger where
  "thread_ledger t =
     (ts_id t, ts_pid t, ts_tid t, ts_stack t, ts_spans t, ts_retained t, ts_last_abs t,
      ts_pending_end t)"

text \<open>An absolute time that is not before the snapshot origin found so far.\<close>

definition okt :: "recon \<Rightarrow> u64 option \<Rightarrow> bool" where
  "okt st a \<longleftrightarrow> (\<forall>t. a = Some t \<longrightarrow> (\<exists>m. rc_min_abs st = Some m \<and> m \<le> t))"

text \<open>The event id drawn last.\<close>

definition recent :: "local_id \<Rightarrow> nat \<Rightarrow> bool" where
  "recent eid k \<longleftrightarrow> 0 < k \<and> eid = (k - 1) mod 2 ^ 32"

definition orphan_span :: "env \<Rightarrow> task_key \<Rightarrow> local_id option \<Rightarrow> u64 option \<Rightarrow> local_id \<Rightarrow> recon \<Rightarrow> recon"
  where
  "orphan_span x key f a eid st =
     emit_span x
       \<lparr>sp_id = rc_next_span st, sp_thread = ts_id (thread_of key st),
        sp_function = f, sp_parent = None, sp_start = time_unknown,
        sp_end = abs_time a, sp_completeness = UncertainUnwind,
        sp_evidence = \<lparr>er_start = eid, er_end = eid\<rparr>, sp_call_site = None\<rparr>
       (upd_thread key (\<lambda>t. t\<lparr>ts_spans := Suc (ts_spans t)\<rparr>)
          (st\<lparr>rc_next_span := inc32 (rc_next_span st)\<rparr>))"

definition pop_span ::
    "env \<Rightarrow> task_key \<Rightarrow> open_span \<Rightarrow> open_span list \<Rightarrow> u64 option \<Rightarrow> local_id \<Rightarrow> span_completeness \<Rightarrow>
     recon \<Rightarrow> recon" where
  "pop_span x key os rest a eid compl st =
     close_span x key os a eid compl (upd_thread key (\<lambda>t. t\<lparr>ts_stack := rest\<rparr>) st)"

text \<open>Each frame's parent is the frame below it.\<close>

fun linked :: "open_span list \<Rightarrow> bool" where
  "linked [] = True"
| "linked (os # rest) \<longleftrightarrow>
     os_parent os = (case rest of [] \<Rightarrow> None | s # _ \<Rightarrow> Some (os_id s)) \<and> linked rest"

definition set_parent :: "local_id option \<Rightarrow> thread_state \<Rightarrow> thread_state" where
  "set_parent p t =
     t\<lparr>ts_stack := (case ts_stack t of [] \<Rightarrow> [] | n # ns \<Rightarrow> n\<lparr>os_parent := p\<rparr> # ns)\<rparr>"

definition tail_call ::
    "env \<Rightarrow> task_key \<Rightarrow> open_span \<Rightarrow> open_span list \<Rightarrow> local_id \<Rightarrow> u64 option \<Rightarrow> local_id \<Rightarrow> recon \<Rightarrow> recon"
  where
  "tail_call x key os rest g a eid st =
     upd_thread key (set_parent (os_parent os))
       (push_open key (Some g) a eid OpenStart (pop_span x key os rest a eid UncertainUnwind st))"

definition record_event :: "env \<Rightarrow> task_key \<Rightarrow> flow_event \<Rightarrow> recon \<Rightarrow> error + recon" where
  "record_event x key ev st =
     try_bind (emit_event x ev (st\<lparr>rc_next_event := inc32 (rc_next_event st)\<rparr>))
       (\<lambda>st1. Inr (upd_thread key (\<lambda>t. t\<lparr>ts_retained := Suc (ts_retained t)\<rparr>) st1))"

section \<open>Atomic steps\<close>

inductive rstep :: "env \<Rightarrow> bool \<Rightarrow> nat \<times> recon \<Rightarrow> nat \<times> recon \<Rightarrow> bool" for x tz where
  quiet: "ledger st' = ledger st \<Longrightarrow> rstep x tz (k, st) (k, st')"
| noted: "rstep x tz (k, st) (k, note_abs a st)"
| draw: "rstep x tz (k, st) (Suc k, st\<lparr>rc_next_event := inc32 (rc_next_event st)\<rparr>)"
| spawn: "rstep x tz (k, st) (k, ensure_thread pid tid st)"
| touch: "(\<And>t. thread_ledger (f t) = thread_ledger t) \<Longrightarrow>
    rstep x tz (k, st) (k, upd_thread key f st)"
| pend: "(\<And>p. pe = Some p \<Longrightarrow> tz \<Longrightarrow> okt st (pe_abs p)) \<Longrightarrow>
    rstep x tz (k, st) (k, upd_thread key (\<lambda>t. t\<lparr>ts_pending_end := pe\<rparr>) st)"
| clock: "rc_threads st key = Some t \<Longrightarrow> (tz \<Longrightarrow> okt st (Some n)) \<Longrightarrow>
    (\<And>p. ts_last_abs t = Some p \<Longrightarrow> p \<le> n \<or> ts_stack t = []) \<Longrightarrow>
    rstep x tz (k, st) (k, upd_thread key (\<lambda>t. t\<lparr>ts_last_abs := Some n\<rparr>) st)"
| opn: "rc_threads st key = Some t \<Longrightarrow> (tz \<Longrightarrow> okt st a) \<Longrightarrow> recent eid k \<Longrightarrow>
    compl = OpenStart \<or> compl = OpenEnd \<and> (a \<noteq> None \<longrightarrow> ts_last_abs t = a) \<Longrightarrow>
    rstep x tz (k, st) (k, push_open key f a eid compl st)"
| close: "rc_threads st key = Some t \<Longrightarrow> ts_stack t = os # rest \<Longrightarrow> (tz \<Longrightarrow> okt st a) \<Longrightarrow>
    recent eid k \<or> eid = os_start_event os \<Longrightarrow>
    (compl = Complete \<Longrightarrow> recent eid k \<and> os_completeness os \<noteq> OpenStart \<and> (a \<noteq> None \<longrightarrow> ts_last_abs t = a)) \<Longrightarrow>
    rstep x tz (k, st) (k, pop_span x key os rest a eid compl st)"
| orphan: "rc_threads st key = Some t \<Longrightarrow> (tz \<Longrightarrow> okt st a) \<Longrightarrow> recent eid k \<Longrightarrow>
    rstep x tz (k, st) (k, orphan_span x key f a eid st)"
| rename: "rc_threads st key = Some t \<Longrightarrow> ts_stack t = os # rest \<Longrightarrow>
    rstep x tz (k, st)
      (k, upd_thread key (\<lambda>t. t\<lparr>ts_stack := os\<lparr>os_function := f\<rparr> # rest\<rparr>) st)"
| bury: "rc_threads st key = Some t \<Longrightarrow> ts_stack t = [] \<Longrightarrow> ts_pending_end t = None \<Longrightarrow>
    rstep x tz (k, st)
      (k, st\<lparr>rc_threads := (rc_threads st)(key := None),
             rc_thread_order := filter (\<lambda>k. k \<noteq> key) (rc_thread_order st),
             rc_retired := rc_retired st @ [t]\<rparr>)"
| gap: "(tz \<Longrightarrow> okt st a \<and> okt st b) \<Longrightarrow>
    rstep x tz (k, st) (k, push_gap thread kind a b known reason st)"
| event: "rc_threads st key \<noteq> None \<Longrightarrow> record_event x key ev st = Inr st' \<Longrightarrow>
    ev_id ev = rc_next_event st \<Longrightarrow> (tz \<Longrightarrow> okt st (relative_ns (ev_time ev))) \<Longrightarrow>
    rstep x tz (k, st) (Suc k, st')"

abbreviation rsteps :: "env \<Rightarrow> bool \<Rightarrow> nat \<times> recon \<Rightarrow> nat \<times> recon \<Rightarrow> bool" where
  "rsteps x tz \<equiv> (rstep x tz)\<^sup>*\<^sup>*"

section \<open>What the primitives keep\<close>

named_theorems recon_frame \<open>fields a primitive leaves alone\<close>

lemma emit_span_frame [recon_frame]:
  "rc_threads (emit_span x s st) = rc_threads st"
  "rc_min_abs (emit_span x s st) = rc_min_abs st"
  "rc_cpu_first_abs (emit_span x s st) = rc_cpu_first_abs st"
  "rc_next_span (emit_span x s st) = rc_next_span st"
  "rc_next_event (emit_span x s st) = rc_next_event st"
  "rc_next_gap (emit_span x s st) = rc_next_gap st"
  "rc_thread_order (emit_span x s st) = rc_thread_order st"
  "rc_retired (emit_span x s st) = rc_retired st"
  "rc_events (emit_span x s st) = rc_events st"
  "rc_events_n (emit_span x s st) = rc_events_n st"
  "rc_gaps (emit_span x s st) = rc_gaps st"
  "rc_thread_ids (emit_span x s st) = rc_thread_ids st"
  "rc_samples (emit_span x s st) = rc_samples st"
  "rc_inline (emit_span x s st) = rc_inline st"
  "rc_pid_filter (emit_span x s st) = rc_pid_filter st"
  "rc_spans_n (emit_span x s st) = Suc (rc_spans_n st)"
  by (simp_all add: emit_span_def Let_def split: option.splits)

lemma emit_open_spans_frame [recon_frame]:
  "rc_threads (emit_open_spans x th stop c os st) = rc_threads st"
  "rc_min_abs (emit_open_spans x th stop c os st) = rc_min_abs st"
  "rc_cpu_first_abs (emit_open_spans x th stop c os st) = rc_cpu_first_abs st"
  "rc_next_span (emit_open_spans x th stop c os st) = rc_next_span st"
  "rc_next_event (emit_open_spans x th stop c os st) = rc_next_event st"
  "rc_next_gap (emit_open_spans x th stop c os st) = rc_next_gap st"
  "rc_thread_order (emit_open_spans x th stop c os st) = rc_thread_order st"
  "rc_retired (emit_open_spans x th stop c os st) = rc_retired st"
  "rc_events (emit_open_spans x th stop c os st) = rc_events st"
  "rc_events_n (emit_open_spans x th stop c os st) = rc_events_n st"
  "rc_gaps (emit_open_spans x th stop c os st) = rc_gaps st"
  "rc_thread_ids (emit_open_spans x th stop c os st) = rc_thread_ids st"
  "rc_samples (emit_open_spans x th stop c os st) = rc_samples st"
  "rc_inline (emit_open_spans x th stop c os st) = rc_inline st"
  "rc_pid_filter (emit_open_spans x th stop c os st) = rc_pid_filter st"
  by (induction os arbitrary: st) (simp_all add: emit_open_spans_def recon_frame)

lemma upd_thread_frame [recon_frame]:
  "rc_min_abs (upd_thread key f st) = rc_min_abs st"
  "rc_cpu_first_abs (upd_thread key f st) = rc_cpu_first_abs st"
  "rc_next_span (upd_thread key f st) = rc_next_span st"
  "rc_next_event (upd_thread key f st) = rc_next_event st"
  "rc_next_gap (upd_thread key f st) = rc_next_gap st"
  "rc_thread_order (upd_thread key f st) = rc_thread_order st"
  "rc_retired (upd_thread key f st) = rc_retired st"
  "rc_events (upd_thread key f st) = rc_events st"
  "rc_events_n (upd_thread key f st) = rc_events_n st"
  "rc_spans (upd_thread key f st) = rc_spans st"
  "rc_spans_n (upd_thread key f st) = rc_spans_n st"
  "rc_spill (upd_thread key f st) = rc_spill st"
  "rc_gaps (upd_thread key f st) = rc_gaps st"
  "rc_thread_ids (upd_thread key f st) = rc_thread_ids st"
  "rc_samples (upd_thread key f st) = rc_samples st"
  "rc_inline (upd_thread key f st) = rc_inline st"
  "rc_pid_filter (upd_thread key f st) = rc_pid_filter st"
  "rc_cur_call_site (upd_thread key f st) = rc_cur_call_site st"
  by (simp_all add: upd_thread_def split: option.splits)

lemma upd_thread_threads:
  "rc_threads (upd_thread key f st) =
     (case rc_threads st key of
        None \<Rightarrow> rc_threads st | Some t \<Rightarrow> (rc_threads st)(key \<mapsto> f t))"
  by (simp add: upd_thread_def split: option.splits)

lemma dom_upd_thread [simp]: "dom (rc_threads (upd_thread key f st)) = dom (rc_threads st)"
  by (auto simp: upd_thread_threads split: option.splits)

lemma note_abs_frame [recon_frame]:
  "rc_threads (note_abs a st) = rc_threads st"
  "rc_cpu_first_abs (note_abs a st) = rc_cpu_first_abs st"
  "rc_next_event (note_abs a st) = rc_next_event st"
  "rc_next_span (note_abs a st) = rc_next_span st"
  "rc_next_gap (note_abs a st) = rc_next_gap st"
  "rc_thread_order (note_abs a st) = rc_thread_order st"
  "rc_retired (note_abs a st) = rc_retired st"
  "rc_events (note_abs a st) = rc_events st"
  "rc_events_n (note_abs a st) = rc_events_n st"
  "rc_spans (note_abs a st) = rc_spans st"
  "rc_spans_n (note_abs a st) = rc_spans_n st"
  "rc_spill (note_abs a st) = rc_spill st"
  "rc_gaps (note_abs a st) = rc_gaps st"
  "rc_samples (note_abs a st) = rc_samples st"
  by (simp_all add: note_abs_def split: option.splits)

lemma interrupt_thread_frame [recon_frame]:
  "rc_min_abs (interrupt_thread x key st) = rc_min_abs st"
  "rc_cpu_first_abs (interrupt_thread x key st) = rc_cpu_first_abs st"
  "dom (rc_threads (interrupt_thread x key st)) = dom (rc_threads st)"
  by (auto simp: interrupt_thread_def recon_frame split: option.splits)

lemma interrupt_thread_threads:
  "rc_threads (interrupt_thread x key st) =
     (case rc_threads st key of
        None \<Rightarrow> rc_threads st | Some t \<Rightarrow> (rc_threads st)(key \<mapsto> take_stack t))"
  by (simp add: interrupt_thread_def recon_frame split: option.splits)

lemma push_gap_frame [recon_frame]:
  "rc_threads (push_gap th kd a b kn rs st) = rc_threads st"
  "rc_min_abs (push_gap th kd a b kn rs st) = rc_min_abs st"
  "rc_cpu_first_abs (push_gap th kd a b kn rs st) = rc_cpu_first_abs st"
  by (simp_all add: push_gap_def)

lemma push_open_threads:
  "rc_threads (push_open key f a eid compl st) =
     rc_threads (upd_thread key
       (\<lambda>t. t\<lparr>ts_stack :=
          \<lparr>os_id = rc_next_span st, os_function = f,
           os_parent = (case ts_stack t of [] \<Rightarrow> None | s # _ \<Rightarrow> Some (os_id s)),
           os_start_abs = a, os_start_event = eid, os_completeness = compl,
           os_call_site = rc_cur_call_site st\<rparr> # ts_stack t\<rparr>) st)"
  by (simp add: push_open_def Let_def upd_thread_threads split: option.splits)

lemma push_open_frame [recon_frame]:
  "rc_min_abs (push_open key f a eid compl st) = rc_min_abs st"
  by (simp add: push_open_def Let_def recon_frame)

lemma okt_mono:
  "okt st a \<Longrightarrow> (\<And>m. rc_min_abs st = Some m \<Longrightarrow> \<exists>m'. rc_min_abs st' = Some m' \<and> m' \<le> m) \<Longrightarrow> okt st' a"
  unfolding okt_def by (metis order_trans)

lemma okt_cong: "rc_min_abs st' = rc_min_abs st \<Longrightarrow> okt st' a = okt st a"
  by (simp add: okt_def)

lemma okt_None [simp]: "okt st None"
  by (simp add: okt_def)

lemma okt_note_abs: "a \<noteq> Some 0 \<Longrightarrow> okt (note_abs a st) a"
  by (auto simp: okt_def note_abs_def split: option.splits)

lemma okt_note_abs_keep: "okt st b \<Longrightarrow> okt (note_abs a st) b"
  by (erule okt_mono) (auto simp: note_abs_def split: option.splits)


lemma pop_span_threads:
  "rc_threads (pop_span x key os rest a eid compl st) =
     rc_threads (upd_thread key (\<lambda>t. t\<lparr>ts_stack := rest, ts_spans := Suc (ts_spans t)\<rparr>) st)"
  by (simp add: pop_span_def close_span_def recon_frame upd_thread_threads split: option.splits)

lemma pop_span_frame [recon_frame]:
  "rc_min_abs (pop_span x key os rest a eid compl st) = rc_min_abs st"
  by (simp add: pop_span_def close_span_def recon_frame)

lemma orphan_span_threads:
  "rc_threads (orphan_span x key f a eid st) =
     rc_threads (upd_thread key (\<lambda>t. t\<lparr>ts_spans := Suc (ts_spans t)\<rparr>) st)"
  by (simp add: orphan_span_def recon_frame upd_thread_threads split: option.splits)

lemma orphan_span_frame [recon_frame]:
  "rc_min_abs (orphan_span x key f a eid st) = rc_min_abs st"
  by (simp add: orphan_span_def recon_frame)

lemma rsteps_add: "rsteps x tz s s1 \<Longrightarrow> rstep x tz s1 s2 \<Longrightarrow> rsteps x tz s s2"
  by (rule rtranclp.rtrancl_into_rtrancl)

lemma rsteps_quiet: "rsteps x tz s (k, st) \<Longrightarrow> ledger st' = ledger st \<Longrightarrow> rsteps x tz s (k, st')"
  by (erule rsteps_add) (rule rstep.quiet)

lemma upd_thread_id: "(\<And>t. rc_threads st key = Some t \<Longrightarrow> f t = t) \<Longrightarrow> upd_thread key f st = st"
  by (cases "rc_threads st key") (simp_all add: upd_thread_def map_upd_triv)

section \<open>Flushing a stack\<close>

text \<open>
  Interrupting, finishing and retiring a thread close every open frame at once. The
  same spans leave in the same order when the frames are popped one by one.
\<close>

lemma emit_span_upd_thread:
  "upd_thread key f (emit_span x s st) = emit_span x s (upd_thread key f st)"
  by (simp add: emit_span_def upd_thread_def Let_def split: option.splits)

lemma upd_thread_twice: "upd_thread key f (upd_thread key g st) = upd_thread key (\<lambda>t. f (g t)) st"
  by (simp add: upd_thread_def split: option.splits)

lemma upd_thread_cong:
  "(\<And>t. rc_threads st key = Some t \<Longrightarrow> f t = g t) \<Longrightarrow> upd_thread key f st = upd_thread key g st"
  by (simp add: upd_thread_def split: option.splits)

lemma emit_open_pop:
  assumes t: "rc_threads st key = Some t" and os: "ts_stack t = os # rest"
  shows "emit_open_spans x (ts_id t) (abs_time a) compl (os # rest) (upd_thread key take_stack st) =
         emit_open_spans x (ts_id t) (abs_time a) compl rest
           (upd_thread key take_stack (pop_span x key os rest a (os_start_event os) (compl os) st))"
proof -
  have "upd_thread key (\<lambda>t. take_stack (t\<lparr>ts_stack := rest, ts_spans := Suc (ts_spans t)\<rparr>)) st
      = upd_thread key take_stack st"
    using t os by (intro upd_thread_cong) (simp add: take_stack_def)
  moreover have "ts_id (thread_of key (upd_thread key (\<lambda>t. t\<lparr>ts_stack := rest\<rparr>) st)) = ts_id t"
    using t by (simp add: thread_of_def upd_thread_threads)
  ultimately show ?thesis
    by (simp add: emit_open_spans_def pop_span_def close_span_def emit_span_upd_thread
        upd_thread_twice)
qed

lemma flush_run:
  assumes "rc_threads st key = Some t" "tz \<longrightarrow> okt st a" "\<And>os. compl os \<noteq> Complete"
  shows "rsteps x tz (k, st) (k, emit_open_spans x (ts_id t) (abs_time a) compl (ts_stack t)
           (upd_thread key take_stack st))"
  using assms(1,2)
proof (induction "ts_stack t" arbitrary: st t)
  case Nil
  then have "upd_thread key take_stack st = st"
    by (intro upd_thread_id) (simp add: take_stack_def)
  then show ?case using Nil(1) by (simp add: emit_open_spans_def)
next
  case (Cons os rest)
  let ?st1 = "pop_span x key os rest a (os_start_event os) (compl os) st"
  have "rstep x tz (k, st) (k, ?st1)"
    using Cons.prems Cons.hyps(2) assms(3) by (intro rstep.close [where t = t]) auto
  moreover have "rc_threads ?st1 key = Some (t\<lparr>ts_stack := rest, ts_spans := Suc (ts_spans t)\<rparr>)"
    "tz \<longrightarrow> okt ?st1 a"
    using Cons.prems by (simp_all add: pop_span_threads upd_thread_threads okt_def recon_frame)
  ultimately show ?case
    using Cons.hyps(1) [of "t\<lparr>ts_stack := rest, ts_spans := Suc (ts_spans t)\<rparr>" ?st1]
      emit_open_pop [OF Cons.prems(1) Cons.hyps(2) [symmetric], of x a compl] Cons.hyps(2) [symmetric]
    by (simp add: converse_rtranclp_into_rtranclp)
qed

lemma abs_time_None: "abs_time None = time_unknown"
  by (simp add: abs_time_def)

lemma interrupt_run: "rsteps x tz (k, st) (k, interrupt_thread x key st)"
proof (cases "rc_threads st key")
  case (Some t)
  then have "interrupt_thread x key st = emit_open_spans x (ts_id t) (abs_time None)
      (\<lambda>_. InterruptedByGap) (ts_stack t) (upd_thread key take_stack st)"
    by (simp add: interrupt_thread_def abs_time_None upd_thread_def)
  then show ?thesis
    using flush_run [OF Some, of tz None "\<lambda>_. InterruptedByGap" x k] by simp
qed (simp add: interrupt_thread_def)

lemma close_completeness_incomplete: "close_completeness c \<noteq> Complete"
  by (cases c) (simp_all add: close_completeness_def)

lemma take_stack_pending:
  "take_stack (t\<lparr>ts_pending_end := p\<rparr>) = (take_stack t)\<lparr>ts_pending_end := p\<rparr>"
  by (cases t) (simp add: take_stack_def)

lemma finish_thread_run: "rsteps x tz (k, st) (k, finish_thread x key st)"
proof (cases "rc_threads st key")
  case (Some t)
  let ?st1 = "upd_thread key (\<lambda>t. t\<lparr>ts_pending_end := None\<rparr>) st"
  have t1: "rc_threads ?st1 key = Some (t\<lparr>ts_pending_end := None\<rparr>)"
    using Some by (simp add: upd_thread_threads)
  have "finish_thread x key st = emit_open_spans x (ts_id t) (abs_time None)
      (\<lambda>os. close_completeness (os_completeness os)) (ts_stack t) (upd_thread key take_stack ?st1)"
    using Some by (simp add: finish_thread_def abs_time_None upd_thread_def take_stack_pending)
  moreover have "rstep x tz (k, st) (k, ?st1)"
    by (rule rstep.pend) simp
  ultimately show ?thesis
    using flush_run [OF t1, of tz None "\<lambda>os. close_completeness (os_completeness os)" x k]
    by (simp add: close_completeness_incomplete converse_rtranclp_into_rtranclp)
qed (simp add: finish_thread_def)

lemma emit_span_ledger_cong:
  assumes "rc_spans_n st' = rc_spans_n st" "rc_spans st' = rc_spans st" "rc_spill st' = rc_spill st"
  shows "rc_spans_n (emit_span x s st') = rc_spans_n (emit_span x s st) \<and>
         rc_spans (emit_span x s st') = rc_spans (emit_span x s st) \<and>
         rc_spill (emit_span x s st') = rc_spill (emit_span x s st)"
  using assms by (cases "rc_spill st") (simp_all add: emit_span_def Let_def)

lemma emit_open_spans_cong:
  assumes "rc_spans_n st' = rc_spans_n st" "rc_spans st' = rc_spans st" "rc_spill st' = rc_spill st"
  shows "rc_spans_n (emit_open_spans x th stop c ss st') = rc_spans_n (emit_open_spans x th stop c ss st) \<and>
         rc_spans (emit_open_spans x th stop c ss st') = rc_spans (emit_open_spans x th stop c ss st) \<and>
         rc_spill (emit_open_spans x th stop c ss st') = rc_spill (emit_open_spans x th stop c ss st)"
  using assms
proof (induction ss arbitrary: st st')
  case (Cons s ss)
  let ?e = "emit_span x (span_of_open th s stop (c s) (os_start_event s))"
  have "rc_spans_n (?e st') = rc_spans_n (?e st)" "rc_spans (?e st') = rc_spans (?e st)"
    "rc_spill (?e st') = rc_spill (?e st)"
    using emit_span_ledger_cong [OF Cons.prems] by blast+
  from Cons.IH [OF this] show ?case
    by (simp add: emit_open_spans_def)
qed (simp add: emit_open_spans_def)

lemma retire_run:
  assumes "tz \<longrightarrow> okt st a"
  shows "rsteps x tz (k, st) (k, retire_thread x key a st)"
proof (cases "rc_threads st key")
  case (Some t)
  let ?c = "\<lambda>os. close_completeness (os_completeness os)"
  define st1 where "st1 = upd_thread key (\<lambda>t. t\<lparr>ts_pending_end := None\<rparr>) st"
  define st2 where "st2 = emit_open_spans x (ts_id t) (abs_time a) ?c (ts_stack t)
      (upd_thread key take_stack st1)"
  define dead where "dead = (take_stack t)\<lparr>ts_pending_end := None\<rparr>"
  define st3 where "st3 = st2\<lparr>rc_threads := (rc_threads st2)(key := None),
      rc_thread_order := filter (\<lambda>k. k \<noteq> key) (rc_thread_order st2),
      rc_retired := rc_retired st2 @ [dead]\<rparr>"
  have t1: "rc_threads st1 key = Some (t\<lparr>ts_pending_end := None\<rparr>)"
    using Some by (simp add: st1_def upd_thread_threads)
  have r1: "rsteps x tz (k, st) (k, st1)"
    unfolding st1_def by (rule r_into_rtranclp, rule rstep.pend) simp
  have "tz \<longrightarrow> okt st1 a"
    using assms by (simp add: st1_def okt_def recon_frame)
  then have r2: "rsteps x tz (k, st) (k, st2)"
    using r1 flush_run [OF t1, of tz a ?c x k]
    by (simp add: st2_def close_completeness_incomplete)
  have t2: "rc_threads st2 key = Some dead"
    using t1 by (simp add: st2_def recon_frame upd_thread_threads take_stack_def dead_def)
  have "rsteps x tz (k, st) (k, st3)"
    unfolding st3_def by (rule rsteps_add [OF r2 rstep.bury [OF t2]])
      (simp_all add: dead_def take_stack_def)
  moreover have "ledger (retire_thread x key a st) = ledger st3"
    using Some emit_open_spans_cong
      [of "upd_thread key take_stack st1" "st\<lparr>rc_threads := (rc_threads st)(key := None),
          rc_thread_order := filter (\<lambda>k. k \<noteq> key) (rc_thread_order st)\<rparr>"
        x "ts_id t" "abs_time a" ?c "ts_stack t"]
    by (auto simp: retire_thread_def Let_def ledger_def recon_frame st3_def st2_def st1_def
        dead_def upd_thread_threads)
  ultimately show ?thesis
    by (rule rsteps_quiet)
qed (simp add: retire_thread_def)

section \<open>Runs of the control-flow part\<close>

text \<open>
  \<open>ctx\<close> is what holds while one sample is applied: the thread exists, its clock shows
  the time of the sample, and the event id was drawn for it. \<open>goes\<close> relates two states
  inside that application.
\<close>

definition ctx :: "bool \<Rightarrow> task_key \<Rightarrow> u64 option \<Rightarrow> nat \<Rightarrow> local_id \<Rightarrow> recon \<Rightarrow> bool" where
  "ctx tz key a k eid st \<longleftrightarrow>
     recent eid k \<and> (tz \<longrightarrow> okt st a) \<and>
     (\<exists>t. rc_threads st key = Some t \<and> (a \<noteq> None \<longrightarrow> ts_last_abs t = a) \<and> linked (ts_stack t))"

definition goes ::
    "env \<Rightarrow> bool \<Rightarrow> task_key \<Rightarrow> u64 option \<Rightarrow> nat \<Rightarrow> local_id \<Rightarrow> recon \<Rightarrow> recon \<Rightarrow> bool" where
  "goes x tz key a k eid st st' \<longleftrightarrow>
     (ctx tz key a k eid st \<longrightarrow>
        rsteps x tz (k, st) (k, st') \<and> ctx tz key a k eid st' \<and> rc_min_abs st' = rc_min_abs st)"

lemma ctx_okt: "ctx tz key a k eid st \<Longrightarrow> tz \<Longrightarrow> okt st a"
  by (simp add: ctx_def)

lemma goes_refl: "goes x tz key a k eid st st"
  by (simp add: goes_def)

lemma goes_trans:
  "goes x tz key a k eid st st1 \<Longrightarrow> goes x tz key a k eid st1 st2 \<Longrightarrow> goes x tz key a k eid st st2"
  by (auto simp: goes_def intro: rtranclp_trans)

text \<open>One step on the thread itself that keeps its presence and its clock.\<close>

lemma goes_step:
  assumes "\<And>t. ctx tz key a k eid st \<Longrightarrow> rc_threads st key = Some t \<Longrightarrow> rstep x tz (k, st) (k, st')"
    and "\<And>t. rc_threads st key = Some t \<Longrightarrow>
           \<exists>t'. rc_threads st' key = Some t' \<and> ts_last_abs t' = ts_last_abs t \<and>
                (linked (ts_stack t) \<longrightarrow> linked (ts_stack t'))"
    and "rc_min_abs st' = rc_min_abs st"
  shows "goes x tz key a k eid st st'"
proof -
  have "ctx tz key a k eid st'" if c: "ctx tz key a k eid st"
    using c assms(2) okt_cong [OF assms(3)] unfolding ctx_def by metis
  moreover have "rstep x tz (k, st) (k, st')" if c: "ctx tz key a k eid st"
    using c assms(1) unfolding ctx_def by metis
  ultimately show ?thesis
    using assms(3) by (auto simp: goes_def)
qed

lemma goes_quiet: "ledger st' = ledger st \<Longrightarrow> goes x tz key a k eid st st'"
  by (rule goes_step) (auto simp: ledger_def intro: rstep.quiet)

lemma goes_touch:
  "(\<And>t. thread_ledger (f t) = thread_ledger t) \<Longrightarrow> goes x tz key a k eid st (upd_thread key f st)"
  by (rule goes_step)
     (auto intro: rstep.touch simp: upd_thread_threads recon_frame thread_ledger_def)

lemma goes_pend:
  "(\<And>p. ctx tz key a k eid st \<Longrightarrow> pe = Some p \<Longrightarrow> tz \<Longrightarrow> okt st (pe_abs p)) \<Longrightarrow>
     goes x tz key a k eid st (upd_thread key (\<lambda>t. t\<lparr>ts_pending_end := pe\<rparr>) st)"
  by (rule goes_step) (auto intro: rstep.pend simp: upd_thread_threads recon_frame)

lemma goes_gap:
  "(ctx tz key a k eid st \<Longrightarrow> tz \<Longrightarrow> okt st b \<and> okt st c) \<Longrightarrow>
     goes x tz key a k eid st (push_gap th kd b c kn rs st)"
  by (rule goes_step) (auto intro: rstep.gap simp: recon_frame)

lemma goes_interrupt: "goes x tz key a k eid st (interrupt_thread x key st)"
  unfolding goes_def
proof
  assume c: "ctx tz key a k eid st"
  then have "ctx tz key a k eid (interrupt_thread x key st)"
    by (auto simp: ctx_def okt_def recon_frame interrupt_thread_threads take_stack_def)
  then show "rsteps x tz (k, st) (k, interrupt_thread x key st) \<and>
      ctx tz key a k eid (interrupt_thread x key st) \<and>
      rc_min_abs (interrupt_thread x key st) = rc_min_abs st"
    using interrupt_run by (simp add: recon_frame)
qed

lemma goes_open:
  assumes "ctx tz key a k eid st \<Longrightarrow> tz \<Longrightarrow> okt st b"
    and "compl = OpenStart \<or> compl = OpenEnd \<and> b = a"
  shows "goes x tz key a k eid st (push_open key f b eid compl st)"
proof (rule goes_step)
  fix t assume c: "ctx tz key a k eid st" and t: "rc_threads st key = Some t"
  with assms show "rstep x tz (k, st) (k, push_open key f b eid compl st)"
    by (intro rstep.opn [OF t]) (auto simp: ctx_def)
qed (auto simp: push_open_threads upd_thread_threads recon_frame)

lemma goes_pop:
  assumes "ts_stack (thread_of key st) = os # rest"
    and "compl = Complete \<longrightarrow> os_completeness os \<noteq> OpenStart"
  shows "goes x tz key a k eid st (pop_span x key os rest a eid compl st)"
proof (rule goes_step)
  fix t assume c: "ctx tz key a k eid st" and t: "rc_threads st key = Some t"
  with assms show "rstep x tz (k, st) (k, pop_span x key os rest a eid compl st)"
    by (intro rstep.close [OF t]) (auto simp: ctx_def thread_of_def)
qed (use assms in \<open>auto simp: pop_span_threads upd_thread_threads recon_frame thread_of_def\<close>)

lemma goes_tail:
  assumes os: "ts_stack (thread_of key st) = os # rest"
  shows "goes x tz key a k eid st (tail_call x key os rest g a eid st)"
proof -
  let ?st1 = "pop_span x key os rest a eid UncertainUnwind st"
  let ?st2 = "push_open key (Some g) a eid OpenStart ?st1"
  have go: "goes x tz key a k eid st ?st2"
    by (rule goes_trans [OF goes_pop [OF os] goes_open]) (auto dest: ctx_okt)
  moreover have "tail_call x key os rest g a eid st = ?st2" if c: "ctx tz key a k eid st"
    unfolding tail_call_def
  proof (rule upd_thread_id)
    fix t assume t: "rc_threads ?st2 key = Some t"
    obtain t0 where "rc_threads st key = Some t0" "ts_stack t0 = os # rest" "linked (os # rest)"
      using c os by (auto simp: ctx_def thread_of_def)
    then have "os_parent os = (case rest of [] \<Rightarrow> None | s # _ \<Rightarrow> Some (os_id s))"
      "rc_threads ?st1 key = Some (t0\<lparr>ts_stack := rest, ts_spans := Suc (ts_spans t0)\<rparr>)"
      by (simp_all add: pop_span_threads upd_thread_threads)
    with t show "set_parent (os_parent os) t = t"
      by (auto simp: push_open_threads upd_thread_threads set_parent_def)
  qed
  ultimately show ?thesis
    by (simp add: goes_def)
qed

lemma goes_orphan: "goes x tz key a k eid st (orphan_span x key f a eid st)"
proof (rule goes_step)
  fix t assume c: "ctx tz key a k eid st" and t: "rc_threads st key = Some t"
  then show "rstep x tz (k, st) (k, orphan_span x key f a eid st)"
    by (intro rstep.orphan [OF t]) (auto simp: ctx_def)
qed (auto simp: orphan_span_threads upd_thread_threads recon_frame)

lemma goes_rename:
  assumes "ts_stack (thread_of key st) = os # rest"
  shows "goes x tz key a k eid st
           (upd_thread key (\<lambda>t. t\<lparr>ts_stack := os\<lparr>os_function := f\<rparr> # rest\<rparr>) st)"
proof (rule goes_step)
  fix t assume t: "rc_threads st key = Some t"
  with assms show "rstep x tz (k, st)
      (k, upd_thread key (\<lambda>t. t\<lparr>ts_stack := os\<lparr>os_function := f\<rparr> # rest\<rparr>) st)"
    by (intro rstep.rename [OF t]) (auto simp: thread_of_def)
qed (use assms in \<open>auto simp: upd_thread_threads recon_frame thread_of_def\<close>)

lemma goes_bump: "goes x tz key a k eid st st1 \<Longrightarrow> goes x tz key a k eid st (bump_gaps key st1)"
  unfolding bump_gaps_def by (erule goes_trans) (rule goes_touch, simp add: thread_ledger_def)

lemma goes_open_at:
  "goes x tz key a k eid st st1 \<Longrightarrow> (ctx tz key a k eid st1 \<Longrightarrow> tz \<Longrightarrow> okt st1 b) \<Longrightarrow>
     goes x tz key a k eid st (open_at key f b eid st1)"
  unfolding open_at_def
  by (cases f) (auto elim: goes_trans intro!: goes_open)


lemma ring_hole_okt:
  assumes "is_ring_hole p cpu first" "okt st (pe_abs p)" "okt st a"
  shows "okt st (opt_or first a)"
  using assms by (auto simp: is_ring_hole_def okt_def opt_or_def split: option.splits)

lemma resolve_pending_goes:
  assumes pend: "\<And>p. tz \<Longrightarrow> ts_pending_end (thread_of key st) = Some p \<Longrightarrow> okt st (pe_abs p)"
  shows "goes x tz key a k eid st (snd (resolve_pending x key bd from to a cpu eid st))"
proof (cases "ts_pending_end (thread_of key st)")
  case None
  then show ?thesis by (simp add: resolve_pending_def goes_refl)
next
  case (Some p)
  define st1 where "st1 = upd_thread key (\<lambda>t. t\<lparr>ts_pending_end := None\<rparr>) st"
  define first where "first = Option.bind cpu (rc_cpu_first_abs st1)"
  have g1: "goes x tz key a k eid st st1"
    unfolding st1_def by (rule goes_pend) simp
  have p: "okt st1 (pe_abs p)" if tz
    using pend [OF that Some] by (simp add: st1_def okt_def recon_frame)
  have gap: "goes x tz key a k eid st (bump_gaps key (push_gap th kd (pe_abs p) a kn rs st2))"
    if "goes x tz key a k eid st st2" "rc_min_abs st2 = rc_min_abs st1" for th kd kn rs st2
    using that p by (auto intro!: goes_bump goes_trans [OF that(1)] goes_gap
        dest: ctx_okt simp: okt_cong [OF that(2)])
  have intr: "goes x tz key a k eid st (interrupt_thread x key st1)"
    by (rule goes_trans [OF g1 goes_interrupt])
  define st2 where "st2 = interrupt_thread x key (st1\<lparr>rc_ring_holes := Suc (rc_ring_holes st1)\<rparr>)"
  have g2: "goes x tz key a k eid st st2"
    unfolding st2_def
    by (intro goes_trans [OF goes_trans [OF g1 goes_quiet] goes_interrupt]) (simp add: ledger_def)
  have min2: "rc_min_abs st2 = rc_min_abs st1"
    by (simp add: st2_def recon_frame)
  have p2: "okt st2 (pe_abs p)" if tz
    using p [OF that] okt_cong [OF min2] by simp
  have hole: "goes x tz key a k eid st
      (upd_thread key (\<lambda>t. t\<lparr>ts_gaps := Suc (ts_gaps t), ts_segments := f t\<rparr>)
        (push_gap th RingTruncation (pe_abs p) (opt_or first a) kn rs st2))"
    if "is_ring_hole p cpu first" for f th kn rs
    by (rule goes_trans [OF goes_trans [OF g2 goes_gap] goes_touch])
       (use p2 that in \<open>auto simp: thread_ledger_def dest: ctx_okt intro: ring_hole_okt\<close>)
  have a_ok: "okt st' a" if "ctx tz key a k eid st'" tz for st'
    using that by (rule ctx_okt)
  have or_ok: "okt st' (opt_or (pe_abs p) a)"
    if "ctx tz key a k eid st'" tz "rc_min_abs st' = rc_min_abs st1" for st'
    using a_ok [OF that(1,2)] p [OF that(2)] okt_cong [OF that(3)]
    by (cases "pe_abs p") (simp_all add: opt_or_def)
  have min_bump: "rc_min_abs (bump_gaps key (push_gap th kd b c kn rs st1)) = rc_min_abs st1"
    for th kd b c kn rs
    by (simp add: bump_gaps_def recon_frame)
  show ?thesis
    unfolding resolve_pending_def Some option.case Let_def st1_def [symmetric]
      first_def [symmetric] st2_def [symmetric]
    by (auto intro!: hole gap intr g1 goes_open_at simp: recon_frame min_bump
         intro: a_ok or_ok simp del: append.simps)
qed

lemma apply_boundary_goes:
  "goes x tz key a k eid st (apply_boundary x key bd from to a cpu eid st)"
  unfolding apply_boundary_def
  by (auto intro!: goes_pend goes_bump goes_trans [OF goes_interrupt goes_gap] goes_open_at goes_refl
      dest: ctx_okt)

lemma apply_return_eq:
  "apply_return x key from to a eid st =
     (case ts_stack (thread_of key st) of
        os # rest \<Rightarrow>
          (let st2 = pop_span x key os rest a eid
                       (if os_completeness os = OpenStart then OpenBoth else Complete) st
           in case (rest, r_func to) of
                (tp # _, Some t) \<Rightarrow>
                  (case os_function tp of
                     Some f \<Rightarrow> if f \<noteq> t then note_unwind_mismatch from t f st2 else st2
                   | None \<Rightarrow> st2)
              | _ \<Rightarrow> st2)
      | [] \<Rightarrow> open_at key (r_func to) a eid (orphan_span x key (r_func from) a eid st))"
  by (simp add: apply_return_def pop_span_def orphan_span_def Let_def split: list.splits)

lemma ledger_unwind_mismatch: "ledger (note_unwind_mismatch from t tp st) = ledger st"
  by (simp add: note_unwind_mismatch_def ledger_def)

lemma apply_return_goes:
  "goes x tz key a k eid st (apply_return x key from to a eid st)"
proof (cases "ts_stack (thread_of key st)")
  case Nil
  then show ?thesis
    by (auto simp: apply_return_eq intro!: goes_open_at goes_orphan dest: ctx_okt)
next
  case (Cons os rest)
  have g: "goes x tz key a k eid st (pop_span x key os rest a eid
      (if os_completeness os = OpenStart then OpenBoth else Complete) st)"
    by (rule goes_pop [OF Cons]) simp
  have q: "goes x tz key a k eid st (note_unwind_mismatch from t f (pop_span x key os rest a eid
      (if os_completeness os = OpenStart then OpenBoth else Complete) st))" for t f
    by (rule goes_trans [OF g goes_quiet]) (rule ledger_unwind_mismatch)
  show ?thesis
    unfolding apply_return_eq Cons list.case Let_def
    using g q by (auto split: list.splits option.splits)
qed

lemma apply_jump_eq:
  "apply_jump x key from to a eid st =
     (case (r_func from, r_func to) of
        (Some f, Some g) \<Rightarrow>
          if f \<noteq> g then
            (case ts_stack (thread_of key st) of
               [] \<Rightarrow> upd_thread key (set_parent None) (push_open key (Some g) a eid OpenStart st)
             | os # rest \<Rightarrow> tail_call x key os rest g a eid st)
          else st
      | (None, Some g) \<Rightarrow>
          (case ts_stack (thread_of key st) of
             os # rest \<Rightarrow>
               if os_function os = None
               then upd_thread key (\<lambda>t. t\<lparr>ts_stack := os\<lparr>os_function := Some g\<rparr> # rest\<rparr>) st
               else st
           | [] \<Rightarrow> st)
      | _ \<Rightarrow> st)"
  by (simp add: apply_jump_def tail_call_def pop_span_def set_parent_def [abs_def] Let_def
      split: list.splits option.splits)

lemma set_parent_push_open:
  "ts_stack (thread_of key st) = [] \<Longrightarrow>
     upd_thread key (set_parent None) (push_open key f a eid c st) = push_open key f a eid c st"
  by (rule upd_thread_id)
     (auto simp: push_open_threads upd_thread_threads set_parent_def thread_of_def split: option.splits)

lemma apply_jump_goes:
  "goes x tz key a k eid st (apply_jump x key from to a eid st)"
  unfolding apply_jump_eq
  by (auto split: option.splits list.splits simp: set_parent_push_open
      intro!: goes_refl goes_rename goes_tail goes_open dest: ctx_okt)

lemma apply_kind_goes:
  "goes x tz key a k eid st (apply_kind x key kind from to a eid st)"
  unfolding apply_kind_def
  by (cases kind) (auto intro: apply_return_goes apply_jump_goes goes_refl goes_open dest: ctx_okt)

lemma apply_flow_goes:
  assumes "\<And>p. tz \<Longrightarrow> ts_pending_end (thread_of key st) = Some p \<Longrightarrow> okt st (pe_abs p)"
  shows "goes x tz key a k eid st (apply_flow x key kind bd from to a cpu eid st)"
proof -
  have r: "goes x tz key a k eid st (snd (resolve_pending x key bd from to a cpu eid st))"
    using assms by (rule resolve_pending_goes)
  show ?thesis
    using r goes_trans [OF r apply_boundary_goes] goes_trans [OF r apply_kind_goes]
    by (auto simp: apply_flow_def split: prod.splits)
qed

section \<open>The clock invariant of the machine\<close>

text \<open>
  Recorded clocks and pending trace ends are never before the origin, and the ghost
  counter is the event counter before wrap-around.
\<close>

definition times_ok :: "recon \<Rightarrow> bool" where
  "times_ok st \<longleftrightarrow>
     (\<forall>key t. rc_threads st key = Some t \<longrightarrow>
        okt st (ts_last_abs t) \<and> (\<forall>p. ts_pending_end t = Some p \<longrightarrow> okt st (pe_abs p)))"

definition stacks_linked :: "recon \<Rightarrow> bool" where
  "stacks_linked st \<longleftrightarrow> (\<forall>key t. rc_threads st key = Some t \<longrightarrow> linked (ts_stack t))"

definition good :: "bool \<Rightarrow> nat \<Rightarrow> recon \<Rightarrow> bool" where
  "good tz k st \<longleftrightarrow>
     (tz \<longrightarrow> times_ok st) \<and> stacks_linked st \<and> rc_next_event st = k mod 2 ^ 32"

lemma okt_same_min: "rc_min_abs st' = rc_min_abs st \<Longrightarrow> okt st b \<Longrightarrow> okt st' b"
  by (simp add: okt_def)

lemma times_ok_step:
  assumes "times_ok st" and "\<And>b. okt st b \<Longrightarrow> okt st' b"
    and "\<And>key' t'. rc_threads st' key' = Some t' \<Longrightarrow>
           (\<exists>t. rc_threads st key' = Some t \<and> ts_last_abs t' = ts_last_abs t \<and>
                ts_pending_end t' \<in> {None, ts_pending_end t})
           \<or> ts_last_abs t' = None \<and> ts_pending_end t' = None"
  shows "times_ok st'"
  using assms unfolding times_ok_def by (metis empty_iff insert_iff okt_None option.distinct(1))

lemma emit_event_cases:
  assumes "emit_event x ev st = Inr st'"
  obtains (mem) "rc_spill st = None" and
      "st' = st\<lparr>rc_events_n := Suc (rc_events_n st), rc_events := rc_events st @ [ev]\<rparr>"
  | (spilled) sp n where "rc_spill st = Some sp" and "x_write_event x (spill_events_n sp) ev = Inr n" and
      "st' = st\<lparr>rc_events_n := Suc (rc_events_n st),
                rc_spill := Some (sp\<lparr>spill_bytes := spill_bytes sp + n,
                  spill_events := spill_events sp @ [ev],
                  spill_events_n := Suc (spill_events_n sp)\<rparr>)\<rparr>"
proof (cases "rc_spill st")
  case None
  with assms show ?thesis by (intro mem) (auto simp: emit_event_def)
next
  case (Some sp)
  with assms show ?thesis
    by (cases "x_write_event x (spill_events_n sp) ev")
       (auto simp: emit_event_def Let_def try_bind_Inr_iff split: if_splits intro!: spilled)
qed

lemma record_event_cases:
  assumes "record_event x key ev st = Inr st'"
  obtains st1 where "emit_event x ev (st\<lparr>rc_next_event := inc32 (rc_next_event st)\<rparr>) = Inr st1"
    "st' = upd_thread key (\<lambda>t. t\<lparr>ts_retained := Suc (ts_retained t)\<rparr>) st1"
  using assms by (auto simp: record_event_def try_bind_Inr_iff)

lemma emit_event_keeps:
  assumes "emit_event x ev st = Inr st'"
  shows "rc_threads st' = rc_threads st \<and> rc_min_abs st' = rc_min_abs st
    \<and> rc_next_event st' = rc_next_event st \<and> rc_samples st' = rc_samples st"
  using assms by (cases rule: emit_event_cases) simp_all

lemma record_event_keeps:
  assumes "record_event x key ev st = Inr st'"
  shows "rc_min_abs st' = rc_min_abs st \<and> rc_next_event st' = inc32 (rc_next_event st)
    \<and> rc_threads st' = rc_threads (upd_thread key (\<lambda>t. t\<lparr>ts_retained := Suc (ts_retained t)\<rparr>) st)"
  using assms
  by (cases rule: record_event_cases)
     (auto dest!: emit_event_keeps simp: recon_frame upd_thread_threads split: option.splits)

lemma retire_thread_threads:
  "rc_threads (retire_thread x key a st) = (rc_threads st)(key := None)"
  by (auto simp: retire_thread_def Let_def recon_frame split: option.splits)

lemma finish_thread_threads:
  "rc_threads (finish_thread x key st) =
     rc_threads (upd_thread key (\<lambda>t. (take_stack t)\<lparr>ts_pending_end := None\<rparr>) st)"
  by (simp add: finish_thread_def recon_frame upd_thread_def split: option.splits)

lemma retire_thread_frame [recon_frame]:
  "rc_min_abs (retire_thread x key a st) = rc_min_abs st"
  "rc_next_event (retire_thread x key a st) = rc_next_event st"
  "rc_next_span (retire_thread x key a st) = rc_next_span st"
  "rc_next_gap (retire_thread x key a st) = rc_next_gap st"
  by (simp_all add: retire_thread_def Let_def recon_frame split: option.splits)

lemma finish_thread_frame [recon_frame]:
  "rc_min_abs (finish_thread x key st) = rc_min_abs st"
  "rc_next_event (finish_thread x key st) = rc_next_event st"
  "rc_next_span (finish_thread x key st) = rc_next_span st"
  "rc_next_gap (finish_thread x key st) = rc_next_gap st"
  by (simp_all add: finish_thread_def recon_frame split: option.splits)

lemma ensure_thread_frame [recon_frame]:
  "rc_min_abs (ensure_thread pid tid st) = rc_min_abs st"
  "rc_next_event (ensure_thread pid tid st) = rc_next_event st"
  "rc_next_span (ensure_thread pid tid st) = rc_next_span st"
  "rc_next_gap (ensure_thread pid tid st) = rc_next_gap st"
  by (simp_all add: ensure_thread_def split: option.splits)

lemma next_event_frame [recon_frame]:
  "rc_next_event (interrupt_thread x key st) = rc_next_event st"
  "rc_next_event (push_gap th kd a b kn rs st) = rc_next_event st"
  "rc_next_event (push_open key f a eid compl st) = rc_next_event st"
  "rc_next_event (pop_span x key os rest a eid compl st) = rc_next_event st"
  "rc_next_event (orphan_span x key f a eid st) = rc_next_event st"
  by (simp_all add: interrupt_thread_def push_gap_def push_open_def pop_span_def close_span_def
      orphan_span_def Let_def recon_frame split: option.splits)

lemma rstep_next_event:
  assumes "rstep x tz (k, st) (k', st')" "rc_next_event st = k mod 2 ^ 32"
  shows "rc_next_event st' = k' mod 2 ^ 32"
  using assms
proof (cases rule: rstep.cases)
  case (event key ev)
  then show ?thesis using assms(2) by (simp add: record_event_keeps [OF event(3)] inc32_def mod_Suc_eq)
next
  case draw
  then show ?thesis using assms(2) by (simp add: inc32_def mod_Suc_eq)
qed (auto simp: recon_frame ledger_def push_lost_def)

lemma times_ok_upd_thread:
  assumes "times_ok st"
    and "\<And>t. rc_threads st key = Some t \<Longrightarrow> okt st (ts_last_abs t) \<Longrightarrow>
           (\<forall>p. ts_pending_end t = Some p \<longrightarrow> okt st (pe_abs p)) \<Longrightarrow>
           okt st (ts_last_abs (f t)) \<and> (\<forall>p. ts_pending_end (f t) = Some p \<longrightarrow> okt st (pe_abs p))"
  shows "times_ok (upd_thread key f st)"
proof -
  have "okt (upd_thread key f st) = okt st"
    by (auto simp: okt_def recon_frame)
  with assms show ?thesis
    by (cases "rc_threads st key")
       (auto simp: times_ok_def upd_thread_threads simp del: split_paired_All split_paired_Ex)
qed

lemma times_ok_cong:
  "rc_threads st' = rc_threads st \<Longrightarrow> rc_min_abs st' = rc_min_abs st \<Longrightarrow> times_ok st' = times_ok st"
  by (simp add: times_ok_def okt_def)


lemma times_ok_keep:
  assumes "times_ok st" "rc_min_abs st' = rc_min_abs st"
    and "rc_threads st' = rc_threads (upd_thread key f st)"
    and "\<And>t. ts_last_abs (f t) = ts_last_abs t \<and> ts_pending_end (f t) \<in> {None, ts_pending_end t}"
  shows "times_ok st'"
proof -
  have pe: "ts_pending_end t = Some p" if "ts_pending_end (f t) = Some p" for t p
    using assms(4) [of t] that by auto
  have "times_ok (upd_thread key f st)"
    by (rule times_ok_upd_thread [OF assms(1)]) (metis pe assms(4))
  then show ?thesis
    using assms(2,3) times_ok_cong [of st' "upd_thread key f st"] by (simp add: recon_frame)
qed

lemma times_ok_noted: "times_ok st \<Longrightarrow> times_ok (note_abs a st)"
  by (auto simp: times_ok_def note_abs_frame intro!: okt_note_abs_keep)

lemma times_ok_retire: "times_ok st \<Longrightarrow> times_ok (retire_thread x key a st)"
  by (auto simp: times_ok_def retire_thread_threads recon_frame okt_def split: if_splits)

lemma times_ok_spawn: "times_ok st \<Longrightarrow> times_ok (ensure_thread pid tid st)"
  by (auto simp: times_ok_def ensure_thread_def okt_def new_thread_state_def
      split: option.splits if_splits)

lemma rstep_times_ok:
  assumes "rstep x tz (k, st) (k', st')" tz "times_ok st"
  shows "times_ok st'"
  using assms(1)
proof (cases rule: rstep.cases)
  case quiet
  then show ?thesis using assms(3) times_ok_cong [of st' st] by (simp add: ledger_def)
next
  case noted
  then show ?thesis using assms(3) by (simp add: times_ok_noted)
next
  case draw
  then show ?thesis using assms(3) times_ok_cong [of st' st] by simp
next
  case spawn
  then show ?thesis using assms(3) by (simp add: times_ok_spawn)
next
  case (touch f key)
  show ?thesis
    by (rule times_ok_keep [of st _ key f])
       (use touch assms(3) in \<open>auto simp: recon_frame thread_ledger_def\<close>)
next
  case (pend pe key)
  then show ?thesis using assms by (auto intro: times_ok_upd_thread)
next
  case (clock key t n)
  then show ?thesis using assms by (auto intro: times_ok_upd_thread)
next
  case (opn key t a eid compl f)
  show ?thesis
    by (rule times_ok_keep [OF _ _ push_open_threads [of key f a eid compl st, folded opn(2)]])
       (use opn assms(3) in \<open>auto simp: recon_frame\<close>)
next
  case (close key t os rest a eid compl)
  show ?thesis
    by (rule times_ok_keep [OF _ _ pop_span_threads [of x key os rest a eid compl st, folded close(2)]])
       (use close assms(3) in \<open>auto simp: recon_frame\<close>)
next
  case (orphan key t a eid f)
  show ?thesis
    by (rule times_ok_keep [OF _ _ orphan_span_threads [of x key f a eid st, folded orphan(2)]])
       (use orphan assms(3) in \<open>auto simp: recon_frame\<close>)
next
  case (rename key t os rest f)
  then show ?thesis using assms(3) by (auto intro: times_ok_upd_thread)
next
  case (bury key t)
  then show ?thesis
    using assms(3) by (auto simp: times_ok_def okt_def split: if_splits)
next
  case gap
  then show ?thesis using assms(3) times_ok_cong [of st' st] by (simp add: recon_frame)
next
  case (event key ev)
  show ?thesis
    by (rule times_ok_keep [of st _ key "\<lambda>t. t\<lparr>ts_retained := Suc (ts_retained t)\<rparr>"])
       (use assms(3) record_event_keeps [OF event(3)] in auto)
qed

lemma stacks_linked_upd_thread:
  assumes "stacks_linked st" "rc_threads st' = rc_threads (upd_thread key f st)"
    and "\<And>t. rc_threads st key = Some t \<Longrightarrow> linked (ts_stack t) \<Longrightarrow> linked (ts_stack (f t))"
  shows "stacks_linked st'"
  using assms
  by (cases "rc_threads st key")
     (auto simp: stacks_linked_def upd_thread_threads simp del: split_paired_All split_paired_Ex)

lemma rstep_linked:
  assumes "rstep x tz (k, st) (k', st')" "stacks_linked st"
  shows "stacks_linked st'"
  using assms(1)
proof (cases rule: rstep.cases)
  case (touch f key)
  have "ts_stack (f t) = ts_stack t" for t
    using touch(3) [of t] by (simp add: thread_ledger_def)
  then show ?thesis
    using touch(2) by (intro stacks_linked_upd_thread [OF assms(2), of st' key f]) auto
next
  case (opn key t a eid compl f)
  show ?thesis
    by (rule stacks_linked_upd_thread [OF assms(2) push_open_threads [of key f a eid compl st, folded opn(2)]])
       simp
next
  case (close key t os rest a eid compl)
  show ?thesis
    by (rule stacks_linked_upd_thread [OF assms(2) pop_span_threads [of x key os rest a eid compl st, folded close(2)]])
       (use close in auto)
next
  case (orphan key t a eid f)
  show ?thesis
    by (rule stacks_linked_upd_thread [OF assms(2) orphan_span_threads [of x key f a eid st, folded orphan(2)]])
       simp
next
  case (rename key t os rest f)
  show ?thesis
    by (rule stacks_linked_upd_thread [OF assms(2) arg_cong [OF rename(2), of rc_threads]]) (use rename in auto)
next
  case (event key ev)
  show ?thesis
    by (rule stacks_linked_upd_thread [OF assms(2),
          where key = key and f = "\<lambda>t. t\<lparr>ts_retained := Suc (ts_retained t)\<rparr>"])
       (use record_event_keeps [OF event(3)] in auto)
next
  case (pend pe key)
  show ?thesis by (rule stacks_linked_upd_thread [OF assms(2) arg_cong [OF pend(2), of rc_threads]]) auto
next
  case (clock key t n)
  show ?thesis by (rule stacks_linked_upd_thread [OF assms(2) arg_cong [OF clock(2), of rc_threads]]) auto
qed (use assms(2) in \<open>auto simp: stacks_linked_def ledger_def recon_frame push_gap_def ensure_thread_def
       new_thread_state_def split: option.splits if_splits\<close>)

lemma rsteps_good:
  assumes "rsteps x tz (k, st) (k', st')" "good tz k st"
  shows "good tz k' st'"
  using assms
  by (induction rule: rtranclp_induct2)
     (auto simp: good_def dest: rstep_times_ok rstep_next_event rstep_linked)


section \<open>Every record is a run\<close>

fun record_time :: "raw_record \<Rightarrow> u64 option" where
  "record_time (RSample s) = s_time s"
| "record_time (RMmap m) = mm_time m"
| "record_time (RTask t) = t_time t"
| "record_time (RSwitch _ _ time _) = time"
| "record_time (RLost _) = None"
| "record_time (RDecoderError e) = de_time e"

lemma ledger_intern:
  "ledger (snd (intern_function ik iid fr st)) = ledger st"
  "ledger (snd (intern_location ik iid rel ip f st)) = ledger st"
  "ledger (note_missing_image path st) = ledger st"
  by (simp_all add: intern_function_def intern_location_def note_missing_image_def ledger_def Let_def
      split: option.splits)

lemma ledger_resolve_uncached: "ledger (snd (resolve_uncached pid ip st)) = ledger st"
  by (auto simp: resolve_uncached_def Let_def ledger_intern split: option.splits prod.splits)
     (metis ledger_intern snd_conv)+

lemma ledger_resolve: "ledger (snd (resolve pid ip st)) = ledger st"
  using ledger_resolve_uncached [of pid "the ip" st]
  by (auto simp: resolve_def Let_def ledger_def split: option.splits prod.splits)

lemma ledger_attribute_block: "ledger (attribute_block x key pid s e t0 t1 st) = ledger st"
  by (auto simp: attribute_block_def ledger_def Let_def split: option.splits prod.splits)

lemma ledger_note_trigger: "ledger (note_trigger s bd st) = ledger st"
  by (simp add: note_trigger_def ledger_def split: option.splits)

lemma step_inline_run:
  assumes "rsteps x tz c (k, st)"
  shows "rsteps x tz c (k, step_inline x key s bd st)"
proof -
  have "rsteps x tz c (k, upd_thread key (\<lambda>t. t\<lparr>ts_block_start := None\<rparr>) st)"
    by (rule rsteps_add [OF assms rstep.touch]) (simp add: thread_ledger_def)
  then have "rsteps x tz c (k, attribute_block x key pid b ip t0 t1
      (upd_thread key (\<lambda>t. t\<lparr>ts_block_start := None\<rparr>) st))"
    "rsteps x tz c (k, upd_thread key (\<lambda>t. t\<lparr>ts_block_start := None\<rparr>) st)" for pid b ip t0 t1
    by (auto intro: rsteps_quiet ledger_attribute_block)
  then show ?thesis
    unfolding step_inline_def Let_def using assms
    by (auto split: option.splits prod.splits if_splits simp: thread_ledger_def
        intro!: rsteps_add [OF _ rstep.touch])
qed

lemma advance_time_run:
  assumes t: "rc_threads st key = Some t" and g: "good tz k st" and n: "tz \<longrightarrow> okt st now"
  shows "rsteps x tz (k, st) (k, advance_time x key now st)"
proof -
  define gs where "gs p = bump_gaps key (push_gap (ts_id t) TimeRegression (Some p) now True
      ''time regression'' (interrupt_thread x key st))" for p
  have gs: "rsteps x tz (k, st) (k, gs p)" if p: "ts_last_abs t = Some p" for p
  proof -
    have "okt (interrupt_thread x key st) (Some p) \<and> okt (interrupt_thread x key st) now" if tz
      using g t n p that okt_cong [of "interrupt_thread x key st" st]
      by (metis good_def times_ok_def interrupt_thread_frame(1))
    then have "rsteps x tz (k, st) (k, push_gap (ts_id t) TimeRegression (Some p) now True
        ''time regression'' (interrupt_thread x key st))"
      by (intro rsteps_add [OF interrupt_run rstep.gap])
    then show ?thesis
      unfolding gs_def bump_gaps_def
      by (rule rsteps_add [OF _ rstep.touch]) (simp add: thread_ledger_def)
  qed
  have gs_thread: "\<exists>t'. rc_threads (gs p) key = Some t' \<and> ts_stack t' = []" for p
    using t by (simp add: gs_def bump_gaps_def upd_thread_threads recon_frame
        interrupt_thread_threads take_stack_def)
  have gs_min: "rc_min_abs (gs p) = rc_min_abs st" for p
    by (simp add: gs_def bump_gaps_def recon_frame)
  show ?thesis
  proof (cases now)
    case None
    then show ?thesis by (auto simp: advance_time_def split: option.splits)
  next
    case (Some m)
    have tick: "rsteps x tz (k, st) (k, upd_thread key (\<lambda>t. t\<lparr>ts_last_abs := Some m\<rparr>) st1)"
      if "rsteps x tz (k, st) (k, st1)" "rc_min_abs st1 = rc_min_abs st"
        "rc_threads st1 key = Some t1" "\<And>p. ts_last_abs t1 = Some p \<Longrightarrow> p \<le> m \<or> ts_stack t1 = []"
      for st1 t1
      using that n Some okt_cong [OF that(2)] by (intro rsteps_add [OF that(1) rstep.clock]) auto
    have quiet: "rsteps x tz (k, st) (k, st\<lparr>rc_min_time_step := v\<rparr>)" for v
      by (rule rsteps_quiet [OF rtranclp.rtrancl_refl]) (simp add: ledger_def)
    show ?thesis
    proof (cases "ts_last_abs t")
      case None
      with t Some show ?thesis
        by (auto simp: advance_time_def thread_of_def intro!: tick)
    next
      case (Some p)
      consider "m < p" | "m = p" | "p < m" by linarith
      then show ?thesis
      proof cases
        case 1
        obtain t' where "rc_threads (gs p) key = Some t'" "ts_stack t' = []"
          using gs_thread by blast
        with 1 \<open>now = Some m\<close> Some t show ?thesis
          using tick [OF gs [OF Some] gs_min]
          by (auto simp: advance_time_def thread_of_def gs_def)
      next
        case 2
        with Some \<open>now = Some m\<close> t show ?thesis
          using tick [of st t] by (simp add: advance_time_def thread_of_def)
      qed (use Some \<open>now = Some m\<close> t in
           \<open>auto simp: advance_time_def thread_of_def Let_def intro!: tick quiet\<close>)
    qed
  qed
qed

lemma advance_time_thread:
  assumes "rc_threads st key = Some t"
  shows "\<exists>t'. rc_threads (advance_time x key now st) key = Some t' \<and>
           (now \<noteq> None \<longrightarrow> ts_last_abs t' = now)"
    and "rc_min_abs (advance_time x key now st) = rc_min_abs st"
  using assms
  by (auto simp: advance_time_def Let_def upd_thread_threads bump_gaps_def recon_frame
      interrupt_thread_threads split: option.splits)


lemma prepare_sample_run:
  fixes s :: sample
  defines "key \<equiv> (s_pid s, s_tid s)"
  assumes g: "good tz k st" and nz: "tz \<longrightarrow> s_time s \<noteq> Some 0"
  shows "rsteps x tz (k, st) (k, prepare_sample x s st)"
    and "tz \<longrightarrow> okt (prepare_sample x s st) (s_time s)"
    and "\<exists>t. rc_threads (prepare_sample x s st) key = Some t \<and>
           (s_time s \<noteq> None \<longrightarrow> ts_last_abs t = s_time s)"
proof -
  define st1 where "st1 = note_abs (s_time s) (st\<lparr>rc_samples := Suc (rc_samples st)\<rparr>)"
  define st2 where "st2 = (if s_time s = None
      then st1\<lparr>rc_time_unknown := Suc (rc_time_unknown st1)\<rparr> else st1)"
  define st3 where "st3 = upd_thread key (touch_thread s) (ensure_thread (s_pid s) (s_tid s) st2)"
  have eq: "prepare_sample x s st =
      note_trigger s (flags_boundary (s_flags s)) (advance_time x key (s_time s) st3)"
    by (simp add: prepare_sample_def Let_def st3_def st2_def st1_def key_def)
  have "rsteps x tz (k, st) (k, st1)"
    unfolding st1_def
    by (rule rsteps_add [OF rsteps_quiet [OF rtranclp.rtrancl_refl] rstep.noted])
       (simp add: ledger_def)
  then have "rsteps x tz (k, st) (k, st2)"
    by (rule rsteps_quiet) (simp add: st2_def ledger_def)
  then have r3: "rsteps x tz (k, st) (k, st3)"
    unfolding st3_def
    by (rule rsteps_add [OF rsteps_add [OF _ rstep.spawn] rstep.touch])
       (simp add: thread_ledger_def touch_thread_def)
  have min3: "rc_min_abs st3 = rc_min_abs st1"
    by (simp add: st3_def st2_def recon_frame)
  have ok: "okt st3 (s_time s)" if tz
    using nz that by (simp add: okt_cong [OF min3] st1_def okt_note_abs)
  have "rc_threads st3 key \<noteq> None"
    by (simp add: st3_def key_def upd_thread_threads ensure_thread_def split: option.splits)
  then obtain t where t: "rc_threads st3 key = Some t"
    by blast
  have r4: "rsteps x tz (k, st) (k, advance_time x key (s_time s) st3)"
    using rtranclp_trans [OF r3 advance_time_run [OF t rsteps_good [OF r3 g]]] ok by blast
  then show "rsteps x tz (k, st) (k, prepare_sample x s st)"
    unfolding eq by (rule rsteps_quiet) (rule ledger_note_trigger)
  have "ledger (prepare_sample x s st) = ledger (advance_time x key (s_time s) st3)"
    by (simp add: eq ledger_note_trigger)
  then have "rc_threads (prepare_sample x s st) = rc_threads (advance_time x key (s_time s) st3)"
    and m: "rc_min_abs (prepare_sample x s st) = rc_min_abs st3"
    by (simp_all add: ledger_def advance_time_thread(2) [OF t])
  then show "\<exists>t. rc_threads (prepare_sample x s st) key = Some t \<and>
           (s_time s \<noteq> None \<longrightarrow> ts_last_abs t = s_time s)"
    using advance_time_thread(1) [OF t] by simp
  show "tz \<longrightarrow> okt (prepare_sample x s st) (s_time s)"
    using ok by (simp add: okt_cong [OF m])
qed

lemma retain_event_run:
  fixes st :: recon
  defines "st1 \<equiv> st\<lparr>rc_next_event := inc32 (rc_next_event st)\<rparr>"
  assumes r: "rsteps x tz c (k, st)" and t: "rc_threads st (s_pid s, s_tid s) \<noteq> None"
    and ok: "tz \<longrightarrow> okt st (s_time s)"
    and eq: "retain_event x s kind bd from to thread seq (rc_next_event st) st1 = Inr st'"
  shows "rsteps x tz c (Suc k, st')"
proof (cases "is_intra kind bd from to")
  case True
  with eq have "st' = st1" by (simp add: retain_event_def)
  then show ?thesis
    using rsteps_add [OF r rstep.draw] by (simp add: st1_def)
next
  case False
  then have "\<exists>ev. record_event x (s_pid s, s_tid s) ev st = Inr st' \<and> ev_id ev = rc_next_event st \<and>
      relative_ns (ev_time ev) = s_time s"
    using eq by (auto simp: retain_event_def record_event_def st1_def)
  then show ?thesis
    using t ok by (auto intro!: rsteps_add [OF r] rstep.event)
qed

lemma retain_event_keeps:
  assumes "retain_event x s kind bd from to thread seq eid st = Inr st'"
  shows "rc_min_abs st' = rc_min_abs st \<and>
    (\<forall>key t. rc_threads st key = Some t \<longrightarrow>
       (\<exists>t'. rc_threads st' key = Some t' \<and> ts_last_abs t' = ts_last_abs t))"
proof (cases "is_intra kind bd from to")
  case True
  with assms show ?thesis by (simp add: retain_event_def)
next
  case False
  then obtain ev st1 where "emit_event x ev st = Inr st1"
    "st' = upd_thread (s_pid s, s_tid s) (\<lambda>t. t\<lparr>ts_retained := Suc (ts_retained t)\<rparr>) st1"
    using assms by (auto simp: retain_event_def try_bind_Inr_iff)
  with emit_event_keeps show ?thesis
    by (auto simp: upd_thread_threads recon_frame split: option.splits)
qed

lemma push_sample_run:
  assumes g: "good tz k st" and nz: "tz \<longrightarrow> s_time s \<noteq> Some 0"
    and eq: "push_sample x s st = Inr st'"
  shows "rsteps x tz (k, st) (Suc k, st')"
proof -
  define key where "key = (s_pid s, s_tid s)"
  define bd kind where "bd = flags_boundary (s_flags s)" and "kind = flags_kind (s_flags s)"
  define st1 where "st1 = prepare_sample x s st"
  define rf where "rf = resolve (s_pid s) (s_ip s) st1"
  define rt where "rt = resolve (s_pid s) (s_addr s) (snd rf)"
  define st4 where "st4 = step_inline x key s bd (snd rt)"
  define st5 where "st5 = st4\<lparr>rc_next_event := inc32 (rc_next_event st4)\<rparr>"
  define eid where "eid = rc_next_event st4"
  obtain st6 where ret: "retain_event x s kind bd (fst rf) (fst rt) (ts_id (thread_of key st1))
      (ts_last_seq (thread_of key st1)) eid st5 = Inr st6"
    and st': "st' = (apply_flow x key kind bd (fst rf) (fst rt) (s_time s) (s_cpu s) eid
      (st6\<lparr>rc_cur_call_site := (if kind = Call then s_ip s else None)\<rparr>))\<lparr>rc_cur_call_site := None\<rparr>"
    using eq unfolding push_sample_def Let_def key_def bd_def kind_def st1_def rf_def rt_def
      st4_def st5_def eid_def
    by (auto simp: try_bind_Inr_iff split: prod.splits if_splits)
  note prep = prepare_sample_run [OF g nz, of x, folded st1_def key_def]
  have led: "ledger (snd rt) = ledger st1"
    by (simp add: rt_def rf_def ledger_resolve)
  have r4: "rsteps x tz (k, st) (k, st4)"
    unfolding st4_def by (rule step_inline_run [OF rsteps_quiet [OF prep(1) led]])
  have eid: "recent eid (Suc k)"
    using rsteps_good [OF r4 g] by (simp add: recent_def eid_def good_def)
  have keep: "rc_min_abs st5 = rc_min_abs st1 \<and>
      (\<forall>t. rc_threads st1 key = Some t \<longrightarrow>
         (\<exists>t'. rc_threads st5 key = Some t' \<and> ts_last_abs t' = ts_last_abs t))"
    using led unfolding st5_def st4_def step_inline_def Let_def
    using ledger_attribute_block
    by (auto simp: ledger_def recon_frame upd_thread_threads split: option.splits prod.splits)
  then have ok5: "tz \<longrightarrow> okt st5 (s_time s)"
    using prep(2) okt_cong by blast
  have ok4: "tz \<longrightarrow> okt st4 (s_time s)"
    using ok5 okt_cong [of st5 st4] by (simp add: st5_def)
  have r6: "rsteps x tz (k, st) (Suc k, st6)"
    using prep(3) keep
    by (intro retain_event_run [OF r4 _ ok4 ret [unfolded eid_def st5_def]])
       (auto simp: key_def st5_def)
  define st7 where "st7 = st6\<lparr>rc_cur_call_site := (if kind = Call then s_ip s else None)\<rparr>"
  have r7: "rsteps x tz (k, st) (Suc k, st7)"
    by (rule rsteps_quiet [OF r6]) (simp add: st7_def ledger_def)
  have g7: "tz \<longrightarrow> times_ok st7" "stacks_linked st7"
    using rsteps_good [OF r7 g] by (simp_all add: good_def)
  have c7: "ctx tz key (s_time s) (Suc k) eid st7"
  proof -
    obtain t where "rc_threads st1 key = Some t" "s_time s \<noteq> None \<longrightarrow> ts_last_abs t = s_time s"
      using prep(3) by blast
    then obtain t' where t': "rc_threads st6 key = Some t'" "s_time s \<noteq> None \<longrightarrow> ts_last_abs t' = s_time s"
      using keep retain_event_keeps [OF ret] by metis
    moreover have "tz \<longrightarrow> okt st7 (s_time s)"
      using ok5 retain_event_keeps [OF ret] okt_cong [of st7 st5] by (simp add: st7_def)
    moreover have "linked (ts_stack t')"
      using g7(2) t'(1) by (simp add: stacks_linked_def st7_def del: split_paired_All)
    ultimately show ?thesis
      using eid by (simp add: ctx_def st7_def)
  qed
  have "goes x tz key (s_time s) (Suc k) eid st7
      (apply_flow x key kind bd (fst rf) (fst rt) (s_time s) (s_cpu s) eid st7)"
    using c7 g7(1)
    by (intro apply_flow_goes)
       (auto simp: times_ok_def ctx_def thread_of_def simp del: split_paired_All)
  then have "rsteps x tz (k, st) (Suc k,
      apply_flow x key kind bd (fst rf) (fst rt) (s_time s) (s_cpu s) eid st7)"
    using c7 r7 by (auto simp: goes_def)
  then show ?thesis
    unfolding st' st7_def by (rule rsteps_quiet) (simp add: ledger_def)
qed

lemma push_task_run:
  assumes nz: "tz \<longrightarrow> t_time t \<noteq> Some 0"
  shows "rsteps x tz (k, st) (k, push_task x t st)"
proof -
  define st2 where "st2 = (note_abs (t_time t) st)\<lparr>rc_thread_ids :=
      thread_ids_observe (RTask t) (rc_thread_ids (note_abs (t_time t) st))\<rparr>"
  have r2: "rsteps x tz (k, st) (k, st2)"
    by (rule rsteps_quiet [OF r_into_rtranclp [of "rstep x tz", OF rstep.noted]])
       (simp add: st2_def ledger_def)
  have "tz \<longrightarrow> okt st2 (t_time t)"
    using nz okt_cong [of st2 "note_abs (t_time t) st"] by (simp add: st2_def okt_note_abs)
  then have r3: "rsteps x tz (k, st) (k, retire_thread x key (t_time t) st2)" for key
    by (intro rtranclp_trans [OF r2 retire_run]) simp
  have comm: "rsteps x tz c (k, upd_thread key (\<lambda>ts. ts\<lparr>ts_comm := v\<rparr>) (st3\<lparr>rc_comms := w\<rparr>))"
    if "rsteps x tz c (k, st3)" for c st3 v w key
    by (rule rsteps_add [OF rsteps_quiet [OF that] rstep.touch])
       (simp_all add: thread_ledger_def ledger_def)
  show ?thesis
    unfolding push_task_def Let_def st2_def [symmetric]
    using r2 r3 comm [OF r2] comm [OF r3] by (auto split: option.splits)
qed

lemma push_decoder_error_run:
  assumes nz: "tz \<longrightarrow> de_time e \<noteq> Some 0"
  shows "rsteps x tz (k, st) (k, push_decoder_error x e st)"
proof -
  define st1 where "st1 = note_abs (de_time e) (st\<lparr>rc_decoder_errors := Suc (rc_decoder_errors st)\<rparr>)"
  have r1: "rsteps x tz (k, st) (k, st1)"
    unfolding st1_def
    by (rule rsteps_add [OF rsteps_quiet [OF rtranclp.rtrancl_refl] rstep.noted])
       (simp add: ledger_def)
  have ok: "okt st2 (de_time e)" if "rc_min_abs st2 = rc_min_abs st1" tz for st2
    using nz that okt_cong [of st2 st1] by (simp add: st1_def okt_note_abs)
  have gap: "rsteps x tz (k, st) (k, push_gap th kd (de_time e) None kn rs st2)"
    if "rsteps x tz (k, st) (k, st2)" "rc_min_abs st2 = rc_min_abs st1" for th kd kn rs st2
    using ok that by (intro rsteps_add [OF that(1) rstep.gap]) simp
  have i2: "rsteps x tz (k, st) (k, interrupt_thread x (pid, tid) (ensure_thread pid tid st1))" for pid tid
    by (rule rtranclp_trans [OF rsteps_add [OF r1 rstep.spawn] interrupt_run])
  show ?thesis
    unfolding push_decoder_error_def Let_def st1_def [symmetric] bump_gaps_def
    using r1 i2
    by (auto split: option.splits simp: recon_frame thread_ledger_def
        intro!: gap rsteps_add [OF gap rstep.touch])
qed

lemma push_mmap_run: "rsteps x tz (k, st) (k, push_mmap m st)"
  by (rule rsteps_quiet [OF r_into_rtranclp [of "rstep x tz", OF rstep.noted [where a = "mm_time m"]]])
     (simp add: push_mmap_def ledger_def Let_def)

lemma push_lost_run: "rsteps x tz (k, st) (k, push_lost st)"
proof -
  have "rsteps x tz (k, st) (k, push_gap ''t_unknown'' PtLoss None None False ''PERF_RECORD_LOST'' st)"
    by (rule r_into_rtranclp, rule rstep.gap) simp
  then show ?thesis
    by (rule rsteps_quiet) (simp add: push_lost_def push_gap_def ledger_def abs_time_None)
qed

lemma dispatch_run:
  assumes "good tz k st" "tz \<longrightarrow> record_time rec \<noteq> Some 0" "dispatch x rec st = Inr st'"
  shows "\<exists>k'\<le>Suc k. rsteps x tz (k, st) (k', st')"
  using assms
  by (cases rec)
     (auto simp: dispatch_def intro: push_mmap_run push_task_run push_decoder_error_run
        push_sample_run r_into_rtranclp rstep.noted push_lost_run le_SucI)

lemma push_run:
  assumes g: "good tz k st" and nz: "tz \<longrightarrow> record_time rec \<noteq> Some 0"
    and eq: "push x rec st = Inr st'"
  shows "\<exists>k'\<le>Suc k. rsteps x tz (k, st) (k', st')"
proof -
  have led: "ledger ((note_cpu_first rec st)\<lparr>rc_pid_filter := f\<rparr>) = ledger st"
    "ledger (note_cpu_first rec st) = ledger st"
    "ledger (note_foreign rec p st2) = ledger st2" for f p st2
    by (simp_all add: ledger_def note_cpu_first_def note_foreign_def
        split: raw_record.splits option.splits)
  have go: "\<exists>k'\<le>Suc k. rsteps x tz (k, st) (k', st')"
    if "dispatch x rec st1 = Inr st'" "ledger st1 = ledger st" for st1
  proof -
    have "rstep x tz (k, st) (k, st1)"
      using that(2) by (rule rstep.quiet)
    moreover have "good tz k st1"
      using rsteps_good [OF r_into_rtranclp [of "rstep x tz", OF calculation] g] .
    ultimately show ?thesis
      using dispatch_run [OF _ nz that(1)] converse_rtranclp_into_rtranclp by metis
  qed
  have skip: "\<exists>k'\<le>Suc k. rsteps x tz (k, st) (k', st2)" if "ledger st2 = ledger st" for st2
    using rstep.quiet [OF that] by (intro exI [of _ k]) auto
  show ?thesis
    using eq led unfolding push_def Let_def
    by (auto split: option.splits intro: go) (auto intro: skip)
qed

end
