(* ===== verification/Reconstruct_Inv.thy ===== *)
theory Reconstruct_Inv
  imports Reconstruct_Steps "HOL-Library.Multiset"
begin

text \<open>
  Invariants of the reconstructor. The locale \<open>ledger_invariant\<close> says what it takes
  for a predicate to hold of everything the code computes: it holds of a fresh
  reconstructor and every atomic step keeps it. Its lemmas lift that to \<open>push_all\<close> and
  \<open>finish_threads\<close> once; each interpretation below is one invariant.
\<close>

section \<open>The interface of an invariant\<close>

definition fresh :: "recon \<Rightarrow> bool" where
  "fresh st \<longleftrightarrow>
     rc_threads st = Map.empty \<and> rc_thread_order st = [] \<and> rc_retired st = [] \<and>
     rc_events st = [] \<and> rc_spans st = [] \<and> rc_gaps st = [] \<and> rc_next_event st = 0 \<and>
     rc_next_span st = 0 \<and> rc_next_gap st = 0 \<and> rc_min_abs st = None \<and>
     rc_events_n st = 0 \<and> rc_spans_n st = 0 \<and>
     (case rc_spill st of None \<Rightarrow> True | Some sp \<Rightarrow> \<exists>b. sp = spill_open b)"

lemma fresh_recon_new [simp]: "fresh (recon_new aid imgs ixs)"
  by (simp add: fresh_def recon_new_def)

lemma fresh_builders:
  assumes "fresh st"
  shows "fresh (with_note n st)" "fresh (with_trigger a h st)" "fresh (with_pid_filter f st)"
    "fresh (with_spill b st)" "fresh (with_budget b st)" "fresh (with_inline_attribution st)"
  using assms
  by (auto simp: fresh_def with_note_def with_trigger_def with_pid_filter_def with_spill_def
      with_budget_def with_inline_attribution_def)

lemma fresh_good: "fresh st \<Longrightarrow> good tz 0 st"
  by (simp add: fresh_def good_def times_ok_def stacks_linked_def)

definition timed :: "raw_record list \<Rightarrow> bool" where
  "timed recs \<longleftrightarrow> (\<forall>r\<in>set recs. record_time r \<noteq> Some 0)"

lemma finish_threads_run: "rsteps x tz (k, st) (k, finish_threads x st)"
proof -
  have "rsteps x tz (k, st) (k, fold (finish_thread x) ks st)" for ks
    by (induction ks arbitrary: st) (auto intro: rtranclp_trans finish_thread_run)
  then show ?thesis by (simp add: finish_threads_def)
qed

lemma push_all_run:
  assumes "good tz k st" "tz \<longrightarrow> timed recs" "push_all x recs st = Inr st'"
  shows "\<exists>k'\<le>k + length recs. rsteps x tz (k, st) (k', st')"
  using assms
proof (induction recs arbitrary: k st)
  case Nil
  then show ?case by (auto simp: push_all_def)
next
  case (Cons r recs)
  then obtain st1 where st1: "push x r st = Inr st1" "push_all x recs st1 = Inr st'"
    by (auto simp: push_all_def split: sum.splits)
  have "tz \<longrightarrow> record_time r \<noteq> Some 0" and tl: "tz \<longrightarrow> timed recs"
    using Cons.prems(2) by (simp_all add: timed_def)
  then obtain k1 where r1: "k1 \<le> Suc k" "rsteps x tz (k, st) (k1, st1)"
    using push_run [OF Cons.prems(1) _ st1(1)] by blast
  obtain k2 where "k2 \<le> k1 + length recs" "rsteps x tz (k1, st1) (k2, st')"
    using Cons.IH [OF rsteps_good [OF r1(2) Cons.prems(1)] tl st1(2)] by blast
  with r1 have "k2 \<le> k + length (r # recs)" "rsteps x tz (k, st) (k2, st')"
    by (simp, meson rtranclp_trans)
  then show ?case by blast
qed

locale ledger_invariant =
  fixes x :: env and tz :: bool and I :: "nat \<Rightarrow> recon \<Rightarrow> bool"
  assumes start: "fresh st \<Longrightarrow> I 0 st"
    and step: "rstep x tz (k, st) (k', st') \<Longrightarrow> good tz k st \<Longrightarrow> I k st \<Longrightarrow> I k' st'"
begin

lemma steps:
  assumes "rsteps x tz (k, st) (k', st')" "good tz k st" "I k st"
  shows "I k' st'"
proof -
  have "I k' st' \<and> good tz k' st'"
    using assms
  proof (induction rule: rtranclp_induct2)
    case (step k1 st1 k2 st2)
    then show ?case
      using ledger_invariant.step [OF ledger_invariant_axioms step(2)]
        rsteps_good [OF r_into_rtranclp [of "rstep x tz", OF step(2)]] by blast
  qed simp
  then show ?thesis ..
qed

lemma pushed:
  assumes "fresh st" "tz \<longrightarrow> timed recs" "push_all x recs st = Inr st'"
  shows "\<exists>k\<le>length recs. good tz k st' \<and> I k st'"
proof -
  obtain k where "k \<le> length recs" "rsteps x tz (0, st) (k, st')"
    using push_all_run [OF fresh_good [OF assms(1)] assms(2,3)] by auto
  then show ?thesis
    using steps [OF _ fresh_good [OF assms(1)] start [OF assms(1)]]
      rsteps_good [OF _ fresh_good [OF assms(1)]] by blast
qed

lemma finished:
  assumes "fresh st" "tz \<longrightarrow> timed recs" "push_all x recs st = Inr st'"
  shows "\<exists>k\<le>length recs. good tz k (finish_threads x st') \<and> I k (finish_threads x st')"
  using pushed [OF assms] steps [OF finish_threads_run] rsteps_good [OF finish_threads_run] by blast

end

section \<open>Sums over the threads\<close>

definition tally :: "('b \<Rightarrow> 'c::comm_monoid_add) \<Rightarrow> ('a \<rightharpoonup> 'b) \<Rightarrow> 'c" where
  "tally g m = (\<Sum>k\<in>dom m. g (the (m k)))"

lemma tally_empty [simp]: "tally g Map.empty = 0"
  by (simp add: tally_def)

lemma tally_insert:
  assumes "finite (dom m)" "m k = None"
  shows "tally g (m(k \<mapsto> t)) = g t + tally g m"
proof -
  have "(\<Sum>i\<in>dom m. g (the ((m(k \<mapsto> t)) i))) = (\<Sum>i\<in>dom m. g (the (m i)))"
    using assms(2) by (intro sum.cong) auto
  then show ?thesis
    using assms by (simp add: tally_def dom_fun_upd domIff)
qed

lemma tally_delete:
  assumes "finite (dom m)" "m k = Some t"
  shows "tally g m = g t + tally g (m(k := None))"
proof -
  have "m = (m(k := None))(k \<mapsto> t)"
    using assms(2) by auto
  then show ?thesis
    using tally_insert [of "m(k := None)" k g t] assms(1) by simp
qed

lemma tally_upd:
  assumes "finite (dom m)" "m k = Some t"
  shows "tally g (m(k \<mapsto> t')) = g t' + tally g (m(k := None))"
  using tally_insert [of "m(k := None)" k g t'] assms(1) by simp

section \<open>Keys\<close>

text \<open>
  The thread table and the order list agree, so that every \<^verbatim>\<open>unwrap\<close> on a key of
  the list succeeds, and retired threads have no open frame.
\<close>

definition keys_ok :: "nat \<Rightarrow> recon \<Rightarrow> bool" where
  "keys_ok k st \<longleftrightarrow>
     finite (dom (rc_threads st)) \<and> distinct (rc_thread_order st) \<and>
     set (rc_thread_order st) = dom (rc_threads st) \<and>
     (\<forall>t\<in>set (rc_retired st). ts_stack t = [])"

lemma dom_frame:
  "dom (rc_threads (push_open key f a eid compl st)) = dom (rc_threads st)"
  "dom (rc_threads (pop_span x key os rest a eid compl st)) = dom (rc_threads st)"
  "dom (rc_threads (orphan_span x key f a eid st)) = dom (rc_threads st)"
  by (simp_all add: push_open_threads pop_span_threads orphan_span_threads)

lemma order_frame [recon_frame]:
  "rc_thread_order (push_open key f a eid compl st) = rc_thread_order st"
  "rc_thread_order (pop_span x key os rest a eid compl st) = rc_thread_order st"
  "rc_thread_order (orphan_span x key f a eid st) = rc_thread_order st"
  "rc_thread_order (push_gap th kd b c kn rs st) = rc_thread_order st"
  "rc_retired (push_open key f a eid compl st) = rc_retired st"
  "rc_retired (pop_span x key os rest a eid compl st) = rc_retired st"
  "rc_retired (orphan_span x key f a eid st) = rc_retired st"
  "rc_retired (push_gap th kd b c kn rs st) = rc_retired st"
  by (simp_all add: push_open_def pop_span_def close_span_def orphan_span_def push_gap_def Let_def
      recon_frame)

lemma keys_ok_step:
  assumes "rstep x tz (k, st) (k', st')" "keys_ok k st"
  shows "keys_ok k' st'"
  using assms(1)
proof (cases rule: rstep.cases)
  case (spawn pid tid)
  then show ?thesis
    using assms(2) by (auto simp: keys_ok_def ensure_thread_def split: option.splits)
next
  case (bury key t)
  then show ?thesis
    using assms(2) by (auto simp: keys_ok_def)
next
  case (event key ev)
  from event(3) obtain st1 where
    "emit_event x ev (st\<lparr>rc_next_event := inc32 (rc_next_event st)\<rparr>) = Inr st1"
    "st' = upd_thread key (\<lambda>t. t\<lparr>ts_retained := Suc (ts_retained t)\<rparr>) st1"
    by (rule record_event_cases)
  then show ?thesis
    using assms(2)
    by (cases rule: emit_event_cases [consumes 1]) (auto simp: keys_ok_def recon_frame)
qed (use assms(2) in \<open>simp_all add: keys_ok_def dom_frame recon_frame ledger_def\<close>)

lemma keys_ok_start: "fresh st \<Longrightarrow> keys_ok 0 st"
  by (simp add: fresh_def keys_ok_def)

interpretation keys: ledger_invariant x tz keys_ok for x tz
  by unfold_locales (fact keys_ok_start, rule keys_ok_step)


section \<open>The books: counters and span identifiers\<close>

text \<open>
  Where the spans go: the resident list, or the spill file. Spilling keeps every span
  as long as the writer does not fail.
\<close>

definition out_spans :: "recon \<Rightarrow> function_span list" where
  "out_spans st = (case rc_spill st of None \<Rightarrow> rc_spans st | Some sp \<Rightarrow> spill_spans sp)"

definition out_events :: "recon \<Rightarrow> flow_event list" where
  "out_events st = (case rc_spill st of None \<Rightarrow> rc_events st | Some sp \<Rightarrow> spill_events sp)"

definition saves :: "env \<Rightarrow> recon \<Rightarrow> bool" where
  "saves x st \<longleftrightarrow> rc_spill st = None \<or> (\<forall>n s. \<exists>b. x_write_span x n s = Inr b)"

lemma out_spans_emit:
  "saves x st \<Longrightarrow> out_spans (emit_span x s st) = out_spans st @ [s]"
  by (auto simp: saves_def out_spans_def emit_span_def Let_def split: option.splits sum.splits)
     (metis sum.distinct(1))

lemma out_events_emit_span [simp]: "out_events (emit_span x s st) = out_events st"
  by (auto simp: out_events_def emit_span_def Let_def split: option.splits sum.splits)

lemma spill_emit_span: "rc_spill (emit_span x s st) = None \<longleftrightarrow> rc_spill st = None"
  by (auto simp: emit_span_def Let_def split: option.splits)

lemma saves_emit_span [simp]: "saves x (emit_span x s st) = saves x st"
  by (simp add: saves_def spill_emit_span)

lemma out_cong:
  "rc_spill st' = rc_spill st \<Longrightarrow> rc_spans st' = rc_spans st \<Longrightarrow> out_spans st' = out_spans st"
  "rc_spill st' = rc_spill st \<Longrightarrow> rc_events st' = rc_events st \<Longrightarrow> out_events st' = out_events st"
  "rc_spill st' = rc_spill st \<Longrightarrow> saves x st' = saves x st"
  by (simp_all add: out_spans_def out_events_def saves_def split: option.splits)

lemma out_upd_thread [simp]:
  "out_spans (upd_thread key f st) = out_spans st"
  "out_events (upd_thread key f st) = out_events st"
  "saves x (upd_thread key f st) = saves x st"
  by (rule out_cong; simp add: recon_frame)+

lemma out_updates [simp]:
  "out_spans (st\<lparr>rc_next_event := v\<rparr>) = out_spans st"
  "out_events (st\<lparr>rc_next_event := v\<rparr>) = out_events st"
  "saves x (st\<lparr>rc_next_event := v\<rparr>) = saves x st"
  "out_spans (st\<lparr>rc_next_span := v\<rparr>) = out_spans st"
  "saves x (st\<lparr>rc_next_span := v\<rparr>) = saves x st"
  "out_spans (st\<lparr>rc_threads := m\<rparr>) = out_spans st"
  "saves x (st\<lparr>rc_threads := m\<rparr>) = saves x st"
  "out_spans (st\<lparr>rc_thread_order := ks\<rparr>) = out_spans st"
  "saves x (st\<lparr>rc_thread_order := ks\<rparr>) = saves x st"
  "out_spans (st\<lparr>rc_retired := ts\<rparr>) = out_spans st"
  "saves x (st\<lparr>rc_retired := ts\<rparr>) = saves x st"
  by (rule out_cong; simp)+

lemma emit_event_out:
  assumes "emit_event x ev st = Inr st'"
  shows "out_spans st' = out_spans st" "out_events st' = out_events st @ [ev]"
    "saves y st' = saves y st" "rc_events_n st' = Suc (rc_events_n st)"
    "rc_spans_n st' = rc_spans_n st" "rc_next_span st' = rc_next_span st"
    "rc_retired st' = rc_retired st" "rc_gaps st' = rc_gaps st" "rc_next_gap st' = rc_next_gap st"
  using assms by (cases rule: emit_event_cases; simp add: out_spans_def out_events_def saves_def)+

definition row_ids :: "nat \<Rightarrow> nat multiset" where
  "row_ids n = image_mset (\<lambda>i. i mod 2 ^ 32) (mset [0..<n])"

lemma row_ids_Suc [simp]: "row_ids (Suc n) = add_mset (n mod 2 ^ 32) (row_ids n)"
  by (simp add: row_ids_def)

lemma row_ids_0 [simp]: "row_ids 0 = {#}"
  by (simp add: row_ids_def)

definition frames :: "recon \<Rightarrow> nat" where
  "frames st = tally (\<lambda>t. length (ts_stack t)) (rc_threads st)"

definition books :: "env \<Rightarrow> nat \<Rightarrow> recon \<Rightarrow> bool" where
  "books x k st \<longleftrightarrow>
     finite (dom (rc_threads st)) \<and>
     rc_spans_n st = tally ts_spans (rc_threads st) + sum_list (map ts_spans (rc_retired st)) \<and>
     rc_events_n st =
       tally ts_retained (rc_threads st) + sum_list (map ts_retained (rc_retired st)) \<and>
     rc_next_span st = (rc_spans_n st + frames st) mod 2 ^ 32 \<and>
     (saves x st \<longrightarrow>
        image_mset sp_id (mset (out_spans st))
        + tally (\<lambda>t. mset (map os_id (ts_stack t))) (rc_threads st)
        = row_ids (rc_spans_n st + frames st))"

lemma tally_same:
  assumes "finite (dom m)" "m k = Some t" "g t' = g t"
  shows "tally g (m(k \<mapsto> t')) = tally g m"
  using tally_upd [OF assms(1,2), of g t'] tally_delete [OF assms(1,2), of g] assms(3) by simp

lemma books_same:
  assumes "books x k st" "rc_threads st' = rc_threads (upd_thread key f st)"
    and "\<And>t. rc_threads st key = Some t \<Longrightarrow> ts_spans (f t) = ts_spans t \<and>
           ts_retained (f t) = ts_retained t \<and> map os_id (ts_stack (f t)) = map os_id (ts_stack t)"
    and "rc_retired st' = rc_retired st" "rc_spans_n st' = rc_spans_n st"
    "rc_events_n st' = rc_events_n st" "rc_next_span st' = rc_next_span st"
    "out_spans st' = out_spans st" "saves x st' = saves x st"
  shows "books x k' st'"
proof (cases "rc_threads st key")
  case None
  then have "rc_threads st' = rc_threads st"
    using assms(2) by (simp add: upd_thread_threads)
  with assms(1,4-) show ?thesis by (simp add: books_def frames_def)
next
  case (Some t)
  have fin: "finite (dom (rc_threads st))"
    using assms(1) by (simp add: books_def)
  have th: "rc_threads st' = (rc_threads st)(key \<mapsto> f t)"
    using assms(2) Some by (simp add: upd_thread_threads)
  note f = assms(3) [OF Some]
  have "length (ts_stack (f t)) = length (ts_stack t)"
    using f by (metis length_map)
  with f have "tally g (rc_threads st') = tally g (rc_threads st)"
    if "g \<in> {ts_spans, ts_retained, \<lambda>t. length (ts_stack t)}" for g
    using that by (auto simp: th intro!: tally_same [OF fin Some])
  moreover have "tally (\<lambda>t. mset (map os_id (ts_stack t))) (rc_threads st')
      = tally (\<lambda>t. mset (map os_id (ts_stack t))) (rc_threads st)"
    unfolding th using f by (intro tally_same [OF fin Some]) metis
  ultimately show ?thesis
    using assms(1,4-) fin by (simp add: books_def frames_def th)
qed

lemma books_open:
  assumes b: "books x k st" and t: "rc_threads st key = Some t"
  shows "books x k' (push_open key f a eid compl st)"
proof -
  have fin: "finite (dom (rc_threads st))"
    using b by (simp add: books_def)
  define os where "os = \<lparr>os_id = rc_next_span st, os_function = f,
           os_parent = (case ts_stack t of [] \<Rightarrow> None | s # _ \<Rightarrow> Some (os_id s)),
           os_start_abs = a, os_start_event = eid, os_completeness = compl,
           os_call_site = rc_cur_call_site st\<rparr>"
  have th: "rc_threads (push_open key f a eid compl st) =
      (rc_threads st)(key \<mapsto> t\<lparr>ts_stack := os # ts_stack t\<rparr>)"
    using t by (simp add: push_open_threads upd_thread_threads os_def)
  have rest: "rc_retired (push_open key f a eid compl st) = rc_retired st"
    "rc_spans_n (push_open key f a eid compl st) = rc_spans_n st"
    "rc_events_n (push_open key f a eid compl st) = rc_events_n st"
    "rc_next_span (push_open key f a eid compl st) = inc32 (rc_next_span st)"
    "out_spans (push_open key f a eid compl st) = out_spans st"
    "saves x (push_open key f a eid compl st) = saves x st"
    by (simp_all add: push_open_def Let_def recon_frame out_spans_def saves_def split: option.splits)
  note tot = tally_upd [OF fin t] tally_delete [OF fin t]
  have "frames (push_open key f a eid compl st) = Suc (frames st)"
    by (simp add: frames_def th tot)
  then show ?thesis
    using b unfolding books_def th rest
    by (simp add: tot os_def inc32_def mod_Suc_eq)
qed

lemma books_close:
  assumes b: "books x k st" and t: "rc_threads st key = Some t" and os: "ts_stack t = os # rest"
  shows "books x k' (pop_span x key os rest a eid compl st)"
proof -
  have fin: "finite (dom (rc_threads st))"
    using b by (simp add: books_def)
  let ?st' = "pop_span x key os rest a eid compl st"
  have th: "rc_threads ?st' =
      (rc_threads st)(key \<mapsto> t\<lparr>ts_stack := rest, ts_spans := Suc (ts_spans t)\<rparr>)"
    using t by (simp add: pop_span_threads upd_thread_threads)
  have rest: "rc_retired ?st' = rc_retired st" "rc_spans_n ?st' = Suc (rc_spans_n st)"
    "rc_events_n ?st' = rc_events_n st" "rc_next_span ?st' = rc_next_span st"
    "saves x ?st' = saves x st"
    by (simp_all add: pop_span_def close_span_def Let_def recon_frame)
  have out: "\<exists>s. out_spans ?st' = out_spans st @ [s] \<and> sp_id s = os_id os" if "saves x st"
    using that by (simp add: pop_span_def close_span_def out_spans_emit span_of_open_def)
  note tot = tally_upd [OF fin t] tally_delete [OF fin t]
  have fr: "frames st = Suc (frames ?st')"
    by (simp add: frames_def th tot os)
  show ?thesis
    using b out fr unfolding books_def th
    by (auto simp: tot os rest)
qed

lemma books_orphan:
  assumes b: "books x k st" and t: "rc_threads st key = Some t"
  shows "books x k' (orphan_span x key f a eid st)"
proof -
  have fin: "finite (dom (rc_threads st))"
    using b by (simp add: books_def)
  let ?st' = "orphan_span x key f a eid st"
  have th: "rc_threads ?st' = (rc_threads st)(key \<mapsto> t\<lparr>ts_spans := Suc (ts_spans t)\<rparr>)"
    using t by (simp add: orphan_span_threads upd_thread_threads)
  have rest: "rc_retired ?st' = rc_retired st" "rc_spans_n ?st' = Suc (rc_spans_n st)"
    "rc_events_n ?st' = rc_events_n st" "rc_next_span ?st' = inc32 (rc_next_span st)"
    "saves x ?st' = saves x st"
    by (simp_all add: orphan_span_def recon_frame)
  have out: "\<exists>s. out_spans ?st' = out_spans st @ [s] \<and> sp_id s = rc_next_span st" if "saves x st"
    using that by (simp add: orphan_span_def out_spans_emit)
  note tot = tally_upd [OF fin t] tally_delete [OF fin t]
  have fr: "frames ?st' = frames st"
    by (simp add: frames_def th tot)
  show ?thesis
    using b out fr unfolding books_def th
    by (auto simp: tot rest inc32_def mod_Suc_eq)
qed


lemma books_cong:
  assumes "books x k st" "rc_threads st' = rc_threads st" "rc_retired st' = rc_retired st"
    "rc_spans_n st' = rc_spans_n st" "rc_events_n st' = rc_events_n st"
    "rc_next_span st' = rc_next_span st" "rc_spill st' = rc_spill st" "rc_spans st' = rc_spans st"
  shows "books x k' st'"
  using assms out_cong(1) [OF assms(7,8)] out_cong(3) [OF assms(7), of x]
  by (simp add: books_def frames_def)

lemma books_upd_thread:
  assumes "books x k st"
    and "\<And>t. rc_threads st key = Some t \<Longrightarrow> ts_spans (f t) = ts_spans t \<and>
           ts_retained (f t) = ts_retained t \<and> map os_id (ts_stack (f t)) = map os_id (ts_stack t)"
  shows "books x k' (upd_thread key f st)"
  using assms(1) by (rule books_same [OF _ refl assms(2)]) (simp_all add: recon_frame)

lemma books_spawn:
  assumes "books x k st"
  shows "books x k' (ensure_thread pid tid st)"
proof (cases "rc_threads st (pid, tid)")
  case None
  have fin: "finite (dom (rc_threads st))"
    using assms by (simp add: books_def)
  show ?thesis
    using assms None
    by (simp add: ensure_thread_def books_def frames_def
        tally_insert [OF fin None] new_thread_state_def)
next
  case (Some t)
  with assms show ?thesis
    by (simp add: ensure_thread_def books_def)
qed

lemma books_bury:
  assumes "books x k st" and t: "rc_threads st key = Some t" "ts_stack t = []"
  shows "books x k' (st\<lparr>rc_threads := (rc_threads st)(key := None),
             rc_thread_order := ks, rc_retired := rc_retired st @ [t]\<rparr>)"
proof -
  have fin: "finite (dom (rc_threads st))"
    using assms by (simp add: books_def)
  show ?thesis
    using assms
    by (simp add: books_def frames_def tally_delete [OF fin t(1)])
qed

lemma books_event:
  assumes b: "books x k st" and t: "rc_threads st key = Some t"
    and e: "record_event x key ev st = Inr st'"
  shows "books x k' st'"
proof -
  have fin: "finite (dom (rc_threads st))"
    using b by (simp add: books_def)
  from e obtain st1 where st1:
    "emit_event x ev (st\<lparr>rc_next_event := inc32 (rc_next_event st)\<rparr>) = Inr st1"
    "st' = upd_thread key (\<lambda>t. t\<lparr>ts_retained := Suc (ts_retained t)\<rparr>) st1"
    by (rule record_event_cases)
  have th: "rc_threads st' = (rc_threads st)(key \<mapsto> t\<lparr>ts_retained := Suc (ts_retained t)\<rparr>)"
    using record_event_keeps [OF e] t by (simp add: upd_thread_threads)
  note tot = tally_upd [OF fin t] tally_delete [OF fin t]
  have fr: "frames st' = frames st"
    by (simp add: frames_def th tot)
  note out = emit_event_out [OF st1(1)]
  show ?thesis
    using b fr unfolding books_def th
    by (simp add: tot st1(2) out recon_frame)
qed

lemma books_step:
  assumes "rstep x tz (k, st) (k', st')" "books x k st"
  shows "books x k' st'"
  using assms(1)
proof (cases rule: rstep.cases)
  case (touch f key)
  have "ts_spans (f t) = ts_spans t \<and> ts_retained (f t) = ts_retained t \<and> ts_stack (f t) = ts_stack t" for t
    using touch(3) [of t] by (simp add: thread_ledger_def)
  then show ?thesis
    unfolding touch(2) by (intro books_upd_thread [OF assms(2)]) simp
next
  case (rename key t os rest f)
  show ?thesis
    unfolding rename(2) by (rule books_upd_thread [OF assms(2)]) (use rename in auto)
next
  case (pend pe key)
  show ?thesis
    unfolding pend(2) by (rule books_upd_thread [OF assms(2)]) simp
next
  case (clock key t n)
  show ?thesis
    unfolding clock(2) by (rule books_upd_thread [OF assms(2)]) simp
next
  case (opn key t a eid compl f)
  show ?thesis unfolding opn(2) by (rule books_open [OF assms(2) opn(3)])
next
  case (close key t os rest a eid compl)
  show ?thesis unfolding close(2) by (rule books_close [OF assms(2) close(3,4)])
next
  case (orphan key t a eid f)
  show ?thesis unfolding orphan(2) by (rule books_orphan [OF assms(2) orphan(3)])
next
  case (spawn pid tid)
  show ?thesis unfolding spawn(2) by (rule books_spawn [OF assms(2)])
next
  case (bury key t)
  show ?thesis unfolding bury(2) by (rule books_bury [OF assms(2) bury(3,4)])
next
  case (event key ev)
  then show ?thesis using books_event [OF assms(2) _ event(3)] by auto
qed (rule books_cong [OF assms(2)]; simp add: ledger_def recon_frame push_gap_def)+

lemma books_start: "fresh st \<Longrightarrow> books x 0 st"
  by (auto simp: fresh_def books_def frames_def out_spans_def spill_open_def split: option.splits)

interpretation ledger: ledger_invariant x tz "books x" for x tz
  by unfold_locales (fact books_start, rule books_step)

section \<open>Gap identifiers\<close>

definition gaps_numbered :: "nat \<Rightarrow> recon \<Rightarrow> bool" where
  "gaps_numbered k st \<longleftrightarrow>
     map gap_id (rc_gaps st) = map (\<lambda>i. i mod 2 ^ 32) [0..<length (rc_gaps st)] \<and>
     rc_next_gap st = length (rc_gaps st) mod 2 ^ 32"

lemma gaps_frame [recon_frame]:
  "rc_gaps (push_open key f a eid compl st) = rc_gaps st"
  "rc_gaps (pop_span x key os rest a eid compl st) = rc_gaps st"
  "rc_gaps (orphan_span x key f a eid st) = rc_gaps st"
  "rc_gaps (ensure_thread pid tid st) = rc_gaps st"
  "rc_next_gap (push_open key f a eid compl st) = rc_next_gap st"
  "rc_next_gap (pop_span x key os rest a eid compl st) = rc_next_gap st"
  "rc_next_gap (orphan_span x key f a eid st) = rc_next_gap st"
  by (simp_all add: push_open_def pop_span_def close_span_def orphan_span_def ensure_thread_def Let_def
      recon_frame split: option.splits)

lemma record_event_gaps:
  assumes "record_event x key ev st = Inr st'"
  shows "rc_gaps st' = rc_gaps st \<and> rc_next_gap st' = rc_next_gap st"
  using assms by (cases rule: record_event_cases) (simp add: recon_frame emit_event_out)

lemma gaps_numbered_step:
  assumes "rstep x tz (k, st) (k', st')" "gaps_numbered k st"
  shows "gaps_numbered k' st'"
  using assms(1)
proof (cases rule: rstep.cases)
  case gap
  then show ?thesis
    using assms(2) by (simp add: gaps_numbered_def push_gap_def inc32_def mod_Suc_eq)
next
  case (event key ev)
  then show ?thesis
    using assms(2) record_event_gaps [OF event(3)] by (simp add: gaps_numbered_def)
qed (use assms(2) in \<open>simp_all add: gaps_numbered_def recon_frame ledger_def\<close>)

lemma gaps_numbered_start: "fresh st \<Longrightarrow> gaps_numbered 0 st"
  by (simp add: fresh_def gaps_numbered_def)

interpretation gaps: ledger_invariant x tz gaps_numbered for x tz
  by unfold_locales (fact gaps_numbered_start, rule gaps_numbered_step)

end
