(* ===== verification/Reconstruct_Forest.thy ===== *)
theory Reconstruct_Forest
  imports Reconstruct_Inv
begin

text \<open>
  The spans form a forest that respects time: every parent named by a span is a span
  of the same thread, and a complete span lies inside its complete parent. The
  invariant follows the frames on the stacks and hands each over to the emitted
  span when it is closed.
\<close>

section \<open>Order on optional times\<close>

definition before :: "u64 option \<Rightarrow> u64 option \<Rightarrow> bool" where
  "before a l \<longleftrightarrow> (\<forall>u. a = Some u \<longrightarrow> (\<exists>v. l = Some v \<and> u \<le> v))"

definition le_known :: "u64 option \<Rightarrow> u64 option \<Rightarrow> bool" where
  "le_known a b \<longleftrightarrow> (\<forall>u v. a = Some u \<longrightarrow> b = Some v \<longrightarrow> u \<le> v)"

lemma before_trans: "before a b \<Longrightarrow> before b c \<Longrightarrow> before a c"
  unfolding before_def by (metis order_trans)

lemma before_None [simp]: "before None l"
  by (simp add: before_def)

lemma before_refl [simp]: "before a a"
  by (auto simp: before_def)

lemma before_le_known: "before a b \<Longrightarrow> le_known a b"
  by (auto simp: before_def le_known_def)

lemma le_known_None [simp]: "le_known None b" "le_known a None"
  by (simp_all add: le_known_def)

section \<open>The invariant\<close>

definition called :: "open_span \<Rightarrow> bool" where
  "called os \<longleftrightarrow> os_completeness os = OpenEnd"

fun nested :: "u64 option \<Rightarrow> open_span list \<Rightarrow> bool" where
  "nested l [] = True"
| "nested l (s # r) \<longleftrightarrow>
     os_completeness s \<in> {OpenStart, OpenEnd} \<and>
     (called s \<longrightarrow> before (os_start_abs s) l) \<and>
     (case r of [] \<Rightarrow> True
      | q # _ \<Rightarrow> called s \<and> called q \<longrightarrow> le_known (os_start_abs q) (os_start_abs s)) \<and>
     nested l r"

text \<open>Two complete spans, or a complete span and an open frame, are nested in time.\<close>

definition inside :: "function_span \<Rightarrow> function_span \<Rightarrow> bool" where
  "inside s p \<longleftrightarrow>
     (sp_completeness s = Complete \<and> sp_completeness p = Complete \<longrightarrow>
        le_known (relative_ns (sp_start p)) (relative_ns (sp_start s)) \<and>
        le_known (relative_ns (sp_end s)) (relative_ns (sp_end p)))"

definition inside_frame :: "u64 option \<Rightarrow> function_span \<Rightarrow> open_span \<Rightarrow> bool" where
  "inside_frame l s os \<longleftrightarrow>
     (sp_completeness s = Complete \<and> called os \<longrightarrow>
        le_known (os_start_abs os) (relative_ns (sp_start s)) \<and> before (relative_ns (sp_end s)) l)"

definition parent_open :: "recon \<Rightarrow> function_span \<Rightarrow> local_id \<Rightarrow> bool" where
  "parent_open st s p \<longleftrightarrow>
     (\<exists>key t os. rc_threads st key = Some t \<and> os \<in> set (ts_stack t) \<and> os_id os = p \<and>
        ts_id t = sp_thread s \<and> inside_frame (ts_last_abs t) s os)"

definition parent_in :: "function_span list \<Rightarrow> function_span \<Rightarrow> local_id \<Rightarrow> bool" where
  "parent_in ss s p \<longleftrightarrow>
     (\<exists>s'\<in>set ss. sp_id s' = p \<and> sp_thread s' = sp_thread s \<and> inside s s')"

definition span_ordered :: "function_span \<Rightarrow> bool" where
  "span_ordered s \<longleftrightarrow>
     (sp_completeness s = Complete \<longrightarrow>
        le_known (relative_ns (sp_start s)) (relative_ns (sp_end s)))"

definition forest :: "env \<Rightarrow> nat \<Rightarrow> recon \<Rightarrow> bool" where
  "forest x k st \<longleftrightarrow>
     (\<forall>key t. rc_threads st key = Some t \<longrightarrow> nested (ts_last_abs t) (ts_stack t)) \<and>
     (saves x st \<longrightarrow>
        (\<forall>s\<in>set (out_spans st). span_ordered s \<and>
           (\<forall>p. sp_parent s = Some p \<longrightarrow> parent_open st s p \<or> parent_in (out_spans st) s p)))"

lemma nested_mono: "nested l ss \<Longrightarrow> before l l' \<Longrightarrow> nested l' ss"
  by (induction ss) (auto intro: before_trans)

lemma inside_frame_mono: "inside_frame l s os \<Longrightarrow> before l l' \<Longrightarrow> inside_frame l' s os"
  by (auto simp: inside_frame_def intro: before_trans)

lemma forest_upd:
  assumes F: "forest x k st" and t: "rc_threads st key = Some t"
    and th: "rc_threads st' = (rc_threads st)(key \<mapsto> t')" and i: "ts_id t' = ts_id t"
    and n: "nested (ts_last_abs t') (ts_stack t')"
    and sv: "saves x st' = saves x st" and out: "saves x st \<Longrightarrow> out_spans st' = out_spans st @ new"
    and keep: "\<And>s os. os \<in> set (ts_stack t) \<Longrightarrow> sp_thread s = ts_id t \<Longrightarrow>
        inside_frame (ts_last_abs t) s os \<Longrightarrow>
        (\<exists>os'\<in>set (ts_stack t'). os_id os' = os_id os \<and> inside_frame (ts_last_abs t') s os') \<or>
        parent_in new s (os_id os)"
    and fresh_ok: "\<And>s. saves x st \<Longrightarrow> s \<in> set new \<Longrightarrow> span_ordered s \<and>
        (\<forall>p. sp_parent s = Some p \<longrightarrow> parent_open st' s p \<or> parent_in (out_spans st') s p)"
  shows "forest x k' st'"
proof -
  have po: "parent_open st' s p \<or> parent_in (out_spans st') s p"
    if s: "saves x st" "parent_open st s p" for s p
  proof -
    from s(2) obtain key0 t0 os where o: "rc_threads st key0 = Some t0" "os \<in> set (ts_stack t0)"
      "os_id os = p" "ts_id t0 = sp_thread s" "inside_frame (ts_last_abs t0) s os"
      by (auto simp: parent_open_def)
    show ?thesis
    proof (cases "key0 = key")
      case True
      then have "t0 = t" using o(1) t by simp
      with o keep [of os s] have "(\<exists>os'\<in>set (ts_stack t'). os_id os' = p \<and>
          inside_frame (ts_last_abs t') s os') \<or> parent_in new s p"
        by auto
      then show ?thesis
      proof
        assume "\<exists>os'\<in>set (ts_stack t'). os_id os' = p \<and> inside_frame (ts_last_abs t') s os'"
        moreover have "rc_threads st' key = Some t'" "ts_id t' = sp_thread s"
          using th i o(4) \<open>t0 = t\<close> by simp_all
        ultimately have "parent_open st' s p"
          unfolding parent_open_def by blast
        then show ?thesis ..
      next
        assume "parent_in new s p"
        then have "parent_in (out_spans st') s p"
          using out [OF s(1)] by (auto simp: parent_in_def)
        then show ?thesis ..
      qed
    next
      case False
      then have "rc_threads st' key0 = Some t0"
        using th o(1) by simp
      then have "parent_open st' s p"
        unfolding parent_open_def using o by blast
      then show ?thesis ..
    qed
  qed
  have pin: "parent_in (out_spans st') s p" if "saves x st" "parent_in (out_spans st) s p" for s p
    using that out [OF that(1)] by (auto simp: parent_in_def)
  have all: "span_ordered s \<and>
      (\<forall>p. sp_parent s = Some p \<longrightarrow> parent_open st' s p \<or> parent_in (out_spans st') s p)"
    if s: "saves x st" "s \<in> set (out_spans st')" for s
  proof (cases "s \<in> set new")
    case True
    then show ?thesis using fresh_ok [OF s(1)] by blast
  next
    case False
    then have "s \<in> set (out_spans st)"
      using s out by auto
    then have "span_ordered s \<and>
        (\<forall>p. sp_parent s = Some p \<longrightarrow> parent_open st s p \<or> parent_in (out_spans st) s p)"
      using F s(1) unfolding forest_def by blast
    then show ?thesis
      using po [OF s(1)] pin [OF s(1)] by blast
  qed
  have "nested (ts_last_abs u) (ts_stack u)" if "rc_threads st' key0 = Some u" for key0 u
    using that F n unfolding forest_def th by (metis fun_upd_apply option.inject)
  then show ?thesis
    unfolding forest_def sv using all by blast
qed

lemma forest_cong:
  assumes "forest x k st" "rc_threads st' = rc_threads st" "rc_spill st' = rc_spill st"
    "rc_spans st' = rc_spans st"
  shows "forest x k' st'"
  using assms out_cong(1) [OF assms(3,4)] out_cong(3) [OF assms(3), of x]
  by (simp add: forest_def parent_open_def)


lemma forest_thread:
  assumes "forest x k st" "rc_threads st' = rc_threads (upd_thread key f st)"
    and "\<And>t. rc_threads st key = Some t \<Longrightarrow> nested (ts_last_abs t) (ts_stack t) \<Longrightarrow>
           ts_id (f t) = ts_id t \<and> before (ts_last_abs t) (ts_last_abs (f t)) \<and>
           ts_stack (f t) = ts_stack t \<or> ts_id (f t) = ts_id t \<and> ts_stack t = [] \<and> ts_stack (f t) = []"
    and "saves x st' = saves x st" "out_spans st' = out_spans st"
  shows "forest x k' st'"
proof (cases "rc_threads st key")
  case None
  then have "rc_threads st' = rc_threads st"
    using assms(2) by (simp add: upd_thread_threads)
  with assms(1,4,5) show ?thesis by (simp add: forest_def parent_open_def)
next
  case (Some t)
  have n: "nested (ts_last_abs t) (ts_stack t)"
    using assms(1) Some by (simp add: forest_def del: split_paired_All)
  have th: "rc_threads st' = (rc_threads st)(key \<mapsto> f t)"
    using assms(2) Some by (simp add: upd_thread_threads)
  note f = assms(3) [OF Some n]
  show ?thesis
    by (rule forest_upd [OF assms(1) Some th, where new = "[]"])
       (use f n assms(4,5) in \<open>auto intro: nested_mono inside_frame_mono\<close>)
qed

lemma forest_open:
  assumes F: "forest x k st" and t: "rc_threads st key = Some t"
    and c: "compl = OpenStart \<or> compl = OpenEnd \<and> (a \<noteq> None \<longrightarrow> ts_last_abs t = a)"
  shows "forest x k' (push_open key f a eid compl st)"
proof -
  define os where "os = \<lparr>os_id = rc_next_span st, os_function = f,
           os_parent = (case ts_stack t of [] \<Rightarrow> None | s # _ \<Rightarrow> Some (os_id s)),
           os_start_abs = a, os_start_event = eid, os_completeness = compl,
           os_call_site = rc_cur_call_site st\<rparr>"
  have th: "rc_threads (push_open key f a eid compl st) =
      (rc_threads st)(key \<mapsto> t\<lparr>ts_stack := os # ts_stack t\<rparr>)"
    using t by (simp add: push_open_threads upd_thread_threads os_def)
  have n: "nested (ts_last_abs t) (ts_stack t)"
    using F t by (simp add: forest_def del: split_paired_All)
  have n': "nested (ts_last_abs t) (os # ts_stack t)"
    using n c by (cases a; cases "ts_stack t")
      (auto simp: os_def called_def before_def le_known_def)
  show ?thesis
    by (rule forest_upd [OF F t th, where new = "[]"])
       (use n' in \<open>auto simp: push_open_def Let_def\<close>)
qed

lemma forest_close:
  assumes F: "forest x k st" and t: "rc_threads st key = Some t" and os: "ts_stack t = os # rest"
    and l: "linked (ts_stack t)"
    and c: "compl = Complete \<Longrightarrow> os_completeness os \<noteq> OpenStart \<and> (a \<noteq> None \<longrightarrow> ts_last_abs t = a)"
  shows "forest x k' (pop_span x key os rest a eid compl st)"
proof -
  let ?st' = "pop_span x key os rest a eid compl st"
  let ?t' = "t\<lparr>ts_stack := rest, ts_spans := Suc (ts_spans t)\<rparr>"
  define s where "s = span_of_open (ts_id t) os (abs_time a) compl eid"
  have th: "rc_threads ?st' = (rc_threads st)(key \<mapsto> ?t')"
    using t by (simp add: pop_span_threads upd_thread_threads)
  have n: "nested (ts_last_abs t) (os # rest)"
    using F t os by (metis forest_def)
  have cs: "called os \<and> before (os_start_abs os) (ts_last_abs t) \<and> before a (ts_last_abs t)"
    if "compl = Complete"
    using c [OF that] n by (cases a) (auto simp: called_def)
  have s: "sp_id s = os_id os" "sp_thread s = ts_id t" "sp_parent s = os_parent os"
    "sp_completeness s = compl" "relative_ns (sp_start s) = os_start_abs os" "relative_ns (sp_end s) = a"
    by (simp_all add: s_def span_of_open_def)
  have "ts_id (thread_of key (upd_thread key (\<lambda>t. t\<lparr>ts_stack := rest\<rparr>) st)) = ts_id t"
    using t by (simp add: thread_of_def upd_thread_threads)
  then have out: "out_spans ?st' = out_spans st @ [s]" if "saves x st"
    using that by (simp add: pop_span_def close_span_def out_spans_emit s_def)
  have par: "parent_open ?st' s p" if p: "sp_parent s = Some p" for p
  proof -
    from p l os s(3) obtain q r where q: "rest = q # r" "os_id q = p"
      by (auto split: list.splits)
    have "inside_frame (ts_last_abs t) s q"
      using n cs q(1) by (auto simp: inside_frame_def s)
    moreover have "rc_threads ?st' key = Some ?t'"
      by (simp add: th)
    ultimately show ?thesis
      unfolding parent_open_def using q
      by (intro exI [of _ key] exI [of _ ?t'] exI [of _ q]) (simp add: s)
  qed
  have ord: "span_ordered s"
    using cs c by (auto simp: span_ordered_def s before_def le_known_def)
  have keep: "inside u s" if "inside_frame (ts_last_abs t) u os" for u
    using that cs c by (cases a) (auto simp: inside_frame_def inside_def s before_def le_known_def)
  show ?thesis
  proof (rule forest_upd [OF F t th _ _ _ out])
    fix u o' assume "o' \<in> set (ts_stack t)" "sp_thread u = ts_id t" "inside_frame (ts_last_abs t) u o'"
    then show "(\<exists>os'\<in>set (ts_stack ?t'). os_id os' = os_id o' \<and> inside_frame (ts_last_abs ?t') u os') \<or>
        parent_in [s] u (os_id o')"
      using os keep by (auto simp: parent_in_def s)
  qed (use n par ord in \<open>auto simp: pop_span_def close_span_def\<close>)
qed


lemma forest_orphan:
  assumes F: "forest x k st" and t: "rc_threads st key = Some t"
  shows "forest x k' (orphan_span x key f a eid st)"
proof -
  let ?st' = "orphan_span x key f a eid st"
  have th: "rc_threads ?st' = (rc_threads st)(key \<mapsto> t\<lparr>ts_spans := Suc (ts_spans t)\<rparr>)"
    using t by (simp add: orphan_span_threads upd_thread_threads)
  have n: "nested (ts_last_abs t) (ts_stack t)"
    using F t by (metis forest_def)
  obtain s where out: "saves x st \<Longrightarrow> out_spans ?st' = out_spans st @ [s]"
    and s: "sp_parent s = None" "sp_completeness s = UncertainUnwind"
    by (simp add: orphan_span_def out_spans_emit)
  show ?thesis
    by (rule forest_upd [OF F t th _ _ _ out])
       (use n s in \<open>auto simp: orphan_span_def span_ordered_def\<close>)
qed

lemma forest_step:
  assumes "rstep x tz (k, st) (k', st')" "good tz k st" and F: "forest x k st"
  shows "forest x k' st'"
  using assms(1)
proof (cases rule: rstep.cases)
  case (touch f key)
  have "thread_ledger (f t) = thread_ledger t" for t
    using touch(3) .
  then have "ts_id (f t) = ts_id t \<and> ts_last_abs (f t) = ts_last_abs t \<and> ts_stack (f t) = ts_stack t" for t
    by (simp add: thread_ledger_def)
  then show ?thesis
    unfolding touch(2) by (intro forest_thread [OF F refl]) (simp_all add: recon_frame)
next
  case (pend pe key)
  show ?thesis unfolding pend(2) by (rule forest_thread [OF F refl]) simp_all
next
  case (clock key t n)
  show ?thesis
    unfolding clock(2)
    by (rule forest_thread [OF F refl]) (use clock in \<open>auto simp: before_def\<close>)
next
  case (rename key t os rest f)
  have n: "nested (ts_last_abs t) (os # rest)"
    using F rename(3,4) by (metis forest_def)
  have th: "rc_threads st' = (rc_threads st)(key \<mapsto> t\<lparr>ts_stack := os\<lparr>os_function := f\<rparr> # rest\<rparr>)"
    using rename by (simp add: upd_thread_threads)
  have n': "nested (ts_last_abs t) (os\<lparr>os_function := f\<rparr> # rest)"
    using n by (cases rest) (simp_all add: called_def)
  have "inside_frame l s (os\<lparr>os_function := f\<rparr>) = inside_frame l s os" for l s
    by (simp add: inside_frame_def called_def)
  with n' show ?thesis
    by (intro forest_upd [OF F rename(3) th, where new = "[]"]) (auto simp: rename)
next
  case (opn key t a eid compl f)
  show ?thesis unfolding opn(2) by (rule forest_open [OF F opn(3,6)])
next
  case (close key t os rest a eid compl)
  have "linked (ts_stack t)"
    using assms(2) close(3) by (metis good_def stacks_linked_def)
  then show ?thesis
    unfolding close(2) by (rule forest_close [OF F close(3,4)]) (use close in auto)
next
  case (orphan key t a eid f)
  show ?thesis unfolding orphan(2) by (rule forest_orphan [OF F orphan(3)])
next
  case (spawn pid tid)
  show ?thesis
  proof (cases "rc_threads st (pid, tid)")
    case None
    have "parent_open (ensure_thread pid tid st) s p" if "parent_open st s p" for s p
      using that None unfolding parent_open_def ensure_thread_def
      by (simp del: split_paired_Ex) (metis option.distinct(1))
    moreover have "nested (ts_last_abs t) (ts_stack t)"
      if "rc_threads (ensure_thread pid tid st) key = Some t" for key t
      using that None F
      by (simp add: ensure_thread_def forest_def new_thread_state_def split: if_splits
          del: split_paired_All) auto
    moreover have "out_spans (ensure_thread pid tid st) = out_spans st"
      "saves x (ensure_thread pid tid st) = saves x st"
      by (simp_all add: ensure_thread_def None)
    ultimately show ?thesis
      using F unfolding spawn(2) forest_def by metis
  next
    case (Some t)
    then have "ensure_thread pid tid st = st" by (simp add: ensure_thread_def)
    then show ?thesis
      using F unfolding spawn(2) by (simp add: forest_def)
  qed
next
  case (bury key t)
  have "parent_open st' s p" if "parent_open st s p" for s p
    using that bury(2-4) unfolding parent_open_def
    by (simp del: split_paired_Ex) (metis empty_iff list.set(1) option.inject)
  moreover have "nested (ts_last_abs u) (ts_stack u)" if "rc_threads st' key0 = Some u" for key0 u
    using that F by (simp add: bury(2) forest_def split: if_splits del: split_paired_All)
  moreover have "out_spans st' = out_spans st" "saves x st' = saves x st"
    by (simp_all add: bury(2))
  ultimately show ?thesis
    using F unfolding forest_def by metis
next
  case (event key ev)
  from event(3) obtain st1 where st1:
    "emit_event x ev (st\<lparr>rc_next_event := inc32 (rc_next_event st)\<rparr>) = Inr st1"
    "st' = upd_thread key (\<lambda>t. t\<lparr>ts_retained := Suc (ts_retained t)\<rparr>) st1"
    by (rule record_event_cases)
  show ?thesis
    by (rule forest_thread [OF F, where key = key and f = "\<lambda>t. t\<lparr>ts_retained := Suc (ts_retained t)\<rparr>"])
       (use record_event_keeps [OF event(3)] in \<open>auto simp: st1(2) emit_event_out [OF st1(1)]\<close>)
qed (rule forest_cong [OF F]; simp add: ledger_def recon_frame push_gap_def)+

lemma forest_start: "fresh st \<Longrightarrow> forest x 0 st"
  by (auto simp: fresh_def forest_def out_spans_def spill_open_def split: option.splits)

interpretation forest: ledger_invariant x tz "forest x" for x tz
  by unfold_locales (fact forest_start, rule forest_step)

end
