(* ===== verification/Reconstruct_Stamps.thy ===== *)
theory Reconstruct_Stamps
  imports Reconstruct_Forest
begin

text \<open>
  Predicates on single rows. \<open>output_predicate\<close> is the interface of a predicate that
  is stable under the steps and established where a row is created; such a predicate
  holds of every row at all times. Its two interpretations are the time stamps (never
  before the origin, so that rebasing in \<open>finish\<close> cannot fail) and the evidence
  ranges.
\<close>

definition all_spans :: "recon \<Rightarrow> function_span list" where
  "all_spans st = rc_spans st @ (case rc_spill st of None \<Rightarrow> [] | Some sp \<Rightarrow> spill_spans sp)"

definition all_events :: "recon \<Rightarrow> flow_event list" where
  "all_events st = rc_events st @ (case rc_spill st of None \<Rightarrow> [] | Some sp \<Rightarrow> spill_events sp)"

definition all_frames :: "recon \<Rightarrow> open_span set" where
  "all_frames st = {os. \<exists>key t. rc_threads st key = Some t \<and> os \<in> set (ts_stack t)}"

lemma all_spans_emit: "set (all_spans (emit_span x s st)) \<subseteq> insert s (set (all_spans st))"
  by (auto simp: all_spans_def emit_span_def Let_def split: option.splits sum.splits)

lemma all_events_emit_span: "all_events (emit_span x s st) = all_events st"
  by (auto simp: all_events_def emit_span_def Let_def split: option.splits sum.splits)

lemma all_cong:
  "rc_spill st' = rc_spill st \<Longrightarrow> rc_spans st' = rc_spans st \<Longrightarrow> all_spans st' = all_spans st"
  "rc_spill st' = rc_spill st \<Longrightarrow> rc_events st' = rc_events st \<Longrightarrow> all_events st' = all_events st"
  by (simp_all add: all_spans_def all_events_def)

lemma all_upd_thread [simp]:
  "all_spans (upd_thread key f st) = all_spans st"
  "all_events (upd_thread key f st) = all_events st"
  by (rule all_cong; simp add: recon_frame)+

lemma all_updates [simp]:
  "all_spans (st\<lparr>rc_next_event := v\<rparr>) = all_spans st"
  "all_events (st\<lparr>rc_next_event := v\<rparr>) = all_events st"
  "all_spans (st\<lparr>rc_next_span := v\<rparr>) = all_spans st"
  "all_events (st\<lparr>rc_next_span := v\<rparr>) = all_events st"
  by (rule all_cong; simp)+

lemma emit_event_all:
  assumes "emit_event x ev st = Inr st'"
  shows "all_spans st' = all_spans st \<and> set (all_events st') = insert ev (set (all_events st))"
  using assms by (cases rule: emit_event_cases) (auto simp: all_spans_def all_events_def)

lemma all_framesI: "rc_threads st key = Some t \<Longrightarrow> os \<in> set (ts_stack t) \<Longrightarrow> os \<in> all_frames st"
  unfolding all_frames_def by blast

lemma frames_upd_thread:
  assumes "rc_threads st' = rc_threads (upd_thread key f st)" and "os \<in> all_frames st'"
  shows "os \<in> all_frames st \<or> (\<exists>t. rc_threads st key = Some t \<and> os \<in> set (ts_stack (f t)))"
  using assms
  by (auto simp: all_frames_def upd_thread_threads split: option.splits if_splits)

lemma frames_same:
  assumes "rc_threads st' = rc_threads (upd_thread key f st)"
    and "\<And>t. rc_threads st key = Some t \<Longrightarrow> set (ts_stack (f t)) \<subseteq> set (ts_stack t)"
  shows "all_frames st' \<subseteq> all_frames st"
  using frames_upd_thread [OF assms(1)] assms(2) unfolding all_frames_def by blast

section \<open>Row predicates\<close>

locale output_predicate =
  fixes x :: env and tz :: bool
    and PF :: "nat \<Rightarrow> recon \<Rightarrow> open_span \<Rightarrow> bool"
    and PS :: "nat \<Rightarrow> recon \<Rightarrow> function_span \<Rightarrow> bool"
    and PE :: "nat \<Rightarrow> recon \<Rightarrow> flow_event \<Rightarrow> bool"
    and PG :: "nat \<Rightarrow> recon \<Rightarrow> gap_record \<Rightarrow> bool"
  assumes stable:
      "rstep x tz (k, st) (k', st') \<Longrightarrow> PF k st os \<Longrightarrow> PF k' st' os"
      "rstep x tz (k, st) (k', st') \<Longrightarrow> PS k st s \<Longrightarrow> PS k' st' s"
      "rstep x tz (k, st) (k', st') \<Longrightarrow> PE k st e \<Longrightarrow> PE k' st' e"
      "rstep x tz (k, st) (k', st') \<Longrightarrow> PG k st g \<Longrightarrow> PG k' st' g"
    and opened: "(tz \<Longrightarrow> okt st (os_start_abs os)) \<Longrightarrow> recent (os_start_event os) k \<Longrightarrow> PF k st os"
    and renamed: "PF k st os \<Longrightarrow> PF k st (os\<lparr>os_function := f\<rparr>)"
    and closed: "PF k st os \<Longrightarrow> (tz \<Longrightarrow> okt st a) \<Longrightarrow> recent eid k \<or> eid = os_start_event os \<Longrightarrow>
      PS k st (span_of_open th os (abs_time a) compl eid)"
    and orphaned: "(tz \<Longrightarrow> okt st a) \<Longrightarrow> recent eid k \<Longrightarrow> sp_start s = time_unknown \<Longrightarrow>
      sp_end s = abs_time a \<Longrightarrow> sp_evidence s = \<lparr>er_start = eid, er_end = eid\<rparr> \<Longrightarrow> PS k st s"
    and recorded: "good tz k st \<Longrightarrow> ev_id e = rc_next_event st \<Longrightarrow>
      (tz \<Longrightarrow> okt st' (relative_ns (ev_time e))) \<Longrightarrow> PE (Suc k) st' e"
    and gapped: "(tz \<Longrightarrow> okt st a \<and> okt st b) \<Longrightarrow> gap_start g = abs_time a \<Longrightarrow>
      gap_end g = abs_time b \<Longrightarrow> PG k st g"
begin

definition everywhere :: "nat \<Rightarrow> recon \<Rightarrow> bool" where
  "everywhere k st \<longleftrightarrow>
     (\<forall>os\<in>all_frames st. PF k st os) \<and> (\<forall>s\<in>set (all_spans st). PS k st s) \<and>
     (\<forall>e\<in>set (all_events st). PE k st e) \<and> (\<forall>g\<in>set (rc_gaps st). PG k st g)"

lemma everywhere_grow:
  assumes "rstep x tz (k, st) (k', st')" "everywhere k st"
    and "\<And>os. os \<in> all_frames st' \<Longrightarrow> os \<in> all_frames st \<or> PF k' st' os"
    and "\<And>s. s \<in> set (all_spans st') \<Longrightarrow> s \<in> set (all_spans st) \<or> PS k' st' s"
    and "\<And>e. e \<in> set (all_events st') \<Longrightarrow> e \<in> set (all_events st) \<or> PE k' st' e"
    and "\<And>g. g \<in> set (rc_gaps st') \<Longrightarrow> g \<in> set (rc_gaps st) \<or> PG k' st' g"
  shows "everywhere k' st'"
proof -
  note st = stable [OF assms(1)]
  have "\<forall>os\<in>all_frames st'. PF k' st' os"
    using assms(2) assms(3) st(1) unfolding everywhere_def by blast
  moreover have "\<forall>s\<in>set (all_spans st'). PS k' st' s"
    using assms(2) assms(4) st(2) unfolding everywhere_def by blast
  moreover have "\<forall>e\<in>set (all_events st'). PE k' st' e"
    using assms(2) assms(5) st(3) unfolding everywhere_def by blast
  moreover have "\<forall>g\<in>set (rc_gaps st'). PG k' st' g"
    using assms(2) assms(6) st(4) unfolding everywhere_def by blast
  ultimately show ?thesis
    by (simp add: everywhere_def)
qed

lemma everywhere_emit:
  assumes r: "rstep x tz (k, st) (k', st')" and e: "everywhere k st"
    and st': "st' = emit_span x s st0" "all_spans st0 = all_spans st" "all_events st0 = all_events st"
      "rc_gaps st0 = rc_gaps st"
    and sub: "all_frames st' \<subseteq> all_frames st" and PS: "PS k' st' s"
  shows "everywhere k' st'"
proof (rule everywhere_grow [OF r e])
  fix u assume "u \<in> set (all_spans st')"
  then have "u = s \<or> u \<in> set (all_spans st)"
    using all_spans_emit [of x s st0] st'(1,2) by auto
  then show "u \<in> set (all_spans st) \<or> PS k' st' u"
    using PS by blast
qed (use sub st' in \<open>auto simp: all_events_emit_span recon_frame\<close>)

lemma everywhere_step:
  assumes r: "rstep x tz (k, st) (k', st')" and g: "good tz k st" and e: "everywhere k st"
  shows "everywhere k' st'"
  using r
proof (cases rule: rstep.cases)
  case (opn key t a eid compl f)
  have PF: "PF k' st' os" if "os_start_abs os = a" "os_start_event os = eid" for os
    using that opn(4,5) by (intro stable(1) [OF r] opened) auto
  have fr: "os \<in> all_frames st \<or> PF k' st' os" if "os \<in> all_frames st'" for os
    using frames_upd_thread [OF push_open_threads [of key f a eid compl st, folded opn(2)] that]
      opn(3) PF by (auto intro: all_framesI)
  show ?thesis
    by (rule everywhere_grow [OF r e fr]) (simp_all add: opn(2) push_open_def Let_def recon_frame)
next
  case (close key t os rest a eid compl)
  define s where "s = span_of_open (ts_id t) os (abs_time a) compl eid"
  have "PF k st os"
    using e all_framesI [OF close(3), of os] close(4) by (simp add: everywhere_def)
  then have PS: "PS k' st' s"
    unfolding s_def using close by (intro stable(2) [OF r] closed) auto
  have sub: "all_frames st' \<subseteq> all_frames st"
    by (rule frames_same [OF pop_span_threads [of x key os rest a eid compl st, folded close(2)]])
       (use close in auto)
  have "ts_id (thread_of key (upd_thread key (\<lambda>t. t\<lparr>ts_stack := rest\<rparr>) st)) = ts_id t"
    using close(3) by (simp add: thread_of_def upd_thread_threads)
  then have st': "st' = emit_span x s (upd_thread key (\<lambda>t. t\<lparr>ts_spans := Suc (ts_spans t)\<rparr>)
      (upd_thread key (\<lambda>t. t\<lparr>ts_stack := rest\<rparr>) st))"
    by (simp add: close(2) pop_span_def close_span_def s_def)
  show ?thesis
    by (rule everywhere_emit [OF r e st' _ _ _ sub PS]) (simp_all add: recon_frame)
next
  case (orphan key t a eid f)
  define s where "s = \<lparr>sp_id = rc_next_span st, sp_thread = ts_id (thread_of key st),
        sp_function = f, sp_parent = None, sp_start = time_unknown,
        sp_end = abs_time a, sp_completeness = UncertainUnwind,
        sp_evidence = \<lparr>er_start = eid, er_end = eid\<rparr>, sp_call_site = None\<rparr>"
  have PS: "PS k' st' s"
    using orphan by (intro stable(2) [OF r] orphaned [of st a eid]) (auto simp: s_def)
  have sub: "all_frames st' \<subseteq> all_frames st"
    by (rule frames_same [OF orphan_span_threads [of x key f a eid st, folded orphan(2)]]) simp
  have st': "st' = emit_span x s (upd_thread key (\<lambda>t. t\<lparr>ts_spans := Suc (ts_spans t)\<rparr>)
      (st\<lparr>rc_next_span := inc32 (rc_next_span st)\<rparr>))"
    by (simp add: orphan(2) orphan_span_def s_def)
  show ?thesis
    by (rule everywhere_emit [OF r e st' _ _ _ sub PS]) (simp_all add: recon_frame)
next
  case (rename key t os rest f)
  have "PF k st os"
    using e all_framesI [OF rename(3), of os] rename(4) by (simp add: everywhere_def)
  then have PF: "PF k' st' (os\<lparr>os_function := f\<rparr>)"
    by (intro stable(1) [OF r] renamed)
  have fr: "os' \<in> all_frames st \<or> PF k' st' os'" if "os' \<in> all_frames st'" for os'
    using frames_upd_thread [OF arg_cong [OF rename(2), of rc_threads] that] rename(3,4) PF
    by (auto intro: all_framesI)
  show ?thesis
    by (rule everywhere_grow [OF r e fr]) (simp_all add: rename(2) recon_frame)
next
  case (gap a b thread kind known reason)
  have "PG k' st' g" if "gap_start g = abs_time a" "gap_end g = abs_time b" for g
    using that gap(3) by (intro stable(4) [OF r] gapped) auto
  then show ?thesis
    by (intro everywhere_grow [OF r e]) (auto simp: gap(2) push_gap_def all_frames_def all_spans_def all_events_def)
next
  case (event key ev)
  from event(3) obtain st1 where st1:
    "emit_event x ev (st\<lparr>rc_next_event := inc32 (rc_next_event st)\<rparr>) = Inr st1"
    "st' = upd_thread key (\<lambda>t. t\<lparr>ts_retained := Suc (ts_retained t)\<rparr>) st1"
    by (rule record_event_cases)
  have min: "rc_min_abs st' = rc_min_abs st"
    using record_event_keeps [OF event(3)] by simp
  have PE: "PE k' st' ev"
    unfolding event(1) using event(4,5) okt_cong [OF min] by (intro recorded [OF g]) auto
  have sub: "all_frames st' \<subseteq> all_frames st"
    by (rule frames_same [where key = key and f = "\<lambda>t. t\<lparr>ts_retained := Suc (ts_retained t)\<rparr>"])
       (use record_event_keeps [OF event(3)] in auto)
  show ?thesis
    by (rule everywhere_grow [OF r e])
       (use sub PE record_event_gaps [OF event(3)] emit_event_all [OF st1(1)] st1(2) in auto)
next
  case (touch f key)
  have "ts_stack (f t) = ts_stack t" for t
    using touch(3) [of t] by (simp add: thread_ledger_def)
  then have "all_frames st' \<subseteq> all_frames st"
    by (intro frames_same [OF arg_cong [OF touch(2), of rc_threads]]) simp
  then show ?thesis
    by (intro everywhere_grow [OF r e]) (auto simp: touch(2) recon_frame)
next
  case (pend pe key)
  have "all_frames st' \<subseteq> all_frames st"
    by (rule frames_same [OF arg_cong [OF pend(2), of rc_threads]]) simp
  then show ?thesis
    by (intro everywhere_grow [OF r e]) (auto simp: pend(2) recon_frame)
next
  case (clock key t n)
  have "all_frames st' \<subseteq> all_frames st"
    by (rule frames_same [OF arg_cong [OF clock(2), of rc_threads]]) simp
  then show ?thesis
    by (intro everywhere_grow [OF r e]) (auto simp: clock(2) recon_frame)
qed (intro everywhere_grow [OF r e];
     auto simp: all_frames_def all_spans_def all_events_def ledger_def recon_frame ensure_thread_def
       new_thread_state_def note_abs_def split: option.splits if_splits)+

lemma everywhere_start: "fresh st \<Longrightarrow> everywhere 0 st"
  by (auto simp: fresh_def everywhere_def all_frames_def all_spans_def all_events_def spill_open_def
      split: option.splits)

end

sublocale output_predicate \<subseteq> rows: ledger_invariant x tz everywhere
  by unfold_locales (fact everywhere_start, rule everywhere_step)


section \<open>Time stamps and evidence\<close>

definition stamped :: "bool \<Rightarrow> recon \<Rightarrow> event_time \<Rightarrow> bool" where
  "stamped tz st t \<longleftrightarrow> (tz \<longrightarrow> okt st (relative_ns t))"

lemma rstep_okt:
  assumes "rstep x tz (k, st) (k', st')" "okt st a"
  shows "okt st' a"
  using assms(1)
proof (cases rule: rstep.cases)
  case noted
  then show ?thesis using assms(2) by (simp add: okt_note_abs_keep)
next
  case (event key ev)
  then show ?thesis using assms(2) record_event_keeps [OF event(3)] by (simp add: okt_def)
qed (use assms(2) in \<open>simp_all add: okt_def recon_frame ledger_def\<close>)

lemma rstep_counter: "rstep x tz (k, st) (k', st') \<Longrightarrow> k \<le> k'"
  by (erule rstep.cases) simp_all

interpretation stamps: output_predicate x tz
  "\<lambda>k st os. tz \<longrightarrow> okt st (os_start_abs os)"
  "\<lambda>k st s. stamped tz st (sp_start s) \<and> stamped tz st (sp_end s)"
  "\<lambda>k st e. stamped tz st (ev_time e)"
  "\<lambda>k st g. stamped tz st (gap_start g) \<and> stamped tz st (gap_end g)" for x tz
  by unfold_locales (auto simp: stamped_def span_of_open_def dest: rstep_okt)

definition ranged :: "nat \<Rightarrow> event_range \<Rightarrow> bool" where
  "ranged k r \<longleftrightarrow> (k \<le> 2 ^ 32 \<longrightarrow> er_start r \<le> er_end r \<and> er_end r < k)"

lemma recent_lt: "recent eid k \<Longrightarrow> k \<le> 2 ^ 32 \<Longrightarrow> Suc eid = k"
  by (auto simp: recent_def)

interpretation evidence: output_predicate x tz
  "\<lambda>k st os. k \<le> 2 ^ 32 \<longrightarrow> os_start_event os < k"
  "\<lambda>k st s. ranged k (sp_evidence s)"
  "\<lambda>k st e. k \<le> 2 ^ 32 \<longrightarrow> ev_id e < k"
  "\<lambda>k st g. True" for x tz
  by unfold_locales
     (auto simp: ranged_def span_of_open_def good_def dest: rstep_counter recent_lt)

section \<open>Event rows are in order\<close>

definition events_ordered :: "nat \<Rightarrow> recon \<Rightarrow> bool" where
  "events_ordered k st \<longleftrightarrow>
     length (out_events st) = rc_events_n st \<and>
     (k \<le> 2 ^ 32 \<longrightarrow>
        sorted_wrt (<) (map ev_id (out_events st)) \<and> (\<forall>e\<in>set (out_events st). ev_id e < k))"

lemma out_events_frame:
  "out_events (push_open key f a eid compl st) = out_events st"
  "out_events (pop_span x key os rest a eid compl st) = out_events st"
  "out_events (orphan_span x key f a eid st) = out_events st"
  by (simp_all add: push_open_def pop_span_def close_span_def orphan_span_def Let_def)
     (simp_all add: out_events_def split: option.splits)

lemma events_n_frame:
  "rc_events_n (push_open key f a eid compl st) = rc_events_n st"
  "rc_events_n (pop_span x key os rest a eid compl st) = rc_events_n st"
  "rc_events_n (orphan_span x key f a eid st) = rc_events_n st"
  by (simp_all add: push_open_def pop_span_def close_span_def orphan_span_def Let_def recon_frame)

lemma events_ordered_step:
  assumes r: "rstep x tz (k, st) (k', st')" and g: "good tz k st" and e: "events_ordered k st"
  shows "events_ordered k' st'"
proof -
  have keep: "events_ordered k' st'"
    if "out_events st' = out_events st" "rc_events_n st' = rc_events_n st"
    using e rstep_counter [OF r] that by (force simp: events_ordered_def)
  from r show ?thesis
  proof (cases rule: rstep.cases)
    case (event key ev)
    from event(3) obtain st1 where
      "emit_event x ev (st\<lparr>rc_next_event := inc32 (rc_next_event st)\<rparr>) = Inr st1"
      "st' = upd_thread key (\<lambda>t. t\<lparr>ts_retained := Suc (ts_retained t)\<rparr>) st1"
      by (rule record_event_cases)
    then have "out_events st' = out_events st @ [ev]" "rc_events_n st' = Suc (rc_events_n st)"
      by (simp_all add: emit_event_out recon_frame)
    then show ?thesis
      using e g event(1,4) by (auto simp: events_ordered_def good_def sorted_wrt_append)
  qed (intro keep; simp add: out_events_frame events_n_frame ledger_def;
       simp add: out_events_def note_abs_def ensure_thread_def push_gap_def recon_frame
         split: option.splits)+
qed

lemma events_ordered_start: "fresh st \<Longrightarrow> events_ordered 0 st"
  by (auto simp: fresh_def events_ordered_def out_events_def spill_open_def split: option.splits)

interpretation events: ledger_invariant x tz events_ordered for x tz
  by unfold_locales (fact events_ordered_start, rule events_ordered_step)

end
