(* ===== verification/Reconstruct_Demo.thy ===== *)
theory Reconstruct_Demo
  imports Reconstruct_Stamps
begin

text \<open>
  A small run used by the witnesses: one thread calls a function at time 100 and
  returns from it at time 120.
\<close>

definition demo_env :: env where
  "demo_env = \<lparr>x_insn_len = (\<lambda>_. None), x_frames = (\<lambda>_ _. None), x_write_event = (\<lambda>_ _. Inr 1),
     x_write_span = (\<lambda>_ _. Inr 1), x_fmt_ms = (\<lambda>_. []), x_spill_io = (\<lambda>_. Inr ())\<rparr>"

definition demo_sample :: "flags \<Rightarrow> u64 \<Rightarrow> u64 \<Rightarrow> u64 \<Rightarrow> sample" where
  "demo_sample fl t ip to =
     \<lparr>s_pid = 7, s_tid = 7, s_cpu = Some 0, s_time = Some t, s_event = Branches, s_ip = Some ip,
      s_addr = Some to, s_flags = fl, s_insn_len = None, s_insn = []\<rparr>"

definition demo_records :: "raw_record list" where
  "demo_records = [RSample (demo_sample F_CALL 100 4096 8192), RSample (demo_sample F_RETURN 120 8200 4101)]"

definition demo_new :: recon where
  "demo_new = recon_new ''an_1'' [] []"

lemma demo_flags:
  "flags_boundary F_CALL = \<lparr>trace_begin = False, trace_end = False, async_event = False,
     transaction = False, interrupt = False, syscall = False\<rparr>"
  "flags_boundary F_RETURN = \<lparr>trace_begin = False, trace_end = False, async_event = False,
     transaction = False, interrupt = False, syscall = False\<rparr>"
  "flags_kind F_CALL = Call" "flags_kind F_RETURN = Return"
  by code_simp+

lemmas prepare_eval = prepare_sample_def note_abs_def ensure_thread_def upd_thread_def thread_of_def
  new_thread_state_def advance_time_def note_trigger_def touch_thread_def Let_def

lemmas resolve_eval = resolve_def resolve_uncached_def step_inline_def retain_event_def
  is_intra_def emit_event_def boundary_any_def takes_precedence_def upd_thread_def thread_of_def Let_def

lemmas flow_eval = apply_flow_def resolve_pending_def takes_precedence_def apply_kind_def push_open_def
  apply_return_def close_span_def emit_span_def upd_thread_def thread_of_def
  resolved_none_def inc32_def Let_def

definition demo_mid :: recon where
  "demo_mid = demo_new
     \<lparr>rc_threads := [(7, 7) \<mapsto>
        \<lparr>ts_id = thread_ids_id thread_ids_default 7 7, ts_pid = 7, ts_tid = 7,
         ts_stack = [\<lparr>os_id = 0, os_function = None, os_parent = None, os_start_abs = Some 100,
           os_start_event = 0, os_completeness = OpenEnd, os_call_site = Some 4096\<rparr>],
         ts_last_abs = Some 100, ts_last_seq = 1, ts_comm = None, ts_first_abs = Some 100,
         ts_branches = 1, ts_retained = 1, ts_spans = 0, ts_gaps = 0, ts_pending_end = None,
         ts_segments = [(100, 100)], ts_last_cpu = Some 0, ts_block_start = None\<rparr>],
      rc_thread_order := [(7, 7)],
      rc_ip_cache := [(7, 4096) \<mapsto> resolved_none, (7, 8192) \<mapsto> resolved_none],
      rc_events := [\<lparr>ev_id = 0, ev_thread = thread_ids_id thread_ids_default 7 7, ev_sequence = 1,
        ev_time = abs_time (Some 100), ev_from = None, ev_to = None, ev_kind = Call,
        ev_boundary = flags_boundary F_CALL, ev_virt_from = Some (Address 4096),
        ev_virt_to = Some (Address 8192)\<rparr>],
      rc_next_event := 1, rc_next_span := 1, rc_samples := 1, rc_min_abs := Some 100,
      rc_cpu_first_abs := [0 \<mapsto> 100], rc_events_n := 1\<rparr>"

lemma demo_call:
  "push demo_env (RSample (demo_sample F_CALL 100 4096 8192)) demo_new = Inr demo_mid"
  unfolding push_def dispatch_def push_sample_def demo_new_def recon_new_def
  apply (simp add: demo_sample_def demo_flags note_cpu_first_def prepare_eval split del: if_split cong: if_cong)
  apply (simp add: resolve_eval)
  apply (simp add: flow_eval demo_mid_def demo_new_def recon_new_def demo_flags)
  done

lemma demo_return:
  "\<exists>st. push demo_env (RSample (demo_sample F_RETURN 120 8200 4101)) demo_mid = Inr st \<and>
     rc_min_abs st = Some 100 \<and> rc_spill st = None \<and>
     map (\<lambda>s. (sp_id s, sp_completeness s)) (rc_spans st) = [(0, Complete)]"
  unfolding push_def dispatch_def push_sample_def demo_mid_def demo_new_def recon_new_def
  apply (simp add: demo_sample_def demo_flags note_cpu_first_def prepare_eval split del: if_split cong: if_cong)
  apply (simp add: resolve_eval)
  apply (simp add: flow_eval span_of_open_def)
  done

lemma demo_pushed:
  "\<exists>st. push_all demo_env demo_records demo_new = Inr st \<and> rc_min_abs st = Some 100 \<and>
     rc_spill st = None \<and> map (\<lambda>s. (sp_id s, sp_completeness s)) (rc_spans st) = [(0, Complete)]"
  using demo_return by (auto simp: push_all_def demo_records_def demo_call)

lemma demo_fresh: "fresh demo_new" "saves x demo_new" "rc_pid_filter demo_new = None"
  by (simp_all add: demo_new_def saves_def recon_new_def fresh_def)

lemma demo_timed: "timed demo_records"
  by (simp add: timed_def demo_records_def demo_sample_def)

text \<open>The call alone, in a run that spills its rows to files.\<close>

definition demo_first :: raw_record where
  "demo_first = RSample (demo_sample F_CALL 100 4096 8192)"

definition demo_spilled :: recon where
  "demo_spilled = with_spill 1000 demo_new"

definition full_disk :: env where
  "full_disk = demo_env\<lparr>x_spill_io := (\<lambda>c. if c = FlushDest SpansFile then Inl (limit_error ''disk full'') else Inr ())\<rparr>"

lemma spilled_fresh: "fresh demo_spilled"
  unfolding demo_spilled_def by (rule fresh_builders(4) [OF demo_fresh(1)])

lemma spilled_run:
  assumes "x = demo_env\<lparr>x_spill_io := io\<rparr>"
  shows "\<exists>st. push_all x [demo_first] demo_spilled = Inr st \<and> rc_min_abs st = Some 100 \<and>
     (\<exists>sp. rc_spill (finish_threads x st) = Some sp \<and> spill_bytes sp \<le> spill_budget sp)"
proof -
  have x: "x_write_event x = (\<lambda>_ _. Inr 1)" "x_write_span x = (\<lambda>_ _. Inr 1)"
    by (simp_all add: assms demo_env_def)
  show ?thesis
    unfolding push_all_def demo_first_def push_def dispatch_def push_sample_def demo_spilled_def demo_new_def
      recon_new_def with_spill_def spill_open_def
    apply (simp add: demo_sample_def demo_flags note_cpu_first_def prepare_eval split del: if_split cong: if_cong)
    apply (simp add: resolve_eval x try_bind_def)
    apply (simp add: flow_eval)
    apply (simp add: finish_threads_def finish_thread_def emit_open_spans_def take_stack_def emit_span_def x Let_def)
    done
qed

lemma demo_env_healthy: "demo_env = demo_env\<lparr>x_spill_io := (\<lambda>_. Inr ())\<rparr>"
  by (simp add: demo_env_def)

lemmas spilled_pushed = spilled_run [OF demo_env_healthy] spilled_run [OF full_disk_def]

end
