(* ===== verification/Reconstruct_Props.thy ===== *)
theory Reconstruct_Props
  imports Reconstruct_Demo
begin

text \<open>
  The properties of a whole reconstruction run: \<open>push_all\<close> on a fresh reconstructor,
  then \<open>finish\<close>. Each rests on one interpretation of \<open>ledger_invariant\<close> and on what
  \<open>finish\<close> copies into the analysis.
\<close>

section \<open>What finish copies\<close>

definition ir_out_spans :: "analysis_ir \<Rightarrow> function_span list" where
  "ir_out_spans ir = (case ir_spilled ir of None \<Rightarrow> ir_spans ir | Some (es, ss) \<Rightarrow> ss)"

definition ir_out_events :: "analysis_ir \<Rightarrow> flow_event list" where
  "ir_out_events ir = (case ir_spilled ir of None \<Rightarrow> ir_events ir | Some (es, ss) \<Rightarrow> es)"

lemma finish_cases:
  assumes "finish x st = Inr ir"
  obtains origin spans n where
    "rc_min_abs st = Some origin"
    "map_try (rebase_event origin) (rc_events (finish_threads x st)) = Inr (ir_events ir)"
    "map_try (rebase_span origin) (rc_spans (finish_threads x st)) = Inr spans"
    "ir_spans ir = sort_key sp_id spans"
    "finish_spill x origin (finish_threads x st) = Inr (ir_spilled ir, n)"
    "map_try (rebase_gap origin) (rc_gaps (finish_threads x st)) = Inr (ir_gaps ir)"
    "ir_threads ir = thread_list origin (finish_threads x st)"
    "ir_event_count ir = rc_events_n (finish_threads x st)"
    "ir_span_count ir = rc_spans_n (finish_threads x st)"
    "qr_gap_count (ir_quality ir) = Count (length (ir_gaps ir))"
    "qr_gaps_by_kind (ir_quality ir) = count_gaps_by_kind (ir_gaps ir)"
    "qr_incomplete_span_count (ir_quality ir) = Count (count_incomplete (ir_spans ir) + n)"
    "ir_origin ir = \<lparr>abs_perf_time = show_dec origin, relative_zero_ns = 0\<rparr>"
  using assms
  by (auto simp: finish_def try_bind_Inr_iff Let_def split: option.splits prod.splits)

lemma finish_spill_cases:
  assumes "finish_spill x origin st = Inr (spl, n)"
  shows "(case rc_spill st of
            None \<Rightarrow> spl = None \<and> n = 0
          | Some sp \<Rightarrow> \<exists>es ss. spl = Some (es, ss) \<and> n = count_incomplete (spill_spans sp) \<and>
              map_try (rebase_event origin) (spill_events sp) = Inr es \<and>
              map_try (rebase_span origin) (spill_spans sp) = Inr ss)"
  using assms by (auto simp: finish_spill_def try_bind_Inr_iff rewrite_rebased_Inr split: option.splits)


lemma map_try_list_all2:
  "map_try f xs = Inr ys \<Longrightarrow> list_all2 (\<lambda>x y. f x = Inr y) xs ys"
  by (induction xs arbitrary: ys) (auto split: sum.splits)

lemma list_all2_ex1: "list_all2 P xs ys \<Longrightarrow> u \<in> set xs \<Longrightarrow> \<exists>v\<in>set ys. P u v"
  by (induction rule: list_all2_induct) auto

lemma list_all2_ex2: "list_all2 P xs ys \<Longrightarrow> v \<in> set ys \<Longrightarrow> \<exists>u\<in>set xs. P u v"
  by (induction rule: list_all2_induct) auto

lemma finish_out_spans:
  assumes "finish x st = Inr ir"
  obtains origin spans where "rc_min_abs st = Some origin"
    "list_all2 (\<lambda>s s'. rebase_span origin s = Inr s') (out_spans (finish_threads x st)) spans"
    "mset (ir_out_spans ir) = mset spans"
    "ir_spilled ir = None \<longrightarrow> ir_out_spans ir = sort_key sp_id spans"
  using assms
proof (cases rule: finish_cases)
  case (1 origin spans n)
  note spill = finish_spill_cases [OF 1(5)]
  show ?thesis
  proof (cases "rc_spill (finish_threads x st)")
    case None
    with 1 spill show ?thesis
      by (intro that [of origin spans])
         (auto simp: out_spans_def ir_out_spans_def dest!: map_try_list_all2)
  next
    case (Some sp)
    with 1 spill show ?thesis
      by (auto simp: out_spans_def ir_out_spans_def dest!: map_try_list_all2 intro!: that [of origin])
  qed
qed

lemma rebased_spans_map:
  assumes "list_all2 (\<lambda>s s'. rebase_span origin s = Inr s') ss ss'"
  shows "map sp_id ss' = map sp_id ss"
  using assms by (induction rule: list_all2_induct) (auto dest: rebase_span_fields)

lemma finish_threads_threads:
  "rc_threads (fold (finish_thread x) ks st) key =
     (if key \<in> set ks
      then map_option (\<lambda>t. (take_stack t)\<lparr>ts_pending_end := None\<rparr>) (rc_threads st key)
      else rc_threads st key)"
proof (induction ks arbitrary: st)
  case (Cons k ks)
  have idem: "(take_stack ((take_stack t)\<lparr>ts_pending_end := None\<rparr>))\<lparr>ts_pending_end := None\<rparr>
      = (take_stack t)\<lparr>ts_pending_end := None\<rparr>" for t
    by (simp add: take_stack_def)
  show ?case
    using Cons.IH [of "finish_thread x k st"]
    by (auto simp: finish_thread_threads upd_thread_threads idem split: option.splits)
qed simp

lemma finish_threads_stacks:
  assumes "keys_ok k st" "rc_threads (finish_threads x st) key = Some t"
  shows "ts_stack t = []"
proof -
  have "key \<in> set (rc_thread_order st) \<or> rc_threads st key = None"
    using assms(1) by (auto simp: keys_ok_def)
  with assms(2) show ?thesis
    by (auto simp: finish_threads_def finish_threads_threads take_stack_def split: if_splits)
qed

lemma tally_zero:
  "(\<And>k t. m k = Some t \<Longrightarrow> g t = 0) \<Longrightarrow> tally g m = 0"
  unfolding tally_def by (rule sum.neutral) (auto simp: dom_def)

lemma saves_finish_threads:
  "saves x (finish_threads x st) = saves x st"
proof -
  have "saves x (emit_open_spans x th stop c ss st') = saves x st'" for th stop c ss st'
    unfolding emit_open_spans_def by (induction ss arbitrary: st') simp_all
  then have "saves x (finish_thread x key st') = saves x st'" for key st'
    by (simp add: finish_thread_def split: option.splits)
  then have "saves x (fold (finish_thread x) ks st') = saves x st'" for ks st'
    by (induction ks arbitrary: st') simp_all
  then show ?thesis by (simp add: finish_threads_def)
qed


lemma saves_frame [simp]:
  "saves x (note_abs a st) = saves x st"
  "saves x (ensure_thread pid tid st) = saves x st"
  "saves x (push_gap th kd a b kn rs st) = saves x st"
  "saves x (push_open key f a eid compl st) = saves x st"
  "saves x (pop_span x key os rest a eid compl st) = saves x st"
  "saves x (orphan_span x key f a eid st) = saves x st"
  by (simp_all add: push_open_def pop_span_def close_span_def orphan_span_def Let_def)
     (simp_all add: saves_def note_abs_def ensure_thread_def push_gap_def split: option.splits)

lemma rstep_saves:
  assumes "rstep x tz (k, st) (k', st')"
  shows "saves x st' = saves x st"
  using assms
proof (cases rule: rstep.cases)
  case (event key ev)
  then show ?thesis
    by (elim record_event_cases) (simp add: emit_event_out)
next
  case quiet
  then show ?thesis by (simp add: saves_def ledger_def)
qed simp_all

lemma push_all_saves:
  assumes "fresh st0" "push_all x recs st0 = Inr st"
  shows "saves x st = saves x st0"
proof -
  obtain k where "rsteps x False (0, st0) (k, st)"
    using push_all_run [OF fresh_good [OF assms(1)] _ assms(2), of False] by blast
  then show ?thesis
    by (induction rule: rtranclp_induct2) (auto dest: rstep_saves)
qed

section \<open>Rebasing\<close>

lemma okt_origin: "okt st a \<Longrightarrow> rc_min_abs st = Some origin \<Longrightarrow> a = Some t \<Longrightarrow> origin \<le> t"
  by (auto simp: okt_def)

text \<open>Every row is stamped no earlier than the origin, so that rebasing does not fail.\<close>

lemma rebase_total:
  assumes "fresh st0" "timed recs" "push_all x recs st0 = Inr st" "rc_min_abs st = Some origin"
  shows "e \<in> set (all_events (finish_threads x st)) \<Longrightarrow> \<exists>e'. rebase_event origin e = Inr e'"
    "s \<in> set (all_spans (finish_threads x st)) \<Longrightarrow> \<exists>s'. rebase_span origin s = Inr s'"
    "g \<in> set (rc_gaps (finish_threads x st)) \<Longrightarrow> \<exists>g'. rebase_gap origin g = Inr g'"
proof -
  let ?fs = "finish_threads x st"
  obtain k where ev: "stamps.everywhere True k ?fs"
    using stamps.rows.finished [OF assms(1) _ assms(3), of True] assms(2) by blast
  have fold: "rc_min_abs (fold (finish_thread x) ks st') = rc_min_abs st'" for ks st'
    by (induction ks arbitrary: st') (simp_all add: recon_frame)
  then have min: "rc_min_abs ?fs = Some origin"
    by (simp add: finish_threads_def assms(4))
  have rows: "\<forall>s\<in>set (all_spans ?fs). stamped True ?fs (sp_start s) \<and> stamped True ?fs (sp_end s)"
    "\<forall>e\<in>set (all_events ?fs). stamped True ?fs (ev_time e)"
    "\<forall>g\<in>set (rc_gaps ?fs). stamped True ?fs (gap_start g) \<and> stamped True ?fs (gap_end g)"
    using ev unfolding stamps.everywhere_def by blast+
  have ok: "origin \<le> t" if "okt ?fs (Some t)" for t
    using that min by (auto simp: okt_def)
  show "e \<in> set (all_events ?fs) \<Longrightarrow> \<exists>e'. rebase_event origin e = Inr e'"
    "s \<in> set (all_spans ?fs) \<Longrightarrow> \<exists>s'. rebase_span origin s = Inr s'"
    "g \<in> set (rc_gaps ?fs) \<Longrightarrow> \<exists>g'. rebase_gap origin g = Inr g'"
    unfolding rebase_event_ok_iff rebase_span_ok_iff rebase_gap_ok_iff
    using rows by (auto simp: stamped_def intro!: ok)
qed

lemma finish_spill_only:
  assumes "fresh st0" "timed recs" "push_all x recs st0 = Inr st" "rc_min_abs st = Some origin"
  shows "(\<exists>ir. finish x st = Inr ir) \<longleftrightarrow> (\<exists>r. finish_spill x origin (finish_threads x st) = Inr r)"
    "finish x st = Inl e \<longleftrightarrow> finish_spill x origin (finish_threads x st) = Inl e"
proof -
  let ?fs = "finish_threads x st"
  note total = rebase_total [OF assms]
  have "\<exists>es. map_try (rebase_event origin) (rc_events ?fs) = Inr es"
    "\<exists>ss. map_try (rebase_span origin) (rc_spans ?fs) = Inr ss"
    "\<exists>gs. map_try (rebase_gap origin) (rc_gaps ?fs) = Inr gs"
    unfolding map_try_Inr_iff using total by (auto simp: all_events_def all_spans_def split: option.splits)
  then obtain es ss gs where r: "map_try (rebase_event origin) (rc_events ?fs) = Inr es"
    "map_try (rebase_span origin) (rc_spans ?fs) = Inr ss" "map_try (rebase_gap origin) (rc_gaps ?fs) = Inr gs"
    by blast
  show "(\<exists>ir. finish x st = Inr ir) \<longleftrightarrow> (\<exists>r. finish_spill x origin ?fs = Inr r)"
    "finish x st = Inl e \<longleftrightarrow> finish_spill x origin ?fs = Inl e"
    by (cases "finish_spill x origin ?fs"; simp add: finish_def assms(4) Let_def r try_bind_def split: prod.splits option.splits)+
qed

lemma finish_total:
  assumes "fresh st0" "timed recs" "push_all x recs st0 = Inr st"
  shows "(\<exists>ir. finish x st = Inr ir) \<longleftrightarrow>
     rc_min_abs st \<noteq> None \<and>
     (\<forall>sp. rc_spill (finish_threads x st) = Some sp \<longrightarrow>
        spill_bytes sp \<le> spill_budget sp \<and> (\<forall>c\<in>spill_calls sp. x_spill_io x c = Inr ()))"
proof (cases "rc_min_abs st")
  case None
  then show ?thesis by (simp add: finish_def)
next
  case (Some origin)
  have "\<exists>es. map_try (rebase_event origin) (spill_events sp) = Inr es" "\<exists>ss. map_try (rebase_span origin) (spill_spans sp) = Inr ss"
    if "rc_spill (finish_threads x st) = Some sp" for sp
    unfolding map_try_Inr_iff using rebase_total(1,2) [OF assms Some] that by (auto simp: all_events_def all_spans_def)
  then show ?thesis
    unfolding finish_spill_only(1) [OF assms Some] finish_spill_ok using Some by blast
qed

lemma finish_fails:
  assumes "fresh st0" "timed recs" "push_all x recs st0 = Inr st" "finish x st = Inl e"
  shows "(rc_min_abs st = None \<and>
       e = decode_failed ''no usable timestamps in capture; cannot establish snapshot origin'') \<or>
     (\<exists>sp. rc_spill (finish_threads x st) = Some sp \<and>
        (spill_check sp = Inl e \<or> (\<exists>c\<in>spill_calls sp. x_spill_io x c = Inl e)))"
proof (cases "rc_min_abs st")
  case None
  then show ?thesis
    using assms(4) by (simp add: finish_def)
next
  case (Some origin)
  have "finish_spill x origin (finish_threads x st) = Inl e"
    using assms(4) finish_spill_only(2) [OF assms(1-3) Some] by simp
  then show ?thesis
  proof (rule finish_spill_error)
    fix sp
    assume sp: "rc_spill (finish_threads x st) = Some sp"
      "spill_check sp = Inl e \<or> (\<exists>c\<in>spill_calls sp. x_spill_io x c = Inl e) \<or>
       (\<exists>r\<in>set (spill_events sp). rebase_event origin r = Inl e) \<or> (\<exists>r\<in>set (spill_spans sp). rebase_span origin r = Inl e)"
    have "\<exists>r'. rebase_event origin r = Inr r'" if "r \<in> set (spill_events sp)" for r
      using rebase_total(1) [OF assms(1-3) Some, of r] that sp(1) by (simp add: all_events_def)
    moreover have "\<exists>r'. rebase_span origin r = Inr r'" if "r \<in> set (spill_spans sp)" for r
      using rebase_total(2) [OF assms(1-3) Some, of r] that sp(1) by (simp add: all_spans_def)
    ultimately show ?thesis
      using sp by fastforce
  qed
qed

lemma spill_finish_threads: "rc_spill st = None \<Longrightarrow> rc_spill (finish_threads x st) = None"
proof -
  have "rc_spill (emit_open_spans x th stop c ss st') = None" if "rc_spill st' = None" for th stop c ss st'
    using that unfolding emit_open_spans_def by (induction ss arbitrary: st') (simp_all add: spill_emit_span)
  then have f: "rc_spill (finish_thread x key st') = None" if "rc_spill st' = None" for key st'
    using that by (simp add: finish_thread_def split: option.splits)
  have "rc_spill (fold (finish_thread x) ks st') = None" if "rc_spill st' = None" for ks st'
    using that by (induction ks arbitrary: st') (simp_all add: f)
  then show "rc_spill st = None \<Longrightarrow> rc_spill (finish_threads x st) = None"
    by (simp add: finish_threads_def)
qed

lemma demo_finished:
  "\<exists>st ir. push_all demo_env demo_records demo_new = Inr st \<and> finish demo_env st = Inr ir"
proof -
  obtain st where st: "push_all demo_env demo_records demo_new = Inr st" "rc_min_abs st = Some 100"
    "rc_spill st = None"
    using demo_pushed by (elim exE conjE) (rule that)
  then show ?thesis
    using finish_total [OF demo_fresh(1) demo_timed st(1)] by (simp add: spill_finish_threads)
qed

section \<open>Span identifiers\<close>

text \<open>
  C1: Span identifiers are a permutation of the row numbers. When the span writer does
  not fail, the spans of the analysis (resident or spilled) carry each of the ids
  \<open>0, 1, ..., n - 1\<close> exactly once, where \<open>n\<close> is the reported span count (modulo the 32 bits of
  an id); every frame that was opened is in the output, whatever interrupted it. A
  resident analysis with at most \<open>2 ^ 32\<close> spans lists them in that order, so that row \<open>i\<close> has
  id \<open>i\<close>.
\<close>

theorem span_ids_dense:
  assumes "fresh st0" "saves x st0" "push_all x recs st0 = Inr st" "finish x st = Inr ir"
  shows "mset (map sp_id (ir_out_spans ir)) =
           image_mset (\<lambda>i. i mod 2 ^ 32) (mset [0..<ir_span_count ir]) \<and>
         (ir_spilled ir = None \<and> ir_span_count ir \<le> 2 ^ 32 \<longrightarrow>
           map sp_id (ir_spans ir) = [0..<ir_span_count ir])"
proof -
  let ?fs = "finish_threads x st"
  obtain k where b: "books x k ?fs"
    using ledger.finished [OF assms(1) _ assms(3), of False] by blast
  have sv: "saves x ?fs"
    using push_all_saves [OF assms(1,3)] assms(2) by (simp add: saves_finish_threads)
  have cnt: "ir_span_count ir = rc_spans_n ?fs"
    using assms(4) by (cases rule: finish_cases) simp
  have empty: "ts_stack t = []" if "rc_threads ?fs key = Some t" for key t
    using keys.pushed [OF assms(1) _ assms(3), of False] finish_threads_stacks that by blast
  have "frames ?fs = 0"
    unfolding frames_def by (rule tally_zero) (auto dest: empty)
  moreover have "tally (\<lambda>t. mset (map os_id (ts_stack t))) (rc_threads ?fs) = {#}"
    by (rule tally_zero) (auto dest: empty)
  ultimately have out: "image_mset sp_id (mset (out_spans ?fs)) = row_ids (ir_span_count ir)"
    using b sv cnt by (simp add: books_def)
  from assms(4) show ?thesis
  proof (cases rule: finish_out_spans)
    case (1 origin spans)
    have ids: "mset (map sp_id (ir_out_spans ir)) = row_ids (ir_span_count ir)"
      using 1(3) rebased_spans_map [OF 1(2)] out by (metis mset_map)
    have "map sp_id (ir_spans ir) = [0..<ir_span_count ir]"
      if s: "ir_spilled ir = None" "ir_span_count ir \<le> 2 ^ 32"
    proof -
      have "row_ids (ir_span_count ir) = mset [0..<ir_span_count ir]"
        unfolding row_ids_def using s(2) by (intro multiset.map_ident_strong) auto
      moreover have "sorted (map sp_id (ir_out_spans ir))"
        using 1(4) s(1) by simp
      moreover have "ir_out_spans ir = ir_spans ir"
        using s(1) by (simp add: ir_out_spans_def)
      ultimately show ?thesis
        using ids by (metis properties_for_sort sorted_sort_id sorted_upt)
    qed
    then show ?thesis
      using ids by (simp add: row_ids_def)
  qed
qed


theorem span_ids_dense_witness:
  "\<exists>st ir. push_all demo_env demo_records demo_new = Inr st \<and> finish demo_env st = Inr ir \<and>
     mset (map sp_id (ir_out_spans ir)) =
       image_mset (\<lambda>i. i mod 2 ^ 32) (mset [0..<ir_span_count ir])"
  using demo_finished span_ids_dense [OF demo_fresh(1,2), of demo_env demo_records] by blast

section \<open>Counters\<close>

lemma tally_order:
  assumes "distinct ks" "set ks = dom m"
  shows "tally g m = sum_list (map (\<lambda>k. g (the (m k))) ks)"
  unfolding tally_def by (simp add: assms sum_list_distinct_conv_sum_set)

lemma finish_out_events:
  assumes "finish x st = Inr ir"
  obtains origin where "rc_min_abs st = Some origin"
    "list_all2 (\<lambda>e e'. rebase_event origin e = Inr e') (out_events (finish_threads x st)) (ir_out_events ir)"
  using assms
proof (cases rule: finish_cases)
  case (1 origin spans n)
  note spill = finish_spill_cases [OF 1(5)]
  show ?thesis
    using 1(1,2) spill
    by (cases "rc_spill (finish_threads x st)")
       (auto simp: out_events_def ir_out_events_def dest!: map_try_list_all2 intro!: that [of origin])
qed

text \<open>
  The per-thread statistics add up. The span and event counts listed for the
  threads, live and retired, sum to the totals of the analysis, and the event total
  is the number of event rows written.
\<close>

theorem thread_counts_add_up:
  assumes "fresh st0" "push_all x recs st0 = Inr st" "finish x st = Inr ir"
  shows "sum_list (map (count_val \<circ> tl_span_count) (ir_threads ir)) = ir_span_count ir \<and>
         sum_list (map (count_val \<circ> tl_event_count) (ir_threads ir)) = ir_event_count ir \<and>
         length (ir_out_events ir) = ir_event_count ir"
proof -
  let ?fs = "finish_threads x st"
  obtain k where b: "books x k ?fs"
    using ledger.finished [OF assms(1) _ assms(2), of False] by blast
  obtain k1 where ks: "keys_ok k1 ?fs"
    using keys.finished [OF assms(1) _ assms(2), of False] by blast
  obtain k2 where ev: "events_ordered k2 ?fs"
    using events.finished [OF assms(1) _ assms(2), of False] by blast
  have len: "length (ir_out_events ir) = length (out_events ?fs)"
    using assms(3) by (cases rule: finish_out_events) (simp add: list_all2_lengthD)
  have tot: "tally g (rc_threads ?fs) =
      sum_list (map (\<lambda>k. g (thread_of k ?fs)) (rc_thread_order ?fs))" for g :: "thread_state \<Rightarrow> nat"
    using ks tally_order [of "rc_thread_order ?fs" "rc_threads ?fs" g]
    by (simp add: keys_ok_def thread_of_def)
  from assms(3) show ?thesis
    by (cases rule: finish_cases)
       (use b ev len in \<open>simp add: books_def events_ordered_def thread_list_def lifetime_of_def
          comp_def tot add.commute\<close>)
qed

theorem thread_counts_add_up_witness:
  "\<exists>st ir. push_all demo_env demo_records demo_new = Inr st \<and> finish demo_env st = Inr ir \<and>
     sum_list (map (count_val \<circ> tl_span_count) (ir_threads ir)) = ir_span_count ir"
  using demo_finished thread_counts_add_up [OF demo_fresh(1), of demo_env demo_records] by blast

text \<open>
  C4: \<open>finish\<close> succeeds exactly when it should. On records without zero timestamps the analysis is produced if
  and only if some record carried a time and, for a spilled run, the spill stayed within its budget and every
  call of the second pass over the two files succeeded: the flushes, and opening, reading, writing and
  flushing the rewritten files row by row. When it fails, the error is the one for a capture without
  timestamps, the one for the budget, or that of one of these calls: rebasing never meets a time before the
  origin.
\<close>

theorem finish_succeeds_iff:
  assumes "fresh st0" "timed recs" "push_all x recs st0 = Inr st"
  shows "((\<exists>ir. finish x st = Inr ir) \<longleftrightarrow>
       rc_min_abs st \<noteq> None \<and>
       (\<forall>sp. rc_spill (finish_threads x st) = Some sp \<longrightarrow>
          spill_bytes sp \<le> spill_budget sp \<and> (\<forall>c\<in>spill_calls sp. x_spill_io x c = Inr ()))) \<and>
     (\<forall>e. finish x st = Inl e \<longrightarrow>
       rc_min_abs st = None \<and>
         e = decode_failed ''no usable timestamps in capture; cannot establish snapshot origin'' \<or>
       (\<exists>sp. rc_spill (finish_threads x st) = Some sp \<and>
          (spill_check sp = Inl e \<or> (\<exists>c\<in>spill_calls sp. x_spill_io x c = Inl e))))"
  using finish_total [OF assms] finish_fails [OF assms] by blast

text \<open>A spilled run of one call; once all calls succeed, once the copy of the spans cannot be flushed.\<close>

theorem finish_succeeds_iff_witness:
  "\<exists>st. push_all demo_env [demo_first] demo_spilled = Inr st \<and> (\<exists>ir. finish demo_env st = Inr ir) \<and>
     (\<exists>st'. push_all full_disk [demo_first] demo_spilled = Inr st' \<and> finish full_disk st' = Inl (limit_error ''disk full''))"
proof -
  have timed: "timed [demo_first]"
    by (simp add: timed_def demo_first_def demo_sample_def)
  obtain st where st: "push_all demo_env [demo_first] demo_spilled = Inr st" "rc_min_abs st = Some 100"
    "\<exists>sp. rc_spill (finish_threads demo_env st) = Some sp \<and> spill_bytes sp \<le> spill_budget sp"
    using spilled_pushed by blast
  obtain st' where st': "push_all full_disk [demo_first] demo_spilled = Inr st'" "rc_min_abs st' = Some 100"
    "\<exists>sp. rc_spill (finish_threads full_disk st') = Some sp \<and> spill_bytes sp \<le> spill_budget sp"
    using spilled_pushed by blast
  have "\<exists>ir. finish demo_env st = Inr ir"
    using finish_succeeds_iff [OF spilled_fresh timed st(1)] st(2,3) by (auto simp: demo_env_def)
  moreover have "finish full_disk st' = Inl (limit_error ''disk full'')"
  proof -
    obtain sp where sp: "rc_spill (finish_threads full_disk st') = Some sp" "spill_bytes sp \<le> spill_budget sp"
      using st'(3) by blast
    have "FlushDest SpansFile \<in> spill_calls sp"
      by (simp add: spill_calls_def rewrite_calls_def)
    moreover have "x_spill_io full_disk (FlushDest SpansFile) = Inl (limit_error ''disk full'')"
      by (simp add: full_disk_def)
    ultimately have "\<nexists>ir. finish full_disk st' = Inr ir"
      using finish_succeeds_iff [OF spilled_fresh timed st'(1)] sp(1) by fastforce
    then obtain e where e: "finish full_disk st' = Inl e"
      by (cases "finish full_disk st'") auto
    have "spill_check sp \<noteq> Inl e"
      using sp(2) by (simp add: spill_check_def)
    then have "\<exists>c. x_spill_io full_disk c = Inl e"
      using finish_succeeds_iff [OF spilled_fresh timed st'(1)] e sp(1) st'(2) by fastforce
    then show ?thesis
      using e by (auto simp: full_disk_def split: if_splits)
  qed
  ultimately show ?thesis
    using st(1) st'(1) by blast
qed

lemma rebase_relative:
  "rebase origin t = Inr t' \<Longrightarrow> relative_ns t' = map_option (\<lambda>a. a - origin) (relative_ns t)"
  by (auto simp: rebase_def checked_sub_def split: option.splits if_splits)

lemma rebase_span_relative:
  assumes "rebase_span origin s = Inr s'"
  shows "relative_ns (sp_start s') = map_option (\<lambda>a. a - origin) (relative_ns (sp_start s))"
    "relative_ns (sp_end s') = map_option (\<lambda>a. a - origin) (relative_ns (sp_end s))"
  using assms by (auto simp: rebase_span_def try_bind_Inr_iff dest: rebase_relative)

lemma le_known_rebase: "le_known a b \<Longrightarrow> le_known (map_option (\<lambda>t. t - n) a) (map_option (\<lambda>t. t - n) b)"
  by (auto simp: le_known_def intro: diff_le_mono)

lemma rebase_inside:
  assumes "rebase_span origin s = Inr s'" "rebase_span origin p = Inr p'" "inside s p"
  shows "inside s' p'"
  using assms(3) rebase_span_fields [OF assms(1)] rebase_span_fields [OF assms(2)]
    rebase_span_relative [OF assms(1)] rebase_span_relative [OF assms(2)]
  by (auto simp: inside_def le_known_rebase)

section \<open>The forest of spans\<close>

lemma out_spans_finish_threads:
  assumes "saves x st"
  shows "set (out_spans st) \<subseteq> set (out_spans (finish_threads x st))"
proof -
  have e: "saves x (emit_open_spans x th stop c ss st') \<and>
      set (out_spans st') \<subseteq> set (out_spans (emit_open_spans x th stop c ss st'))"
    if "saves x st'" for th stop c ss st'
    using that unfolding emit_open_spans_def
  proof (induction ss arbitrary: st')
    case (Cons a ss)
    from Cons.IH [of "emit_span x (span_of_open th a stop (c a) (os_start_event a)) st'"] Cons.prems
    show ?case by (simp add: out_spans_emit)
  qed simp
  have e': "saves x (emit_open_spans x th stop c ss (st'\<lparr>rc_threads := m\<rparr>))"
      "set (out_spans st') \<subseteq> set (out_spans (emit_open_spans x th stop c ss (st'\<lparr>rc_threads := m\<rparr>)))"
    if "saves x st'" for th stop c ss st' m
    using e [of "st'\<lparr>rc_threads := m\<rparr>" th stop c ss] that by simp_all
  have f: "saves x (finish_thread x key st') \<and> set (out_spans st') \<subseteq> set (out_spans (finish_thread x key st'))"
    if "saves x st'" for key st'
    by (cases "rc_threads st' key") (simp_all add: finish_thread_def that e')
  have "set (out_spans st') \<subseteq> set (out_spans (fold (finish_thread x) ks st'))" if "saves x st'" for ks st'
    using that
  proof (induction ks arbitrary: st')
    case (Cons a ks)
    from Cons.IH [of "finish_thread x a st'"] f [OF Cons.prems, of a] show ?case by auto
  qed simp
  with assms show ?thesis by (simp add: finish_threads_def)
qed

lemma demo_complete_span:
  "\<exists>st ir s. push_all demo_env demo_records demo_new = Inr st \<and> finish demo_env st = Inr ir \<and>
     s \<in> set (ir_out_spans ir) \<and> sp_completeness s = Complete"
proof -
  obtain st where st: "push_all demo_env demo_records demo_new = Inr st" "rc_min_abs st = Some 100"
    "rc_spill st = None" "map (\<lambda>s. (sp_id s, sp_completeness s)) (rc_spans st) = [(0, Complete)]"
    using demo_pushed by (elim exE conjE) (rule that)
  obtain ir where ir: "finish demo_env st = Inr ir"
    using demo_finished st(1) by auto
  obtain u where u: "u \<in> set (out_spans st)" "sp_completeness u = Complete"
    using st(3,4) by (cases "rc_spans st") (auto simp: out_spans_def)
  then have "u \<in> set (out_spans (finish_threads demo_env st))"
    using out_spans_finish_threads [of demo_env st] st(3) by (auto simp: saves_def)
  from ir show ?thesis
  proof (cases rule: finish_out_spans)
    case (1 origin spans)
    obtain v where "v \<in> set spans" "rebase_span origin u = Inr v"
      using list_all2_ex1 [OF 1(2) \<open>u \<in> set (out_spans (finish_threads demo_env st))\<close>] by blast
    then show ?thesis
      using st(1) ir u(2) rebase_span_fields mset_eq_setD [OF 1(3)] by metis
  qed
qed

text \<open>
  C2: Well-formed span forest. When the span writer does not fail, every parent named by a
  span of the analysis is itself a span of the analysis, on the same thread; a span
  closed by its matching return never ends before it starts, and lies inside its
  parent's interval when the parent was closed by its return too.
\<close>

theorem span_forest:
  assumes "fresh st0" "saves x st0" "push_all x recs st0 = Inr st" "finish x st = Inr ir"
    and "s \<in> set (ir_out_spans ir)"
  shows "(sp_completeness s = Complete \<longrightarrow>
            le_known (relative_ns (sp_start s)) (relative_ns (sp_end s))) \<and>
         (\<forall>i. sp_parent s = Some i \<longrightarrow>
            (\<exists>p\<in>set (ir_out_spans ir). sp_id p = i \<and> sp_thread p = sp_thread s \<and>
               (sp_completeness s = Complete \<and> sp_completeness p = Complete \<longrightarrow>
                  le_known (relative_ns (sp_start p)) (relative_ns (sp_start s)) \<and>
                  le_known (relative_ns (sp_end s)) (relative_ns (sp_end p)))))"
  using assms(4)
proof (cases rule: finish_out_spans)
  case (1 origin spans)
  let ?fs = "finish_threads x st"
  obtain k where f: "forest x k ?fs"
    using forest.finished [OF assms(1) _ assms(3), of False] by blast
  have sv: "saves x ?fs"
    using push_all_saves [OF assms(1,3)] assms(2) by (simp add: saves_finish_threads)
  have empty: "ts_stack t = []" if "rc_threads ?fs key = Some t" for key t
    using keys.pushed [OF assms(1) _ assms(3), of False] finish_threads_stacks that by blast
  have set_eq: "set (ir_out_spans ir) = set spans"
    using 1(3) by (rule mset_eq_setD)
  obtain u where u: "u \<in> set (out_spans ?fs)" "rebase_span origin u = Inr s"
    using list_all2_ex2 [OF 1(2)] assms(5) set_eq by blast
  have ord: "span_ordered u" and par: "\<And>i. sp_parent u = Some i \<Longrightarrow> parent_in (out_spans ?fs) u i"
    using f sv u(1) empty by (fastforce simp: forest_def parent_open_def)+
  have "le_known (relative_ns (sp_start s)) (relative_ns (sp_end s))" if "sp_completeness s = Complete"
    using ord that rebase_span_fields [OF u(2)] rebase_span_relative [OF u(2)]
    by (simp add: span_ordered_def le_known_rebase)
  moreover have "\<exists>p\<in>set (ir_out_spans ir). sp_id p = i \<and> sp_thread p = sp_thread s \<and> inside s p"
    if i: "sp_parent s = Some i" for i
  proof -
    obtain p where p: "p \<in> set (out_spans ?fs)" "sp_id p = i" "sp_thread p = sp_thread u" "inside u p"
      using par i rebase_span_fields [OF u(2)] by (auto simp: parent_in_def)
    obtain p' where "p' \<in> set spans" "rebase_span origin p = Inr p'"
      using list_all2_ex1 [OF 1(2) p(1)] by blast
    then show ?thesis
      using p rebase_span_fields rebase_span_fields [OF u(2)] rebase_inside [OF u(2)] set_eq by metis
  qed
  ultimately show ?thesis
    by (simp add: inside_def)
qed

theorem span_forest_witness:
  "\<exists>st ir s. push_all demo_env demo_records demo_new = Inr st \<and> finish demo_env st = Inr ir \<and>
     s \<in> set (ir_out_spans ir) \<and> sp_completeness s = Complete \<and>
     le_known (relative_ns (sp_start s)) (relative_ns (sp_end s))"
  using demo_complete_span span_forest [OF demo_fresh(1,2), of demo_env demo_records] by blast

section \<open>Evidence\<close>

text \<open>
  C5: Evidence and event order. In a stream of at most \<open>2 ^ 32\<close> records the retained event
  rows have strictly increasing ids, and every span's evidence range runs forward.
\<close>

theorem evidence_ordered:
  assumes "fresh st0" "push_all x recs st0 = Inr st" "finish x st = Inr ir"
    and "length recs \<le> 2 ^ 32"
  shows "sorted_wrt (<) (map ev_id (ir_out_events ir)) \<and>
         (\<forall>s\<in>set (ir_out_spans ir). er_start (sp_evidence s) \<le> er_end (sp_evidence s))"
proof -
  let ?fs = "finish_threads x st"
  obtain k where k: "k \<le> length recs" "events_ordered k ?fs"
    using events.finished [OF assms(1) _ assms(2), of False] by blast
  obtain k' where k': "k' \<le> length recs" "evidence.everywhere k' ?fs"
    using evidence.rows.finished [OF assms(1) _ assms(2), of False] by blast
  have ev: "sorted_wrt (<) (map ev_id (out_events ?fs))"
    using k assms(4) by (simp add: events_ordered_def)
  have "map ev_id (ir_out_events ir) = map ev_id (out_events ?fs)"
    using assms(3)
  proof (cases rule: finish_out_events)
    case (1 origin)
    have same: "ev_id e' = ev_id e" if "rebase_event origin e = Inr e'" for e e'
      using that by (auto simp: rebase_event_def try_bind_Inr_iff)
    show ?thesis
      using 1(2) by (induction rule: list_all2_induct) (auto dest: same)
  qed
  moreover have "er_start (sp_evidence s) \<le> er_end (sp_evidence s)"
    if s: "s \<in> set (ir_out_spans ir)" for s
    using assms(3)
  proof (cases rule: finish_out_spans)
    case (1 origin spans)
    obtain u where u: "u \<in> set (out_spans ?fs)" "rebase_span origin u = Inr s"
      using list_all2_ex2 [OF 1(2)] s mset_eq_setD [OF 1(3)] by blast
    then have "u \<in> set (all_spans ?fs)"
      by (auto simp: out_spans_def all_spans_def split: option.splits)
    then have "ranged k' (sp_evidence u)"
      using k'(2) unfolding evidence.everywhere_def by blast
    then show ?thesis
      using k'(1) assms(4) rebase_span_fields [OF u(2)] by (simp add: ranged_def)
  qed
  ultimately show ?thesis
    using ev by simp
qed


theorem evidence_ordered_witness:
  "\<exists>st ir. push_all demo_env demo_records demo_new = Inr st \<and> finish demo_env st = Inr ir \<and>
     sorted_wrt (<) (map ev_id (ir_out_events ir))"
  using demo_finished evidence_ordered [OF demo_fresh(1), of demo_env demo_records]
  by (simp add: demo_records_def) blast

section \<open>Gaps\<close>

lemma count_gaps_fold:
  assumes "finite (dom m)"
  shows "finite (dom (fold (\<lambda>g m. let k = gap_kind_name (gap_kind_of g)
                 in m(k \<mapsto> Count ((case m k of None \<Rightarrow> 0 | Some c \<Rightarrow> count_val c) + 1))) gs m)) \<and>
         tally count_val (fold (\<lambda>g m. let k = gap_kind_name (gap_kind_of g)
                 in m(k \<mapsto> Count ((case m k of None \<Rightarrow> 0 | Some c \<Rightarrow> count_val c) + 1))) gs m)
         = tally count_val m + length gs"
  using assms
proof (induction gs arbitrary: m)
  case (Cons g gs)
  let ?k = "gap_kind_name (gap_kind_of g)"
  let ?m = "m(?k \<mapsto> Count ((case m ?k of None \<Rightarrow> 0 | Some c \<Rightarrow> count_val c) + 1))"
  have "tally count_val ?m = Suc (tally count_val m)"
  proof (cases "m ?k")
    case None
    then show ?thesis by (simp add: tally_insert [OF Cons.prems None])
  next
    case (Some c)
    then show ?thesis
      by (simp add: tally_upd [OF Cons.prems Some] tally_delete [OF Cons.prems Some])
  qed
  moreover have "finite (dom ?m)"
    using Cons.prems by simp
  ultimately show ?case
    using Cons.IH [of ?m] by (simp add: Let_def del: fun_upd_apply)
qed simp

text \<open>
  Gap bookkeeping. The gaps of an analysis are numbered consecutively from zero
  (modulo the 32 bits of an id), the reported gap count is their number, and the counts
  per kind sum to it.
\<close>

theorem gaps_bookkeeping:
  assumes "fresh st0" "push_all x recs st0 = Inr st" "finish x st = Inr ir"
  shows "map gap_id (ir_gaps ir) = map (\<lambda>i. i mod 2 ^ 32) [0..<length (ir_gaps ir)] \<and>
         qr_gap_count (ir_quality ir) = Count (length (ir_gaps ir)) \<and>
         (\<Sum>k\<in>dom (qr_gaps_by_kind (ir_quality ir)).
            count_val (the (qr_gaps_by_kind (ir_quality ir) k))) = length (ir_gaps ir)"
proof -
  let ?fs = "finish_threads x st"
  obtain k where g: "gaps_numbered k ?fs"
    using gaps.finished [OF assms(1) _ assms(2), of False] by blast
  have same: "gap_id b = gap_id a" if "rebase_gap origin a = Inr b" for origin a b
    using that by (auto simp: rebase_gap_def try_bind_Inr_iff)
  have ids: "map gap_id ys = map gap_id xs"
    if "list_all2 (\<lambda>a b. rebase_gap origin a = Inr b) xs ys" for origin xs ys
    using that by (induction rule: list_all2_induct) (auto dest: same)
  from assms(3) show ?thesis
  proof (cases rule: finish_cases)
    case (1 origin spans n)
    have l: "list_all2 (\<lambda>a b. rebase_gap origin a = Inr b) (rc_gaps ?fs) (ir_gaps ir)"
      using 1(6) by (rule map_try_list_all2)
    have "tally count_val (qr_gaps_by_kind (ir_quality ir)) = length (ir_gaps ir)"
      using count_gaps_fold [of Map.empty "ir_gaps ir"]
      by (simp add: 1(11) count_gaps_by_kind_def)
    then show ?thesis
      using g ids [OF l] list_all2_lengthD [OF l]
      by (simp add: gaps_numbered_def 1(10) tally_def)
  qed
qed

theorem gaps_bookkeeping_witness:
  "\<exists>st ir. push_all demo_env demo_records demo_new = Inr st \<and> finish demo_env st = Inr ir \<and>
     qr_gap_count (ir_quality ir) = Count (length (ir_gaps ir))"
  using demo_finished gaps_bookkeeping [OF demo_fresh(1), of demo_env demo_records] by blast

section \<open>The origin\<close>

lemma min_abs_apply:
  "rc_min_abs (apply_kind x key kind from to a eid st) = rc_min_abs st"
  "rc_min_abs (apply_boundary x key bd from to a cpu eid st) = rc_min_abs st"
  "rc_min_abs (snd (resolve_pending x key bd from to a cpu eid st)) = rc_min_abs st"
  by (auto simp: apply_kind_def apply_return_def apply_jump_def apply_boundary_def resolve_pending_def
      open_at_def bump_gaps_def note_unwind_mismatch_def close_span_def Let_def recon_frame
      split: flow_kind.splits list.splits option.splits)

lemma min_abs_apply_flow:
  "rc_min_abs (apply_flow x key kind bd from to a cpu eid st) = rc_min_abs st"
  using min_abs_apply(3) [of x key bd "from" to a cpu eid st]
  by (cases "resolve_pending x key bd from to a cpu eid st") (simp add: apply_flow_def min_abs_apply)

lemma min_abs_push_sample:
  assumes "push_sample x s st = Inr st'"
  shows "rc_min_abs st' = rc_min_abs (note_abs (s_time s) st)"
proof -
  have n: "rc_min_abs (note_abs a st) = rc_min_abs (note_abs a st')"
    if "rc_min_abs st = rc_min_abs st'" for a and st st' :: recon
    using that by (simp add: note_abs_def split: option.splits)
  have p: "rc_min_abs (prepare_sample x s st) = rc_min_abs (note_abs (s_time s) st)"
    using n [of st "st\<lparr>rc_samples := Suc (rc_samples st)\<rparr>" "s_time s"]
    by (auto simp: prepare_sample_def note_trigger_def advance_time_def bump_gaps_def Let_def
        recon_frame split: option.splits)
  have i: "rc_min_abs (step_inline x key s bd st) = rc_min_abs st" for key bd st
    using ledger_attribute_block
    by (auto simp: step_inline_def Let_def recon_frame ledger_def split: option.splits prod.splits)
  have r: "rc_min_abs (snd (resolve pid ip st)) = rc_min_abs st" for pid ip st
    using ledger_resolve [of pid ip st] by (simp add: ledger_def)
  define st1 where "st1 = prepare_sample x s st"
  define rf where "rf = resolve (s_pid s) (s_ip s) st1"
  define rt where "rt = resolve (s_pid s) (s_addr s) (snd rf)"
  define st4 where "st4 = step_inline x (s_pid s, s_tid s) s (flags_boundary (s_flags s)) (snd rt)"
  obtain kind bd thread seq st6 where ret: "retain_event x s kind bd (fst rf) (fst rt) thread seq
      (rc_next_event st4) (st4\<lparr>rc_next_event := inc32 (rc_next_event st4)\<rparr>) = Inr st6"
    and st': "rc_min_abs st' = rc_min_abs st6"
    using assms unfolding push_sample_def Let_def st1_def rf_def rt_def st4_def
    by (auto simp: try_bind_Inr_iff min_abs_apply_flow split: prod.splits if_splits)
  show ?thesis
    using retain_event_keeps [OF ret] by (simp add: st' st4_def i rt_def rf_def r st1_def p)
qed

lemma min_abs_dispatch:
  assumes "dispatch x rec st = Inr st'"
  shows "rc_min_abs st' = rc_min_abs (note_abs (record_time rec) st)"
proof -
  have n: "rc_min_abs (note_abs a (st\<lparr>rc_decoder_errors := v\<rparr>)) = rc_min_abs (note_abs a st)" for a v
    by (simp add: note_abs_def split: option.splits)
  from assms show ?thesis
    by (cases rec)
       (auto simp: dispatch_def min_abs_push_sample push_mmap_def push_task_def push_lost_def
          push_decoder_error_def bump_gaps_def Let_def recon_frame n note_abs_def
          split: option.splits)
qed


lemma pid_filter_frame [recon_frame]:
  "rc_pid_filter (note_abs a st) = rc_pid_filter st"
  "rc_pid_filter (ensure_thread pid tid st) = rc_pid_filter st"
  "rc_pid_filter (interrupt_thread x key st) = rc_pid_filter st"
  "rc_pid_filter (retire_thread x key a st) = rc_pid_filter st"
  "rc_pid_filter (push_gap th kd a b kn rs st) = rc_pid_filter st"
  "rc_pid_filter (push_open key f a eid compl st) = rc_pid_filter st"
  "rc_pid_filter (close_span x key os a eid compl st) = rc_pid_filter st"
  "rc_pid_filter (attribute_block x key pid s e t0 t1 st) = rc_pid_filter st"
  by (auto simp: note_abs_def ensure_thread_def interrupt_thread_def retire_thread_def push_gap_def
      push_open_def close_span_def attribute_block_def Let_def emit_span_frame emit_open_spans_frame
      upd_thread_frame split: option.splits prod.splits)

lemma pid_filter_apply:
  "rc_pid_filter (apply_kind x key kind from to a eid st) = rc_pid_filter st"
  "rc_pid_filter (apply_boundary x key bd from to a cpu eid st) = rc_pid_filter st"
  "rc_pid_filter (snd (resolve_pending x key bd from to a cpu eid st)) = rc_pid_filter st"
  by (auto simp: apply_kind_def apply_return_def apply_jump_def apply_boundary_def resolve_pending_def
      open_at_def bump_gaps_def note_unwind_mismatch_def Let_def recon_frame
      split: flow_kind.splits list.splits option.splits)

lemma pid_filter_apply_flow:
  "rc_pid_filter (apply_flow x key kind bd from to a cpu eid st) = rc_pid_filter st"
  using pid_filter_apply(3) [of x key bd "from" to a cpu eid st]
  by (cases "resolve_pending x key bd from to a cpu eid st") (simp add: apply_flow_def pid_filter_apply)

lemma pid_filter_resolve: "rc_pid_filter (snd (resolve pid ip st)) = rc_pid_filter st"
proof -
  have i: "rc_pid_filter (snd (intern_function ik iid fr st)) = rc_pid_filter st"
    "rc_pid_filter (snd (intern_location ik iid rel ip f st)) = rc_pid_filter st"
    "rc_pid_filter (note_missing_image path st) = rc_pid_filter st" for ik iid fr rel ip f path st
    by (simp_all add: intern_function_def intern_location_def note_missing_image_def Let_def
        split: option.splits)
  have "rc_pid_filter (snd (resolve_uncached pid ip st)) = rc_pid_filter st" for ip
    by (auto simp: resolve_uncached_def Let_def i split: option.splits prod.splits)
       (metis i snd_conv)+
  from this [of "the ip"] show ?thesis
    by (auto simp: resolve_def Let_def split: option.splits prod.splits)
qed

lemma pid_filter_push_sample:
  assumes "push_sample x s st = Inr st'"
  shows "rc_pid_filter st' = rc_pid_filter st"
proof -
  have p: "rc_pid_filter (prepare_sample x s st) = rc_pid_filter st"
    by (auto simp: prepare_sample_def note_trigger_def advance_time_def bump_gaps_def Let_def
        recon_frame split: option.splits)
  have i: "rc_pid_filter (step_inline x key s bd st) = rc_pid_filter st" for key bd st
    by (auto simp: step_inline_def Let_def recon_frame split: option.splits prod.splits)
  have e: "rc_pid_filter st2 = rc_pid_filter st1" if "emit_event x ev st1 = Inr st2" for ev st1 st2
    using that by (cases rule: emit_event_cases) simp_all
  define st1 where "st1 = prepare_sample x s st"
  define rf where "rf = resolve (s_pid s) (s_ip s) st1"
  define rt where "rt = resolve (s_pid s) (s_addr s) (snd rf)"
  define st4 where "st4 = step_inline x (s_pid s, s_tid s) s (flags_boundary (s_flags s)) (snd rt)"
  obtain kind bd thread seq st6 where ret: "retain_event x s kind bd (fst rf) (fst rt) thread seq
      (rc_next_event st4) (st4\<lparr>rc_next_event := inc32 (rc_next_event st4)\<rparr>) = Inr st6"
    and st': "rc_pid_filter st' = rc_pid_filter st6"
    using assms unfolding push_sample_def Let_def st1_def rf_def rt_def st4_def
    by (auto simp: try_bind_Inr_iff pid_filter_apply_flow split: prod.splits if_splits)
  have "rc_pid_filter st6 = rc_pid_filter st4"
    using ret by (auto simp: retain_event_def try_bind_Inr_iff recon_frame dest!: e split: if_splits)
  then show ?thesis
    by (simp add: st' st4_def i rt_def rf_def pid_filter_resolve st1_def p)
qed

lemma pid_filter_push:
  assumes "push x rec st = Inr st'" "rc_pid_filter st = None"
  shows "rc_pid_filter st' = None" "rc_min_abs st' = rc_min_abs (note_abs (record_time rec) st)"
proof -
  let ?st1 = "note_cpu_first rec st"
  have st1: "rc_pid_filter ?st1 = None" "rc_min_abs ?st1 = rc_min_abs st"
    using assms(2) by (simp_all add: note_cpu_first_def split: raw_record.splits option.splits)
  then have d: "dispatch x rec ?st1 = Inr st'"
    using assms(1) by (simp add: push_def Let_def)
  then show "rc_pid_filter st' = None"
    using st1(1)
    by (cases rec) (auto simp: dispatch_def pid_filter_push_sample push_mmap_def push_task_def
        push_lost_def push_decoder_error_def bump_gaps_def Let_def recon_frame split: option.splits)
  show "rc_min_abs st' = rc_min_abs (note_abs (record_time rec) st)"
    using min_abs_dispatch [OF d] st1(2) by (simp add: note_abs_def split: option.splits)
qed

lemma push_all_min_abs:
  assumes "push_all x recs st = Inr st'" "rc_pid_filter st = None"
  shows "rc_min_abs st' = fold (\<lambda>r m. case record_time r of
     None \<Rightarrow> m | Some t \<Rightarrow> if t = 0 then m else Some (case m of None \<Rightarrow> t | Some u \<Rightarrow> min u t))
     recs (rc_min_abs st)"
  using assms
proof (induction recs arbitrary: st)
  case (Cons r recs)
  then obtain st1 where "push x r st = Inr st1" "push_all x recs st1 = Inr st'"
    by (auto simp: push_all_def split: sum.splits)
  then show ?case
    using Cons.IH [of st1] pid_filter_push [of x r st st1] Cons.prems(2)
    by (simp add: note_abs_def split: option.splits)
qed (simp add: push_all_def)

definition known_times :: "raw_record list \<Rightarrow> nat set" where
  "known_times recs = {t. \<exists>r\<in>set recs. record_time r = Some t}"

lemma finite_known_times: "finite (known_times recs)"
proof -
  have "known_times recs \<subseteq> (the \<circ> record_time) ` set recs"
    by (force simp: known_times_def)
  then show ?thesis by (rule finite_subset) simp
qed

lemma fold_earliest:
  assumes "\<forall>r\<in>set recs. record_time r \<noteq> Some 0"
  shows "fold (\<lambda>r m. case record_time r of
     None \<Rightarrow> m | Some t \<Rightarrow> if t = 0 then m else Some (case m of None \<Rightarrow> t | Some u \<Rightarrow> min u t))
     recs m =
     (case m of
        None \<Rightarrow> if known_times recs = {} then None else Some (Min (known_times recs))
      | Some u \<Rightarrow> Some (Min (insert u (known_times recs))))"
  using assms
proof (induction recs arbitrary: m)
  case Nil
  then show ?case by (simp add: known_times_def split: option.splits)
next
  case (Cons r recs)
  have fin: "finite (known_times recs)"
    by (rule finite_known_times)
  have ins: "known_times (r # recs) = (case record_time r of None \<Rightarrow> {} | Some t \<Rightarrow> {t}) \<union> known_times recs"
    by (auto simp: known_times_def split: option.splits)
  show ?case
    using Cons fin
    by (auto simp: ins Min_insert2 split: option.splits)
qed


text \<open>
  The snapshot origin. Without a pid filter, the origin that an analysis reports is
  the earliest time of any record of the stream, wherever it stands in the stream; an
  analysis exists only if there is one.
\<close>

theorem origin_is_earliest:
  assumes "fresh st0" "rc_pid_filter st0 = None" "timed recs" "push_all x recs st0 = Inr st"
    "finish x st = Inr ir"
  shows "known_times recs \<noteq> {} \<and> abs_perf_time (ir_origin ir) = show_dec (Min (known_times recs))"
proof -
  have "rc_min_abs st = (if known_times recs = {} then None else Some (Min (known_times recs)))"
    using push_all_min_abs [OF assms(4,2)] fold_earliest [of recs "rc_min_abs st0"] assms(1,3)
    by (simp add: fresh_def timed_def)
  with assms(5) show ?thesis
    by (cases rule: finish_cases) (simp split: if_splits)
qed

theorem origin_is_earliest_witness:
  "\<exists>st ir. push_all demo_env demo_records demo_new = Inr st \<and> finish demo_env st = Inr ir \<and>
     abs_perf_time (ir_origin ir) = show_dec (Min (known_times demo_records))"
  using demo_finished origin_is_earliest [OF demo_fresh(1,3) demo_timed, of demo_env] by blast

end
