(* ===== verification/Call_Trees.thy ===== *)
theory Call_Trees
  imports Reconstruct_Stamps
begin

text \<open>
  Functional correctness of the call stack: on the transfers of a properly nested
  execution, the reconstructor computes the same spans as a recursive evaluation of the
  call tree, whatever was on the stack before.
\<close>

section \<open>Executions as trees\<close>

datatype invocation =
  Invocation
    (iv_function: "local_id option") (iv_site: "u64 option")
    (iv_enter: "u64 option") (iv_enter_event: local_id)
    (iv_calls: "invocation list")
    (iv_return: resolved) (iv_leave: "u64 option") (iv_leave_event: local_id)

record transfer =
  tr_kind :: flow_kind
  tr_ip :: "u64 option"
  tr_to :: resolved
  tr_abs :: "u64 option"
  tr_event :: local_id

fun tree_transfers :: "invocation \<Rightarrow> transfer list"
  and forest_transfers :: "invocation list \<Rightarrow> transfer list" where
  "tree_transfers (Invocation f site a e calls ret b e2) =
     \<lparr>tr_kind = Call, tr_ip = site, tr_to = \<lparr>r_loc = None, r_func = f, r_map = None\<rparr>, tr_abs = a,
      tr_event = e\<rparr>
     # forest_transfers calls
     @ [\<lparr>tr_kind = Return, tr_ip = None, tr_to = ret, tr_abs = b, tr_event = e2\<rparr>]"
| "forest_transfers [] = []"
| "forest_transfers (t # ts) = tree_transfers t @ forest_transfers ts"

text \<open>The reference: ids in order of entry, spans in order of exit.\<close>

fun tree_spans :: "thread_id \<Rightarrow> local_id option \<Rightarrow> u32 \<Rightarrow> invocation \<Rightarrow> function_span list \<times> u32"
  and forest_spans :: "thread_id \<Rightarrow> local_id option \<Rightarrow> u32 \<Rightarrow> invocation list \<Rightarrow> function_span list \<times> u32"
  where
  "tree_spans th parent i (Invocation f site a e calls ret b e2) =
     (let (inner, j) = forest_spans th (Some i) (inc32 i) calls
      in (inner @
            [\<lparr>sp_id = i, sp_thread = th, sp_function = f, sp_parent = parent,
              sp_start = abs_time a, sp_end = abs_time b, sp_completeness = Complete,
              sp_evidence = \<lparr>er_start = e, er_end = e2\<rparr>,
              sp_call_site = map_option Address site\<rparr>], j))"
| "forest_spans th parent i [] = ([], i)"
| "forest_spans th parent i (t # ts) =
     (let (ss, j) = tree_spans th parent i t; (ss', k) = forest_spans th parent j ts
      in (ss @ ss', k))"

text \<open>What \<open>push_sample\<close> does with one transfer once its event id is drawn.\<close>

definition no_boundary :: boundary_flags where
  "no_boundary = \<lparr>trace_begin = False, trace_end = False, async_event = False,
     transaction = False, interrupt = False, syscall = False\<rparr>"

definition deliver :: "env \<Rightarrow> task_key \<Rightarrow> u32 option \<Rightarrow> resolved \<Rightarrow> transfer \<Rightarrow> recon \<Rightarrow> recon" where
  "deliver x key cpu from tr st =
     (apply_flow x key (tr_kind tr) no_boundary from (tr_to tr) (tr_abs tr) cpu (tr_event tr)
        (st\<lparr>rc_cur_call_site := (if tr_kind tr = Call then tr_ip tr else None)\<rparr>))
     \<lparr>rc_cur_call_site := None\<rparr>"

section \<open>Refinement\<close>

definition settled :: "env \<Rightarrow> task_key \<Rightarrow> thread_id \<Rightarrow> open_span list \<Rightarrow> recon \<Rightarrow> bool" where
  "settled x key th stack st \<longleftrightarrow>
     saves x st \<and>
     (\<exists>t. rc_threads st key = Some t \<and> ts_id t = th \<and> ts_stack t = stack \<and> ts_pending_end t = None)"

definition top_id :: "open_span list \<Rightarrow> local_id option" where
  "top_id stack = (case stack of [] \<Rightarrow> None | os # _ \<Rightarrow> Some (os_id os))"

lemma out_call_site [simp]:
  "out_spans (st\<lparr>rc_cur_call_site := v\<rparr>) = out_spans st"
  "saves x (st\<lparr>rc_cur_call_site := v\<rparr>) = saves x st"
  by (rule out_cong; simp)+

lemma apply_flow_plain:
  assumes "settled x key th stack st"
  shows "apply_flow x key kind no_boundary from to a cpu eid st = apply_kind x key kind from to a eid st"
  using assms
  by (auto simp: apply_flow_def settled_def resolve_pending_def thread_of_def no_boundary_def
      takes_precedence_def)

lemma settled_call_site: "settled x key th stack (st\<lparr>rc_cur_call_site := v\<rparr>) = settled x key th stack st"
  by (simp add: settled_def)

lemma deliver_call:
  assumes "settled x key th stack st" "tr_kind tr = Call"
  defines "os \<equiv> \<lparr>os_id = rc_next_span st, os_function = r_func (tr_to tr), os_parent = top_id stack,
      os_start_abs = tr_abs tr, os_start_event = tr_event tr, os_completeness = OpenEnd,
      os_call_site = tr_ip tr\<rparr>"
  shows "settled x key th (os # stack) (deliver x key cpu from tr st)"
    "out_spans (deliver x key cpu from tr st) = out_spans st"
    "rc_next_span (deliver x key cpu from tr st) = inc32 (rc_next_span st)"
  using assms(1,2)
  by (auto simp: deliver_def apply_flow_plain [where stack = stack and th = th] settled_call_site
      apply_kind_def push_open_def Let_def settled_def upd_thread_threads os_def top_id_def recon_frame
      split: list.splits)

lemma deliver_return:
  assumes "settled x key th (os # stack) st" "tr_kind tr = Return" "os_completeness os = OpenEnd"
  shows "settled x key th stack (deliver x key cpu from tr st)"
    "out_spans (deliver x key cpu from tr st) = out_spans st @
       [span_of_open th os (abs_time (tr_abs tr)) Complete (tr_event tr)]"
    "rc_next_span (deliver x key cpu from tr st) = rc_next_span st"
proof -
  let ?st = "st\<lparr>rc_cur_call_site := None\<rparr>"
  have s: "settled x key th (os # stack) ?st"
    using assms(1) by (simp add: settled_call_site)
  obtain t where t: "rc_threads ?st key = Some t" "ts_id t = th" "ts_stack t = os # stack"
    "ts_pending_end t = None" and sv: "saves x ?st"
    using s by (auto simp: settled_def)
  let ?p = "pop_span x key os stack (tr_abs tr) (tr_event tr) Complete ?st"
  have thr: "rc_threads ?p key = Some (t\<lparr>ts_stack := stack, ts_spans := Suc (ts_spans t)\<rparr>)"
    using t by (simp add: pop_span_threads upd_thread_threads)
  have p: "settled x key th stack ?p" "rc_next_span ?p = rc_next_span st"
    "out_spans ?p = out_spans st @ [span_of_open th os (abs_time (tr_abs tr)) Complete (tr_event tr)]"
    using t sv thr
    by (auto simp: settled_def pop_span_def close_span_def out_spans_emit recon_frame thread_of_def
        upd_thread_threads)
  have "ledger (deliver x key cpu from tr st) = ledger ?p"
    using assms(2,3) t
    by (auto simp: deliver_def apply_flow_plain [OF s] apply_kind_def apply_return_eq thread_of_def
        ledger_unwind_mismatch Let_def split: list.splits option.splits)
       (auto simp: ledger_def note_unwind_mismatch_def)
  then show "settled x key th stack (deliver x key cpu from tr st)"
    "out_spans (deliver x key cpu from tr st) = out_spans st @
       [span_of_open th os (abs_time (tr_abs tr)) Complete (tr_event tr)]"
    "rc_next_span (deliver x key cpu from tr st) = rc_next_span st"
    using p by (auto simp: settled_def saves_def out_spans_def ledger_def split: option.splits)
qed

lemma deliver_trees:
  "settled x key th stack st \<Longrightarrow> (ss, j) = tree_spans th (top_id stack) (rc_next_span st) tree \<Longrightarrow>
     settled x key th stack (fold (deliver x key cpu from) (tree_transfers tree) st) \<and>
     out_spans (fold (deliver x key cpu from) (tree_transfers tree) st) = out_spans st @ ss \<and>
     rc_next_span (fold (deliver x key cpu from) (tree_transfers tree) st) = j"
  "settled x key th stack st \<Longrightarrow> (ss, j) = forest_spans th (top_id stack) (rc_next_span st) trees \<Longrightarrow>
     settled x key th stack (fold (deliver x key cpu from) (forest_transfers trees) st) \<and>
     out_spans (fold (deliver x key cpu from) (forest_transfers trees) st) = out_spans st @ ss \<and>
     rc_next_span (fold (deliver x key cpu from) (forest_transfers trees) st) = j"
proof (induction tree and trees arbitrary: st stack ss j and st stack ss j
    rule: tree_transfers_forest_transfers.induct)
  case (1 f site a e calls ret b e2)
  let ?call = "\<lparr>tr_kind = Call, tr_ip = site, tr_to = \<lparr>r_loc = None, r_func = f, r_map = None\<rparr>,
      tr_abs = a, tr_event = e\<rparr>"
  let ?ret = "\<lparr>tr_kind = Return, tr_ip = None, tr_to = ret, tr_abs = b, tr_event = e2\<rparr>"
  define os where "os = \<lparr>os_id = rc_next_span st, os_function = f, os_parent = top_id stack,
      os_start_abs = a, os_start_event = e, os_completeness = OpenEnd, os_call_site = site\<rparr>"
  define st1 where "st1 = deliver x key cpu from ?call st"
  have c: "settled x key th (os # stack) st1" "out_spans st1 = out_spans st"
    "rc_next_span st1 = inc32 (rc_next_span st)"
    using deliver_call [OF 1(2), of ?call cpu "from"] by (simp_all add: st1_def os_def)
  obtain inner j' where inner: "forest_spans th (Some (rc_next_span st)) (inc32 (rc_next_span st)) calls
      = (inner, j')"
    by fastforce
  have "(inner, j') = forest_spans th (top_id (os # stack)) (rc_next_span st1) calls"
    using inner c(3) by (simp add: top_id_def os_def)
  from 1(1) [OF c(1) this]
  have st2: "settled x key th (os # stack) (fold (deliver x key cpu from) (forest_transfers calls) st1)"
    "out_spans (fold (deliver x key cpu from) (forest_transfers calls) st1) = out_spans st @ inner"
    "rc_next_span (fold (deliver x key cpu from) (forest_transfers calls) st1) = j'"
    using c(2) by simp_all
  show ?case
    using deliver_return [OF st2(1), of ?ret cpu "from"] st2 1(3) inner
    by (simp add: st1_def [symmetric] os_def span_of_open_def)
next
  case 2
  then show ?case by simp
next
  case (3 t ts)
  obtain s1 j1 s2 j2 where
    "(s1, j1) = tree_spans th (top_id stack) (rc_next_span st) t"
    "(s2, j2) = forest_spans th (top_id stack) j1 ts"
    by (metis surj_pair)
  moreover from this 3 have "settled x key th stack (fold (deliver x key cpu from) (tree_transfers t) st)"
    "rc_next_span (fold (deliver x key cpu from) (tree_transfers t) st) = j1"
    "out_spans (fold (deliver x key cpu from) (tree_transfers t) st) = out_spans st @ s1"
    by blast+
  ultimately show ?case
    using 3(2) [of stack "fold (deliver x key cpu from) (tree_transfers t) st" s2 j2] 3(4)
    by (simp split: prod.splits)
qed


text \<open>
  C3: Nested calls become the call tree. Whatever frames a thread has open, delivering the
  call and return transfers of a properly nested execution (any depth, any number of
  siblings) leaves its stack as it was and emits exactly the spans of the recursive
  evaluation: one complete span per invocation, its parent the invocation that called
  it, its interval and evidence from its own call and its own return.
\<close>

theorem nested_calls_refine:
  assumes "saves x st" "rc_threads st key = Some t" "ts_pending_end t = None"
  shows "let st' = fold (deliver x key cpu from) (forest_transfers calls) st;
             (spans, i) = forest_spans (ts_id t)
                            (map_option os_id (List.find (\<lambda>_. True) (ts_stack t))) (rc_next_span st) calls
         in out_spans st' = out_spans st @ spans \<and> rc_next_span st' = i \<and>
            map_option ts_stack (rc_threads st' key) = Some (ts_stack t)"
proof -
  have s: "settled x key (ts_id t) (ts_stack t) st"
    using assms by (simp add: settled_def)
  have "map_option os_id (List.find (\<lambda>_. True) (ts_stack t)) = top_id (ts_stack t)"
    by (cases "ts_stack t") (simp_all add: top_id_def)
  moreover obtain ss j where
    "(ss, j) = forest_spans (ts_id t) (top_id (ts_stack t)) (rc_next_span st) calls"
    by (metis surj_pair)
  ultimately show ?thesis
    using deliver_trees(2) [OF s, of ss j calls cpu "from"]
    by (auto simp: settled_def Let_def split: prod.splits)
qed

theorem nested_calls_refine_witness:
  "let st = ensure_thread 7 7 (recon_new ''an_1'' [] []);
       calls = [Invocation (Some 3) (Some 64) (Some 10) 0
                  [Invocation (Some 4) (Some 80) (Some 12) 1 [] resolved_none (Some 15) 2]
                  resolved_none (Some 20) 3]
   in map (\<lambda>s. (sp_id s, sp_parent s, sp_function s, sp_completeness s))
        (out_spans (fold (deliver \<lparr>x_insn_len = \<lambda>_. None, x_frames = \<lambda>_ _. None,
           x_write_event = \<lambda>_ _. Inr 0, x_write_span = \<lambda>_ _. Inr 0, x_fmt_ms = \<lambda>_. [], x_spill_io = \<lambda>_. Inr ()\<rparr>
           (7, 7) (Some 0) resolved_none) (forest_transfers calls) st))
      = [(1, Some 0, Some 4, Complete), (0, None, Some 3, Complete)]"
proof -
  let ?x = "\<lparr>x_insn_len = \<lambda>_. None, x_frames = \<lambda>_ _. None, x_write_event = \<lambda>_ _. Inr 0,
    x_write_span = \<lambda>_ _. Inr 0, x_fmt_ms = \<lambda>_. [], x_spill_io = \<lambda>_. Inr ()\<rparr>"
  let ?st = "ensure_thread 7 7 (recon_new ''an_1'' [] [])"
  let ?t = "the (rc_threads ?st (7, 7))"
  let ?calls = "[Invocation (Some 3) (Some 64) (Some 10) 0
                  [Invocation (Some 4) (Some 80) (Some 12) 1 [] resolved_none (Some 15) 2]
                  resolved_none (Some 20) 3]"
  have "saves ?x ?st" "rc_threads ?st (7, 7) = Some ?t" "ts_pending_end ?t = None" "ts_stack ?t = []"
    and out: "out_spans ?st = []" "rc_next_span ?st = 0"
    by (simp_all add: saves_def ensure_thread_def recon_new_def new_thread_state_def out_spans_def)
  from nested_calls_refine [OF this(1-3), of "Some 0" resolved_none ?calls] this(4)
  show ?thesis
    by (simp add: out inc32_def Let_def del: forest_transfers.simps tree_transfers.simps fold_simps)
qed

end
