(* ===== verification/Pt_Config.thy ===== *)
theory Pt_Config
  imports Event_Model
begin

text \<open>
  \<^verbatim>\<open>src/model/config.rs\<close>: the Intel PT capture configuration, its validation, the
  fitting of AUX ring sizes to the topology and the memory budget, the choice of PT
  packet periods and the rendered perf event. 64-bit overflow follows a release build:
  \<^verbatim>\<open>next_power_of_two\<close> above \<open>2 ^ 63\<close> is 0 and a shift amount is taken modulo 64.
\<close>

section \<open>Constants and types\<close>

definition default_aux_bytes :: u64 where "default_aux_bytes = 4 * 1024 * 1024"
definition default_direct_aux_bytes :: u64 where "default_direct_aux_bytes = 32 * 1024 * 1024"
definition default_max_total_aux :: u64 where "default_max_total_aux = 128 * 1024 * 1024"
definition max_auto_aux_bytes :: u64 where "max_auto_aux_bytes = 256 * 1024 * 1024"
definition default_max_capture_ms :: u64 where "default_max_capture_ms = 30000"
definition default_query_rows :: u32 where "default_query_rows = 50"
definition max_query_rows :: u32 where "max_query_rows = 200"
definition p99_min_samples :: nat where "p99_min_samples = 1000"

datatype timing_profile = LowBandwidth | Balanced | Detailed

fun timing_as_str :: "timing_profile \<Rightarrow> string" where
  "timing_as_str LowBandwidth = ''low_bandwidth''"
| "timing_as_str Balanced = ''balanced''"
| "timing_as_str Detailed = ''detailed''"

datatype address_filter_kind = FilterKind | Tracestop | StartKind | StopKind

fun filter_as_str :: "address_filter_kind \<Rightarrow> string" where
  "filter_as_str FilterKind = ''filter''"
| "filter_as_str Tracestop = ''tracestop''"
| "filter_as_str StartKind = ''start''"
| "filter_as_str StopKind = ''stop''"

definition needs_size :: "address_filter_kind \<Rightarrow> bool" where
  "needs_size k \<longleftrightarrow> k = FilterKind \<or> k = Tracestop"

record address_filter =
  af_kind :: address_filter_kind
  af_symbol :: string
  af_image :: "string option"

record intel_pt_config =
  timing :: timing_profile
  aux_bytes_per_buffer :: "u64 option"
  aux_bytes_auto :: bool
  max_total_aux_bytes :: u64
  max_capture_ms :: u64
  cpus :: "u32 list option"
  address_filters :: "address_filter list"

definition config_default :: intel_pt_config where
  "config_default =
     \<lparr>timing = Balanced, aux_bytes_per_buffer = None, aux_bytes_auto = False,
      max_total_aux_bytes = default_max_total_aux, max_capture_ms = default_max_capture_ms,
      cpus = None, address_filters = []\<rparr>"

record aux_topology =
  at_ncpus :: u64
  at_page_size :: u64
  at_meta_pages :: u64
  at_aux_bytes :: u64
  at_aux_total :: u64
  at_meta_total :: u64

section \<open>Limits\<close>

text \<open>
  The budgets of the service. \<open>env\<close> is the process environment; a value that does
  not parse leaves the default.
\<close>

record limits =
  max_active_captures :: u32
  max_decode_jobs :: u32
  max_pending_expensive :: u32
  startup_timeout_ms :: u64
  finalize_timeout_ms :: u64
  owned_term_grace_ms :: u64
  decode_timeout_ms :: u64
  raw_disk_budget :: u64
  image_budget :: u64
  derived_budget :: u64
  report_budget :: u64
  resident_decode_budget :: u64
  store_budget :: u64
  mcp_result_budget :: nat
  lim_query_rows :: u32
  lim_max_query_rows :: u32
  lim_meta_pages :: u64
  decode_parallelism :: u32
  native_decoder :: bool
  direct_recorder :: bool

definition env_number :: "(string \<Rightarrow> nat option) \<Rightarrow> (string \<Rightarrow> string option) \<Rightarrow> string \<Rightarrow> nat \<Rightarrow> nat" where
  "env_number parse env k d = (case Option.bind (env k) parse of None \<Rightarrow> d | Some v \<Rightarrow> v)"

definition limits_default :: "(string \<Rightarrow> string option) \<Rightarrow> limits" where
  "limits_default env =
     \<lparr>max_active_captures = 1, max_decode_jobs = 1, max_pending_expensive = 4,
      startup_timeout_ms = 5000, finalize_timeout_ms = 10000, owned_term_grace_ms = 2000,
      decode_timeout_ms = 600000, raw_disk_budget = 512 * 1024 * 1024,
      image_budget = 512 * 1024 * 1024, derived_budget = 1024 * 1024 * 1024,
      report_budget = 64 * 1024 * 1024, resident_decode_budget = 256 * 1024 * 1024,
      store_budget = env_number parse_u64 env ''TRACE_MCP_STORE_BUDGET'' (4 * 1024 * 1024 * 1024),
      mcp_result_budget = 32 * 1024, lim_query_rows = default_query_rows,
      lim_max_query_rows = max_query_rows, lim_meta_pages = 16,
      decode_parallelism = env_number parse_u32 env ''TRACE_MCP_DECODE_PARALLELISM'' 8,
      native_decoder = (env ''TRACE_MCP_DECODER'' \<noteq> Some ''perf''),
      direct_recorder = (env ''TRACE_MCP_RECORDER'' \<noteq> Some ''perf'')\<rparr>"

section \<open>Powers of two\<close>

fun ilog2 :: "nat \<Rightarrow> nat" where
  "ilog2 n = (if n < 2 then 0 else Suc (ilog2 (n div 2)))"

declare ilog2.simps [simp del]

definition next_power_of_two :: "u64 \<Rightarrow> u64" where
  "next_power_of_two n = (if n \<le> 1 then 1 else 2 ^ Suc (ilog2 (n - 1)) mod 2 ^ 64)"

text \<open>\<^verbatim>\<open>1 << (63 - n.leading_zeros())\<close>; the amount wraps to 63 for zero.\<close>

definition highest_bit :: "u64 \<Rightarrow> u64" where
  "highest_bit n = (if n = 0 then 2 ^ 63 else 2 ^ ilog2 n)"

section \<open>Validation and fitting\<close>

definition validate_aux_bytes :: "u64 \<Rightarrow> u64 \<Rightarrow> error + unit" where
  "validate_aux_bytes aux page_size =
     (if page_size = 0 \<or> \<not> is_power_of_two page_size
      then Inl (error_new UnsupportedPtConfig (''unusable page size '' @ show_dec page_size))
      else if aux = 0 \<or> aux mod page_size \<noteq> 0 \<or> \<not> is_power_of_two aux
      then Inl (with_next ''Choose 256KiB, 1MiB, or 4MiB''
             (error_new UnsupportedPtConfig (''aux_bytes_per_buffer '' @ show_dec aux
                @ '' must be a power of two multiple of page size '' @ show_dec page_size)))
      else Inr ())"

definition first_duplicate :: "u32 list \<Rightarrow> u32 option" where
  "first_duplicate cs =
     map_option (\<lambda>i. cs ! i) (List.find (\<lambda>i. cs ! i \<in> set (take i cs)) [0..<length cs])"

definition validate_cpus :: "u32 list option \<Rightarrow> error + unit" where
  "validate_cpus c =
     (case c of
        None \<Rightarrow> Inr ()
      | Some cs \<Rightarrow>
          if cs = [] then Inl (invalid_argument ''cpus must list at least one CPU'')
          else (case first_duplicate cs of
                  Some d \<Rightarrow> Inl (invalid_argument (''cpus lists CPU '' @ show_dec d @ '' twice''))
                | None \<Rightarrow> Inr ()))"

definition config_validate :: "u64 \<Rightarrow> intel_pt_config \<Rightarrow> error + unit" where
  "config_validate page_size cfg =
     (let aux = (case aux_bytes_per_buffer cfg of None \<Rightarrow> default_aux_bytes | Some v \<Rightarrow> v)
      in if max_capture_ms cfg = 0 then Inl (invalid_argument ''max_capture_ms must be > 0'')
         else try_bind (validate_aux_bytes aux page_size) (\<lambda>_.
              try_bind (validate_cpus (cpus cfg)) (\<lambda>_.
                if list_ex (\<lambda>f. trim_str (af_symbol f) = []) (address_filters cfg)
                then Inl (invalid_argument ''address filter symbol must not be empty'')
                else if max_total_aux_bytes cfg < aux
                then Inl (error_new UnsupportedPtConfig
                       ''max_total_aux_bytes is smaller than aux_bytes_per_buffer'')
                else Inr ())))"

definition suggested_aux :: "u64 \<Rightarrow> u64 \<Rightarrow> u64 \<Rightarrow> u64" where
  "suggested_aux ncpus max_total page_size =
     (if ncpus = 0 then page_size
      else (let per = max_total div ncpus;
                v = next_power_of_two per
            in max (if v > per then v div 2 else v) page_size))"

definition topology_compute :: "u64 \<Rightarrow> u64 \<Rightarrow> u64 \<Rightarrow> u64 \<Rightarrow> u64 \<Rightarrow> error + aux_topology" where
  "topology_compute ncpus page_size meta_pages aux max_total =
     (if ncpus = 0
      then Inl (error_new UnsupportedPtConfig ''cannot bound AUX topology: CPU count is unknown'')
      else try_bind (validate_aux_bytes aux page_size) (\<lambda>_.
        case checked_mul64 ncpus aux of
          None \<Rightarrow> Inl (error_new UnsupportedPtConfig ''AUX topology overflow'')
        | Some aux_total \<Rightarrow>
            if aux_total > max_total
            then Inl (with_next (''Lower aux_bytes_per_buffer; largest power-of-two that fits is ''
                        @ show_dec (suggested_aux ncpus max_total page_size))
                   (error_new UnsupportedPtConfig (''per-CPU AUX topology '' @ show_dec ncpus
                      @ '' x '' @ show_dec aux @ '' = '' @ show_dec aux_total
                      @ '' exceeds max_total_aux_bytes '' @ show_dec max_total)))
            else (case Option.bind (checked_mul64 ncpus meta_pages) (\<lambda>p. checked_mul64 p page_size) of
                    None \<Rightarrow> Inl (error_new UnsupportedPtConfig ''metadata topology overflow'')
                  | Some meta_total \<Rightarrow>
                      Inr \<lparr>at_ncpus = ncpus, at_page_size = page_size, at_meta_pages = meta_pages,
                           at_aux_bytes = aux, at_aux_total = aux_total,
                           at_meta_total = meta_total\<rparr>)))"

definition clamp :: "nat \<Rightarrow> nat \<Rightarrow> nat \<Rightarrow> nat" where
  "clamp v lo hi = (if v < lo then lo else if v > hi then hi else v)"

definition topology_cpus :: "u64 \<Rightarrow> intel_pt_config \<Rightarrow> error + u64" where
  "topology_cpus online cfg =
     (case cpus cfg of
        None \<Rightarrow> Inr online
      | Some cs \<Rightarrow>
          (case List.find (\<lambda>c. c \<ge> online) cs of
             Some bad \<Rightarrow> Inl (invalid_argument (''cpu '' @ show_dec bad @ '' is not online (''
                           @ show_dec online @ '' online CPUs)''))
           | None \<Rightarrow> Inr (length cs)))"

definition fit_aux_topology ::
    "u64 \<Rightarrow> u64 \<Rightarrow> u64 \<Rightarrow> intel_pt_config \<Rightarrow> error + (intel_pt_config \<times> aux_topology)" where
  "fit_aux_topology online page_size meta_pages cfg =
     try_bind (config_validate page_size cfg) (\<lambda>_.
     try_bind (topology_cpus online cfg) (\<lambda>ncpus.
       let explicit = aux_bytes_per_buffer cfg;
           budget = max_total_aux_bytes cfg;
           requested = (case (explicit, cpus cfg) of
                          (Some v, _) \<Rightarrow> v
                        | (None, Some _) \<Rightarrow>
                            clamp (suggested_aux ncpus budget page_size)
                              default_aux_bytes max_auto_aux_bytes
                        | (None, None) \<Rightarrow> default_aux_bytes)
       in try_bind
            (case topology_compute ncpus page_size meta_pages requested budget of
               Inr tp \<Rightarrow> Inr tp
             | Inl err \<Rightarrow>
                 if explicit = None
                 then (let suggest = suggested_aux ncpus budget page_size
                       in try_bind (validate_aux_bytes suggest page_size) (\<lambda>_.
                            topology_compute ncpus page_size meta_pages suggest budget))
                 else Inl err)
            (\<lambda>tp. Inr
               (cfg\<lparr>aux_bytes_auto := (aux_bytes_auto cfg \<or> explicit = None),
                    aux_bytes_per_buffer := Some (at_aux_bytes tp)\<rparr>, tp))))"

definition fit_aux_per_thread ::
    "u64 \<Rightarrow> u64 \<Rightarrow> intel_pt_config \<Rightarrow> error + (intel_pt_config \<times> aux_topology)" where
  "fit_aux_per_thread page_size meta_pages cfg =
     try_bind (config_validate page_size cfg) (\<lambda>_.
       let explicit = aux_bytes_per_buffer cfg;
           aux0 = min (case explicit of None \<Rightarrow> default_direct_aux_bytes | Some v \<Rightarrow> v)
                      (max_total_aux_bytes cfg);
           aux = (if is_power_of_two aux0 then aux0 else highest_bit aux0)
       in try_bind (validate_aux_bytes aux page_size) (\<lambda>_.
            Inr (cfg\<lparr>aux_bytes_auto := (aux_bytes_auto cfg \<or> explicit = None),
                     aux_bytes_per_buffer := Some aux\<rparr>,
                 \<lparr>at_ncpus = 1, at_page_size = page_size, at_meta_pages = meta_pages,
                  at_aux_bytes = aux, at_aux_total = aux,
                  at_meta_total = sat_mul64 meta_pages page_size\<rparr>)))"

section \<open>PT packet periods\<close>

record pt_capabilities =
  cap_mtc :: bool
  mtc_periods_mask :: u64
  psb_cyc :: bool
  psb_periods_mask :: u64
  cycle_thresholds_mask :: u64
  cap_ptwrite :: bool
  tnt_disable :: bool
  num_address_ranges :: u32
  cap_event_type :: u32

definition values_from_mask :: "u64 \<Rightarrow> nat list" where
  "values_from_mask m = filter (\<lambda>b. (m div 2 ^ b) mod 2 = 1) [0..<64]"

definition abs_diff :: "nat \<Rightarrow> nat \<Rightarrow> nat" where
  "abs_diff a b = (if a < b then b - a else a - b)"

text \<open>\<^verbatim>\<open>min_by_key\<close> keeps the first of equal keys.\<close>

fun min_by_key :: "('a \<Rightarrow> 'k::linorder) \<Rightarrow> 'a list \<Rightarrow> 'a option" where
  "min_by_key f [] = None"
| "min_by_key f (y # ys) =
     (case min_by_key f ys of None \<Rightarrow> Some y | Some z \<Rightarrow> if f z < f y then Some z else Some y)"

definition nearest :: "nat \<Rightarrow> nat list \<Rightarrow> nat option" where
  "nearest want supported = min_by_key (\<lambda>v. (abs_diff v want, v)) supported"

definition psb_spacing_bytes :: "nat \<Rightarrow> u64" where
  "psb_spacing_bytes period = 2 ^ ((period + 11) mod 64)"

definition choose_psb_period :: "pt_capabilities \<Rightarrow> u64 \<Rightarrow> error + nat" where
  "choose_psb_period caps aux =
     (if \<not> psb_cyc caps then Inr 0
      else (let supported = values_from_mask (psb_periods_mask caps)
            in if supported = [] then Inr 0
               else (let chosen = fold (\<lambda>p c. if psb_spacing_bytes p + 256 < aux div 2 then Some p else c)
                                    supported None;
                         fallback = (case min_by_key id supported of
                                       Some p \<Rightarrow> if psb_spacing_bytes p < aux then Some p else None
                                     | None \<Rightarrow> None)
                     in case opt_or chosen fallback of
                          Some p \<Rightarrow> Inr p
                        | None \<Rightarrow> Inl (with_next ''Increase aux_bytes_per_buffer''
                            (error_new UnsupportedPtConfig (''AUX '' @ show_dec aux
                               @ '' is too small for a supported PSB period''))))))"

record pt_terms =
  pt_profile :: timing_profile
  pt_tsc :: bool
  pt_mtc :: bool
  pt_mtc_period :: "nat option"
  pt_cyc :: bool
  pt_cyc_thresh :: "nat option"
  pt_noretcomp :: bool
  pt_psb_period :: nat
  pt_branch :: bool
  pt_event_spec :: string

definition render_event_spec :: "pt_terms \<Rightarrow> string" where
  "render_event_spec t =
     ''intel_pt/''
     @ join_str '',''
         ([''tsc=1'', ''branch=1'']
          @ (if pt_mtc t
             then ''mtc=1'' # (case pt_mtc_period t of None \<Rightarrow> [] | Some p \<Rightarrow> [''mtc_period='' @ show_dec p])
             else [''mtc=0''])
          @ (if pt_cyc t
             then ''cyc=1'' # (case pt_cyc_thresh t of None \<Rightarrow> [] | Some p \<Rightarrow> [''cyc_thresh='' @ show_dec p])
             else [''cyc=0''])
          @ [''noretcomp='' @ (if pt_noretcomp t then ''1'' else ''0'')]
          @ [''psb_period='' @ show_dec (pt_psb_period t)])
     @ ''/u''"

definition pt_unsupported :: "string \<Rightarrow> error" where
  "pt_unsupported r = error_new UnsupportedPtConfig r"

definition profile_terms :: "timing_profile \<Rightarrow> pt_capabilities \<Rightarrow> pt_terms \<Rightarrow> error + pt_terms" where
  "profile_terms profile caps t =
     (case profile of
        LowBandwidth \<Rightarrow> Inr (t\<lparr>pt_tsc := True, pt_mtc := False, pt_cyc := False, pt_noretcomp := False\<rparr>)
      | Balanced \<Rightarrow>
          if \<not> cap_mtc caps
          then Inl (with_next ''Use timing=low_bandwidth or a CPU with MTC''
                 (pt_unsupported ''balanced profile requires MTC support''))
          else (case nearest 3 (values_from_mask (mtc_periods_mask caps)) of
                  None \<Rightarrow> Inl (pt_unsupported ''no supported MTC periods'')
                | Some p \<Rightarrow> Inr (t\<lparr>pt_mtc := True, pt_mtc_period := Some p, pt_cyc := False,
                                  pt_noretcomp := False\<rparr>))
      | Detailed \<Rightarrow>
          if \<not> cap_mtc caps then Inl (pt_unsupported ''detailed profile requires MTC support'')
          else if \<not> psb_cyc caps
          then Inl (pt_unsupported ''detailed profile requires CYC support (psb_cyc)'')
          else (case min_by_key id (values_from_mask (mtc_periods_mask caps)) of
                  None \<Rightarrow> Inl (pt_unsupported ''no supported MTC periods'')
                | Some p \<Rightarrow>
                    (case nearest 1 (values_from_mask (cycle_thresholds_mask caps)) of
                       None \<Rightarrow> Inl (pt_unsupported ''no supported CYC thresholds'')
                     | Some c \<Rightarrow> Inr (t\<lparr>pt_mtc := True, pt_mtc_period := Some p, pt_cyc := True,
                                       pt_cyc_thresh := Some c, pt_noretcomp := True\<rparr>))))"

definition terms_resolve :: "timing_profile \<Rightarrow> pt_capabilities \<Rightarrow> u64 \<Rightarrow> error + pt_terms" where
  "terms_resolve profile caps aux =
     try_bind (profile_terms profile caps
       \<lparr>pt_profile = profile, pt_tsc = True, pt_mtc = False, pt_mtc_period = None, pt_cyc = False,
        pt_cyc_thresh = None, pt_noretcomp = False, pt_psb_period = 0, pt_branch = True,
        pt_event_spec = []\<rparr>) (\<lambda>t.
     try_bind (choose_psb_period caps aux) (\<lambda>p.
       let t' = t\<lparr>pt_psb_period := p\<rparr>
       in Inr (t'\<lparr>pt_event_spec := render_event_spec t'\<rparr>)))"


section \<open>Lemmas\<close>

lemma ilog2_bounds: "0 < n \<Longrightarrow> 2 ^ ilog2 n \<le> n \<and> n < 2 ^ Suc (ilog2 n)"
proof (induction n rule: ilog2.induct)
  case (1 n)
  show ?case
  proof (cases "n < 2")
    case True
    with 1(2) show ?thesis by (simp add: ilog2.simps)
  next
    case False
    then have "2 ^ ilog2 (n div 2) \<le> n div 2" "n div 2 < 2 ^ Suc (ilog2 (n div 2))"
      using 1(1) by auto
    then show ?thesis
      using False by (subst (1 2) ilog2.simps) auto
  qed
qed

lemma power_of_two_le:
  assumes "is_power_of_two v" "v \<le> n"
  shows "v \<le> 2 ^ ilog2 n"
proof -
  obtain k where k: "v = 2 ^ k"
    using assms(1) by (auto simp: is_power_of_two_def)
  then have "0 < n" using assms(2) by (cases n) auto
  then have "(2::nat) ^ k < 2 ^ Suc (ilog2 n)"
    using ilog2_bounds [of n] assms(2) k by linarith
  then have "k \<le> ilog2 n"
    by (simp add: power_strict_increasing_iff [of "2::nat"] del: power_Suc)
  then show ?thesis
    using k by simp
qed

lemma ilog2_lt: "0 < n \<Longrightarrow> n < 2 ^ m \<Longrightarrow> ilog2 n < m"
  using ilog2_bounds [of n] power_less_imp_less_exp [of "2::nat" "ilog2 n" m] by linarith

text \<open>The rounding in \<open>suggested_aux\<close>: the largest power of two not above \<open>n\<close>.\<close>

lemma round_down_power:
  assumes "0 < n" "n \<le> 2 ^ 63"
  shows "(if next_power_of_two n > n then next_power_of_two n div 2 else next_power_of_two n) = 2 ^ ilog2 n"
proof (cases "n = 1")
  case True
  then show ?thesis by (simp add: next_power_of_two_def ilog2.simps)
next
  case False
  define m where "m = ilog2 (n - 1)"
  have m: "2 ^ m \<le> n - 1" "n - 1 < 2 ^ Suc m"
    using ilog2_bounds [of "n - 1"] False assms(1) by (auto simp: m_def)
  have "m < 63"
    using ilog2_lt [of "n - 1" 63] False assms by (auto simp: m_def)
  then have nx: "next_power_of_two n = 2 ^ Suc m"
    using False assms(1) power_strict_increasing [of "Suc m" 64 "2::nat"]
    by (simp add: next_power_of_two_def m_def del: power_Suc One_nat_def)
  have lg: "ilog2 n = k" if "2 ^ k \<le> n" "n < 2 ^ Suc k" for k
  proof -
    have "(2::nat) ^ k < 2 ^ Suc (ilog2 n)" "(2::nat) ^ ilog2 n < 2 ^ Suc k"
      using ilog2_bounds [OF assms(1)] that by linarith+
    then have "k < Suc (ilog2 n)" "ilog2 n < Suc k"
      by (auto dest: power_less_imp_less_exp [rotated] simp del: power_Suc)
    then show ?thesis by simp
  qed
  show ?thesis
  proof (cases "n = 2 ^ Suc m")
    case True
    then show ?thesis using lg [of "Suc m"] nx by simp
  next
    case False
    then have "n < 2 ^ Suc m" using m by linarith
    moreover have "2 ^ m \<le> n" using m by linarith
    ultimately show ?thesis using lg [of m] nx by simp
  qed
qed

lemma power_is_power: "k < 64 \<Longrightarrow> is_power_of_two (2 ^ k)"
  by (auto simp: is_power_of_two_def)

lemma or_else_Inr:
  "(case r of Inl e \<Rightarrow> f e | Inr t \<Rightarrow> Inr t) = Inr y \<longleftrightarrow> r = Inr y \<or> (\<exists>e. r = Inl e \<and> f e = Inr y)"
  by (cases r) auto

lemma validate_aux_bytes_ok:
  "validate_aux_bytes aux page = Inr u \<longleftrightarrow>
     page \<noteq> 0 \<and> is_power_of_two page \<and> aux \<noteq> 0 \<and> page dvd aux \<and> is_power_of_two aux"
  by (auto simp: validate_aux_bytes_def dvd_eq_mod_eq_0)

lemma topology_compute_ok:
  assumes "topology_compute n page meta aux budget = Inr tp"
  shows "at_ncpus tp = n \<and> n \<noteq> 0 \<and> at_aux_bytes tp = aux \<and> at_aux_total tp = n * aux \<and>
    n * aux \<le> budget \<and> at_meta_total tp = n * meta * page \<and> n * meta * page \<le> u64_max \<and>
    page dvd aux \<and> is_power_of_two aux"
  using assms
  by (auto simp: topology_compute_def try_bind_Inr_iff validate_aux_bytes_ok checked_mul64_def
      bind_eq_Some_conv split: if_splits option.splits)

section \<open>Properties\<close>

text \<open>
  C10: Fitted ring sizes respect the budget. When the per-CPU fit succeeds, the ring size it
  stores is a power of two and a multiple of the page size, the rings of all recorded
  CPUs together stay within \<^verbatim>\<open>max_total_aux_bytes\<close>, the metadata total did not
  overflow, and a size given by the caller was honoured, not changed; an omitted one is
  flagged as chosen automatically.
\<close>

theorem fit_aux_topology_sound:
  assumes "fit_aux_topology online page meta cfg = Inr (cfg', tp)"
  shows "at_aux_total tp = at_ncpus tp * at_aux_bytes tp \<and>
         at_aux_total tp \<le> max_total_aux_bytes cfg \<and>
         at_meta_total tp = at_ncpus tp * meta * page \<and> at_meta_total tp \<le> u64_max \<and>
         is_power_of_two (at_aux_bytes tp) \<and> page dvd at_aux_bytes tp \<and>
         aux_bytes_per_buffer cfg' = Some (at_aux_bytes tp) \<and>
         (\<forall>v. aux_bytes_per_buffer cfg = Some v \<longrightarrow>
            at_aux_bytes tp = v \<and> aux_bytes_auto cfg' = aux_bytes_auto cfg) \<and>
         (aux_bytes_per_buffer cfg = None \<longrightarrow> aux_bytes_auto cfg')"
proof -
  let ?n = "at_ncpus tp"
  obtain n req where fit: "topology_compute n page meta req (max_total_aux_bytes cfg) = Inr tp"
    and req: "\<And>v. aux_bytes_per_buffer cfg = Some v \<Longrightarrow> req = v"
    and cfg': "cfg' = cfg\<lparr>aux_bytes_auto := (aux_bytes_auto cfg \<or> aux_bytes_per_buffer cfg = None),
                    aux_bytes_per_buffer := Some (at_aux_bytes tp)\<rparr>"
    using assms
    by (auto simp: fit_aux_topology_def Let_def try_bind_Inr_iff or_else_Inr split: if_splits option.splits)
  show ?thesis
    using topology_compute_ok [OF fit] req cfg' by auto
qed

lemma is_power_of_two_examples:
  "is_power_of_two 4096" "is_power_of_two 4194304" "is_power_of_two 1048576"
  using power_is_power [of 12] power_is_power [of 22] power_is_power [of 20] by simp_all

lemma ilog2_examples: "ilog2 1677720 = 20" "ilog2 33554432 = 25"
  by (simp_all add: ilog2.simps [of "numeral k" for k] ilog2.simps [of "Suc 0"])

lemma suggested_80: "suggested_aux 80 134217728 4096 = 1048576"
  by (simp add: suggested_aux_def next_power_of_two_def ilog2_examples Let_def)

theorem fit_aux_topology_sound_witness:
  "\<exists>cfg' tp. fit_aux_topology 80 4096 16 config_default = Inr (cfg', tp) \<and>
     at_aux_total tp \<le> max_total_aux_bytes config_default"
proof -
  have "\<exists>cfg' tp. fit_aux_topology 80 4096 16 config_default = Inr (cfg', tp)"
    by (simp add: fit_aux_topology_def config_default_def config_validate_def validate_cpus_def
        topology_cpus_def topology_compute_def validate_aux_bytes_def is_power_of_two_examples
        default_aux_bytes_def default_max_total_aux_def default_max_capture_ms_def
        checked_mul64_def u64_max_def suggested_80)
  then show ?thesis
    using fit_aux_topology_sound [of 80 4096 16 config_default] by blast
qed

text \<open>
  C12: The suggested size is optimal. For a budget of at least one page per CPU,
  \<open>suggested_aux\<close> is a power of two that fits the budget on all CPUs, and no larger power of
  two does.
\<close>

theorem suggested_aux_optimal:
  assumes "0 < n" "is_power_of_two page" "page \<le> budget div n" "budget div n \<le> 2 ^ 63"
  shows "is_power_of_two (suggested_aux n budget page) \<and> n * suggested_aux n budget page \<le> budget \<and>
         (\<forall>v. is_power_of_two v \<and> n * v \<le> budget \<longrightarrow> v \<le> suggested_aux n budget page)"
proof -
  let ?per = "budget div n"
  have "0 < page"
    using assms(2) by (auto simp: is_power_of_two_def)
  then have pos: "0 < ?per"
    using assms(3) by linarith
  have s: "suggested_aux n budget page = 2 ^ ilog2 ?per"
    using assms(1) round_down_power [OF pos assms(4)] power_of_two_le [OF assms(2,3)]
    by (simp add: suggested_aux_def Let_def max_def)
  have "n * 2 ^ ilog2 ?per \<le> n * ?per"
    using ilog2_bounds [OF pos] by simp
  also have "\<dots> \<le> budget"
    by simp
  finally have fits: "n * 2 ^ ilog2 ?per \<le> budget" .
  have "ilog2 ?per < 64"
    using ilog2_lt [OF pos, of 64] assms(4) by simp
  moreover have "v \<le> 2 ^ ilog2 ?per" if "is_power_of_two v" "n * v \<le> budget" for v
  proof -
    have "v \<le> ?per"
      using that(2) assms(1) by (simp add: less_eq_div_iff_mult_less_eq mult.commute)
    then show ?thesis
      using that(1) by (rule power_of_two_le [rotated])
  qed
  ultimately show ?thesis
    using fits by (simp add: s power_is_power)
qed

theorem suggested_aux_optimal_witness:
  "is_power_of_two (suggested_aux 80 (128 * 1024 * 1024) 4096)"
  using suggested_aux_optimal [of 80 4096 "128 * 1024 * 1024"] power_is_power [of 12] by simp


lemma config_validate_ok:
  assumes "config_validate page cfg = Inr u"
  shows "(case aux_bytes_per_buffer cfg of None \<Rightarrow> default_aux_bytes | Some v \<Rightarrow> v) \<le> max_total_aux_bytes cfg"
    and "validate_aux_bytes (case aux_bytes_per_buffer cfg of None \<Rightarrow> default_aux_bytes | Some v \<Rightarrow> v) page = Inr ()"
  using assms by (auto simp: config_validate_def Let_def try_bind_Inr_iff split: if_splits)

text \<open>
  Per-thread fitting. The direct recorder's ring is a power of two multiple of the
  page size within the budget; a caller's size is taken as it is, and an omitted one is
  the largest power of two not above 32 MiB and the budget. The fit fails only where
  validation does.
\<close>

theorem fit_aux_per_thread_correct:
  assumes "config_validate page cfg = Inr ()" "max_total_aux_bytes cfg \<le> u64_max"
  shows "\<exists>cfg' tp. fit_aux_per_thread page meta cfg = Inr (cfg', tp) \<and>
     aux_bytes_per_buffer cfg' = Some (at_aux_bytes tp) \<and>
     is_power_of_two (at_aux_bytes tp) \<and> page dvd at_aux_bytes tp \<and>
     at_aux_bytes tp \<le> max_total_aux_bytes cfg \<and>
     (\<forall>v. aux_bytes_per_buffer cfg = Some v \<longrightarrow> at_aux_bytes tp = v) \<and>
     (aux_bytes_per_buffer cfg = None \<longrightarrow> aux_bytes_auto cfg' \<and>
        at_aux_bytes tp = 2 ^ ilog2 (min default_direct_aux_bytes (max_total_aux_bytes cfg)))"
proof -
  let ?aux = "case aux_bytes_per_buffer cfg of None \<Rightarrow> default_aux_bytes | Some v \<Rightarrow> v"
  have v: "page \<noteq> 0" "is_power_of_two page" "page dvd ?aux" "is_power_of_two ?aux" "?aux \<le> max_total_aux_bytes cfg"
    using config_validate_ok [OF assms(1)] by (simp_all add: validate_aux_bytes_ok)
  have pow: "2 ^ ilog2 n = n" if n: "is_power_of_two n" for n
    using power_of_two_le [OF n order_refl] ilog2_bounds [of n] n by (auto simp: is_power_of_two_def)
  show ?thesis
  proof (cases "aux_bytes_per_buffer cfg")
    case (Some a)
    then have "validate_aux_bytes a page = Inr ()" "min a (max_total_aux_bytes cfg) = a"
      using v by (auto simp: validate_aux_bytes_ok is_power_of_two_def)
    with Some v show ?thesis
      by (simp add: fit_aux_per_thread_def assms(1))
  next
    case None
    define n where "n = min default_direct_aux_bytes (max_total_aux_bytes cfg)"
    have n: "0 < n" "default_aux_bytes \<le> n" "n \<le> max_total_aux_bytes cfg" "n < 2 ^ 64"
      using v(5) None assms(2) by (auto simp: n_def default_direct_aux_bytes_def default_aux_bytes_def u64_max_def)
    have aux: "(if is_power_of_two n then n else highest_bit n) = 2 ^ ilog2 n"
      using pow n(1) by (simp add: highest_bit_def)
    have p2: "is_power_of_two (2 ^ ilog2 n)"
      by (rule power_is_power) (rule ilog2_lt [OF n(1,4)])
    obtain i where i: "page = 2 ^ i"
      using v(2) by (auto simp: is_power_of_two_def)
    have "page \<le> default_aux_bytes"
      using v(3) None by (simp add: dvd_imp_le default_aux_bytes_def)
    then have "page \<le> 2 ^ ilog2 n"
      using power_of_two_le [OF v(2)] n(2) by simp
    then have "page dvd 2 ^ ilog2 n"
      using i by (simp add: le_imp_power_dvd)
    then have "validate_aux_bytes (2 ^ ilog2 n) page = Inr ()"
      using v p2 by (simp add: validate_aux_bytes_ok)
    moreover have "2 ^ ilog2 n \<le> max_total_aux_bytes cfg"
      using ilog2_bounds [OF n(1)] n(3) by linarith
    ultimately show ?thesis
      using p2 \<open>page dvd 2 ^ ilog2 n\<close>
      unfolding fit_aux_per_thread_def assms(1) None Let_def option.case n_def [symmetric] aux
      by simp
  qed
qed

theorem fit_aux_per_thread_correct_witness:
  "\<exists>cfg' tp. fit_aux_per_thread 4096 16 config_default = Inr (cfg', tp) \<and>
     at_aux_bytes tp = 32 * 1024 * 1024"
proof -
  have v: "config_validate 4096 config_default = Inr ()"
    by (simp add: config_default_def config_validate_def validate_cpus_def validate_aux_bytes_def
        is_power_of_two_examples default_aux_bytes_def default_max_total_aux_def
        default_max_capture_ms_def)
  have "(2::nat) ^ ilog2 (min default_direct_aux_bytes (max_total_aux_bytes config_default)) = 33554432"
    by (simp add: config_default_def default_direct_aux_bytes_def default_max_total_aux_def ilog2_examples)
  moreover have "aux_bytes_per_buffer config_default = None" "max_total_aux_bytes config_default \<le> u64_max"
    by (simp_all add: config_default_def default_max_total_aux_def u64_max_def)
  ultimately show ?thesis
    using fit_aux_per_thread_correct [OF v, of 16] by auto
qed

text \<open>
  A small budget is refused. With the ring size omitted, any total budget below 4 MiB
  makes both fits fail with \<^verbatim>\<open>UNSUPPORTED_PT_CONFIG\<close>: validation compares the budget with the
  default before the fit could shrink the ring, unlike the documentation of the field.
\<close>

theorem small_budget_refused:
  assumes "config_validate page (cfg\<lparr>max_total_aux_bytes := default_aux_bytes\<rparr>) = Inr ()"
    and "aux_bytes_per_buffer cfg = None" "max_total_aux_bytes cfg < default_aux_bytes"
  shows "(\<exists>e. fit_aux_topology online page meta cfg = Inl e \<and> err_code e = UnsupportedPtConfig) \<and>
         (\<exists>e. fit_aux_per_thread page meta cfg = Inl e \<and> err_code e = UnsupportedPtConfig)"
proof -
  have "\<exists>e. config_validate page cfg = Inl e \<and> err_code e = UnsupportedPtConfig"
    using assms by (auto simp: config_validate_def Let_def try_bind_Inr_iff error_new_def split: if_splits)
  then show ?thesis
    by (auto simp: fit_aux_topology_def fit_aux_per_thread_def)
qed

theorem small_budget_refused_witness:
  "\<exists>e. fit_aux_per_thread 4096 16 (config_default\<lparr>max_total_aux_bytes := 2 * 1024 * 1024\<rparr>) = Inl e
     \<and> err_code e = UnsupportedPtConfig"
proof -
  have "config_validate 4096 (config_default\<lparr>max_total_aux_bytes := 2 * 1024 * 1024,
      max_total_aux_bytes := default_aux_bytes\<rparr>) = Inr ()"
    by (simp add: config_default_def config_validate_def validate_cpus_def validate_aux_bytes_def
        is_power_of_two_examples default_aux_bytes_def default_max_capture_ms_def)
  from small_budget_refused [OF this, of 80 16] show ?thesis
    by (simp add: config_default_def default_aux_bytes_def)
qed

lemma values_from_mask_set:
  "b \<in> set (values_from_mask m) \<longleftrightarrow> b < 64 \<and> odd (m div 2 ^ b)"
  by (auto simp: values_from_mask_def odd_iff_mod_2_eq_one)

lemma sorted_values_from_mask: "sorted_wrt (<) (values_from_mask m)"
  unfolding values_from_mask_def by (intro sorted_wrt_filter) (simp add: sorted_wrt_upt)

lemma fold_last_chosen:
  assumes "sorted_wrt (<) xs"
  shows "fold (\<lambda>p c. if P p then Some p else c) xs c0 =
    (if \<exists>p\<in>set xs. P p then Some (Max {p \<in> set xs. P p}) else c0)"
  using assms
proof (induction xs arbitrary: c0 rule: rev_induct)
  case (snoc y ys)
  then have IH: "fold (\<lambda>p c. if P p then Some p else c) ys c0 =
      (if \<exists>p\<in>set ys. P p then Some (Max {p \<in> set ys. P p}) else c0)" and lt: "\<forall>z\<in>set ys. z < y"
    by (auto simp: sorted_wrt_append)
  have "Max {p \<in> set (ys @ [y]). P p} = y" if "P y"
    using that lt by (intro Max_eqI) auto
  moreover have "{p \<in> set (ys @ [y]). P p} = {p \<in> set ys. P p}" if "\<not> P y"
    using that by auto
  ultimately show ?case
    using IH by auto
qed simp

lemma min_by_key_None: "min_by_key f xs = None \<longleftrightarrow> xs = []"
  by (cases xs) (auto split: option.splits)

lemma min_by_key_props:
  assumes "min_by_key f xs = Some v"
  shows "v \<in> set xs \<and> (\<forall>u\<in>set xs. f v \<le> f u)"
  using assms
proof (induction xs arbitrary: v)
  case (Cons y ys)
  show ?case
  proof (cases "min_by_key f ys")
    case None
    then show ?thesis
      using Cons.prems by (simp add: min_by_key_None)
  next
    case (Some z)
    with Cons.IH have z: "z \<in> set ys" "\<forall>u\<in>set ys. f z \<le> f u"
      by auto
    show ?thesis
    proof (cases "f z < f y")
      case True
      then show ?thesis using Cons.prems Some z by auto
    next
      case False
      then show ?thesis using Cons.prems Some z by (auto intro: order_trans)
    qed
  qed
qed simp

text \<open>Hardware that lists the periods 3 and 5.\<close>

definition psb_demo :: pt_capabilities where
  "psb_demo = \<lparr>cap_mtc = True, mtc_periods_mask = 0, psb_cyc = True, psb_periods_mask = 40,
     cycle_thresholds_mask = 0, cap_ptwrite = False, tnt_disable = False, num_address_ranges = 2,
     cap_event_type = 0\<rparr>"

text \<open>
  C11: The PSB period. Where the hardware lets periods be set and lists some, the chosen period is one it lists
  and its packet spacing is below the ring size, so that a decodable ring holds a synchronisation point; it is
  the largest period that is comfortably small for half the ring, or the smallest listed one when none is. The
  choice fails only when even that one is not below the ring size. Where periods cannot be set, or none is
  listed, it is 0.
\<close>

theorem psb_period_fits:
  fixes caps :: pt_capabilities and aux :: u64
  defines "listed \<equiv> set (values_from_mask (psb_periods_mask caps))"
    and "good \<equiv> {q \<in> set (values_from_mask (psb_periods_mask caps)). psb_spacing_bytes q + 256 < aux div 2}"
  shows "case choose_psb_period caps aux of
      Inl e \<Rightarrow> psb_cyc caps \<and> listed \<noteq> {} \<and> good = {} \<and> aux \<le> psb_spacing_bytes (Min listed)
    | Inr p \<Rightarrow>
        if psb_cyc caps \<and> listed \<noteq> {}
        then p < 64 \<and> odd (psb_periods_mask caps div 2 ^ p) \<and> psb_spacing_bytes p < aux \<and>
          p = (if good \<noteq> {} then Max good else Min listed)
        else p = 0"
proof (cases "psb_cyc caps \<and> listed \<noteq> {}")
  case False
  then show ?thesis
    by (auto simp: choose_psb_period_def listed_def)
next
  case set: True
  let ?vs = "values_from_mask (psb_periods_mask caps)"
  have fin: "finite good" by (simp add: good_def)
  have f: "fold (\<lambda>p c. if psb_spacing_bytes p + 256 < aux div 2 then Some p else c) ?vs None
      = (if good \<noteq> {} then Some (Max good) else None)"
    using fold_last_chosen [OF sorted_values_from_mask, of "\<lambda>p. psb_spacing_bytes p + 256 < aux div 2"]
    by (auto simp: good_def)
  have ne: "?vs \<noteq> []"
    using set by (simp add: listed_def)
  obtain m where m: "min_by_key id ?vs = Some m"
    using ne min_by_key_None [of id ?vs] by blast
  then have "m \<in> listed" "\<forall>u\<in>listed. m \<le> u"
    using min_by_key_props [of id ?vs m] by (auto simp: listed_def)
  then have least: "m = Min listed" "m \<in> set ?vs"
    by (auto simp: listed_def intro!: Min_eqI [symmetric])
  have choice: "choose_psb_period caps aux = (case (if good \<noteq> {} then Some (Max good)
        else if psb_spacing_bytes m < aux then Some m else None) of
      Some p \<Rightarrow> Inr p
    | None \<Rightarrow> Inl (with_next ''Increase aux_bytes_per_buffer'' (error_new UnsupportedPtConfig (''AUX '' @ show_dec aux
        @ '' is too small for a supported PSB period''))))"
    using set ne f m by (simp add: choose_psb_period_def Let_def opt_or_def split: option.split)
  show ?thesis
  proof (cases "good = {}")
    case False
    have "Max good \<in> good"
      using fin False by (rule Max_in)
    then have "Max good \<in> set ?vs" "psb_spacing_bytes (Max good) + 256 < aux div 2"
      unfolding good_def by blast+
    then show ?thesis
      using set choice False by (auto simp: values_from_mask_set)
  next
    case True
    then show ?thesis
      using set choice least by (auto simp: values_from_mask_set split: option.split)
  qed
qed

theorem psb_period_fits_witness:
  "choose_psb_period psb_demo 4194304 = Inr 5 \<and> psb_spacing_bytes 5 < 4194304 \<and> odd (psb_periods_mask psb_demo div 2 ^ 5) \<and>
   (\<exists>e. choose_psb_period psb_demo 4096 = Inl e) \<and> 4096 \<le> psb_spacing_bytes 3 \<and>
   choose_psb_period (psb_demo\<lparr>psb_cyc := False\<rparr>) 4096 = Inr 0"
proof -
  have v: "values_from_mask (psb_periods_mask psb_demo) = [3, 5]"
    by (simp add: values_from_mask_def psb_demo_def upt_conv_Cons)
  have e: "choose_psb_period psb_demo 4194304 = Inr 5" "\<exists>e. choose_psb_period psb_demo 4096 = Inl e"
    "choose_psb_period (psb_demo\<lparr>psb_cyc := False\<rparr>) 4096 = Inr 0"
    using v by (simp_all add: choose_psb_period_def psb_spacing_bytes_def opt_or_def psb_demo_def)
  have "Min {3, 5 :: nat} = 3" "psb_cyc psb_demo"
    by (simp_all add: psb_demo_def)
  then show ?thesis
    using psb_period_fits [of psb_demo 4194304] psb_period_fits [of psb_demo 4096] e
    by (auto simp: v split: if_splits)
qed

lemma nearest_props:
  assumes "nearest w xs = Some v"
  shows "v \<in> set xs \<and> (\<forall>u\<in>set xs. abs_diff v w \<le> abs_diff u w)"
  using min_by_key_props [OF assms [unfolded nearest_def]] by (auto simp: less_eq_prod_def)

lemma render_event_spec_update [simp]:
  "render_event_spec (t\<lparr>pt_event_spec := e\<rparr>) = render_event_spec t"
  by (simp add: render_event_spec_def)

lemma profile_terms_ok:
  assumes "profile_terms profile caps t = Inr t'"
  shows "(pt_mtc t' \<longleftrightarrow> profile \<noteq> LowBandwidth) \<and> (pt_cyc t' \<longleftrightarrow> profile = Detailed) \<and>
    pt_mtc_period t' = (case profile of LowBandwidth \<Rightarrow> pt_mtc_period t
       | Balanced \<Rightarrow> nearest 3 (values_from_mask (mtc_periods_mask caps))
       | Detailed \<Rightarrow> min_by_key id (values_from_mask (mtc_periods_mask caps))) \<and>
    pt_cyc_thresh t' = (if profile = Detailed then nearest 1 (values_from_mask (cycle_thresholds_mask caps))
       else pt_cyc_thresh t)"
  using assms
  by (cases profile) (auto simp: profile_terms_def split: if_splits option.splits)

text \<open>
  C12: Resolved PT terms. A resolved profile requests MTC and CYC packets only as the
  hardware supports them: the MTC period is a supported one (the smallest for the
  detailed profile, one nearest to 3 for the balanced profile), the CYC threshold is
  supported, and the event string is the rendering of the terms.
\<close>

theorem terms_resolve_supported:
  assumes "terms_resolve profile caps aux = Inr t"
  shows "pt_event_spec t = render_event_spec t \<and>
         (pt_mtc t \<longleftrightarrow> profile \<noteq> LowBandwidth) \<and> (pt_cyc t \<longleftrightarrow> profile = Detailed) \<and>
         (\<forall>p. pt_mtc_period t = Some p \<longrightarrow> p < 64 \<and> odd (mtc_periods_mask caps div 2 ^ p) \<and>
            (\<forall>q\<in>set (values_from_mask (mtc_periods_mask caps)).
               if profile = Detailed then p \<le> q else abs_diff p 3 \<le> abs_diff q 3)) \<and>
         (\<forall>c. pt_cyc_thresh t = Some c \<longrightarrow> c < 64 \<and> odd (cycle_thresholds_mask caps div 2 ^ c)) \<and>
         choose_psb_period caps aux = Inr (pt_psb_period t)"
proof -
  obtain t0 p where pr: "profile_terms profile caps
       \<lparr>pt_profile = profile, pt_tsc = True, pt_mtc = False, pt_mtc_period = None, pt_cyc = False,
        pt_cyc_thresh = None, pt_noretcomp = False, pt_psb_period = 0, pt_branch = True,
        pt_event_spec = []\<rparr> = Inr t0"
    and psb: "choose_psb_period caps aux = Inr p"
    and t: "t = t0\<lparr>pt_psb_period := p, pt_event_spec := render_event_spec (t0\<lparr>pt_psb_period := p\<rparr>)\<rparr>"
    using assms by (auto simp: terms_resolve_def try_bind_Inr_iff Let_def)
  have m: "pt_mtc_period t0 = (case profile of LowBandwidth \<Rightarrow> None
       | Balanced \<Rightarrow> nearest 3 (values_from_mask (mtc_periods_mask caps))
       | Detailed \<Rightarrow> min_by_key id (values_from_mask (mtc_periods_mask caps)))"
    and c: "pt_cyc_thresh t0 = (if profile = Detailed then nearest 1 (values_from_mask (cycle_thresholds_mask caps)) else None)"
    and f: "pt_mtc t0 \<longleftrightarrow> profile \<noteq> LowBandwidth" "pt_cyc t0 \<longleftrightarrow> profile = Detailed"
    using profile_terms_ok [OF pr] by (cases profile; auto)+
  have "pt_mtc_period t0 = Some q \<longrightarrow> q < 64 \<and> odd (mtc_periods_mask caps div 2 ^ q) \<and>
      (\<forall>r\<in>set (values_from_mask (mtc_periods_mask caps)).
         if profile = Detailed then q \<le> r else abs_diff q 3 \<le> abs_diff r 3)" for q
    using nearest_props [of 3 _ q] min_by_key_props [of id _ q]
    by (cases profile) (auto simp: m values_from_mask_set [symmetric])
  moreover have "pt_cyc_thresh t0 = Some q \<longrightarrow> q < 64 \<and> odd (cycle_thresholds_mask caps div 2 ^ q)" for q
    using nearest_props [of "Suc 0" _ q] by (auto simp: c values_from_mask_set [symmetric])
  ultimately show ?thesis
    using psb f by (simp add: t)
qed

theorem terms_resolve_supported_witness:
  "\<exists>t. terms_resolve Balanced \<lparr>cap_mtc = True, mtc_periods_mask = 8, psb_cyc = True, psb_periods_mask = 8,
      cycle_thresholds_mask = 0, cap_ptwrite = False, tnt_disable = False, num_address_ranges = 2,
      cap_event_type = 0\<rparr> 4194304 = Inr t \<and>
    pt_event_spec t = ''intel_pt/tsc=1,branch=1,mtc=1,mtc_period=3,cyc=0,noretcomp=0,psb_period=3/u''"
proof -
  let ?caps = "\<lparr>cap_mtc = True, mtc_periods_mask = 8, psb_cyc = True, psb_periods_mask = 8,
      cycle_thresholds_mask = 0, cap_ptwrite = False, tnt_disable = False, num_address_ranges = 2,
      cap_event_type = 0\<rparr>"
  have v: "values_from_mask 8 = [3]"
    by (simp add: values_from_mask_def upt_conv_Cons)
  have s: "show_dec 3 = ''3''"
    by code_simp
  let ?t = "\<lparr>pt_profile = Balanced, pt_tsc = True, pt_mtc = True, pt_mtc_period = Some 3, pt_cyc = False,
        pt_cyc_thresh = None, pt_noretcomp = False, pt_psb_period = 3, pt_branch = True,
        pt_event_spec = ''intel_pt/tsc=1,branch=1,mtc=1,mtc_period=3,cyc=0,noretcomp=0,psb_period=3/u''\<rparr>"
  have r: "render_event_spec ?t = pt_event_spec ?t"
    by (simp add: render_event_spec_def s)
  have t: "terms_resolve Balanced ?caps 4194304 = Inr (?t\<lparr>pt_event_spec := render_event_spec ?t\<rparr>)"
    by (simp add: terms_resolve_def profile_terms_def choose_psb_period_def v nearest_def
        psb_spacing_bytes_def opt_or_def render_event_spec_def)
  show ?thesis
    using terms_resolve_supported [OF t] t r by simp
qed

end
