(* ===== verification/Trace_Model.thy ===== *)
theory Trace_Model
  imports Event_Model Pt_Config
begin

text \<open>
  \<^verbatim>\<open>src/model/trace.rs\<close>: the manifests of snapshots and analyses, job records, targets and
  triggers. An environment map is an association list in key order.
\<close>

datatype session_phase = Starting | Armed | Finalizing | Captured | FailedPhase | CancelledPhase

datatype capture_reason = SnapshotReason | AfterMs | TargetExit | TimeLimit | Stop | TriggerReason

datatype trigger = SymbolTrigger string u32 | FifoTrigger

datatype job_phase = Queued | Running | Succeeded | JobFailed | JobCancelled

datatype job_kind = InitialDecode | InstructionDecode | CompareJob

datatype target =
    Launch (launch_argv: "string list") (launch_cwd: "string option") (launch_env: "(string \<times> string) list")
  | Attach (attach_pid: u32)

definition target_validate :: "target \<Rightarrow> error + unit" where
  "target_validate t =
     (case t of
        Launch argv _ _ \<Rightarrow>
          if argv = [] \<or> argv ! 0 = [] then Inl (invalid_argument ''launch argv must be non-empty'') else Inr ()
      | Attach pid \<Rightarrow>
          if pid = 0 then Inl (invalid_argument ''attach pid must be > 0'') else Inr ())"

definition owns_workload :: "target \<Rightarrow> bool" where
  "owns_workload t = (case t of Launch _ _ _ \<Rightarrow> True | Attach _ \<Rightarrow> False)"

record workload_meta =
  wm_label :: "string option"
  wm_input_fingerprint :: "string option"

datatype capture_scope = TaskScope | CpuWide "u32 list"

record observed_thread =
  ot_thread_id :: thread_id
  ot_pid :: u32
  ot_tid :: u32
  ot_comm :: "string option"

record snapshot_manifest =
  sm_schema_version :: u32
  sm_snapshot_id :: string
  sm_session_id :: string
  sm_capture_reason :: capture_reason
  sm_lifecycle :: session_phase
  sm_requested_config :: intel_pt_config
  sm_effective_event :: string
  sm_cpu_vendor :: string
  sm_cpu_model :: string
  sm_cpu_family :: string
  sm_cpu_stepping :: string
  sm_kernel :: string
  sm_perf_version :: string
  sm_perf_argv :: "string list"
  sm_capture_clock :: "string option"
  sm_raw_bytes :: count
  sm_target :: target
  sm_scope :: capture_scope
  sm_trigger :: "trigger option"
  sm_trigger_address :: "address option"
  sm_address_filters :: "string list"
  sm_workload :: "workload_meta option"
  sm_observed_threads :: "observed_thread list"
  sm_images :: "image_identity list"
  sm_missing_images :: "string list"
  sm_redecode_ready :: bool
  sm_diagnostics :: "string list"
  sm_target_exit_status :: "int option"
  sm_recorder_exit_status :: "int option"
  sm_recorder :: "string option"
  sm_wrapped_rings :: "count option"
  sm_root_pid :: "u32 option"

record analysis_manifest =
  am_schema_version :: u32
  am_ir_version :: u32
  am_analysis_id :: analysis_id
  am_snapshot_id :: string
  am_detail :: detail_level
  am_decoder_version :: string
  am_decoder_argv :: "string list"
  am_dialect :: string
  am_cache_key :: string
  am_origin :: clock_origin
  am_selection :: "selection option"
  am_quality :: quality_report
  am_function_count :: count
  am_span_count :: count
  am_event_count :: count
  am_covered_start_ns :: "u64 option"
  am_covered_end_ns :: "u64 option"
  am_thread_count :: count
  am_sample_count :: count
  am_script_lines :: count
  am_script_bytes :: count
  am_decode_wall_ms :: u64
  am_trigger_hit_ns :: "u64 option"
  am_decode_mode :: string
  am_decode_streams :: u32

record job_record =
  jr_job_id :: string
  jr_kind :: job_kind
  jr_phase :: job_phase
  jr_snapshot_id :: "string option"
  jr_analysis_id :: "string option"
  jr_report_id :: "string option"
  jr_error :: "string option"

datatype raw_capture_state = RawComplete | RawPartial

datatype derived_state = DerivedPending | DerivedReady | DerivedFailed

end
