(* ===== verification/Row_Sorting.thy ===== *)
theory Row_Sorting
  imports Main "HOL-Library.Multiset" "HOL-Library.Option_ord" "HOL-Library.Char_ord" "HOL-Library.List_Lexorder"
begin

text \<open>
  Comparators as the sources write them (\<^verbatim>\<open>a.key.cmp(&b.key).then(...)\<close>) and the stable
  \<^verbatim>\<open>sort_by\<close>. The locale \<open>comparator\<close> states the laws of a consistent comparator; sorting
  lemmas are proved once in it and interpreted for each comparator of the program.
\<close>

datatype ordering = Less | Equal | Greater

definition cmp_key :: "('a \<Rightarrow> 'k::linorder) \<Rightarrow> 'a \<Rightarrow> 'a \<Rightarrow> ordering" where
  "cmp_key f a b = (if f a < f b then Less else if f a = f b then Equal else Greater)"

text \<open>\<^verbatim>\<open>b.key.cmp(&a.key)\<close>\<close>

definition cmp_desc :: "('a \<Rightarrow> 'k::linorder) \<Rightarrow> 'a \<Rightarrow> 'a \<Rightarrow> ordering" where
  "cmp_desc f a b = cmp_key f b a"

definition cmp_then :: "('a \<Rightarrow> 'a \<Rightarrow> ordering) \<Rightarrow> ('a \<Rightarrow> 'a \<Rightarrow> ordering) \<Rightarrow> 'a \<Rightarrow> 'a \<Rightarrow> ordering" where
  "cmp_then c d a b = (case c a b of Equal \<Rightarrow> d a b | r \<Rightarrow> r)"

fun insert_by :: "('a \<Rightarrow> 'a \<Rightarrow> ordering) \<Rightarrow> 'a \<Rightarrow> 'a list \<Rightarrow> 'a list" where
  "insert_by cmp x [] = [x]"
| "insert_by cmp x (y # ys) = (if cmp x y = Greater then y # insert_by cmp x ys else x # y # ys)"

definition sort_by :: "('a \<Rightarrow> 'a \<Rightarrow> ordering) \<Rightarrow> 'a list \<Rightarrow> 'a list" where
  "sort_by cmp xs = foldr (insert_by cmp) xs []"

lemma mset_insert_by [simp]: "mset (insert_by cmp x xs) = add_mset x (mset xs)"
  by (induction xs) auto

lemma mset_sort_by [simp]: "mset (sort_by cmp xs) = mset xs"
  by (induction xs) (auto simp: sort_by_def)

lemma set_sort_by [simp]: "set (sort_by cmp xs) = set xs"
  by (metis mset_sort_by set_mset_mset)

lemma length_sort_by [simp]: "length (sort_by cmp xs) = length xs"
  by (metis mset_sort_by size_mset)

section \<open>Consistent comparators\<close>

locale comparator =
  fixes cmp :: "'a \<Rightarrow> 'a \<Rightarrow> ordering"
  assumes flip: "cmp a b = Greater \<longleftrightarrow> cmp b a = Less"
    and trans: "cmp a b \<noteq> Greater \<Longrightarrow> cmp b c \<noteq> Greater \<Longrightarrow> cmp a c \<noteq> Greater"
begin

lemma reflexive: "cmp a a = Equal"
  using flip [of a a] by (cases "cmp a a") auto

lemma equal_flip: "cmp a b = Equal \<longleftrightarrow> cmp b a = Equal"
  using flip [of a b] flip [of b a] by (cases "cmp a b"; cases "cmp b a") auto

lemma sorted_insert_by:
  "sorted_wrt (\<lambda>a b. cmp a b \<noteq> Greater) xs \<Longrightarrow> sorted_wrt (\<lambda>a b. cmp a b \<noteq> Greater) (insert_by cmp x xs)"
proof (induction xs)
  case (Cons y ys)
  have "set (insert_by cmp x ys) = insert x (set ys)"
    by (metis mset_insert_by set_mset_add_mset_insert set_mset_mset)
  moreover have "cmp y x \<noteq> Greater" if "cmp x y = Greater"
    using that flip [of y x] flip [of x y] by auto
  ultimately show ?case
    using Cons trans by auto
qed simp

theorem sorted_sort_by: "sorted_wrt (\<lambda>a b. cmp a b \<noteq> Greater) (sort_by cmp xs)"
  by (induction xs) (auto simp: sort_by_def intro: sorted_insert_by)

text \<open>
  Where only equal rows compare equal, the result depends on the collection of rows and
  not on the order in which they were collected.
\<close>

lemma sorted_unique:
  assumes "sorted_wrt (\<lambda>a b. cmp a b \<noteq> Greater) xs" "sorted_wrt (\<lambda>a b. cmp a b \<noteq> Greater) ys"
    and "mset xs = mset ys" "\<And>a b. a \<in> set xs \<Longrightarrow> b \<in> set xs \<Longrightarrow> cmp a b = Equal \<Longrightarrow> a = b"
  shows "xs = ys"
  using assms
proof (induction xs arbitrary: ys)
  case (Cons x xs)
  then obtain y zs where ys: "ys = y # zs"
    by (cases ys) auto
  have sets: "insert x (set xs) = insert y (set zs)"
    using Cons.prems(3) ys by (metis list.simps(15) set_mset_mset)
  have "y \<in> insert x (set xs)" "x \<in> insert y (set zs)"
    using sets by blast+
  then have "cmp x y \<noteq> Greater" "cmp y x \<noteq> Greater"
    using Cons.prems(1,2) ys reflexive by auto
  then have "cmp x y = Equal"
    using flip [of y x] by (cases "cmp x y") auto
  then have xy: "x = y"
    using Cons.prems(4) sets by auto
  then have "xs = zs"
    using Cons ys by (intro Cons.IH) auto
  then show ?case
    using xy ys by simp
qed simp

theorem sort_by_cong:
  assumes "mset xs = mset ys" "\<And>a b. a \<in> set xs \<Longrightarrow> b \<in> set xs \<Longrightarrow> cmp a b = Equal \<Longrightarrow> a = b"
  shows "sort_by cmp xs = sort_by cmp ys"
  using assms by (intro sorted_unique sorted_sort_by) auto

end

lemma comparator_key: "comparator (cmp_key f)"
  by unfold_locales (auto simp: cmp_key_def split: if_splits)

lemma comparator_desc: "comparator (cmp_desc f)"
  by unfold_locales (auto simp: cmp_key_def cmp_desc_def split: if_splits)

lemma comparator_then:
  assumes "comparator c" "comparator d"
  shows "comparator (cmp_then c d)"
proof -
  note C = comparator.flip [OF assms(1)] comparator.equal_flip [OF assms(1)] comparator.trans [OF assms(1)]
  note D = comparator.flip [OF assms(2)] comparator.equal_flip [OF assms(2)] comparator.trans [OF assms(2)]
  show ?thesis
  proof
    fix a b
    show "cmp_then c d a b = Greater \<longleftrightarrow> cmp_then c d b a = Less"
      using C(1) [of a b] C(1) [of b a] C(2) [of a b] D(1) [of a b]
      by (cases "c a b"; cases "c b a") (auto simp: cmp_then_def)
  next
    fix x y z
    assume xy: "cmp_then c d x y \<noteq> Greater" and yz: "cmp_then c d y z \<noteq> Greater"
    then have le: "c x y \<noteq> Greater" "c y z \<noteq> Greater"
      by (auto simp: cmp_then_def split: ordering.splits)
    then have xz: "c x z \<noteq> Greater"
      by (rule C(3))
    have "c x y = Equal \<and> c y z = Equal" if "c x z = Equal"
    proof -
      have zx: "c z x \<noteq> Greater"
        using that C(2) [of x z] by auto
      have "c y x \<noteq> Greater" "c z y \<noteq> Greater"
        using C(3) [OF le(2) zx] C(3) [OF zx le(1)] .
      then show ?thesis
        using le C(1) [of x y] C(1) [of y x] C(1) [of z y] C(1) [of y z]
        by (cases "c x y"; cases "c y z") auto
    qed
    then show "cmp_then c d x z \<noteq> Greater"
      using xz xy yz D(3) [of x y z] by (cases "c x z") (auto simp: cmp_then_def)
  qed
qed

lemma cmp_then_Equal: "cmp_then c d a b = Equal \<longleftrightarrow> c a b = Equal \<and> d a b = Equal"
  by (auto simp: cmp_then_def split: ordering.splits)

lemma cmp_key_Equal: "cmp_key f a b = Equal \<longleftrightarrow> f a = f b"
  by (auto simp: cmp_key_def)

end
