(* ===== verification/Timeline.thy ===== *)
theory Timeline
  imports Event_Model Row_Sorting
begin

text \<open>
  \<^verbatim>\<open>src/analysis/timeline.rs\<close>: the timeline rows of a selection and the inclusive and
  self times of spans. Names are a map from local function ids.
\<close>

section \<open>Timeline rows\<close>

record timeline_row =
  tr_span_id :: string
  tr_thread_id :: thread_id
  tr_function :: "string option"
  tr_parent :: "string option"
  tr_start_ns :: "u64 option"
  tr_end_ns :: "u64 option"
  tr_completeness :: span_completeness
  tr_clipped :: bool
  tr_evidence :: string
  tr_call_site :: "address option"
  tr_call_site_inline :: "string option"

record timeline_options =
  to_function_contains :: "string option"
  to_min_duration_ns :: "u64 option"

definition timeline_options_default :: timeline_options where
  "timeline_options_default = \<lparr>to_function_contains = None, to_min_duration_ns = None\<rparr>"

definition span_name :: "(local_id \<rightharpoonup> string) \<Rightarrow> function_span \<Rightarrow> string option" where
  "span_name names sp = Option.bind (sp_function sp) names"

abbreviation start_of :: "function_span \<Rightarrow> u64 option" where
  "start_of sp \<equiv> relative_ns (sp_start sp)"

abbreviation end_of :: "function_span \<Rightarrow> u64 option" where
  "end_of sp \<equiv> relative_ns (sp_end sp)"

definition timeline_keeps ::
    "(local_id \<rightharpoonup> string) \<Rightarrow> selection \<Rightarrow> timeline_options \<Rightarrow> function_span \<Rightarrow> bool" where
  "timeline_keeps names sel opts sp \<longleftrightarrow>
     (case sel_thread sel of None \<Rightarrow> True | Some want \<Rightarrow> sp_thread sp = want) \<and>
     intersects sel (start_of sp) (end_of sp) \<and>
     (case to_function_contains opts of
        None \<Rightarrow> True
      | Some f \<Rightarrow> (case span_name names sp of None \<Rightarrow> False | Some n \<Rightarrow> contains_str n f)) \<and>
     (case to_min_duration_ns opts of
        None \<Rightarrow> True
      | Some lo \<Rightarrow> (case (start_of sp, end_of sp) of
                      (Some s, Some e) \<Rightarrow> e - s \<ge> lo
                    | _ \<Rightarrow> False))"

definition is_clipped :: "selection \<Rightarrow> u64 option \<Rightarrow> u64 option \<Rightarrow> bool" where
  "is_clipped sel start stop \<longleftrightarrow>
     (case (sel_start sel, start) of (Some s, Some st) \<Rightarrow> st < s | _ \<Rightarrow> False) \<or>
     (case (sel_end sel, stop) of (Some e, Some en) \<Rightarrow> en > e | _ \<Rightarrow> False)"

definition timeline_row_of ::
    "string \<Rightarrow> (local_id \<rightharpoonup> string) \<Rightarrow> selection \<Rightarrow> function_span \<Rightarrow> timeline_row" where
  "timeline_row_of analysis names sel sp =
     \<lparr>tr_span_id = analysis @ '':sp'' @ show_dec (sp_id sp),
      tr_thread_id = sp_thread sp,
      tr_function = span_name names sp,
      tr_parent = map_option (\<lambda>p. analysis @ '':sp'' @ show_dec p) (sp_parent sp),
      tr_start_ns = start_of sp,
      tr_end_ns = end_of sp,
      tr_completeness = sp_completeness sp,
      tr_clipped = is_clipped sel (start_of sp) (end_of sp),
      tr_evidence = analysis @ '':e'' @ show_dec (er_start (sp_evidence sp)) @ ''-e''
                      @ show_dec (er_end (sp_evidence sp)),
      tr_call_site = sp_call_site sp,
      tr_call_site_inline = None\<rparr>"

definition timeline_cmp :: "timeline_row \<Rightarrow> timeline_row \<Rightarrow> ordering" where
  "timeline_cmp = cmp_then (cmp_key tr_start_ns) (cmp_key tr_span_id)"

definition timeline_rows_with ::
    "string \<Rightarrow> function_span list \<Rightarrow> (local_id \<rightharpoonup> string) \<Rightarrow> selection \<Rightarrow> timeline_options \<Rightarrow>
     timeline_row list" where
  "timeline_rows_with analysis spans names sel opts =
     sort_by timeline_cmp
       (map (timeline_row_of analysis names sel) (filter (timeline_keeps names sel opts) spans))"

definition timeline_rows ::
    "string \<Rightarrow> function_span list \<Rightarrow> (local_id \<rightharpoonup> string) \<Rightarrow> selection \<Rightarrow> timeline_row list" where
  "timeline_rows analysis spans names sel =
     timeline_rows_with analysis spans names sel timeline_options_default"

interpretation timeline: comparator timeline_cmp
  unfolding timeline_cmp_def by (intro comparator_then comparator_key)

section \<open>Inclusive and self time\<close>

definition inclusive_elapsed :: "event_time \<Rightarrow> event_time \<Rightarrow> span_completeness \<Rightarrow> u64 option" where
  "inclusive_elapsed start stop complete =
     (if complete \<noteq> Complete then None
      else Option.bind (relative_ns stop) (\<lambda>e. Option.bind (relative_ns start) (\<lambda>s. Some (e - s))))"

definition clip_interval :: "u64 \<Rightarrow> u64 \<Rightarrow> u64 \<times> u64 \<Rightarrow> (u64 \<times> u64) option" where
  "clip_interval lo hi iv =
     (let s = max (fst iv) lo; e = min (snd iv) hi in if e > s then Some (s, e) else None)"

fun sweep :: "(u64 \<times> u64) list \<Rightarrow> u64 \<Rightarrow> u64 \<Rightarrow> u64" where
  "sweep [] cur uni = uni"
| "sweep ((s0, e) # iv) cur uni =
     (let s = max s0 cur
      in if e > s then sweep iv e (sat_add64 uni (e - s)) else sweep iv cur uni)"

definition self_elapsed :: "u64 \<Rightarrow> u64 \<Rightarrow> (u64 \<times> u64) list \<Rightarrow> bool \<Rightarrow> u64 option" where
  "self_elapsed parent_start parent_end children children_certain =
     (if \<not> children_certain \<or> parent_end < parent_start then None
      else checked_sub (parent_end - parent_start)
             (sweep (sort_by (cmp_then (cmp_key fst) (cmp_key snd))
                (List.map_filter (clip_interval parent_start parent_end) children)) parent_start 0))"

section \<open>Lemmas\<close>

abbreviation covered :: "(u64 \<times> u64) list \<Rightarrow> u64 set" where
  "covered ivs \<equiv> (\<Union>(s, e)\<in>set ivs. {s..<e})"

interpretation intervals: comparator "cmp_then (cmp_key fst) (cmp_key snd :: _ \<Rightarrow> u64 \<times> u64 \<Rightarrow> _) :: u64 \<times> u64 \<Rightarrow> _"
  by (intro comparator_then comparator_key)

lemma sweep_counts:
  assumes "sorted_wrt (\<lambda>a b. fst a \<le> fst b) ivs" "\<forall>(s, e)\<in>set ivs. e \<le> hi"
    and "uni + card (covered ivs \<inter> {cur..<hi}) \<le> u64_max"
  shows "sweep ivs cur uni = uni + card (covered ivs \<inter> {cur..<hi})"
  using assms
proof (induction ivs arbitrary: cur uni)
  case (Cons iv ivs)
  obtain s0 e where iv: "iv = (s0, e)" by (cases iv)
  let ?s = "max s0 cur"
  have later: "\<forall>(s, e')\<in>set ivs. s0 \<le> s" and e: "e \<le> hi"
    using Cons.prems(1,2) iv by auto
  show ?case
  proof (cases "?s < e")
    case True
    have split: "covered (iv # ivs) \<inter> {cur..<hi} = {?s..<e} \<union> (covered ivs \<inter> {e..<hi})"
      using True later e iv by fastforce
    have "card (covered (iv # ivs) \<inter> {cur..<hi}) = (e - ?s) + card (covered ivs \<inter> {e..<hi})"
      unfolding split by (subst card_Un_disjoint) auto
    moreover have "sat_add64 uni (e - ?s) = uni + (e - ?s)"
      using Cons.prems(3) calculation by (simp add: width_simps)
    ultimately show ?thesis
      using Cons.IH [of "uni + (e - ?s)" e] Cons.prems True iv by (simp add: Let_def add.assoc)
  next
    case False
    have "covered (iv # ivs) \<inter> {cur..<hi} = covered ivs \<inter> {cur..<hi}"
      using False iv by auto
    then show ?thesis
      using Cons.IH [of uni cur] Cons.prems False iv by (auto simp: Let_def)
  qed
qed simp

lemma covered_clipped:
  "covered (List.map_filter (clip_interval lo hi) ivs) = covered ivs \<inter> {lo..<hi}"
proof (induction ivs)
  case (Cons iv ivs)
  obtain s e where iv: "iv = (s, e)" by (cases iv)
  show ?case
  proof (cases "max s lo < min e hi")
    case True
    then have "clip_interval lo hi iv = Some (max s lo, min e hi)"
      using iv by (simp add: clip_interval_def)
    moreover have "covered (iv # ivs) \<inter> {lo..<hi} = {max s lo..<min e hi} \<union> (covered ivs \<inter> {lo..<hi})"
      using iv by auto
    ultimately show ?thesis
      using Cons by (simp add: map_filter_simps)
  next
    case False
    then have "clip_interval lo hi iv = None"
      using iv by (auto simp: clip_interval_def Let_def)
    moreover have "covered (iv # ivs) \<inter> {lo..<hi} = covered ivs \<inter> {lo..<hi}"
      using iv False by auto
    ultimately show ?thesis
      using Cons by (simp add: map_filter_simps)
  qed
qed (simp add: map_filter_simps)

section \<open>Properties\<close>

text \<open>
  C15: Self time is the uncovered part of the parent. With certain children the self time of a
  span is the number of its instants that no child interval covers, however the children
  overlap, repeat or reach beyond the parent; the subtraction never fails.
\<close>

theorem self_elapsed_uncovered:
  assumes "parent_start \<le> parent_end" "parent_end \<le> u64_max"
  shows "self_elapsed parent_start parent_end children True =
    Some (card {t \<in> {parent_start..<parent_end}. \<forall>(s, e)\<in>set children. \<not> (s \<le> t \<and> t < e)})"
proof -
  let ?clip = "List.map_filter (clip_interval parent_start parent_end) children"
  let ?ivs = "sort_by (cmp_then (cmp_key fst) (cmp_key snd)) ?clip"
  let ?P = "{parent_start..<parent_end}"
  have "sorted_wrt (\<lambda>a b. fst a \<le> fst b) ?ivs"
    using intervals.sorted_sort_by
    by (rule sorted_wrt_mono_rel [rotated]) (auto simp: cmp_then_def cmp_key_def split: if_splits)
  moreover have "\<forall>(s, e)\<in>set ?ivs. e \<le> parent_end"
    by (auto simp: map_filter_def clip_interval_def Let_def split: if_splits)
  moreover have cov: "covered ?ivs = covered children \<inter> ?P"
    using covered_clipped [of parent_start parent_end children] by simp
  moreover have bound: "card (covered children \<inter> ?P) \<le> parent_end - parent_start"
    using card_mono [of ?P "covered children \<inter> ?P"] by simp
  ultimately have "sweep ?ivs parent_start 0 = card (covered children \<inter> ?P)"
    using sweep_counts [of ?ivs parent_end 0 parent_start] assms(2) by (simp add: Int_assoc)
  moreover have "{t \<in> ?P. \<forall>(s, e)\<in>set children. \<not> (s \<le> t \<and> t < e)} = ?P - (covered children \<inter> ?P)"
    by auto
  then have "card {t \<in> ?P. \<forall>(s, e)\<in>set children. \<not> (s \<le> t \<and> t < e)} =
      (parent_end - parent_start) - card (covered children \<inter> ?P)"
    using card_Diff_subset [of "covered children \<inter> ?P" ?P] by simp
  ultimately show ?thesis
    using assms(1) bound by (simp add: self_elapsed_def checked_sub_def)
qed

theorem self_elapsed_uncovered_witness:
  "self_elapsed 0 100 [(10, 20), (15, 30), (50, 60)] True = Some 70 \<and>
   card {t \<in> {0..<100}. \<forall>(s, e)\<in>set [(10, 20), (15, 30), (50, 60)]. \<not> (s \<le> t \<and> t < (e::nat))} = 70"
proof -
  have "self_elapsed 0 100 [(10, 20), (15, 30), (50, 60)] True = Some 70"
    by (simp add: self_elapsed_def map_filter_def clip_interval_def sort_by_def cmp_then_def cmp_key_def
        checked_sub_def sat_add64_def u64_max_def)
  then show ?thesis
    using self_elapsed_uncovered [of 0 100 "[(10, 20), (15, 30), (50, 60)]"] by (simp add: u64_max_def)
qed

text \<open>
  Span selection. For a valid selection and a span of positive length, the interval test
  used for spans holds exactly when some instant of the span lies in the selected
  half-open range.
\<close>

theorem span_intersects_iff_common_instant:
  assumes "selection_validate sel = Inr ()" "s < e" "e \<le> u64_max"
  shows "intersects sel (Some s) (Some e) \<longleftrightarrow> (\<exists>t. s \<le> t \<and> t < e \<and> contains_instant sel t)"
proof -
  define a where "a = (case sel_start sel of None \<Rightarrow> 0 | Some a \<Rightarrow> a)"
  define b where "b = (case sel_end sel of None \<Rightarrow> u64_max | Some b \<Rightarrow> b)"
  have ab: "a < b \<or> b = 0"
    using assms(1) unfolding a_def b_def
    by (auto simp: selection_validate_def try_bind_Inr_iff validate_relative_ns_def json_safe_int_max_def u64_max_def
        split: option.splits if_splits)
  have c: "contains_instant sel t \<longleftrightarrow> a \<le> t \<and> t < b" if "t < e" for t
    using that assms(3) by (auto simp: contains_instant_def a_def b_def split: option.split)
  have "s < b \<and> a < e \<longleftrightarrow> (\<exists>t. s \<le> t \<and> t < e \<and> a \<le> t \<and> t < b)"
  proof
    assume "s < b \<and> a < e"
    then have "s \<le> max s a \<and> max s a < e \<and> a \<le> max s a \<and> max s a < b"
      using ab assms(2) by auto
    then show "\<exists>t. s \<le> t \<and> t < e \<and> a \<le> t \<and> t < b" by blast
  qed auto
  then show ?thesis
    using c by (auto simp: intersects_def a_def [symmetric] b_def [symmetric])
qed

theorem span_intersects_iff_common_instant_witness:
  "intersects \<lparr>sel_thread = None, sel_start = Some 10, sel_end = Some 20\<rparr> (Some 5) (Some 11) \<and>
   (\<exists>t. 5 \<le> t \<and> t < 11 \<and> contains_instant \<lparr>sel_thread = None, sel_start = Some 10, sel_end = Some 20\<rparr> t)"
proof -
  have "selection_validate \<lparr>sel_thread = None, sel_start = Some 10, sel_end = Some 20\<rparr> = Inr ()"
    by (simp add: selection_validate_def validate_relative_ns_def json_safe_int_max_def try_bind_def)
  from span_intersects_iff_common_instant [OF this, of 5 11] show ?thesis
    by (simp add: u64_max_def intersects_def)
qed

text \<open>
  C18: The timeline without bounds. It is ordered by start time and has one row for every span,
  with two exceptions: a span that ends at relative time 0 and one that starts at
  \<^verbatim>\<open>u64::MAX\<close> are left out even though nothing was excluded by the selection.
\<close>

theorem timeline_unbounded:
  assumes "\<forall>sp\<in>set spans. \<forall>t. (start_of sp = Some t \<or> end_of sp = Some t) \<longrightarrow> t \<le> u64_max"
  defines "sel \<equiv> \<lparr>sel_thread = None, sel_start = None, sel_end = None\<rparr>"
  shows "mset (timeline_rows a spans names sel) =
      mset (map (timeline_row_of a names sel)
        (filter (\<lambda>sp. end_of sp \<noteq> Some 0 \<and> start_of sp \<noteq> Some u64_max) spans)) \<and>
    sorted_wrt (\<lambda>r r'. tr_start_ns r \<le> tr_start_ns r') (timeline_rows a spans names sel)"
proof
  have "timeline_keeps names sel timeline_options_default sp \<longleftrightarrow>
      end_of sp \<noteq> Some 0 \<and> start_of sp \<noteq> Some u64_max" if "sp \<in> set spans" for sp
    using assms(1) that
    by (cases "start_of sp"; cases "end_of sp")
       (auto simp: timeline_keeps_def timeline_options_default_def sel_def intersects_def u64_max_def le_less)
  then have "filter (timeline_keeps names sel timeline_options_default) spans =
      filter (\<lambda>sp. end_of sp \<noteq> Some 0 \<and> start_of sp \<noteq> Some u64_max) spans"
    by (rule filter_cong [OF refl])
  then show "mset (timeline_rows a spans names sel) =
      mset (map (timeline_row_of a names sel)
        (filter (\<lambda>sp. end_of sp \<noteq> Some 0 \<and> start_of sp \<noteq> Some u64_max) spans))"
    by (simp add: timeline_rows_def timeline_rows_with_def)
  show "sorted_wrt (\<lambda>r r'. tr_start_ns r \<le> tr_start_ns r') (timeline_rows a spans names sel)"
    unfolding timeline_rows_def timeline_rows_with_def using timeline.sorted_sort_by
    by (rule sorted_wrt_mono_rel [rotated])
       (auto simp: timeline_cmp_def cmp_then_def cmp_key_def split: if_splits)
qed

definition span_at_zero :: function_span where
  "span_at_zero = \<lparr>sp_id = 0, sp_thread = ''t_0'', sp_function = None, sp_parent = None,
     sp_start = time_estimate 0, sp_end = time_estimate 0, sp_completeness = Complete,
     sp_evidence = \<lparr>er_start = 0, er_end = 0\<rparr>, sp_call_site = None\<rparr>"

theorem timeline_unbounded_witness:
  "timeline_rows ''a'' [span_at_zero] Map.empty \<lparr>sel_thread = None, sel_start = None, sel_end = None\<rparr> = []"
  using timeline_unbounded [of "[span_at_zero]" "''a''" Map.empty]
  by (simp add: span_at_zero_def)

end
