(* ===== verification/Query_Paging.thy ===== *)
theory Query_Paging
  imports Event_Model Pt_Config "HOL-Library.Char_ord" "HOL-Library.List_Lexorder"
begin

text \<open>
  \<^verbatim>\<open>src/analysis/page.rs\<close> and the request side of \<^verbatim>\<open>src/model/report.rs\<close>: row limits,
  offset cursors, pages, and the shrinking of a JSON envelope to the result budget.
  A JSON value follows \<^verbatim>\<open>serde_json::Value\<close> without the \<^verbatim>\<open>preserve_order\<close> feature:
  objects are association lists in key order, strings are their UTF-8 bytes. The
  serialised size is a parameter \<open>ser\<close> (\<open>None\<close> for a serialisation error).
\<close>

section \<open>Requests\<close>

definition row_limit :: "u32 option \<Rightarrow> error + u32" where
  "row_limit lim =
     (let n = (case lim of None \<Rightarrow> default_query_rows | Some v \<Rightarrow> v)
      in if n = 0 then Inl (invalid_argument ''limit must be > 0'')
         else if n > max_query_rows
         then Inl (invalid_argument (''limit '' @ show_dec n @ '' exceeds maximum '' @ show_dec max_query_rows))
         else Inr n)"

text \<open>\<open>fmt6\<close> renders the quotient of two integers as \<^verbatim>\<open>f64\<close> with six decimals.\<close>

definition relative_delta :: "(int \<Rightarrow> int \<Rightarrow> string) \<Rightarrow> int \<Rightarrow> int \<Rightarrow> string option" where
  "relative_delta fmt6 d baseline = (if baseline = 0 then None else Some (fmt6 d baseline))"

definition nearest_rank :: "u64 list \<Rightarrow> u32 \<Rightarrow> u64 option" where
  "nearest_rank xs p =
     (let n = length xs
      in if n = 0 then None
         else Some (xs ! min (div_ceil (p * n) 100 - 1) (n - 1)))"

section \<open>Cursors and pages\<close>

definition parse_offset_cursor :: "string option \<Rightarrow> error + nat" where
  "parse_offset_cursor cursor =
     (case cursor of
        None \<Rightarrow> Inr 0
      | Some c \<Rightarrow>
          (case parse_u64 c of
             Some n \<Rightarrow> Inr n
           | None \<Rightarrow> Inl (invalid_argument (''cursor must be a decimal offset, got '' @ c))))"

definition paginate :: "'a list \<Rightarrow> nat \<Rightarrow> nat \<Rightarrow> 'a list \<times> string option" where
  "paginate items offset lim =
     (let page = take lim (drop offset items);
          stop = sat_add64 offset (length page)
      in (page, if stop < length items then Some (show_dec stop) else None))"

text \<open>
  A client that follows the cursors: each round parses the cursor, takes a page and goes
  on while a next cursor is given. \<open>fuel\<close> bounds the number of requests.
\<close>

fun walk :: "nat \<Rightarrow> 'a list \<Rightarrow> nat \<Rightarrow> string option \<Rightarrow> (error + 'a list) option" where
  "walk 0 items lim cursor = None"
| "walk (Suc fuel) items lim cursor =
     (case parse_offset_cursor cursor of
        Inl e \<Rightarrow> Some (Inl e)
      | Inr offset \<Rightarrow>
          (let (page, next_cursor) = paginate items offset lim
           in case next_cursor of
                None \<Rightarrow> Some (Inr page)
              | Some c \<Rightarrow>
                  (case walk fuel items lim (Some c) of
                     None \<Rightarrow> None
                   | Some (Inl e) \<Rightarrow> Some (Inl e)
                   | Some (Inr rest) \<Rightarrow> Some (Inr (page @ rest)))))"

section \<open>JSON values\<close>

datatype json =
    JNull
  | JBool bool
  | JNum string
  | JStr string
  | JArr "json list"
  | JObj "(string \<times> json) list"

fun obj_put :: "string \<Rightarrow> json \<Rightarrow> (string \<times> json) list \<Rightarrow> (string \<times> json) list" where
  "obj_put k v [] = [(k, v)]"
| "obj_put k v ((k', v') # m) =
     (if k = k' then (k, v) # m
      else if k < k' then (k, v) # (k', v') # m
      else (k', v') # obj_put k v m)"

text \<open>\<^verbatim>\<open>value["key"] = v\<close>: an object is updated, null becomes an object, the rest panics.\<close>

fun json_set :: "string \<Rightarrow> json \<Rightarrow> json \<Rightarrow> failure + json" where
  "json_set k v (JObj m) = Inr (JObj (obj_put k v m))"
| "json_set k v JNull = Inr (JObj [(k, v)])"
| "json_set k v _ = Inl Panic"

fun json_get :: "string \<Rightarrow> json \<Rightarrow> json option" where
  "json_get k (JObj m) = map_of m k"
| "json_get k _ = None"

section \<open>Shrinking one row\<close>

definition tf_key :: string where "tf_key = ''truncated_fields''"

definition shrinkable_size :: "(json \<Rightarrow> nat option) \<Rightarrow> json \<Rightarrow> nat" where
  "shrinkable_size ser child =
     (case child of
        JArr a \<Rightarrow> if length a > 1 then (case ser (JArr a) of Some n \<Rightarrow> n | None \<Rightarrow> 0) else 0
      | JStr s \<Rightarrow> if length s > 256 then length s else 0
      | _ \<Rightarrow> 0)"

fun largest :: "(json \<Rightarrow> nat option) \<Rightarrow> json \<Rightarrow> string list \<Rightarrow> (string list \<times> nat) option \<Rightarrow> (string list \<times> nat) option"
and largest_fields :: "(json \<Rightarrow> nat option) \<Rightarrow> (string \<times> json) list \<Rightarrow> string list \<Rightarrow> (string list \<times> nat) option \<Rightarrow> (string list \<times> nat) option"
where
  "largest ser (JObj m) path best = largest_fields ser m path best"
| "largest ser _ path best = best"
| "largest_fields ser [] path best = best"
| "largest_fields ser ((k, child) # m) path best =
     (if k = tf_key then largest_fields ser m path best
      else (let size = shrinkable_size ser child;
                best1 = (if size > 0 \<and> (case best of None \<Rightarrow> True | Some b \<Rightarrow> size > snd b)
                         then Some (path @ [k], size) else best)
            in largest_fields ser m path (largest ser child (path @ [k]) best1)))"

definition is_char_boundary :: "string \<Rightarrow> nat \<Rightarrow> bool" where
  "is_char_boundary s i \<longleftrightarrow>
     i = 0 \<or> i = length s \<or>
     (i < length s \<and> \<not> (128 \<le> (of_char (s ! i) :: nat) \<and> (of_char (s ! i) :: nat) < 192))"

fun char_floor :: "string \<Rightarrow> nat \<Rightarrow> nat" where
  "char_floor s 0 = 0"
| "char_floor s (Suc i) = (if is_char_boundary s (Suc i) then Suc i else char_floor s i)"

fun halve :: "json \<Rightarrow> bool \<times> json" where
  "halve (JArr a) = (True, JArr (take (length a div 2) a))"
| "halve (JStr s) = (True, JStr (take (char_floor s (length s div 2)) s @ ''...''))"
| "halve j = (False, j)"

text \<open>\<^verbatim>\<open>cur = &mut cur[k]\<close> along the path (a missing key is inserted as null), then the cut.\<close>

fun edit_at :: "string list \<Rightarrow> json \<Rightarrow> failure + (bool \<times> json)"
and edit_field :: "string \<Rightarrow> string list \<Rightarrow> (string \<times> json) list \<Rightarrow> failure + (bool \<times> json)"
where
  "edit_at [] j = Inr (halve j)"
| "edit_at (k # ks) j =
     (case j of JObj m \<Rightarrow> edit_field k ks m | JNull \<Rightarrow> edit_field k ks [] | _ \<Rightarrow> Inl Panic)"
| "edit_field k ks m =
     try_bind (edit_at ks (case map_of m k of None \<Rightarrow> JNull | Some c \<Rightarrow> c)) (\<lambda>(b, c).
       Inr (b, JObj (obj_put k c m)))"

definition note_truncated :: "string list \<Rightarrow> json \<Rightarrow> json" where
  "note_truncated path row =
     (case row of
        JObj m \<Rightarrow>
          (let entry = (case map_of m tf_key of None \<Rightarrow> JArr [] | Some e \<Rightarrow> e);
               name = JStr (join_str ''.'' path)
           in JObj (obj_put tf_key
                (case entry of JArr l \<Rightarrow> if name \<in> set l then JArr l else JArr (l @ [name]) | e \<Rightarrow> e) m))
      | j \<Rightarrow> j)"

definition shrink_row :: "(json \<Rightarrow> nat option) \<Rightarrow> json \<Rightarrow> failure + (bool \<times> json)" where
  "shrink_row ser row =
     (case largest ser row [] None of
        None \<Rightarrow> Inr (False, row)
      | Some (path, _) \<Rightarrow>
          try_bind (edit_at path row) (\<lambda>(b, row').
            if b then Inr (True, note_truncated path row') else Inr (False, row')))"

section \<open>Fitting an envelope\<close>

definition over_budget :: "(json \<Rightarrow> nat option) \<Rightarrow> nat \<Rightarrow> json \<Rightarrow> bool" where
  "over_budget ser budget v = (case ser v of Some n \<Rightarrow> n > budget | None \<Rightarrow> True)"

definition omitted_row :: json where
  "omitted_row = JObj [(''omitted'', JStr ''row exceeded MCP result budget; full data remains in the store'')]"

text \<open>One iteration: \<open>Inr (True, e)\<close> continues with \<open>e\<close>, \<open>Inr (False, e)\<close> leaves the loop.\<close>

definition fit_step :: "(json \<Rightarrow> nat option) \<Rightarrow> nat \<Rightarrow> json \<Rightarrow> failure + (bool \<times> json)" where
  "fit_step ser offset env =
     (case json_get ''data'' env of
        Some (JArr arr) \<Rightarrow>
          if length arr > 1
          then try_bind (json_set ''data'' (JArr (butlast arr)) env) (\<lambda>env.
               try_bind (json_set ''next_cursor''
                   (JStr (show_dec (sat_add64 offset (length (butlast arr))))) env) (\<lambda>env.
                 Inr (True, env)))
          else if length arr = 1
          then try_bind (shrink_row ser (arr ! 0)) (\<lambda>(shrunk, row).
               if shrunk
               then try_bind (json_set ''data'' (JArr [row]) env) (\<lambda>env. Inr (True, env))
               else try_bind (json_set ''data'' (JArr [omitted_row]) env) (\<lambda>env.
                    try_bind (json_set ''next_cursor'' (JStr (show_dec offset)) env) (\<lambda>env.
                      Inr (False, env))))
          else Inr (False, env)
      | _ \<Rightarrow> Inr (False, env))"

partial_function (option) fit_loop ::
    "(json \<Rightarrow> nat option) \<Rightarrow> nat \<Rightarrow> nat \<Rightarrow> json \<Rightarrow> (failure + json) option" where
  "fit_loop ser budget offset env =
     (if over_budget ser budget env
      then (case fit_step ser offset env of
              Inl e \<Rightarrow> Some (Inl e)
            | Inr (go, env') \<Rightarrow> if go then fit_loop ser budget offset env' else Some (Inr env'))
      else Some (Inr env))"

definition fit_json :: "(json \<Rightarrow> nat option) \<Rightarrow> json \<Rightarrow> nat \<Rightarrow> nat \<Rightarrow> (failure + json) option" where
  "fit_json ser env budget offset =
     (if \<not> over_budget ser budget env then Some (Inr env)
      else (case json_set ''truncated'' (JBool True) env of
              Inl e \<Rightarrow> Some (Inl e)
            | Inr env' \<Rightarrow> fit_loop ser budget offset env'))"

section \<open>Lemmas\<close>

lemma parse_offset_show: "n \<le> u64_max \<Longrightarrow> parse_offset_cursor (Some (show_dec n)) = Inr n"
  by (simp add: parse_offset_cursor_def parse_uint_show_base)

lemma walk_from:
  assumes "0 < lim" "offset \<le> length items" "length items \<le> u64_max"
    and "parse_offset_cursor cursor = Inr offset" "length items \<le> offset + fuel * lim" "0 < fuel"
  shows "walk fuel items lim cursor = Some (Inr (drop offset items))"
  using assms
proof (induction fuel arbitrary: offset cursor)
  case (Suc fuel)
  let ?stop = "offset + min (length items - offset) lim"
  have stop: "sat_add64 offset (min (length items - offset) lim) = ?stop"
    using Suc.prems by (simp add: width_simps)
  show ?case
  proof (cases "?stop < length items")
    case True
    then have lt: "offset + lim < length items" and st: "?stop = offset + lim"
      by auto
    then have "0 < fuel"
      using Suc.prems by (cases fuel) auto
    then have "walk fuel items lim (Some (show_dec ?stop)) = Some (Inr (drop (offset + lim) items))"
      using Suc.prems lt by (intro Suc.IH) (auto simp: st parse_offset_show)
    then show ?thesis
      using Suc.prems True stop by (simp add: paginate_def Let_def st min.commute)
        (metis add.commute append_take_drop_id drop_drop)
  next
    case False
    then have "length items - offset \<le> lim"
      using Suc.prems by auto
    then show ?thesis
      using Suc.prems False stop by (simp add: paginate_def Let_def min.commute)
  qed
qed simp

definition sorted_keys :: "(string \<times> json) list \<Rightarrow> bool" where
  "sorted_keys m \<longleftrightarrow> sorted_wrt (<) (map fst m)"

lemma sorted_keys_simps [simp]:
  "sorted_keys []"
  "sorted_keys ((k, v) # m) \<longleftrightarrow> (\<forall>k'\<in>fst ` set m. k < k') \<and> sorted_keys m"
  by (auto simp: sorted_keys_def)

lemma keys_obj_put: "fst ` set (obj_put k v m) = insert k (fst ` set m)"
  by (induction k v m rule: obj_put.induct) auto

lemma map_of_obj_put: "sorted_keys m \<Longrightarrow> map_of (obj_put k v m) = (map_of m)(k \<mapsto> v)"
  by (induction k v m rule: obj_put.induct) (auto simp: fun_eq_iff)

lemma sorted_obj_put: "sorted_keys m \<Longrightarrow> sorted_keys (obj_put k v m)"
  by (induction k v m rule: obj_put.induct) (auto simp: keys_obj_put ball_Un)

lemma set_obj_put: "set (obj_put k v m) \<subseteq> insert (k, v) (set m)"
  by (induction k v m rule: obj_put.induct) auto

fun wf_json :: "json \<Rightarrow> bool" where
  "wf_json (JObj m) \<longleftrightarrow> sorted_keys m \<and> (\<forall>(k, v)\<in>set m. wf_json v)"
| "wf_json _ \<longleftrightarrow> True"

lemma wf_json_put: "wf_json (JObj m) \<Longrightarrow> wf_json v \<Longrightarrow> wf_json (JObj (obj_put k v m))"
  using set_obj_put [of k v m] by (auto simp: sorted_obj_put)

fun own_size :: "json \<Rightarrow> nat" where
  "own_size (JArr a) = length a"
| "own_size (JStr s) = length s"
| "own_size _ = 0"

fun weight :: "json \<Rightarrow> nat" and weight_fields :: "(string \<times> json) list \<Rightarrow> nat" where
  "weight (JObj m) = weight_fields m"
| "weight j = own_size j"
| "weight_fields [] = 0"
| "weight_fields ((k, c) # m) = (if k = tf_key then 0 else weight c) + weight_fields m"

lemma weight_put:
  assumes "sorted_keys m" "map_of m k = Some c" "k \<noteq> tf_key"
  shows "weight_fields (obj_put k c' m) + weight c = weight_fields m + weight c'"
  using assms
proof (induction k c' m rule: obj_put.induct)
  case (2 k v k' v' m)
  show ?case
  proof (cases "k = k'")
    case False
    then have "\<not> k < k'"
      using 2(2,3) by (auto dest!: map_of_SomeD)
    then show ?thesis
      using 2 False by simp
  qed (use 2 in simp)
qed simp

lemma weight_put_tf: "sorted_keys m \<Longrightarrow> weight_fields (obj_put tf_key v m) = weight_fields m"
  by (induction tf_key v m rule: obj_put.induct) auto

fun at_path :: "string list \<Rightarrow> json \<Rightarrow> json option" where
  "at_path [] j = Some j"
| "at_path (k # ks) (JObj m) = Option.bind (map_of m k) (at_path ks)"
| "at_path (k # ks) _ = None"

lemma at_path_tail:
  assumes "at_path q (JObj m) = Some c" "q \<noteq> []" "k \<notin> fst ` set m"
  shows "at_path q (JObj ((k, v) # m)) = Some c"
proof -
  obtain k' ks where q: "q = k' # ks"
    using assms(2) by (cases q) auto
  then have "k' \<in> fst ` set m"
    using assms(1) by (auto simp: bind_eq_Some_conv dest: map_of_SomeD intro: rev_image_eqI)
  then show ?thesis
    using assms q by auto
qed

text \<open>The field found by the search is shrinkable and is reached by its path.\<close>

definition points_to :: "(json \<Rightarrow> nat option) \<Rightarrow> string list \<Rightarrow> json \<Rightarrow> bool" where
  "points_to ser q j \<longleftrightarrow>
     q \<noteq> [] \<and> tf_key \<notin> set q \<and> (\<exists>c. at_path q j = Some c \<and> 0 < shrinkable_size ser c)"

lemma points_to_tail:
  "points_to ser q (JObj m) \<Longrightarrow> k \<notin> fst ` set m \<Longrightarrow> points_to ser q (JObj ((k, v) # m))"
  unfolding points_to_def by (blast intro: at_path_tail)

lemma points_to_here: "k \<noteq> tf_key \<Longrightarrow> 0 < shrinkable_size ser c \<Longrightarrow> points_to ser [k] (JObj ((k, c) # m))"
  by (simp add: points_to_def)

lemma points_to_child: "k \<noteq> tf_key \<Longrightarrow> points_to ser q c \<Longrightarrow> points_to ser (k # q) (JObj ((k, c) # m))"
  by (auto simp: points_to_def)

lemma largest_points:
  "wf_json j \<Longrightarrow> largest ser j path best = Some b \<Longrightarrow>
     best = Some b \<or> (\<exists>q. fst b = path @ q \<and> points_to ser q j)"
  "wf_json (JObj m) \<Longrightarrow> largest_fields ser m path best = Some b \<Longrightarrow>
     best = Some b \<or> (\<exists>q. fst b = path @ q \<and> points_to ser q (JObj m))"
proof (induction ser j path best and ser m path best rule: largest_largest_fields.induct)
  case (4 ser k child m path best)
  have k: "k \<notin> fst ` set m" and wf: "wf_json (JObj m)" "wf_json child"
    using 4(4) by auto
  show ?case
  proof (cases "k = tf_key")
    case True
    then show ?thesis
      using 4(1) [OF True wf(1)] 4(5) points_to_tail [OF _ k] by auto
  next
    case False
    define best1 where "best1 = (if 0 < shrinkable_size ser child \<and>
        (case best of None \<Rightarrow> True | Some b \<Rightarrow> snd b < shrinkable_size ser child)
        then Some (path @ [k], shrinkable_size ser child) else best)"
    have "largest_fields ser m path (largest ser child (path @ [k]) best1) = Some b"
      using 4(5) False by (simp add: best1_def Let_def)
    then have "largest ser child (path @ [k]) best1 = Some b \<or> (\<exists>q. fst b = path @ q \<and> points_to ser q (JObj m))"
      using 4(3) [OF False refl best1_def wf(1)] by blast
    moreover have "best1 = Some b \<or> (\<exists>q. fst b = path @ q \<and> points_to ser q (JObj ((k, child) # m)))"
      if "largest ser child (path @ [k]) best1 = Some b"
      using 4(2) [OF False refl best1_def wf(2) that] points_to_child [OF False, of ser _ child m] by fastforce
    moreover have "best = Some b \<or> (\<exists>q. fst b = path @ q \<and> points_to ser q (JObj ((k, child) # m)))"
      if "best1 = Some b"
      using that points_to_here [OF False, of ser child m] by (auto simp: best1_def split: if_splits)
    ultimately show ?thesis
      using points_to_tail [OF _ k] by blast
  qed
qed auto

lemma char_floor_le: "char_floor s i \<le> i"
  by (induction s i rule: char_floor.induct) auto

lemma halve_weight:
  assumes "0 < shrinkable_size ser c"
  shows "\<exists>c'. halve c = (True, c') \<and> weight c' < weight c \<and> wf_json c'"
proof (cases c)
  case (JStr s)
  then have "256 < length s"
    using assms by (auto simp: shrinkable_size_def split: if_splits)
  then show ?thesis
    using JStr char_floor_le [of s "length s div 2"] by (simp; linarith)
next
  case (JArr a)
  then show ?thesis
    using assms by (auto simp: shrinkable_size_def split: if_splits)
qed (use assms in \<open>auto simp: shrinkable_size_def\<close>)

lemma edit_at_weight:
  assumes "wf_json j" "at_path q j = Some c" "tf_key \<notin> set q" "0 < shrinkable_size ser c"
  shows "\<exists>j'. edit_at q j = Inr (True, j') \<and> weight j' < weight j \<and> wf_json j' \<and> (q \<noteq> [] \<longrightarrow> (\<exists>m. j' = JObj m))"
  using assms
proof (induction q arbitrary: j)
  case Nil
  then show ?case using halve_weight by fastforce
next
  case (Cons k ks)
  then obtain m d where j: "j = JObj m" and d: "map_of m k = Some d" "at_path ks d = Some c"
    by (cases j) (auto simp: bind_eq_Some_conv)
  then have wf: "sorted_keys m" "wf_json d"
    using Cons.prems by (auto dest: map_of_SomeD)
  then obtain d' where d': "edit_at ks d = Inr (True, d')" "weight d' < weight d" "wf_json d'"
    using Cons.IH [of d] Cons.prems d by auto
  have "weight_fields (obj_put k d' m) < weight_fields m"
    using weight_put [OF wf(1) d(1), of d'] Cons.prems(3) d'(2) by auto
  moreover have "wf_json (JObj (obj_put k d' m))"
    using Cons.prems(1) d'(3) j wf_json_put by blast
  ultimately show ?case
    using j d d' by (simp add: try_bind_def)
qed

lemma note_truncated_keeps:
  assumes "wf_json (JObj m)"
  shows "weight (note_truncated path (JObj m)) = weight (JObj m) \<and> wf_json (note_truncated path (JObj m))"
proof -
  define e where "e = (case map_of m tf_key of None \<Rightarrow> JArr [] | Some e \<Rightarrow> e)"
  have "wf_json e"
    using assms by (auto simp: e_def dest: map_of_SomeD split: option.split)
  moreover define e' where "e' = (case e of
      JArr l \<Rightarrow> if JStr (join_str ''.'' path) \<in> set l then JArr l else JArr (l @ [JStr (join_str ''.'' path)]) | e \<Rightarrow> e)"
  ultimately have "wf_json e'"
    by (cases e) auto
  moreover have "note_truncated path (JObj m) = JObj (obj_put tf_key e' m)"
    by (simp add: note_truncated_def e_def e'_def Let_def)
  ultimately show ?thesis
    using assms wf_json_put [OF assms, of e' tf_key] by (simp add: weight_put_tf)
qed

lemma shrink_row_decreases:
  assumes "wf_json row"
  shows "\<exists>b row'. shrink_row ser row = Inr (b, row') \<and> (b \<longrightarrow> weight row' < weight row \<and> wf_json row')"
proof (cases "largest ser row [] None")
  case None
  then have "shrink_row ser row = Inr (False, row)" by (simp add: shrink_row_def)
  then show ?thesis by blast
next
  case (Some b)
  then obtain q c where q: "fst b = q" "q \<noteq> []" "tf_key \<notin> set q" "at_path q row = Some c" "0 < shrinkable_size ser c"
    using largest_points(1) [OF assms Some] by (auto simp: points_to_def)
  then obtain m where m: "edit_at q row = Inr (True, JObj m)" "weight (JObj m) < weight row" "wf_json (JObj m)"
    using edit_at_weight [OF assms q(4,3,5)] by auto
  have "shrink_row ser row = Inr (True, note_truncated q (JObj m))"
    using Some q(1) m(1) by (cases b) (simp add: shrink_row_def try_bind_def)
  then show ?thesis
    using m(2) note_truncated_keeps [OF m(3), of q] by auto
qed

text \<open>
  What fitting promises of a page: it fits and shows a prefix of the rows (a single one
  may be cut), with a cursor behind the last row shown when rows were dropped, or it
  shows the placeholder and its cursor points at the row that did not fit. All other
  members of the envelope are kept.
\<close>

definition page_shows :: "nat \<Rightarrow> bool \<Rightarrow> json option \<Rightarrow> json list \<Rightarrow> json option \<Rightarrow> json list \<Rightarrow> bool" where
  "page_shows offset fits cursor0 rows cursor shown \<longleftrightarrow>
     shown = [omitted_row] \<and> cursor = Some (JStr (show_dec offset)) \<or>
     fits \<and> shown \<noteq> [] \<and> length shown \<le> length rows \<and>
     (1 < length shown \<longrightarrow> shown = take (length shown) rows) \<and>
     cursor = (if length shown < length rows then Some (JStr (show_dec (sat_add64 offset (length shown))))
               else cursor0)"

definition fitted_page ::
    "(json \<Rightarrow> nat option) \<Rightarrow> nat \<Rightarrow> nat \<Rightarrow> (string \<times> json) list \<Rightarrow> json list \<Rightarrow> (string \<times> json) list \<Rightarrow> bool" where
  "fitted_page ser budget offset m rows out \<longleftrightarrow>
     (\<exists>shown. map_of out ''data'' = Some (JArr shown) \<and>
        page_shows offset (\<not> over_budget ser budget (JObj out)) (map_of m ''next_cursor'') rows
          (map_of out ''next_cursor'') shown) \<and>
     (\<forall>k. k \<noteq> ''data'' \<and> k \<noteq> ''next_cursor'' \<longrightarrow> map_of out k = map_of m k)"

lemma page_shows_same: "page_shows offset fits c [r'] c' shown \<Longrightarrow> page_shows offset fits c [r] c' shown"
  by (auto simp: page_shows_def)

lemma page_shows_more:
  "page_shows offset fits (Some (JStr (show_dec (sat_add64 offset (length rows))))) rows c' shown \<Longrightarrow>
   page_shows offset fits c (rows @ [r]) c' shown"
  by (cases "length shown = length rows") (auto simp: page_shows_def)

lemma fitted_page_mono:
  assumes "fitted_page ser budget offset m' rows' out"
    and "\<And>fits c' shown. page_shows offset fits (map_of m' ''next_cursor'') rows' c' shown \<Longrightarrow>
           page_shows offset fits (map_of m ''next_cursor'') rows c' shown"
    and "\<And>k. k \<noteq> ''data'' \<Longrightarrow> k \<noteq> ''next_cursor'' \<Longrightarrow> map_of m' k = map_of m k"
  shows "fitted_page ser budget offset m rows out"
  using assms(1) unfolding fitted_page_def by (elim conjE exE) (intro conjI exI, assumption, erule assms(2), simp add: assms(3))

lemma fit_loop_one:
  assumes "sorted_keys m" "map_of m ''data'' = Some (JArr [r])" "wf_json r"
  shows "\<exists>out. fit_loop ser budget offset (JObj m) = Some (Inr (JObj out)) \<and>
    fitted_page ser budget offset m [r] out"
  using assms
proof (induction "weight r" arbitrary: r m rule: less_induct)
  case less
  show ?case
  proof (cases "over_budget ser budget (JObj m)")
    case False
    then have "fit_loop ser budget offset (JObj m) = Some (Inr (JObj m))"
      by (simp add: fit_loop.simps)
    then show ?thesis
      using less.prems False by (auto simp: fitted_page_def page_shows_def)
  next
    case True
    obtain b r' where s: "shrink_row ser r = Inr (b, r')" "b \<Longrightarrow> weight r' < weight r \<and> wf_json r'"
      using shrink_row_decreases [OF less.prems(3)] by blast
    show ?thesis
    proof (cases b)
      case b: True
      let ?m = "obj_put ''data'' (JArr [r']) m"
      have "fit_loop ser budget offset (JObj m) = fit_loop ser budget offset (JObj ?m)"
        using True less.prems(2) s(1) b by (subst fit_loop.simps) (simp add: fit_step_def try_bind_def)
      moreover obtain out where "fit_loop ser budget offset (JObj ?m) = Some (Inr (JObj out))"
          "fitted_page ser budget offset ?m [r'] out"
        using less.hyps [of r' ?m] s(2) b less.prems(1) by (auto simp: sorted_obj_put map_of_obj_put)
      moreover from this(2) have "fitted_page ser budget offset m [r] out"
        by (rule fitted_page_mono) (use less.prems(1) page_shows_same in \<open>auto simp: map_of_obj_put\<close>)
      ultimately show ?thesis
        by auto
    next
      case b: False
      let ?m = "obj_put ''next_cursor'' (JStr (show_dec offset)) (obj_put ''data'' (JArr [omitted_row]) m)"
      have "fit_loop ser budget offset (JObj m) = Some (Inr (JObj ?m))"
        using True less.prems(2) s(1) b by (subst fit_loop.simps) (simp add: fit_step_def try_bind_def)
      then show ?thesis
        using less.prems(1) by (auto simp: fitted_page_def page_shows_def map_of_obj_put sorted_obj_put)
    qed
  qed
qed

lemma fit_loop_rows:
  assumes "sorted_keys m" "map_of m ''data'' = Some (JArr rows)" "rows \<noteq> []" "\<forall>r\<in>set rows. wf_json r"
  shows "\<exists>out. fit_loop ser budget offset (JObj m) = Some (Inr (JObj out)) \<and>
    fitted_page ser budget offset m rows out"
  using assms
proof (induction rows arbitrary: m rule: rev_induct)
  case (snoc r rows)
  show ?case
  proof (cases "rows = []")
    case True
    then show ?thesis
      using fit_loop_one [of m r] snoc.prems by simp
  next
    case False
    let ?m = "obj_put ''next_cursor'' (JStr (show_dec (sat_add64 offset (length rows)))) (obj_put ''data'' (JArr rows) m)"
    show ?thesis
    proof (cases "over_budget ser budget (JObj m)")
      case True
      then have "fit_loop ser budget offset (JObj m) = fit_loop ser budget offset (JObj ?m)"
        using snoc.prems(2) False by (subst fit_loop.simps) (simp add: fit_step_def try_bind_def)
      moreover obtain out where "fit_loop ser budget offset (JObj ?m) = Some (Inr (JObj out))"
          and f: "fitted_page ser budget offset ?m rows out"
        using snoc.IH [of ?m] snoc.prems False by (auto simp: sorted_obj_put map_of_obj_put)
      moreover have "fitted_page ser budget offset m (rows @ [r]) out"
        using f by (rule fitted_page_mono) (use snoc.prems(1) page_shows_more in \<open>auto simp: map_of_obj_put sorted_obj_put\<close>)
      ultimately show ?thesis by auto
    next
      case False
      then have "fit_loop ser budget offset (JObj m) = Some (Inr (JObj m))"
        by (simp add: fit_loop.simps)
      then show ?thesis
        using snoc.prems False by (auto simp: fitted_page_def page_shows_def)
    qed
  qed
qed simp

section \<open>Properties\<close>

text \<open>
  C13: Following the cursors visits every row once. With a limit that \<^verbatim>\<open>row_limit\<close> accepts,
  a client that starts without a cursor and requests the page of each returned cursor
  stops after \<open>\<lceil>n / limit\<rceil>\<close> requests (one for an empty result) and the pages it got,
  concatenated, are the rows in order.
\<close>

theorem paging_complete:
  assumes "row_limit lim = Inr n" "length items \<le> u64_max"
  shows "walk (max 1 (div_ceil (length items) n)) items n None = Some (Inr items)"
proof -
  have n: "0 < n"
    using assms(1) by (auto simp: row_limit_def Let_def split: if_splits)
  have "length items \<le> max 1 (div_ceil (length items) n) * n"
    using div_ceil_le_iff [OF n, of "length items" "max 1 (div_ceil (length items) n)"] by simp
  then show ?thesis
    using walk_from [OF n, of 0 items None "max 1 (div_ceil (length items) n)"] assms(2)
    by (simp add: parse_offset_cursor_def)
qed

theorem paging_complete_witness:
  "walk 2 (replicate 70 True) 50 None = Some (Inr (replicate 70 True))"
proof -
  have "row_limit None = Inr 50"
    by (simp add: row_limit_def default_query_rows_def max_query_rows_def)
  moreover have "max 1 (div_ceil (length (replicate 70 True)) 50) = 2"
    by (simp add: div_ceil_def)
  ultimately show ?thesis
    using paging_complete [of None 50 "replicate 70 True"] by (simp add: u64_max_def del: walk.simps)
qed

lemma filter_below:
  assumes "sorted xs" "i < length xs"
  shows "Suc i \<le> length (filter (\<lambda>y. y \<le> xs ! i) xs)" and "length (filter (\<lambda>y. y < xs ! i) xs) \<le> i"
proof -
  have "filter (\<lambda>y. y \<le> xs ! i) (take (Suc i) xs) = take (Suc i) xs"
    using assms by (auto simp: filter_id_conv in_set_conv_nth intro!: sorted_nth_mono)
  moreover have "length (filter (\<lambda>y. y \<le> xs ! i) xs) =
      length (filter (\<lambda>y. y \<le> xs ! i) (take (Suc i) xs)) + length (filter (\<lambda>y. y \<le> xs ! i) (drop (Suc i) xs))"
    by (metis append_take_drop_id filter_append length_append)
  ultimately show "Suc i \<le> length (filter (\<lambda>y. y \<le> xs ! i) xs)"
    using assms(2) by simp
  have "filter (\<lambda>y. y < xs ! i) (drop i xs) = []"
    using assms by (auto simp: filter_empty_conv in_set_conv_nth not_less intro!: sorted_nth_mono)
  moreover have "length (filter (\<lambda>y. y < xs ! i) xs) =
      length (filter (\<lambda>y. y < xs ! i) (take i xs)) + length (filter (\<lambda>y. y < xs ! i) (drop i xs))"
    by (metis append_take_drop_id filter_append length_append)
  ultimately show "length (filter (\<lambda>y. y < xs ! i) xs) \<le> i"
    using length_filter_le [of "\<lambda>y. y < xs ! i" "take i xs"] by simp
qed

text \<open>
  C19: The nearest-rank quantile. For sorted samples and a percentage up to 100 the result is a
  sample, at least \<open>p\<close> percent of the samples are at or below it, and fewer than \<open>p\<close> percent
  lie strictly below it.
\<close>

theorem nearest_rank_correct:
  assumes "sorted xs" "xs \<noteq> []" "p \<le> 100"
  shows "\<exists>x. nearest_rank xs p = Some x \<and> x \<in> set xs \<and>
     p * length xs \<le> 100 * length (filter (\<lambda>y. y \<le> x) xs) \<and>
     (0 < p \<longrightarrow> 100 * length (filter (\<lambda>y. y < x) xs) < p * length xs)"
proof -
  let ?n = "length xs"
  define i where "i = min (div_ceil (p * ?n) 100 - 1) (?n - 1)"
  have i: "i < ?n"
    using assms(2) unfolding i_def by (cases xs) auto
  let ?q = "div_ceil (p * ?n) 100"
  note ceil = div_ceil_le_iff [of 100 "p * ?n"]
  have "?q \<le> ?n"
    using assms(3) ceil [of ?n] by simp
  then have iq: "i = ?q - 1"
    unfolding i_def by simp
  have "p * ?n \<le> 100 * Suc i"
  proof -
    have "?q \<le> Suc i"
      using iq by linarith
    then show ?thesis
      using ceil [of "Suc i"] by linarith
  qed
  moreover have "100 * i < p * ?n" if "0 < p"
  proof -
    have "0 < p * ?n"
      using that assms(2) by simp
    then have "\<not> ?q \<le> 0"
      using ceil [of 0] by linarith
    then have "\<not> ?q \<le> i"
      using iq by linarith
    then show ?thesis
      using ceil [of i] by linarith
  qed
  ultimately have "p * ?n \<le> 100 * length (filter (\<lambda>y. y \<le> xs ! i) xs) \<and>
      (0 < p \<longrightarrow> 100 * length (filter (\<lambda>y. y < xs ! i) xs) < p * ?n)"
    using mult_le_mono2 [OF filter_below(1) [OF assms(1) i], of 100]
      mult_le_mono2 [OF filter_below(2) [OF assms(1) i], of 100] by (metis le_less_trans le_trans)
  moreover have "nearest_rank xs p = Some (xs ! i)"
    using assms(2) by (simp add: nearest_rank_def i_def Let_def)
  ultimately show ?thesis
    using i by auto
qed

theorem nearest_rank_correct_witness:
  "\<exists>x. nearest_rank [10, 20, 30, 40] 50 = Some x \<and> 50 * 4 \<le> 100 * length (filter (\<lambda>y. y \<le> x) [10, 20, 30, 40])"
  using nearest_rank_correct [of "[10, 20, 30, 40]" 50] by auto

text \<open>
  C14: Fitting a page to the budget ends. For an envelope that is an object with a non-empty
  array of rows, \<^verbatim>\<open>fit_json\<close> returns, whatever the serialiser measures: within budget it
  returns the envelope itself, otherwise the result is marked truncated and is a fitted
  page: it fits and shows a prefix of the rows with the matching resume cursor, or shows
  the placeholder.
\<close>

theorem fit_json_returns:
  assumes "sorted_keys m" "map_of m ''data'' = Some (JArr rows)" "rows \<noteq> []" "\<forall>r\<in>set rows. wf_json r"
  shows "\<exists>out. fit_json ser (JObj m) budget offset = Some (Inr (JObj out)) \<and>
    (if over_budget ser budget (JObj m)
     then map_of out ''truncated'' = Some (JBool True) \<and>
          fitted_page ser budget offset (obj_put ''truncated'' (JBool True) m) rows out
     else out = m)"
proof (cases "over_budget ser budget (JObj m)")
  case True
  let ?m = "obj_put ''truncated'' (JBool True) m"
  obtain out where "fit_loop ser budget offset (JObj ?m) = Some (Inr (JObj out))"
      "fitted_page ser budget offset ?m rows out"
    using fit_loop_rows [of ?m rows ser budget offset] assms by (auto simp: sorted_obj_put map_of_obj_put)
  moreover from this(2) have "map_of out ''truncated'' = map_of ?m ''truncated''"
    unfolding fitted_page_def by (elim conjE) (erule allE [of _ "''truncated''"], simp)
  ultimately show ?thesis
    using True assms(1) by (simp add: fit_json_def map_of_obj_put)
qed (simp add: fit_json_def)

theorem fit_json_returns_witness:
  "\<exists>out. fit_json (\<lambda>v. Some (size v)) (JObj [(''data'', JArr [JNull, JStr ''a''])]) 0 7 = Some (Inr (JObj out)) \<and>
     map_of out ''truncated'' = Some (JBool True)"
  using fit_json_returns [of "[(''data'', JArr [JNull, JStr ''a''])]" "[JNull, JStr ''a'']"
      "\<lambda>v. Some (size v)" 0 7]
  by (auto simp: over_budget_def)

text \<open>
  A row that cannot be shrunk repeats. When the only row of a page is over budget and has
  nothing to cut, the page shows the placeholder and a cursor that parses to the offset
  of the request itself: a client that follows it asks for the same row again.
\<close>

theorem omitted_row_repeats:
  assumes "sorted_keys m" "map_of m ''data'' = Some (JArr [r])" "shrink_row ser r = Inr (False, r')"
    and "\<And>v. over_budget ser budget v" "offset \<le> u64_max"
  shows "\<exists>out c. fit_json ser (JObj m) budget offset = Some (Inr (JObj out)) \<and>
    map_of out ''data'' = Some (JArr [omitted_row]) \<and>
    map_of out ''next_cursor'' = Some (JStr c) \<and> parse_offset_cursor (Some c) = Inr offset"
proof -
  let ?m = "obj_put ''truncated'' (JBool True) m"
  let ?out = "obj_put ''next_cursor'' (JStr (show_dec offset)) (obj_put ''data'' (JArr [omitted_row]) ?m)"
  have "map_of ?m ''data'' = Some (JArr [r])"
    using assms(1,2) by (simp add: map_of_obj_put)
  then have "fit_json ser (JObj m) budget offset = Some (Inr (JObj ?out))"
    using assms(3,4) by (simp add: fit_json_def fit_loop.simps [of ser budget offset "JObj ?m"] fit_step_def try_bind_def)
  then show ?thesis
    using assms(1,5) by (auto simp: map_of_obj_put sorted_obj_put parse_offset_show)
qed

theorem omitted_row_repeats_witness:
  "\<exists>out c. fit_json (\<lambda>v. Some 100) (JObj [(''data'', JArr [JNum ''1''])]) 80 7 = Some (Inr (JObj out)) \<and>
    map_of out ''next_cursor'' = Some (JStr c) \<and> parse_offset_cursor (Some c) = Inr 7"
  using omitted_row_repeats [of "[(''data'', JArr [JNum ''1''])]" "JNum ''1''" "\<lambda>v. Some 100" "JNum ''1''" 80 7]
  by (auto simp: over_budget_def shrink_row_def u64_max_def)

end
