(* ===== verification/Hotpaths.thy ===== *)
theory Hotpaths
  imports Timeline Query_Paging
begin

text \<open>
  \<^verbatim>\<open>src/analysis/hotpaths.rs\<close>: spans aggregated by caller path, by function or by inline
  chain. The hash map \<^verbatim>\<open>by_path\<close> is an association list in insertion order; that its
  iteration order does not matter is a theorem below. Sums wrap as in a release build.
\<close>

section \<open>Rows and options\<close>

record hotpath_options =
  ho_function_contains :: "string option"
  ho_group :: hotpath_group
  ho_sort :: hotpath_sort
  ho_max_depth :: "nat option"

definition hotpath_options_default :: hotpath_options where
  "hotpath_options_default =
     \<lparr>ho_function_contains = None, ho_group = GroupPath, ho_sort = SortInclusive, ho_max_depth = None\<rparr>"

record hotpath_row =
  hr_path :: string
  hr_complete_calls :: nat
  hr_observed_entries :: nat
  hr_inclusive_sum_ns :: "u64 option"
  hr_self_sum_ns :: "u64 option"
  hr_p50_ns :: "u64 option"
  hr_p95_ns :: "u64 option"
  hr_p99_ns :: "u64 option"
  hr_excluded_incomplete :: nat
  hr_n_eligible :: nat
  hr_instructions :: "nat option"

record agg =
  agg_complete :: nat
  agg_observed :: nat
  agg_excluded :: nat
  agg_inclusives :: "u64 list"
  agg_selfs :: "u64 list"

definition agg_default :: agg where
  "agg_default =
     \<lparr>agg_complete = 0, agg_observed = 0, agg_excluded = 0, agg_inclusives = [], agg_selfs = []\<rparr>"

text \<open>\<^verbatim>\<open>entry(k).or_default()\<close> followed by an update.\<close>

fun entry_update :: "'k \<Rightarrow> 'v \<Rightarrow> ('v \<Rightarrow> 'v) \<Rightarrow> ('k \<times> 'v) list \<Rightarrow> ('k \<times> 'v) list" where
  "entry_update k d f [] = [(k, f d)]"
| "entry_update k d f ((k', v) # m) = (if k = k' then (k', f v) # m else (k', v) # entry_update k d f m)"

section \<open>Caller paths\<close>

definition span_by_id :: "function_span list \<Rightarrow> local_id \<Rightarrow> function_span option" where
  "span_by_id spans i = List.find (\<lambda>s. sp_id s = i) (rev spans)"

definition child_index :: "function_span list \<Rightarrow> (local_id \<rightharpoonup> local_id list)" where
  "child_index spans =
     fold (\<lambda>sp m. case sp_parent sp of
             None \<Rightarrow> m
           | Some p \<Rightarrow> m(p \<mapsto> (case m p of None \<Rightarrow> [] | Some l \<Rightarrow> l) @ [sp_id sp]))
       spans Map.empty"

definition frame_name :: "(local_id \<rightharpoonup> string) \<Rightarrow> function_span \<Rightarrow> string" where
  "frame_name names sp = (case span_name names sp of None \<Rightarrow> ''<unknown>'' | Some n \<Rightarrow> n)"

definition max_path_depth :: nat where "max_path_depth = 64"

function climb ::
    "function_span list \<Rightarrow> (local_id \<rightharpoonup> string) \<Rightarrow> function_span list \<Rightarrow> function_span \<Rightarrow>
     function_span list \<times> string option" where
  "climb spans cache chain cur =
     (case Option.bind (sp_parent cur) (span_by_id spans) of
        None \<Rightarrow> (chain, None)
      | Some parent \<Rightarrow>
          if sp_id parent = sp_id cur then (chain, None)
          else (case cache (sp_id parent) of
                  Some p \<Rightarrow> (chain, Some p)
                | None \<Rightarrow>
                    if length chain \<ge> max_path_depth then (chain, Some ''...'')
                    else climb spans cache (chain @ [parent]) parent))"
  by pat_completeness auto
termination
  by (relation "measure (\<lambda>(spans, cache, chain, cur). max_path_depth - length chain)") auto

declare climb.simps [simp del]

definition extend_path :: "string \<Rightarrow> string \<Rightarrow> string" where
  "extend_path path name =
     (if path = [] then name
      else if length (filter (\<lambda>c. c = CHR ''/'') path) \<ge> max_path_depth then path @ ''/...''
      else path @ ''/'' @ name)"

fun name_chain ::
    "(local_id \<rightharpoonup> string) \<Rightarrow> function_span list \<Rightarrow> string \<Rightarrow> (local_id \<rightharpoonup> string) \<Rightarrow>
     string \<times> (local_id \<rightharpoonup> string)" where
  "name_chain names [] path cache = (path, cache)"
| "name_chain names (node # nodes) path cache =
     (let path' = extend_path path (frame_name names node)
      in name_chain names nodes path' (cache(sp_id node \<mapsto> path')))"

definition path_of ::
    "function_span \<Rightarrow> function_span list \<Rightarrow> (local_id \<rightharpoonup> string) \<Rightarrow> (local_id \<rightharpoonup> string) \<Rightarrow>
     string \<times> (local_id \<rightharpoonup> string)" where
  "path_of sp spans names cache =
     (case cache (sp_id sp) of
        Some p \<Rightarrow> (p, cache)
      | None \<Rightarrow>
          (let (chain, prefix) = climb spans cache [sp] sp
           in name_chain names (rev chain) (case prefix of None \<Rightarrow> [] | Some p \<Rightarrow> p) cache))"

definition keep_innermost :: "string \<Rightarrow> string \<Rightarrow> string list \<Rightarrow> string \<Rightarrow> nat \<Rightarrow> string" where
  "keep_innermost mark sep parts path depth =
     (if length parts \<le> depth then path
      else mark @ join_str sep (drop (length parts - depth) parts))"

definition truncate_depth :: "string \<Rightarrow> nat \<Rightarrow> string" where
  "truncate_depth path depth = keep_innermost ''.../'' ''/'' (split_ch (CHR ''/'') path) path depth"

definition truncate_inline_depth :: "string \<Rightarrow> nat \<Rightarrow> string" where
  "truncate_inline_depth path depth =
     keep_innermost ''... > '' '' > '' (split_str '' > '' path) path depth"

section \<open>Aggregation\<close>

definition span_contained :: "selection \<Rightarrow> function_span \<Rightarrow> bool" where
  "span_contained sel sp \<longleftrightarrow>
     (case (sel_start sel, sel_end sel, start_of sp, end_of sp) of
        (Some a, Some b, Some s, Some e) \<Rightarrow> s \<ge> a \<and> e \<le> b
      | (None, None, _, _) \<Rightarrow> True
      | (Some a, None, Some s, _) \<Rightarrow> s \<ge> a
      | (None, Some b, _, Some e) \<Rightarrow> e \<le> b
      | _ \<Rightarrow> False)"

fun kid_intervals ::
    "function_span list \<Rightarrow> local_id list \<Rightarrow> (u64 \<times> u64) list \<Rightarrow> (u64 \<times> u64) list \<times> bool" where
  "kid_intervals spans [] civ = (civ, True)"
| "kid_intervals spans (kid # kids) civ =
     (case span_by_id spans kid of
        None \<Rightarrow> kid_intervals spans kids civ
      | Some ch \<Rightarrow>
          if sp_completeness ch \<noteq> Complete then (civ, False)
          else (case (start_of ch, end_of ch) of
                  (Some s, Some e) \<Rightarrow> kid_intervals spans kids (civ @ [(s, e)])
                | _ \<Rightarrow> (civ, False)))"

definition span_self :: "function_span list \<Rightarrow> (local_id \<rightharpoonup> local_id list) \<Rightarrow> function_span \<Rightarrow> u64 option" where
  "span_self spans children sp =
     (case (start_of sp, end_of sp) of
        (Some ps, Some pe) \<Rightarrow>
          (let (civ, certain) = kid_intervals spans (case children (sp_id sp) of None \<Rightarrow> [] | Some k \<Rightarrow> k) []
           in self_elapsed ps pe civ certain)
      | _ \<Rightarrow> None)"

definition agg_add ::
    "function_span list \<Rightarrow> selection \<Rightarrow> (local_id \<rightharpoonup> local_id list) \<Rightarrow> function_span \<Rightarrow> agg \<Rightarrow> agg" where
  "agg_add spans sel children sp e =
     (let e = e\<lparr>agg_observed := agg_observed e + 1\<rparr>
      in if sp_completeness sp \<noteq> Complete \<or> \<not> span_contained sel sp
         then e\<lparr>agg_excluded := agg_excluded e + 1\<rparr>
         else e\<lparr>agg_complete := agg_complete e + 1,
                agg_inclusives := agg_inclusives e @
                  (case inclusive_elapsed (sp_start sp) (sp_end sp) (sp_completeness sp) of
                     None \<Rightarrow> [] | Some i \<Rightarrow> [i]),
                agg_selfs := agg_selfs e @
                  (case span_self spans children sp of None \<Rightarrow> [] | Some s \<Rightarrow> [s])\<rparr>)"

definition thread_selected :: "selection \<Rightarrow> thread_id \<Rightarrow> bool" where
  "thread_selected sel t \<longleftrightarrow> (case sel_thread sel of None \<Rightarrow> True | Some want \<Rightarrow> t = want)"

definition passes_filter :: "hotpath_options \<Rightarrow> string \<Rightarrow> bool" where
  "passes_filter opts path \<longleftrightarrow>
     (case ho_function_contains opts of None \<Rightarrow> True | Some f \<Rightarrow> contains_str path f)"

definition group_path ::
    "function_span list \<Rightarrow> (local_id \<rightharpoonup> string) \<Rightarrow> hotpath_options \<Rightarrow> function_span \<Rightarrow>
     (local_id \<rightharpoonup> string) \<Rightarrow> string \<times> (local_id \<rightharpoonup> string)" where
  "group_path spans names opts sp cache =
     (case ho_group opts of
        GroupPath \<Rightarrow>
          (let (full, cache') = path_of sp spans names cache
           in (case ho_max_depth opts of
                 Some d \<Rightarrow> if d > 0 then truncate_depth full d else full
               | None \<Rightarrow> full, cache'))
      | _ \<Rightarrow> (frame_name names sp, cache))"

definition hot_step ::
    "function_span list \<Rightarrow> (local_id \<rightharpoonup> string) \<Rightarrow> selection \<Rightarrow> (local_id \<rightharpoonup> local_id list) \<Rightarrow>
     hotpath_options \<Rightarrow> function_span \<Rightarrow> (local_id \<rightharpoonup> string) \<times> (string \<times> agg) list \<Rightarrow>
     (local_id \<rightharpoonup> string) \<times> (string \<times> agg) list" where
  "hot_step spans names sel children opts sp st =
     (if \<not> thread_selected sel (sp_thread sp) then st
      else (let (path, cache) = group_path spans names opts sp (fst st)
            in if \<not> passes_filter opts path then (cache, snd st)
               else (cache, entry_update path agg_default (agg_add spans sel children sp) (snd st))))"

definition sum64 :: "u64 list \<Rightarrow> u64" where
  "sum64 xs = sum_list xs mod 2 ^ 64"

definition hot_row :: "string \<times> agg \<Rightarrow> hotpath_row" where
  "hot_row pa =
     (let inc = sort (agg_inclusives (snd pa)); n = length inc
      in \<lparr>hr_path = fst pa,
          hr_complete_calls = agg_complete (snd pa),
          hr_observed_entries = agg_observed (snd pa),
          hr_inclusive_sum_ns = (if inc = [] then None else Some (sum64 inc)),
          hr_self_sum_ns = (if agg_selfs (snd pa) = [] then None else Some (sum64 (agg_selfs (snd pa)))),
          hr_p50_ns = nearest_rank inc 50,
          hr_p95_ns = nearest_rank inc 95,
          hr_p99_ns = (if n \<ge> p99_min_samples then nearest_rank inc 99 else None),
          hr_excluded_incomplete = agg_excluded (snd pa),
          hr_n_eligible = n,
          hr_instructions = None\<rparr>)"

fun hot_cmp :: "hotpath_sort \<Rightarrow> hotpath_row \<Rightarrow> hotpath_row \<Rightarrow> ordering" where
  "hot_cmp SortInclusive = cmp_then (cmp_desc hr_inclusive_sum_ns) (cmp_key hr_path)"
| "hot_cmp SortSelfTime =
     cmp_then (cmp_desc hr_self_sum_ns) (cmp_then (cmp_desc hr_inclusive_sum_ns) (cmp_key hr_path))"
| "hot_cmp SortCalls = cmp_then (cmp_desc hr_observed_entries) (cmp_key hr_path)"

definition by_path ::
    "function_span list \<Rightarrow> (local_id \<rightharpoonup> string) \<Rightarrow> selection \<Rightarrow> (local_id \<rightharpoonup> local_id list) \<Rightarrow>
     hotpath_options \<Rightarrow> (string \<times> agg) list" where
  "by_path spans names sel children opts =
     snd (fold (hot_step spans names sel children opts) spans (Map.empty, []))"

definition hotpaths_with ::
    "function_span list \<Rightarrow> (local_id \<rightharpoonup> string) \<Rightarrow> selection \<Rightarrow> (local_id \<rightharpoonup> local_id list) \<Rightarrow>
     hotpath_options \<Rightarrow> hotpath_row list" where
  "hotpaths_with spans names sel children opts =
     sort_by (hot_cmp (ho_sort opts)) (map hot_row (by_path spans names sel children opts))"

definition hotpaths ::
    "function_span list \<Rightarrow> (local_id \<rightharpoonup> string) \<Rightarrow> selection \<Rightarrow> (local_id \<rightharpoonup> local_id list) \<Rightarrow>
     hotpath_row list" where
  "hotpaths spans names sel children = hotpaths_with spans names sel children hotpath_options_default"

section \<open>Inline rows\<close>

definition inline_path :: "(local_id \<rightharpoonup> string) \<Rightarrow> inline_row \<Rightarrow> string" where
  "inline_path names r =
     foldl (\<lambda>path c. path @ '' > '' @ c)
       (case Option.bind (il_function r) names of None \<Rightarrow> ''<unknown>'' | Some n \<Rightarrow> n)
       (rev (il_chain r))"

definition inline_step ::
    "(local_id \<rightharpoonup> string) \<Rightarrow> selection \<Rightarrow> hotpath_options \<Rightarrow> inline_row \<Rightarrow>
     (string \<times> (u64 \<times> u64 \<times> u64)) list \<Rightarrow> (string \<times> (u64 \<times> u64 \<times> u64)) list" where
  "inline_step names sel opts r m =
     (if \<not> thread_selected sel (il_thread r) then m
      else (let path = inline_path names r
            in if \<not> passes_filter opts path then m
               else (let path' = (case ho_max_depth opts of
                                    Some d \<Rightarrow> if d > 0 then truncate_inline_depth path d else path
                                  | None \<Rightarrow> path)
                     in entry_update path' (0, 0, 0)
                          (\<lambda>(insns, blocks, elapsed).
                             ((insns + count_val (il_instructions r)) mod 2 ^ 64,
                              (blocks + count_val (il_blocks r)) mod 2 ^ 64,
                              (elapsed + count_val (il_elapsed_ns r)) mod 2 ^ 64)) m)))"

definition inline_hot_row :: "string \<times> (u64 \<times> u64 \<times> u64) \<Rightarrow> hotpath_row" where
  "inline_hot_row pt =
     (case pt of (path, insns, blocks, elapsed) \<Rightarrow>
        \<lparr>hr_path = path, hr_complete_calls = 0, hr_observed_entries = blocks,
         hr_inclusive_sum_ns = None, hr_self_sum_ns = Some elapsed, hr_p50_ns = None,
         hr_p95_ns = None, hr_p99_ns = None, hr_excluded_incomplete = 0, hr_n_eligible = blocks,
         hr_instructions = Some insns\<rparr>)"

fun inline_cmp :: "hotpath_sort \<Rightarrow> hotpath_row \<Rightarrow> hotpath_row \<Rightarrow> ordering" where
  "inline_cmp SortSelfTime = cmp_then (cmp_desc hr_self_sum_ns) (cmp_key hr_path)"
| "inline_cmp _ = cmp_then (cmp_desc hr_instructions) (cmp_key hr_path)"

definition inline_rows ::
    "inline_row list \<Rightarrow> (local_id \<rightharpoonup> string) \<Rightarrow> selection \<Rightarrow> hotpath_options \<Rightarrow> hotpath_row list" where
  "inline_rows rows names sel opts =
     sort_by (inline_cmp (ho_sort opts)) (map inline_hot_row (fold (inline_step names sel opts) rows []))"

section \<open>Lemmas on aggregation\<close>

interpretation hot: comparator "hot_cmp s" for s
  by (cases s) (auto intro!: comparator_then comparator_key comparator_desc)

interpretation inline: comparator "inline_cmp s" for s
  by (cases s) (auto intro!: comparator_then comparator_key comparator_desc)

lemma hot_cmp_path: "hot_cmp s a b = Equal \<Longrightarrow> hr_path a = hr_path b"
  by (cases s) (auto simp: cmp_then_Equal cmp_key_Equal)

lemma inline_cmp_path: "inline_cmp s a b = Equal \<Longrightarrow> hr_path a = hr_path b"
  by (cases s) (auto simp: cmp_then_Equal cmp_key_Equal)

lemma fst_entry_update: "fst ` set (entry_update k d f m) = insert k (fst ` set m)"
  by (induction k d f m rule: entry_update.induct) auto

lemma distinct_entry_update:
  "distinct (map fst m) \<Longrightarrow> distinct (map fst (entry_update k d f m))"
proof (induction k d f m rule: entry_update.induct)
  case (2 k d f k' v m)
  then show ?case
    using fst_entry_update [of k d f m] by (auto simp del: set_map simp flip: set_map)
qed simp

lemma sum_entry_update:
  assumes "g d = (0::nat)" "\<And>v. g (f v) = g v + n"
  shows "(\<Sum>x\<leftarrow>entry_update k d f m. g (snd x)) = (\<Sum>x\<leftarrow>m. g (snd x)) + n"
  using assms by (induction k d f m rule: entry_update.induct) auto

lemma entry_update_all:
  assumes "\<forall>x\<in>set m. P (snd x)" "P d" "\<And>v. P v \<Longrightarrow> P (f v)"
  shows "\<forall>x\<in>set (entry_update k d f m). P (snd x)"
  using assms by (induction k d f m rule: entry_update.induct) auto

lemma hot_step_snd:
  "snd (hot_step spans names sel children opts sp st) =
     (if thread_selected sel (sp_thread sp) \<and> passes_filter opts (fst (group_path spans names opts sp (fst st)))
      then entry_update (fst (group_path spans names opts sp (fst st))) agg_default
             (agg_add spans sel children sp) (snd st)
      else snd st)"
  by (cases "group_path spans names opts sp (fst st)") (simp add: hot_step_def)

lemma distinct_by_path: "distinct (map fst (by_path spans names sel children opts))"
proof -
  have "distinct (map fst (snd st)) \<Longrightarrow>
      distinct (map fst (snd (fold (hot_step spans names sel children opts) sps st)))" for sps st
    by (induction sps arbitrary: st) (auto simp: hot_step_snd distinct_entry_update)
  then show ?thesis
    by (simp add: by_path_def)
qed

lemma hr_path_hot_row [simp]: "hr_path (hot_row pa) = fst pa"
  by (simp add: hot_row_def Let_def)

text \<open>
  Hash-map order does not matter. The table of aggregates is iterated in an unspecified
  order; for every order the sorted rows are the same, since no two aggregates share a
  path and every sort order ends with the path.
\<close>

theorem hotpaths_order_independent:
  assumes "mset table = mset (by_path spans names sel children opts)"
  shows "sort_by (hot_cmp (ho_sort opts)) (map hot_row table) = hotpaths_with spans names sel children opts"
  unfolding hotpaths_with_def
proof (rule hot.sort_by_cong)
  show "mset (map hot_row table) = mset (map hot_row (by_path spans names sel children opts))"
    using assms by simp
  fix a b
  assume ab: "a \<in> set (map hot_row table)" "b \<in> set (map hot_row table)" "hot_cmp (ho_sort opts) a b = Equal"
  have "set table = set (by_path spans names sel children opts)"
    using assms by (metis set_mset_mset)
  then have "inj_on fst (set table)"
    using distinct_by_path [of spans names sel children opts] by (simp add: distinct_map)
  then show "a = b"
    using ab(1,2) hot_cmp_path [OF ab(3)] by (force simp: inj_on_def)
qed

theorem hotpaths_order_independent_witness:
  "sort_by (hot_cmp SortInclusive) (map hot_row (rev (by_path [span_at_zero] Map.empty
      \<lparr>sel_thread = None, sel_start = None, sel_end = None\<rparr> Map.empty hotpath_options_default))) =
   hotpaths_with [span_at_zero] Map.empty \<lparr>sel_thread = None, sel_start = None, sel_end = None\<rparr> Map.empty
      hotpath_options_default"
proof -
  let ?table = "by_path [span_at_zero] Map.empty \<lparr>sel_thread = None, sel_start = None, sel_end = None\<rparr>
    Map.empty hotpath_options_default"
  have "mset (rev ?table) = mset ?table"
    by simp
  from hotpaths_order_independent [OF this] show ?thesis
    by (simp add: hotpath_options_default_def)
qed

definition span_counts :: "selection \<Rightarrow> function_span \<Rightarrow> bool" where
  "span_counts sel sp \<longleftrightarrow> sp_completeness sp = Complete \<and> span_contained sel sp"

lemma agg_add_counts:
  "agg_observed (agg_add spans sel children sp e) = agg_observed e + 1"
  "agg_complete (agg_add spans sel children sp e) = agg_complete e + (if span_counts sel sp then 1 else 0)"
  "agg_excluded (agg_add spans sel children sp e) = agg_excluded e + (if span_counts sel sp then 0 else 1)"
  by (auto simp: agg_add_def span_counts_def Let_def)

definition span_duration :: "function_span \<Rightarrow> nat" where
  "span_duration sp = (case (start_of sp, end_of sp) of (Some s, Some e) \<Rightarrow> e - s | _ \<Rightarrow> 0)"

lemma self_elapsed_le: "self_elapsed a b civ c = Some s \<Longrightarrow> s \<le> b - a"
  by (auto simp: self_elapsed_def checked_sub_def split: if_splits)

lemma agg_add_times:
  "\<exists>i s. agg_inclusives (agg_add spans sel children sp e) = agg_inclusives e @ i \<and>
     agg_selfs (agg_add spans sel children sp e) = agg_selfs e @ s \<and>
     length s \<le> length i \<and> length i \<le> (if span_counts sel sp then 1 else 0) \<and>
     sum_list s \<le> sum_list i \<and> sum_list i \<le> span_duration sp"
proof (cases "span_counts sel sp")
  case True
  then have c: "sp_completeness sp = Complete" "span_contained sel sp"
    by (auto simp: span_counts_def)
  define i where "i = (case inclusive_elapsed (sp_start sp) (sp_end sp) (sp_completeness sp) of None \<Rightarrow> [] | Some i \<Rightarrow> [i])"
  define s where "s = (case span_self spans children sp of None \<Rightarrow> [] | Some s \<Rightarrow> [s])"
  have "agg_inclusives (agg_add spans sel children sp e) = agg_inclusives e @ i"
      "agg_selfs (agg_add spans sel children sp e) = agg_selfs e @ s"
    using c by (simp_all add: agg_add_def i_def s_def Let_def)
  moreover have "length s \<le> length i \<and> length i \<le> 1 \<and> sum_list s \<le> sum_list i \<and> sum_list i \<le> span_duration sp"
    using c(1)
    by (auto simp: i_def s_def inclusive_elapsed_def span_self_def span_duration_def
        split: option.split prod.splits dest: self_elapsed_le)
  ultimately show ?thesis
    using True by auto
next
  case False
  then have "agg_inclusives (agg_add spans sel children sp e) = agg_inclusives e @ []"
      "agg_selfs (agg_add spans sel children sp e) = agg_selfs e @ []"
    by (auto simp: agg_add_def span_counts_def Let_def)
  then show ?thesis
    using False by (metis le_zero_eq list.size(3) order_refl sum_list.Nil le0)
qed

definition agg_ok :: "agg \<Rightarrow> bool" where
  "agg_ok a \<longleftrightarrow> agg_observed a = agg_complete a + agg_excluded a \<and>
     length (agg_selfs a) \<le> length (agg_inclusives a) \<and> length (agg_inclusives a) \<le> agg_complete a \<and>
     sum_list (agg_selfs a) \<le> sum_list (agg_inclusives a)"

lemma agg_ok_default: "agg_ok agg_default"
  by (simp add: agg_ok_def agg_default_def)

lemma agg_ok_add: "agg_ok a \<Longrightarrow> agg_ok (agg_add spans sel children sp a)"
  using agg_add_times [of spans sel children sp a] agg_add_counts [of spans sel children sp a]
  by (auto simp: agg_ok_def split: if_splits)

lemma by_path_ok: "\<forall>x\<in>set (by_path spans names sel children opts). agg_ok (snd x)"
proof -
  have "\<forall>x\<in>set (snd st). agg_ok (snd x) \<Longrightarrow>
      \<forall>x\<in>set (snd (fold (hot_step spans names sel children opts) sps st)). agg_ok (snd x)" for sps st
  proof (induction sps arbitrary: st)
    case (Cons sp sps)
    have "\<forall>x\<in>set (snd (hot_step spans names sel children opts sp st)). agg_ok (snd x)"
      using Cons.prems entry_update_all [where P = agg_ok, OF Cons.prems agg_ok_default agg_ok_add]
      by (simp add: hot_step_snd)
    from Cons.IH [OF this] show ?case by simp
  qed simp
  from this [of "(Map.empty, [])" spans] show ?thesis
    by (simp add: by_path_def)
qed

lemma by_path_sum:
  assumes "g agg_default = (0::nat)" "\<And>sp a. g (agg_add spans sel children sp a) = g a + n sp"
    and "ho_function_contains opts = None"
  shows "(\<Sum>x\<leftarrow>by_path spans names sel children opts. g (snd x)) =
    (\<Sum>sp\<leftarrow>filter (\<lambda>sp. thread_selected sel (sp_thread sp)) spans. n sp)"
proof -
  have "(\<Sum>x\<leftarrow>snd (fold (hot_step spans names sel children opts) sps st). g (snd x)) =
      (\<Sum>x\<leftarrow>snd st. g (snd x)) + (\<Sum>sp\<leftarrow>filter (\<lambda>sp. thread_selected sel (sp_thread sp)) sps. n sp)" for sps st
    by (induction sps arbitrary: st)
       (auto simp: hot_step_snd passes_filter_def assms sum_entry_update [where g = g])
  then show ?thesis
    by (simp add: by_path_def)
qed

lemma by_path_time_bound:
  "(\<Sum>x\<leftarrow>by_path spans names sel children opts. sum_list (agg_inclusives (snd x))) \<le> (\<Sum>sp\<leftarrow>spans. span_duration sp)"
proof -
  have upd: "(\<Sum>x\<leftarrow>entry_update k agg_default (agg_add spans sel children sp) m. sum_list (agg_inclusives (snd x))) \<le>
      (\<Sum>x\<leftarrow>m. sum_list (agg_inclusives (snd x))) + span_duration sp" for k sp m
  proof (induction k agg_default "agg_add spans sel children sp" m rule: entry_update.induct)
    case (1 k)
    then show ?case
      using agg_add_times [of spans sel children sp agg_default] by (auto simp: agg_default_def)
  next
    case (2 k k' v m)
    then show ?case
      using agg_add_times [of spans sel children sp v] by auto
  qed
  have "(\<Sum>x\<leftarrow>snd (fold (hot_step spans names sel children opts) sps st). sum_list (agg_inclusives (snd x))) \<le>
      (\<Sum>x\<leftarrow>snd st. sum_list (agg_inclusives (snd x))) + (\<Sum>sp\<leftarrow>sps. span_duration sp)" for sps st
  proof (induction sps arbitrary: st)
    case (Cons sp sps)
    have "(\<Sum>x\<leftarrow>snd (hot_step spans names sel children opts sp st). sum_list (agg_inclusives (snd x))) \<le>
        (\<Sum>x\<leftarrow>snd st. sum_list (agg_inclusives (snd x))) + span_duration sp"
      by (simp add: hot_step_snd upd)
    then show ?case
      using Cons.IH [of "hot_step spans names sel children opts sp st"] by simp
  qed simp
  from this [of spans "(Map.empty, [])"] show ?thesis
    by (simp add: by_path_def)
qed

lemma sum_hotpaths:
  fixes g :: "hotpath_row \<Rightarrow> nat"
  shows
  "(\<Sum>r\<leftarrow>hotpaths_with spans names sel children opts. g r) =
   (\<Sum>x\<leftarrow>by_path spans names sel children opts. g (hot_row x))"
proof -
  have "sum_mset (image_mset g (mset (hotpaths_with spans names sel children opts))) =
      sum_mset (image_mset g (mset (map hot_row (by_path spans names sel children opts))))"
    by (simp only: hotpaths_with_def mset_sort_by)
  then show ?thesis
    by (simp flip: mset_map add: sum_mset_sum_list o_def)
qed

text \<open>
  C16: Hot-path rows account for every span. Without a name filter, the observed entries of
  all rows add up to the spans of the selected thread and the complete calls to those
  that are complete and inside the selection; in every row observed entries are complete
  calls plus exclusions and the timed samples are among the complete calls; no path
  appears twice.
\<close>

theorem hotpaths_account:
  fixes spans names sel children
  assumes "ho_function_contains opts = None"
  defines "rows \<equiv> hotpaths_with spans names sel children opts"
    and "mine \<equiv> filter (\<lambda>sp. thread_selected sel (sp_thread sp)) spans"
  shows "(\<Sum>r\<leftarrow>rows. hr_observed_entries r) = length mine \<and>
    (\<Sum>r\<leftarrow>rows. hr_complete_calls r) = length (filter (\<lambda>sp. sp_completeness sp = Complete \<and> span_contained sel sp) mine) \<and>
    (\<forall>r\<in>set rows. hr_observed_entries r = hr_complete_calls r + hr_excluded_incomplete r \<and>
       hr_n_eligible r \<le> hr_complete_calls r) \<and>
    distinct (map hr_path rows)"
proof (intro conjI)
  let ?t = "by_path spans names sel children opts"
  have row: "hr_observed_entries (hot_row x) = agg_observed (snd x)"
      "hr_complete_calls (hot_row x) = agg_complete (snd x)"
      "hr_excluded_incomplete (hot_row x) = agg_excluded (snd x)"
      "hr_n_eligible (hot_row x) = length (agg_inclusives (snd x))" for x
    by (simp_all add: hot_row_def Let_def)
  show "(\<Sum>r\<leftarrow>rows. hr_observed_entries r) = length mine"
    unfolding rows_def sum_hotpaths row
    by (subst by_path_sum [where n = "\<lambda>_. 1"])
       (simp_all add: agg_default_def agg_add_counts assms(1) mine_def sum_list_triv)
  have "(\<Sum>r\<leftarrow>rows. hr_complete_calls r) = (\<Sum>sp\<leftarrow>mine. if span_counts sel sp then 1 else 0)"
    unfolding rows_def sum_hotpaths row mine_def
    by (rule by_path_sum) (simp_all add: agg_default_def agg_add_counts assms(1))
  also have "\<dots> = length (filter (span_counts sel) mine)"
    by (induction mine) auto
  finally show "(\<Sum>r\<leftarrow>rows. hr_complete_calls r) =
      length (filter (\<lambda>sp. sp_completeness sp = Complete \<and> span_contained sel sp) mine)"
    by (simp add: span_counts_def [abs_def])
  show "\<forall>r\<in>set rows. hr_observed_entries r = hr_complete_calls r + hr_excluded_incomplete r \<and>
       hr_n_eligible r \<le> hr_complete_calls r"
    using by_path_ok [of spans names sel children opts]
    by (auto simp: rows_def hotpaths_with_def row agg_ok_def)
  have "mset (map hr_path rows) = mset (map fst ?t)"
    unfolding rows_def hotpaths_with_def by (simp add: multiset.map_comp comp_def)
  then show "distinct (map hr_path rows)"
    using distinct_by_path mset_eq_imp_distinct_iff by blast
qed

definition demo_span :: function_span where
  "demo_span = \<lparr>sp_id = 0, sp_thread = ''t_0'', sp_function = Some 0, sp_parent = None,
     sp_start = time_estimate 0, sp_end = time_estimate 10, sp_completeness = Complete,
     sp_evidence = \<lparr>er_start = 0, er_end = 0\<rparr>, sp_call_site = None\<rparr>"

definition demo_sel :: selection where
  "demo_sel = \<lparr>sel_thread = None, sel_start = None, sel_end = None\<rparr>"

definition demo_opts :: hotpath_options where
  "demo_opts = hotpath_options_default\<lparr>ho_group := GroupFunction\<rparr>"

theorem hotpaths_account_witness:
  "(\<Sum>r\<leftarrow>hotpaths_with [demo_span, span_at_zero] Map.empty demo_sel Map.empty demo_opts. hr_observed_entries r) = 2"
  using hotpaths_account [of demo_opts "[demo_span, span_at_zero]" Map.empty demo_sel Map.empty]
  by (simp add: demo_opts_def demo_sel_def hotpath_options_default_def thread_selected_def)

text \<open>
  Self time never exceeds inclusive time. When the durations of the spans add up
  without overflowing 64 bits, a row that reports a self time also reports an inclusive
  time and the self time is at most that.
\<close>

theorem self_within_inclusive:
  assumes "(\<Sum>sp\<leftarrow>spans. span_duration sp) \<le> u64_max"
    and "r \<in> set (hotpaths_with spans names sel children opts)" "hr_self_sum_ns r = Some s"
  shows "\<exists>i. hr_inclusive_sum_ns r = Some i \<and> s \<le> i"
proof -
  obtain x where x: "x \<in> set (by_path spans names sel children opts)" "r = hot_row x"
    using assms(2) by (auto simp: hotpaths_with_def)
  let ?a = "snd x"
  have ok: "agg_ok ?a"
    using by_path_ok x(1) by blast
  have "sum_list (agg_inclusives ?a) \<le> (\<Sum>x\<leftarrow>by_path spans names sel children opts. sum_list (agg_inclusives (snd x)))"
    using x(1) by (intro member_le_sum_list) auto
  then have le: "sum_list (agg_inclusives ?a) < 2 ^ 64"
    using by_path_time_bound [of spans names sel children opts] assms(1) by (simp add: u64_max_def)
  have "sum_list (sort (agg_inclusives ?a)) = sum_list (agg_inclusives ?a)"
    by (metis mset_sort sum_mset_sum_list)
  moreover have "agg_selfs ?a \<noteq> []" "s = sum_list (agg_selfs ?a) mod 2 ^ 64"
    using assms(3) x(2) by (auto simp: hot_row_def Let_def sum64_def split: if_splits)
  moreover from this(1) have "agg_inclusives ?a \<noteq> []"
    using ok by (auto simp: agg_ok_def)
  then have "sort (agg_inclusives ?a) \<noteq> []"
    by (metis length_sort length_0_conv)
  ultimately show ?thesis
    using x(2) ok le by (simp add: hot_row_def Let_def sum64_def agg_ok_def)
qed

lemma demo_self: "self_elapsed 0 10 [] True = Some 10"
  by (simp add: self_elapsed_def map_filter_def sort_by_def checked_sub_def)

lemma demo_rows:
  "\<exists>r. hotpaths_with [demo_span] Map.empty demo_sel Map.empty demo_opts = [r] \<and> hr_self_sum_ns r = Some 10"
  by (simp add: hotpaths_with_def by_path_def hot_step_def group_path_def demo_opts_def demo_sel_def
      hotpath_options_default_def thread_selected_def passes_filter_def agg_add_def agg_default_def
      span_contained_def demo_span_def span_self_def demo_self hot_row_def sort_by_def sum64_def
      time_estimate_def Let_def)

theorem self_within_inclusive_witness:
  "\<exists>r i. r \<in> set (hotpaths_with [demo_span] Map.empty demo_sel Map.empty demo_opts) \<and>
     hr_self_sum_ns r = Some 10 \<and> hr_inclusive_sum_ns r = Some i \<and> 10 \<le> i"
proof -
  obtain r where r: "r \<in> set (hotpaths_with [demo_span] Map.empty demo_sel Map.empty demo_opts)"
      "hr_self_sum_ns r = Some 10"
    using demo_rows by auto
  have "(\<Sum>sp\<leftarrow>[demo_span]. span_duration sp) \<le> u64_max"
    by (simp add: span_duration_def demo_span_def u64_max_def)
  from self_within_inclusive [OF this r] r show ?thesis
    by blast
qed

section \<open>Memoised caller paths\<close>

text \<open>The frames from the outermost known caller down to a span.\<close>

inductive lineage :: "function_span list \<Rightarrow> function_span \<Rightarrow> function_span list \<Rightarrow> bool" for spans where
  root: "Option.bind (sp_parent sp) (span_by_id spans) = None \<Longrightarrow> lineage spans sp [sp]"
| child: "Option.bind (sp_parent sp) (span_by_id spans) = Some p \<Longrightarrow> sp_id p \<noteq> sp_id sp \<Longrightarrow>
    lineage spans p ch \<Longrightarrow> lineage spans sp (ch @ [sp])"

lemma lineage_unique: "lineage spans sp ch \<Longrightarrow> lineage spans sp ch' \<Longrightarrow> ch = ch'"
proof (induction arbitrary: ch' rule: lineage.induct)
  case (root sp)
  from root.prems root.hyps show ?case by (cases rule: lineage.cases) auto
next
  case IS: (child sp p ch)
  from IS.prems show ?case
  proof (cases rule: lineage.cases)
    case root
    then show ?thesis using IS.hyps(1) by simp
  next
    case (child p' ch2)
    then have "p' = p"
      using IS.hyps(1) by simp
    then show ?thesis
      using IS.IH [of ch2] child by simp
  qed
qed

lemma lineage_nonempty: "lineage spans sp ch \<Longrightarrow> ch \<noteq> []"
  by (induction rule: lineage.induct) auto

lemma lineage_prefix: "lineage spans sp ch \<Longrightarrow> ch = xs @ y # zs \<Longrightarrow> lineage spans y (xs @ [y])"
proof (induction arbitrary: xs y zs rule: lineage.induct)
  case (root sp)
  then show ?case by (auto simp: Cons_eq_append_conv intro: lineage.root)
next
  case (child sp p ch)
  show ?case
  proof (cases zs rule: rev_cases)
    case Nil
    then show ?thesis using child by (auto intro: lineage.child)
  next
    case (snoc zs' z)
    then show ?thesis using child by auto
  qed
qed

definition path_text :: "(local_id \<rightharpoonup> string) \<Rightarrow> function_span list \<Rightarrow> string" where
  "path_text names ch = join_str ''/'' (map (frame_name names) ch)"

definition plain_names :: "(local_id \<rightharpoonup> string) \<Rightarrow> bool" where
  "plain_names names \<longleftrightarrow> (\<forall>n\<in>ran names. n \<noteq> [] \<and> CHR ''/'' \<notin> set n)"

lemma frame_name_plain: "plain_names names \<Longrightarrow> frame_name names sp \<noteq> [] \<and> CHR ''/'' \<notin> set (frame_name names sp)"
  by (auto simp: frame_name_def span_name_def plain_names_def ran_def bind_eq_Some_conv split: option.split)

lemma join_str_snoc: "xs \<noteq> [] \<Longrightarrow> join_str sep (xs @ [y]) = join_str sep xs @ sep @ y"
  by (induction sep xs rule: join_str.induct) auto

lemma slashes_path_text:
  assumes "plain_names names"
  shows "length (filter (\<lambda>c. c = CHR ''/'') (path_text names ch)) = length ch - 1"
proof (induction ch rule: rev_induct)
  case (snoc y ch)
  have "filter (\<lambda>c. c = CHR ''/'') (frame_name names y) = []"
    using frame_name_plain [OF assms] by (auto simp: filter_empty_conv)
  then show ?case
    using snoc by (cases "ch = []") (auto simp: path_text_def join_str_snoc)
qed (simp add: path_text_def)

lemma path_text_empty: "plain_names names \<Longrightarrow> path_text names ch = [] \<longleftrightarrow> ch = []"
proof (cases ch rule: rev_cases)
  case (snoc ys y)
  assume "plain_names names"
  then show ?thesis
    using snoc frame_name_plain [of names y] by (cases "ys = []") (auto simp: path_text_def join_str_snoc)
qed (simp add: path_text_def)

lemma extend_path_text:
  assumes "plain_names names" "length ch \<le> max_path_depth"
  shows "extend_path (path_text names ch) (frame_name names y) = path_text names (ch @ [y])"
proof (cases "ch = []")
  case False
  have "length (filter (\<lambda>c. c = CHR ''/'') (path_text names ch)) < max_path_depth"
    using slashes_path_text [OF assms(1), of ch] assms(2) False by (cases ch) auto
  then show ?thesis
    using False path_text_empty [OF assms(1)] by (simp add: extend_path_def path_text_def join_str_snoc)
qed (simp add: extend_path_def path_text_def)

definition cache_ok ::
    "function_span list \<Rightarrow> (local_id \<rightharpoonup> string) \<Rightarrow> (local_id \<rightharpoonup> string) \<Rightarrow> bool" where
  "cache_ok spans names cache \<longleftrightarrow>
     (\<forall>i p. cache i = Some p \<longrightarrow>
        (\<forall>sp ch. sp \<in> set spans \<longrightarrow> sp_id sp = i \<longrightarrow> lineage spans sp ch \<longrightarrow> p = path_text names ch))"

lemma name_chain_ok:
  assumes "plain_names names" "length (pre @ nodes) \<le> max_path_depth" "cache_ok spans names cache"
    and "\<And>xs y zs. nodes = xs @ y # zs \<Longrightarrow>
      \<forall>sp ch. sp \<in> set spans \<longrightarrow> sp_id sp = sp_id y \<longrightarrow> lineage spans sp ch \<longrightarrow> ch = pre @ xs @ [y]"
  shows "\<exists>cache'. name_chain names nodes (path_text names pre) cache = (path_text names (pre @ nodes), cache') \<and>
    cache_ok spans names cache'"
  using assms
proof (induction nodes arbitrary: pre cache)
  case (Cons y nodes)
  let ?c = "cache(sp_id y \<mapsto> path_text names (pre @ [y]))"
  have "cache_ok spans names ?c"
    using Cons.prems(3) Cons.prems(4) [of "[]" y nodes] by (auto simp: cache_ok_def)
  moreover have "\<forall>sp ch. sp \<in> set spans \<longrightarrow> sp_id sp = sp_id z \<longrightarrow> lineage spans sp ch \<longrightarrow> ch = (pre @ [y]) @ xs @ [z]"
    if "nodes = xs @ z # zs" for xs z zs
    using Cons.prems(4) [of "y # xs" z zs] that by simp
  ultimately obtain cache' where
    "name_chain names nodes (path_text names (pre @ [y])) ?c = (path_text names ((pre @ [y]) @ nodes), cache')"
    "cache_ok spans names cache'"
    using Cons.IH [of "pre @ [y]" ?c] Cons.prems(1,2) by (auto simp del: fun_upd_apply)
  then show ?case
    using extend_path_text [OF Cons.prems(1), of pre y] Cons.prems(2) by simp
qed simp

lemma climb_ok:
  assumes "lineage spans cur ch" "length chain + length ch \<le> Suc max_path_depth" "cache_ok spans names cache"
    and "set ch \<subseteq> set spans"
  shows "\<exists>ups pre prefix. climb spans cache chain cur = (chain @ ups, prefix) \<and> ch = pre @ rev ups @ [cur] \<and>
    (case prefix of None \<Rightarrow> [] | Some p \<Rightarrow> p) = path_text names pre"
  using assms
proof (induction arbitrary: chain rule: lineage.induct)
  case (root sp)
  then show ?case
    by (intro exI [of _ "[]"] exI [of _ None]) (simp add: climb.simps path_text_def)
next
  case (child sp p ch)
  show ?case
  proof (cases "cache (sp_id p)")
    case None
    have "length chain < max_path_depth"
      using child.prems(1) lineage_nonempty [OF child.hyps(3)] by (cases ch) auto
    then have "climb spans cache chain sp = climb spans cache (chain @ [p]) p"
      using child.hyps(1,2) None by (subst climb.simps) simp
    moreover obtain ups pre prefix where "climb spans cache (chain @ [p]) p = ((chain @ [p]) @ ups, prefix)"
        "ch = pre @ rev ups @ [p]" "(case prefix of None \<Rightarrow> [] | Some p \<Rightarrow> p) = path_text names pre"
      using child.IH [of "chain @ [p]"] child.prems by auto
    ultimately show ?thesis
      by (intro exI [of _ "p # ups"] exI [of _ pre] exI [of _ prefix]) simp
  next
    case (Some t)
    have "p \<in> set spans"
      using child.hyps(3) child.prems(3) by (cases rule: lineage.cases) auto
    then have "t = path_text names ch"
      using child.prems(2) Some child.hyps(3) unfolding cache_ok_def by blast
    then show ?thesis
      using child.hyps(1,2) Some by (intro exI [of _ "[]"] exI [of _ ch] exI [of _ "Some t"]) (simp add: climb.simps)
  qed
qed

lemma path_of_ok:
  assumes "plain_names names" "cache_ok spans names cache" "sp \<in> set spans" "distinct (map sp_id spans)"
    and "\<And>s. s \<in> set spans \<Longrightarrow> \<exists>ch. lineage spans s ch \<and> length ch \<le> max_path_depth"
    and "lineage spans sp ch"
  shows "\<exists>cache'. path_of sp spans names cache = (path_text names ch, cache') \<and> cache_ok spans names cache'"
proof (cases "cache (sp_id sp)")
  case (Some t)
  then show ?thesis
    using assms(2,3,6) unfolding cache_ok_def path_of_def by auto
next
  case None
  have len: "length ch \<le> max_path_depth"
    using assms(3,5,6) lineage_unique by blast
  have "set ch \<subseteq> set spans"
    using assms(6,3)
  proof (induction rule: lineage.induct)
    case (child sp p ch)
    then have "p \<in> set spans"
      by (auto simp: bind_eq_Some_conv span_by_id_def find_Some_iff dest: nth_mem)
         (metis length_rev nth_mem set_rev)
    then show ?case
      using child by simp
  qed simp
  then obtain ups pre prefix where c: "climb spans cache [sp] sp = (sp # ups, prefix)" "ch = pre @ rev ups @ [sp]"
      "(case prefix of None \<Rightarrow> [] | Some p \<Rightarrow> p) = path_text names pre"
    using climb_ok [OF assms(6) _ assms(2), of "[sp]"] len by auto
  have "ch' = pre @ xs @ [y]"
    if "rev ups @ [sp] = xs @ y # zs" "s \<in> set spans" "sp_id s = sp_id y" "lineage spans s ch'" for xs y zs s ch'
  proof -
    have "ch = (pre @ xs) @ y # zs"
      using c(2) that(1) by simp
    then have y: "lineage spans y (pre @ xs @ [y])" "y \<in> set spans"
      using lineage_prefix [OF assms(6)] \<open>set ch \<subseteq> set spans\<close> by fastforce+
    then have "s = y"
      using assms(4) that(2,3) by (auto simp: distinct_map dest: inj_onD)
    then show ?thesis
      using y(1) that(4) lineage_unique by blast
  qed
  then show ?thesis
    using name_chain_ok [OF assms(1) _ assms(2), of pre "rev ups @ [sp]"] len c None
    by (simp add: path_of_def)
qed

text \<open>
  C17: Memoised caller paths are the caller paths. For spans with distinct ids whose caller
  chains end within 64 frames and plain names, the path computed for a span is the
  \<^verbatim>\<open>/\<close>-joined chain of its callers' names, whatever spans were looked up before with
  the same cache.
\<close>

theorem path_of_is_caller_chain:
  assumes "plain_names names" "distinct (map sp_id spans)" "set earlier \<subseteq> set spans" "sp \<in> set spans"
    and "\<And>s. s \<in> set spans \<Longrightarrow> \<exists>ch. lineage spans s ch \<and> length ch \<le> 64"
    and "lineage spans sp ch"
  shows "fst (path_of sp spans names (fold (\<lambda>s cache. snd (path_of s spans names cache)) earlier Map.empty)) =
    join_str ''/'' (map (frame_name names) ch)"
proof -
  have step: "cache_ok spans names (snd (path_of s spans names cache))"
    if ok: "cache_ok spans names cache" and s: "s \<in> set spans" for s cache
  proof -
    obtain c where "lineage spans s c"
      using assms(5) s by blast
    from path_of_ok [OF assms(1) ok s assms(2) _ this] assms(5) show ?thesis
      by (fastforce simp: max_path_depth_def)
  qed
  have "cache_ok spans names cache \<Longrightarrow>
      cache_ok spans names (fold (\<lambda>s cache. snd (path_of s spans names cache)) earlier cache)" for cache
    using assms(3) by (induction earlier arbitrary: cache) (auto intro: step)
  moreover have "cache_ok spans names Map.empty"
    by (simp add: cache_ok_def)
  ultimately have "cache_ok spans names (fold (\<lambda>s cache. snd (path_of s spans names cache)) earlier Map.empty)"
    by blast
  from path_of_ok [OF assms(1) this assms(4,2) _ assms(6)] assms(5) show ?thesis
    by (auto simp: path_text_def max_path_depth_def)
qed

definition demo_child :: function_span where
  "demo_child = demo_span\<lparr>sp_id := 1, sp_function := Some 1, sp_parent := Some 0\<rparr>"

theorem path_of_is_caller_chain_witness:
  "fst (path_of demo_child [demo_child, demo_span] (Map.empty(0 \<mapsto> ''main'', 1 \<mapsto> ''work''))
      (snd (path_of demo_span [demo_child, demo_span] (Map.empty(0 \<mapsto> ''main'', 1 \<mapsto> ''work'')) Map.empty))) =
   ''main/work''"
proof -
  let ?n = "Map.empty(0 \<mapsto> ''main'', 1 \<mapsto> ''work'') :: local_id \<rightharpoonup> string"
  let ?s = "[demo_child, demo_span]"
  have r: "lineage ?s demo_span [demo_span]"
    by (rule lineage.root) (simp add: demo_span_def)
  have c: "lineage ?s demo_child ([demo_span] @ [demo_child])"
    using r by (rule lineage.child [rotated 2]) (simp_all add: demo_span_def demo_child_def span_by_id_def)
  have "plain_names ?n"
    by (auto simp: plain_names_def)
  moreover have "\<exists>ch. lineage ?s s ch \<and> length ch \<le> 64" if "s \<in> set ?s" for s
  proof (cases "s = demo_span")
    case True
    then show ?thesis using r by (intro exI [of _ "[demo_span]"]) simp
  next
    case False
    then show ?thesis using c that by (intro exI [of _ "[demo_span] @ [demo_child]"]) simp
  qed
  moreover have "distinct (map sp_id ?s)"
    by (simp add: demo_child_def demo_span_def)
  ultimately show ?thesis
    using path_of_is_caller_chain [of ?n ?s "[demo_span]" demo_child, OF _ _ _ _ _ c]
    by (simp add: frame_name_def span_name_def demo_child_def demo_span_def)
qed

end
