(* ===== verification/Compare.thy ===== *)
theory Compare
  imports Trace_Model Hotpaths
begin

text \<open>
  \<^verbatim>\<open>src/analysis/compare.rs\<close> with the report types of \<^verbatim>\<open>src/model/report.rs\<close>: pairing
  the hot-path rows of two analyses and reporting deltas only where the pairing and the
  measurements are comparable. \<open>fmt6\<close> prints a relative delta.
\<close>

section \<open>Requests and reports\<close>

datatype compare_mode = Exploratory | StrictPerformance

record compare_side =
  cs_snapshot_id :: snapshot_id
  cs_analysis_id :: "analysis_id option"
  cs_selection :: "selection option"
  cs_workload :: "workload_meta option"

record function_pair =
  baseline_function_id :: string
  candidate_function_id :: string

record compare_request =
  cr_baseline :: compare_side
  cr_candidate :: compare_side
  cr_mode :: compare_mode
  cr_function_pairs :: "function_pair list"
  cr_group :: hotpath_group
  cr_function_contains :: "string option"
  cr_max_depth :: "u32 option"

record comparability_check =
  cc_name :: string
  cc_ok :: bool
  cc_detail :: string

record metric_value =
  mv_value :: int
  mv_n :: nat
  mv_exclusions :: "nat option"

record compare_row =
  cw_path :: string
  cw_baseline :: "metric_value option"
  cw_candidate :: "metric_value option"
  cw_absolute_delta :: "int option"
  cw_relative_delta :: "string option"
  cw_unit :: string
  cw_normalization :: string
  cw_match_kind :: string
  cw_baseline_evidence :: "string list"
  cw_candidate_evidence :: "string list"

record compare_report =
  cp_checks :: "comparability_check list"
  cp_comparable :: bool
  cp_mode :: compare_mode
  cp_rows :: "compare_row list"
  cp_warnings :: "string list"
  cp_baseline_analysis_id :: "string option"
  cp_candidate_analysis_id :: "string option"

section \<open>Compatibility\<close>

definition cpu_pt_compat :: "snapshot_manifest \<Rightarrow> snapshot_manifest \<Rightarrow> bool \<times> bool" where
  "cpu_pt_compat b c =
     (sm_cpu_vendor b \<noteq> [] \<and> sm_cpu_vendor b = sm_cpu_vendor c \<and> sm_cpu_model b = sm_cpu_model c,
      sm_effective_event b \<noteq> [] \<and> sm_effective_event b = sm_effective_event c \<and>
        timing (sm_requested_config b) = timing (sm_requested_config c))"

definition decoder_compat :: "analysis_manifest \<Rightarrow> analysis_manifest \<Rightarrow> bool" where
  "decoder_compat b c \<longleftrightarrow>
     am_dialect b \<noteq> [] \<and> am_dialect b = am_dialect c \<and>
     am_decoder_version b = am_decoder_version c \<and> am_decode_mode b = am_decode_mode c \<and>
     am_ir_version b = am_ir_version c \<and> am_schema_version b = am_schema_version c"

section \<open>Names\<close>

definition leaf :: "string \<Rightarrow> string" where
  "leaf path = last (split_ch (CHR ''/'') path)"

definition rfind_str :: "string \<Rightarrow> string \<Rightarrow> nat option" where
  "rfind_str p s = map_option (\<lambda>j. length s - j - length p) (find_str (rev p) (rev s))"

definition linkage_stem :: "string \<Rightarrow> string" where
  "linkage_stem name =
     (case rfind_str ''::h'' name of
        None \<Rightarrow> name
      | Some i \<Rightarrow>
          (let rest = drop (i + 3) name
           in if length rest \<ge> 8 \<and> list_all (\<lambda>c. digit_val 16 c \<noteq> None) rest then take i name else name))"

definition matches_id :: "string \<Rightarrow> string \<Rightarrow> bool" where
  "matches_id path i \<longleftrightarrow> path = i \<or> leaf path = i \<or> suffix i path \<or> suffix i (leaf path)"

definition row_stem :: "hotpath_row \<Rightarrow> string" where
  "row_stem r = linkage_stem (leaf (hr_path r))"

definition stem_counts :: "hotpath_row list \<Rightarrow> (string \<rightharpoonup> nat)" where
  "stem_counts rows =
     fold (\<lambda>r m. m(row_stem r \<mapsto> (case m (row_stem r) of None \<Rightarrow> 0 | Some n \<Rightarrow> n) + 1)) rows Map.empty"

definition count_of :: "(string \<rightharpoonup> nat) \<Rightarrow> string \<Rightarrow> nat" where
  "count_of m k = (case m k of None \<Rightarrow> 0 | Some n \<Rightarrow> n)"

definition match_functions :: "string \<Rightarrow> string \<Rightarrow> bool \<Rightarrow> string" where
  "match_functions b c explicit =
     (if explicit then ''explicit_pair''
      else if b = c \<or> linkage_stem b = linkage_stem c then ''demangled_path''
      else ''unmatched'')"

section \<open>Rows\<close>

definition metric_of :: "hotpath_row \<Rightarrow> metric_value" where
  "metric_of r =
     \<lparr>mv_value = int (case hr_inclusive_sum_ns r of None \<Rightarrow> 0 | Some v \<Rightarrow> v),
      mv_n = hr_complete_calls r, mv_exclusions = Some (hr_excluded_incomplete r)\<rparr>"

definition delta_row ::
    "(int \<Rightarrow> int \<Rightarrow> string) \<Rightarrow> string \<Rightarrow> hotpath_row option \<Rightarrow> hotpath_row option \<Rightarrow> bool \<Rightarrow> string \<Rightarrow> compare_row" where
  "delta_row fmt6 path b c allow_perf match_kind =
     (let bv = map_option int (Option.bind b hr_inclusive_sum_ns);
          cv = map_option int (Option.bind c hr_inclusive_sum_ns);
          (d, rel) =
            (if allow_perf \<and> match_kind \<noteq> ''ambiguous'' \<and> match_kind \<noteq> ''unmatched''
             then (case (bv, cv) of
                     (Some b, Some c) \<Rightarrow> (Some (c - b), relative_delta fmt6 (c - b) b)
                   | _ \<Rightarrow> (None, None))
             else (None, None))
      in \<lparr>cw_path = path, cw_baseline = map_option metric_of b, cw_candidate = map_option metric_of c,
          cw_absolute_delta = d, cw_relative_delta = rel, cw_unit = ''ns_decoder_estimate'',
          cw_normalization =
            (if allow_perf \<and> match_kind \<in> {''path'', ''demangled_path'', ''explicit_pair''}
             then ''per_matched_path'' else ''raw_selected_region''),
          cw_match_kind = match_kind, cw_baseline_evidence = [], cw_candidate_evidence = []\<rparr>)"

record pairing =
  pg_rows :: "compare_row list"
  pg_used_b :: "bool list"
  pg_used_c :: "bool list"

definition pair_explicit ::
    "(int \<Rightarrow> int \<Rightarrow> string) \<Rightarrow> hotpath_row list \<Rightarrow> hotpath_row list \<Rightarrow> bool \<Rightarrow> function_pair \<Rightarrow> pairing \<Rightarrow> pairing" where
  "pair_explicit fmt6 bs cs allow_perf pair st =
     (let bi = position (\<lambda>r. matches_id (hr_path r) (baseline_function_id pair)) bs;
          ci = position (\<lambda>r. matches_id (hr_path r) (candidate_function_id pair)) cs
      in case (bi, ci) of
           (Some i, Some j) \<Rightarrow>
             st\<lparr>pg_used_b := (pg_used_b st)[i := True], pg_used_c := (pg_used_c st)[j := True],
                pg_rows := pg_rows st @
                  [delta_row fmt6 (hr_path (bs ! i)) (Some (bs ! i)) (Some (cs ! j)) allow_perf ''explicit_pair'']\<rparr>
         | (Some i, None) \<Rightarrow>
             st\<lparr>pg_used_b := (pg_used_b st)[i := True],
                pg_rows := pg_rows st @
                  [delta_row fmt6 (hr_path (bs ! i)) (Some (bs ! i)) None False ''unmatched'']\<rparr>
         | (None, Some j) \<Rightarrow>
             st\<lparr>pg_used_c := (pg_used_c st)[j := True],
                pg_rows := pg_rows st @
                  [delta_row fmt6 (hr_path (cs ! j)) None (Some (cs ! j)) False ''unmatched'']\<rparr>
         | (None, None) \<Rightarrow> st)"

definition same_function :: "hotpath_row \<Rightarrow> hotpath_row \<Rightarrow> bool" where
  "same_function b c \<longleftrightarrow>
     hr_path c = hr_path b \<or> leaf (hr_path c) = leaf (hr_path b) \<or> row_stem c = row_stem b"

definition pair_baseline ::
    "(int \<Rightarrow> int \<Rightarrow> string) \<Rightarrow> hotpath_row list \<Rightarrow> hotpath_row list \<Rightarrow> bool \<Rightarrow> nat \<Rightarrow> pairing \<Rightarrow> pairing" where
  "pair_baseline fmt6 bs cs allow_perf i st =
     (if pg_used_b st ! i then st
      else (let b = bs ! i; stem = row_stem b;
                used = st\<lparr>pg_used_b := (pg_used_b st)[i := True]\<rparr>
            in if count_of (stem_counts bs) stem > 1 \<or> count_of (stem_counts cs) stem > 1
               then used\<lparr>pg_rows := pg_rows st @ [delta_row fmt6 (hr_path b) (Some b) None False ''ambiguous'']\<rparr>
               else (case List.find (\<lambda>j. \<not> pg_used_c st ! j \<and> same_function b (cs ! j)) [0..<length cs] of
                       Some j \<Rightarrow>
                         used\<lparr>pg_used_c := (pg_used_c st)[j := True],
                              pg_rows := pg_rows st @
                                [delta_row fmt6 (hr_path b) (Some b) (Some (cs ! j)) allow_perf
                                   (if hr_path (cs ! j) = hr_path b then ''path'' else ''demangled_path'')]\<rparr>
                     | None \<Rightarrow>
                         used\<lparr>pg_rows := pg_rows st @
                                [delta_row fmt6 (hr_path b) (Some b) None False ''unmatched'']\<rparr>)))"

definition pair_candidate ::
    "(int \<Rightarrow> int \<Rightarrow> string) \<Rightarrow> hotpath_row list \<Rightarrow> nat \<Rightarrow> pairing \<Rightarrow> pairing" where
  "pair_candidate fmt6 cs j st =
     (if pg_used_c st ! j then st
      else (let c = cs ! j;
                kind = (if count_of (stem_counts cs) (row_stem c) > 1 then ''ambiguous'' else ''unmatched'')
            in st\<lparr>pg_rows := pg_rows st @ [delta_row fmt6 (hr_path c) None (Some c) False kind]\<rparr>))"

definition pairing_start :: "hotpath_row list \<Rightarrow> hotpath_row list \<Rightarrow> pairing" where
  "pairing_start bs cs =
     \<lparr>pg_rows = [], pg_used_b = replicate (length bs) False, pg_used_c = replicate (length cs) False\<rparr>"

definition pair_rows ::
    "(int \<Rightarrow> int \<Rightarrow> string) \<Rightarrow> compare_request \<Rightarrow> hotpath_row list \<Rightarrow> hotpath_row list \<Rightarrow> bool \<Rightarrow> compare_row list" where
  "pair_rows fmt6 req bs cs allow_perf =
     pg_rows (fold (pair_candidate fmt6 cs) [0..<length cs]
       (fold (pair_baseline fmt6 bs cs allow_perf) [0..<length bs]
         (fold (pair_explicit fmt6 bs cs allow_perf) (cr_function_pairs req) (pairing_start bs cs))))"

definition show_bool :: "bool \<Rightarrow> string" where
  "show_bool b = (if b then ''true'' else ''false'')"

definition compare_hotpaths ::
    "(int \<Rightarrow> int \<Rightarrow> string) \<Rightarrow> compare_request \<Rightarrow> hotpath_row list \<Rightarrow> hotpath_row list \<Rightarrow>
     bool \<Rightarrow> bool \<Rightarrow> bool \<Rightarrow> bool \<Rightarrow> compare_report" where
  "compare_hotpaths fmt6 req bs cs same_workload cpu_ok pt_ok decoder_ok =
     (let checks =
            [\<lparr>cc_name = ''workload'', cc_ok = same_workload,
              cc_detail = (if same_workload then ''caller-supplied workload/input fingerprints match''
                           else ''workload/input fingerprint missing or differs'')\<rparr>,
             \<lparr>cc_name = ''cpu_pt'', cc_ok = (cpu_ok \<and> pt_ok),
              cc_detail = ''cpu_ok='' @ show_bool cpu_ok @ '' pt_ok='' @ show_bool pt_ok\<rparr>,
             \<lparr>cc_name = ''decoder'', cc_ok = decoder_ok, cc_detail = ''decoder version/schema''\<rparr>];
          strict_ok = (same_workload \<and> cpu_ok \<and> pt_ok \<and> decoder_ok)
      in if cr_mode req = StrictPerformance \<and> \<not> strict_ok
         then \<lparr>cp_checks = checks, cp_comparable = False, cp_mode = cr_mode req, cp_rows = [],
               cp_warnings = [''INCOMPARABLE: strict_performance requirements unmet''],
               cp_baseline_analysis_id = None, cp_candidate_analysis_id = None\<rparr>
         else (let warnings = (if same_workload then []
                     else [''exploratory structural comparison; performance deltas withheld when units are incomparable'']);
                   rows = pair_rows fmt6 req bs cs strict_ok;
                   ambiguous_ok = (list_all (\<lambda>r. cw_match_kind r \<noteq> ''ambiguous'') rows \<or> cr_function_pairs req \<noteq> [])
               in \<lparr>cp_checks = checks @ [\<lparr>cc_name = ''explicit_pairs'', cc_ok = ambiguous_ok,
                      cc_detail = show_dec (length (cr_function_pairs req)) @ '' caller function pairs''\<rparr>],
                   cp_comparable = True, cp_mode = cr_mode req, cp_rows = rows, cp_warnings = warnings,
                   cp_baseline_analysis_id = None, cp_candidate_analysis_id = None\<rparr>))"

section \<open>Lemmas\<close>

lemma delta_row_sides [simp]:
  "cw_baseline (delta_row fmt6 p b c a k) = map_option metric_of b"
  "cw_candidate (delta_row fmt6 p b c a k) = map_option metric_of c"
  "cw_match_kind (delta_row fmt6 p b c a k) = k"
  "cw_path (delta_row fmt6 p b c a k) = p"
  by (simp_all add: delta_row_def split: prod.split)

lemma delta_row_delta:
  "cw_absolute_delta (delta_row fmt6 p b c a k) = Some d \<longleftrightarrow>
     a \<and> k \<noteq> ''ambiguous'' \<and> k \<noteq> ''unmatched'' \<and>
     (\<exists>x y. Option.bind b hr_inclusive_sum_ns = Some x \<and> Option.bind c hr_inclusive_sum_ns = Some y \<and>
        d = int y - int x)"
  by (auto simp: delta_row_def split: prod.splits option.splits if_splits)

lemma count_of_stem_counts: "count_of (stem_counts rows) k = length (filter (\<lambda>r. row_stem r = k) rows)"
proof -
  have "count_of (fold (\<lambda>r m. m(row_stem r \<mapsto> (case m (row_stem r) of None \<Rightarrow> 0 | Some n \<Rightarrow> n) + 1)) rows m) k =
      count_of m k + length (filter (\<lambda>r. row_stem r = k) rows)" for m
    by (induction rows arbitrary: m) (auto simp: count_of_def)
  then show ?thesis
    by (simp add: stem_counts_def count_of_def)
qed

text \<open>How a reported row came about.\<close>

definition explained ::
    "(int \<Rightarrow> int \<Rightarrow> string) \<Rightarrow> hotpath_row list \<Rightarrow> hotpath_row list \<Rightarrow> bool \<Rightarrow> compare_row \<Rightarrow> bool" where
  "explained fmt6 bs cs allow_perf r \<longleftrightarrow>
     (\<exists>b\<in>set bs. \<exists>c\<in>set cs. \<exists>k.
        r = delta_row fmt6 (hr_path b) (Some b) (Some c) allow_perf k \<and>
        (k = ''explicit_pair'' \<or>
         same_function b c \<and> (k = ''path'' \<and> hr_path c = hr_path b \<or> k = ''demangled_path'') \<and>
         length (filter (\<lambda>x. row_stem x = row_stem b) bs) \<le> 1 \<and>
         length (filter (\<lambda>x. row_stem x = row_stem b) cs) \<le> 1)) \<or>
     (\<exists>b c k. (b = None \<or> c = None) \<and> k \<in> {''ambiguous'', ''unmatched''} \<and>
        r = delta_row fmt6 (cw_path r) b c False k)"

lemma explained_single:
  "k \<in> {''ambiguous'', ''unmatched''} \<Longrightarrow> explained fmt6 bs cs a (delta_row fmt6 p (Some b) None False k)"
  "k \<in> {''ambiguous'', ''unmatched''} \<Longrightarrow> explained fmt6 bs cs a (delta_row fmt6 p None (Some c) False k)"
  unfolding explained_def by (simp, metis)+

lemma explained_match:
  assumes "b \<in> set bs" "c \<in> set cs" "same_function b c" "k = ''path'' \<and> hr_path c = hr_path b \<or> k = ''demangled_path''"
    and "length (filter (\<lambda>x. row_stem x = row_stem b) bs) \<le> 1" "length (filter (\<lambda>x. row_stem x = row_stem b) cs) \<le> 1"
  shows "explained fmt6 bs cs a (delta_row fmt6 (hr_path b) (Some b) (Some c) a k)"
  using assms unfolding explained_def by blast

lemma position_less: "position P xs = Some i \<Longrightarrow> i < length xs \<and> P (xs ! i)"
  by (induction xs arbitrary: i) (auto split: if_splits)

lemma pair_explicit_explained:
  assumes "\<forall>r\<in>set (pg_rows st). explained fmt6 bs cs a r"
  shows "\<forall>r\<in>set (pg_rows (pair_explicit fmt6 bs cs a pair st)). explained fmt6 bs cs a r"
proof -
  have both: "explained fmt6 bs cs a (delta_row fmt6 (hr_path (bs ! i)) (Some (bs ! i)) (Some (cs ! j)) a ''explicit_pair'')"
    if "i < length bs" "j < length cs" for i j
    unfolding explained_def using that by (metis nth_mem)
  show ?thesis
    using assms both explained_single [of "''unmatched''"]
    by (auto simp: pair_explicit_def Let_def dest!: position_less split: option.splits)
qed

lemma pair_baseline_explained:
  assumes "\<forall>r\<in>set (pg_rows st). explained fmt6 bs cs a r" "i < length bs"
  shows "\<forall>r\<in>set (pg_rows (pair_baseline fmt6 bs cs a i st)). explained fmt6 bs cs a r"
proof -
  let ?b = "bs ! i"
  have "explained fmt6 bs cs a (delta_row fmt6 (hr_path ?b) (Some ?b) (Some (cs ! j)) a
      (if hr_path (cs ! j) = hr_path ?b then ''path'' else ''demangled_path''))"
    if "List.find (\<lambda>j. \<not> pg_used_c st ! j \<and> same_function ?b (cs ! j)) [0..<length cs] = Some j"
      "\<not> (count_of (stem_counts bs) (row_stem ?b) > 1 \<or> count_of (stem_counts cs) (row_stem ?b) > 1)" for j
  proof -
    have "j < length cs" "same_function ?b (cs ! j)"
      using that(1) by (auto simp: find_Some_iff)
    moreover have "length (filter (\<lambda>x. row_stem x = row_stem ?b) bs) \<le> 1"
        "length (filter (\<lambda>x. row_stem x = row_stem ?b) cs) \<le> 1"
      using that(2) by (simp_all add: count_of_stem_counts)
    ultimately show ?thesis
      using assms(2) by (intro explained_match) auto
  qed
  then show ?thesis
    using assms(1) explained_single
    by (auto simp: pair_baseline_def Let_def split: option.splits if_splits)
qed

lemma pair_candidate_explained:
  assumes "\<forall>r\<in>set (pg_rows st). explained fmt6 bs cs a r"
  shows "\<forall>r\<in>set (pg_rows (pair_candidate fmt6 cs j st)). explained fmt6 bs cs a r"
  using assms explained_single by (auto simp: pair_candidate_def Let_def)

lemma fold_keeps:
  assumes "P s" "\<And>x s. x \<in> set xs \<Longrightarrow> P s \<Longrightarrow> P (f x s)"
  shows "P (fold f xs s)"
  using assms by (induction xs arbitrary: s) auto

lemma pair_rows_explained: "\<forall>r\<in>set (pair_rows fmt6 req bs cs a). explained fmt6 bs cs a r"
  unfolding pair_rows_def
  by (rule fold_keeps [where P = "\<lambda>st. \<forall>r\<in>set (pg_rows st). explained fmt6 bs cs a r"]
        | rule pair_candidate_explained pair_baseline_explained pair_explicit_explained
        | simp add: pairing_start_def)+

text \<open>The reported sides of a pairing without explicit pairs.\<close>

definition baselines :: "compare_row list \<Rightarrow> metric_value option list" where
  "baselines rows = filter (\<lambda>m. m \<noteq> None) (map cw_baseline rows)"

definition candidates :: "compare_row list \<Rightarrow> metric_value option multiset" where
  "candidates rows = mset (filter (\<lambda>m. m \<noteq> None) (map cw_candidate rows))"

definition used_set :: "bool list \<Rightarrow> nat set" where
  "used_set us = {j. j < length us \<and> us ! j}"

lemma finite_used_set [simp]: "finite (used_set us)"
  by (simp add: used_set_def)

lemma used_set_update: "j < length us \<Longrightarrow> used_set (us[j := True]) = insert j (used_set us)"
  by (auto simp: used_set_def nth_list_update)

lemma used_set_fresh [simp]: "used_set (replicate n False) = {}"
  by (auto simp: used_set_def)

abbreviation reported :: "hotpath_row list \<Rightarrow> nat set \<Rightarrow> metric_value option multiset" where
  "reported cs js \<equiv> image_mset (\<lambda>j. Some (metric_of (cs ! j))) (mset_set js)"

lemma baseline_phase:
  fixes fmt6 cs a
  assumes "n \<le> length bs"
  defines "st \<equiv> fold (pair_baseline fmt6 bs cs a) [0..<n] (pairing_start bs cs)"
  shows "baselines (pg_rows st) = map (Some \<circ> metric_of) (take n bs) \<and>
    candidates (pg_rows st) = reported cs (used_set (pg_used_c st)) \<and> length (pg_used_c st) = length cs \<and>
    length (pg_used_b st) = length bs \<and> (\<forall>i<length bs. pg_used_b st ! i \<longleftrightarrow> i < n)"
  using assms(1) unfolding st_def
proof (induction n)
  case 0
  then show ?case by (simp add: pairing_start_def baselines_def candidates_def)
next
  case (Suc n)
  let ?st = "fold (pair_baseline fmt6 bs cs a) [0..<n] (pairing_start bs cs)"
  let ?b = "bs ! n"
  have IH: "baselines (pg_rows ?st) = map (Some \<circ> metric_of) (take n bs)"
      "candidates (pg_rows ?st) = reported cs (used_set (pg_used_c ?st))" "length (pg_used_c ?st) = length cs"
      "length (pg_used_b ?st) = length bs" "\<forall>i<length bs. pg_used_b ?st ! i \<longleftrightarrow> i < n"
    using Suc by auto
  have unused: "\<not> pg_used_b ?st ! n"
    using IH(5) Suc.prems by auto
  have fold: "fold (pair_baseline fmt6 bs cs a) [0..<Suc n] (pairing_start bs cs) = pair_baseline fmt6 bs cs a n ?st"
    by simp
  have take: "take (Suc n) bs = take n bs @ [?b]"
    using Suc.prems by (simp add: take_Suc_conv_app_nth)
  have used: "\<forall>i<length bs. (pg_used_b ?st)[n := True] ! i \<longleftrightarrow> i < Suc n"
    using IH(4,5) by (auto simp: nth_list_update less_Suc_eq)
  show ?case
  proof (cases "List.find (\<lambda>j. \<not> pg_used_c ?st ! j \<and> same_function ?b (cs ! j)) [0..<length cs]")
    case None
    then show ?thesis
      unfolding fold using IH unused take used
      by (auto simp: pair_baseline_def Let_def baselines_def candidates_def)
  next
    case (Some j)
    then have j: "j < length cs" "\<not> pg_used_c ?st ! j"
      by (auto simp: find_Some_iff)
    then have "reported cs (used_set ((pg_used_c ?st)[j := True])) =
        add_mset (Some (metric_of (cs ! j))) (reported cs (used_set (pg_used_c ?st)))"
      using IH(3) by (subst used_set_update) (auto simp: used_set_def)
    then show ?thesis
      unfolding fold using IH unused take used Some
      by (auto simp: pair_baseline_def Let_def baselines_def candidates_def)
  qed
qed

lemma candidate_phase:
  fixes fmt6
  assumes "n \<le> length cs" "candidates (pg_rows st) = reported cs (used_set (pg_used_c st))"
    and "length (pg_used_c st) = length cs"
  defines "st' \<equiv> fold (pair_candidate fmt6 cs) [0..<n] st"
  shows "baselines (pg_rows st') = baselines (pg_rows st) \<and> pg_used_c st' = pg_used_c st \<and>
    candidates (pg_rows st') = reported cs (used_set (pg_used_c st) \<union> {..<n})"
  using assms(1) unfolding st'_def
proof (induction n)
  case 0
  then show ?case using assms(2) by simp
next
  case (Suc n)
  let ?st = "fold (pair_candidate fmt6 cs) [0..<n] st"
  have IH: "baselines (pg_rows ?st) = baselines (pg_rows st)" "pg_used_c ?st = pg_used_c st"
      "candidates (pg_rows ?st) = reported cs (used_set (pg_used_c st) \<union> {..<n})"
    using Suc by auto
  have fold: "fold (pair_candidate fmt6 cs) [0..<Suc n] st = pair_candidate fmt6 cs n ?st"
    by simp
  show ?case
  proof (cases "pg_used_c st ! n")
    case True
    then have "used_set (pg_used_c st) \<union> {..<Suc n} = used_set (pg_used_c st) \<union> {..<n}"
      using Suc.prems assms(3) by (auto simp: used_set_def less_Suc_eq)
    then show ?thesis
      unfolding fold using IH True by (simp add: pair_candidate_def)
  next
    case False
    then have "used_set (pg_used_c st) \<union> {..<Suc n} = insert n (used_set (pg_used_c st) \<union> {..<n})"
        "n \<notin> used_set (pg_used_c st) \<union> {..<n}"
      by (auto simp: used_set_def less_Suc_eq)
    then show ?thesis
      unfolding fold using IH False
      by (simp add: pair_candidate_def Let_def baselines_def candidates_def)
  qed
qed

section \<open>Properties\<close>

text \<open>
  C18: Deltas are reported only for comparable measurements. A report row carries a delta only
  when workload, CPU, PT configuration and decoder all agree; it then pairs a baseline
  with a candidate row, the delta is the difference of their inclusive times, and unless
  the caller named the pair, the two rows are the same function and no other row on
  either side has its symbol stem. A strict comparison whose checks fail has no rows and
  is marked incomparable.
\<close>

theorem deltas_only_when_comparable:
  assumes "rep = compare_hotpaths fmt6 req bs cs workload cpu pt decoder"
  shows "(\<forall>r\<in>set (cp_rows rep). \<forall>d. cw_absolute_delta r = Some d \<longrightarrow>
      workload \<and> cpu \<and> pt \<and> decoder \<and>
      (\<exists>b\<in>set bs. \<exists>c\<in>set cs. \<exists>x y.
         hr_inclusive_sum_ns b = Some x \<and> hr_inclusive_sum_ns c = Some y \<and> d = int y - int x \<and>
         cw_path r = hr_path b \<and>
         (cw_match_kind r = ''explicit_pair'' \<or>
          same_function b c \<and> (cw_match_kind r = ''path'' \<longrightarrow> hr_path c = hr_path b) \<and>
          length (filter (\<lambda>x. row_stem x = row_stem b) bs) \<le> 1 \<and>
          length (filter (\<lambda>x. row_stem x = row_stem b) cs) \<le> 1))) \<and>
    (cr_mode req = StrictPerformance \<and> \<not> (workload \<and> cpu \<and> pt \<and> decoder) \<longrightarrow>
      cp_rows rep = [] \<and> \<not> cp_comparable rep)"
proof (rule conjI; (intro ballI allI impI)?)
  fix r d
  assume r: "r \<in> set (cp_rows rep)" and d: "cw_absolute_delta r = Some d"
  let ?a = "workload \<and> cpu \<and> pt \<and> decoder"
  have "r \<in> set (pair_rows fmt6 req bs cs ?a)"
    using r by (auto simp: assms compare_hotpaths_def Let_def split: if_splits)
  then have "explained fmt6 bs cs ?a r"
    using pair_rows_explained by blast
  moreover have "\<not> (\<exists>b c k. (b = None \<or> c = None) \<and> k \<in> {''ambiguous'', ''unmatched''} \<and>
      r = delta_row fmt6 (cw_path r) b c False k)"
  proof
    assume "\<exists>b c k. (b = None \<or> c = None) \<and> k \<in> {''ambiguous'', ''unmatched''} \<and>
      r = delta_row fmt6 (cw_path r) b c False k"
    then obtain b c k where "r = delta_row fmt6 (cw_path r) b c False k"
      by blast
    then have "cw_absolute_delta (delta_row fmt6 (cw_path r) b c False k) = Some d"
      using d by metis
    then show False
      by (simp add: delta_row_delta)
  qed
  ultimately obtain b c k where rd: "b \<in> set bs" "c \<in> set cs" "r = delta_row fmt6 (hr_path b) (Some b) (Some c) ?a k"
      "k = ''explicit_pair'' \<or> same_function b c \<and> (k = ''path'' \<and> hr_path c = hr_path b \<or> k = ''demangled_path'') \<and>
         length (filter (\<lambda>x. row_stem x = row_stem b) bs) \<le> 1 \<and>
         length (filter (\<lambda>x. row_stem x = row_stem b) cs) \<le> 1"
    unfolding explained_def by blast
  then have "?a" and "\<exists>x y. hr_inclusive_sum_ns b = Some x \<and> hr_inclusive_sum_ns c = Some y \<and> d = int y - int x"
    using d by (simp_all add: delta_row_delta)
  then show "workload \<and> cpu \<and> pt \<and> decoder \<and>
      (\<exists>b\<in>set bs. \<exists>c\<in>set cs. \<exists>x y.
         hr_inclusive_sum_ns b = Some x \<and> hr_inclusive_sum_ns c = Some y \<and> d = int y - int x \<and>
         cw_path r = hr_path b \<and>
         (cw_match_kind r = ''explicit_pair'' \<or>
          same_function b c \<and> (cw_match_kind r = ''path'' \<longrightarrow> hr_path c = hr_path b) \<and>
          length (filter (\<lambda>x. row_stem x = row_stem b) bs) \<le> 1 \<and>
          length (filter (\<lambda>x. row_stem x = row_stem b) cs) \<le> 1))"
    using rd by (intro conjI bexI [of _ b] bexI [of _ c]) auto
next
  assume "cr_mode req = StrictPerformance \<and> \<not> (workload \<and> cpu \<and> pt \<and> decoder)"
  then show "cp_rows rep = [] \<and> \<not> cp_comparable rep"
    by (auto simp: assms compare_hotpaths_def Let_def)
qed

text \<open>
  Nothing is dropped or counted twice. Without explicit pairs every baseline row is
  reported exactly once, in order, and every candidate row exactly once.
\<close>

theorem every_row_reported:
  assumes "cr_function_pairs req = []"
  shows "baselines (pair_rows fmt6 req bs cs a) = map (Some \<circ> metric_of) bs \<and>
    candidates (pair_rows fmt6 req bs cs a) = mset (map (Some \<circ> metric_of) cs)"
proof -
  let ?st = "fold (pair_baseline fmt6 bs cs a) [0..<length bs] (pairing_start bs cs)"
  note b = baseline_phase [of "length bs" bs fmt6 cs a]
  note c = candidate_phase [of "length cs" cs ?st fmt6]
  have "used_set (pg_used_c ?st) \<union> {..<length cs} = set [0..<length cs]"
    using b by (auto simp: used_set_def)
  moreover have "reported cs (set [0..<length cs]) = mset (map (Some \<circ> metric_of) cs)"
  proof -
    have "map (\<lambda>j. Some (metric_of (cs ! j))) [0..<length cs] = map (Some \<circ> metric_of) cs"
      by (rule nth_equalityI) auto
    moreover have "reported cs (set [0..<length cs]) = mset (map (\<lambda>j. Some (metric_of (cs ! j))) [0..<length cs])"
      by (simp only: mset_set_set distinct_upt mset_map)
    ultimately show ?thesis
      by (simp only:)
  qed
  ultimately show ?thesis
    using b c assms by (simp add: pair_rows_def)
qed

definition demo_row :: "string \<Rightarrow> u64 \<Rightarrow> hotpath_row" where
  "demo_row path ns =
     \<lparr>hr_path = path, hr_complete_calls = 10, hr_observed_entries = 10, hr_inclusive_sum_ns = Some ns,
      hr_self_sum_ns = Some ns, hr_p50_ns = Some ns, hr_p95_ns = Some ns, hr_p99_ns = None,
      hr_excluded_incomplete = 0, hr_n_eligible = 10, hr_instructions = None\<rparr>"

definition demo_side :: compare_side where
  "demo_side = \<lparr>cs_snapshot_id = ''s_b'', cs_analysis_id = None, cs_selection = None, cs_workload = None\<rparr>"

definition demo_request :: compare_request where
  "demo_request = \<lparr>cr_baseline = demo_side, cr_candidate = demo_side, cr_mode = Exploratory,
     cr_function_pairs = [], cr_group = GroupPath, cr_function_contains = None, cr_max_depth = None\<rparr>"

theorem every_row_reported_witness:
  "candidates (pair_rows (\<lambda>_ _. []) demo_request [demo_row ''foo'' 1] [demo_row ''bar'' 2, demo_row ''foo'' 3] True) =
     {#Some (metric_of (demo_row ''bar'' 2)), Some (metric_of (demo_row ''foo'' 3))#}"
  using every_row_reported [of demo_request "\<lambda>_ _. []" "[demo_row ''foo'' 1]" "[demo_row ''bar'' 2, demo_row ''foo'' 3]" True]
  by (simp add: demo_request_def)

lemma foo_stem: "row_stem (demo_row ''foo'' n) = ''foo''"
  by (simp add: row_stem_def demo_row_def leaf_def linkage_stem_def rfind_str_def)

theorem deltas_only_when_comparable_witness:
  "\<exists>r. r \<in> set (cp_rows (compare_hotpaths (\<lambda>_ _. []) demo_request [demo_row ''foo'' 100] [demo_row ''foo'' 80]
       True True True True)) \<and> cw_absolute_delta r = Some (- 20) \<and> cw_path r = ''foo''"
proof -
  let ?rep = "compare_hotpaths (\<lambda>_ _. []) demo_request [demo_row ''foo'' 100] [demo_row ''foo'' 80] True True True True"
  have "\<exists>r. r \<in> set (cp_rows ?rep) \<and> cw_absolute_delta r = Some (- 20)"
    by (simp add: compare_hotpaths_def demo_request_def pair_rows_def pairing_start_def pair_baseline_def
        pair_candidate_def foo_stem count_of_stem_counts same_function_def delta_row_def Let_def)
       (simp add: demo_row_def)
  then show ?thesis
    using deltas_only_when_comparable [OF refl, of "\<lambda>_ _. []" demo_request "[demo_row ''foo'' 100]" "[demo_row ''foo'' 80]" True True True True]
    by (fastforce simp: demo_row_def)
qed

text \<open>
  A function reached through two callers is never compared. When two baseline rows end in
  the same function, neither gets a delta without an explicit pair, even if the
  candidate has a row with the identical full path: both are reported as ambiguous.
\<close>

theorem shared_leaf_is_ambiguous:
  assumes "cr_function_pairs req = []" "b \<in> set bs"
    and "length (filter (\<lambda>x. row_stem x = row_stem b) bs) > 1"
  shows "\<forall>r\<in>set (pair_rows fmt6 req bs cs a). cw_path r = hr_path b \<and> cw_baseline r \<noteq> None \<longrightarrow>
    cw_match_kind r = ''ambiguous'' \<and> cw_absolute_delta r = None \<and> cw_candidate r = None"
proof -
  define ok where "ok st \<longleftrightarrow> (\<forall>r\<in>set (pg_rows st). cw_path r = hr_path b \<and> cw_baseline r \<noteq> None \<longrightarrow>
    cw_match_kind r = ''ambiguous'' \<and> cw_absolute_delta r = None \<and> cw_candidate r = None)" for st :: pairing
  have none: "cw_absolute_delta (delta_row fmt6 p x y False k) = None" for p x y k
    using delta_row_delta [of fmt6 p x y False k] by (cases "cw_absolute_delta (delta_row fmt6 p x y False k)") auto
  have stem: "row_stem (bs ! i) = row_stem b" if "hr_path (bs ! i) = hr_path b" for i
    using that by (simp add: row_stem_def)
  have b: "ok (pair_baseline fmt6 bs cs a i st)" if "ok st" for i st
  proof (cases "hr_path (bs ! i) = hr_path b")
    case True
    then show ?thesis
      using that assms(3) stem [OF True]
      by (auto simp: ok_def pair_baseline_def Let_def count_of_stem_counts none)
  next
    case False
    then show ?thesis
      using that by (auto simp: ok_def pair_baseline_def Let_def split: option.split)
  qed
  have c: "ok (pair_candidate fmt6 cs j st)" if "ok st" for j st
    using that by (auto simp: ok_def pair_candidate_def Let_def)
  have "ok (pairing_start bs cs)"
    by (simp add: ok_def pairing_start_def)
  then have "ok (fold (pair_baseline fmt6 bs cs a) [0..<length bs] (pairing_start bs cs))"
    by (rule fold_keeps) (rule b)
  then have "ok (fold (pair_candidate fmt6 cs) [0..<length cs]
      (fold (pair_baseline fmt6 bs cs a) [0..<length bs] (pairing_start bs cs)))"
    by (rule fold_keeps) (rule c)
  then show ?thesis
    using assms(1) by (simp add: ok_def pair_rows_def)
qed

theorem shared_leaf_is_ambiguous_witness:
  "\<forall>r\<in>set (pair_rows (\<lambda>_ _. []) demo_request [demo_row ''a/f'' 1, demo_row ''b/f'' 1]
       [demo_row ''a/f'' 1, demo_row ''b/f'' 1] True).
     cw_path r = ''a/f'' \<and> cw_baseline r \<noteq> None \<longrightarrow> cw_match_kind r = ''ambiguous''"
proof -
  have "row_stem (demo_row ''a/f'' 1) = ''f''" "row_stem (demo_row ''b/f'' 1) = ''f''"
    by (simp_all add: row_stem_def demo_row_def leaf_def linkage_stem_def rfind_str_def)
  then have "length (filter (\<lambda>x. row_stem x = row_stem (demo_row ''a/f'' 1)) [demo_row ''a/f'' 1, demo_row ''b/f'' 1]) > 1"
    by simp
  moreover have "hr_path (demo_row ''a/f'' 1) = ''a/f''"
    by (simp add: demo_row_def)
  ultimately show ?thesis
    using shared_leaf_is_ambiguous [of demo_request "demo_row ''a/f'' 1" "[demo_row ''a/f'' 1, demo_row ''b/f'' 1]"
      "\<lambda>_ _. []" "[demo_row ''a/f'' 1, demo_row ''b/f'' 1]" True]
    by (simp add: demo_request_def)
qed

end
