(* ===== verification/Source_Lookup.thy ===== *)
theory Source_Lookup
  imports Timeline
begin

text \<open>
  \<^verbatim>\<open>src/analysis/source.rs\<close>: resolving a reference (location, function or evidence id) to a
  code location, and the DWARF frames of an address. \<^verbatim>\<open>addr2line\<close> is a parameter:
  \<open>open_loader\<close> opens an archive, \<open>find_frames\<close> lists the frames an address yields
  before the end or an error. A panic of \<open>parse_namespaced\<close> is carried along.
\<close>

section \<open>DWARF frames\<close>

record inline_frame =
  if_function :: "string option"
  if_file :: "string option"
  if_line :: "u32 option"

record source_info =
  si_image_path :: string
  si_image_id :: string
  si_image_offset :: address
  si_virt_ip :: "address option"
  si_location_id :: "string option"
  si_function_id :: "string option"
  si_function :: "string option"
  si_file :: "string option"
  si_line :: "u32 option"
  si_inlined :: "inline_frame list"
  si_note :: "string option"

definition dwarf_frames ::
    "(string \<Rightarrow> string + 'l) \<Rightarrow> ('l \<Rightarrow> u64 \<Rightarrow> string + inline_frame list) \<Rightarrow> string \<Rightarrow> u64 \<Rightarrow>
     string option \<times> u32 option \<times> inline_frame list \<times> string option" where
  "dwarf_frames open_loader find_frames archive_path addr =
     (case open_loader archive_path of
        Inl e \<Rightarrow> (None, None, [], Some (''no DWARF loader: '' @ e))
      | Inr loader \<Rightarrow>
          (case find_frames loader addr of
             Inl e \<Rightarrow> (None, None, [], Some (''DWARF lookup failed: '' @ e))
           | Inr inlined \<Rightarrow>
               (case inlined of
                  [] \<Rightarrow> (None, None, [], Some ''no DWARF line information at this address (build with debug=2, no strip)'')
                | f # _ \<Rightarrow> (if_file f, if_line f, inlined, None))))"

section \<open>Location lookup\<close>

definition loc_by_id :: "code_location list \<Rightarrow> local_id \<Rightarrow> code_location option" where
  "loc_by_id locs i = List.find (\<lambda>l. loc_id l = i) locs"

definition loc_by_function :: "code_location list \<Rightarrow> local_id \<Rightarrow> code_location option" where
  "loc_by_function locs i = List.find (\<lambda>l. loc_function l = Some i) locs"

text \<open>\<^verbatim>\<open>parse_namespaced(raw).ok()\<close>\<close>

definition parse_ok :: "string \<Rightarrow> failure + namespaced_id option" where
  "parse_ok raw =
     (case parse_namespaced raw of
        Inr n \<Rightarrow> Inr (Some n)
      | Inl (Err e) \<Rightarrow> Inr None
      | Inl Panic \<Rightarrow> Inl Panic)"

definition loc_by_ref :: "code_location list \<Rightarrow> string \<Rightarrow> failure + code_location option" where
  "loc_by_ref locs raw =
     try_bind (parse_ok raw) (\<lambda>ns.
       case ns of
         None \<Rightarrow> Inr None
       | Some n \<Rightarrow> Inr (if ns_kind n = KLocation then loc_by_id locs (ns_local n) else None))"

definition loc_by_function_ref :: "code_location list \<Rightarrow> string \<Rightarrow> failure + code_location option" where
  "loc_by_function_ref locs raw =
     try_bind (parse_ok raw) (\<lambda>ns.
       case ns of
         None \<Rightarrow> Inr None
       | Some n \<Rightarrow> Inr (if ns_kind n = KFunction then loc_by_function locs (ns_local n) else None))"

definition loc_from_event :: "code_location list \<Rightarrow> flow_event \<Rightarrow> code_location option" where
  "loc_from_event locs e = Option.bind (opt_or (ev_from e) (ev_to e)) (loc_by_id locs)"

definition parse_event_range :: "string \<Rightarrow> failure + (local_id \<times> local_id) option" where
  "parse_event_range raw =
     (case split_once_str ''-e'' raw of
        None \<Rightarrow> Inr None
      | Some (left, right) \<Rightarrow>
          try_bind (parse_ok left) (\<lambda>ns.
            case ns of
              None \<Rightarrow> Inr None
            | Some n \<Rightarrow>
                if ns_kind n \<noteq> KEvent then Inr None
                else (case parse_u32 right of
                        None \<Rightarrow> Inr None
                      | Some stop \<Rightarrow> Inr (Some (ns_local n, stop)))))"

fun find_map :: "('a \<Rightarrow> 'b option) \<Rightarrow> 'a list \<Rightarrow> 'b option" where
  "find_map f [] = None"
| "find_map f (x # xs) = (case f x of Some y \<Rightarrow> Some y | None \<Rightarrow> find_map f xs)"

definition loc_of_span ::
    "code_location list \<Rightarrow> flow_event list \<Rightarrow> function_span \<Rightarrow> code_location option" where
  "loc_of_span locs events sp =
     Option.bind (sp_function sp) (\<lambda>f.
       opt_or (loc_by_function locs f)
         (Option.bind (List.find (\<lambda>e. ev_id e = er_start (sp_evidence sp)) events) (loc_from_event locs)))"

definition loc_by_evidence ::
    "code_location list \<Rightarrow> flow_event list \<Rightarrow> instruction_record list \<Rightarrow> function_span list \<Rightarrow>
     string \<Rightarrow> failure + code_location option" where
  "loc_by_evidence locs events instructions spans raw =
     try_bind (parse_event_range raw) (\<lambda>range.
       case range of
         Some (start, stop) \<Rightarrow>
           Inr (find_map (loc_from_event locs) (filter (\<lambda>e. ev_id e \<ge> start \<and> ev_id e \<le> stop) events))
       | None \<Rightarrow>
           try_bind (parse_ok raw) (\<lambda>ns.
             case ns of
               None \<Rightarrow> Inr None
             | Some n \<Rightarrow>
                 Inr (opt_or
                   (case ns_kind n of
                      KLocation \<Rightarrow> loc_by_id locs (ns_local n)
                    | KFunction \<Rightarrow> loc_by_function locs (ns_local n)
                    | KEvent \<Rightarrow>
                        Option.bind (List.find (\<lambda>e. ev_id e = ns_local n) events) (loc_from_event locs)
                    | KSpan \<Rightarrow>
                        Option.bind (List.find (\<lambda>s. sp_id s = ns_local n) spans) (loc_of_span locs events)
                    | KGap \<Rightarrow> None)
                   (Option.bind (List.find (\<lambda>i. in_id i = ns_local n) instructions)
                      (\<lambda>i. Option.bind (in_location i) (loc_by_id locs))))))"

definition resolve_source ::
    "code_location list \<Rightarrow> flow_event list \<Rightarrow> instruction_record list \<Rightarrow> function_span list \<Rightarrow>
     string option \<Rightarrow> string option \<Rightarrow> string option \<Rightarrow> failure + code_location option" where
  "resolve_source locs events instructions spans location_ref function_ref evidence_ref =
     try_bind (case location_ref of None \<Rightarrow> Inr None | Some i \<Rightarrow> loc_by_ref locs i) (\<lambda>l.
       case l of
         Some loc \<Rightarrow> Inr (Some loc)
       | None \<Rightarrow>
           try_bind (case function_ref of None \<Rightarrow> Inr None | Some i \<Rightarrow> loc_by_function_ref locs i) (\<lambda>l.
             case l of
               Some loc \<Rightarrow> Inr (Some loc)
             | None \<Rightarrow>
                 (case evidence_ref of
                    None \<Rightarrow> Inr None
                  | Some i \<Rightarrow> loc_by_evidence locs events instructions spans i)))"

section \<open>Lemmas\<close>

lemma no_dash_in_ref:
  assumes "CHR ''-'' \<notin> set a"
  shows "CHR ''-'' \<notin> set (a @ '':'' @ kind_tag k @ show_dec n)"
proof -
  have "CHR ''-'' \<notin> set (show_dec n)"
    by (rule not_digit_not_in_show) (auto simp: digit_val_def Let_def)
  then show ?thesis
    using assms by (cases k) auto
qed

lemma parse_ok_rendered:
  assumes "valid_raw a" "n \<le> u32_max"
  shows "parse_ok (a @ '':'' @ kind_tag k @ show_dec n) = Inr (Some \<lparr>ns_analysis = a, ns_kind = k, ns_local = n\<rparr>)"
  unfolding parse_ok_def parse_rendered [OF assms] by simp

section \<open>Properties\<close>

text \<open>
  Evidence strings are readable. The evidence text of a timeline row is parsed back by the
  source query to the event range of the span, for any analysis id without a dash (generated
  ids are hexadecimal).
\<close>

theorem timeline_evidence_roundtrip:
  assumes "valid_raw a" "CHR ''-'' \<notin> set a"
    and "er_start (sp_evidence sp) \<le> u32_max" "er_end (sp_evidence sp) \<le> u32_max"
  shows "parse_event_range (tr_evidence (timeline_row_of a names sel sp)) =
    Inr (Some (er_start (sp_evidence sp), er_end (sp_evidence sp)))"
proof -
  let ?s = "er_start (sp_evidence sp)" and ?e = "er_end (sp_evidence sp)"
  let ?l = "a @ '':'' @ kind_tag KEvent @ show_dec ?s"
  have "tr_evidence (timeline_row_of a names sel sp) = ?l @ ''-e'' @ show_dec ?e"
    by (simp add: timeline_row_of_def)
  moreover have "split_once_str ''-e'' (?l @ ''-e'' @ show_dec ?e) = Some (?l, show_dec ?e)"
    by (rule split_once_after) (rule no_dash_in_ref [OF assms(2)])
  ultimately show ?thesis
    using parse_ok_rendered [OF assms(1,3), of KEvent] assms(4)
    unfolding parse_event_range_def by (simp add: try_bind_def parse_uint_show_base)
qed

theorem timeline_evidence_roundtrip_witness:
  "parse_event_range (tr_evidence (timeline_row_of ''a_0f'' Map.empty
      \<lparr>sel_thread = None, sel_start = None, sel_end = None\<rparr>
      (span_at_zero\<lparr>sp_evidence := \<lparr>er_start = 4, er_end = 9\<rparr>\<rparr>))) = Inr (Some (4, 9))"
  using timeline_evidence_roundtrip [of "''a_0f''" "span_at_zero\<lparr>sp_evidence := \<lparr>er_start = 4, er_end = 9\<rparr>\<rparr>"]
  by (simp add: valid_raw_def u32_max_def)

text \<open>
  What a gap id resolves to. The instruction fallback of the evidence lookup is not
  restricted to instruction ids: the id of a gap resolves to the location of the
  instruction that happens to have the same number.
\<close>

theorem gap_resolves_to_instruction:
  assumes "valid_raw a" "CHR ''-'' \<notin> set a" "n \<le> u32_max"
  shows "loc_by_evidence locs events instructions spans
      (render \<lparr>ns_analysis = a, ns_kind = KGap, ns_local = n\<rparr>) =
    Inr (Option.bind (List.find (\<lambda>i. in_id i = n) instructions)
           (\<lambda>i. Option.bind (in_location i) (loc_by_id locs)))"
proof -
  let ?raw = "a @ '':'' @ kind_tag KGap @ show_dec n"
  have "find_str ''-e'' ?raw = None"
    by (rule find_str_none) (rule no_dash_in_ref [OF assms(2)])
  then have "parse_event_range ?raw = Inr None"
    by (simp add: parse_event_range_def split_once_str_def)
  then show ?thesis
    unfolding render_def loc_by_evidence_def using parse_ok_rendered [OF assms(1,3), of KGap]
    by (simp add: try_bind_def opt_or_def)
qed

theorem gap_resolves_to_instruction_witness:
  "loc_by_evidence [] [] [] [] (render \<lparr>ns_analysis = ''a_1'', ns_kind = KGap, ns_local = 3\<rparr>) = Inr None"
  using gap_resolves_to_instruction [of "''a_1''" 3 "[]" "[]" "[]" "[]"]
  by (simp add: valid_raw_def u32_max_def)

end
