(* ===== verification/Coordinator.thy ===== *)
theory Coordinator
  imports Trace_Model Hotpaths
begin

text \<open>
  The coordinator of \<^verbatim>\<open>src/service.rs\<close>: one task that owns the sessions, the jobs and
  the capacity counters and handles one request or internal event at a time. A handler is
  a function from the state to a reply, the new state and the tasks it spawned. What a
  handler asks of the outside world (generated ids, the disk, hashes, target checks) is in an
  environment record, one per call. A stop channel holds the latest request, as a
  \<^verbatim>\<open>tokio::sync::watch\<close> channel does; writes whose result the code ignores are left out.
  The counters are numbers without a bound: their \<^verbatim>\<open>u32\<close> would saturate only with more
  than four thousand million jobs at once.
\<close>

section \<open>State\<close>

datatype stop_request = Finish capture_reason | Abort

record session =
  ss_id :: string
  ss_request_id :: string
  ss_request_hash :: string
  ss_target :: target
  ss_config :: intel_pt_config
  ss_after_ms :: "u64 option"
  ss_workload :: "workload_meta option"
  ss_phase :: session_phase
  ss_snapshot_id :: "string option"
  ss_decode_job :: "string option"
  ss_stop :: "stop_request option option"
  ss_armed_at :: "nat option"
  ss_slot_held :: bool

record coord =
  co_limits :: limits
  co_sessions :: "string \<rightharpoonup> session"
  co_by_request :: "string \<rightharpoonup> string"
  co_jobs :: "string \<rightharpoonup> job_record"
  co_cache_jobs :: "string \<rightharpoonup> string"
  co_active_captures :: u32
  co_running_decode :: u32
  co_pending_expensive :: u32
  co_reserved_decode :: u32

definition coord_new :: "limits \<Rightarrow> coord" where
  "coord_new lim =
     \<lparr>co_limits = lim, co_sessions = Map.empty, co_by_request = Map.empty, co_jobs = Map.empty,
      co_cache_jobs = Map.empty, co_active_captures = 0, co_running_decode = 0,
      co_pending_expensive = 0, co_reserved_decode = 0\<rparr>"

text \<open>A spawned job with the slots its completion gives back.\<close>

record job_task =
  jt_record :: job_record
  jt_decode_slot :: bool
  jt_expensive_slot :: bool

definition update_session :: "string \<Rightarrow> (session \<Rightarrow> session) \<Rightarrow> coord \<Rightarrow> coord" where
  "update_session i f c =
     (case co_sessions c i of
        None \<Rightarrow> c
      | Some s \<Rightarrow> c\<lparr>co_sessions := (co_sessions c)(i \<mapsto> f s)\<rparr>)"

definition put_job :: "job_record \<Rightarrow> coord \<Rightarrow> coord" where
  "put_job r c = c\<lparr>co_jobs := (co_jobs c)(jr_job_id r \<mapsto> r)\<rparr>"

definition release_capture_slot :: "string \<Rightarrow> coord \<Rightarrow> coord" where
  "release_capture_slot i c =
     (case co_sessions c i of
        None \<Rightarrow> c
      | Some s \<Rightarrow>
          if ss_slot_held s
          then (update_session i (\<lambda>s. s\<lparr>ss_slot_held := False\<rparr>) c)
                 \<lparr>co_active_captures := co_active_captures c - 1\<rparr>
          else c)"

definition cancel_queued_session_job :: "string \<Rightarrow> coord \<Rightarrow> coord" where
  "cancel_queued_session_job i c =
     (case Option.bind (co_sessions c i) ss_decode_job of
        None \<Rightarrow> c
      | Some job \<Rightarrow>
          (case co_jobs c job of
             None \<Rightarrow> c
           | Some j \<Rightarrow>
               if jr_phase j = Queued
               then c\<lparr>co_jobs := (co_jobs c)(job \<mapsto> j\<lparr>jr_phase := JobCancelled\<rparr>)\<rparr> else c))"

definition release_reserved :: "coord \<Rightarrow> coord" where
  "release_reserved c = c\<lparr>co_reserved_decode := co_reserved_decode c - 1\<rparr>"

section \<open>Starting a session\<close>

record start_request =
  sq_request_id :: string
  sq_target :: target
  sq_config :: intel_pt_config
  sq_after_ms :: "u64 option"
  sq_workload :: "workload_meta option"
  sq_trigger :: "trigger option"
  sq_tail_ms :: "u64 option"

definition opt0 :: "nat option \<Rightarrow> nat" where
  "opt0 v = (case v of None \<Rightarrow> 0 | Some n \<Rightarrow> n)"

definition normalize_capture_bound ::
    "intel_pt_config \<Rightarrow> u64 option \<Rightarrow> u64 option \<Rightarrow> error + intel_pt_config" where
  "normalize_capture_bound cfg after_ms tail_ms =
     (if after_ms = Some 0 then Inl (invalid_argument ''after_ms must be > 0'')
      else Inr (cfg\<lparr>max_capture_ms := max (max (max_capture_ms cfg) (opt0 after_ms)) (opt0 tail_ms)\<rparr>))"

definition validate_trigger :: "start_request \<Rightarrow> error + unit" where
  "validate_trigger req =
     (case sq_trigger req of
        None \<Rightarrow> Inr ()
      | Some (SymbolTrigger symbol hits) \<Rightarrow>
          if \<not> owns_workload (sq_target req)
          then Inl (invalid_argument ''symbol triggers require a launch target'')
          else if trim_str symbol = [] then Inl (invalid_argument ''trigger symbol must not be empty'')
          else if hits = 0 then Inl (invalid_argument ''trigger hits must be >= 1'')
          else Inr ()
      | Some FifoTrigger \<Rightarrow>
          if \<not> owns_workload (sq_target req)
          then Inl (with_next ''Use after_ms or trace_snapshot for an attached process''
                 (invalid_argument ''fifo triggers require a launch target: only a launched workload inherits $TRACE_MCP_TRIGGER''))
          else Inr ())"

record start_env =
  se_page_size :: u64
  se_hash :: "start_request \<Rightarrow> string"
  se_budget :: "error + unit"
  se_topology :: "intel_pt_config \<Rightarrow> error + intel_pt_config"
  se_probe :: "target \<Rightarrow> error + unit"
  se_persist :: "error + unit"
  se_session_id :: string
  se_snapshot_id :: string

definition new_session :: "start_env \<Rightarrow> start_request \<Rightarrow> string \<Rightarrow> intel_pt_config \<Rightarrow> session" where
  "new_session env req h cfg =
     \<lparr>ss_id = se_session_id env, ss_request_id = sq_request_id req, ss_request_hash = h,
      ss_target = sq_target req, ss_config = cfg, ss_after_ms = sq_after_ms req,
      ss_workload = sq_workload req, ss_phase = Starting, ss_snapshot_id = Some (se_snapshot_id env),
      ss_decode_job = None, ss_stop = Some None, ss_armed_at = None, ss_slot_held = True\<rparr>"

text \<open>The checks of a request with a fresh id, ending with the persisted session.\<close>

definition admit_session :: "start_env \<Rightarrow> start_request \<Rightarrow> string \<Rightarrow> coord \<Rightarrow> error + session" where
  "admit_session env req h c =
     (if co_active_captures c \<ge> max_active_captures (co_limits c)
      then Inl (with_next ''Wait for it to finish or cancel it''
             (error_new SessionBusy ''an active capture already exists''))
      else try_bind (se_budget env) (\<lambda>_.
        if co_reserved_decode c + co_pending_expensive c \<ge> max_pending_expensive (co_limits c)
        then Inl (busy_error ''expensive job queue is full'')
        else try_bind (se_topology env (sq_config req)) (\<lambda>cfg.
             try_bind (se_probe env (sq_target req)) (\<lambda>_.
             try_bind (se_persist env) (\<lambda>_. Inr (new_session env req h cfg))))))"

definition validate_start :: "start_env \<Rightarrow> start_request \<Rightarrow> error + start_request" where
  "validate_start env req =
     try_bind (target_validate (sq_target req)) (\<lambda>_.
     try_bind (config_validate (se_page_size env) (sq_config req)) (\<lambda>_.
     try_bind (normalize_capture_bound (sq_config req) (sq_after_ms req) (sq_tail_ms req)) (\<lambda>cfg.
     try_bind (validate_trigger (req\<lparr>sq_config := cfg\<rparr>)) (\<lambda>_. Inr (req\<lparr>sq_config := cfg\<rparr>)))))"

definition handle_start ::
    "start_env \<Rightarrow> start_request \<Rightarrow> coord \<Rightarrow> (failure + (string \<times> session_phase)) \<times> coord \<times> string list" where
  "handle_start env req0 c =
     (case validate_start env req0 of
        Inl e \<Rightarrow> (Inl (Err e), c, [])
      | Inr req \<Rightarrow>
          (let h = se_hash env req
           in case co_by_request c (sq_request_id req) of
                Some existing \<Rightarrow>
                  (case co_sessions c existing of
                     None \<Rightarrow> (Inl Panic, c, [])
                   | Some s \<Rightarrow>
                       if ss_request_hash s \<noteq> [] \<and> ss_request_hash s \<noteq> h
                       then (Inl (Err (invalid_argument ''request_id reused with a different body'')), c, [])
                       else (Inr (ss_id s, ss_phase s), c, []))
              | None \<Rightarrow>
                  (case admit_session env req h c of
                     Inl e \<Rightarrow> (Inl (Err e), c, [])
                   | Inr s \<Rightarrow>
                       (Inr (ss_id s, Starting),
                        c\<lparr>co_by_request := (co_by_request c)(sq_request_id req \<mapsto> ss_id s),
                          co_sessions := (co_sessions c)(ss_id s \<mapsto> s),
                          co_active_captures := co_active_captures c + 1,
                          co_reserved_decode := co_reserved_decode c + 1\<rparr>,
                        [ss_id s]))))"

section \<open>Internal events\<close>

datatype internal_evt =
    ArmedEvt string
  | FailedEvt string string
  | PublishedEvt string string
  | JobFinished job_record bool bool

definition queued_decode :: "string \<Rightarrow> string \<Rightarrow> job_record" where
  "queued_decode job snap =
     \<lparr>jr_job_id = job, jr_kind = InitialDecode, jr_phase = Queued, jr_snapshot_id = Some snap,
      jr_analysis_id = None, jr_report_id = None, jr_error = None\<rparr>"

text \<open>\<open>now\<close> is the clock; \<open>new_job\<close> and \<open>new_analysis\<close> are generated ids.\<close>

definition handle_armed :: "nat \<Rightarrow> string \<Rightarrow> coord \<Rightarrow> coord" where
  "handle_armed now i c =
     update_session i
       (\<lambda>s. if ss_phase s = Starting then s\<lparr>ss_phase := Armed, ss_armed_at := Some now\<rparr> else s) c"

definition handle_failed :: "string \<Rightarrow> coord \<Rightarrow> coord" where
  "handle_failed i c =
     release_reserved (release_capture_slot i (cancel_queued_session_job i
       (update_session i
          (\<lambda>s. if ss_phase s \<noteq> CancelledPhase then s\<lparr>ss_phase := FailedPhase\<rparr> else s) c)))"

definition start_initial_decode :: "string \<Rightarrow> string \<Rightarrow> string \<Rightarrow> coord \<Rightarrow> coord \<times> job_task list" where
  "start_initial_decode job snap aid c =
     (let rec = queued_decode job snap
      in (release_reserved ((put_job (rec\<lparr>jr_analysis_id := Some aid, jr_phase := Running\<rparr>) c)
            \<lparr>co_running_decode := co_running_decode c + 1\<rparr>),
          [\<lparr>jt_record = rec\<lparr>jr_analysis_id := Some aid\<rparr>, jt_decode_slot = True, jt_expensive_slot = False\<rparr>]))"

definition handle_published :: "string \<Rightarrow> string \<Rightarrow> string \<Rightarrow> string \<Rightarrow> coord \<Rightarrow> coord \<times> job_task list" where
  "handle_published new_job aid i snap c =
     (case co_sessions c i of
        Some s \<Rightarrow>
          if ss_phase s = CancelledPhase \<or> ss_phase s = FailedPhase
          then (release_reserved (release_capture_slot i (cancel_queued_session_job i
                  (update_session i
                     (\<lambda>s. if ss_snapshot_id s = None then s\<lparr>ss_snapshot_id := Some snap\<rparr> else s) c))), [])
          else (let job = (case ss_decode_job s of None \<Rightarrow> new_job | Some j \<Rightarrow> j)
                in start_initial_decode job snap aid
                     (release_capture_slot i
                       (update_session i
                          (\<lambda>s. s\<lparr>ss_phase := Captured, ss_snapshot_id := Some snap, ss_decode_job := Some job\<rparr>) c)))
      | None \<Rightarrow> (c, []))"

definition handle_job_finished :: "job_record \<Rightarrow> bool \<Rightarrow> bool \<Rightarrow> coord \<Rightarrow> coord" where
  "handle_job_finished rec decode_slot expensive_slot c =
     put_job rec
       (c\<lparr>co_running_decode := (if decode_slot then co_running_decode c - 1 else co_running_decode c),
          co_pending_expensive := (if expensive_slot then co_pending_expensive c - 1 else co_pending_expensive c)\<rparr>)"

definition handle_internal ::
    "nat \<Rightarrow> string \<Rightarrow> string \<Rightarrow> internal_evt \<Rightarrow> coord \<Rightarrow> coord \<times> job_task list" where
  "handle_internal now new_job new_analysis evt c =
     (case evt of
        ArmedEvt i \<Rightarrow> (handle_armed now i c, [])
      | FailedEvt i e \<Rightarrow> (handle_failed i c, [])
      | PublishedEvt i snap \<Rightarrow> handle_published new_job new_analysis i snap c
      | JobFinished rec d x \<Rightarrow> (handle_job_finished rec d x c, []))"

section \<open>Snapshot, cancel, prune\<close>

record snapshot_response =
  sr_snapshot_id :: string
  sr_job_id :: string
  sr_state :: session_phase

definition handle_snapshot ::
    "(error + unit) \<Rightarrow> string \<Rightarrow> string \<Rightarrow> string \<Rightarrow> capture_reason \<Rightarrow> coord \<Rightarrow>
     (error + snapshot_response) \<times> coord" where
  "handle_snapshot persist new_snap new_job i reason c =
     (case co_sessions c i of
        None \<Rightarrow> (Inl (not_found i), c)
      | Some s \<Rightarrow>
          (case ss_phase s of
             Starting \<Rightarrow> (Inl (error_new NotReady ''session is still starting''), c)
           | FailedPhase \<Rightarrow> (Inl (error_new CancelledCode ''session failed''), c)
           | CancelledPhase \<Rightarrow> (Inl (cancelled_error ''session cancelled''), c)
           | Armed \<Rightarrow>
               (let snap = (case ss_snapshot_id s of None \<Rightarrow> new_snap | Some x \<Rightarrow> x);
                    job = (case ss_decode_job s of None \<Rightarrow> new_job | Some j \<Rightarrow> j);
                    c1 = update_session i
                           (\<lambda>s. s\<lparr>ss_snapshot_id := Some snap, ss_decode_job := Some job, ss_phase := Finalizing\<rparr>) c
                in case persist of
                     Inl e \<Rightarrow> (Inl e, c1)
                   | Inr _ \<Rightarrow>
                       (Inr \<lparr>sr_snapshot_id = snap, sr_job_id = job, sr_state = Finalizing\<rparr>,
                        put_job (queued_decode job snap)
                          (update_session i
                            (\<lambda>s. s\<lparr>ss_stop := (case ss_stop s of None \<Rightarrow> None | Some _ \<Rightarrow> Some (Some (Finish reason)))\<rparr>) c1)))
           | _ \<Rightarrow>
               (case ss_snapshot_id s of
                  None \<Rightarrow> (Inl (not_found ''snapshot''), c)
                | Some snap \<Rightarrow>
                    (case ss_decode_job s of
                       None \<Rightarrow> (Inl (not_found ''job''), c)
                     | Some job \<Rightarrow>
                         (Inr \<lparr>sr_snapshot_id = snap, sr_job_id = job, sr_state = ss_phase s\<rparr>, c)))))"

datatype cancel_target = CancelSession string | CancelJob string

datatype cancel_reply = SessionState session_phase string | JobView job_record | JobStateCancelled string

definition handle_cancel :: "cancel_target \<Rightarrow> coord \<Rightarrow> (error + cancel_reply) \<times> coord" where
  "handle_cancel tgt c =
     (case tgt of
        CancelSession i \<Rightarrow>
          (case co_sessions c i of
             None \<Rightarrow> (Inl (not_found i), c)
           | Some s \<Rightarrow>
               if ss_phase s \<in> {Captured, CancelledPhase, FailedPhase}
               then (Inr (SessionState (ss_phase s) i), c)
               else (Inr (SessionState CancelledPhase i),
                     release_capture_slot i
                       (update_session i
                          (\<lambda>s. s\<lparr>ss_phase := CancelledPhase,
                                 ss_stop := (case ss_stop s of None \<Rightarrow> None | Some _ \<Rightarrow> Some (Some Abort))\<rparr>) c)))
      | CancelJob j \<Rightarrow>
          (case co_jobs c j of
             None \<Rightarrow> (Inr (JobStateCancelled j), c)
           | Some r \<Rightarrow>
               if jr_phase r = Succeeded then (Inr (JobView r), c)
               else (Inr (JobStateCancelled j), c\<lparr>co_jobs := (co_jobs c)(j \<mapsto> r\<lparr>jr_phase := JobCancelled\<rparr>)\<rparr>)))"

text \<open>
  Pruning. \<open>remove\<close> is \<^verbatim>\<open>Store::remove_snapshot\<close>; the result lists the removed snapshots
  with their sizes and the skipped ones with the reason.
\<close>

definition snapshot_busy :: "coord \<Rightarrow> string \<Rightarrow> bool" where
  "snapshot_busy c i \<longleftrightarrow> (\<exists>j\<in>ran (co_jobs c). jr_snapshot_id j = Some i \<and> jr_phase j \<in> {Queued, Running})"

definition snapshot_capturing :: "coord \<Rightarrow> string \<Rightarrow> bool" where
  "snapshot_capturing c i \<longleftrightarrow>
     (\<exists>s\<in>ran (co_sessions c). ss_snapshot_id s = Some i \<and> ss_phase s \<in> {Starting, Armed, Finalizing})"

definition prune_one ::
    "(string \<Rightarrow> error + u64) \<Rightarrow> string \<Rightarrow> coord \<times> (string \<times> u64) list \<times> (string \<times> string) list \<Rightarrow>
     coord \<times> (string \<times> u64) list \<times> (string \<times> string) list" where
  "prune_one remove i st =
     (case st of (c, removed, skipped) \<Rightarrow>
        if snapshot_busy c i then (c, removed, skipped @ [(i, ''a job is queued or running on it'')])
        else if snapshot_capturing c i then (c, removed, skipped @ [(i, ''its capture has not finished'')])
        else (case remove i of
                Inr bytes \<Rightarrow>
                  (c\<lparr>co_cache_jobs := (\<lambda>k. case co_cache_jobs c k of
                        None \<Rightarrow> None
                      | Some job \<Rightarrow> if Option.bind (co_jobs c job) jr_snapshot_id = Some i then None else Some job)\<rparr>,
                   removed @ [(i, bytes)], skipped)
              | Inl e \<Rightarrow> (c, removed, skipped @ [(i, err_reason e)])))"

text \<open>The directory sizes before and the space used after are read from the disk and may fail.\<close>

record prune_reply =
  pl_snapshots :: "(string \<times> u64) list"
  pl_removed :: "(string \<times> u64) list"
  pl_skipped :: "(string \<times> string) list"
  pl_used :: u64
  pl_budget :: u64

definition prune_all ::
    "(string \<Rightarrow> error + u64) \<Rightarrow> string list \<Rightarrow> bool \<Rightarrow> coord \<Rightarrow>
     coord \<times> (string \<times> u64) list \<times> (string \<times> string) list" where
  "prune_all remove ids list_only c =
     (if list_only then (c, [], []) else fold (prune_one remove) ids (c, [], []))"

definition handle_prune ::
    "(error + (string \<times> u64) list) \<Rightarrow> (string \<Rightarrow> error + u64) \<Rightarrow> (error + u64) \<Rightarrow> string list \<Rightarrow> bool \<Rightarrow> coord \<Rightarrow>
     (error + prune_reply) \<times> coord" where
  "handle_prune sizes remove used ids list_only c =
     (case sizes of
        Inl e \<Rightarrow> (Inl e, c)
      | Inr sz \<Rightarrow>
          (case prune_all remove ids list_only c of
             (c', removed, skipped) \<Rightarrow>
               (case used of
                  Inl e \<Rightarrow> (Inl e, c')
                | Inr n \<Rightarrow>
                    (Inr \<lparr>pl_snapshots = sort_key (\<lambda>x. - int (snd x)) sz, pl_removed = removed,
                          pl_skipped = skipped, pl_used = n, pl_budget = store_budget (co_limits c')\<rparr>, c'))))"

section \<open>Decode and compare\<close>

datatype detail_sel = CallsDetail bool | InstructionsDetail selection

record decode_response =
  dr_analysis_id :: string
  dr_job_id :: "string option"
  dr_cached :: bool

record decode_env =
  de_manifest :: "error + snapshot_manifest"
  de_key :: "snapshot_manifest \<Rightarrow> detail_level \<Rightarrow> selection option \<Rightarrow> bool \<Rightarrow> string"
  de_find :: "string \<Rightarrow> (string \<times> string option) option"
  de_job_id :: string
  de_analysis_id :: string

definition decode_detail :: "detail_sel \<Rightarrow> error + (detail_level \<times> selection option)" where
  "decode_detail d =
     (case d of
        CallsDetail _ \<Rightarrow> Inr (Calls, None)
      | InstructionsDetail sel \<Rightarrow>
          try_bind (selection_validate sel) (\<lambda>_.
            if sel_thread sel = None \<or> sel_start sel = None \<or> sel_end sel = None
            then Inl (invalid_argument ''instruction decode requires thread_id and a bounded start_ns/end_ns'')
            else Inr (Instructions, Some sel)))"

definition handle_decode ::
    "decode_env \<Rightarrow> string \<Rightarrow> detail_sel \<Rightarrow> coord \<Rightarrow> (error + decode_response) \<times> coord \<times> job_task list" where
  "handle_decode env snap_id detail_sel c =
     (case try_bind (de_manifest env) (\<lambda>snap. try_bind (decode_detail detail_sel) (\<lambda>d. Inr (snap, d))) of
        Inl e \<Rightarrow> (Inl e, c, [])
      | Inr (snap, detail, sel) \<Rightarrow>
          (let fast = (detail_sel = CallsDetail True);
               key = de_key env snap detail sel fast
           in case de_find env key of
                Some (aid, jid) \<Rightarrow> (Inr \<lparr>dr_analysis_id = aid, dr_job_id = jid, dr_cached = True\<rparr>, c, [])
              | None \<Rightarrow>
                  (case Option.bind (co_cache_jobs c key) (\<lambda>jid. map_option (Pair jid) (co_jobs c jid)) of
                     Some (jid, job) \<Rightarrow>
                       (case jr_analysis_id job of
                          Some aid \<Rightarrow>
                            (Inr \<lparr>dr_analysis_id = aid, dr_job_id = Some jid, dr_cached = True\<rparr>, c, [])
                        | None \<Rightarrow>
                            (Inr \<lparr>dr_analysis_id = de_analysis_id env, dr_job_id = Some jid, dr_cached = False\<rparr>, c, []))
                   | None \<Rightarrow>
                       if co_running_decode c \<ge> max_decode_jobs (co_limits c)
                       then (Inl (busy_error ''decode worker is busy''), c, [])
                       else (let rec = \<lparr>jr_job_id = de_job_id env,
                                        jr_kind = (if detail = Instructions then InstructionDecode else InitialDecode),
                                        jr_phase = Queued, jr_snapshot_id = Some snap_id,
                                        jr_analysis_id = Some (de_analysis_id env), jr_report_id = None,
                                        jr_error = None\<rparr>
                             in (Inr \<lparr>dr_analysis_id = de_analysis_id env, dr_job_id = Some (de_job_id env),
                                      dr_cached = False\<rparr>,
                                 (put_job rec c)\<lparr>co_cache_jobs := (co_cache_jobs c)(key \<mapsto> de_job_id env),
                                                 co_running_decode := co_running_decode c + 1\<rparr>,
                                 [\<lparr>jt_record = rec, jt_decode_slot = True, jt_expensive_slot = False\<rparr>])))))"

definition handle_compare ::
    "string \<Rightarrow> string \<Rightarrow> string \<Rightarrow> coord \<Rightarrow> (error + string) \<times> coord \<times> job_task list" where
  "handle_compare key new_job new_report c =
     (case co_cache_jobs c key of
        Some jid \<Rightarrow> (Inr jid, c, [])
      | None \<Rightarrow>
          if co_pending_expensive c \<ge> max_pending_expensive (co_limits c)
          then (Inl (busy_error ''compare queue full''), c, [])
          else (let rec = \<lparr>jr_job_id = new_job, jr_kind = CompareJob, jr_phase = Queued, jr_snapshot_id = None,
                           jr_analysis_id = None, jr_report_id = Some new_report, jr_error = None\<rparr>
                in (Inr new_job,
                    (put_job rec c)\<lparr>co_cache_jobs := (co_cache_jobs c)(key \<mapsto> new_job),
                                    co_pending_expensive := co_pending_expensive c + 1\<rparr>,
                    [\<lparr>jt_record = rec, jt_decode_slot = False, jt_expensive_slot = True\<rparr>])))"

text \<open>The record a finished job reports: its outcome is a success or an error text.\<close>

definition finish_record :: "string option \<Rightarrow> job_record \<Rightarrow> job_record" where
  "finish_record failed r =
     (case failed of
        None \<Rightarrow> r\<lparr>jr_phase := Succeeded\<rparr>
      | Some e \<Rightarrow> r\<lparr>jr_phase := JobFailed, jr_error := Some e\<rparr>)"

section \<open>Restart\<close>

text \<open>A session file as far as it parsed, and what the other directories hold; a directory that
  cannot be read counts as empty.\<close>

record persisted_session =
  ps_session_id :: string
  ps_request_id :: "string option"
  ps_request_hash :: "string option"
  ps_state :: "session_phase option"
  ps_snapshot_id :: "string option"
  ps_job_id :: "string option"
  ps_target :: "target option"
  ps_config :: "intel_pt_config option"
  ps_after_ms :: "u64 option"
  ps_workload :: "workload_meta option"

record persisted_store =
  px_sessions :: "persisted_session list"
  px_jobs :: "job_record list"
  px_analyses :: "(string \<times> string) list"
  px_reports :: "(string option \<times> string option) list"

definition restored_phase :: "session_phase option \<Rightarrow> session_phase" where
  "restored_phase p =
     (case p of None \<Rightarrow> FailedPhase
      | Some q \<Rightarrow> if q \<in> {Starting, Armed, Finalizing} then FailedPhase else q)"

definition load_session :: "persisted_session \<Rightarrow> coord \<Rightarrow> coord" where
  "load_session p c =
     (case ps_request_id p of
        None \<Rightarrow> c
      | Some rid \<Rightarrow>
          c\<lparr>co_by_request := (co_by_request c)(rid \<mapsto> ps_session_id p),
            co_sessions := (co_sessions c)(ps_session_id p \<mapsto>
              \<lparr>ss_id = ps_session_id p, ss_request_id = rid,
               ss_request_hash = (case ps_request_hash p of None \<Rightarrow> [] | Some h \<Rightarrow> h),
               ss_target = (case ps_target p of None \<Rightarrow> Launch [''unknown''] None [] | Some t \<Rightarrow> t),
               ss_config = (case ps_config p of None \<Rightarrow> config_default | Some k \<Rightarrow> k),
               ss_after_ms = ps_after_ms p, ss_workload = ps_workload p,
               ss_phase = restored_phase (ps_state p), ss_snapshot_id = ps_snapshot_id p,
               ss_decode_job = ps_job_id p, ss_stop = None, ss_armed_at = None, ss_slot_held = False\<rparr>)\<rparr>)"

definition load_analysis :: "job_record list \<Rightarrow> string \<times> string \<Rightarrow> coord \<Rightarrow> coord" where
  "load_analysis js a c =
     (case List.find (\<lambda>j. jr_analysis_id j = Some (fst a)) js of
        None \<Rightarrow> c
      | Some j \<Rightarrow> c\<lparr>co_cache_jobs := (co_cache_jobs c)(snd a \<mapsto> jr_job_id j)\<rparr>)"

definition load_report :: "string option \<times> string option \<Rightarrow> coord \<Rightarrow> coord" where
  "load_report r c =
     (case r of
        (Some key, Some jid) \<Rightarrow> c\<lparr>co_cache_jobs := (co_cache_jobs c)(key \<mapsto> jid)\<rparr>
      | _ \<Rightarrow> c)"

definition load_persisted :: "persisted_store \<Rightarrow> coord \<Rightarrow> coord" where
  "load_persisted px c =
     fold load_report (px_reports px)
       (fold (load_analysis (px_jobs px)) (px_analyses px)
         (fold put_job (px_jobs px)
           (fold load_session (px_sessions px) c)))"

section \<open>Listing sessions\<close>

definition sessions_page :: "'a list \<Rightarrow> string option \<Rightarrow> u32 option \<Rightarrow> 'a list \<times> string option" where
  "sessions_page all cursor lim =
     (let start = (case Option.bind cursor parse_u64 of None \<Rightarrow> 0 | Some n \<Rightarrow> n);
          n = min (case lim of None \<Rightarrow> 50 | Some v \<Rightarrow> v) 200;
          page = take n (drop start all)
      in (page, if length page = n then Some (show_dec (start + n)) else None))"

section \<open>Capture deadlines\<close>

definition bounded_tail_deadline :: "nat \<Rightarrow> nat option \<Rightarrow> nat \<Rightarrow> nat \<Rightarrow> nat" where
  "bounded_tail_deadline deadline after fired_at tail_ms =
     min (fired_at + tail_ms) (case after of None \<Rightarrow> deadline | Some a \<Rightarrow> min deadline a)"

definition expired_capture_reason :: "nat \<Rightarrow> nat \<Rightarrow> nat option \<Rightarrow> nat option \<Rightarrow> capture_reason option" where
  "expired_capture_reason now deadline after tail_deadline =
     (if now \<ge> deadline then Some TimeLimit
      else if (case after of None \<Rightarrow> False | Some stop \<Rightarrow> now \<ge> stop) then Some AfterMs
      else if (case tail_deadline of None \<Rightarrow> False | Some stop \<Rightarrow> now \<ge> stop) then Some TriggerReason
      else None)"

definition hotpath_max_depth :: "hotpath_group \<Rightarrow> u32 option \<Rightarrow> nat option" where
  "hotpath_max_depth grp requested =
     (case (grp, requested) of
        (_, Some d) \<Rightarrow> if d = 0 then None else Some d
      | (GroupInline, None) \<Rightarrow> Some 3
      | (_, None) \<Rightarrow> None)"

end
