(* ===== verification/Coordinator_Steps.thy ===== *)
theory Coordinator_Steps
  imports Coordinator
begin

text \<open>
  The coordinator among its tasks. A system state is the coordinator's state, the sessions whose
  capture task is still running and the jobs that have not reported. Every request and every
  report of a task is one step; generated session ids are new. The locale
  \<open>system_invariant\<close> carries an invariant from the restart state to every reachable state.
\<close>

type_synonym system = "coord \<times> string set \<times> job_task list"

inductive sstep :: "system \<Rightarrow> system \<Rightarrow> bool" where
  start: "handle_start env req c = (r, c', spawned) \<Longrightarrow> se_session_id env \<notin> dom (co_sessions c) \<Longrightarrow>
    sstep (c, K, T) (c', K \<union> set spawned, T)"
| armed: "i \<in> K \<Longrightarrow> handle_internal now j a (ArmedEvt i) c = (c', ts) \<Longrightarrow> sstep (c, K, T) (c', K, T @ ts)"
| failed: "i \<in> K \<Longrightarrow> handle_internal now j a (FailedEvt i e) c = (c', ts) \<Longrightarrow>
    sstep (c, K, T) (c', K - {i}, T @ ts)"
| published: "i \<in> K \<Longrightarrow> handle_internal now j a (PublishedEvt i snap) c = (c', ts) \<Longrightarrow>
    sstep (c, K, T) (c', K - {i}, T @ ts)"
| finished: "T = xs @ t # ys \<Longrightarrow>
    handle_internal now j a (JobFinished (finish_record f (jt_record t)) (jt_decode_slot t) (jt_expensive_slot t)) c
      = (c', ts) \<Longrightarrow>
    sstep (c, K, T) (c', K, (xs @ ys) @ ts)"
| snapshot: "handle_snapshot persist ns nj i reason c = (r, c') \<Longrightarrow> sstep (c, K, T) (c', K, T)"
| cancel: "handle_cancel tgt c = (r, c') \<Longrightarrow> sstep (c, K, T) (c', K, T)"
| prune: "handle_prune sz rm us ids lo c = (r, c') \<Longrightarrow> sstep (c, K, T) (c', K, T)"
| decode: "handle_decode env sid d c = (r, c', ts) \<Longrightarrow> sstep (c, K, T) (c', K, T @ ts)"
| compare: "handle_compare key nj nr c = (r, c', ts) \<Longrightarrow> sstep (c, K, T) (c', K, T @ ts)"

inductive reachable :: "limits \<Rightarrow> system \<Rightarrow> bool" for lim where
  boot: "reachable lim (load_persisted px (coord_new lim), {}, [])"
| step: "reachable lim s \<Longrightarrow> sstep s s' \<Longrightarrow> reachable lim s'"

locale system_invariant =
  fixes lim :: limits and Inv :: "system \<Rightarrow> bool"
  assumes at_boot: "Inv (load_persisted px (coord_new lim), {}, [])"
    and kept: "Inv s \<Longrightarrow> sstep s s' \<Longrightarrow> Inv s'"
begin

theorem always: "reachable lim s \<Longrightarrow> Inv s"
  by (induction rule: reachable.induct) (auto intro: at_boot kept)

end

section \<open>Effects of the updates\<close>

definition held :: "coord \<Rightarrow> string set" where
  "held c = {i. \<exists>s. co_sessions c i = Some s \<and> ss_slot_held s}"

named_theorems coord_simps

lemma update_session_sel [coord_simps]:
  "co_sessions (update_session i f c) = (co_sessions c)(i := map_option f (co_sessions c i))"
  "co_limits (update_session i f c) = co_limits c"
  "co_by_request (update_session i f c) = co_by_request c"
  "co_jobs (update_session i f c) = co_jobs c"
  "co_cache_jobs (update_session i f c) = co_cache_jobs c"
  "co_active_captures (update_session i f c) = co_active_captures c"
  "co_running_decode (update_session i f c) = co_running_decode c"
  "co_pending_expensive (update_session i f c) = co_pending_expensive c"
  "co_reserved_decode (update_session i f c) = co_reserved_decode c"
  by (auto simp: update_session_def split: option.split)

lemma put_job_sel [coord_simps]:
  "co_sessions (put_job r c) = co_sessions c"
  "co_limits (put_job r c) = co_limits c"
  "co_by_request (put_job r c) = co_by_request c"
  "co_jobs (put_job r c) = (co_jobs c)(jr_job_id r \<mapsto> r)"
  "co_cache_jobs (put_job r c) = co_cache_jobs c"
  "co_active_captures (put_job r c) = co_active_captures c"
  "co_running_decode (put_job r c) = co_running_decode c"
  "co_pending_expensive (put_job r c) = co_pending_expensive c"
  "co_reserved_decode (put_job r c) = co_reserved_decode c"
  by (simp_all add: put_job_def)

lemma release_capture_slot_sel [coord_simps]:
  "co_sessions (release_capture_slot i c) =
     (co_sessions c)(i := map_option (\<lambda>s. s\<lparr>ss_slot_held := False\<rparr>) (co_sessions c i))"
  "co_limits (release_capture_slot i c) = co_limits c"
  "co_by_request (release_capture_slot i c) = co_by_request c"
  "co_jobs (release_capture_slot i c) = co_jobs c"
  "co_cache_jobs (release_capture_slot i c) = co_cache_jobs c"
  "co_active_captures (release_capture_slot i c) =
     (if i \<in> held c then co_active_captures c - 1 else co_active_captures c)"
  "co_running_decode (release_capture_slot i c) = co_running_decode c"
  "co_pending_expensive (release_capture_slot i c) = co_pending_expensive c"
  "co_reserved_decode (release_capture_slot i c) = co_reserved_decode c"
  by (auto simp: release_capture_slot_def update_session_def held_def split: option.split)

lemma cancel_queued_session_job_sel [coord_simps]:
  "co_sessions (cancel_queued_session_job i c) = co_sessions c"
  "co_limits (cancel_queued_session_job i c) = co_limits c"
  "co_by_request (cancel_queued_session_job i c) = co_by_request c"
  "co_cache_jobs (cancel_queued_session_job i c) = co_cache_jobs c"
  "co_active_captures (cancel_queued_session_job i c) = co_active_captures c"
  "co_running_decode (cancel_queued_session_job i c) = co_running_decode c"
  "co_pending_expensive (cancel_queued_session_job i c) = co_pending_expensive c"
  "co_reserved_decode (cancel_queued_session_job i c) = co_reserved_decode c"
  by (auto simp: cancel_queued_session_job_def split: option.split)

lemma release_reserved_sel [coord_simps]:
  "co_sessions (release_reserved c) = co_sessions c"
  "co_limits (release_reserved c) = co_limits c"
  "co_by_request (release_reserved c) = co_by_request c"
  "co_jobs (release_reserved c) = co_jobs c"
  "co_cache_jobs (release_reserved c) = co_cache_jobs c"
  "co_active_captures (release_reserved c) = co_active_captures c"
  "co_running_decode (release_reserved c) = co_running_decode c"
  "co_pending_expensive (release_reserved c) = co_pending_expensive c"
  "co_reserved_decode (release_reserved c) = co_reserved_decode c - 1"
  by (simp_all add: release_reserved_def)

lemma held_cong: "co_sessions c = co_sessions c' \<Longrightarrow> held c = held c'"
  by (simp add: held_def)

lemma held_update:
  "(\<And>s. ss_slot_held (f s) = ss_slot_held s) \<Longrightarrow> held (update_session i f c) = held c"
  by (auto simp: held_def coord_simps split: if_splits)

lemma held_release: "held (release_capture_slot i c) = held c - {i}"
  by (auto simp: held_def coord_simps split: if_splits)

section \<open>The accounting invariant\<close>

definition terminal :: "session_phase \<Rightarrow> bool" where
  "terminal p \<longleftrightarrow> p \<in> {Captured, FailedPhase, CancelledPhase}"

definition slots_ok :: "limits \<Rightarrow> system \<Rightarrow> bool" where
  "slots_ok lim sys \<longleftrightarrow>
     (case sys of (c, K, T) \<Rightarrow>
        co_limits c = lim \<and> finite K \<and> K \<subseteq> dom (co_sessions c) \<and> held c \<subseteq> K \<and>
        co_active_captures c = card (held c) \<and> co_active_captures c \<le> max_active_captures lim \<and>
        co_reserved_decode c = card K \<and>
        co_running_decode c = length (filter jt_decode_slot T) \<and>
        co_pending_expensive c = length (filter jt_expensive_slot T) \<and>
        co_pending_expensive c \<le> max_pending_expensive lim)"

definition phase_ok :: "bool \<Rightarrow> session_phase \<Rightarrow> bool" where
  "phase_ok running p \<longleftrightarrow> (if running then p \<notin> {Captured, FailedPhase} else terminal p)"

definition sessions_ok :: "system \<Rightarrow> bool" where
  "sessions_ok sys \<longleftrightarrow>
     (case sys of (c, K, T) \<Rightarrow>
        ran (co_by_request c) \<subseteq> dom (co_sessions c) \<and>
        (\<forall>i s. co_sessions c i = Some s \<longrightarrow>
           ss_id s = i \<and> phase_ok (i \<in> K) (ss_phase s)))"

lemma handle_start_cases:
  assumes "handle_start env req c = (r, c', sp)"
  obtains "c' = c" "sp = []"
  | s rid where "sp = [se_session_id env]" "ss_id s = se_session_id env" "ss_slot_held s" "ss_phase s = Starting"
      "co_active_captures c < max_active_captures (co_limits c)" "co_by_request c rid = None"
      "co_reserved_decode c + co_pending_expensive c < max_pending_expensive (co_limits c)"
      "c' = c\<lparr>co_by_request := (co_by_request c)(rid \<mapsto> se_session_id env),
              co_sessions := (co_sessions c)(se_session_id env \<mapsto> s),
              co_active_captures := co_active_captures c + 1, co_reserved_decode := co_reserved_decode c + 1\<rparr>"
proof -
  consider e where "validate_start env req = Inl e" | q where "validate_start env req = Inr q"
    by (cases "validate_start env req")
  then show thesis
  proof cases
    case (1 e)
    then show thesis using assms that(1) by (simp add: handle_start_def)
  next
    case (2 q)
    show thesis
    proof (cases "co_by_request c (sq_request_id q)")
      case (Some existing)
      then show thesis
        using assms 2 that(1) by (auto simp: handle_start_def Let_def split: option.splits if_splits)
    next
      case None
      show thesis
      proof (cases "admit_session env q (se_hash env q) c")
        case (Inl e)
        then show thesis using assms 2 None that(1) by (simp add: handle_start_def Let_def)
      next
        case (Inr s)
        then obtain cfg where s: "s = new_session env q (se_hash env q) cfg"
          and lt: "co_active_captures c < max_active_captures (co_limits c)"
            "co_reserved_decode c + co_pending_expensive c < max_pending_expensive (co_limits c)"
          by (auto simp: admit_session_def try_bind_Inr_iff split: if_splits)
        show thesis
          by (rule that(2) [of s "sq_request_id q"])
             (use assms 2 None Inr s lt in \<open>auto simp: handle_start_def Let_def new_session_def\<close>)
      qed
    qed
  qed
qed

lemma slots_start:
  assumes "slots_ok lim (c, K, T)" "handle_start env req c = (r, c', sp)" "se_session_id env \<notin> dom (co_sessions c)"
  shows "slots_ok lim (c', K \<union> set sp, T)"
  using assms(2)
proof (cases rule: handle_start_cases)
  case 1
  then show ?thesis using assms(1) by simp
next
  case (2 s rid)
  let ?i = "se_session_id env"
  have new: "?i \<notin> K" "?i \<notin> held c" "finite (held c)"
    using assms(1,3) finite_subset by (auto simp: slots_ok_def held_def)
  have "held c' = insert ?i (held c)"
    using 2 by (auto simp: held_def)
  then show ?thesis
    using assms(1) 2 new by (auto simp: slots_ok_def)
qed

lemma slots_same:
  assumes "slots_ok lim (c, K, T)" "co_sessions c' = co_sessions c" "co_limits c' = co_limits c"
    and "co_active_captures c' = co_active_captures c" "co_reserved_decode c' = co_reserved_decode c"
    and "co_running_decode c' = co_running_decode c" "co_pending_expensive c' = co_pending_expensive c"
  shows "slots_ok lim (c', K, T)"
  using assms held_cong [of c' c] by (simp add: slots_ok_def)

lemma slots_update:
  assumes "slots_ok lim (c, K, T)" "\<And>s. ss_slot_held (f s) = ss_slot_held s"
  shows "slots_ok lim (update_session i f c, K, T)"
proof -
  have "dom (co_sessions (update_session i f c)) = dom (co_sessions c)"
    by (auto simp: coord_simps split: if_splits)
  then show ?thesis
    using assms held_update [of f i c] by (simp add: slots_ok_def coord_simps)
qed

lemma slots_release:
  assumes "slots_ok lim (c, K, T)"
  shows "slots_ok lim (release_capture_slot i c, K, T)"
proof -
  have "dom (co_sessions (release_capture_slot i c)) = dom (co_sessions c)"
    by (auto simp: coord_simps split: if_splits)
  moreover have "finite (held c)"
    using assms finite_subset by (auto simp: slots_ok_def)
  ultimately show ?thesis
    using assms by (auto simp: slots_ok_def coord_simps held_release)
qed

lemma slots_cancel_job: "slots_ok lim (c, K, T) \<Longrightarrow> slots_ok lim (cancel_queued_session_job i c, K, T)"
  by (erule slots_same) (simp_all add: coord_simps)

text \<open>A capture task reports once: its session leaves the running captures and its reservation ends.\<close>

lemma slots_capture_done:
  assumes "slots_ok lim (release_capture_slot i c, K, T)" "i \<in> K"
  shows "slots_ok lim (release_reserved (release_capture_slot i c), K - {i}, T)"
proof -
  have "held (release_reserved (release_capture_slot i c)) = held c - {i}"
    using held_cong [of "release_reserved (release_capture_slot i c)" "release_capture_slot i c"]
    by (simp add: held_release coord_simps)
  then show ?thesis
    using assms by (auto simp: slots_ok_def coord_simps held_release)
qed

lemma slots_failed:
  assumes "slots_ok lim (c, K, T)" "i \<in> K"
  shows "slots_ok lim (handle_failed i c, K - {i}, T)"
  unfolding handle_failed_def
  by (rule slots_capture_done [OF slots_release [OF slots_cancel_job [OF slots_update [OF assms(1)]]] assms(2)]) simp

lemma slots_armed: "slots_ok lim (c, K, T) \<Longrightarrow> slots_ok lim (handle_armed now i c, K, T)"
  unfolding handle_armed_def by (erule slots_update) simp

lemma slots_decode_started:
  assumes "slots_ok lim (release_reserved c, K, T)"
  shows "slots_ok lim (fst (start_initial_decode job snap aid c), K, T @ snd (start_initial_decode job snap aid c))"
proof -
  have "held (fst (start_initial_decode job snap aid c)) = held (release_reserved c)"
    by (rule held_cong) (simp add: start_initial_decode_def Let_def coord_simps)
  then show ?thesis
    using assms by (simp add: slots_ok_def start_initial_decode_def Let_def coord_simps)
qed

lemma slots_published:
  assumes "slots_ok lim (c, K, T)" "i \<in> K" "handle_published j a i snap c = (c', ts)"
  shows "slots_ok lim (c', K - {i}, T @ ts)"
proof -
  obtain s where s: "co_sessions c i = Some s"
    using assms(1,2) by (auto simp: slots_ok_def)
  show ?thesis
  proof (cases "ss_phase s = CancelledPhase \<or> ss_phase s = FailedPhase")
    case True
    then have "c' = release_reserved (release_capture_slot i (cancel_queued_session_job i
        (update_session i (\<lambda>s. if ss_snapshot_id s = None then s\<lparr>ss_snapshot_id := Some snap\<rparr> else s) c)))" "ts = []"
      using assms(3) s by (auto simp: handle_published_def)
    then show ?thesis
      using slots_capture_done [OF slots_release [OF slots_cancel_job [OF slots_update [OF assms(1)]]] assms(2)] by simp
  next
    case False
    let ?job = "case ss_decode_job s of None \<Rightarrow> j | Some j \<Rightarrow> j"
    let ?c = "release_capture_slot i (update_session i
        (\<lambda>s. s\<lparr>ss_phase := Captured, ss_snapshot_id := Some snap, ss_decode_job := Some ?job\<rparr>) c)"
    have "(c', ts) = start_initial_decode ?job snap a ?c"
      using assms(3) s False by (simp add: handle_published_def Let_def)
    moreover have "slots_ok lim (release_reserved ?c, K - {i}, T)"
      by (rule slots_capture_done [OF slots_release [OF slots_update [OF assms(1)]] assms(2)]) simp
    ultimately show ?thesis
      using slots_decode_started by (metis fst_conv snd_conv)
  qed
qed

lemma slots_finished:
  assumes "slots_ok lim (c, K, xs @ t # ys)"
  shows "slots_ok lim (handle_job_finished rec (jt_decode_slot t) (jt_expensive_slot t) c, K, xs @ ys)"
proof -
  have "held (handle_job_finished rec (jt_decode_slot t) (jt_expensive_slot t) c) = held c"
    by (rule held_cong) (simp add: handle_job_finished_def coord_simps)
  then show ?thesis
    using assms by (auto simp: slots_ok_def handle_job_finished_def coord_simps split: if_splits)
qed

lemma slots_snapshot:
  assumes "slots_ok lim (c, K, T)" "handle_snapshot persist ns nj i reason c = (r, c')"
  shows "slots_ok lim (c', K, T)"
proof -
  have put: "slots_ok lim (put_job j x, K, T)" if "slots_ok lim (x, K, T)" for j x
    using that by (rule slots_same) (simp_all add: coord_simps)
  show ?thesis
    using assms
    by (auto simp: handle_snapshot_def Let_def split: option.splits session_phase.splits sum.splits
        intro!: put slots_update)
qed

lemma slots_cancel:
  assumes "slots_ok lim (c, K, T)" "handle_cancel tgt c = (r, c')"
  shows "slots_ok lim (c', K, T)"
proof (cases tgt)
  case (CancelSession i)
  then show ?thesis
    using assms
    by (auto simp: handle_cancel_def split: option.splits if_splits intro!: slots_release slots_update)
next
  case (CancelJob j)
  then show ?thesis
    using assms slots_same [OF assms(1)]
    by (auto simp: handle_cancel_def split: option.splits if_splits)
qed

lemma prune_keeps:
  assumes "handle_prune sz rm us ids lo c = (r, c')"
  shows "co_sessions c' = co_sessions c \<and> co_limits c' = co_limits c \<and> co_by_request c' = co_by_request c \<and>
    co_jobs c' = co_jobs c \<and> co_active_captures c' = co_active_captures c \<and>
    co_reserved_decode c' = co_reserved_decode c \<and> co_running_decode c' = co_running_decode c \<and>
    co_pending_expensive c' = co_pending_expensive c"
proof -
  define same where "same st \<longleftrightarrow> co_sessions (fst st) = co_sessions c \<and> co_limits (fst st) = co_limits c \<and>
    co_by_request (fst st) = co_by_request c \<and> co_jobs (fst st) = co_jobs c \<and>
    co_active_captures (fst st) = co_active_captures c \<and>
    co_reserved_decode (fst st) = co_reserved_decode c \<and> co_running_decode (fst st) = co_running_decode c \<and>
    co_pending_expensive (fst st) = co_pending_expensive c"
    for st :: "coord \<times> (string \<times> u64) list \<times> (string \<times> string) list"
  have "same st \<Longrightarrow> same (prune_one rm i st)" for i st
    by (auto simp: same_def prune_one_def split: prod.splits sum.splits)
  then have "same st \<Longrightarrow> same (fold (prune_one rm) ids st)" for st
    by (induction ids arbitrary: st) auto
  moreover have "same (c, [], [])"
    by (simp add: same_def)
  ultimately have "same (prune_all rm ids lo c)"
    by (simp add: prune_all_def)
  moreover have "c' = c \<or> c' = fst (prune_all rm ids lo c)"
    using assms by (auto simp: handle_prune_def split: sum.splits prod.splits)
  ultimately have "same (c', [], [])"
    by (auto simp: same_def)
  then show ?thesis
    by (simp add: same_def)
qed

lemma slots_decode:
  assumes "slots_ok lim (c, K, T)" "handle_decode env sid d c = (r, c', ts)"
  shows "slots_ok lim (c', K, T @ ts)"
proof -
  have "held (put_job rec c \<lparr>co_cache_jobs := x, co_running_decode := y\<rparr>) = held c" for rec x y
    by (rule held_cong) (simp add: coord_simps)
  then show ?thesis
    using assms
    by (auto simp: handle_decode_def Let_def slots_ok_def coord_simps split: sum.splits option.splits if_splits prod.splits)
qed

lemma slots_compare:
  assumes "slots_ok lim (c, K, T)" "handle_compare key nj nr c = (r, c', ts)"
  shows "slots_ok lim (c', K, T @ ts)"
proof -
  have "held (put_job rec c \<lparr>co_cache_jobs := x, co_pending_expensive := y\<rparr>) = held c" for rec x y
    by (rule held_cong) (simp add: coord_simps)
  then show ?thesis
    using assms
    by (auto simp: handle_compare_def Let_def slots_ok_def coord_simps split: option.splits if_splits)
qed

text \<open>Loading a store leaves the counters alone and restores sessions without slots, in terminal phases.\<close>

definition loaded :: "coord \<Rightarrow> bool" where
  "loaded c \<longleftrightarrow> co_active_captures c = 0 \<and> co_running_decode c = 0 \<and> co_pending_expensive c = 0 \<and>
     co_reserved_decode c = 0 \<and> ran (co_by_request c) \<subseteq> dom (co_sessions c) \<and>
     (\<forall>i s. co_sessions c i = Some s \<longrightarrow> ss_id s = i \<and> \<not> ss_slot_held s \<and> terminal (ss_phase s))"

lemma fold_loaded: "(\<And>x c. loaded c \<Longrightarrow> loaded (f x c)) \<Longrightarrow> loaded c \<Longrightarrow> loaded (fold f xs c)"
  by (induction xs arbitrary: c) auto

lemma loaded_limits: "(\<And>x c. co_limits (f x c) = co_limits c) \<Longrightarrow> co_limits (fold f xs c) = co_limits c"
  by (induction xs arbitrary: c) auto

lemma restored_terminal: "terminal (restored_phase p)"
  by (auto simp: restored_phase_def terminal_def split: option.split) (metis session_phase.exhaust)

lemma loaded_session: "loaded c \<Longrightarrow> loaded (load_session p c)"
  by (auto simp: loaded_def load_session_def restored_terminal ran_def split: option.splits if_splits)

lemma loaded_same:
  assumes "loaded c" "co_sessions c' = co_sessions c" "co_by_request c' = co_by_request c"
    and "co_active_captures c' = co_active_captures c" "co_reserved_decode c' = co_reserved_decode c"
    and "co_running_decode c' = co_running_decode c" "co_pending_expensive c' = co_pending_expensive c"
  shows "loaded c'"
  using assms by (simp add: loaded_def)

lemma loaded_others:
  "loaded c \<Longrightarrow> loaded (put_job j c)"
  "loaded c \<Longrightarrow> loaded (load_analysis js a c)"
  "loaded c \<Longrightarrow> loaded (load_report r c)"
  by (erule loaded_same; simp add: put_job_def load_analysis_def load_report_def split: option.split prod.split)+

lemma load_limits:
  "co_limits (load_session p c) = co_limits c" "co_limits (put_job j c) = co_limits c"
  "co_limits (load_analysis js a c) = co_limits c" "co_limits (load_report r c) = co_limits c"
  by (simp_all add: load_session_def put_job_def load_analysis_def load_report_def split: option.split prod.split)

lemma load_persisted_ok:
  "loaded (load_persisted px (coord_new lim)) \<and> co_limits (load_persisted px (coord_new lim)) = lim"
proof
  have "loaded (coord_new lim)"
    by (simp add: loaded_def coord_new_def)
  then show "loaded (load_persisted px (coord_new lim))"
    unfolding load_persisted_def by (intro fold_loaded loaded_others loaded_session)
  show "co_limits (load_persisted px (coord_new lim)) = lim"
    unfolding load_persisted_def by (simp add: loaded_limits load_limits coord_new_def)
qed

lemma slots_boot: "slots_ok lim (load_persisted px (coord_new lim), {}, [])"
proof -
  have "held (load_persisted px (coord_new lim)) = {}"
    using load_persisted_ok [of px lim] by (auto simp: loaded_def held_def)
  then show ?thesis
    using load_persisted_ok [of px lim] by (simp add: slots_ok_def loaded_def)
qed

lemma slots_step: "sstep s s' \<Longrightarrow> slots_ok lim s \<Longrightarrow> slots_ok lim s'"
proof (induction rule: sstep.induct)
  case (prune sz rm us ids lo c r c' K T)
  then show ?case using prune_keeps slots_same by metis
qed (auto simp: handle_internal_def intro: slots_start slots_armed slots_failed slots_published slots_finished
       slots_snapshot slots_cancel slots_decode slots_compare)

interpretation slots: system_invariant lim "slots_ok lim" for lim
  by unfold_locales (auto intro: slots_boot slots_step)

section \<open>Phases\<close>

fun phase_rank :: "session_phase \<Rightarrow> nat" where
  "phase_rank Starting = 0"
| "phase_rank Armed = 1"
| "phase_rank Finalizing = 2"
| "phase_rank _ = 3"

text \<open>How a step may change the phase of a session whose capture runs, or has reported.\<close>

definition phase_step :: "bool \<Rightarrow> session_phase \<Rightarrow> bool \<Rightarrow> session_phase \<Rightarrow> bool" where
  "phase_step running p running' p' \<longleftrightarrow>
     phase_rank p \<le> phase_rank p' \<and> (terminal p \<longrightarrow> p' = p) \<and>
     phase_ok running' p'"

definition sessions_step :: "system \<Rightarrow> system \<Rightarrow> bool" where
  "sessions_step sys sys' \<longleftrightarrow>
     (case (sys, sys') of ((c, K, T), (c', K', T')) \<Rightarrow>
        ran (co_by_request c') \<subseteq> dom (co_sessions c') \<and>
        (\<forall>i s. co_sessions c i = Some s \<longrightarrow>
           (\<exists>s'. co_sessions c' i = Some s' \<and> ss_id s' = i \<and>
              phase_step (i \<in> K) (ss_phase s) (i \<in> K') (ss_phase s'))) \<and>
        (\<forall>i s'. co_sessions c' i = Some s' \<longrightarrow> co_sessions c i = None \<longrightarrow>
           ss_id s' = i \<and> i \<in> K' \<and> ss_phase s' = Starting))"

lemma phase_rank_le [simp]: "phase_rank p \<le> 3"
  by (cases p) auto

lemma sessions_okD:
  assumes "sessions_ok (c, K, T)" "co_sessions c i = Some s"
  shows "ss_id s = i" "phase_ok (i \<in> K) (ss_phase s)"
    and "phase_step (i \<in> K) (ss_phase s) (i \<in> K) (ss_phase s)"
  using assms by (auto simp: sessions_ok_def phase_step_def)

lemma sessions_same:
  assumes "sessions_ok (c, K, T)" "co_sessions c' = co_sessions c" "co_by_request c' = co_by_request c"
  shows "sessions_step (c, K, T) (c', K, T')"
  using assms(2,3) sessions_okD [OF assms(1)] assms(1) by (auto simp: sessions_ok_def sessions_step_def)

lemma sessions_change:
  assumes "sessions_ok (c, K, T)" "co_by_request c' = co_by_request c"
    and "co_sessions c' = (co_sessions c)(i := map_option f (co_sessions c i))" "K' - {i} = K - {i}"
    and "\<And>s. co_sessions c i = Some s \<Longrightarrow> ss_id s = i \<Longrightarrow>
      phase_ok (i \<in> K) (ss_phase s) \<Longrightarrow>
      ss_id (f s) = i \<and> phase_step (i \<in> K) (ss_phase s) (i \<in> K') (ss_phase (f s))"
  shows "sessions_step (c, K, T) (c', K', T')"
proof -
  have "j \<in> K' \<longleftrightarrow> j \<in> K" if "j \<noteq> i" for j
    using assms(4) that by blast
  moreover have "dom (co_sessions c') = dom (co_sessions c)"
    using assms(3) by (auto split: if_splits)
  moreover have "\<exists>s'. co_sessions c' j = Some s' \<and> ss_id s' = j \<and>
      phase_step (j \<in> K) (ss_phase s) (j \<in> K') (ss_phase s')" if "co_sessions c j = Some s" for j s
  proof (cases "j = i")
    case True
    then show ?thesis
      using that assms(1,3) assms(5) [of s] by (auto simp: sessions_ok_def)
  next
    case False
    then show ?thesis
      using that assms(3) calculation(1) [OF False] sessions_okD [OF assms(1) that] by simp
  qed
  moreover have "co_sessions c' j \<noteq> None \<Longrightarrow> co_sessions c j \<noteq> None" for j
    using assms(3) by (auto split: if_splits)
  ultimately show ?thesis
    using assms(1,2) by (fastforce simp: sessions_ok_def sessions_step_def)
qed

lemma sessions_start:
  assumes "sessions_ok (c, K, T)" "handle_start env req c = (r, c', sp)" "se_session_id env \<notin> dom (co_sessions c)"
    and "K \<subseteq> dom (co_sessions c)"
  shows "sessions_step (c, K, T) (c', K \<union> set sp, T)"
  using assms(2)
proof (cases rule: handle_start_cases)
  case 1
  then show ?thesis using assms(1) sessions_same by simp
next
  case (2 s rid)
  have "i \<in> insert (se_session_id env) K \<longleftrightarrow> i \<in> K" if "co_sessions c i = Some x" for i x
    using that assms(3) by auto
  moreover have "ran (co_by_request c') \<subseteq> dom (co_sessions c')"
    using 2 assms(1) by (auto simp: sessions_ok_def ran_def)
  ultimately show ?thesis
    using 2 assms(3) sessions_okD [OF assms(1)] by (auto simp: sessions_step_def)
qed

lemma sessions_armed:
  assumes "sessions_ok (c, K, T)" "i \<in> K"
  shows "sessions_step (c, K, T) (handle_armed now i c, K, T')"
  by (rule sessions_change [OF assms(1), where i = i]) (auto simp: handle_armed_def coord_simps phase_step_def phase_ok_def terminal_def split: if_splits)

lemma sessions_failed:
  assumes "sessions_ok (c, K, T)" "i \<in> K"
  shows "sessions_step (c, K, T) (handle_failed i c, K - {i}, T')"
  by (rule sessions_change [OF assms(1), where i = i and f = "(\<lambda>s. s\<lparr>ss_slot_held := False\<rparr>) \<circ>
        (\<lambda>s. if ss_phase s \<noteq> CancelledPhase then s\<lparr>ss_phase := FailedPhase\<rparr> else s)"])
     (auto simp: handle_failed_def coord_simps phase_step_def phase_ok_def terminal_def assms(2) option.map_comp)

lemma sessions_published:
  assumes "sessions_ok (c, K, T)" "i \<in> K" "handle_published j a i snap c = (c', ts)"
    and "K \<subseteq> dom (co_sessions c)"
  shows "sessions_step (c, K, T) (c', K - {i}, T')"
proof -
  obtain s where s: "co_sessions c i = Some s"
    using assms(2,4) by auto
  have run: "ss_phase s \<notin> {Captured, FailedPhase}"
    using sessions_okD(2) [OF assms(1) s] assms(2) by (simp add: phase_ok_def)
  show ?thesis
  proof (cases "ss_phase s = CancelledPhase")
    case True
    then show ?thesis
      using assms(3) s
      by (intro sessions_change [OF assms(1), where i = i and f = "(\<lambda>s. s\<lparr>ss_slot_held := False\<rparr>) \<circ>
            (\<lambda>s. if ss_snapshot_id s = None then s\<lparr>ss_snapshot_id := Some snap\<rparr> else s)"])
         (auto simp: handle_published_def coord_simps phase_step_def phase_ok_def terminal_def)
  next
    case False
    let ?job = "case ss_decode_job s of None \<Rightarrow> j | Some j \<Rightarrow> j"
    show ?thesis
      using assms(3) s run False
      by (intro sessions_change [OF assms(1), where i = i and f = "(\<lambda>s. s\<lparr>ss_slot_held := False\<rparr>) \<circ>
            (\<lambda>s. s\<lparr>ss_phase := Captured, ss_snapshot_id := Some snap, ss_decode_job := Some ?job\<rparr>)"])
         (auto simp: handle_published_def start_initial_decode_def Let_def coord_simps phase_step_def phase_ok_def terminal_def)
  qed
qed

lemma sessions_snapshot:
  assumes "sessions_ok (c, K, T)" "handle_snapshot persist ns nj i reason c = (r, c')"
  shows "sessions_step (c, K, T) (c', K, T')"
proof (cases "\<exists>s. co_sessions c i = Some s \<and> ss_phase s = Armed")
  case False
  then have "c' = c"
    using assms(2) by (auto simp: handle_snapshot_def split: option.splits session_phase.splits)
  then show ?thesis
    using assms(1) sessions_same by simp
next
  case True
  then obtain s where s: "co_sessions c i = Some s" "ss_phase s = Armed" by blast
  define f where "f x = x\<lparr>ss_snapshot_id := Some (case ss_snapshot_id s of None \<Rightarrow> ns | Some y \<Rightarrow> y),
    ss_decode_job := Some (case ss_decode_job s of None \<Rightarrow> nj | Some j \<Rightarrow> j), ss_phase := Finalizing\<rparr>" for x :: session
  define g where "g x = x\<lparr>ss_stop := (case ss_stop x of None \<Rightarrow> None | Some _ \<Rightarrow> Some (Some (Finish reason)))\<rparr>" for x :: session
  have "co_by_request c' = co_by_request c \<and>
      (co_sessions c' = (co_sessions c)(i := map_option f (co_sessions c i)) \<or>
       co_sessions c' = (co_sessions c)(i := map_option (g \<circ> f) (co_sessions c i)))"
    using assms(2) s by (auto simp: handle_snapshot_def Let_def f_def g_def coord_simps split: sum.splits)
  moreover have "i \<in> K"
    using sessions_okD(2) [OF assms(1) s(1)] s(2) by (auto simp: phase_ok_def terminal_def split: if_splits)
  ultimately show ?thesis
    using s
    by (elim conjE disjE; intro sessions_change [OF assms(1), where i = i])
       (auto simp: f_def g_def phase_step_def phase_ok_def terminal_def)
qed

lemma sessions_cancel:
  assumes "sessions_ok (c, K, T)" "handle_cancel tgt c = (r, c')"
  shows "sessions_step (c, K, T) (c', K, T')"
proof (cases "\<exists>i s. tgt = CancelSession i \<and> co_sessions c i = Some s \<and> \<not> terminal (ss_phase s)")
  case False
  then have "co_sessions c' = co_sessions c" "co_by_request c' = co_by_request c"
    using assms(2) by (auto simp: handle_cancel_def terminal_def split: cancel_target.splits option.splits if_splits)
  then show ?thesis
    using assms(1) sessions_same by simp
next
  case True
  then obtain i s where s: "tgt = CancelSession i" "co_sessions c i = Some s" "\<not> terminal (ss_phase s)" by blast
  define f where "f x = x\<lparr>ss_phase := CancelledPhase,
    ss_stop := (case ss_stop x of None \<Rightarrow> None | Some _ \<Rightarrow> Some (Some Abort)), ss_slot_held := False\<rparr>" for x :: session
  show ?thesis
    using assms(2) s
    by (intro sessions_change [OF assms(1), where i = i and f = f])
       (auto simp: handle_cancel_def f_def coord_simps phase_step_def phase_ok_def terminal_def)
qed

lemma sessions_step_ok:
  assumes "sessions_ok s" "slots_ok lim s" "sstep s s'"
  shows "sessions_step s s'"
  using assms(3,1,2)
proof (induction rule: sstep.induct)
  case (start env req c r c' sp K T)
  then show ?case by (intro sessions_start) (auto simp: slots_ok_def)
next
  case (published i K now j a snap c c' ts T)
  then show ?case by (intro sessions_published) (auto simp: handle_internal_def slots_ok_def)
next
  case (prune sz rm us ids lo c r c' K T)
  then show ?case using prune_keeps sessions_same by metis
next
  case (finished T xs t ys now j a f c c' ts K)
  then show ?case
    by (intro sessions_same) (auto simp: handle_internal_def handle_job_finished_def coord_simps)
next
  case (decode env sid d c r c' ts K T)
  then show ?case
    by (intro sessions_same)
       (auto simp: handle_decode_def Let_def coord_simps split: sum.splits option.splits if_splits prod.splits)
next
  case (compare key nj nr c r c' ts K T)
  then show ?case
    by (intro sessions_same)
       (auto simp: handle_compare_def Let_def coord_simps split: option.splits if_splits)
qed (auto simp: handle_internal_def intro: sessions_armed sessions_failed sessions_snapshot sessions_cancel)

lemma sessions_step_invariant:
  assumes "sessions_ok s" "sessions_step s s'"
  shows "sessions_ok s'"
proof -
  obtain c K T c' K' T' where s: "s = (c, K, T)" "s' = (c', K', T')"
    by (metis prod_cases3)
  have "ss_id x = i \<and> phase_ok (i \<in> K') (ss_phase x)" if "co_sessions c' i = Some x" for i x
    using assms(2) that s
    by (cases "co_sessions c i") (fastforce simp: sessions_step_def phase_step_def phase_ok_def)+
  then show ?thesis
    using assms(2) s by (auto simp: sessions_ok_def sessions_step_def)
qed

lemma sessions_boot: "sessions_ok (load_persisted px (coord_new lim), {}, [])"
  using load_persisted_ok [of px lim] by (auto simp: sessions_ok_def loaded_def phase_ok_def)

interpretation coordinator: system_invariant lim "\<lambda>s. slots_ok lim s \<and> sessions_ok s" for lim
  using slots_boot sessions_boot slots_step sessions_step_ok sessions_step_invariant
  by unfold_locales (blast, metis)

section \<open>Slots, reservations and requests\<close>

text \<open>A session holds its capture slot exactly while its capture is under way.\<close>

definition slot_live :: "session \<Rightarrow> bool" where
  "slot_live s \<longleftrightarrow> (ss_slot_held s \<longleftrightarrow> \<not> terminal (ss_phase s))"

definition admitted_ok :: "limits \<Rightarrow> system \<Rightarrow> bool" where
  "admitted_ok lim sys \<longleftrightarrow>
     (case sys of (c, K, T) \<Rightarrow>
        (\<forall>s\<in>ran (co_sessions c). slot_live s) \<and> co_reserved_decode c \<le> max_pending_expensive lim)"

text \<open>
  Every step but an accepted start keeps the sessions with their ids and request hashes, what the requests
  are answered with, and never reserves a decode.
\<close>

definition keeps_session :: "session \<Rightarrow> session \<Rightarrow> bool" where
  "keeps_session s s' \<longleftrightarrow>
     ss_id s' = ss_id s \<and> ss_request_hash s' = ss_request_hash s \<and> (slot_live s \<longrightarrow> slot_live s')"

definition keeps_requests :: "coord \<Rightarrow> coord \<Rightarrow> bool" where
  "keeps_requests c c' \<longleftrightarrow>
     co_by_request c' = co_by_request c \<and> co_reserved_decode c' \<le> co_reserved_decode c \<and>
     (\<forall>i. rel_option keeps_session (co_sessions c i) (co_sessions c' i))"

lemma keeps_session_refl [simp]: "keeps_session s s"
  by (simp add: keeps_session_def)

lemma keeps_same:
  assumes "co_sessions c' = co_sessions c" "co_by_request c' = co_by_request c"
    "co_reserved_decode c' \<le> co_reserved_decode c"
  shows "keeps_requests c c'"
  using assms by (simp add: keeps_requests_def option.rel_refl)

lemma keeps_change:
  assumes "co_by_request c' = co_by_request c" "co_reserved_decode c' \<le> co_reserved_decode c"
    and "co_sessions c' = (co_sessions c)(i := map_option f (co_sessions c i))"
    and "\<And>s. co_sessions c i = Some s \<Longrightarrow> keeps_session s (f s)"
  shows "keeps_requests c c'"
  using assms by (auto simp: keeps_requests_def option.rel_refl intro: option.rel_refl split: option.split)
    (cases "co_sessions c i"; simp)

lemmas session_change = coord_simps keeps_session_def slot_live_def terminal_def

lemma keeps_armed: "keeps_requests c (handle_armed now i c)"
  by (rule keeps_change [where i = i]) (auto simp: handle_armed_def session_change split: if_splits)

lemma keeps_failed: "keeps_requests c (handle_failed i c)"
  by (rule keeps_change [where i = i and f = "(\<lambda>s. s\<lparr>ss_slot_held := False\<rparr>) \<circ>
        (\<lambda>s. if ss_phase s \<noteq> CancelledPhase then s\<lparr>ss_phase := FailedPhase\<rparr> else s)"])
    (auto simp: handle_failed_def session_change option.map_comp)

lemma keeps_published:
  assumes "handle_published j a i snap c = (c', ts)"
  shows "keeps_requests c c'"
proof (cases "co_sessions c i")
  case None
  then show ?thesis
    using assms by (simp add: handle_published_def keeps_same)
next
  case (Some s)
  let ?job = "case ss_decode_job s of None \<Rightarrow> j | Some j \<Rightarrow> j"
  show ?thesis
  proof (cases "ss_phase s = CancelledPhase \<or> ss_phase s = FailedPhase")
    case True
    then show ?thesis
      using assms Some
      by (intro keeps_change [where i = i and f = "(\<lambda>s. s\<lparr>ss_slot_held := False\<rparr>) \<circ>
            (\<lambda>s. if ss_snapshot_id s = None then s\<lparr>ss_snapshot_id := Some snap\<rparr> else s)"])
        (auto simp: handle_published_def session_change)
  next
    case False
    then show ?thesis
      using assms Some
      by (intro keeps_change [where i = i and f = "(\<lambda>s. s\<lparr>ss_slot_held := False\<rparr>) \<circ>
            (\<lambda>s. s\<lparr>ss_phase := Captured, ss_snapshot_id := Some snap, ss_decode_job := Some ?job\<rparr>)"])
        (auto simp: handle_published_def start_initial_decode_def Let_def session_change)
  qed
qed

lemma keeps_snapshot:
  assumes "handle_snapshot persist ns nj i reason c = (r, c')"
  shows "keeps_requests c c'"
proof (cases "\<exists>s. co_sessions c i = Some s \<and> ss_phase s = Armed")
  case False
  then have "c' = c"
    using assms by (auto simp: handle_snapshot_def split: option.splits session_phase.splits)
  then show ?thesis
    by (simp add: keeps_same)
next
  case True
  then obtain s where s: "co_sessions c i = Some s" "ss_phase s = Armed" by blast
  define f where "f x = x\<lparr>ss_snapshot_id := Some (case ss_snapshot_id s of None \<Rightarrow> ns | Some y \<Rightarrow> y),
    ss_decode_job := Some (case ss_decode_job s of None \<Rightarrow> nj | Some j \<Rightarrow> j), ss_phase := Finalizing\<rparr>" for x :: session
  define g where "g x = x\<lparr>ss_stop := (case ss_stop x of None \<Rightarrow> None | Some _ \<Rightarrow> Some (Some (Finish reason)))\<rparr>" for x :: session
  have "co_by_request c' = co_by_request c \<and> co_reserved_decode c' = co_reserved_decode c \<and>
      (co_sessions c' = (co_sessions c)(i := map_option f (co_sessions c i)) \<or>
       co_sessions c' = (co_sessions c)(i := map_option (g \<circ> f) (co_sessions c i)))"
    using assms s by (auto simp: handle_snapshot_def Let_def f_def g_def coord_simps split: sum.splits)
  then show ?thesis
    using s by (elim conjE disjE; intro keeps_change [where i = i]) (auto simp: f_def g_def session_change)
qed

lemma keeps_cancel:
  assumes "handle_cancel tgt c = (r, c')"
  shows "keeps_requests c c'"
proof (cases "\<exists>i s. tgt = CancelSession i \<and> co_sessions c i = Some s \<and> \<not> terminal (ss_phase s)")
  case False
  then show ?thesis
    using assms
    by (intro keeps_same)
      (auto simp: handle_cancel_def terminal_def split: cancel_target.splits option.splits if_splits)
next
  case True
  then obtain i s where s: "tgt = CancelSession i" "co_sessions c i = Some s" "\<not> terminal (ss_phase s)" by blast
  define f where "f x = x\<lparr>ss_phase := CancelledPhase,
    ss_stop := (case ss_stop x of None \<Rightarrow> None | Some _ \<Rightarrow> Some (Some Abort)), ss_slot_held := False\<rparr>" for x :: session
  show ?thesis
    using assms s
    by (intro keeps_change [where i = i and f = f]) (auto simp: handle_cancel_def f_def session_change)
qed

text \<open>A step is an accepted start under a fresh id, or it keeps the requests.\<close>

lemma sstep_cases:
  assumes "sstep (c, K, T) (c', K', T')"
  obtains "keeps_requests c c'"
  | s rid where "co_sessions c (ss_id s) = None" "ss_slot_held s" "ss_phase s = Starting" "co_by_request c rid = None"
      "co_by_request c' = (co_by_request c)(rid \<mapsto> ss_id s)" "co_sessions c' = (co_sessions c)(ss_id s \<mapsto> s)"
      "co_reserved_decode c' = co_reserved_decode c + 1"
      "co_reserved_decode c + co_pending_expensive c < max_pending_expensive (co_limits c)"
  using assms
proof (cases rule: sstep.cases)
  case (start env req r sp)
  show ?thesis
    using start(3)
  proof (cases rule: handle_start_cases)
    case 1
    then show ?thesis using that(1) keeps_same by simp
  next
    case (2 s rid)
    then show ?thesis using that(2) [of s rid] start(4) by (auto simp: domIff)
  qed
next
  case (armed i now j a ts)
  then show ?thesis using that(1) keeps_armed by (auto simp: handle_internal_def)
next
  case (failed i now j a e ts)
  then show ?thesis using that(1) keeps_failed by (auto simp: handle_internal_def)
next
  case (published i now j a snap ts)
  then show ?thesis using that(1) keeps_published by (auto simp: handle_internal_def)
next
  case (finished xs t ys now j a f ts)
  then show ?thesis
    by (intro that(1) keeps_same) (auto simp: handle_internal_def handle_job_finished_def coord_simps)
next
  case (prune sz rm us ids lo r)
  then show ?thesis using that(1) prune_keeps keeps_same by (metis order_refl)
next
  case (decode env sid d r ts)
  then show ?thesis
    by (intro that(1) keeps_same)
      (auto simp: handle_decode_def Let_def coord_simps split: sum.splits option.splits if_splits prod.splits)
next
  case (compare key nj nr r ts)
  then show ?thesis
    by (intro that(1) keeps_same)
      (auto simp: handle_compare_def Let_def coord_simps split: option.splits if_splits)
qed (use that(1) keeps_snapshot keeps_cancel in blast)+

lemma keeps_requestsD:
  assumes "keeps_requests c c'" "co_sessions c i = Some s"
  obtains s' where "co_sessions c' i = Some s'" "keeps_session s s'"
  using assms by (auto simp: keeps_requests_def option_rel_Some1 dest!: spec [of _ i])

lemma keeps_live:
  assumes "keeps_requests c c'" "\<forall>s\<in>ran (co_sessions c). slot_live s"
  shows "\<forall>s\<in>ran (co_sessions c'). slot_live s"
proof
  fix s'
  assume "s' \<in> ran (co_sessions c')"
  then obtain i where i: "co_sessions c' i = Some s'"
    by (auto simp: ran_def)
  then obtain s where "co_sessions c i = Some s" "keeps_session s s'"
    using assms(1) by (auto simp: keeps_requests_def option_rel_Some2 dest!: spec [of _ i])
  then show "slot_live s'"
    using assms(2) by (auto simp: keeps_session_def ran_def)
qed

lemma admitted_step:
  assumes "sstep s s'" "admitted_ok lim s" "slots_ok lim s"
  shows "admitted_ok lim s'"
proof -
  obtain c K T c' K' T' where s: "s = (c, K, T)" "s' = (c', K', T')"
    by (metis prod_cases3)
  from assms(1) [unfolded s] show ?thesis
  proof (cases rule: sstep_cases)
    case 1
    then show ?thesis
      using assms(2) s keeps_live [OF 1] by (auto simp: admitted_ok_def keeps_requests_def)
  next
    case (2 x rid)
    then show ?thesis
      using assms(2,3) s by (auto simp: admitted_ok_def slots_ok_def slot_live_def terminal_def ran_def)
  qed
qed

lemma admitted_boot: "admitted_ok lim (load_persisted px (coord_new lim), {}, [])"
  using load_persisted_ok [of px lim] by (auto simp: admitted_ok_def loaded_def slot_live_def ran_def)

interpretation admission: system_invariant lim "\<lambda>s. slots_ok lim s \<and> admitted_ok lim s" for lim
  using slots_boot slots_step admitted_boot admitted_step by unfold_locales blast+

text \<open>What a request was answered with stays, through any number of further steps.\<close>

definition answered :: "string \<Rightarrow> string \<Rightarrow> string \<Rightarrow> coord \<Rightarrow> bool" where
  "answered rid i h c \<longleftrightarrow>
     co_by_request c rid = Some i \<and>
     (\<exists>s. co_sessions c i = Some s \<and> ss_id s = i \<and> ss_request_hash s = h)"

lemma answered_step:
  assumes "sstep s s'" "answered rid i h (fst s)"
  shows "answered rid i h (fst s')"
proof -
  obtain c K T c' K' T' where s: "s = (c, K, T)" "s' = (c', K', T')"
    by (metis prod_cases3)
  obtain x where x: "co_by_request c rid = Some i" "co_sessions c i = Some x" "ss_id x = i" "ss_request_hash x = h"
    using assms(2) s by (auto simp: answered_def)
  from assms(1) [unfolded s] show ?thesis
  proof (cases rule: sstep_cases)
    case 1
    then obtain x' where "co_sessions c' i = Some x'" "keeps_session x x'"
      using x(2) by (rule keeps_requestsD)
    then show ?thesis
      using 1 x s by (auto simp: answered_def keeps_session_def keeps_requests_def)
  next
    case (2 y rid')
    then show ?thesis
      using x s by (auto simp: answered_def)
  qed
qed

lemma answered_later: "sstep\<^sup>*\<^sup>* s s' \<Longrightarrow> answered rid i h (fst s) \<Longrightarrow> answered rid i h (fst s')"
  by (induction rule: rtranclp_induct) (auto intro: answered_step)

end
