(* ===== verification/Coordinator_Props.thy ===== *)
theory Coordinator_Props
  imports Coordinator_Steps
begin

text \<open>
  Properties of the coordinator in every reachable state, and how its handlers compose.
\<close>

section \<open>A session for the witnesses\<close>

definition demo_limits :: limits where
  "demo_limits = limits_default (\<lambda>_. None)"

definition no_store :: persisted_store where
  "no_store = \<lparr>px_sessions = [], px_jobs = [], px_analyses = [], px_reports = []\<rparr>"

definition demo_boot :: coord where
  "demo_boot = load_persisted no_store (coord_new demo_limits)"

definition demo_start :: start_request where
  "demo_start = \<lparr>sq_request_id = ''req_1'', sq_target = Attach 7, sq_config = config_default,
     sq_after_ms = Some 100, sq_workload = None, sq_trigger = None, sq_tail_ms = None\<rparr>"

definition demo_start_env :: start_env where
  "demo_start_env = \<lparr>se_page_size = 4096, se_hash = (\<lambda>_. ''h''), se_budget = Inr (), se_topology = Inr,
     se_probe = (\<lambda>_. Inr ()), se_persist = Inr (), se_session_id = ''sess_1'', se_snapshot_id = ''s_1''\<rparr>"

definition demo_session :: session where
  "demo_session = new_session demo_start_env demo_start ''h'' config_default"

definition demo_started :: coord where
  "demo_started = demo_boot
     \<lparr>co_by_request := (co_by_request demo_boot)(''req_1'' \<mapsto> ''sess_1''),
      co_sessions := (co_sessions demo_boot)(''sess_1'' \<mapsto> demo_session),
      co_active_captures := co_active_captures demo_boot + 1,
      co_reserved_decode := co_reserved_decode demo_boot + 1\<rparr>"

lemma demo_boot_eq: "demo_boot = coord_new demo_limits"
  by (simp add: demo_boot_def load_persisted_def no_store_def)

lemma demo_boot_sel:
  "co_sessions demo_boot = Map.empty" "co_by_request demo_boot = Map.empty" "co_limits demo_boot = demo_limits"
  "co_active_captures demo_boot = 0" "co_reserved_decode demo_boot = 0" "co_pending_expensive demo_boot = 0"
  by (simp_all add: demo_boot_eq coord_new_def)

lemma demo_valid: "validate_start demo_start_env demo_start = Inr demo_start"
  by (simp add: validate_start_def demo_start_def demo_start_env_def target_validate_def config_default_def
      config_validate_def validate_cpus_def validate_aux_bytes_def is_power_of_two_examples default_aux_bytes_def
      default_max_total_aux_def default_max_capture_ms_def normalize_capture_bound_def opt0_def validate_trigger_def
      try_bind_def)

lemma demo_admit: "admit_session demo_start_env demo_start ''h'' demo_boot = Inr demo_session"
  by (simp add: admit_session_def demo_boot_sel demo_limits_def limits_default_def demo_start_env_def try_bind_def
      demo_session_def demo_start_def)

lemma demo_handle_start:
  "handle_start demo_start_env demo_start demo_boot =
     (Inr (''sess_1'', Starting), demo_started, [''sess_1''])"
proof -
  have "se_hash demo_start_env demo_start = ''h''" "sq_request_id demo_start = ''req_1''" "ss_id demo_session = ''sess_1''"
    by (simp_all add: demo_start_env_def demo_start_def demo_session_def new_session_def)
  then show ?thesis
    unfolding handle_start_def demo_valid by (simp add: Let_def demo_boot_sel demo_admit demo_started_def)
qed

lemma demo_reachable: "reachable demo_limits (demo_boot, {}, [])"
  unfolding demo_boot_def by (rule reachable.boot)

lemma demo_reachable_started: "reachable demo_limits (demo_started, {''sess_1''}, [])"
proof -
  have "se_session_id demo_start_env \<notin> dom (co_sessions demo_boot)"
    by (simp add: demo_boot_sel)
  from reachable.step [OF demo_reachable sstep.start [OF demo_handle_start this]] show ?thesis
    by simp
qed

section \<open>Answering a start\<close>

lemma start_no_panic:
  assumes "ran (co_by_request c) \<subseteq> dom (co_sessions c)"
  shows "fst (handle_start env req c) \<noteq> Inl Panic"
proof (cases "validate_start env req")
  case (Inr q)
  show ?thesis
  proof (cases "co_by_request c (sq_request_id q)")
    case (Some i)
    then obtain s where "co_sessions c i = Some s"
      using assms by (fastforce simp: ran_def)
    then show ?thesis
      using Some Inr by (simp add: handle_start_def Let_def)
  qed (use Inr in \<open>simp add: handle_start_def Let_def split: sum.split\<close>)
qed (simp add: handle_start_def)

lemma start_answered:
  assumes "handle_start env req c = (Inr (sid, ph), c1, sp)"
    and "\<And>i s. co_sessions c i = Some s \<Longrightarrow> ss_id s = i"
  shows "\<exists>q h. validate_start env req = Inr q \<and> (h = [] \<or> h = se_hash env q) \<and> answered (sq_request_id q) sid h c1"
proof -
  obtain q where q: "validate_start env req = Inr q"
    using assms(1) by (cases "validate_start env req") (auto simp: handle_start_def)
  have "\<exists>h. (h = [] \<or> h = se_hash env q) \<and> answered (sq_request_id q) sid h c1"
  proof (cases "co_by_request c (sq_request_id q)")
    case (Some i)
    then obtain s where "co_sessions c i = Some s" "sid = ss_id s" "c1 = c"
        "ss_request_hash s = [] \<or> ss_request_hash s = se_hash env q"
      using assms(1) q by (auto simp: handle_start_def Let_def split: option.splits if_splits)
    then show ?thesis
      using Some assms(2) by (fastforce simp: answered_def)
  next
    case None
    then obtain s where s: "admit_session env q (se_hash env q) c = Inr s" "sid = ss_id s"
        "co_by_request c1 = (co_by_request c)(sq_request_id q \<mapsto> ss_id s)"
        "co_sessions c1 = (co_sessions c)(ss_id s \<mapsto> s)"
      using assms(1) q by (auto simp: handle_start_def Let_def split: sum.splits)
    then have "ss_request_hash s = se_hash env q"
      by (auto simp: admit_session_def new_session_def try_bind_Inr_iff split: if_splits)
    then show ?thesis
      using s by (auto simp: answered_def)
  qed
  then show ?thesis
    using q by blast
qed

lemma answered_start:
  assumes "answered (sq_request_id q) sid h c" "validate_start env req = Inr q" "h = [] \<or> h = se_hash env q"
  shows "\<exists>ph. handle_start env req c = (Inr (sid, ph), c, [])"
  using assms by (auto simp: answered_def handle_start_def Let_def)

section \<open>Properties\<close>

text \<open>
  C19: Capacity accounting. In every reachable state the capture counter is the number of sessions whose
  capture is starting, armed or finalizing; these are the sessions that hold a slot, each of them has a
  capture task that has not reported, and there are never more than \<^verbatim>\<open>max_active_captures\<close>. The reserved decodes are
  the captures that have not reported, at most \<^verbatim>\<open>max_pending_expensive\<close>. The pending compares are the
  unfinished ones and keep the same limit. The running decodes are the unfinished decode jobs; they have
  no limit (\<open>decode_limit_exceeded\<close>). When all tasks have reported, every counter is zero.
\<close>

theorem capacity_accounted:
  assumes "reachable lim (c, K, T)"
  shows "co_active_captures c =
      card {i. \<exists>s. co_sessions c i = Some s \<and> ss_phase s \<in> {Starting, Armed, Finalizing}} \<and>
    co_active_captures c \<le> max_active_captures lim \<and>
    (\<forall>i s. co_sessions c i = Some s \<longrightarrow>
       (ss_slot_held s \<longleftrightarrow> ss_phase s \<in> {Starting, Armed, Finalizing}) \<and> (ss_slot_held s \<longrightarrow> i \<in> K)) \<and>
    co_reserved_decode c = card K \<and> co_reserved_decode c \<le> max_pending_expensive lim \<and>
    co_pending_expensive c = length (filter jt_expensive_slot T) \<and>
    co_pending_expensive c \<le> max_pending_expensive lim \<and>
    co_running_decode c = length (filter jt_decode_slot T) \<and>
    (K = {} \<and> T = [] \<longrightarrow> co_active_captures c = 0 \<and> co_reserved_decode c = 0 \<and>
       co_running_decode c = 0 \<and> co_pending_expensive c = 0)"
proof -
  have inv: "slots_ok lim (c, K, T)" "admitted_ok lim (c, K, T)"
    using admission.always [OF assms] by auto
  have live: "ss_slot_held s \<longleftrightarrow> ss_phase s \<in> {Starting, Armed, Finalizing}" if "co_sessions c i = Some s" for i s
    using inv(2) that by (cases "ss_phase s") (auto simp: admitted_ok_def slot_live_def terminal_def ran_def)
  then have eq: "{i. \<exists>s. co_sessions c i = Some s \<and> ss_phase s \<in> {Starting, Armed, Finalizing}} = held c"
    by (auto simp: held_def)
  moreover have "ss_slot_held s \<longrightarrow> i \<in> K" if "co_sessions c i = Some s" for i s
    using inv(1) that by (auto simp: slots_ok_def held_def)
  moreover have "co_reserved_decode c \<le> max_pending_expensive lim"
    using inv(2) by (simp add: admitted_ok_def)
  ultimately show ?thesis
    unfolding eq using inv(1) live by (intro conjI allI impI) (auto simp: slots_ok_def)
qed

theorem capacity_accounted_witness:
  "co_active_captures demo_started =
     card {i. \<exists>s. co_sessions demo_started i = Some s \<and> ss_phase s \<in> {Starting, Armed, Finalizing}} \<and>
   ss_slot_held demo_session \<and> co_reserved_decode demo_started = 1"
proof -
  have "co_sessions demo_started ''sess_1'' = Some demo_session" "ss_phase demo_session = Starting"
    by (simp_all add: demo_started_def demo_session_def new_session_def)
  then show ?thesis
    using capacity_accounted [OF demo_reachable_started] by auto
qed

text \<open>
  C20: Sessions only move forward. In every reachable state each session is filed under its own
  id and is in a final phase once its capture has reported; a step never lowers the phase
  of a session and never leaves captured, failed or cancelled, so a cancelled session
  is not resurrected by a capture that completes later.
\<close>

theorem phases_forward:
  assumes "reachable lim (c, K, T)" "sstep (c, K, T) (c', K', T')" "co_sessions c i = Some s"
  shows "ss_id s = i \<and> (i \<notin> K \<longrightarrow> ss_phase s \<in> {Captured, FailedPhase, CancelledPhase}) \<and>
    (\<exists>s'. co_sessions c' i = Some s' \<and> phase_rank (ss_phase s) \<le> phase_rank (ss_phase s') \<and>
       (ss_phase s \<in> {Captured, FailedPhase, CancelledPhase} \<longrightarrow> ss_phase s' = ss_phase s))"
proof -
  have inv: "slots_ok lim (c, K, T)" "sessions_ok (c, K, T)"
    using coordinator.always [OF assms(1)] by auto
  show ?thesis
    using sessions_step_ok [OF inv(2,1) assms(2)] sessions_okD(1,2) [OF inv(2) assms(3)] assms(3)
    by (fastforce simp: sessions_step_def phase_step_def phase_ok_def terminal_def)
qed

theorem phases_forward_witness:
  "\<exists>s'. co_sessions (snd (handle_cancel (CancelSession ''sess_1'') demo_started)) ''sess_1'' = Some s' \<and>
     phase_rank Starting \<le> phase_rank (ss_phase s')"
proof -
  obtain s where s: "co_sessions demo_started ''sess_1'' = Some s" "ss_phase s = Starting"
    by (simp add: demo_started_def demo_session_def new_session_def)
  have "sstep (demo_started, {''sess_1''}, [])
      (snd (handle_cancel (CancelSession ''sess_1'') demo_started), {''sess_1''}, [])"
    by (rule sstep.cancel) (simp add: prod_eq_iff)
  from phases_forward [OF demo_reachable_started this s(1)] s(2) show ?thesis
    by auto
qed

text \<open>
  C21: Starting does not panic and is idempotent. In every reachable state no start request whatever hits the
  \<^verbatim>\<open>unwrap\<close> of a missing session. Once a start has succeeded, the same request is answered with the same
  session and changes nothing, however many other requests, reports and starts come in between and
  whatever has become of the session, provided that the body hashes as it did.
\<close>

theorem start_idempotent:
  assumes "reachable lim (c, K, T)"
  shows "fst (handle_start env req c) \<noteq> Inl Panic \<and>
    (\<forall>sid ph c1 sp c2 K2 T2 (env' :: start_env).
       handle_start env req c = (Inr (sid, ph), c1, sp) \<and> se_session_id env \<notin> dom (co_sessions c) \<and>
       sstep\<^sup>*\<^sup>* (c1, K \<union> set sp, T) (c2, K2, T2) \<and>
       se_hash env' = se_hash env \<and> se_page_size env' = se_page_size env \<longrightarrow>
       (\<exists>ph'. handle_start env' req c2 = (Inr (sid, ph'), c2, [])))"
proof (intro conjI allI impI; (elim conjE)?)
  have ok: "ran (co_by_request c) \<subseteq> dom (co_sessions c)"
    using coordinator.always [OF assms] by (auto simp: sessions_ok_def)
  show "fst (handle_start env req c) \<noteq> Inl Panic"
    using ok by (rule start_no_panic)
  fix sid ph c1 sp c2 K2 T2 and env' :: start_env
  assume start: "handle_start env req c = (Inr (sid, ph), c1, sp)"
    and later: "sstep\<^sup>*\<^sup>* (c1, K \<union> set sp, T) (c2, K2, T2)"
    and same: "se_hash env' = se_hash env" "se_page_size env' = se_page_size env"
  have ids: "ss_id s = i" if "co_sessions c i = Some s" for i s
    using coordinator.always [OF assms] that by (auto simp: sessions_ok_def)
  obtain q h where q: "validate_start env req = Inr q" "h = [] \<or> h = se_hash env q"
      "answered (sq_request_id q) sid h c1"
    using start_answered [OF start ids] by blast
  have "answered (sq_request_id q) sid h c2"
    using answered_later [OF later] q(3) by simp
  moreover have "validate_start env' req = Inr q"
    using q(1) same(2) by (simp add: validate_start_def)
  ultimately show "\<exists>ph'. handle_start env' req c2 = (Inr (sid, ph'), c2, [])"
    using answered_start q(2) same(1) by metis
qed

theorem start_idempotent_witness:
  "fst (handle_start demo_start_env demo_start demo_started) \<noteq> Inl Panic \<and>
   (\<exists>ph'. handle_start (demo_start_env\<lparr>se_session_id := ''sess_2''\<rparr>) demo_start
      (snd (handle_cancel (CancelSession ''sess_1'') demo_started)) =
      (Inr (''sess_1'', ph'), snd (handle_cancel (CancelSession ''sess_1'') demo_started), []))"
proof -
  have "sstep (demo_started, {''sess_1''}, [])
      (snd (handle_cancel (CancelSession ''sess_1'') demo_started), {''sess_1''}, [])"
    by (rule sstep.cancel) (simp add: prod_eq_iff)
  then have "sstep\<^sup>*\<^sup>* (demo_started, {} \<union> set [''sess_1''], [])
      (snd (handle_cancel (CancelSession ''sess_1'') demo_started), {''sess_1''}, [])"
    by (simp add: r_into_rtranclp)
  moreover have "se_session_id demo_start_env \<notin> dom (co_sessions demo_boot)"
    by (simp add: demo_boot_sel)
  moreover have "se_hash (demo_start_env\<lparr>se_session_id := ''sess_2''\<rparr>) = se_hash demo_start_env"
    "se_page_size (demo_start_env\<lparr>se_session_id := ''sess_2''\<rparr>) = se_page_size demo_start_env"
    by simp_all
  ultimately have "\<exists>ph'. handle_start (demo_start_env\<lparr>se_session_id := ''sess_2''\<rparr>) demo_start
      (snd (handle_cancel (CancelSession ''sess_1'') demo_started)) =
      (Inr (''sess_1'', ph'), snd (handle_cancel (CancelSession ''sess_1'') demo_started), [])"
    using start_idempotent [OF demo_reachable, of demo_start_env demo_start] demo_handle_start by blast
  then show ?thesis
    using start_idempotent [OF demo_reachable_started, of demo_start_env demo_start] by blast
qed

definition prune_inv ::
    "coord \<Rightarrow> (string \<Rightarrow> error + u64) \<Rightarrow> string list \<Rightarrow> coord \<times> (string \<times> u64) list \<times> (string \<times> string) list \<Rightarrow> bool" where
  "prune_inv c rm ids st \<longleftrightarrow>
     (case st of (c', removed, skipped) \<Rightarrow>
        co_jobs c' = co_jobs c \<and> co_sessions c' = co_sessions c \<and>
        mset ids = mset (map fst removed) + mset (map fst skipped) \<and>
        (\<forall>(i, b)\<in>set removed. rm i = Inr b \<and> \<not> snapshot_busy c i \<and> \<not> snapshot_capturing c i \<and>
           (\<forall>k job. co_cache_jobs c' k = Some job \<longrightarrow> Option.bind (co_jobs c job) jr_snapshot_id \<noteq> Some i)))"

lemma prune_one_inv:
  assumes "prune_inv c rm ids st"
  shows "prune_inv c rm (ids @ [i]) (prune_one rm i st)"
proof -
  obtain c' removed skipped where st: "st = (c', removed, skipped)"
    by (metis prod_cases3)
  have busy: "snapshot_busy c' i = snapshot_busy c i" "snapshot_capturing c' i = snapshot_capturing c i"
    using assms st by (simp_all add: prune_inv_def snapshot_busy_def snapshot_capturing_def)
  show ?thesis
    using assms st busy
    by (cases "rm i") (auto simp: prune_inv_def prune_one_def split: option.splits if_splits)
qed

lemma prune_fold_inv: "prune_inv c rm done st \<Longrightarrow> prune_inv c rm (done @ ids) (fold (prune_one rm) ids st)"
proof (induction ids arbitrary: "done" st)
  case (Cons i ids)
  from Cons.IH [OF prune_one_inv [OF Cons.prems]] show ?case
    by simp
qed simp

text \<open>
  C22: Pruning is safe and complete. Every requested snapshot is either removed or reported as
  skipped; a removed one had no queued or running job and no unfinished capture, and no
  cached decode of it is left. With \<^verbatim>\<open>list_only\<close> nothing is removed.
\<close>

theorem prune_safe:
  assumes "handle_prune sz rm us ids list_only c = (Inr reply, c')"
  shows "(list_only \<longrightarrow> pl_removed reply = [] \<and> c' = c) \<and>
    (\<not> list_only \<longrightarrow> mset ids = mset (map fst (pl_removed reply)) + mset (map fst (pl_skipped reply))) \<and>
    (\<forall>(i, b)\<in>set (pl_removed reply). rm i = Inr b \<and>
       (\<forall>j\<in>ran (co_jobs c). jr_snapshot_id j = Some i \<longrightarrow> jr_phase j \<notin> {Queued, Running}) \<and>
       (\<forall>s\<in>ran (co_sessions c). ss_snapshot_id s = Some i \<longrightarrow> ss_phase s \<notin> {Starting, Armed, Finalizing}) \<and>
       (\<forall>k job. co_cache_jobs c' k = Some job \<longrightarrow> Option.bind (co_jobs c job) jr_snapshot_id \<noteq> Some i))"
proof -
  have all: "prune_all rm ids list_only c = (c', pl_removed reply, pl_skipped reply)"
    using assms by (auto simp: handle_prune_def split: sum.splits prod.splits)
  show ?thesis
  proof (cases list_only)
    case False
    have "prune_inv c rm [] (c, [], [])"
      by (simp add: prune_inv_def)
    from prune_fold_inv [OF this, of ids] have "prune_inv c rm ids (c', pl_removed reply, pl_skipped reply)"
      using all False by (simp add: prune_all_def)
    then show ?thesis
      using False by (fastforce simp: prune_inv_def snapshot_busy_def snapshot_capturing_def)
  qed (use all in \<open>simp add: prune_all_def\<close>)
qed

theorem prune_safe_witness:
  "\<exists>reply. handle_prune (Inr [(''s_1'', 5)]) (\<lambda>_. Inr 5) (Inr 9) [''s_1''] False demo_started = (Inr reply, demo_started) \<and>
     mset [''s_1''] = mset (map fst (pl_removed reply)) + mset (map fst (pl_skipped reply))"
proof -
  have "\<not> snapshot_busy demo_started ''s_1''" "snapshot_capturing demo_started ''s_1''"
    by (auto simp: snapshot_busy_def snapshot_capturing_def demo_started_def demo_boot_eq coord_new_def
        demo_session_def new_session_def demo_start_env_def)
  then have "\<exists>reply. handle_prune (Inr [(''s_1'', 5)]) (\<lambda>_. Inr 5) (Inr 9) [''s_1''] False demo_started =
      (Inr reply, demo_started)"
    by (simp add: handle_prune_def prune_all_def prune_one_def)
  then obtain reply where r: "handle_prune (Inr [(''s_1'', 5)]) (\<lambda>_. Inr 5) (Inr 9) [''s_1''] False demo_started =
      (Inr reply, demo_started)" ..
  from prune_safe [OF this] r show ?thesis
    by blast
qed

section \<open>Surprising compositions\<close>

text \<open>
  A decode that failed is never run again by the same process: the job stays in the cache, and the
  same request is answered as cached with the id of an analysis that was never written.
\<close>

theorem failed_decode_not_retried:
  assumes "handle_decode env sid d c = (Inr r, c1, [t])"
    and "handle_internal now j a (JobFinished (finish_record (Some e) (jt_record t)) True False) c1 = (c2, ts)"
    and "de_manifest env' = de_manifest env" "de_key env' = de_key env" "\<And>k. de_find env' k = None"
  shows "handle_decode env' sid d c2 = (Inr (r\<lparr>dr_cached := True\<rparr>), c2, [])"
proof -
  obtain snap detail sel where ok: "try_bind (de_manifest env) (\<lambda>snap. try_bind (decode_detail d) (\<lambda>x. Inr (snap, x))) =
      Inr (snap, detail, sel)"
    using assms(1)
    by (cases "try_bind (de_manifest env) (\<lambda>snap. try_bind (decode_detail d) (\<lambda>x. Inr (snap, x)))")
       (auto simp: handle_decode_def)
  let ?key = "de_key env snap detail sel (d = CallsDetail True)"
  have t: "jr_job_id (jt_record t) = de_job_id env" "jr_analysis_id (jt_record t) = Some (de_analysis_id env)"
      "r = \<lparr>dr_analysis_id = de_analysis_id env, dr_job_id = Some (de_job_id env), dr_cached = False\<rparr>"
      "co_cache_jobs c1 ?key = Some (de_job_id env)"
    using assms(1) ok
    by (auto simp: handle_decode_def Let_def coord_simps split: option.splits if_splits)
  have "co_cache_jobs c2 ?key = Some (de_job_id env)"
      "co_jobs c2 (de_job_id env) = Some (finish_record (Some e) (jt_record t))"
    using assms(2) t by (auto simp: handle_internal_def handle_job_finished_def coord_simps finish_record_def)
  then show ?thesis
    using ok t assms(3-5) by (simp add: handle_decode_def Let_def finish_record_def)
qed

text \<open>
  Publishing a capture starts its decode without a look at \<^verbatim>\<open>max_decode_jobs\<close>, which only an explicit
  decode request is checked against: while one decode runs, a second capture that completes starts another.
\<close>

theorem decode_limit_exceeded:
  assumes "co_sessions c i = Some s" "ss_phase s \<in> {Starting, Armed, Finalizing}"
    "co_running_decode c = max_decode_jobs (co_limits c)"
    "handle_internal now j a (PublishedEvt i snap) c = (c', ts)"
  shows "co_running_decode c' = max_decode_jobs (co_limits c') + 1"
  using assms
  by (auto simp: handle_internal_def handle_published_def start_initial_decode_def Let_def coord_simps)

text \<open>
  Cancelling the queued decode of a session that is finalizing does not stop it: when the
  capture is published the job is entered again and runs.
\<close>

theorem cancelled_job_runs:
  assumes "co_sessions c i = Some s" "ss_phase s = Finalizing" "ss_decode_job s = Some job"
    and "handle_cancel (CancelJob job) c = (r, c1)"
  shows "\<exists>c2 t. handle_internal now nj a (PublishedEvt i snap) c1 = (c2, [t]) \<and>
    jr_job_id (jt_record t) = job \<and> (\<exists>rec. co_jobs c2 job = Some rec \<and> jr_phase rec = Running)"
proof -
  have "co_sessions c1 i = Some s"
    using assms(1,4) by (auto simp: handle_cancel_def split: option.splits if_splits)
  then show ?thesis
    using assms(2,3)
    by (simp add: handle_internal_def handle_published_def start_initial_decode_def Let_def queued_decode_def coord_simps)
qed

text \<open>Listing sessions with a limit of zero returns the cursor of the same empty page.\<close>

theorem sessions_page_zero:
  assumes "n \<le> u64_max"
  shows "sessions_page all (Some (show_dec n)) (Some 0) = ([], Some (show_dec n))"
  using assms by (simp add: sessions_page_def parse_uint_show_base)

end
