(* ===== verification/Instructions.thy ===== *)
theory Instructions
  imports Reconstruct_Finish Hotpaths
begin

text \<open>
  \<^verbatim>\<open>src/decode/instructions.rs\<close>: the reconstruction of single instructions. Each instruction
  sample in the selection becomes a row; the outcome of a conditional branch is read off the next
  instruction of the same task. The x86 decoder (iced-x86), the DWARF loader (addr2line) and the
  printing of a fraction are the fields of \<open>insn_env\<close>. The hash map \<^verbatim>\<open>pending\<close>, which the code
  iterates over, is an association list, the \<^verbatim>\<open>BTreeMap\<close> of the sites one that is read in the order
  of its keys; the other hash maps are maps. \<^verbatim>\<open>usize\<close> counts are unbounded.
\<close>

section \<open>Decoding one instruction\<close>

datatype flow_control =
    FcNext | FcUnconditionalBranch | FcIndirectBranch | FcConditionalBranch | FcCall
  | FcIndirectCall | FcReturn | FcOther

text \<open>\<^verbatim>\<open>addr2line::Loader::find_frames\<close>: the frames at an address, innermost first, each with its
  name if it has one that can be demangled.\<close>

type_synonym frame_loader = "u64 \<Rightarrow> string option list option"

record insn_env =
  ie_decode :: "nat list \<Rightarrow> u64 \<Rightarrow> nat \<times> flow_control \<times> u64"
  ie_loader :: "string \<Rightarrow> frame_loader option"
  ie_fixed6 :: "nat \<Rightarrow> nat \<Rightarrow> string"

record decoded =
  dc_len :: nat
  dc_kind :: insn_kind
  dc_target :: "u64 option"
  dc_fallthrough :: "u64 option"

fun classify :: "flow_control \<Rightarrow> u64 \<Rightarrow> insn_kind \<times> u64 option" where
  "classify FcNext t = (Sequential, None)"
| "classify FcUnconditionalBranch t = (InsnJump, Some t)"
| "classify FcIndirectBranch t = (IndirectJump, None)"
| "classify FcConditionalBranch t = (InsnConditional, Some t)"
| "classify FcCall t = (InsnCall, Some t)"
| "classify FcIndirectCall t = (IndirectCall, None)"
| "classify FcReturn t = (InsnReturn, None)"
| "classify FcOther t = (OtherInsn, None)"

definition decode_one :: "insn_env \<Rightarrow> u64 \<Rightarrow> nat list \<Rightarrow> decoded" where
  "decode_one x ip bytes =
     (if bytes = []
      then \<lparr>dc_len = 0, dc_kind = OtherInsn, dc_target = None, dc_fallthrough = None\<rparr>
      else (case ie_decode x bytes ip of
              (len, fc, near) \<Rightarrow>
                (case classify fc near of
                   (kind, target) \<Rightarrow>
                     \<lparr>dc_len = len, dc_kind = kind, dc_target = target,
                      dc_fallthrough = (if kind = InsnReturn then None
                                        else checked_add64 ip len)\<rparr>)))"

section \<open>State\<close>

record pending_cond =
  pc_out_idx :: nat
  pc_target :: "u64 option"
  pc_fallthrough :: "u64 option"

type_synonym symbolized = "string option \<times> u64 option \<times> string option"

record insn_recon =
  ii_analysis_id :: analysis_id
  ii_origin :: clock_origin
  ii_origin_abs :: u64
  ii_images :: "archived_image list"
  ii_index :: "image_index list"
  ii_mappings :: "mapping_record list"
  ii_sel_thread :: "thread_id option"
  ii_sel_abs :: "u64 option \<times> u64 option"
  ii_out :: "instruction_record list"
  ii_seq :: "task_key \<rightharpoonup> u64"
  ii_pending :: "(task_key \<times> pending_cond) list"
  ii_sym_cache :: "(u32 \<times> u64) \<rightharpoonup> symbolized"
  ii_loaders :: "frame_loader option option list"
  ii_thread_ids :: thread_ids
  ii_next_id :: u32
  ii_decoder_errors :: u64
  ii_missing :: u64
  ii_samples_seen :: u64
  ii_budget :: u64
  ii_pid_filter :: "pid_tracker option"

record instruction_ir =
  ni_analysis_id :: analysis_id
  ni_origin :: clock_origin
  ni_instructions :: "instruction_record list"
  ni_quality :: quality_report
  ni_samples_seen :: u64

definition INSN_COST :: u64 where
  "INSN_COST = 160"

definition insn_recon_new ::
    "analysis_id \<Rightarrow> clock_origin \<Rightarrow> archived_image list \<Rightarrow> image_index list \<Rightarrow>
     mapping_record list \<Rightarrow> selection option \<Rightarrow> insn_recon" where
  "insn_recon_new aid origin images index mappings sel =
     (let origin_abs = (case parse_u64 (abs_perf_time origin) of None \<Rightarrow> 0 | Some t \<Rightarrow> t)
      in \<lparr>ii_analysis_id = aid, ii_origin = origin, ii_origin_abs = origin_abs,
          ii_images = images, ii_index = index, ii_mappings = mappings,
          ii_sel_thread = Option.bind sel sel_thread,
          ii_sel_abs = (case sel of
             Some s \<Rightarrow> (map_option (sat_add64 origin_abs) (sel_start s),
                        map_option (sat_add64 origin_abs) (sel_end s))
           | None \<Rightarrow> (None, None)),
          ii_out = [], ii_seq = Map.empty, ii_pending = [], ii_sym_cache = Map.empty,
          ii_loaders = map (\<lambda>_. None) images, ii_thread_ids = thread_ids_default,
          ii_next_id = 0, ii_decoder_errors = 0, ii_missing = 0, ii_samples_seen = 0,
          ii_budget = u64_max, ii_pid_filter = None\<rparr>)"

definition insn_with_budget :: "u64 \<Rightarrow> insn_recon \<Rightarrow> insn_recon" where
  "insn_with_budget bytes st = st\<lparr>ii_budget := bytes\<rparr>"

definition insn_with_pid_filter :: "pid_tracker \<Rightarrow> insn_recon \<Rightarrow> insn_recon" where
  "insn_with_pid_filter tracker st = st\<lparr>ii_pid_filter := Some tracker\<rparr>"

section \<open>Selection, outcomes, symbols\<close>

definition sample_selected :: "insn_recon \<Rightarrow> sample \<Rightarrow> thread_id \<Rightarrow> bool" where
  "sample_selected st s tid \<longleftrightarrow>
     (if (case ii_sel_thread st of None \<Rightarrow> False | Some t \<Rightarrow> t \<noteq> tid) then False
      else (case (ii_sel_abs st, s_time s) of
              ((None, None), _) \<Rightarrow> True
            | (_, None) \<Rightarrow> False
            | ((lo, hi), Some t) \<Rightarrow>
                (case lo of None \<Rightarrow> True | Some l \<Rightarrow> t \<ge> l) \<and>
                (case hi of None \<Rightarrow> True | Some h \<Rightarrow> t < h)))"

definition judge_outcome :: "u64 option \<Rightarrow> u64 option \<Rightarrow> u64 option \<Rightarrow> branch_outcome" where
  "judge_outcome next_ip target fallthrough =
     (case (next_ip, target, fallthrough) of
        (None, _, _) \<Rightarrow> UnknownOutcome
      | (Some n, Some t, Some f) \<Rightarrow>
          if t = f then UnknownOutcome
          else if n = t then Taken
          else if n = f then NotTaken
          else UnknownOutcome
      | _ \<Rightarrow> UnknownOutcome)"

definition resolve_outcome :: "task_key \<Rightarrow> u64 option \<Rightarrow> insn_recon \<Rightarrow> insn_recon" where
  "resolve_outcome key next_ip st =
     (case map_of (ii_pending st) key of
        None \<Rightarrow> st
      | Some p \<Rightarrow>
          (let st1 = st\<lparr>ii_pending := AList.delete key (ii_pending st)\<rparr>;
               outcome = judge_outcome next_ip (pc_target p) (pc_fallthrough p)
           in if pc_out_idx p < length (ii_out st1)
              then st1\<lparr>ii_out := (ii_out st1)[pc_out_idx p :=
                         (ii_out st1 ! pc_out_idx p)\<lparr>in_outcome := Some outcome\<rparr>]\<rparr>
              else st1))"

definition resolve_all :: "insn_recon \<Rightarrow> insn_recon" where
  "resolve_all st = fold (\<lambda>k. resolve_outcome k None) (map fst (ii_pending st)) st"

definition mapping_for :: "insn_recon \<Rightarrow> u32 \<Rightarrow> u64 \<Rightarrow> (nat \<times> nat option) option" where
  "mapping_for st pid ip =
     (case find (\<lambda>i. let m = ii_mappings st ! i
                     in mp_pid m = pid \<and> ip \<ge> address_val (mp_start m)
                        \<and> ip < address_val (mp_end m))
             (rev [0..<length (ii_mappings st)]) of
        None \<Rightarrow> None
      | Some mi \<Rightarrow>
          Some (mi, position (\<lambda>i. img_path (ai_identity i) = mp_path (ii_mappings st ! mi))
                      (ii_images st)))"

definition innermost_inline ::
    "insn_env \<Rightarrow> nat \<Rightarrow> u64 \<Rightarrow> insn_recon \<Rightarrow> string option \<times> insn_recon" where
  "innermost_inline x ii rel st =
     (let st1 = (if ii_loaders st ! ii = None
                 then st\<lparr>ii_loaders := (ii_loaders st)[ii :=
                           Some (ie_loader x (ai_archive_path (ii_images st ! ii)))]\<rparr>
                 else st)
      in (case ii_loaders st1 ! ii of
            Some (Some loader) \<Rightarrow>
              (case loader rel of Some (name # _) \<Rightarrow> name | _ \<Rightarrow> None)
          | _ \<Rightarrow> None, st1))"

definition symbolize :: "insn_env \<Rightarrow> u32 \<Rightarrow> u64 \<Rightarrow> insn_recon \<Rightarrow> symbolized \<times> insn_recon" where
  "symbolize x pid ip st =
     (case ii_sym_cache st (pid, ip) of
        Some v \<Rightarrow> (v, st)
      | None \<Rightarrow>
          (let (v, st1) =
             (case mapping_for st pid ip of
                Some (mi, Some ii) \<Rightarrow>
                  (let m = ii_mappings st ! mi;
                       rel = relative_addr (ii_index st ! ii) ip (address_val (mp_start m)) (mp_pgoff m);
                       sym = Option.bind rel (\<lambda>r.
                               map_option fr_demangled (index_function (ii_index st ! ii) r));
                       (inlined, st1) = (case rel of
                           None \<Rightarrow> (None, st)
                         | Some r \<Rightarrow> innermost_inline x ii r st)
                   in ((sym, rel, if inlined \<noteq> None \<and> inlined = sym then None else inlined), st1))
              | _ \<Rightarrow> ((None, None, None), st))
           in (v, st1\<lparr>ii_sym_cache := (ii_sym_cache st1)((pid, ip) \<mapsto> v)\<rparr>)))"

definition insn_bytes_at :: "sample \<Rightarrow> u64 \<Rightarrow> insn_recon \<Rightarrow> nat list \<times> insn_recon" where
  "insn_bytes_at s ip st =
     (if s_insn s \<noteq> [] then (s_insn s, st)
      else (case mapping_for st (s_pid s) ip of
              Some (mi, Some ii) \<Rightarrow>
                (let m = ii_mappings st ! mi
                 in case file_offset ip (address_val (mp_start m)) (mp_pgoff m) of
                      None \<Rightarrow> ([], st)
                    | Some off \<Rightarrow>
                        (let bytes = ai_bytes (ii_images st ! ii)
                         in if off \<ge> length bytes then ([], st)
                            else (drop off (take (min (length bytes) (off + 15)) bytes), st)))
            | _ \<Rightarrow> ([], st\<lparr>ii_missing := ii_missing st + 1\<rparr>)))"

section \<open>One record\<close>

definition push_insn_mmap :: "mmap_event \<Rightarrow> insn_recon \<Rightarrow> insn_recon" where
  "push_insn_mmap m st =
     st\<lparr>ii_mappings := ii_mappings st @
          [\<lparr>mp_generation = as_u32 (length (ii_mappings st)), mp_pid = mm_pid m,
            mp_start = Address (mm_start m), mp_end = Address (sat_add64 (mm_start m) (mm_len m)),
            mp_pgoff = mm_pgoff m, mp_prot = mm_prot m, mp_path = mm_path m, mp_build_id = None,
            mp_valid_from = time_unknown, mp_valid_to = None\<rparr>],
        ii_sym_cache := (\<lambda>(pid, ip). if pid \<noteq> mm_pid m then ii_sym_cache st (pid, ip) else None)\<rparr>"

definition push_insn_error :: "decoder_error_event \<Rightarrow> insn_recon \<Rightarrow> insn_recon" where
  "push_insn_error e st0 =
     (let st = st0\<lparr>ii_decoder_errors := ii_decoder_errors st0 + 1\<rparr>
      in case (de_pid e, de_tid e) of
           (Some p, Some t) \<Rightarrow>
             (let st1 = resolve_outcome (p, t) None st
              in case ii_seq st1 (p, t) of
                   None \<Rightarrow> st1
                 | Some n \<Rightarrow> st1\<lparr>ii_seq := (ii_seq st1)((p, t) \<mapsto> n + 1)\<rparr>)
         | _ \<Rightarrow>
             (let st1 = resolve_all st
              in st1\<lparr>ii_seq := (\<lambda>k. map_option (\<lambda>n. n + 1) (ii_seq st1 k))\<rparr>))"

definition insn_row ::
    "insn_recon \<Rightarrow> sample \<Rightarrow> thread_id \<Rightarrow> u64 \<Rightarrow> nat list \<Rightarrow> decoded \<Rightarrow> symbolized \<Rightarrow> instruction_record" where
  "insn_row st s tid seq bytes d sy =
     (case sy of (symbol, off, inlined) \<Rightarrow>
        \<lparr>in_id = ii_next_id st, in_thread = tid, in_sequence = seq,
         in_time = (case s_time s of
                      Some t \<Rightarrow> if ii_origin_abs st > 0 then time_estimate (t - ii_origin_abs st)
                                else time_estimate t
                    | None \<Rightarrow> time_unknown),
         in_location = None, in_virt_ip = Address (case s_ip s of None \<Rightarrow> 0 | Some a \<Rightarrow> a),
         in_symbol = symbol, in_inlined = inlined,
         in_image_offset = map_option Address off, in_len = dc_len d, in_kind = dc_kind d,
         in_branch_target = map_option Address (dc_target d),
         in_fallthrough = map_option Address (dc_fallthrough d), in_outcome = None,
         in_bytes_hex = join_str '' '' (map insn_hex_byte bytes)\<rparr>)"

definition retain_insn ::
    "insn_env \<Rightarrow> sample \<Rightarrow> thread_id \<Rightarrow> u64 \<Rightarrow> insn_recon \<Rightarrow> error + insn_recon" where
  "retain_insn x s tid seq st0 =
     (let key = (s_pid s, s_tid s);
          ip = (case s_ip s of None \<Rightarrow> 0 | Some a \<Rightarrow> a);
          (bytes, st1) = insn_bytes_at s ip st0;
          d = decode_one x ip bytes;
          (sy, st2) = symbolize x (s_pid s) ip st1;
          idx = length (ii_out st2);
          st3 = st2\<lparr>ii_next_id := inc32 (ii_next_id st2),
                    ii_out := ii_out st2 @ [insn_row st2 s tid seq bytes d sy]\<rparr>;
          st4 = (if dc_kind d = InsnConditional
                 then st3\<lparr>ii_pending := AList.update key
                            \<lparr>pc_out_idx = idx, pc_target = dc_target d,
                             pc_fallthrough = dc_fallthrough d\<rparr> (ii_pending st3)\<rparr>
                 else st3);
          n = length (ii_out st4)
      in if n mod 8192 = 0 \<and> n * INSN_COST > ii_budget st4
         then Inl (with_next ''Narrow start_ns/end_ns for the instruction decode''
                (limit_error (''resident decode budget '' @ show_dec (ii_budget st4)
                   @ '' exceeded with '' @ show_dec n @ '' instructions retained'')))
         else Inr st4)"

definition push_insn_sample :: "insn_env \<Rightarrow> sample \<Rightarrow> insn_recon \<Rightarrow> error + insn_recon" where
  "push_insn_sample x s st0 =
     (let key = (s_pid s, s_tid s);
          seq = (case ii_seq st0 key of None \<Rightarrow> 0 | Some n \<Rightarrow> n) + 1;
          ip = (case s_ip s of None \<Rightarrow> 0 | Some a \<Rightarrow> a);
          st1 = resolve_outcome key (Some ip)
                  (st0\<lparr>ii_samples_seen := ii_samples_seen st0 + 1,
                       ii_seq := (ii_seq st0)(key \<mapsto> seq)\<rparr>);
          (exited, ids) = take_exited key (ii_thread_ids st1);
          st2 = st1\<lparr>ii_thread_ids := ids\<rparr>;
          st3 = (if exited then st2\<lparr>ii_seq := (ii_seq st2)(key \<mapsto> 1)\<rparr> else st2);
          tid = thread_ids_id (ii_thread_ids st3) (s_pid s) (s_tid s)
      in if \<not> sample_selected st3 s tid then Inr st3
         else retain_insn x s tid seq st3)"

definition insn_dropped :: "pid_tracker \<Rightarrow> raw_record \<Rightarrow> bool" where
  "insn_dropped f rec \<longleftrightarrow>
     (case rec of
        RSample s \<Rightarrow> \<not> is_live_thread f (s_pid s) (s_tid s)
      | RMmap m \<Rightarrow> \<not> mapping_is_live f m
      | _ \<Rightarrow> False)"

definition insn_dispatch :: "insn_env \<Rightarrow> raw_record \<Rightarrow> insn_recon \<Rightarrow> error + insn_recon" where
  "insn_dispatch x rec st =
     (case rec of
        RMmap m \<Rightarrow> Inr (push_insn_mmap m st)
      | RTask t \<Rightarrow> Inr (st\<lparr>ii_thread_ids := thread_ids_observe rec (ii_thread_ids st)\<rparr>)
      | RDecoderError e \<Rightarrow> Inr (push_insn_error e st)
      | RSample s \<Rightarrow> if is_instruction (s_event s) then push_insn_sample x s st else Inr st
      | _ \<Rightarrow> Inr st)"

definition insn_push :: "insn_env \<Rightarrow> raw_record \<Rightarrow> insn_recon \<Rightarrow> error + insn_recon" where
  "insn_push x rec st =
     (case ii_pid_filter st of
        None \<Rightarrow> insn_dispatch x rec st
      | Some f0 \<Rightarrow>
          (let f = observe rec f0; st1 = st\<lparr>ii_pid_filter := Some f\<rparr>
           in if insn_dropped f rec then Inr st1 else insn_dispatch x rec st1))"

section \<open>The result\<close>

definition insn_finish :: "insn_recon \<Rightarrow> instruction_ir" where
  "insn_finish st0 =
     (let st = resolve_all st0;
          unknown = length (filter (\<lambda>i. in_outcome i = Some UnknownOutcome) (ii_out st));
          notes = [''taken_fraction is among known outcomes in the selected region only'',
                   show_dec (ii_samples_seen st) @ '' instruction samples scanned, ''
                     @ show_dec (length (ii_out st)) @ '' retained in the selection'']
                  @ (if unknown > 0
                     then [show_dec unknown @ '' conditional outcomes unknown''] else [])
      in \<lparr>ni_analysis_id = ii_analysis_id st, ni_origin = ii_origin st,
          ni_instructions = ii_out st,
          ni_quality = \<lparr>qr_timing = DecoderEstimate, qr_gap_count = Count 0,
            qr_incomplete_span_count = Count 0,
            qr_missing_image_count = Count (ii_missing st),
            qr_decoder_error_count = Count (ii_decoder_errors st),
            qr_ring_truncation = False, qr_undecodable_prefix = False, qr_notes = notes,
            qr_gaps_by_kind = Map.empty\<rparr>,
          ni_samples_seen = ii_samples_seen st\<rparr>)"

definition reconstruct_instructions ::
    "insn_env \<Rightarrow> analysis_id \<Rightarrow> clock_origin \<Rightarrow> raw_record list \<Rightarrow> archived_image list \<Rightarrow>
     image_index list \<Rightarrow> mapping_record list \<Rightarrow> error + instruction_ir" where
  "reconstruct_instructions x aid origin records images index mappings =
     map_sum id insn_finish
       (fold_try (insn_push x) records (insn_recon_new aid origin images index mappings None))"

definition overlay_calls_quality :: "analysis_ir \<Rightarrow> instruction_ir \<Rightarrow> instruction_ir" where
  "overlay_calls_quality calls insn =
     insn\<lparr>ni_quality := (ni_quality insn)\<lparr>
            qr_ring_truncation := qr_ring_truncation (ir_quality calls),
            qr_gap_count := qr_gap_count (ir_quality calls)\<rparr>\<rparr>"

section \<open>Branch sites\<close>

record branch_site =
  bs_site :: string
  bs_symbol :: "string option"
  bs_taken :: count
  bs_not_taken :: count
  bs_unknown :: count
  bs_fraction :: "string option"
  bs_targets :: "string list"

record site_acc =
  sa_taken :: u64
  sa_not_taken :: u64
  sa_unknown :: u64
  sa_targets :: "u64 list"
  sa_symbol :: "string option"

definition site_default :: site_acc where
  "site_default = \<lparr>sa_taken = 0, sa_not_taken = 0, sa_unknown = 0, sa_targets = [], sa_symbol = None\<rparr>"

definition count_outcome :: "instruction_record \<Rightarrow> site_acc \<Rightarrow> site_acc" where
  "count_outcome insn e0 =
     (let e = e0\<lparr>sa_symbol := opt_or (sa_symbol e0) (in_symbol insn)\<rparr>
      in case in_outcome insn of
           Some Taken \<Rightarrow> e\<lparr>sa_taken := sa_taken e + 1\<rparr>
         | Some NotTaken \<Rightarrow> e\<lparr>sa_not_taken := sa_not_taken e + 1\<rparr>
         | _ \<Rightarrow> e\<lparr>sa_unknown := sa_unknown e + 1\<rparr>)"

definition add_target :: "instruction_record \<Rightarrow> instruction_record \<Rightarrow> site_acc \<Rightarrow> site_acc" where
  "add_target insn nxt e0 =
     (let e = e0\<lparr>sa_symbol := opt_or (sa_symbol e0) (in_symbol insn)\<rparr>;
          ip = address_val (in_virt_ip nxt)
      in if ip \<in> set (sa_targets e) then e else e\<lparr>sa_targets := sa_targets e @ [ip]\<rparr>)"

definition scan_indirect ::
    "instruction_record \<Rightarrow> instruction_record list \<Rightarrow> (u64 \<times> site_acc) list \<Rightarrow>
     (u64 \<times> site_acc) list" where
  "scan_indirect insn rest m =
     (case rest of
        nxt # _ \<Rightarrow>
          if in_thread nxt = in_thread insn \<and> in_sequence nxt = in_sequence insn + 1
          then entry_update (address_val (in_virt_ip insn)) site_default (add_target insn nxt) m
          else m
      | [] \<Rightarrow> m)"

definition scan_step ::
    "instruction_record \<Rightarrow> instruction_record list \<Rightarrow> (u64 \<times> site_acc) list \<Rightarrow>
     (u64 \<times> site_acc) list" where
  "scan_step insn rest m =
     (case in_kind insn of
        InsnConditional \<Rightarrow>
          entry_update (address_val (in_virt_ip insn)) site_default (count_outcome insn) m
      | IndirectCall \<Rightarrow> scan_indirect insn rest m
      | IndirectJump \<Rightarrow> scan_indirect insn rest m
      | _ \<Rightarrow> m)"

fun scan_sites ::
    "instruction_record list \<Rightarrow> (u64 \<times> site_acc) list \<Rightarrow> (u64 \<times> site_acc) list" where
  "scan_sites [] m = m"
| "scan_sites (insn # rest) m = scan_sites rest (scan_step insn rest m)"

definition branch_site_of :: "insn_env \<Rightarrow> u64 \<times> site_acc \<Rightarrow> branch_site" where
  "branch_site_of x e =
     (case e of (ip, s) \<Rightarrow>
        (let den = sa_taken s + sa_not_taken s
         in \<lparr>bs_site = ''0x'' @ show_hex ip, bs_symbol = sa_symbol s, bs_taken = Count (sa_taken s),
             bs_not_taken = Count (sa_not_taken s), bs_unknown = Count (sa_unknown s),
             bs_fraction = (if den = 0 then None else Some (ie_fixed6 x (sa_taken s) den)),
             bs_targets = map (\<lambda>a. ''0x'' @ show_hex a) (sa_targets s)\<rparr>))"

definition bs_executed :: "branch_site \<Rightarrow> nat" where
  "bs_executed b = count_val (bs_taken b) + count_val (bs_not_taken b) + count_val (bs_unknown b)"

definition branch_cmp :: "branch_site \<Rightarrow> branch_site \<Rightarrow> ordering" where
  "branch_cmp = cmp_then (cmp_desc bs_executed) (cmp_key bs_site)"

definition aggregate_branches :: "insn_env \<Rightarrow> instruction_record list \<Rightarrow> branch_site list" where
  "aggregate_branches x insns =
     sort_by branch_cmp (map (branch_site_of x) (sort_key fst (scan_sites insns [])))"

interpretation branches: comparator branch_cmp
  unfolding branch_cmp_def by (intro comparator_then comparator_desc comparator_key)

end
