(* ===== verification/Instruction_Props.thy ===== *)
theory Instruction_Props
  imports Instructions
begin

text \<open>
  The outcome of every conditional branch row is the one its next instruction gives, and the branch
  sites account for every row.
\<close>

section \<open>Rows and the branches that wait for their outcome\<close>

text \<open>What a record says about a waiting branch of \<open>key\<close>: nothing, the address of the next
  instruction, or that the trace is broken there.\<close>

definition verdict_of :: "task_key \<Rightarrow> raw_record \<Rightarrow> u64 option option" where
  "verdict_of key rec =
     (case rec of
        RSample s \<Rightarrow>
          if is_instruction (s_event s) \<and> (s_pid s, s_tid s) = key
          then Some (Some (case s_ip s of None \<Rightarrow> 0 | Some a \<Rightarrow> a)) else None
      | RDecoderError e \<Rightarrow>
          (case (de_pid e, de_tid e) of
             (Some p, Some t) \<Rightarrow> if (p, t) = key then Some None else None
           | _ \<Rightarrow> Some None)
      | _ \<Rightarrow> None)"

fun next_ip :: "task_key \<Rightarrow> raw_record list \<Rightarrow> u64 option" where
  "next_ip key [] = None"
| "next_ip key (r # rs) =
     (case verdict_of key r of Some v \<Rightarrow> v | None \<Rightarrow> next_ip key rs)"

text \<open>The records that pass the process filter.\<close>

fun passed_records :: "pid_tracker option \<Rightarrow> raw_record list \<Rightarrow> raw_record list" where
  "passed_records None rs = rs"
| "passed_records (Some f) [] = []"
| "passed_records (Some f) (r # rs) =
     (let f' = observe r f
      in (if insn_dropped f' r then [] else [r]) @ passed_records (Some f') rs)"

definition pend_ok :: "insn_recon \<Rightarrow> bool" where
  "pend_ok st \<longleftrightarrow>
     distinct (map fst (ii_pending st)) \<and>
     inj_on (\<lambda>k. pc_out_idx (the (map_of (ii_pending st) k))) (dom (map_of (ii_pending st))) \<and>
     (\<forall>k p. map_of (ii_pending st) k = Some p \<longrightarrow> pc_out_idx p < length (ii_out st))"

definition waits :: "insn_recon \<Rightarrow> nat \<Rightarrow> task_key \<Rightarrow> pending_cond \<Rightarrow> bool" where
  "waits st i k p \<longleftrightarrow> map_of (ii_pending st) k = Some p \<and> pc_out_idx p = i"

definition decided_row :: "insn_recon \<Rightarrow> nat \<Rightarrow> bool" where
  "decided_row st i \<longleftrightarrow> (\<forall>k p. map_of (ii_pending st) k = Some p \<longrightarrow> pc_out_idx p \<noteq> i)"

definition judged :: "u64 option \<Rightarrow> pending_cond \<Rightarrow> instruction_record \<Rightarrow> instruction_record" where
  "judged v p row = row\<lparr>in_outcome := Some (judge_outcome v (pc_target p) (pc_fallthrough p))\<rparr>"

lemma pend_ok_unique:
  "pend_ok st \<Longrightarrow> map_of (ii_pending st) k = Some p \<Longrightarrow> map_of (ii_pending st) k' = Some p' \<Longrightarrow>
   pc_out_idx p = pc_out_idx p' \<Longrightarrow> k = k'"
  unfolding pend_ok_def inj_on_def by (metis domI option.sel)

lemma outcome_pending:
  "map_of (ii_pending (resolve_outcome k v st)) = (map_of (ii_pending st))(k := None)"
  by (auto simp: resolve_outcome_def Let_def AList.delete_conv' split: option.splits)

lemma resolve_out:
  assumes "pend_ok st" "i < length (ii_out st)"
  shows "ii_out (resolve_outcome k v st) ! i =
    (case map_of (ii_pending st) k of
       Some p \<Rightarrow> if pc_out_idx p = i then judged v p (ii_out st ! i) else ii_out st ! i
     | None \<Rightarrow> ii_out st ! i)"
  using assms by (auto simp: resolve_outcome_def Let_def judged_def split: option.splits)

lemma resolve_frame [simp]:
  "length (ii_out (resolve_outcome k v st)) = length (ii_out st)"
  "ii_pid_filter (resolve_outcome k v st) = ii_pid_filter st"
  "ii_seq (resolve_outcome k v st) = ii_seq st"
  by (auto simp: resolve_outcome_def Let_def split: option.splits)

lemma pend_ok_resolve: "pend_ok st \<Longrightarrow> pend_ok (resolve_outcome k v st)"
proof -
  assume ok: "pend_ok st"
  have "distinct (map fst (ii_pending (resolve_outcome k v st)))"
    using ok by (auto simp: resolve_outcome_def Let_def pend_ok_def distinct_delete split: option.splits)
  then show ?thesis
    using ok unfolding pend_ok_def outcome_pending by (auto simp: inj_on_def split: if_splits)
qed

lemma resolve_settled:
  "pend_ok st \<Longrightarrow> i < length (ii_out st) \<Longrightarrow> decided_row st i \<Longrightarrow>
   decided_row (resolve_outcome k v st) i \<and> ii_out (resolve_outcome k v st) ! i = ii_out st ! i"
  by (auto simp: decided_row_def outcome_pending resolve_out simp del: split_paired_All split: option.splits)

lemma resolve_other:
  "pend_ok st \<Longrightarrow> i < length (ii_out st) \<Longrightarrow> waits st i k p \<Longrightarrow> k \<noteq> k' \<Longrightarrow>
   waits (resolve_outcome k' v st) i k p \<and> ii_out (resolve_outcome k' v st) ! i = ii_out st ! i"
  using pend_ok_unique [of st k p k'] by (auto simp: waits_def outcome_pending resolve_out split: option.splits)

lemma resolve_own:
  "pend_ok st \<Longrightarrow> i < length (ii_out st) \<Longrightarrow> waits st i k p \<Longrightarrow>
   decided_row (resolve_outcome k v st) i \<and> ii_out (resolve_outcome k v st) ! i = judged v p (ii_out st ! i)"
  using pend_ok_unique [of st k p] by (auto simp: decided_row_def waits_def outcome_pending resolve_out)

lemma resolve_fold:
  assumes "pend_ok st" "i < length (ii_out st)"
  defines "st' \<equiv> \<lambda>ks. fold (\<lambda>k. resolve_outcome k None) ks st"
  shows "pend_ok (st' ks) \<and> length (ii_out (st' ks)) = length (ii_out st) \<and>
    ii_pid_filter (st' ks) = ii_pid_filter st \<and>
    (decided_row st i \<longrightarrow> decided_row (st' ks) i \<and> ii_out (st' ks) ! i = ii_out st ! i) \<and>
    (waits st i k p \<longrightarrow> k \<in> set ks \<longrightarrow>
       decided_row (st' ks) i \<and> ii_out (st' ks) ! i = judged None p (ii_out st ! i))"
  using assms(1,2) unfolding st'_def
proof (induction ks arbitrary: st)
  case (Cons c ks)
  let ?st = "resolve_outcome c None st"
  have "pend_ok ?st" "i < length (ii_out ?st)"
    using Cons.prems pend_ok_resolve by simp_all
  note IH = Cons.IH [OF this]
  have "decided_row ?st i \<and> ii_out ?st ! i = ii_out st ! i" if "decided_row st i"
    using resolve_settled [OF Cons.prems that] .
  moreover have "decided_row ?st i \<and> ii_out ?st ! i = judged None p (ii_out st ! i)" if "waits st i k p" "c = k"
    using resolve_own [OF Cons.prems that(1)] that(2) by simp
  moreover have "waits ?st i k p \<and> ii_out ?st ! i = ii_out st ! i" if "waits st i k p" "c \<noteq> k"
    using resolve_other [OF Cons.prems that(1), of c None] that(2) by auto
  ultimately show ?case
    using IH by (cases "c = k") auto
qed simp

section \<open>Records and runs\<close>

text \<open>The state after a record agrees with the state before on row \<open>i\<close> and on who waits for it.\<close>

definition same_branches :: "insn_recon \<Rightarrow> insn_recon \<Rightarrow> bool" where
  "same_branches st st' \<longleftrightarrow>
     ii_pending st' = ii_pending st \<and> ii_out st' = ii_out st \<and> ii_pid_filter st' = ii_pid_filter st"

lemma same_branches_same:
  assumes "same_branches st st'"
  shows "pend_ok st' = pend_ok st" "waits st' = waits st" "decided_row st' = decided_row st"
    "ii_out st' = ii_out st" "ii_pid_filter st' = ii_pid_filter st" "ii_pending st' = ii_pending st"
  using assms by (auto simp: same_branches_def pend_ok_def waits_def decided_row_def fun_eq_iff
      simp del: split_paired_All)

lemma symbolize_same: "same_branches st (snd (symbolize x pid ip st))"
  by (auto simp: symbolize_def same_branches_def innermost_inline_def Let_def
      split: option.splits prod.splits)

lemma insn_bytes_same: "same_branches st (snd (insn_bytes_at s ip st))"
  by (auto simp: insn_bytes_at_def same_branches_def Let_def split: option.splits prod.splits)

text \<open>A retained instruction: one new row, which waits exactly if it is a conditional branch.\<close>

lemma retain_insn_rows:
  assumes "retain_insn x s tid seq st = Inr st'"
  obtains row where "ii_out st' = ii_out st @ [row]" "in_outcome row = None"
    "ii_pid_filter st' = ii_pid_filter st"
    "ii_pending st' =
       (if in_kind row = InsnConditional
        then AList.update (s_pid s, s_tid s)
               \<lparr>pc_out_idx = length (ii_out st), pc_target = map_option address_val (in_branch_target row),
                pc_fallthrough = map_option address_val (in_fallthrough row)\<rparr> (ii_pending st)
        else ii_pending st)"
proof -
  obtain bytes st1 where b: "insn_bytes_at s (case s_ip s of None \<Rightarrow> 0 | Some a \<Rightarrow> a) st = (bytes, st1)"
    by (rule prod.exhaust)
  obtain sy st2 where y: "symbolize x (s_pid s) (case s_ip s of None \<Rightarrow> 0 | Some a \<Rightarrow> a) st1 = (sy, st2)"
    by (rule prod.exhaust)
  have "same_branches st st1" "same_branches st1 st2"
    using insn_bytes_same [of st s "case s_ip s of None \<Rightarrow> 0 | Some a \<Rightarrow> a"] b
      symbolize_same [of st1 x "s_pid s" "case s_ip s of None \<Rightarrow> 0 | Some a \<Rightarrow> a"] y by simp_all
  then have same: "ii_out st2 = ii_out st" "ii_pending st2 = ii_pending st"
    "ii_pid_filter st2 = ii_pid_filter st"
    by (simp_all add: same_branches_def)
  let ?d = "decode_one x (case s_ip s of None \<Rightarrow> 0 | Some a \<Rightarrow> a) bytes"
  show ?thesis
  proof (rule that [of "insn_row st2 s tid seq bytes ?d sy"])
    show "ii_out st' = ii_out st @ [insn_row st2 s tid seq bytes ?d sy]"
      "ii_pid_filter st' = ii_pid_filter st"
      using assms b y by (auto simp: retain_insn_def Let_def same split: if_splits)
    show "in_outcome (insn_row st2 s tid seq bytes ?d sy) = None"
      by (simp add: insn_row_def split: prod.splits)
    have "map_option address_val (map_option Address v) = v" for v
      by (cases v) simp_all
    then show "ii_pending st' =
       (if in_kind (insn_row st2 s tid seq bytes ?d sy) = InsnConditional
        then AList.update (s_pid s, s_tid s)
               \<lparr>pc_out_idx = length (ii_out st),
                pc_target = map_option address_val (in_branch_target (insn_row st2 s tid seq bytes ?d sy)),
                pc_fallthrough = map_option address_val (in_fallthrough (insn_row st2 s tid seq bytes ?d sy))\<rparr>
               (ii_pending st)
        else ii_pending st)"
      using assms b y by (auto simp: retain_insn_def insn_row_def Let_def same split: if_splits prod.splits)
  qed
qed

text \<open>An instruction sample first resolves the branch of its task, then may be retained.\<close>

lemma push_insn_sample_cases:
  assumes "push_insn_sample x s st = Inr st'"
  obtains st1 where
    "same_branches (resolve_outcome (s_pid s, s_tid s)
       (Some (case s_ip s of None \<Rightarrow> 0 | Some a \<Rightarrow> a)) st) st1"
    "st' = st1 \<or> (\<exists>tid seq. retain_insn x s tid seq st1 = Inr st')"
proof -
  have same: "same_branches (resolve_outcome k v st)
      (resolve_outcome k v (st\<lparr>ii_samples_seen := n, ii_seq := q\<rparr>)\<lparr>ii_thread_ids := g, ii_seq := q'\<rparr>)"
    "same_branches (resolve_outcome k v st)
      (resolve_outcome k v (st\<lparr>ii_samples_seen := n, ii_seq := q\<rparr>)\<lparr>ii_thread_ids := g\<rparr>)" for k v n q g q'
    by (auto simp: same_branches_def resolve_outcome_def Let_def split: option.splits)
  show ?thesis
    using assms unfolding push_insn_sample_def Let_def
    by (auto split: prod.splits if_splits intro: that [OF same(1)] that [OF same(2)])
qed

text \<open>A step under which the branches of the keys with a verdict are decided and row \<open>i\<close> is kept otherwise.\<close>

definition decides ::
    "(task_key \<Rightarrow> u64 option option) \<Rightarrow> nat \<Rightarrow> insn_recon \<Rightarrow> insn_recon \<Rightarrow> bool" where
  "decides v i st st' \<longleftrightarrow>
     pend_ok st' \<and> length (ii_out st) \<le> length (ii_out st') \<and> ii_pid_filter st' = ii_pid_filter st \<and>
     (decided_row st i \<longrightarrow> decided_row st' i \<and> ii_out st' ! i = ii_out st ! i) \<and>
     (\<forall>k p. waits st i k p \<longrightarrow>
        (case v k of
           None \<Rightarrow> waits st' i k p \<and> ii_out st' ! i = ii_out st ! i
         | Some n \<Rightarrow> decided_row st' i \<and> ii_out st' ! i = judged n p (ii_out st ! i)))"

lemma decides_same:
  assumes "same_branches st st'" "pend_ok st"
  shows "decides (\<lambda>_. None) i st st'"
  using assms by (simp add: decides_def same_branches_same [OF assms(1)])

lemma decides_from:
  assumes "same_branches st st1" "decides v i st1 st2"
  shows "decides v i st st2"
  using assms(2) unfolding decides_def by (simp add: same_branches_same [OF assms(1)] del: split_paired_All cong: option.case_cong)

lemma decides_resolve:
  assumes "pend_ok st" "i < length (ii_out st)"
  shows "decides (\<lambda>k'. if k' = k then Some n else None) i st (resolve_outcome k n st)"
  using pend_ok_resolve [OF assms(1)] resolve_settled [OF assms] resolve_own [OF assms]
    resolve_other [OF assms]
  unfolding decides_def by (simp add: eq_commute [of _ k] del: split_paired_All)

lemma decides_all:
  assumes "pend_ok st" "i < length (ii_out st)"
  shows "decides (\<lambda>_. Some None) i st (resolve_all st)"
proof -
  have "k \<in> set (map fst (ii_pending st))" if "waits st i k p" for k p
    using that by (auto simp: waits_def simp flip: dom_map_of_conv_image_fst)
  then show ?thesis
    using resolve_fold [OF assms, of "map fst (ii_pending st)"]
    unfolding decides_def resolve_all_def by (simp del: split_paired_All set_map)
qed

lemma decides_then:
  assumes "decides v i st st1" "decides (\<lambda>_. None) i st1 st2"
  shows "decides v i st st2"
  unfolding decides_def
proof (intro conjI allI impI)
  fix k p
  assume "waits st i k p"
  then show "case v k of
      None \<Rightarrow> waits st2 i k p \<and> ii_out st2 ! i = ii_out st ! i
    | Some n \<Rightarrow> decided_row st2 i \<and> ii_out st2 ! i = judged n p (ii_out st ! i)"
    using assms unfolding decides_def by (cases "v k") (force simp del: split_paired_All)+
qed (use assms in \<open>auto simp: decides_def\<close>)

lemma pend_ok_retain:
  assumes "retain_insn x s tid seq st = Inr st'" "pend_ok st"
  shows "pend_ok st'"
proof -
  let ?key = "(s_pid s, s_tid s)"
  obtain row where row: "ii_out st' = ii_out st @ [row]" "ii_pid_filter st' = ii_pid_filter st"
    and pend: "ii_pending st' =
       (if in_kind row = InsnConditional
        then AList.update ?key
               \<lparr>pc_out_idx = length (ii_out st), pc_target = map_option address_val (in_branch_target row),
                pc_fallthrough = map_option address_val (in_fallthrough row)\<rparr> (ii_pending st)
        else ii_pending st)"
    using retain_insn_rows [OF assms(1)] by metis
  have old: "distinct (map fst (ii_pending st))"
    "inj_on (\<lambda>k. pc_out_idx (the (map_of (ii_pending st) k))) (dom (map_of (ii_pending st)))"
    "\<And>k p. map_of (ii_pending st) k = Some p \<Longrightarrow> pc_out_idx p < length (ii_out st)"
    using assms(2) by (auto simp: pend_ok_def simp del: split_paired_All)
  have "distinct (map fst (ii_pending st'))"
    using old(1) by (simp add: pend distinct_update)
  moreover have came: "map_of (ii_pending st) k = Some p \<or> k = ?key \<and> pc_out_idx p = length (ii_out st)"
    if "map_of (ii_pending st') k = Some p" for k p
    using that by (auto simp: pend update_conv' split: if_splits)
  moreover have "pc_out_idx p < length (ii_out st')" if "map_of (ii_pending st') k = Some p" for k p
    using came [OF that] old(3) [of k p] by (auto simp: row(1))
  moreover have "k = k'" if "map_of (ii_pending st') k = Some p" "map_of (ii_pending st') k' = Some p'"
      "pc_out_idx p = pc_out_idx p'" for k k' p p'
    using came [OF that(1)] came [OF that(2)] old(3) [of k p] old(3) [of k' p'] that(3)
      pend_ok_unique [OF assms(2), of k p k' p'] by (metis less_irrefl)
  ultimately show "pend_ok st'"
    unfolding pend_ok_def inj_on_def by (auto simp del: split_paired_All)
qed

lemma decides_retain:
  assumes "retain_insn x s tid seq st = Inr st'" "pend_ok st" "i < length (ii_out st)"
    and "map_of (ii_pending st) (s_pid s, s_tid s) = None"
  shows "decides (\<lambda>_. None) i st st'"
  using assms(1)
proof (cases rule: retain_insn_rows)
  case (1 row)
  have "ii_out st' ! i = ii_out st ! i" "length (ii_out st) \<le> length (ii_out st')"
    using assms(3) by (simp_all add: 1 nth_append)
  moreover have "decided_row st' i" if "decided_row st i"
    using that assms(3) unfolding decided_row_def 1 by (simp add: update_conv' del: split_paired_All)
  moreover have "waits st' i k p" if "waits st i k p" for k p
    using that assms(4) by (auto simp: waits_def 1 update_conv')
  ultimately show ?thesis
    using 1(3) pend_ok_retain [OF assms(1,2)] unfolding decides_def by (simp del: split_paired_All)
qed

lemma decides_dispatch:
  assumes "insn_dispatch x r st = Inr st'" "pend_ok st" "i < length (ii_out st)"
  shows "decides (\<lambda>k. verdict_of k r) i st st'"
proof (cases r)
  case (RSample s)
  let ?ip = "case s_ip s of None \<Rightarrow> 0 | Some a \<Rightarrow> a"
  let ?key = "(s_pid s, s_tid s)"
  show ?thesis
  proof (cases "is_instruction (s_event s)")
    case True
    then have "push_insn_sample x s st = Inr st'"
      using assms(1) RSample by (simp add: insn_dispatch_def)
    then obtain st1 where st1: "same_branches (resolve_outcome ?key (Some ?ip) st) st1"
      and st': "st' = st1 \<or> (\<exists>tid seq. retain_insn x s tid seq st1 = Inr st')"
      by (rule push_insn_sample_cases)
    have ok: "pend_ok (resolve_outcome ?key (Some ?ip) st)"
      by (rule pend_ok_resolve) (rule assms)
    have v: "(\<lambda>k. verdict_of k r) = (\<lambda>k'. if k' = ?key then Some (Some ?ip) else None)"
      using True by (simp add: fun_eq_iff verdict_of_def RSample eq_commute [of "(_, _)" ?key])
    have d1: "decides (\<lambda>k. verdict_of k r) i st st1"
      unfolding v by (rule decides_then [OF decides_resolve decides_same]) (use assms st1 ok in auto)
    have "decides (\<lambda>_. None) i st1 st'" if "retain_insn x s tid seq st1 = Inr st'" for tid seq
      using that assms(3) ok by (intro decides_retain [OF that])
        (simp_all add: same_branches_same [OF st1] outcome_pending)
    then show ?thesis
      using st' d1 decides_then by blast
  next
    case False
    then show ?thesis
      using assms decides_same [of st st i]
      by (simp add: insn_dispatch_def verdict_of_def RSample same_branches_def)
  qed
next
  case (RDecoderError e)
  let ?st = "st\<lparr>ii_decoder_errors := ii_decoder_errors st + 1\<rparr>"
  have same: "same_branches st ?st"
    by (simp add: same_branches_def)
  have ok: "pend_ok ?st" "i < length (ii_out ?st)"
    using assms(2,3) by (simp_all add: pend_ok_def)
  show ?thesis
  proof (cases "\<exists>p t. de_pid e = Some p \<and> de_tid e = Some t")
    case True
    then obtain p t where pt: "de_pid e = Some p" "de_tid e = Some t"
      by blast
    have v: "(\<lambda>k. verdict_of k r) = (\<lambda>k'. if k' = (p, t) then Some None else None)"
      by (simp add: fun_eq_iff verdict_of_def RDecoderError pt eq_commute [of "(_, _)" "(p, t)"])
    have "same_branches (resolve_outcome (p, t) None ?st) st'"
      using assms(1) by (auto simp: insn_dispatch_def RDecoderError push_insn_error_def pt Let_def
          same_branches_def split: option.splits)
    then have "decides (\<lambda>k. verdict_of k r) i ?st st'"
      unfolding v by (intro decides_then [OF decides_resolve [OF ok] decides_same] pend_ok_resolve ok)
    then show ?thesis
      by (rule decides_from [OF same])
  next
    case False
    then have none: "de_pid e = None \<or> de_tid e = None"
      by auto
    have v: "(\<lambda>k. verdict_of k r) = (\<lambda>_. Some None)"
      using none by (auto simp: fun_eq_iff verdict_of_def RDecoderError split: option.splits)
    have "same_branches (resolve_all ?st) st'"
      using assms(1) none by (auto simp: insn_dispatch_def RDecoderError push_insn_error_def Let_def
          same_branches_def split: option.splits)
    moreover have all: "decides (\<lambda>_. Some None) i ?st (resolve_all ?st)"
      by (rule decides_all [OF ok])
    moreover have "pend_ok (resolve_all ?st)"
      using all by (simp add: decides_def)
    ultimately have "decides (\<lambda>k. verdict_of k r) i ?st st'"
      unfolding v by (intro decides_then [OF all decides_same])
    then show ?thesis
      by (rule decides_from [OF same])
  qed
qed (use assms in \<open>auto simp: insn_dispatch_def verdict_of_def push_insn_mmap_def same_branches_def
  intro!: decides_same\<close>)

lemma insn_push_cases:
  assumes "insn_push x r st = Inr st'"
  obtains (dropped) "ii_out st' = ii_out st" "ii_pending st' = ii_pending st"
      "\<And>rs. passed_records (ii_pid_filter st) (r # rs) = passed_records (ii_pid_filter st') rs"
  | (kept) st1 where "ii_out st1 = ii_out st" "ii_pending st1 = ii_pending st" "insn_dispatch x r st1 = Inr st'"
      "\<And>rs. passed_records (ii_pid_filter st) (r # rs) = r # passed_records (ii_pid_filter st1) rs"
proof (cases "ii_pid_filter st")
  case None
  then show ?thesis
    using assms kept(1) [of st] by (simp add: insn_push_def)
next
  case (Some f)
  then show ?thesis
    using assms dropped kept(1) [of "st\<lparr>ii_pid_filter := Some (observe r f)\<rparr>"]
    by (auto simp: insn_push_def Let_def split: if_splits)
qed

lemma same_rows_same:
  assumes "ii_out st' = ii_out st" "ii_pending st' = ii_pending st"
  shows "pend_ok st' = pend_ok st" "waits st' = waits st" "decided_row st' = decided_row st"
  using assms by (auto simp: pend_ok_def waits_def decided_row_def fun_eq_iff simp del: split_paired_All)

lemma push_decides:
  assumes "insn_push x r st = Inr st'" "pend_ok st" "i < length (ii_out st)"
  shows "pend_ok st'" "i < length (ii_out st')"
    and "decided_row st i \<Longrightarrow> decided_row st' i \<and> ii_out st' ! i = ii_out st ! i"
    and "waits st i k p \<Longrightarrow>
      (\<exists>v. (\<forall>rs. next_ip k (passed_records (ii_pid_filter st) (r # rs)) = v) \<and>
           decided_row st' i \<and> ii_out st' ! i = judged v p (ii_out st ! i)) \<or>
      (\<forall>rs. next_ip k (passed_records (ii_pid_filter st) (r # rs)) =
             next_ip k (passed_records (ii_pid_filter st') rs)) \<and>
      waits st' i k p \<and> ii_out st' ! i = ii_out st ! i"
proof -
  have "pend_ok st' \<and> i < length (ii_out st') \<and>
    (decided_row st i \<longrightarrow> decided_row st' i \<and> ii_out st' ! i = ii_out st ! i) \<and>
    (waits st i k p \<longrightarrow>
      (\<exists>v. (\<forall>rs. next_ip k (passed_records (ii_pid_filter st) (r # rs)) = v) \<and>
           decided_row st' i \<and> ii_out st' ! i = judged v p (ii_out st ! i)) \<or>
      (\<forall>rs. next_ip k (passed_records (ii_pid_filter st) (r # rs)) =
             next_ip k (passed_records (ii_pid_filter st') rs)) \<and>
      waits st' i k p \<and> ii_out st' ! i = ii_out st ! i)"
    using assms(1)
  proof (cases rule: insn_push_cases)
    case dropped
    then show ?thesis
      using assms(2,3) same_rows_same [OF dropped(1,2)] by simp
  next
    case (kept st1)
    have "pend_ok st1" "i < length (ii_out st1)"
      using assms(2,3) same_rows_same [OF kept(1,2)] kept(1) by simp_all
    note d = decides_dispatch [OF kept(3) this, unfolded decides_def same_rows_same [OF kept(1,2)] kept(1)]
    have keys: "ii_pid_filter st' = ii_pid_filter st1"
      using d by blast
    have "case verdict_of k r of None \<Rightarrow> waits st' i k p \<and> ii_out st' ! i = ii_out st ! i
      | Some n \<Rightarrow> decided_row st' i \<and> ii_out st' ! i = judged n p (ii_out st ! i)" if "waits st i k p"
      using d that by blast
    then show ?thesis
      using d assms(3) by (cases "verdict_of k r") (simp_all add: kept(4) keys del: split_paired_All)
  qed
  then show "pend_ok st'" "i < length (ii_out st')"
    "decided_row st i \<Longrightarrow> decided_row st' i \<and> ii_out st' ! i = ii_out st ! i"
    "waits st i k p \<Longrightarrow>
      (\<exists>v. (\<forall>rs. next_ip k (passed_records (ii_pid_filter st) (r # rs)) = v) \<and>
           decided_row st' i \<and> ii_out st' ! i = judged v p (ii_out st ! i)) \<or>
      (\<forall>rs. next_ip k (passed_records (ii_pid_filter st) (r # rs)) =
             next_ip k (passed_records (ii_pid_filter st') rs)) \<and>
      waits st' i k p \<and> ii_out st' ! i = ii_out st ! i"
    by blast+
qed

lemma resolve_all_rows:
  assumes "pend_ok st" "i < length (ii_out st)"
  shows "decided_row st i \<Longrightarrow> ii_out (resolve_all st) ! i = ii_out st ! i"
    and "waits st i k p \<Longrightarrow> ii_out (resolve_all st) ! i = judged None p (ii_out st ! i)"
  using decides_all [OF assms] unfolding decides_def by (auto simp del: split_paired_All)

lemma run_settled:
  assumes "fold_try (insn_push x) rs st = Inr st'" "pend_ok st" "i < length (ii_out st)" "decided_row st i"
  shows "ii_out (resolve_all st') ! i = ii_out st ! i"
  using assms
proof (induction rs arbitrary: st)
  case Nil
  then show ?case by (simp add: resolve_all_rows(1))
next
  case (Cons r rs)
  then obtain st1 where st1: "insn_push x r st = Inr st1" "fold_try (insn_push x) rs st1 = Inr st'"
    by (auto split: sum.splits)
  show ?case
    using Cons.IH [OF st1(2)] push_decides(1-3) [OF st1(1) Cons.prems(2,3)] Cons.prems(4) by simp
qed

lemma run_waits:
  assumes "fold_try (insn_push x) rs st = Inr st'" "pend_ok st" "i < length (ii_out st)" "waits st i k p"
  shows "ii_out (resolve_all st') ! i =
    judged (next_ip k (passed_records (ii_pid_filter st) rs)) p (ii_out st ! i)"
  using assms
proof (induction rs arbitrary: st)
  case Nil
  then show ?case
    by (cases "ii_pid_filter st") (simp_all add: resolve_all_rows(2))
next
  case (Cons r rs)
  then obtain st1 where st1: "insn_push x r st = Inr st1" "fold_try (insn_push x) rs st1 = Inr st'"
    by (auto split: sum.splits)
  note step = push_decides [OF st1(1) Cons.prems(2,3)]
  show ?case
    using step(4) [OF Cons.prems(4)] Cons.IH [OF st1(2) step(1,2)] run_settled [OF st1(2) step(1,2)] by force
qed

lemma pend_ok_resolve_all: "pend_ok st \<Longrightarrow> pend_ok (resolve_all st)"
proof -
  have "pend_ok st \<Longrightarrow> pend_ok (fold (\<lambda>k. resolve_outcome k None) ks st)" for ks
    by (induction ks arbitrary: st) (simp_all add: pend_ok_resolve)
  then show "pend_ok st \<Longrightarrow> pend_ok (resolve_all st)"
    by (simp add: resolve_all_def)
qed

lemma pend_ok_sample:
  assumes "push_insn_sample x s st = Inr st'" "pend_ok st"
  shows "pend_ok st'"
  using assms(1)
proof (cases rule: push_insn_sample_cases)
  case (1 st1)
  then show ?thesis
    using pend_ok_resolve [OF assms(2)] pend_ok_retain same_branches_same(1) [OF 1(1)] by auto
qed

lemma pend_ok_error: "pend_ok st \<Longrightarrow> pend_ok (push_insn_error e st)"
proof -
  assume ok: "pend_ok st"
  let ?st = "st\<lparr>ii_decoder_errors := ii_decoder_errors st + 1\<rparr>"
  have "pend_ok ?st"
    using ok by (simp add: pend_ok_def)
  moreover have "\<exists>k. same_branches (resolve_outcome k None ?st) (push_insn_error e st) \<or>
      same_branches (resolve_all ?st) (push_insn_error e st)"
    by (auto simp: push_insn_error_def Let_def same_branches_def split: option.splits)
  ultimately show ?thesis
    using pend_ok_resolve pend_ok_resolve_all same_branches_same(1) by blast
qed

lemma pend_ok_push:
  assumes "insn_push x r st = Inr st'" "pend_ok st"
  shows "pend_ok st'"
  using assms(1)
proof (cases rule: insn_push_cases)
  case dropped
  then show ?thesis
    using assms(2) same_rows_same(1) by blast
next
  case (kept st1)
  then have "pend_ok st1"
    using assms(2) same_rows_same(1) by blast
  then show ?thesis
    using kept(3) pend_ok_sample [of x _ st1 st'] pend_ok_error [of st1]
    by (auto simp: insn_dispatch_def push_insn_mmap_def pend_ok_def split: raw_record.splits if_splits)
qed

lemma pend_ok_run: "fold_try (insn_push x) rs st = Inr st' \<Longrightarrow> pend_ok st \<Longrightarrow> pend_ok st'"
  by (rule fold_try_invariant [of rs pend_ok]) (auto intro: pend_ok_push)

lemma new_row:
  assumes "insn_push x (RSample s) st = Inr st'" "pend_ok st" "length (ii_out st') = Suc (length (ii_out st))"
  defines "row \<equiv> ii_out st' ! length (ii_out st)"
  shows "in_outcome row = None"
    and "in_kind row \<noteq> InsnConditional \<Longrightarrow> decided_row st' (length (ii_out st))"
    and "in_kind row = InsnConditional \<Longrightarrow> waits st' (length (ii_out st)) (s_pid s, s_tid s)
      \<lparr>pc_out_idx = length (ii_out st), pc_target = map_option address_val (in_branch_target row),
       pc_fallthrough = map_option address_val (in_fallthrough row)\<rparr>"
proof -
  from assms(1) obtain st1 where st1: "ii_out st1 = ii_out st" "ii_pending st1 = ii_pending st"
    "insn_dispatch x (RSample s) st1 = Inr st'"
    by (cases rule: insn_push_cases) (use assms(3) in auto)
  then have "push_insn_sample x s st1 = Inr st'"
    using assms(3) by (auto simp: insn_dispatch_def split: if_splits)
  then obtain st2 tid seq where st2: "same_branches (resolve_outcome (s_pid s, s_tid s)
       (Some (case s_ip s of None \<Rightarrow> 0 | Some a \<Rightarrow> a)) st1) st2" "retain_insn x s tid seq st2 = Inr st'"
    by (cases rule: push_insn_sample_cases) (use assms(3) st1(1) same_branches_same(4) in fastforce)
  have len: "length (ii_out st2) = length (ii_out st)"
    using same_branches_same(4) [OF st2(1)] st1(1) by simp
  have "pend_ok st2"
    using same_branches_same(1) [OF st2(1)] pend_ok_resolve same_rows_same(1) [OF st1(1,2)] assms(2) by blast
  then have old: "map_of (ii_pending st2) k = Some p \<Longrightarrow> pc_out_idx p \<noteq> length (ii_out st)" for k p
    using len unfolding pend_ok_def by (metis less_irrefl)
  from st2(2) show "in_outcome row = None"
    "in_kind row \<noteq> InsnConditional \<Longrightarrow> decided_row st' (length (ii_out st))"
    "in_kind row = InsnConditional \<Longrightarrow> waits st' (length (ii_out st)) (s_pid s, s_tid s)
      \<lparr>pc_out_idx = length (ii_out st), pc_target = map_option address_val (in_branch_target row),
       pc_fallthrough = map_option address_val (in_fallthrough row)\<rparr>"
    by (cases rule: retain_insn_rows; use old in \<open>simp add: row_def len [symmetric] decided_row_def waits_def
          update_conv' del: split_paired_All\<close>)+
qed

lemma filter_dispatch:
  assumes "insn_dispatch x r st = Inr st'"
  shows "ii_pid_filter st' = ii_pid_filter st"
proof (cases r)
  case (RSample s)
  show ?thesis
  proof (cases "is_instruction (s_event s)")
    case True
    then have "push_insn_sample x s st = Inr st'"
      using assms by (simp add: insn_dispatch_def RSample)
    then show ?thesis
    proof (cases rule: push_insn_sample_cases)
      case (1 st1)
      have "ii_pid_filter st' = ii_pid_filter st1"
        using 1(2) retain_insn_rows [of x s _ _ st1 st'] by metis
      then show ?thesis
        using same_branches_same(5) [OF 1(1)] by simp
    qed
  qed (use assms in \<open>simp add: insn_dispatch_def RSample\<close>)
next
  case (RDecoderError e)
  have "ii_pid_filter (fold (\<lambda>k. resolve_outcome k None) ks s) = ii_pid_filter s" for ks s
    by (induction ks arbitrary: s) simp_all
  then have "ii_pid_filter (push_insn_error e st) = ii_pid_filter st"
    by (simp add: push_insn_error_def resolve_all_def Let_def split: option.splits)
  then show ?thesis
    using assms by (auto simp: insn_dispatch_def RDecoderError)
qed (use assms in \<open>auto simp: insn_dispatch_def push_insn_mmap_def\<close>)

lemma filter_run:
  "fold_try (insn_push x) rs st = Inr st' \<Longrightarrow> ii_pid_filter st = Some f \<Longrightarrow>
   ii_pid_filter st' = Some (fold observe rs f)"
proof (induction rs arbitrary: st f)
  case (Cons r rs)
  then obtain st1 where st1: "insn_push x r st = Inr st1" "fold_try (insn_push x) rs st1 = Inr st'"
    by (auto split: sum.splits)
  have "ii_pid_filter st1 = Some (observe r f)"
    using st1(1) Cons.prems(2) filter_dispatch
    by (fastforce simp: insn_push_def Let_def split: if_splits)
  then show ?case
    using Cons.IH [OF st1(2)] by simp
qed simp

section \<open>The outcome of a branch\<close>

text \<open>
  C31: The row of a retained instruction is final but for the outcome of a conditional branch, and
  that outcome is decided by what follows in the stream: the first later record that passes the process filter and is an
  instruction of the same task or a decoder error that touches the task. The address of the
  instruction is compared with the target and the fall-through address; an error, the end of the
  stream, an address that is neither, or a target equal to the fall-through give an unknown outcome.
\<close>

theorem conditional_outcome:
  assumes start: "st0 = insn_with_pid_filter f (insn_with_budget b
      (insn_recon_new aid origin images index mappings sel))"
    and pre: "fold_try (insn_push x) pre st0 = Inr st1"
    and push: "insn_push x (RSample s) st1 = Inr st2"
    and retained: "length (ii_out st2) = Suc (length (ii_out st1))"
    and post: "fold_try (insn_push x) post st2 = Inr st3"
  defines "row \<equiv> ii_out st2 ! length (ii_out st1)"
    and "follower \<equiv> next_ip (s_pid s, s_tid s) (passed_records (Some (fold observe pre f)) post)"
  shows "ni_instructions (insn_finish st3) ! length (ii_out st1) =
    row\<lparr>in_outcome := (if in_kind row = InsnConditional
      then Some (judge_outcome follower (map_option address_val (in_branch_target row))
                   (map_option address_val (in_fallthrough row)))
      else None)\<rparr>"
proof -
  have "pend_ok st0"
    by (simp add: start insn_with_pid_filter_def insn_with_budget_def insn_recon_new_def pend_ok_def Let_def)
  then have ok: "pend_ok st1" "pend_ok st2"
    using pend_ok_run [OF pre] pend_ok_push [OF push] by simp_all
  have "ii_pid_filter st1 = Some (fold observe pre f)"
    using filter_run [OF pre] by (simp add: start insn_with_pid_filter_def)
  then have filt: "ii_pid_filter st2 = Some (fold observe pre f)"
    using filter_run [of x "[RSample s]" st1 st2] push by (simp add: observe_def)
  have fin: "ni_instructions (insn_finish st3) = ii_out (resolve_all st3)"
    by (simp add: insn_finish_def Let_def)
  have i: "length (ii_out st1) < length (ii_out st2)"
    using retained by simp
  note row = new_row [OF push ok(1) retained, folded row_def]
  show ?thesis
  proof (cases "in_kind row = InsnConditional")
    case True
    then show ?thesis
      unfolding fin run_waits [OF post ok(2) i row(3) [OF True]] filt follower_def [symmetric]
      by (simp add: judged_def row_def)
  next
    case False
    then show ?thesis
      unfolding fin run_settled [OF post ok(2) i row(2) [OF False]] using row(1) by (simp add: row_def)
  qed
qed

section \<open>A run\<close>

definition jcc_env :: insn_env where
  "jcc_env = \<lparr>ie_decode = (\<lambda>_ ip. (2, FcConditionalBranch, ip + 14)), ie_loader = (\<lambda>_. None),
              ie_fixed6 = (\<lambda>_ _. [])\<rparr>"

definition jcc_sample :: "u64 \<Rightarrow> sample" where
  "jcc_sample ip =
     \<lparr>s_pid = 7, s_tid = 7, s_cpu = None, s_time = Some 5, s_event = InstructionsEvent, s_ip = Some ip,
      s_addr = None, s_flags = 0, s_insn_len = Some 2, s_insn = [117, 12]\<rparr>"

definition jcc_origin :: clock_origin where
  "jcc_origin = \<lparr>abs_perf_time = ''0'', relative_zero_ns = 0\<rparr>"

definition jcc_start :: insn_recon where
  "jcc_start = insn_with_pid_filter (with_root 7) (insn_with_budget 1000
     (insn_recon_new ''a'' jcc_origin [] [] [] None))"

definition jcc_exit :: raw_record where
  "jcc_exit = RTask \<lparr>t_kind = TExit, t_pid = 7, t_tid = 7, t_ppid = None, t_ptid = None,
                    t_time = Some 6, t_comm = None\<rparr>"

lemmas jcc_eval = insn_push_def insn_dispatch_def push_insn_sample_def retain_insn_def jcc_env_def
  jcc_sample_def jcc_exit_def observe_def observe_task_def forks_def announces_perf_exec_def
  insn_dropped_def is_live_thread_def is_live_def resolve_outcome_def is_instruction_def
  thread_ids_default_def take_exited_def thread_ids_observe_def sample_selected_def insn_bytes_at_def
  decode_one_def symbolize_def mapping_for_def insn_row_def checked_add64_def u64_max_def Let_def

lemma jcc_start_eq:
  "jcc_start =
     \<lparr>ii_analysis_id = ''a'', ii_origin = jcc_origin, ii_origin_abs = 0, ii_images = [], ii_index = [],
      ii_mappings = [], ii_sel_thread = None, ii_sel_abs = (None, None), ii_out = [],
      ii_seq = Map.empty, ii_pending = [], ii_sym_cache = Map.empty, ii_loaders = [],
      ii_thread_ids = thread_ids_default, ii_next_id = 0, ii_decoder_errors = 0, ii_missing = 0,
      ii_samples_seen = 0, ii_budget = 1000, ii_pid_filter = Some (with_root 7)\<rparr>"
  by (simp add: jcc_start_def insn_with_pid_filter_def insn_with_budget_def insn_recon_new_def
      jcc_origin_def parse_uint_def digits_val.simps digit_val_def Let_def)

lemma jcc_live: "is_live_thread (with_root 7) 7 7"
  by (simp add: with_root_def tracker_empty_def is_live_thread_def is_live_def)

lemma jcc_ids: "s_pid (jcc_sample ip) = 7" "s_tid (jcc_sample ip) = 7"
  by (simp_all add: jcc_sample_def)

lemma jcc_first:
  "\<exists>st2. insn_push jcc_env (RSample (jcc_sample 16)) jcc_start = Inr st2 \<and> length (ii_out st2) = 1 \<and>
     in_kind (ii_out st2 ! 0) = InsnConditional \<and> in_branch_target (ii_out st2 ! 0) = Some (Address 30) \<and>
     in_fallthrough (ii_out st2 ! 0) = Some (Address 18)"
  unfolding jcc_start_eq by (simp add: jcc_eval with_root_def tracker_empty_def)

lemma jcc_second:
  assumes "insn_push jcc_env (RSample (jcc_sample 16)) jcc_start = Inr st2"
  shows "\<exists>st3. insn_push jcc_env (RSample (jcc_sample 30)) st2 = Inr st3"
  using assms unfolding jcc_start_eq by (auto simp add: jcc_eval with_root_def tracker_empty_def)

lemma conditional_outcome_witness:
  "\<exists>st3. fold_try (insn_push jcc_env) [RSample (jcc_sample 16), RSample (jcc_sample 30)]
       (insn_with_pid_filter (with_root 7) (insn_with_budget 1000
          (insn_recon_new ''a'' jcc_origin [] [] [] None))) = Inr st3 \<and>
     in_outcome (ni_instructions (insn_finish st3) ! 0) = Some Taken"
proof -
  obtain st2 where st2: "insn_push jcc_env (RSample (jcc_sample 16)) jcc_start = Inr st2"
    "length (ii_out st2) = 1" "in_kind (ii_out st2 ! 0) = InsnConditional"
    "in_branch_target (ii_out st2 ! 0) = Some (Address 30)"
    "in_fallthrough (ii_out st2 ! 0) = Some (Address 18)"
    using jcc_first by blast
  obtain st3 where st3: "insn_push jcc_env (RSample (jcc_sample 30)) st2 = Inr st3"
    using jcc_second [OF st2(1)] by blast
  have none: "ii_out jcc_start = []"
    by (simp add: jcc_start_eq)
  have next30: "next_ip (7, 7) (passed_records (Some (with_root 7)) [RSample (jcc_sample 30)]) = Some 30"
    using jcc_live by (simp add: observe_def insn_dropped_def verdict_of_def jcc_sample_def is_instruction_def)
  have "in_outcome (ni_instructions (insn_finish st3) ! length (ii_out jcc_start)) =
      Some (judge_outcome (Some 30) (Some 30) (Some 18))"
    by (subst conditional_outcome [of jcc_start "with_root 7" 1000 "''a''" jcc_origin "[]" "[]" "[]" None
          jcc_env "[]" jcc_start "jcc_sample 16" st2 "[RSample (jcc_sample 30)]" st3])
      (simp_all add: jcc_start_def [symmetric] st2 st3 none next30 jcc_ids del: passed_records.simps next_ip.simps)
  then show ?thesis
    using st2(1) st3 unfolding jcc_start_def [symmetric] none by (simp add: judge_outcome_def)
qed

text \<open>
  The outcome belongs to the task, not to the thread: a thread that ends on a conditional branch is
  given the outcome that the first instruction of the next thread with the same ids happens to fit.
\<close>

lemma reused_tid_resolves_branch:
  "\<exists>st. fold_try (insn_push jcc_env) [RSample (jcc_sample 16), jcc_exit, RSample (jcc_sample 30)] jcc_start = Inr st \<and>
     map (\<lambda>r. (in_thread r, in_outcome r)) (ni_instructions (insn_finish st)) =
       [(''t_7'', Some Taken), (''t_7_g1'', Some UnknownOutcome)]"
  unfolding jcc_start_eq
  by (simp add: jcc_eval with_root_def tracker_empty_def thread_ids_id_def insn_finish_def resolve_all_def
      judge_outcome_def show_base_def digits_of.simps digit_char_def char_of_def bit_0)

end
