(* ===== verification/Branch_Sites.thy ===== *)
theory Branch_Sites
  imports Instruction_Props
begin

text \<open>
  The aggregation of branch rows into sites accounts for every row: counts, targets and order.
\<close>

lemma map_of_entry_update:
  "map_of (entry_update k d f m) k' =
     (if k' = k then Some (f (case map_of m k of None \<Rightarrow> d | Some v \<Rightarrow> v)) else map_of m k')"
  by (induction k d f m rule: entry_update.induct) auto

definition acc_at :: "u64 \<Rightarrow> (u64 \<times> site_acc) list \<Rightarrow> site_acc" where
  "acc_at ip m = (case map_of m ip of None \<Rightarrow> site_default | Some a \<Rightarrow> a)"

text \<open>The rows of a conditional branch at an address, and the rows of an indirect branch there with
  the instruction that follows on the same thread without a gap.\<close>

definition cond_rows :: "u64 \<Rightarrow> instruction_record list \<Rightarrow> instruction_record list" where
  "cond_rows ip insns =
     filter (\<lambda>r. in_kind r = InsnConditional \<and> address_val (in_virt_ip r) = ip) insns"

definition indirect_pairs ::
    "u64 \<Rightarrow> instruction_record list \<Rightarrow> (instruction_record \<times> instruction_record) list" where
  "indirect_pairs ip insns =
     filter (\<lambda>(r, n). (in_kind r = IndirectCall \<or> in_kind r = IndirectJump) \<and>
               address_val (in_virt_ip r) = ip \<and> in_thread n = in_thread r \<and>
               in_sequence n = in_sequence r + 1)
       (zip insns (tl insns))"

definition outcome_count :: "(branch_outcome option \<Rightarrow> bool) \<Rightarrow> u64 \<Rightarrow> instruction_record list \<Rightarrow> nat" where
  "outcome_count P ip insns = length (filter (\<lambda>r. P (in_outcome r)) (cond_rows ip insns))"

abbreviation undecided :: "branch_outcome option \<Rightarrow> bool" where
  "undecided v \<equiv> v \<noteq> Some Taken \<and> v \<noteq> Some NotTaken"

lemma acc_at_entry:
  "acc_at ip (entry_update k site_default f m) = (if ip = k then f (acc_at ip m) else acc_at ip m)"
  by (simp add: acc_at_def map_of_entry_update)

lemma count_outcome_sel:
  "sa_taken (count_outcome r a) = sa_taken a + (if in_outcome r = Some Taken then 1 else 0)"
  "sa_not_taken (count_outcome r a) = sa_not_taken a + (if in_outcome r = Some NotTaken then 1 else 0)"
  "sa_unknown (count_outcome r a) = sa_unknown a + (if undecided (in_outcome r) then 1 else 0)"
  "sa_targets (count_outcome r a) = sa_targets a"
  by (auto simp: count_outcome_def Let_def split: option.splits branch_outcome.splits)

lemma add_target_sel:
  "sa_taken (add_target r n a) = sa_taken a" "sa_not_taken (add_target r n a) = sa_not_taken a"
  "sa_unknown (add_target r n a) = sa_unknown a"
  "set (sa_targets (add_target r n a)) = insert (address_val (in_virt_ip n)) (set (sa_targets a))"
  "distinct (sa_targets a) \<Longrightarrow> distinct (sa_targets (add_target r n a))"
  by (auto simp: add_target_def Let_def)

definition pair_at ::
    "u64 \<Rightarrow> instruction_record \<Rightarrow> instruction_record list \<Rightarrow>
     (instruction_record \<times> instruction_record) list" where
  "pair_at ip r rs =
     (case rs of
        n # _ \<Rightarrow> if (in_kind r = IndirectCall \<or> in_kind r = IndirectJump) \<and>
                   address_val (in_virt_ip r) = ip \<and> in_thread n = in_thread r \<and>
                   in_sequence n = in_sequence r + 1 then [(r, n)] else []
      | [] \<Rightarrow> [])"

lemma indirect_pairs_Cons: "indirect_pairs ip (r # rs) = pair_at ip r rs @ indirect_pairs ip rs"
  by (auto simp: indirect_pairs_def pair_at_def split: list.splits)

lemma cond_rows_Cons:
  "cond_rows ip (r # rs) =
     (if in_kind r = InsnConditional \<and> address_val (in_virt_ip r) = ip then [r] else []) @ cond_rows ip rs"
  by (simp add: cond_rows_def)

lemma scan_step_eq:
  "scan_step r rs m =
     (if in_kind r = InsnConditional
      then entry_update (address_val (in_virt_ip r)) site_default (count_outcome r) m
      else if pair_at (address_val (in_virt_ip r)) r rs = [] then m
      else entry_update (address_val (in_virt_ip r)) site_default (add_target r (hd rs)) m)"
  by (cases "in_kind r") (auto simp: scan_step_def scan_indirect_def pair_at_def split: list.splits)

lemma pair_at_set:
  "set (pair_at ip r rs) =
     (if ip = address_val (in_virt_ip r) \<and> pair_at (address_val (in_virt_ip r)) r rs \<noteq> []
      then {(r, hd rs)} else {})"
  by (auto simp: pair_at_def split: list.splits)

lemma pair_at_kind: "pair_at ip r rs \<noteq> [] \<Longrightarrow> in_kind r \<noteq> InsnConditional"
  by (auto simp: pair_at_def split: list.splits if_splits)

lemma outcome_count_one:
  "outcome_count P ip [r] =
     (if in_kind r = InsnConditional \<and> address_val (in_virt_ip r) = ip \<and> P (in_outcome r) then 1 else 0)"
  by (simp add: outcome_count_def cond_rows_def)

lemma scan_step_acc:
  "sa_taken (acc_at ip (scan_step r rs m)) =
     sa_taken (acc_at ip m) + outcome_count (\<lambda>v. v = Some Taken) ip [r]"
  "sa_not_taken (acc_at ip (scan_step r rs m)) =
     sa_not_taken (acc_at ip m) + outcome_count (\<lambda>v. v = Some NotTaken) ip [r]"
  "sa_unknown (acc_at ip (scan_step r rs m)) =
     sa_unknown (acc_at ip m) + outcome_count undecided ip [r]"
  unfolding scan_step_eq outcome_count_one
  by (cases "in_kind r = InsnConditional"; cases "pair_at (address_val (in_virt_ip r)) r rs = []";
      cases "ip = address_val (in_virt_ip r)"; simp add: acc_at_entry count_outcome_sel add_target_sel)+

lemma scan_step_targets:
  "set (sa_targets (acc_at ip (scan_step r rs m))) =
     set (sa_targets (acc_at ip m)) \<union> (\<lambda>(r, n). address_val (in_virt_ip n)) ` set (pair_at ip r rs)"
  using pair_at_kind [of "address_val (in_virt_ip r)" r rs]
  by (auto simp: scan_step_eq acc_at_entry count_outcome_sel add_target_sel pair_at_set)

lemma scan_step_keys:
  "fst ` set (scan_step r rs m) = fst ` set m \<union>
     {ip. cond_rows ip [r] \<noteq> [] \<or> pair_at ip r rs \<noteq> []}"
proof -
  let ?a = "address_val (in_virt_ip r)"
  have "{ip. pair_at ip r rs \<noteq> []} = (if pair_at ?a r rs = [] then {} else {?a})"
    by (auto simp: pair_at_def split: list.splits if_splits)
  moreover have "{ip. cond_rows ip [r] \<noteq> []} = (if in_kind r = InsnConditional then {?a} else {})"
    by (auto simp: cond_rows_def)
  ultimately show ?thesis
    using pair_at_kind [of ?a r rs] unfolding scan_step_eq Collect_disj_eq
    by (simp add: fst_entry_update del: set_map split: if_splits)
qed

lemma scan_step_distinct:
  "distinct (map fst m) \<Longrightarrow> distinct (map fst (scan_step r rs m))"
  by (simp add: distinct_entry_update scan_step_eq)

lemma outcome_count_Cons: "outcome_count P ip (r # rs) = outcome_count P ip [r] + outcome_count P ip rs"
  by (simp add: outcome_count_def cond_rows_def)

lemma scan_sites_acc:
  "sa_taken (acc_at ip (scan_sites insns m)) =
     sa_taken (acc_at ip m) + outcome_count (\<lambda>v. v = Some Taken) ip insns"
  "sa_not_taken (acc_at ip (scan_sites insns m)) =
     sa_not_taken (acc_at ip m) + outcome_count (\<lambda>v. v = Some NotTaken) ip insns"
  "sa_unknown (acc_at ip (scan_sites insns m)) =
     sa_unknown (acc_at ip m) + outcome_count undecided ip insns"
  "set (sa_targets (acc_at ip (scan_sites insns m))) =
     set (sa_targets (acc_at ip m)) \<union>
     (\<lambda>(r, n). address_val (in_virt_ip n)) ` set (indirect_pairs ip insns)"
proof (induction insns arbitrary: m)
  case (Cons r rs)
  {
    case 1
    show ?case by (simp add: Cons.IH scan_step_acc outcome_count_Cons [of _ ip r rs])
  next
    case 2
    show ?case by (simp add: Cons.IH scan_step_acc outcome_count_Cons [of _ ip r rs])
  next
    case 3
    show ?case by (simp add: Cons.IH scan_step_acc outcome_count_Cons [of _ ip r rs])
  next
    case 4
    show ?case by (simp add: Cons.IH scan_step_targets indirect_pairs_Cons image_Un Un_assoc)
  }
qed (simp_all add: outcome_count_def cond_rows_def indirect_pairs_def)

lemma scan_sites_keys:
  "fst ` set (scan_sites insns m) = fst ` set m \<union>
     {ip. cond_rows ip insns \<noteq> [] \<or> indirect_pairs ip insns \<noteq> []}"
proof (induction insns arbitrary: m)
  case (Cons r rs)
  have "cond_rows ip (r # rs) = cond_rows ip [r] @ cond_rows ip rs" for ip
    by (simp add: cond_rows_def)
  then show ?case
    by (auto simp: Cons.IH scan_step_keys indirect_pairs_Cons simp del: set_map)
qed (simp add: cond_rows_def indirect_pairs_def)

lemma scan_sites_distinct:
  "distinct (map fst m) \<Longrightarrow> distinct (map fst (scan_sites insns m))"
  by (induction insns arbitrary: m) (auto intro: scan_step_distinct)

lemma show_hex_inject: "show_hex a = show_hex b \<longleftrightarrow> a = b"
  using digits_val_show_base [of 16 a] digits_val_show_base [of 16 b] by (metis option.inject order_refl numeral_le_iff semiring_norm(68,71))

text \<open>
  C32: The branch sites account for the rows. There is one site for each address with a conditional
  row or with an indirect branch that is followed without a gap, and no other; its three counts are
  the numbers of conditional rows there that were taken, not taken and undecided; a fraction is
  printed exactly if some outcome is known; its targets are the addresses that follow its
  indirect rows on the same thread; and sites come with the most executed first. Sites executed equally
  often come in the order of their hex strings, which is not that of the addresses
  (\<open>equal_sites_by_text\<close>).
\<close>

theorem branch_sites_account:
  "bs_site ` set (aggregate_branches x insns) =
     (\<lambda>ip. ''0x'' @ show_hex ip) ` {ip. cond_rows ip insns \<noteq> [] \<or> indirect_pairs ip insns \<noteq> []}
   \<and> distinct (map bs_site (aggregate_branches x insns))
   \<and> sorted_wrt (\<lambda>a b. bs_executed a > bs_executed b \<or>
        bs_executed a = bs_executed b \<and> bs_site a < bs_site b) (aggregate_branches x insns)
   \<and> (\<forall>b ip. b \<in> set (aggregate_branches x insns) \<and> bs_site b = ''0x'' @ show_hex ip \<longrightarrow>
        bs_taken b = Count (outcome_count (\<lambda>v. v = Some Taken) ip insns) \<and>
        bs_not_taken b = Count (outcome_count (\<lambda>v. v = Some NotTaken) ip insns) \<and>
        bs_unknown b = Count (outcome_count undecided ip insns) \<and>
        (bs_fraction b = None \<longleftrightarrow> (\<forall>r\<in>set (cond_rows ip insns). undecided (in_outcome r))) \<and>
        set (bs_targets b) = (\<lambda>(r, n). ''0x'' @ show_hex (address_val (in_virt_ip n))) `
          set (indirect_pairs ip insns))"
proof -
  let ?m = "scan_sites insns []"
  have dist: "distinct (map fst ?m)"
    by (rule scan_sites_distinct) simp
  have keys: "fst ` set ?m = {ip. cond_rows ip insns \<noteq> [] \<or> indirect_pairs ip insns \<noteq> []}"
    using scan_sites_keys [of insns "[]"] by simp
  have site: "bs_site (branch_site_of x e) = ''0x'' @ show_hex (fst e)" for e
    by (simp add: branch_site_of_def Let_def split: prod.splits)
  have rows: "set (aggregate_branches x insns) = branch_site_of x ` set ?m"
    by (simp add: aggregate_branches_def)
  have multi: "mset (map bs_site (aggregate_branches x insns)) = mset (map (\<lambda>e. ''0x'' @ show_hex (fst e)) ?m)"
    by (simp add: aggregate_branches_def image_mset.compositionality comp_def site del: append.simps)
  have d: "distinct (map bs_site (aggregate_branches x insns))"
    unfolding mset_eq_imp_distinct_iff [OF multi] using dist
    by (auto simp: distinct_map inj_on_def show_hex_inject)
  have multi_less: "bs_executed a > bs_executed b \<or> bs_executed a = bs_executed b \<and> bs_site a < bs_site b"
    if "branch_cmp a b \<noteq> Greater" "bs_site a \<noteq> bs_site b" for a b
    using that by (auto simp: branch_cmp_def cmp_then_def cmp_desc_def cmp_key_def split: if_splits)
  have "sorted_wrt (\<lambda>a b. branch_cmp a b \<noteq> Greater) (aggregate_branches x insns)"
    unfolding aggregate_branches_def by (rule branches.sorted_sort_by)
  then have sorted: "sorted_wrt (\<lambda>a b. bs_executed a > bs_executed b \<or>
      bs_executed a = bs_executed b \<and> bs_site a < bs_site b) (aggregate_branches x insns)"
    using d unfolding sorted_wrt_iff_nth_less distinct_conv_nth
    by (simp add: multi_less)
  have fields: "bs_taken b = Count (outcome_count (\<lambda>v. v = Some Taken) ip insns) \<and>
        bs_not_taken b = Count (outcome_count (\<lambda>v. v = Some NotTaken) ip insns) \<and>
        bs_unknown b = Count (outcome_count undecided ip insns) \<and>
        (bs_fraction b = None \<longleftrightarrow> (\<forall>r\<in>set (cond_rows ip insns). undecided (in_outcome r))) \<and>
        set (bs_targets b) = (\<lambda>(r, n). ''0x'' @ show_hex (address_val (in_virt_ip n))) `
          set (indirect_pairs ip insns)"
    if "b \<in> set (aggregate_branches x insns)" "bs_site b = ''0x'' @ show_hex ip" for b ip
  proof -
    from that(1) obtain e where e: "b = branch_site_of x e" "e \<in> set ?m"
      unfolding rows by blast
    moreover have "fst e = ip"
      using that(2) by (simp add: e(1) site show_hex_inject)
    ultimately obtain acc where b: "b = branch_site_of x (ip, acc)" and "(ip, acc) \<in> set ?m"
      by (cases e) simp
    then have "acc_at ip ?m = acc"
      using dist by (simp add: acc_at_def)
    then have acc: "sa_taken acc = outcome_count (\<lambda>v. v = Some Taken) ip insns"
      "sa_not_taken acc = outcome_count (\<lambda>v. v = Some NotTaken) ip insns"
      "sa_unknown acc = outcome_count undecided ip insns"
      "set (sa_targets acc) = (\<lambda>(r, n). address_val (in_virt_ip n)) ` set (indirect_pairs ip insns)"
      using scan_sites_acc [of ip insns "[]"] by (simp_all add: acc_at_def site_default_def)
    have "sa_taken acc + sa_not_taken acc = 0 \<longleftrightarrow> (\<forall>r\<in>set (cond_rows ip insns). undecided (in_outcome r))"
      by (auto simp: acc outcome_count_def filter_empty_conv)
    then show ?thesis
      unfolding b branch_site_of_def Let_def
      by (simp add: acc image_image case_prod_unfold)
  qed
  have "bs_site ` set (aggregate_branches x insns) = (\<lambda>ip. ''0x'' @ show_hex ip) ` (fst ` set ?m)"
    unfolding rows image_image site ..
  then show ?thesis
    unfolding keys using d sorted fields by blast
qed

definition jcc_row :: "branch_outcome \<Rightarrow> instruction_record" where
  "jcc_row v =
     \<lparr>in_id = 0, in_thread = ''t_7'', in_sequence = 1, in_time = time_unknown, in_location = None,
      in_virt_ip = Address 16, in_symbol = None, in_inlined = None, in_image_offset = None, in_len = 2,
      in_kind = InsnConditional, in_branch_target = Some (Address 30),
      in_fallthrough = Some (Address 18), in_outcome = Some v, in_bytes_hex = []\<rparr>"

lemma branch_sites_account_witness:
  "\<exists>b\<in>set (aggregate_branches jcc_env [jcc_row Taken, jcc_row NotTaken, jcc_row Taken]).
     bs_site b = ''0x'' @ show_hex 16 \<and> bs_taken b = Count 2 \<and> bs_not_taken b = Count 1 \<and>
     bs_unknown b = Count 0"
proof -
  let ?rows = "[jcc_row Taken, jcc_row NotTaken, jcc_row Taken]"
  note sites = branch_sites_account [of jcc_env ?rows]
  have "cond_rows 16 ?rows \<noteq> []"
    by (simp add: cond_rows_def jcc_row_def)
  then have "''0x'' @ show_hex 16 \<in> bs_site ` set (aggregate_branches jcc_env ?rows)"
    unfolding conjunct1 [OF sites] by (intro imageI CollectI disjI1)
  then obtain b where b: "''0x'' @ show_hex 16 = bs_site b" "b \<in> set (aggregate_branches jcc_env ?rows)"
    by (rule imageE)
  have "bs_taken b = Count (outcome_count (\<lambda>v. v = Some Taken) 16 ?rows) \<and>
      bs_not_taken b = Count (outcome_count (\<lambda>v. v = Some NotTaken) 16 ?rows) \<and>
      bs_unknown b = Count (outcome_count undecided 16 ?rows)"
    using conjunct2 [OF conjunct2 [OF conjunct2 [OF sites]], rule_format, OF conjI, OF b(2) b(1) [symmetric]]
    by (elim conjE) (intro conjI)
  moreover have "outcome_count P 16 ?rows = length (filter P [Some Taken, Some NotTaken, Some Taken])" for P
    by (simp add: outcome_count_def cond_rows_def jcc_row_def)
  ultimately show ?thesis
    using b(1) [symmetric] by (intro bexI [OF _ b(2)]) (simp del: append.simps)
qed

text \<open>
  The comment says that ties go by address; the code compares the printed addresses, so that a site at \<open>0x10\<close>
  comes before one at \<open>0x9\<close> that was executed as often.
\<close>

theorem equal_sites_by_text:
  "map bs_site (aggregate_branches jcc_env [jcc_row Taken, (jcc_row Taken)\<lparr>in_virt_ip := Address 9\<rparr>]) = [''0x10'', ''0x9'']"
proof -
  let ?other = "(jcc_row Taken)\<lparr>in_virt_ip := Address 9\<rparr>"
  let ?acc = "count_outcome (jcc_row Taken) site_default" and ?acc' = "count_outcome ?other site_default"
  have scan: "scan_sites [jcc_row Taken, ?other] [] = [(16, ?acc), (9, ?acc')]"
    by (simp add: scan_step_eq jcc_row_def)
  have hex: "show_hex 16 = ''10''" "show_hex 9 = ''9''"
    by (simp_all add: show_base_def digits_of.simps digit_char_def) code_simp+
  have "branch_cmp (branch_site_of jcc_env (9, ?acc')) (branch_site_of jcc_env (16, ?acc)) = Greater"
    by (simp add: branch_cmp_def cmp_then_def cmp_desc_def cmp_key_def branch_site_of_def bs_executed_def count_outcome_sel
        jcc_row_def site_default_def hex Let_def)
  moreover have "sort_key fst (scan_sites [jcc_row Taken, ?other] []) = [(9, ?acc'), (16, ?acc)]"
    unfolding scan by simp
  moreover have "bs_site (branch_site_of jcc_env (9, a)) = ''0x9''" "bs_site (branch_site_of jcc_env (16, a)) = ''0x10''" for a
    by (simp_all add: branch_site_of_def hex Let_def)
  ultimately show ?thesis
    unfolding aggregate_branches_def by (simp add: sort_by_def del: scan_sites.simps)
qed

end
