(* ===== verification/Stream_Merge.thy ===== *)
theory Stream_Merge
  imports Perf_Records "HOL-Library.Multiset"
begin

text \<open>
  Parallel decoding of \<^verbatim>\<open>src/service.rs\<close>: the CPUs are split into groups, every group is
  decoded by its own reader, which sends batches of records through a channel, and the
  streams are merged by time. A channel is the list of batches its reader sends
  before it hangs up; the binary heap is an ordered list of its entries.
\<close>

section \<open>CPU groups\<close>

text \<open>Item number \<open>i\<close> of the list goes to group \<open>i mod n\<close>.\<close>

fun deal :: "nat \<Rightarrow> 'a list \<Rightarrow> 'a list list \<Rightarrow> 'a list list" where
  "deal i [] groups = groups"
| "deal i (c # cs) groups =
     (let k = i mod length groups in deal (Suc i) cs (groups[k := groups ! k @ [c]]))"

definition cpu_groups :: "u32 list \<Rightarrow> u32 \<Rightarrow> u32 list list" where
  "cpu_groups cpus parallelism =
     (let n = min (max parallelism 1) (max (length cpus) 1)
      in filter (\<lambda>g. g \<noteq> []) (deal 0 cpus (replicate n [])))"

section \<open>Batches\<close>

type_synonym tagged = "u64 option \<times> raw_record"
type_synonym batch = "tagged list"

definition batch_size :: nat where
  "batch_size = 2048"

definition merge_time :: "raw_record \<Rightarrow> u64 option" where
  "merge_time r =
     (case r of
        RSample s \<Rightarrow> s_time s
      | RMmap m \<Rightarrow> mm_time m
      | RTask t \<Rightarrow> t_time t
      | RSwitch p t time out \<Rightarrow> time
      | RLost l \<Rightarrow> l_time l
      | RDecoderError e \<Rightarrow> de_time e)"

text \<open>The reader: the batch being filled and the batches sent; a last partial batch is sent at the end.\<close>

fun send_batches :: "raw_record list \<Rightarrow> batch \<Rightarrow> batch list" where
  "send_batches [] b = (if b = [] then [] else [b])"
| "send_batches (r # rs) b =
     (let b' = b @ [(merge_time r, r)]
      in if length b' \<ge> batch_size then b' # send_batches rs [] else send_batches rs b')"

record batched_rx =
  rx_batches :: "batch list"
  rx_cur :: batch

definition rx_new :: "batch list \<Rightarrow> batched_rx" where
  "rx_new bs = \<lparr>rx_batches = bs, rx_cur = []\<rparr>"

function rx_next :: "batched_rx \<Rightarrow> tagged option \<times> batched_rx" where
  "rx_next rx =
     (case rx_cur rx of
        t # cur \<Rightarrow> (Some t, rx\<lparr>rx_cur := cur\<rparr>)
      | [] \<Rightarrow>
          (case rx_batches rx of
             [] \<Rightarrow> (None, rx)
           | b # bs \<Rightarrow> rx_next \<lparr>rx_batches = bs, rx_cur = b\<rparr>))"
  by pat_completeness auto
termination by (relation "measure (length \<circ> rx_batches)") auto

declare rx_next.simps [simp del]

section \<open>The merge\<close>

definition sideband :: "raw_record \<Rightarrow> bool" where
  "sideband r \<longleftrightarrow> (case r of RMmap _ \<Rightarrow> True | RTask _ \<Rightarrow> True | RSwitch _ _ _ _ \<Rightarrow> True | RLost _ \<Rightarrow> True | _ \<Rightarrow> False)"

definition tag_key :: "tagged \<Rightarrow> u64" where
  "tag_key t = (case fst t of None \<Rightarrow> 0 | Some n \<Rightarrow> n)"

text \<open>Records that have not been delivered, in stream order.\<close>

definition rx_rest :: "batched_rx \<Rightarrow> tagged list" where
  "rx_rest rx = rx_cur rx @ concat (rx_batches rx)"

lemma rx_next_eq:
  "rx_next rx = (a, rx') \<Longrightarrow>
     (case a of None \<Rightarrow> rx_rest rx = [] \<and> rx_rest rx' = [] | Some t \<Rightarrow> rx_rest rx = t # rx_rest rx')"
proof (induction rx rule: rx_next.induct)
  case (1 rx)
  show ?case
  proof (cases "rx_cur rx")
    case (Cons t cur)
    then show ?thesis
      using 1(2) by (auto simp: rx_next.simps [of rx] rx_rest_def)
  next
    case Nil
    show ?thesis
    proof (cases "rx_batches rx")
      case (Cons b bs)
      then have "rx_next \<lparr>rx_batches = bs, rx_cur = b\<rparr> = (a, rx')"
        using 1(2) Nil by (simp add: rx_next.simps [of rx])
      moreover have "rx_rest rx = rx_rest \<lparr>rx_batches = bs, rx_cur = b\<rparr>"
        using Nil Cons by (simp add: rx_rest_def)
      ultimately show ?thesis
        using 1(1) [OF Nil Cons] by (auto split: option.splits)
    qed (use 1(2) Nil in \<open>auto simp: rx_next.simps [of rx] rx_rest_def\<close>)
  qed
qed

lemma rx_rest_sum:
  assumes "i < length receivers" "rx_next (receivers ! i) = (a, rx)"
  shows "sum_list (map (length \<circ> rx_rest) (receivers[i := rx])) + (if a = None then 0 else 1) =
    sum_list (map (length \<circ> rx_rest) receivers)"
proof -
  let ?f = "length \<circ> rx_rest"
  have "?f (receivers ! i) \<le> sum_list (map ?f receivers)"
    using elem_le_sum_list [of i "map ?f receivers"] assms(1) by simp
  then have "sum_list (map ?f (receivers[i := rx])) + ?f (receivers ! i) = sum_list (map ?f receivers) + ?f rx"
    using assms(1) by (simp add: map_update sum_list_update)
  then show ?thesis
    using rx_next_eq [OF assms(2)] by (auto split: option.splits)
qed

text \<open>\<open>sink\<close> is the caller's consumer, a function on its own state that may fail.\<close>

type_synonym 's sink = "raw_record \<Rightarrow> 's \<Rightarrow> error + 's"

function merge_loop ::
    "'s sink \<Rightarrow> batched_rx list \<Rightarrow> tagged option list \<Rightarrow> (u64 \<times> nat) list \<Rightarrow> 's \<Rightarrow> failure + 's" where
  "merge_loop sink receivers heads [] s = Inr s"
| "merge_loop sink receivers heads ((k, i) # heap) s =
     (if i \<ge> length heads \<or> i \<ge> length receivers then Inl Panic
      else case heads ! i of
        None \<Rightarrow> Inl Panic
      | Some (t, r) \<Rightarrow>
          (case (if sideband r \<and> i \<noteq> 0 then Inr s else sink r s) of
             Inl e \<Rightarrow> Inl (Err e)
           | Inr s' \<Rightarrow>
               (case rx_next (receivers ! i) of
                  (None, rx) \<Rightarrow> merge_loop sink (receivers[i := rx]) (heads[i := None]) heap s'
                | (Some t', rx) \<Rightarrow>
                    merge_loop sink (receivers[i := rx]) (heads[i := Some t']) (insort (tag_key t', i) heap) s')))"
  by pat_completeness auto
termination
  by (relation "measure (\<lambda>(sink, receivers, heads, heap, s).
      sum_list (map (length \<circ> rx_rest) receivers) + length heap)")
     (auto dest!: rx_rest_sum [rotated, OF sym] simp: not_le)

declare merge_loop.simps [simp del]

fun init_heads :: "batched_rx list \<Rightarrow> tagged option list \<times> batched_rx list" where
  "init_heads [] = ([], [])"
| "init_heads (rx # rest) =
     (case rx_next rx of (h, rx') \<Rightarrow> (case init_heads rest of (hs, rxs) \<Rightarrow> (h # hs, rx' # rxs)))"

fun init_heap :: "nat \<Rightarrow> tagged option list \<Rightarrow> (u64 \<times> nat) list \<Rightarrow> (u64 \<times> nat) list" where
  "init_heap i [] heap = heap"
| "init_heap i (h # hs) heap =
     init_heap (Suc i) hs (case h of None \<Rightarrow> heap | Some t \<Rightarrow> insort (tag_key t, i) heap)"

definition merge_records :: "batch list list \<Rightarrow> 's sink \<Rightarrow> 's \<Rightarrow> failure + 's" where
  "merge_records receivers sink s =
     (case init_heads (map rx_new receivers) of
        (heads, rxs) \<Rightarrow> merge_loop sink rxs heads (init_heap 0 heads []) s)"

section \<open>Reference: a stable sort\<close>

text \<open>
  The reference joins the streams in index order, sorts them stably by time, drops the sideband
  of every stream but the first and feeds the rest to the sink.
\<close>

fun tag_from :: "nat \<Rightarrow> 'a list list \<Rightarrow> (nat \<times> 'a) list" where
  "tag_from i [] = []"
| "tag_from i (p # ps) = map (Pair i) p @ tag_from (Suc i) ps"

fun feed :: "'s sink \<Rightarrow> raw_record list \<Rightarrow> 's \<Rightarrow> failure + 's" where
  "feed sink [] s = Inr s"
| "feed sink (r # rs) s = (case sink r s of Inl e \<Rightarrow> Inl (Err e) | Inr s' \<Rightarrow> feed sink rs s')"

definition kept_records :: "(nat \<times> tagged) list \<Rightarrow> raw_record list" where
  "kept_records ys = map (snd \<circ> snd) (filter (\<lambda>(i, t). \<not> (sideband (snd t) \<and> i \<noteq> 0)) ys)"

lemma tag_from_append: "tag_from i (ps @ qs) = tag_from i ps @ tag_from (i + length ps) qs"
  by (induction ps arbitrary: i) auto

lemma tag_from_split:
  assumes "k < length ps"
  shows "tag_from 0 ps = tag_from 0 (take k ps) @ map (Pair k) (ps ! k) @ tag_from (Suc k) (drop (Suc k) ps)"
  using tag_from_append [of 0 "take k ps" "ps ! k # drop (Suc k) ps"] assms id_take_nth_drop [OF assms]
  by simp

lemma set_tag_from: "set (tag_from i ps) = {(k, x). i \<le> k \<and> k < i + length ps \<and> x \<in> set (ps ! (k - i))}"
proof (induction ps arbitrary: i)
  case (Cons p ps)
  have "(k, x) \<in> set (tag_from i (p # ps)) \<longleftrightarrow>
      i \<le> k \<and> k < i + length (p # ps) \<and> x \<in> set ((p # ps) ! (k - i))" for k x
    by (cases "k = i") (auto simp: Cons.IH nth_Cons' Suc_diff_le)
  then show ?case
    by auto
qed simp

lemma filter_tag_from: "i \<le> k \<Longrightarrow> k < i + length ps \<Longrightarrow> map snd (filter (\<lambda>y. fst y = k) (tag_from i ps)) = ps ! (k - i)"
proof (induction ps arbitrary: i)
  case (Cons p ps)
  show ?case
  proof (cases "k = i")
    case True
    have "filter (\<lambda>y. fst y = i) (tag_from (Suc i) ps) = []"
      by (auto simp: filter_empty_conv set_tag_from)
    then show ?thesis
      using True by (simp add: filter_map o_def)
  next
    case False
    then show ?thesis
      using Cons by (simp add: filter_map o_def nth_Cons' )
  qed
qed simp

lemma sort_key_first:
  fixes f :: "'a \<Rightarrow> 'k :: linorder"
  assumes "\<forall>x\<in>set xs. f y < f x" "\<forall>z\<in>set zs. f y \<le> f z"
  shows "sort_key f (xs @ y # zs) = y # sort_key f (xs @ zs)"
  using assms
proof (induction xs)
  case Nil
  then have "insort_key f y (sort_key f zs) = y # sort_key f zs"
    by (intro insort_is_Cons) auto
  then show ?case by simp
qed (auto simp: not_le)

section \<open>The loop against the reference\<close>

definition pending :: "tagged option list \<Rightarrow> batched_rx list \<Rightarrow> tagged list list" where
  "pending heads rxs =
     map (\<lambda>i. case heads ! i of None \<Rightarrow> [] | Some t \<Rightarrow> t # rx_rest (rxs ! i)) [0..<length heads]"

definition merge_inv :: "tagged option list \<Rightarrow> batched_rx list \<Rightarrow> (u64 \<times> nat) list \<Rightarrow> bool" where
  "merge_inv heads rxs heap \<longleftrightarrow>
     length heads = length rxs \<and> sorted heap \<and> distinct heap \<and>
     set heap = {(x, i). i < length heads \<and> map_option tag_key (heads ! i) = Some x} \<and>
     (\<forall>i < length heads. heads ! i = None \<longrightarrow> rx_rest (rxs ! i) = [])"

lemma length_pending [simp]: "length (pending heads rxs) = length heads"
  by (simp add: pending_def)

lemma nth_pending [simp]:
  "i < length heads \<Longrightarrow>
     pending heads rxs ! i = (case heads ! i of None \<Rightarrow> [] | Some t \<Rightarrow> t # rx_rest (rxs ! i))"
  by (simp add: pending_def split: option.split)

lemma merge_inv_mem:
  assumes "merge_inv heads rxs heap" "j < length heads" "heads ! j = Some u"
  shows "(tag_key u, j) \<in> set heap"
  using assms by (cases u) (simp add: merge_inv_def)

lemma merge_inv_step:
  assumes inv: "merge_inv heads rxs ((k, i) # heap)" and nxt: "rx_next (rxs ! i) = (a, rx)"
  obtains t where "i < length heads" "heads ! i = Some t" "k = tag_key t"
    "pending heads rxs ! i = t # rx_rest (rxs ! i)"
    "merge_inv (heads[i := a]) (rxs[i := rx])
       (case a of None \<Rightarrow> heap | Some t' \<Rightarrow> insort (tag_key t', i) heap)"
    "pending (heads[i := a]) (rxs[i := rx]) = (pending heads rxs)[i := rx_rest (rxs ! i)]"
proof -
  have set: "set ((k, i) # heap) = {(x, j). j < length heads \<and> map_option tag_key (heads ! j) = Some x}"
    and len: "length heads = length rxs" and dist: "distinct ((k, i) # heap)"
    using inv by (simp_all only: merge_inv_def)
  have "(k, i) \<in> set ((k, i) # heap)"
    by simp
  then obtain t where t: "i < length heads" "heads ! i = Some t" "k = tag_key t"
    unfolding set by auto
  have rest: "(x, j) \<in> set heap \<longleftrightarrow> j < length heads \<and> j \<noteq> i \<and> map_option tag_key (heads ! j) = Some x" for x j
  proof -
    have "(x, j) \<in> set heap \<longleftrightarrow> (x, j) \<in> set ((k, i) # heap) \<and> (x, j) \<noteq> (k, i)"
      using dist by auto
    then show ?thesis
      unfolding set using t by auto
  qed
  have nx: "case a of None \<Rightarrow> rx_rest (rxs ! i) = [] \<and> rx_rest rx = [] | Some t \<Rightarrow> rx_rest (rxs ! i) = t # rx_rest rx"
    by (rule rx_next_eq [OF nxt])
  have "pending (heads[i := a]) (rxs[i := rx]) ! j = (pending heads rxs)[i := rx_rest (rxs ! i)] ! j"
    if "j < length heads" for j
    using that nx t len by (cases "j = i") (auto split: option.splits)
  then have "pending (heads[i := a]) (rxs[i := rx]) = (pending heads rxs)[i := rx_rest (rxs ! i)]"
    by (intro nth_equalityI) auto
  moreover have "merge_inv (heads[i := a]) (rxs[i := rx])
       (case a of None \<Rightarrow> heap | Some t' \<Rightarrow> insort (tag_key t', i) heap)"
    unfolding merge_inv_def
  proof (intro conjI)
    let ?heap = "case a of None \<Rightarrow> heap | Some t' \<Rightarrow> insort (tag_key t', i) heap"
    have heap: "sorted heap" "distinct heap" and none: "\<forall>i < length heads. heads ! i = None \<longrightarrow> rx_rest (rxs ! i) = []"
      using inv unfolding merge_inv_def by auto
    have "(x, i) \<notin> set heap" for x
      by (simp add: rest)
    with heap show "sorted ?heap" "distinct ?heap"
      by (auto simp: sorted_insort distinct_insort split: option.split)
    show "length (heads[i := a]) = length (rxs[i := rx])"
      using len by simp
    show "\<forall>j < length (heads[i := a]). heads[i := a] ! j = None \<longrightarrow> rx_rest (rxs[i := rx] ! j) = []"
      using none nx len t(1) by (auto simp: nth_list_update split: if_splits option.splits)
    have "(x, j) \<in> set ?heap \<longleftrightarrow> j < length heads \<and> map_option tag_key (heads[i := a] ! j) = Some x" for x j
      using t(1) rest [of x j] by (cases a; cases "j = i") (auto simp: set_insort_key)
    then show "set ?heap = {(x, j). j < length (heads[i := a]) \<and> map_option tag_key (heads[i := a] ! j) = Some x}"
      by auto
  qed
  ultimately show ?thesis
    using that t by simp
qed

text \<open>The entry on top of the heap is the first record of the reference order.\<close>

lemma top_is_first:
  assumes inv: "merge_inv heads rxs ((tag_key t, i) # heap)" and i: "i < length heads" "heads ! i = Some t"
    and sorted: "\<forall>p\<in>set (pending heads rxs). sorted (map tag_key p)"
  shows "sort_key (tag_key \<circ> snd) (tag_from 0 (pending heads rxs)) =
    (i, t) # sort_key (tag_key \<circ> snd) (tag_from 0 ((pending heads rxs)[i := rx_rest (rxs ! i)]))"
proof -
  let ?ps = "pending heads rxs"
  have head: "(tag_key t, i) \<le> (tag_key u, j)" if "j < length heads" "heads ! j = Some u" for j u
  proof -
    have "(tag_key u, j) \<in> set ((tag_key t, i) # heap)"
      by (rule merge_inv_mem [OF inv that])
    then show ?thesis
      using inv by (auto simp: merge_inv_def)
  qed
  have later: "(if j < i then tag_key t < tag_key x else tag_key t \<le> tag_key x)"
    if jx: "j < length heads" "x \<in> set (?ps ! j)" for j x
  proof -
    obtain u where u: "heads ! j = Some u" "x = u \<or> x \<in> set (rx_rest (rxs ! j))"
      using jx nth_pending [OF jx(1), of rxs] by (cases "heads ! j") auto
    have "sorted (map tag_key (?ps ! j))"
      using sorted nth_mem [of j ?ps] jx(1) unfolding length_pending by blast
    then have "tag_key u \<le> tag_key x"
      using u jx(1) by auto
    then show ?thesis
      using head [OF jx(1) u(1)] by (auto simp: less_eq_prod_def split: if_splits)
  qed
  have split: "tag_from 0 ?ps = tag_from 0 (take i ?ps) @ (i, t) # map (Pair i) (rx_rest (rxs ! i)) @ tag_from (Suc i) (drop (Suc i) ?ps)"
    using tag_from_split [of i ?ps] i by simp
  have split': "tag_from 0 (?ps[i := rx_rest (rxs ! i)]) =
      tag_from 0 (take i ?ps) @ map (Pair i) (rx_rest (rxs ! i)) @ tag_from (Suc i) (drop (Suc i) ?ps)"
    using tag_from_split [of i "?ps[i := rx_rest (rxs ! i)]"] i by simp
  have "(tag_key \<circ> snd) (i, t) < (tag_key \<circ> snd) y" if "y \<in> set (tag_from 0 (take i ?ps))" for y
  proof -
    have "fst y < i" "snd y \<in> set (?ps ! fst y)"
      using that by (auto simp: set_tag_from simp del: nth_pending)
    then show ?thesis
      using later [of "fst y" "snd y"] i(1) by simp
  qed
  moreover have "(tag_key \<circ> snd) (i, t) \<le> (tag_key \<circ> snd) y"
    if "y \<in> set (map (Pair i) (rx_rest (rxs ! i)) @ tag_from (Suc i) (drop (Suc i) ?ps))" for y
  proof -
    have "i \<le> fst y" "fst y < length heads" "snd y \<in> set (?ps ! fst y)"
      using that i by (auto simp: set_tag_from simp del: nth_pending) (simp add: i)
    then show ?thesis
      using later [of "fst y" "snd y"] by simp
  qed
  ultimately show ?thesis
    unfolding split split' by (intro sort_key_first) blast+
qed

lemma merge_loop_correct:
  assumes "merge_inv heads rxs heap"
  shows "\<exists>ys. (\<forall>s. merge_loop sink rxs heads heap s = feed sink (kept_records ys) s) \<and>
    (\<forall>j < length heads. map snd (filter (\<lambda>y. fst y = j) ys) = pending heads rxs ! j) \<and>
    fst ` set ys \<subseteq> {..<length heads} \<and>
    ((\<forall>p\<in>set (pending heads rxs). sorted (map tag_key p)) \<longrightarrow>
       ys = sort_key (tag_key \<circ> snd) (tag_from 0 (pending heads rxs)))"
  using assms
proof (induction "sum_list (map (length \<circ> rx_rest) rxs) + length heap" arbitrary: rxs heads heap rule: less_induct)
  case less
  let ?ps = "pending heads rxs"
  show ?case
  proof (cases heap)
    case Nil
    then have none: "heads ! j = None" if "j < length heads" for j
      using merge_inv_mem [OF less.prems that] by (cases "heads ! j") auto
    then have "tag_from 0 ?ps = []"
      by (auto simp: set_tag_from simp flip: set_empty)
    then show ?thesis
      using Nil none by (intro exI [of _ "[]"]) (simp add: merge_loop.simps kept_records_def)
  next
    case (Cons ki heap')
    obtain k i a rx where ki: "ki = (k, i)" and nxt: "rx_next (rxs ! i) = (a, rx)"
      by (metis surj_pair)
    let ?heap = "case a of None \<Rightarrow> heap' | Some t' \<Rightarrow> insort (tag_key t', i) heap'"
    obtain t where t: "i < length heads" "heads ! i = Some t" "k = tag_key t" "?ps ! i = t # rx_rest (rxs ! i)"
        "merge_inv (heads[i := a]) (rxs[i := rx]) ?heap"
        "pending (heads[i := a]) (rxs[i := rx]) = ?ps[i := rx_rest (rxs ! i)]"
      using merge_inv_step [OF less.prems [unfolded Cons ki] nxt] by metis
    have len: "i < length rxs"
      using t(1) less.prems by (simp add: merge_inv_def)
    have "sum_list (map (length \<circ> rx_rest) (rxs[i := rx])) + length ?heap < sum_list (map (length \<circ> rx_rest) rxs) + length heap"
      using rx_rest_sum [OF len nxt] Cons by (auto split: option.split)
    from less.hyps [OF this t(5)] obtain ys where ys:
        "\<And>s. merge_loop sink (rxs[i := rx]) (heads[i := a]) ?heap s = feed sink (kept_records ys) s"
        "\<And>j. j < length heads \<Longrightarrow> map snd (filter (\<lambda>y. fst y = j) ys) = ?ps[i := rx_rest (rxs ! i)] ! j"
        "fst ` set ys \<subseteq> {..<length heads}"
        "(\<forall>p\<in>set (?ps[i := rx_rest (rxs ! i)]). sorted (map tag_key p)) \<Longrightarrow>
           ys = sort_key (tag_key \<circ> snd) (tag_from 0 (?ps[i := rx_rest (rxs ! i)]))"
      unfolding t(6) by auto
    have "merge_loop sink rxs heads heap s = feed sink (kept_records ((i, t) # ys)) s" for s
      using ys(1) t(1,2) len nxt Cons ki
      by (cases t; cases a) (auto simp: merge_loop.simps kept_records_def split: sum.splits)
    moreover have "map snd (filter (\<lambda>y. fst y = j) ((i, t) # ys)) = ?ps ! j" if "j < length heads" for j
      using ys(2) [OF that] t(1,4) by (cases "j = i") simp_all
    moreover have "(i, t) # ys = sort_key (tag_key \<circ> snd) (tag_from 0 ?ps)" if srt: "\<forall>p\<in>set ?ps. sorted (map tag_key p)"
    proof -
      have "sorted (map tag_key (t # rx_rest (rxs ! i)))"
        using srt t(1,4) nth_mem [of i ?ps] by fastforce
      then have "\<forall>p\<in>set (?ps[i := rx_rest (rxs ! i)]). sorted (map tag_key p)"
        using srt set_update_subset_insert [of ?ps i "rx_rest (rxs ! i)"] by auto
      from ys(4) [OF this] show ?thesis
        using top_is_first [OF less.prems [unfolded Cons ki t(3)] t(1,2) srt] by simp
    qed
    ultimately show ?thesis
      using ys(3) t(1) by (intro exI [of _ "(i, t) # ys"]) simp
  qed
qed

lemma init_heads_spec:
  assumes "init_heads rxs0 = (heads, rxs)"
  shows "length heads = length rxs0 \<and> length rxs = length rxs0 \<and>
    (\<forall>i < length rxs0. rx_next (rxs0 ! i) = (heads ! i, rxs ! i))"
  using assms
proof (induction rxs0 arbitrary: heads rxs)
  case (Cons rx rxs0)
  obtain h rx' hs rest where "rx_next rx = (h, rx')" "init_heads rxs0 = (hs, rest)"
    by fastforce
  then show ?case
    using Cons by (auto simp: nth_Cons split: nat.split)
qed simp

lemma init_heap_spec:
  assumes "sorted heap" "distinct heap" "\<forall>e\<in>set heap. snd e < i"
  shows "sorted (init_heap i hs heap) \<and> distinct (init_heap i hs heap) \<and>
    set (init_heap i hs heap) =
      set heap \<union> {(x, j). i \<le> j \<and> j < i + length hs \<and> map_option tag_key (hs ! (j - i)) = Some x}"
  using assms
proof (induction hs arbitrary: i heap)
  case (Cons h hs)
  let ?heap = "case h of None \<Rightarrow> heap | Some t \<Rightarrow> insort (tag_key t, i) heap"
  have new: "set ?heap = set heap \<union> {(x, j). j = i \<and> map_option tag_key h = Some x}"
    by (cases h) (auto simp: set_insort_key)
  have "sorted ?heap" "distinct ?heap" "\<forall>e\<in>set ?heap. snd e < Suc i"
    using Cons.prems by (auto simp: sorted_insort distinct_insort set_insort_key less_Suc_eq split: option.split)
  note IH = Cons.IH [OF this]
  have "set (init_heap i (h # hs) heap) =
      set heap \<union> ({(x, j). j = i \<and> map_option tag_key h = Some x} \<union>
      {(x, j). Suc i \<le> j \<and> j < Suc i + length hs \<and> map_option tag_key (hs ! (j - Suc i)) = Some x})"
    using IH unfolding new by (simp add: Un_assoc)
  also have "{(x, j). j = i \<and> map_option tag_key h = Some x} \<union>
      {(x, j). Suc i \<le> j \<and> j < Suc i + length hs \<and> map_option tag_key (hs ! (j - Suc i)) = Some x} =
      {(x, j). i \<le> j \<and> j < i + length (h # hs) \<and> map_option tag_key ((h # hs) ! (j - i)) = Some x}"
    by (auto simp: nth_Cons' Suc_le_eq simp del: map_option_eq_Some)
  finally show ?case
    using IH by simp
qed auto

lemma merge_init:
  assumes "init_heads (map rx_new streams) = (heads, rxs)"
  shows "merge_inv heads rxs (init_heap 0 heads []) \<and> pending heads rxs = map concat streams"
proof -
  have heads: "length heads = length streams" "length rxs = length streams"
    "\<And>i. i < length streams \<Longrightarrow> rx_next (rx_new (streams ! i)) = (heads ! i, rxs ! i)"
    using init_heads_spec [OF assms] by auto
  have nx: "case heads ! i of None \<Rightarrow> concat (streams ! i) = [] \<and> rx_rest (rxs ! i) = []
      | Some t \<Rightarrow> concat (streams ! i) = t # rx_rest (rxs ! i)" if "i < length streams" for i
  proof -
    have "rx_rest (rx_new (streams ! i)) = concat (streams ! i)"
      by (simp add: rx_rest_def rx_new_def)
    then show ?thesis
      using rx_next_eq [OF heads(3) [OF that]] by (auto split: option.splits)
  qed
  have "rx_rest (rxs ! i) = []" if "i < length streams" "heads ! i = None" for i
    using nx [OF that(1)] that(2) by simp
  then have "merge_inv heads rxs (init_heap 0 heads [])"
    using init_heap_spec [of "[]" 0 heads] heads(1,2) by (simp add: merge_inv_def)
  moreover have "pending heads rxs ! i = map concat streams ! i" if "i < length streams" for i
    using nx [OF that] that heads(1) by (auto split: option.splits)
  ultimately show ?thesis
    using heads(1) by (auto intro: nth_equalityI)
qed

lemma merge_records_correct:
  "\<exists>ys. (\<forall>s. merge_records streams sink s = feed sink (kept_records ys) s) \<and>
     (\<forall>j < length streams. map snd (filter (\<lambda>y. fst y = j) ys) = concat (streams ! j)) \<and>
     fst ` set ys \<subseteq> {..<length streams} \<and>
     ((\<forall>p\<in>set streams. sorted (map tag_key (concat p))) \<longrightarrow>
        ys = sort_key (tag_key \<circ> snd) (tag_from 0 (map concat streams)))"
proof -
  obtain heads rxs where init: "init_heads (map rx_new streams) = (heads, rxs)"
    by fastforce
  have "length heads = length streams"
    using init_heads_spec [OF init] by simp
  then show ?thesis
    using merge_loop_correct [OF conjunct1 [OF merge_init [OF init]], of sink] conjunct2 [OF merge_init [OF init]]
    by (simp add: merge_records_def init)
qed

section \<open>From the readers to the sink\<close>

lemma concat_send_batches: "concat (send_batches rs b) = b @ map (\<lambda>r. (merge_time r, r)) rs"
  by (induction rs arbitrary: b) (auto simp: Let_def)

definition time_key :: "raw_record \<Rightarrow> u64" where
  "time_key r = (case merge_time r of None \<Rightarrow> 0 | Some t \<Rightarrow> t)"

lemma tag_from_map: "tag_from i (map (map f) ps) = map (map_prod id f) (tag_from i ps)"
  by (induction ps arbitrary: i) auto

lemma sort_key_map: "sort_key f (map g xs) = map g (sort_key (f \<circ> g) xs)"
proof -
  have "insort_key f (g x) (map g xs) = map g (insort_key (f \<circ> g) x xs)" for x xs
    by (induction xs) auto
  then show ?thesis
    by (induction xs) auto
qed

text \<open>
  C23: Parallel decoding equals a stable sort. When every reader delivers its records in time
  order, merging their batched streams hands the sink exactly the records of all streams, stably
  sorted by time with ties resolved by stream number, with memory maps, task
  events, switches and losses taken from the first stream only, and stops at the first error of the sink.
\<close>

theorem merge_is_stable_sort:
  assumes "\<forall>rs\<in>set readers. sorted (map time_key rs)"
  shows "merge_records (map (\<lambda>rs. send_batches rs []) readers) sink s =
    feed sink (map snd (filter (\<lambda>(i, r). \<not> (sideband r \<and> i \<noteq> 0))
      (sort_key (time_key \<circ> snd) (tag_from 0 readers)))) s"
proof -
  let ?tag = "\<lambda>r. (merge_time r, r)"
  have key: "tag_key (?tag r) = time_key r" for r
    by (simp add: tag_key_def time_key_def)
  have streams: "map concat (map (\<lambda>rs. send_batches rs []) readers) = map (map ?tag) readers"
    by (simp add: concat_send_batches)
  have "\<forall>p\<in>set (map (\<lambda>rs. send_batches rs []) readers). sorted (map tag_key (concat p))"
    using assms by (simp add: concat_send_batches key o_def)
  then have "merge_records (map (\<lambda>rs. send_batches rs []) readers) sink s =
      feed sink (kept_records (sort_key (tag_key \<circ> snd) (tag_from 0 (map (map ?tag) readers)))) s"
    using merge_records_correct [of "map (\<lambda>rs. send_batches rs []) readers" sink] unfolding streams by blast
  also have "sort_key (tag_key \<circ> snd) (tag_from 0 (map (map ?tag) readers)) =
      map (map_prod id ?tag) (sort_key (time_key \<circ> snd) (tag_from 0 readers))"
    unfolding tag_from_map sort_key_map by (simp add: o_def key split_beta)
  finally show ?thesis
    by (simp add: kept_records_def filter_map o_def case_prod_beta')
qed

theorem merge_is_stable_sort_witness:
  "merge_records (map (\<lambda>rs. send_batches rs [])
      [[RSwitch 1 1 (Some 2) True, RSwitch 1 1 (Some 9) False],
       [RSwitch 2 2 (Some 1) True, RDecoderError \<lparr>de_time = Some 2, de_cpu = None, de_pid = None, de_tid = None,
          de_ip = None, de_code = None, de_message = ''x''\<rparr>]])
     (\<lambda>r s. Inr (s @ [r])) [] =
   Inr [RSwitch 1 1 (Some 2) True,
        RDecoderError \<lparr>de_time = Some 2, de_cpu = None, de_pid = None, de_tid = None, de_ip = None,
          de_code = None, de_message = ''x''\<rparr>,
        RSwitch 1 1 (Some 9) False]"
  by (subst merge_is_stable_sort) (simp_all add: time_key_def merge_time_def sideband_def)

text \<open>
  Merging is an interleaving. Whatever the time stamps, the merge never panics and
  delivers an interleaving of the streams: every record of every reader once, in the
  order of its reader, without the sideband of later streams.
\<close>

theorem merge_delivers_all:
  "\<exists>order. (\<forall>s. merge_records (map (\<lambda>rs. send_batches rs []) readers) sink s =
       feed sink (map snd (filter (\<lambda>(i, r). \<not> (sideband r \<and> i \<noteq> 0)) order)) s) \<and>
     (\<forall>j < length readers. map snd (filter (\<lambda>y. fst y = j) order) = readers ! j) \<and>
     (\<forall>y\<in>set order. fst y < length readers)"
proof -
  obtain ys where ys: "\<And>s. merge_records (map (\<lambda>rs. send_batches rs []) readers) sink s = feed sink (kept_records ys) s"
      "\<And>j. j < length readers \<Longrightarrow> map snd (filter (\<lambda>y. fst y = j) ys) = map (\<lambda>r. (merge_time r, r)) (readers ! j)"
      "fst ` set ys \<subseteq> {..<length readers}"
    using merge_records_correct [of "map (\<lambda>rs. send_batches rs []) readers" sink]
    by (auto simp: concat_send_batches)
  let ?order = "map (\<lambda>y. (fst y, snd (snd y))) ys"
  have "map snd (filter (\<lambda>y. fst y = j) ?order) = readers ! j" if "j < length readers" for j
  proof -
    have "map snd (filter (\<lambda>y. fst y = j) ?order) = map snd (map snd (filter (\<lambda>y. fst y = j) ys))"
      by (simp add: filter_map o_def)
    then show ?thesis
      unfolding ys(2) [OF that] by (simp add: o_def)
  qed
  moreover have "kept_records ys = map snd (filter (\<lambda>(i, r). \<not> (sideband r \<and> i \<noteq> 0)) ?order)"
    by (simp add: kept_records_def filter_map o_def case_prod_beta')
  ultimately show ?thesis
    using ys(1,3) by (intro exI [of _ ?order]) auto
qed

theorem merge_delivers_all_witness:
  "\<exists>order. map snd (filter (\<lambda>y. fst y = (0 :: nat)) order) = [RSwitch 1 1 None True] \<and>
     merge_records (map (\<lambda>rs. send_batches rs []) [[RSwitch 1 1 None True]]) (\<lambda>r s. Inr (s @ [r])) [] =
       feed (\<lambda>r s. Inr (s @ [r])) (map snd (filter (\<lambda>(i, r). \<not> (sideband r \<and> i \<noteq> 0)) order)) []"
proof -
  let ?R = "[[RSwitch 1 1 None True]]" and ?sink = "\<lambda>r s. Inr (s @ [r]) :: error + raw_record list"
  obtain order where "\<And>s. merge_records (map (\<lambda>rs. send_batches rs []) ?R) ?sink s =
        feed ?sink (map snd (filter (\<lambda>(i, r). \<not> (sideband r \<and> i \<noteq> 0)) order)) s"
      "\<And>j. j < length ?R \<Longrightarrow> map snd (filter (\<lambda>y. fst y = j) order) = ?R ! j"
    using merge_delivers_all [of ?R ?sink] by (elim exE conjE) blast
  from this(1) [of "[]"] this(2) [of 0] show ?thesis
    by (intro exI [of _ order]) simp
qed

section \<open>CPU groups\<close>

definition share :: "nat \<Rightarrow> nat \<Rightarrow> nat \<Rightarrow> nat" where
  "share i n k = (i + (n - 1 - k)) div n"

lemma share_0: "k < n \<Longrightarrow> share 0 n k = 0"
  by (simp add: share_def)

lemma share_bounds:
  assumes "k < n" "n \<le> i"
  shows "1 \<le> share i n k \<and> i div n \<le> share i n k \<and> share i n k \<le> Suc (i div n)"
proof -
  have "n div n \<le> share i n k" "i div n \<le> share i n k" "share i n k \<le> (i + n) div n"
    unfolding share_def using assms by (intro div_le_mono; simp)+
  moreover have "n div n = 1" "(i + n) div n = Suc (i div n)"
    using assms by (simp_all add: div_add_self2)
  ultimately show ?thesis
    by simp
qed

lemma share_Suc:
  assumes "k < n"
  shows "share (Suc i) n k = share i n k + (if i mod n = k then 1 else 0)"
proof -
  have "Suc (i + (n - 1 - k)) mod n = 0 \<longleftrightarrow> i mod n = k"
  proof -
    define r where "r = Suc (i + (n - 1 - k)) mod n"
    have "Suc (i + (n - 1 - k)) + k = i + n"
      using assms by simp
    then have "(i + n) mod n = (r + k) mod n"
      unfolding r_def by (metis mod_add_left_eq)
    then have eq: "i mod n = (r + k) mod n"
      by simp
    have "r < n"
      using assms by (simp add: r_def)
    then have "r = 0 \<longleftrightarrow> i mod n = k"
      unfolding eq using assms by (cases "r + k < n") (auto simp: mod_if [of "r + k"])
    then show ?thesis
      by (simp add: r_def)
  qed
  then show ?thesis
    by (simp add: share_def div_Suc)
qed

lemma mset_concat_update: "k < length gs \<Longrightarrow> mset (concat (gs[k := gs ! k @ [c]])) = add_mset c (mset (concat gs))"
proof (induction gs arbitrary: k)
  case (Cons g gs)
  then show ?case
    by (cases k) auto
qed simp

lemma deal_spec:
  assumes "0 < length groups" "\<forall>k < length groups. length (groups ! k) = share i (length groups) k"
  shows "length (deal i cs groups) = length groups \<and>
    mset (concat (deal i cs groups)) = mset (concat groups) + mset cs \<and>
    (\<forall>k < length groups. length (deal i cs groups ! k) = share (i + length cs) (length groups) k)"
  using assms
proof (induction cs arbitrary: i groups)
  case (Cons c cs)
  let ?k = "i mod length groups"
  let ?g = "groups[?k := groups ! ?k @ [c]]"
  have k: "?k < length groups"
    using Cons.prems by simp
  then have "mset (concat ?g) = mset (concat groups) + {#c#}"
    by (simp add: mset_concat_update)
  moreover have "\<forall>k < length ?g. length (?g ! k) = share (Suc i) (length ?g) k"
    using Cons.prems by (auto simp: nth_list_update share_Suc)
  ultimately show ?case
    using Cons.IH [of ?g "Suc i"] Cons.prems by (simp add: Let_def)
qed simp

text \<open>
  The CPU groups are a balanced partition: every CPU is in exactly one group, there are as many
  groups as the parallelism allows, none is empty, and sizes differ by at most one.
\<close>

theorem cpu_groups_partition:
  "mset (concat (cpu_groups cpus parallelism)) = mset cpus \<and>
   length (cpu_groups cpus parallelism) = min (max parallelism 1) (length cpus) \<and>
   (\<forall>g\<in>set (cpu_groups cpus parallelism). g \<noteq> [] \<and>
      length g \<in> {length cpus div length (cpu_groups cpus parallelism) ..
                  Suc (length cpus div length (cpu_groups cpus parallelism))})"
proof (cases "cpus = []")
  case True
  then show ?thesis
    by (simp add: cpu_groups_def Let_def)
next
  case False
  let ?n = "min (max parallelism 1) (length cpus)"
  let ?gs = "deal 0 cpus (replicate ?n [])"
  have n: "0 < ?n" "?n \<le> length cpus"
    using False by auto
  have "max (length cpus) 1 = length cpus"
    using False by (cases cpus) auto
  then have groups: "cpu_groups cpus parallelism = filter (\<lambda>g. g \<noteq> []) ?gs"
    by (simp add: cpu_groups_def)
  have start: "\<forall>k < length (replicate ?n []). length (replicate ?n [] ! k) = share 0 (length (replicate ?n [])) k"
    using share_0 by simp
  have d: "length ?gs = ?n" "mset (concat ?gs) = mset cpus"
      "\<And>k. k < ?n \<Longrightarrow> length (?gs ! k) = share (length cpus) ?n k"
    using deal_spec [of "replicate ?n []" 0 cpus, OF _ start] n(1) by auto
  have size: "1 \<le> length g \<and> length g \<in> {length cpus div ?n .. Suc (length cpus div ?n)}" if g: "g \<in> set ?gs" for g
  proof -
    obtain k where "k < length ?gs" "g = ?gs ! k"
      using g unfolding in_set_conv_nth by blast
    then have k: "k < ?n" "length g = share (length cpus) ?n k"
      using d(1,3) by simp_all
    from share_bounds [OF k(1) n(2)] k(2) show ?thesis
      by simp
  qed
  then have "[] \<notin> set ?gs"
    using size [of "[]"] by auto
  then have "filter (\<lambda>g. g \<noteq> []) ?gs = ?gs"
    unfolding filter_id_conv by metis
  then have "cpu_groups cpus parallelism = ?gs"
    using groups by simp
  then show ?thesis
    using d(1,2) size \<open>[] \<notin> set ?gs\<close> by metis
qed

theorem cpu_groups_partition_witness:
  "mset (concat (cpu_groups [4, 5, 6] 2)) = mset [4, 5, 6] \<and> length (cpu_groups [4, 5, 6] 2) = 2"
  using cpu_groups_partition [of "[4, 5, 6]" 2] by simp

end
