(* ===== verification/At_Instant.thy ===== *)
theory At_Instant
  imports Hotpaths
begin

text \<open>
  The \<^verbatim>\<open>at_instant\<close> query of \<^verbatim>\<open>src/service.rs\<close>: for every thread the deepest span open at an
  instant with the chain of its callers, and the row filter of the instruction query.
  \<open>innermost\<close> resolves a call site to the inlined function it lies in.
\<close>

record at_instant_row =
  ar_thread :: thread_id
  ar_stack :: "string list"
  ar_span :: string
  ar_start :: "u64 option"
  ar_end :: "u64 option"
  ar_completeness :: span_completeness
  ar_call_site_inline :: "string option"
  ar_elapsed :: "u64 option"

definition span_open_at :: "u64 \<Rightarrow> function_span \<Rightarrow> bool" where
  "span_open_at at_ns s \<longleftrightarrow>
     (case start_of s of None \<Rightarrow> False | Some st \<Rightarrow> st \<le> at_ns) \<and>
     (case end_of s of Some e \<Rightarrow> e > at_ns | None \<Rightarrow> True)"

text \<open>Both walks up the parents stop after 65 frames.\<close>

function depth_from :: "function_span list \<Rightarrow> nat \<Rightarrow> local_id option \<Rightarrow> nat" where
  "depth_from spans depth cur =
     (case Option.bind cur (span_by_id spans) of
        None \<Rightarrow> depth
      | Some p \<Rightarrow> if Suc depth > 64 then Suc depth else depth_from spans (Suc depth) (sp_parent p))"
  by pat_completeness auto
termination by (relation "measure (\<lambda>(spans, depth, cur). 65 - depth)") auto

function chain_from :: "function_span list \<Rightarrow> (local_id \<rightharpoonup> string) \<Rightarrow> string list \<Rightarrow> local_id option \<Rightarrow> string list" where
  "chain_from spans names chain cur =
     (case Option.bind cur (span_by_id spans) of
        None \<Rightarrow> chain
      | Some p \<Rightarrow>
          (let chain' = chain @ [frame_name names p]
           in if length chain' > 64 then chain' else chain_from spans names chain' (sp_parent p)))"
  by pat_completeness auto
termination by (relation "measure (\<lambda>(spans, names, chain, cur). 65 - length chain)") auto

declare depth_from.simps [simp del] chain_from.simps [simp del]

definition span_depth :: "function_span list \<Rightarrow> function_span \<Rightarrow> nat" where
  "span_depth spans sp = depth_from spans 0 (sp_parent sp)"

definition deeper :: "function_span \<times> nat \<Rightarrow> function_span \<times> nat \<Rightarrow> bool" where
  "deeper a e \<longleftrightarrow> snd a > snd e \<or> (snd a = snd e \<and> start_of (fst a) > start_of (fst e))"

definition skip_thread :: "selection \<Rightarrow> function_span \<Rightarrow> bool" where
  "skip_thread sel sp \<longleftrightarrow> (case sel_thread sel of None \<Rightarrow> False | Some t \<Rightarrow> sp_thread sp \<noteq> t)"

definition best_step ::
    "function_span list \<Rightarrow> u64 \<Rightarrow> selection \<Rightarrow> function_span \<Rightarrow> (thread_id \<times> function_span \<times> nat) list \<Rightarrow>
     (thread_id \<times> function_span \<times> nat) list" where
  "best_step spans at_ns sel sp best =
     (if skip_thread sel sp \<or> \<not> span_open_at at_ns sp then best
      else (let d = span_depth spans sp
            in entry_update (sp_thread sp) (sp, d) (\<lambda>e. if deeper (sp, d) e then (sp, d) else e) best))"

definition at_instant_row_of ::
    "string \<Rightarrow> function_span list \<Rightarrow> (local_id \<rightharpoonup> string) \<Rightarrow> u64 \<Rightarrow> (u64 \<Rightarrow> string option) \<Rightarrow>
     thread_id \<times> function_span \<times> nat \<Rightarrow> at_instant_row" where
  "at_instant_row_of analysis spans names at_ns innermost e =
     (let sp = fst (snd e)
      in \<lparr>ar_thread = fst e,
          ar_stack = rev (chain_from spans names [frame_name names sp] (sp_parent sp)),
          ar_span = analysis @ '':sp'' @ show_dec (sp_id sp),
          ar_start = start_of sp, ar_end = end_of sp, ar_completeness = sp_completeness sp,
          ar_call_site_inline = Option.bind (sp_call_site sp) (\<lambda>c. innermost (address_val c)),
          ar_elapsed = map_option (\<lambda>st. at_ns - st) (start_of sp)\<rparr>)"

definition at_instant_rows ::
    "string \<Rightarrow> function_span list \<Rightarrow> (local_id \<rightharpoonup> string) \<Rightarrow> u64 \<Rightarrow> selection \<Rightarrow> (u64 \<Rightarrow> string option) \<Rightarrow>
     at_instant_row list" where
  "at_instant_rows analysis spans names at_ns sel innermost =
     sort_by (cmp_key ar_thread)
       (map (at_instant_row_of analysis spans names at_ns innermost)
          (fold (best_step spans at_ns sel) spans []))"

definition insn_selected :: "instruction_record \<Rightarrow> selection \<Rightarrow> bool" where
  "insn_selected insn sel \<longleftrightarrow>
     \<not> (case sel_thread sel of None \<Rightarrow> False | Some t \<Rightarrow> t \<noteq> in_thread insn) \<and>
     (case (sel_start sel, sel_end sel, relative_ns (in_time insn)) of
        (None, None, _) \<Rightarrow> True
      | (_, _, None) \<Rightarrow> False
      | (_, _, Some ns) \<Rightarrow> contains_instant sel ns)"

section \<open>The walks follow the lineage\<close>

lemma depth_from_lineage:
  "lineage spans sp ch \<Longrightarrow> depth + length ch \<le> 65 \<Longrightarrow> depth_from spans depth (sp_parent sp) = depth + (length ch - 1)"
proof (induction arbitrary: depth rule: lineage.induct)
  case (root sp)
  then show ?case by (simp add: depth_from.simps)
next
  case (child sp p ch)
  then have "depth_from spans depth (sp_parent sp) = depth_from spans (Suc depth) (sp_parent p)"
    using lineage_nonempty [OF child.hyps(3)] by (cases ch) (simp_all add: depth_from.simps [of _ _ "sp_parent sp"])
  then show ?case
    using child.IH [of "Suc depth"] child.prems lineage_nonempty [OF child.hyps(3)] by (cases ch) simp_all
qed

lemma chain_from_lineage:
  "lineage spans sp ch \<Longrightarrow> length chain + length ch \<le> 65 \<Longrightarrow>
     chain_from spans names chain (sp_parent sp) = chain @ rev (map (frame_name names) (butlast ch))"
proof (induction arbitrary: chain rule: lineage.induct)
  case (root sp)
  then show ?case by (simp add: chain_from.simps)
next
  case (child sp p ch)
  obtain ch' where ch: "ch = ch' @ [p]"
    using child.hyps(3) by (cases rule: lineage.cases) auto
  then have "chain_from spans names chain (sp_parent sp) = chain_from spans names (chain @ [frame_name names p]) (sp_parent p)"
    using child by (simp add: chain_from.simps [of _ _ _ "sp_parent sp"] Let_def)
  then show ?case
    using child.IH [of "chain @ [frame_name names p]"] child.prems ch by (simp add: butlast_append)
qed

lemma stack_is_lineage:
  assumes "lineage spans sp ch" "length ch \<le> 64"
  shows "rev (chain_from spans names [frame_name names sp] (sp_parent sp)) = map (frame_name names) ch"
proof -
  obtain ch' where "ch = ch' @ [sp]"
    using assms(1) by (cases rule: lineage.cases) auto
  then show ?thesis
    using chain_from_lineage [OF assms(1), of "[frame_name names sp]"] assms(2) by simp
qed

section \<open>The deepest open span per thread\<close>

definition candidate :: "u64 \<Rightarrow> selection \<Rightarrow> function_span \<Rightarrow> bool" where
  "candidate at_ns sel sp \<longleftrightarrow> \<not> skip_thread sel sp \<and> span_open_at at_ns sp"

definition best_entry ::
    "function_span list \<Rightarrow> u64 \<Rightarrow> selection \<Rightarrow> function_span set \<Rightarrow> thread_id \<times> function_span \<times> nat \<Rightarrow> bool" where
  "best_entry spans at_ns sel seen e \<longleftrightarrow>
     fst (snd e) \<in> seen \<and> candidate at_ns sel (fst (snd e)) \<and> sp_thread (fst (snd e)) = fst e \<and>
     snd (snd e) = span_depth spans (fst (snd e)) \<and>
     (\<forall>s\<in>seen. candidate at_ns sel s \<and> sp_thread s = fst e \<longrightarrow> \<not> deeper (s, span_depth spans s) (snd e))"

definition best_ok ::
    "function_span list \<Rightarrow> u64 \<Rightarrow> selection \<Rightarrow> function_span set \<Rightarrow> (thread_id \<times> function_span \<times> nat) list \<Rightarrow> bool" where
  "best_ok spans at_ns sel seen best \<longleftrightarrow>
     distinct (map fst best) \<and> fst ` set best = sp_thread ` {s \<in> seen. candidate at_ns sel s} \<and>
     (\<forall>e\<in>set best. best_entry spans at_ns sel seen e)"

lemma best_entryD:
  assumes "best_entry spans at_ns sel seen e"
  shows "fst (snd e) \<in> seen" "candidate at_ns sel (fst (snd e))" "sp_thread (fst (snd e)) = fst e"
    "snd (snd e) = span_depth spans (fst (snd e))"
    "\<forall>s\<in>seen. candidate at_ns sel s \<and> sp_thread s = fst e \<longrightarrow> \<not> deeper (s, span_depth spans s) (snd e)"
  using assms unfolding best_entry_def by blast+

lemma set_entry_update:
  "distinct (map fst m) \<Longrightarrow> set (entry_update k d f m) =
     {e \<in> set m. fst e \<noteq> k} \<union> {(k, case map_of m k of None \<Rightarrow> f d | Some v \<Rightarrow> f v)}"
proof (induction k d f m rule: entry_update.induct)
  case (2 k d f k' v m)
  show ?case
  proof (cases "k = k'")
    case True
    then have "k \<notin> fst ` set m"
      using "2.prems" by simp
    then have "{e \<in> set ((k', v) # m). fst e \<noteq> k} = set m"
      using True by auto
    then show ?thesis
      using True by simp
  next
    case False
    then have "{e \<in> set ((k', v) # m). fst e \<noteq> k} = insert (k', v) {e \<in> set m. fst e \<noteq> k}"
      by auto
    then show ?thesis
      using 2 False by (simp add: insert_commute)
  qed
qed simp

lemma deeper_trans: "\<not> deeper a e \<Longrightarrow> deeper b e \<Longrightarrow> \<not> deeper a b"
  by (auto simp: deeper_def)

lemma best_entry_grow:
  assumes "best_entry spans at_ns sel seen e" "candidate at_ns sel sp \<and> sp_thread sp = fst e \<longrightarrow> \<not> deeper (sp, span_depth spans sp) (snd e)"
  shows "best_entry spans at_ns sel (insert sp seen) e"
  unfolding best_entry_def
proof (intro conjI)
  show "\<forall>s\<in>insert sp seen. candidate at_ns sel s \<and> sp_thread s = fst e \<longrightarrow> \<not> deeper (s, span_depth spans s) (snd e)"
    using best_entryD(5) [OF assms(1)] assms(2) by (metis insert_iff)
qed (use best_entryD(1-4) [OF assms(1)] in \<open>simp_all only: insert_iff simp_thms\<close>)

lemma deeper_irrefl: "\<not> deeper a a"
  by (simp add: deeper_def)

lemma best_entry_new:
  assumes "candidate at_ns sel sp" "\<forall>s\<in>seen. candidate at_ns sel s \<and> sp_thread s = sp_thread sp \<longrightarrow>
    \<not> deeper (s, span_depth spans s) (sp, span_depth spans sp)"
  shows "best_entry spans at_ns sel (insert sp seen) (sp_thread sp, sp, span_depth spans sp)"
  unfolding best_entry_def fst_conv snd_conv
proof (intro conjI)
  show "\<forall>s\<in>insert sp seen. candidate at_ns sel s \<and> sp_thread s = sp_thread sp \<longrightarrow>
      \<not> deeper (s, span_depth spans s) (sp, span_depth spans sp)"
    using assms(2) deeper_irrefl by (metis insert_iff)
qed (use assms(1) in \<open>simp_all only: insert_iff simp_thms\<close>)

lemma best_step_ok:
  assumes "best_ok spans at_ns sel seen best"
  shows "best_ok spans at_ns sel (insert sp seen) (best_step spans at_ns sel sp best)"
proof (cases "candidate at_ns sel sp")
  case False
  then have "best_step spans at_ns sel sp best = best"
    by (auto simp: best_step_def candidate_def)
  moreover have "{s \<in> insert sp seen. candidate at_ns sel s} = {s \<in> seen. candidate at_ns sel s}"
    using False by blast
  ultimately show ?thesis
    using assms False best_entry_grow unfolding best_ok_def by metis
next
  case True
  let ?d = "span_depth spans sp" and ?k = "sp_thread sp"
  let ?f = "\<lambda>e. if deeper (sp, ?d) e then (sp, ?d) else e"
  let ?v = "case map_of best ?k of None \<Rightarrow> ?f (sp, ?d) | Some v \<Rightarrow> ?f v"
  have dist: "distinct (map fst best)" and keys: "fst ` set best = sp_thread ` {s \<in> seen. candidate at_ns sel s}"
      and old: "\<And>e. e \<in> set best \<Longrightarrow> best_entry spans at_ns sel seen e"
    using assms unfolding best_ok_def by blast+
  have best: "best_step spans at_ns sel sp best = entry_update ?k (sp, ?d) ?f best"
    using True by (simp add: best_step_def candidate_def Let_def)
  have new: "best_entry spans at_ns sel (insert sp seen) (?k, ?v)"
  proof (cases "map_of best ?k")
    case None
    then have "?k \<notin> sp_thread ` {s \<in> seen. candidate at_ns sel s}"
      using keys by (simp add: map_of_eq_None_iff)
    then have "\<forall>s\<in>seen. candidate at_ns sel s \<longrightarrow> sp_thread s \<noteq> ?k"
      by (metis (mono_tags, lifting) imageI mem_Collect_eq)
    then have "best_entry spans at_ns sel (insert sp seen) (?k, sp, ?d)"
      using best_entry_new [OF True] by metis
    then show ?thesis
      using None by simp
  next
    case (Some v)
    then have v: "best_entry spans at_ns sel seen (?k, v)"
      using old map_of_SomeD by metis
    show ?thesis
    proof (cases "deeper (sp, ?d) v")
      case True
      then have "\<forall>s\<in>seen. candidate at_ns sel s \<and> sp_thread s = ?k \<longrightarrow> \<not> deeper (s, span_depth spans s) (sp, ?d)"
        using best_entryD(5) [OF v] deeper_trans unfolding fst_conv snd_conv by metis
      then show ?thesis
        using best_entry_new [OF \<open>candidate at_ns sel sp\<close>] Some True by simp
    next
      case False
      then show ?thesis
        using best_entry_grow [OF v, of sp] Some by simp
    qed
  qed
  have "{s \<in> insert sp seen. candidate at_ns sel s} = insert sp {s \<in> seen. candidate at_ns sel s}"
    using True by blast
  then have "insert ?k (fst ` set best) = sp_thread ` {s \<in> insert sp seen. candidate at_ns sel s}"
    using keys by simp
  moreover have "best_entry spans at_ns sel (insert sp seen) e" if "e \<in> set (entry_update ?k (sp, ?d) ?f best)" for e
  proof (cases "fst e = ?k")
    case True
    then have "e = (?k, ?v)"
      using that unfolding set_entry_update [OF dist] Un_iff mem_Collect_eq singleton_iff by argo
    then show ?thesis
      using new by simp
  next
    case False
    then have "e \<in> set best"
      using that unfolding set_entry_update [OF dist] by auto
    then show ?thesis
      using best_entry_grow [OF old] False by metis
  qed
  ultimately show ?thesis
    unfolding best best_ok_def fst_entry_update using distinct_entry_update [OF dist] by (intro conjI ballI) assumption+
qed

lemma best_fold_ok:
  "best_ok spans at_ns sel seen best \<Longrightarrow> best_ok spans at_ns sel (seen \<union> set xs) (fold (best_step spans at_ns sel) xs best)"
proof (induction xs arbitrary: seen best)
  case (Cons x xs)
  from Cons.IH [OF best_step_ok [OF Cons.prems]] show ?case
    by simp
qed simp

section \<open>Property\<close>

interpretation by_thread: comparator "cmp_key ar_thread"
  by (rule comparator_key)

text \<open>
  C24: The stacks at an instant. The query has exactly one row, in the order of their ids, for every
  selected thread with a span open at the instant. When caller chains are finite and have at most 64
  frames, each stack is the caller chain of a span of that thread that is open at the instant,
  no open span of the thread has a longer chain, and the elapsed time runs from its start to the instant.
\<close>

theorem at_instant_deepest:
  fixes analysis names at_ns sel innermost
  assumes "\<And>s. s \<in> set spans \<Longrightarrow> \<exists>ch. lineage spans s ch \<and> length ch \<le> 64"
  defines "rows \<equiv> at_instant_rows analysis spans names at_ns sel innermost"
    and "open_in \<equiv> (\<lambda>t. {s \<in> set spans. sp_thread s = t \<and> span_open_at at_ns s \<and>
           (case sel_thread sel of None \<Rightarrow> True | Some t' \<Rightarrow> t = t')})"
  shows "sorted_wrt (<) (map ar_thread rows) \<and> ar_thread ` set rows = {t. open_in t \<noteq> {}} \<and>
    (\<forall>r\<in>set rows. \<exists>sp ch start. sp \<in> open_in (ar_thread r) \<and> lineage spans sp ch \<and>
       ar_stack r = map (frame_name names) ch \<and> ar_span r = analysis @ '':sp'' @ show_dec (sp_id sp) \<and>
       start_of sp = Some start \<and> start \<le> at_ns \<and> ar_elapsed r = Some (at_ns - start) \<and>
       (\<forall>s\<in>open_in (ar_thread r). \<forall>ch'. lineage spans s ch' \<longrightarrow> length ch' \<le> length ch))"
proof -
  define best where "best = fold (best_step spans at_ns sel) spans []"
  have "best_ok spans at_ns sel {} []"
    by (simp add: best_ok_def)
  from best_fold_ok [OF this, of spans] have ok: "best_ok spans at_ns sel (set spans) best"
    by (simp add: best_def)
  have mset: "mset rows = mset (map (at_instant_row_of analysis spans names at_ns innermost) best)"
    by (simp add: rows_def at_instant_rows_def best_def)
  then have set: "set rows = at_instant_row_of analysis spans names at_ns innermost ` set best"
    by (metis set_map set_mset_mset)
  have thread: "ar_thread (at_instant_row_of analysis spans names at_ns innermost e) = fst e" for e
    by (simp add: at_instant_row_of_def Let_def)
  have open_in: "s \<in> open_in t \<longleftrightarrow> s \<in> set spans \<and> candidate at_ns sel s \<and> sp_thread s = t" for s t
    unfolding open_in_def candidate_def skip_thread_def by (cases "sel_thread sel") auto
  have "sorted_wrt (<) (map ar_thread rows)"
  proof -
    have "mset (map ar_thread rows) = mset (map fst best)"
      using arg_cong [OF mset, of "image_mset ar_thread"] by (simp add: thread image_mset.compositionality o_def)
    then have "distinct (map ar_thread rows)"
      using ok unfolding best_ok_def by (metis mset_eq_imp_distinct_iff)
    moreover have "sorted (map ar_thread rows)"
      using by_thread.sorted_sort_by [of "map (at_instant_row_of analysis spans names at_ns innermost) best"]
      unfolding rows_def at_instant_rows_def best_def [symmetric] sorted_wrt_map
      by (rule sorted_wrt_mono_rel [rotated]) (auto simp: cmp_key_def split: if_splits)
    ultimately show ?thesis
      by (simp add: strict_sorted_iff)
  qed
  moreover have "ar_thread ` set rows = {t. open_in t \<noteq> {}}"
  proof -
    have "ar_thread ` set rows = fst ` set best"
      unfolding set by (simp add: image_image thread)
    also have "\<dots> = sp_thread ` {s \<in> set spans. candidate at_ns sel s}"
      using ok unfolding best_ok_def by blast
    also have "\<dots> = {t. open_in t \<noteq> {}}"
      unfolding image_def ex_in_conv [symmetric] open_in by (rule Collect_cong) (metis (mono_tags, lifting) mem_Collect_eq)
    finally show ?thesis .
  qed
  moreover have "\<exists>sp ch start. sp \<in> open_in (ar_thread r) \<and> lineage spans sp ch \<and>
       ar_stack r = map (frame_name names) ch \<and> ar_span r = analysis @ '':sp'' @ show_dec (sp_id sp) \<and>
       start_of sp = Some start \<and> start \<le> at_ns \<and> ar_elapsed r = Some (at_ns - start) \<and>
       (\<forall>s\<in>open_in (ar_thread r). \<forall>ch'. lineage spans s ch' \<longrightarrow> length ch' \<le> length ch)" if "r \<in> set rows" for r
  proof -
    obtain e where e: "e \<in> set best" "r = at_instant_row_of analysis spans names at_ns innermost e"
      using \<open>r \<in> set rows\<close> unfolding set by blast
    let ?sp = "fst (snd e)"
    have entry: "best_entry spans at_ns sel (set spans) e"
      using ok e(1) unfolding best_ok_def by blast
    note E = best_entryD [OF entry]
    obtain ch where ch: "lineage spans ?sp ch" "length ch \<le> 64"
      using assms(1) [OF E(1)] by blast
    obtain start where start: "start_of ?sp = Some start" "start \<le> at_ns"
      using E(2) by (auto simp: candidate_def span_open_at_def split: option.splits)
    have depth: "span_depth spans s = length ch' - 1" if "s \<in> set spans" "lineage spans s ch'" for s ch'
    proof -
      have "length ch' \<le> 64"
        using assms(1) [OF that(1)] lineage_unique [OF that(2)] by metis
      then show ?thesis
        using depth_from_lineage [OF that(2), of 0] by (simp add: span_depth_def)
    qed
    have "length ch' \<le> length ch" if "s \<in> open_in (fst e)" "lineage spans s ch'" for s ch'
    proof -
      have "\<not> deeper (s, span_depth spans s) (snd e)"
        using E(5) that(1) open_in by blast
      then have "span_depth spans s \<le> span_depth spans ?sp"
        using E(4) by (simp add: deeper_def)
      then have "length ch' - 1 \<le> length ch - 1"
        using depth [OF _ that(2)] depth [OF E(1) ch(1)] that(1) open_in by simp
      then show ?thesis
        using lineage_nonempty [OF ch(1)] by (cases ch) auto
    qed
    then show ?thesis
      using E(1-3) ch start stack_is_lineage [OF ch] open_in
      by (intro exI [of _ ?sp] exI [of _ ch] exI [of _ start]) (simp add: e(2) at_instant_row_of_def Let_def)
  qed
  ultimately show ?thesis
    by blast
qed

theorem at_instant_deepest_witness:
  "\<exists>r sp ch start. r \<in> set (at_instant_rows ''a'' [demo_child, demo_span] Map.empty 5 demo_sel (\<lambda>_. None)) \<and>
        lineage [demo_child, demo_span] sp ch \<and> ar_stack r = map (frame_name Map.empty) ch \<and>
       start_of sp = Some start \<and> ar_elapsed r = Some (5 - start)"
proof -
  let ?s = "[demo_child, demo_span]"
  have r: "lineage ?s demo_span [demo_span]"
    by (rule lineage.root) (simp add: demo_span_def)
  have c: "lineage ?s demo_child ([demo_span] @ [demo_child])"
    using r by (rule lineage.child [rotated 2]) (simp_all add: demo_span_def demo_child_def span_by_id_def)
  have "\<exists>ch. lineage ?s s ch \<and> length ch \<le> 64" if "s \<in> set ?s" for s
  proof (cases "s = demo_span")
    case True
    then show ?thesis using r by (intro exI [of _ "[demo_span]"]) simp
  next
    case False
    then show ?thesis using c that by (intro exI [of _ "[demo_span] @ [demo_child]"]) simp
  qed
  note deepest = at_instant_deepest [OF this, of "''a''" Map.empty 5 demo_sel "\<lambda>_. None"]
  have "demo_span \<in> {s \<in> set ?s. sp_thread s = ''t_0'' \<and> span_open_at 5 s \<and>
          (case sel_thread demo_sel of None \<Rightarrow> True | Some t' \<Rightarrow> ''t_0'' = t')}"
    by (simp add: demo_span_def demo_sel_def span_open_at_def time_estimate_def)
  then have "''t_0'' \<in> ar_thread ` set (at_instant_rows ''a'' ?s Map.empty 5 demo_sel (\<lambda>_. None))"
    using deepest by blast
  then show ?thesis
    using deepest by blast
qed

end
