(* ===== verification/Store_Files.thy ===== *)
theory Store_Files
  imports Json_Ids "HOL-Library.AList"
begin

text \<open>
  Directory trees as the store and the exit sweep see them: look up, create, rename and
  remove by path, the recursive walk and its size. Paths are relative to the store root.
  The operations fail where the system calls they stand for fail on an otherwise healthy
  disk, and the recursive removal also where it is told that a call fails; symbolic links and
  permissions are not part of the model.
\<close>

datatype node = FileN string | DirN "(string \<times> node) list"

type_synonym path = "string list"

fun look :: "path \<Rightarrow> node \<Rightarrow> node option" where
  "look [] n = Some n"
| "look (x # xs) (FileN s) = None"
| "look (x # xs) (DirN es) = (case map_of es x of None \<Rightarrow> None | Some n \<Rightarrow> look xs n)"

text \<open>Set or clear one entry of an existing directory.\<close>

definition set_entry :: "string \<Rightarrow> node option \<Rightarrow> (string \<times> node) list \<Rightarrow> (string \<times> node) list" where
  "set_entry x v es = (case v of None \<Rightarrow> AList.delete x es | Some n \<Rightarrow> AList.update x n es)"

fun put :: "path \<Rightarrow> node option \<Rightarrow> node \<Rightarrow> node" where
  "put [] v n = n"
| "put (x # xs) v (FileN s) = FileN s"
| "put (x # xs) v (DirN es) =
     (if xs = [] then DirN (set_entry x v es)
      else case map_of es x of
        None \<Rightarrow> DirN es
      | Some n \<Rightarrow> DirN (set_entry x (Some (put xs v n)) es))"

fun is_dir :: "node \<Rightarrow> bool" where
  "is_dir (DirN es) = True"
| "is_dir (FileN s) = False"

definition dir_at :: "path \<Rightarrow> node \<Rightarrow> bool" where
  "dir_at p t \<longleftrightarrow> (case look p t of None \<Rightarrow> False | Some n \<Rightarrow> is_dir n)"

definition path_exists :: "path \<Rightarrow> node \<Rightarrow> bool" where
  "path_exists p t \<longleftrightarrow> look p t \<noteq> None"

definition read_dir :: "path \<Rightarrow> node \<Rightarrow> error + (string \<times> node) list" where
  "read_dir p t =
     (case look p t of
        None \<Rightarrow> Inl (error_of_io IoNotFound ''No such file or directory'')
      | Some (FileN s) \<Rightarrow> Inl (error_of_io IoOther ''Not a directory'')
      | Some (DirN es) \<Rightarrow> Inr es)"

text \<open>\<^verbatim>\<open>fs::create_dir_all\<close>\<close>

fun create_dir_all :: "path \<Rightarrow> node \<Rightarrow> error + node" where
  "create_dir_all p (FileN s) = Inl (error_of_io IoOther ''Not a directory'')"
| "create_dir_all [] (DirN es) = Inr (DirN es)"
| "create_dir_all (x # xs) (DirN es) =
     try_bind (create_dir_all xs (case map_of es x of None \<Rightarrow> DirN [] | Some n \<Rightarrow> n))
       (\<lambda>n. Inr (DirN (set_entry x (Some n) es)))"

text \<open>\<^verbatim>\<open>fs::rename\<close>: a file replaces a file, a directory only an empty directory.\<close>

definition replaceable :: "node \<Rightarrow> node option \<Rightarrow> bool" where
  "replaceable n old \<longleftrightarrow>
     (case old of None \<Rightarrow> True | Some (FileN s) \<Rightarrow> \<not> is_dir n | Some (DirN es) \<Rightarrow> is_dir n \<and> es = [])"

definition rename_path :: "path \<Rightarrow> path \<Rightarrow> node \<Rightarrow> error + node" where
  "rename_path src dst t =
     (case look src t of
        None \<Rightarrow> Inl (error_of_io IoNotFound ''No such file or directory'')
      | Some n \<Rightarrow>
          if prefix src dst then (if src = dst then Inr t else Inl (error_of_io IoOther ''Invalid argument''))
          else if \<not> dir_at (butlast dst) t then Inl (error_of_io IoNotFound ''No such file or directory'')
          else if replaceable n (look dst t) then Inr (put dst (Some n) (put src None t))
          else Inl (error_of_io IoOther ''Directory not empty''))"

text \<open>The path a raw path names: \<open>.\<close> stays and \<open>..\<close> goes to the parent.\<close>

definition resolve_path :: "path \<Rightarrow> path" where
  "resolve_path p = rev (fold (\<lambda>c acc. if c = ''.'' then acc else if c = ''..'' then tl acc else c # acc) p [])"

text \<open>
  \<^verbatim>\<open>fs::remove_dir_all\<close> is many system calls: it lists the directory, removes one entry after the other,
  deepest first, and then the directory itself, and it stops at the first call that fails with whatever is
  left by then. \<open>io\<close> tells which calls fail.
\<close>

datatype fs_call = MeasureDir path | ListDir path | NextEntry path | Unlink path | Rmdir path

fun nodes :: "node \<Rightarrow> nat" where
  "nodes (FileN s) = 1"
| "nodes (DirN es) = 1 + sum_list (map (\<lambda>e. nodes (snd e)) es)"

lemma nodes_pos: "0 < nodes n"
  by (cases n) auto

function (sequential) remove_tree :: "(fs_call \<Rightarrow> error option) \<Rightarrow> path \<Rightarrow> node \<Rightarrow> (error + unit) \<times> node option"
  and remove_entries :: "(fs_call \<Rightarrow> error option) \<Rightarrow> path \<Rightarrow> (string \<times> node) list \<Rightarrow>
    (error + unit) \<times> (string \<times> node) list" where
  "remove_tree io p (FileN s) =
     (case io (Unlink p) of Some e \<Rightarrow> (Inl e, Some (FileN s)) | None \<Rightarrow> (Inr (), None))"
| "remove_tree io p (DirN es) =
     (case io (ListDir p) of
        Some e \<Rightarrow> (Inl e, Some (DirN es))
      | None \<Rightarrow>
          (case remove_entries io p es of
             (Inl e, es') \<Rightarrow> (Inl e, Some (DirN es'))
           | (Inr _, es') \<Rightarrow> (case io (Rmdir p) of Some e \<Rightarrow> (Inl e, Some (DirN es')) | None \<Rightarrow> (Inr (), None))))"
| "remove_entries io p [] = (Inr (), [])"
| "remove_entries io p ((x, n) # es) =
     (case io (NextEntry (p @ [x])) of
        Some e \<Rightarrow> (Inl e, (x, n) # es)
      | None \<Rightarrow>
          (case remove_tree io (p @ [x]) n of
             (Inl e, m) \<Rightarrow> (Inl e, (case m of None \<Rightarrow> es | Some n' \<Rightarrow> (x, n') # es))
           | (Inr _, m) \<Rightarrow> remove_entries io p es))"
  by pat_completeness auto
termination
  by (relation "measure (case_sum (\<lambda>(io, p, n). 2 * nodes n)
        (\<lambda>(io, p, es). 2 * sum_list (map (\<lambda>e. nodes (snd e)) es) + 1))")
    (use nodes_pos in auto)

text \<open>
  The last call, which removes the directory itself, fails on a path that ends in \<open>.\<close>, and on one that
  ends in \<open>..\<close> because the parent it goes through is gone by then.
\<close>

definition last_call :: "path \<Rightarrow> (fs_call \<Rightarrow> error option) \<Rightarrow> fs_call \<Rightarrow> error option" where
  "last_call raw io =
     (if last raw = ''.'' then io(Rmdir (resolve_path raw) := Some (error_of_io IoOther ''Invalid argument''))
      else if last raw = ''..''
      then io(Rmdir (resolve_path raw) := Some (error_of_io IoNotFound ''No such file or directory''))
      else io)"

definition remove_dir_all :: "(fs_call \<Rightarrow> error option) \<Rightarrow> path \<Rightarrow> node \<Rightarrow> (error + unit) \<times> node" where
  "remove_dir_all io raw t =
     (let p = resolve_path raw
      in case look p t of
           None \<Rightarrow> (Inl (error_of_io IoNotFound ''No such file or directory''), t)
         | Some (FileN s) \<Rightarrow> (Inl (error_of_io IoOther ''Not a directory''), t)
         | Some (DirN es) \<Rightarrow>
             (case remove_tree (last_call raw io) p (DirN es) of
                (r, m) \<Rightarrow> (r, if p = [] then (case m of None \<Rightarrow> DirN [] | Some n \<Rightarrow> n) else put p m t)))"

text \<open>The recursive walk lists a path and everything below it.\<close>

fun walk_tree :: "path \<Rightarrow> node \<Rightarrow> (path \<times> node) list" where
  "walk_tree p (FileN s) = [(p, FileN s)]"
| "walk_tree p (DirN es) = (p, DirN es) # concat (map (\<lambda>(x, n). walk_tree (p @ [x]) n) es)"

definition add_len :: "u64 \<Rightarrow> path \<times> node \<Rightarrow> u64" where
  "add_len n e = (case snd e of FileN s \<Rightarrow> sat_add64 n (length s) | DirN es \<Rightarrow> n)"

definition dir_size :: "path \<Rightarrow> node \<Rightarrow> u64" where
  "dir_size p t = (case look p t of None \<Rightarrow> 0 | Some n \<Rightarrow> foldl add_len 0 (walk_tree p n))"

section \<open>Lookup after an update\<close>

fun names_ok :: "node \<Rightarrow> bool" where
  "names_ok (FileN s) \<longleftrightarrow> True"
| "names_ok (DirN es) \<longleftrightarrow> distinct (map fst es) \<and> (\<forall>e\<in>set es. names_ok (snd e))"

fun bytes :: "node \<Rightarrow> nat" where
  "bytes (FileN s) = length s"
| "bytes (DirN es) = sum_list (map (\<lambda>e. bytes (snd e)) es)"

lemma map_of_set_entry: "map_of (set_entry x v es) = (map_of es)(x := v)"
  by (cases v) (simp_all add: set_entry_def update_conv' delete_conv')

lemma look_append: "look (p @ q) t = Option.bind (look p t) (look q)"
  by (induction p t rule: look.induct) (auto split: option.split)

lemma look_put_other: "\<not> prefix p q \<Longrightarrow> \<not> prefix q p \<Longrightarrow> look q (put p v t) = look q t"
proof (induction p v t arbitrary: q rule: put.induct)
  case (3 x xs v es)
  obtain y ys where q: "q = y # ys"
    using "3.prems" by (cases q) auto
  show ?case
  proof (cases "x = y")
    case True
    then have "xs \<noteq> []" "\<not> prefix xs ys" "\<not> prefix ys xs"
      using "3.prems" q by auto
    then show ?thesis
      using "3.IH" q True by (auto simp: map_of_set_entry split: option.split)
  next
    case False
    then show ?thesis
      using q by (auto simp: map_of_set_entry split: option.split)
  qed
qed (auto elim: prefixE)

lemma look_put_below:
  assumes "dir_at (butlast p) t" "p \<noteq> []"
  shows "look (p @ r) (put p v t) = Option.bind v (look r)"
  using assms
proof (induction p v t rule: put.induct)
  case (3 x xs v es)
  then show ?case
    by (cases "xs = []") (auto simp: dir_at_def map_of_set_entry split: option.splits)
qed (auto simp: dir_at_def split: if_splits)

lemma dir_at_simps [simp]:
  "dir_at [] n = is_dir n"
  "dir_at (x # xs) (FileN s) = False"
  "dir_at (x # xs) (DirN es) = (case map_of es x of None \<Rightarrow> False | Some n \<Rightarrow> dir_at xs n)"
  by (auto simp: dir_at_def split: option.split)

lemma is_dir_put [simp]: "is_dir (put p v t) = is_dir t"
  by (induction p v t rule: put.induct) (auto split: option.split)

text \<open>An ancestor of the updated path stays a directory.\<close>

lemma dir_at_put_above: "prefix q p \<Longrightarrow> q \<noteq> p \<Longrightarrow> dir_at q (put p v t) = dir_at q t"
proof (induction p v t arbitrary: q rule: put.induct)
  case (2 x xs v s)
  then show ?case by (cases q) auto
next
  case (3 x xs v es)
  show ?case
  proof (cases q)
    case Nil
    then show ?thesis by (simp add: is_dir_put del: put.simps)
  next
    case (Cons y ys)
    then have "y = x" "prefix ys xs" "ys \<noteq> xs" "xs \<noteq> []"
      using "3.prems" by auto
    then show ?thesis
      using "3.IH" Cons by (auto simp: map_of_set_entry split: option.split)
  qed
qed auto

lemma dir_at_prefix: "dir_at p t \<Longrightarrow> prefix q p \<Longrightarrow> dir_at q t"
proof (induction p t arbitrary: q rule: look.induct)
  case (3 x xs es)
  then show ?case
    by (cases q) (auto split: option.splits)
qed auto

section \<open>The files of a tree\<close>

text \<open>The abstract view: which content is where. Directories without files do not show in it.\<close>

definition file_at :: "path \<Rightarrow> node \<Rightarrow> string option" where
  "file_at p t = (case look p t of Some (FileN s) \<Rightarrow> Some s | _ \<Rightarrow> None)"

lemma file_at_simps [simp]:
  "file_at [] (FileN s) = Some s"
  "file_at [] (DirN es) = None"
  "file_at (x # xs) (FileN s) = None"
  "file_at (x # xs) (DirN es) = (case map_of es x of None \<Rightarrow> None | Some n \<Rightarrow> file_at xs n)"
  by (auto simp: file_at_def split: option.split)

lemma file_at_dir: "dir_at p t \<Longrightarrow> file_at p t = None"
  by (auto simp: dir_at_def file_at_def split: option.splits node.splits)

lemma file_at_append: "file_at (p @ q) t = (case look p t of None \<Rightarrow> None | Some n \<Rightarrow> file_at q n)"
  by (auto simp: file_at_def look_append split: option.split)

lemma file_at_put:
  assumes "dir_at (butlast p) t" "p \<noteq> []"
  shows "file_at q (put p v t) =
    (if prefix p q then (case v of None \<Rightarrow> None | Some n \<Rightarrow> file_at (drop (length p) q) n) else file_at q t)"
proof (cases "prefix p q")
  case True
  then obtain r where "q = p @ r"
    by (elim prefixE)
  then show ?thesis
    using True look_put_below [OF assms, of r v] by (auto simp: file_at_def split: option.split)
next
  case np: False
  show ?thesis
  proof (cases "prefix q p")
    case True
    then have "prefix q (butlast p)" "q \<noteq> p"
      using np by (auto elim!: prefixE simp: butlast_append)
    then have "dir_at q t" "dir_at q (put p v t)"
      using dir_at_prefix [OF assms(1)] dir_at_put_above [OF True, of v t] by auto
    then show ?thesis
      using np by (simp add: file_at_dir)
  next
    case False
    then show ?thesis
      using np look_put_other [OF np False] by (simp add: file_at_def)
  qed
qed

section \<open>Sizes\<close>

definition bytes_opt :: "node option \<Rightarrow> nat" where
  "bytes_opt v = (case v of None \<Rightarrow> 0 | Some n \<Rightarrow> bytes n)"

lemma bytes_set_entry:
  "distinct (map fst es) \<Longrightarrow>
     bytes (DirN (set_entry x v es)) + bytes_opt (map_of es x) = bytes (DirN es) + bytes_opt v"
proof (induction es)
  case (Cons e es)
  obtain y n where e: "e = (y, n)" by force
  show ?case
  proof (cases "x = y")
    case True
    then have "AList.delete x es = es"
      using Cons.prems e by (simp add: AList.delete_notin_dom)
    then show ?thesis
      using True e by (cases v) (auto simp: set_entry_def bytes_opt_def)
  next
    case False
    then show ?thesis
      using Cons e by (cases v) (auto simp: set_entry_def)
  qed
qed (auto simp: set_entry_def bytes_opt_def split: option.split)

lemma names_ok_lookup: "names_ok (DirN es) \<Longrightarrow> map_of es x = Some n \<Longrightarrow> names_ok n"
  by (auto dest: map_of_SomeD)

lemma names_ok_look: "names_ok t \<Longrightarrow> look p t = Some n \<Longrightarrow> names_ok n"
  by (induction p t rule: look.induct) (auto dest: names_ok_lookup split: option.splits simp del: names_ok.simps)

lemma bytes_put:
  assumes "names_ok t" "dir_at (butlast p) t" "p \<noteq> []"
  shows "bytes (put p v t) + bytes_opt (look p t) = bytes t + bytes_opt v"
  using assms
proof (induction p v t rule: put.induct)
  case (3 x xs v es)
  show ?case
  proof (cases "xs = []")
    case True
    then show ?thesis
      using bytes_set_entry [of es x v] "3.prems"(1) by (auto split: option.split)
  next
    case False
    then obtain n where n: "map_of es x = Some n" "dir_at (butlast xs) n"
      using "3.prems"(2) by (auto split: option.splits)
    have "bytes (put xs v n) + bytes_opt (look xs n) = bytes n + bytes_opt v"
      using "3.IH" [OF False n(1) names_ok_lookup [OF "3.prems"(1) n(1)] n(2) False] .
    then show ?thesis
      using bytes_set_entry [of es x "Some (put xs v n)"] "3.prems"(1) n(1) False by (simp add: bytes_opt_def)
  qed
qed (auto split: if_splits)

lemma names_ok_set_entry:
  assumes "names_ok (DirN es)" "\<And>n. v = Some n \<Longrightarrow> names_ok n"
  shows "names_ok (DirN (set_entry x v es))"
proof (cases v)
  case None
  then show ?thesis
    using assms(1) by (auto simp: set_entry_def AList.delete_eq distinct_map_filter)
next
  case (Some n)
  have "names_ok (snd e)" if "e \<in> set (AList.update x n es)" for e
  proof -
    have "(fst e, snd e) \<in> insert (x, n) (set es)"
      using that by (induction es) (auto split: if_splits)
    then show ?thesis
      using assms Some by auto
  qed
  then show ?thesis
    using Some assms(1) by (auto simp: set_entry_def distinct_update)
qed

lemma names_ok_put: "names_ok t \<Longrightarrow> (\<And>n. v = Some n \<Longrightarrow> names_ok n) \<Longrightarrow> names_ok (put p v t)"
proof (induction p v t rule: put.induct)
  case (3 x xs v es)
  then show ?case
    using names_ok_set_entry [of es v x] names_ok_set_entry [of es "Some (put xs v _)" x] names_ok_lookup [of es x]
    by (auto split: option.split)
qed auto

lemma walk_bytes: "n \<le> u64_max \<Longrightarrow> foldl add_len n (walk_tree p t) = min (n + bytes t) u64_max"
proof (induction t arbitrary: n p)
  case (FileN s)
  then show ?case by (simp add: add_len_def sat_add64_def)
next
  case (DirN es)
  have "foldl add_len n (concat (map (\<lambda>(x, c). walk_tree (p @ [x]) c) es')) = min (n + sum_list (map (\<lambda>e. bytes (snd e)) es')) u64_max"
    if "set es' \<subseteq> set es" "n \<le> u64_max" for es' n
    using that
  proof (induction es' arbitrary: n)
    case (Cons e es')
    obtain x c where e: "e = (x, c)" by force
    have "foldl add_len n (walk_tree (p @ [x]) c) = min (n + bytes c) u64_max"
      using DirN.IH [of e c n] Cons.prems e by simp
    then show ?case
      using Cons.IH [of "min (n + bytes c) u64_max"] Cons.prems e by (simp add: min_def add.assoc)
  qed simp
  then show ?case
    using DirN.prems by (simp add: add_len_def [of n "(p, DirN es)"])
qed

lemma dir_size_eq: "dir_size p t = min (bytes_opt (look p t)) u64_max"
  by (auto simp: dir_size_def bytes_opt_def walk_bytes split: option.split)

section \<open>Creating directories\<close>

lemma create_dir_all_look:
  "create_dir_all p t = Inr t' \<Longrightarrow> \<not> prefix q p \<Longrightarrow> look q t' = look q t"
proof (induction p t arbitrary: q t' rule: create_dir_all.induct)
  case (3 x xs es)
  let ?n = "case map_of es x of None \<Rightarrow> DirN [] | Some n \<Rightarrow> n"
  obtain n where n: "create_dir_all xs ?n = Inr n" "t' = DirN (set_entry x (Some n) es)"
    using "3.prems"(1) by (auto simp: try_bind_Inr_iff)
  obtain y ys where q: "q = y # ys"
    using "3.prems"(2) by (cases q) auto
  show ?case
  proof (cases "y = x")
    case True
    then have "look ys n = look ys ?n" "ys \<noteq> []"
      using "3.IH" [OF n(1)] "3.prems"(2) q by auto
    then show ?thesis
      using n(2) q True by (cases ys) (auto simp: map_of_set_entry split: option.splits)
  next
    case False
    then show ?thesis
      using n(2) q by (simp add: map_of_set_entry)
  qed
qed auto

lemma create_dir_all_dirs:
  "create_dir_all p t = Inr t' \<Longrightarrow> dir_at q t' \<longleftrightarrow> dir_at q t \<or> prefix q p"
proof (induction p t arbitrary: q t' rule: create_dir_all.induct)
  case (3 x xs es)
  let ?n = "case map_of es x of None \<Rightarrow> DirN [] | Some n \<Rightarrow> n"
  obtain n where n: "create_dir_all xs ?n = Inr n" "t' = DirN (set_entry x (Some n) es)"
    using "3.prems"(1) by (auto simp: try_bind_Inr_iff)
  show ?case
  proof (cases q)
    case (Cons y ys)
    show ?thesis
    proof (cases "y = x")
      case True
      have "dir_at ys n \<longleftrightarrow> dir_at ys ?n \<or> prefix ys xs"
        by (rule "3.IH" [OF n(1)])
      then show ?thesis
        using n(2) Cons True by (cases ys) (auto simp: map_of_set_entry split: option.splits)
    next
      case False
      then show ?thesis
        using n(2) Cons by (simp add: map_of_set_entry)
    qed
  qed (use n(2) in simp)
qed auto

lemma create_dir_all_files:
  assumes "create_dir_all p t = Inr t'"
  shows "file_at q t' = file_at q t"
proof (cases "prefix q p")
  case True
  then have "file_at q t' = None"
    using create_dir_all_dirs [OF assms, of q] by (simp add: file_at_dir)
  moreover have "file_at q t = None"
    using assms True
  proof (induction p t arbitrary: q t' rule: create_dir_all.induct)
    case (3 x xs es)
    then show ?case
      by (cases q) (auto simp: try_bind_Inr_iff split: option.splits)
  qed auto
  ultimately show ?thesis
    by simp
next
  case False
  then show ?thesis
    using create_dir_all_look [OF assms] by (simp add: file_at_def)
qed

lemma create_dir_all_size:
  "create_dir_all p t = Inr t' \<Longrightarrow> names_ok t \<Longrightarrow> names_ok t' \<and> bytes t' = bytes t"
proof (induction p t arbitrary: t' rule: create_dir_all.induct)
  case (3 x xs es)
  let ?n = "case map_of es x of None \<Rightarrow> DirN [] | Some n \<Rightarrow> n"
  obtain n where n: "create_dir_all xs ?n = Inr n" "t' = DirN (set_entry x (Some n) es)"
    using "3.prems"(1) by (auto simp: try_bind_Inr_iff)
  have "names_ok ?n"
    using names_ok_lookup [OF "3.prems"(2), of x] by (auto split: option.split)
  from "3.IH" [OF n(1) this] show ?case
    using names_ok_set_entry [OF "3.prems"(2), of "Some n" x] bytes_set_entry [of es x "Some n"] "3.prems"(2) n(2)
    by (auto simp: bytes_opt_def split: option.splits)
qed auto

section \<open>Renaming and removing\<close>

lemma look_parent: "look p t = Some n \<Longrightarrow> p \<noteq> [] \<Longrightarrow> dir_at (butlast p) t"
proof (induction p t rule: look.induct)
  case (3 x xs es)
  then show ?case
    by (cases "xs = []") (auto split: option.splits)
qed auto

lemma nonempty_above:
  assumes "look (p @ x # xs) t = Some n"
  shows "\<exists>es. look p t = Some (DirN es) \<and> es \<noteq> []"
proof -
  obtain m where m: "look p t = Some m" "look (x # xs) m = Some n"
    using assms by (auto simp: look_append bind_eq_Some_conv)
  then show ?thesis
    by (cases m) (auto split: option.splits)
qed

lemma rename_path_files:
  assumes "rename_path src dst t = Inr t'" "src \<noteq> dst"
  obtains n where "look src t = Some n" "look dst t' = Some n" "\<not> prefix dst src" "\<not> prefix src dst"
    "t' = put dst (Some n) (put src None t)"
    "\<And>q. file_at q t' = (if prefix dst q then file_at (src @ drop (length dst) q) t
       else if prefix src q then None else file_at q t)"
proof -
  obtain n where n: "look src t = Some n" "\<not> prefix src dst" "dir_at (butlast dst) t" "replaceable n (look dst t)"
      "t' = put dst (Some n) (put src None t)"
    using assms by (auto simp: rename_path_def split: option.splits if_splits)
  have src: "src \<noteq> []"
    using n(2) by auto
  have nds: "\<not> prefix dst src"
  proof
    assume "prefix dst src"
    then obtain x xs where "src = dst @ x # xs"
      using assms(2) by (metis append_Nil2 list.exhaust prefixE)
    then obtain es where "look dst t = Some (DirN es)" "es \<noteq> []"
      using nonempty_above n(1) by metis
    then show False
      using n(4) by (simp add: replaceable_def)
  qed
  have dst: "dst \<noteq> []"
    using nds by auto
  have parent: "dir_at (butlast src) t"
    by (rule look_parent [OF n(1) src])
  have parent': "dir_at (butlast dst) (put src None t)"
  proof (cases "prefix (butlast dst) src")
    case True
    then have "butlast dst \<noteq> src"
      using n(2) by (metis prefix_def append_butlast_last_id dst)
    then show ?thesis
      using dir_at_put_above [OF True] n(3) by simp
  next
    case False
    have "\<not> prefix src (butlast dst)"
      using n(2) by (metis append_butlast_last_id dst prefix_prefix)
    then show ?thesis
      using look_put_other [OF _ False, of None t] n(3) by (simp add: dir_at_def)
  qed
  have "file_at q t' = (if prefix dst q then file_at (src @ drop (length dst) q) t
      else if prefix src q then None else file_at q t)" for q
    using n(1) file_at_put [OF parent' dst, of q "Some n"] file_at_put [OF parent src, of q None]
    by (simp add: n(5) file_at_append)
  moreover have "look dst t' = Some n"
    using look_put_below [OF parent' dst, of "[]" "Some n"] by (simp add: n(5))
  ultimately show ?thesis
    using that n(1,2,5) nds by blast
qed

section \<open>Removing a directory\<close>

text \<open>What is left of a tree after a removal: a part of its files, and nothing exactly when all went well.\<close>

definition part_of :: "node option \<Rightarrow> node \<Rightarrow> bool" where
  "part_of m n \<longleftrightarrow>
     (case m of
        None \<Rightarrow> True
      | Some n' \<Rightarrow> is_dir n' = is_dir n \<and> names_ok n' \<and> bytes n' \<le> bytes n \<and>
          (\<forall>q. file_at q n' \<in> {file_at q n, None}))"

lemma part_of_entries:
  assumes "names_ok (DirN ((x, n) # es))" "part_of m n"
  shows "part_of (Some (DirN (case m of None \<Rightarrow> es | Some n' \<Rightarrow> (x, n') # es))) (DirN ((x, n) # es))"
proof -
  have "map_of es x = None"
    using assms(1) by (auto simp: map_of_eq_None_iff)
  then have rest: "file_at q (DirN es) \<in> {file_at q (DirN ((x, n) # es)), None}" for q
    by (cases q) auto
  have first: "file_at q (DirN ((x, n') # es)) \<in> {file_at q (DirN ((x, n) # es)), None}"
    if "\<forall>q. file_at q n' \<in> {file_at q n, None}" for n' q
    using that by (cases q) auto
  show ?thesis
  proof (cases m)
    case None
    then show ?thesis
      using assms(1) rest by (simp add: part_of_def)
  next
    case (Some n')
    have "\<forall>q. file_at q n' \<in> {file_at q n, None}"
      using assms(2) Some by (simp add: part_of_def)
    note first [OF this]
    then show ?thesis
      using assms Some by (simp add: part_of_def)
  qed
qed

lemma part_of_tail:
  assumes "part_of (Some (DirN es')) (DirN es)" "names_ok (DirN ((x, n) # es))"
  shows "part_of (Some (DirN es')) (DirN ((x, n) # es))"
proof -
  have "map_of es x = None"
    using assms(2) by (auto simp: map_of_eq_None_iff)
  then have "file_at q (DirN es) \<in> {file_at q (DirN ((x, n) # es)), None}" for q
    by (cases q) auto
  moreover have "\<forall>q. file_at q (DirN es') \<in> {file_at q (DirN es), None}"
    using assms(1) by (simp add: part_of_def)
  ultimately have "\<forall>q. file_at q (DirN es') \<in> {file_at q (DirN ((x, n) # es)), None}"
    by (metis (no_types, lifting) insert_iff empty_iff)
  then show ?thesis
    using assms(1) by (simp add: part_of_def)
qed

lemma part_of_refl: "names_ok n \<Longrightarrow> part_of (Some n) n"
  by (simp add: part_of_def)

lemma remove_tree_leaves:
  "names_ok n \<Longrightarrow> remove_tree io p n = (r, m) \<Longrightarrow>
     part_of m n \<and> (case r of Inl e \<Rightarrow> m \<noteq> None \<and> (\<exists>c. io c = Some e) | Inr _ \<Rightarrow> m = None)"
  "names_ok (DirN es) \<Longrightarrow> remove_entries io p es = (r, es') \<Longrightarrow>
     part_of (Some (DirN es')) (DirN es) \<and> (case r of Inl e \<Rightarrow> \<exists>c. io c = Some e | Inr _ \<Rightarrow> es' = [])"
proof (induction io p n and io p es arbitrary: r m and r es' rule: remove_tree_remove_entries.induct)
  case (1 io p s)
  then show ?case
    by (auto simp: part_of_def split: option.splits)
next
  case (2 io p es)
  show ?case
  proof (cases "io (ListDir p)")
    case None
    obtain q es' where e: "remove_entries io p es = (q, es')"
      by fastforce
    have "part_of (Some (DirN es')) (DirN es) \<and> (case q of Inl e \<Rightarrow> \<exists>c. io c = Some e | Inr _ \<Rightarrow> es' = [])"
      using 2(1) [OF None 2(2) e] .
    then show ?thesis
      using 2(3) None e by (auto simp: part_of_def split: sum.splits option.splits)
  qed (use 2(2,3) part_of_refl in auto)
next
  case (3 io p)
  then show ?case
    by (auto simp: part_of_def)
next
  case (4 io p x n es)
  have names: "names_ok n" "names_ok (DirN es)"
    using 4(3) by auto
  show ?case
  proof (cases "io (NextEntry (p @ [x]))")
    case None
    obtain q m where t: "remove_tree io (p @ [x]) n = (q, m)"
      by fastforce
    have m: "part_of m n \<and> (case q of Inl e \<Rightarrow> m \<noteq> None \<and> (\<exists>c. io c = Some e) | Inr _ \<Rightarrow> m = None)"
      using 4(1) [OF None names(1) t] .
    show ?thesis
    proof (cases q)
      case (Inl e)
      then show ?thesis
        using 4(4) None t m part_of_entries [OF 4(3), of m] by (auto split: option.split)
    next
      case (Inr u)
      then have "part_of (Some (DirN es')) (DirN es) \<and> (case r of Inl e \<Rightarrow> \<exists>c. io c = Some e | Inr _ \<Rightarrow> es' = [])"
        using 4(2) [OF None t [symmetric] Inr names(2)] 4(4) None t by simp
      then show ?thesis
        using part_of_tail [OF _ 4(3)] by blast
    qed
  qed (use 4(3,4) part_of_refl [OF 4(3)] in auto)
qed

text \<open>Nothing stops the removal of what is below a directory unless a call there fails.\<close>

lemma remove_tree_all:
  "(\<And>c. c \<noteq> Rmdir [] \<Longrightarrow> io c = None) \<Longrightarrow> p \<noteq> [] \<Longrightarrow> remove_tree io p n = (Inr (), None)"
  "(\<And>c. c \<noteq> Rmdir [] \<Longrightarrow> io c = None) \<Longrightarrow> remove_entries io p es = (Inr (), [])"
  by (induction io p n and io p es rule: remove_tree_remove_entries.induct) auto

end
