(* ===== verification/Store.thy ===== *)
theory Store
  imports Store_Files Pt_Config
begin

text \<open>
  The evidence store of \<^verbatim>\<open>src/store.rs\<close>: the directory layout, the lock, the budget, and the
  operations that change the tree. A store is its lock mode and limits; the tree is
  passed along. Importing bundles, which resolves symbolic links, is not modelled.
\<close>

datatype lock_mode = SharedLock | ExclusiveLock

record store =
  sto_root :: string
  sto_mode :: lock_mode
  sto_limits :: limits

section \<open>Layout\<close>

definition session_path :: "string \<Rightarrow> path" where
  "session_path i = [''sessions'', i @ ''.json'']"

definition snapshot_dir :: "string \<Rightarrow> path" where
  "snapshot_dir i = [''snapshots'', i]"

definition analysis_dir :: "string \<Rightarrow> string \<Rightarrow> path" where
  "analysis_dir snap a = snapshot_dir snap @ [''derived'', a]"

definition report_dir :: "string \<Rightarrow> path" where
  "report_dir i = [''reports'', i]"

definition job_path :: "string \<Rightarrow> path" where
  "job_path i = [''jobs'', i @ ''.json'']"

definition staging :: "string \<Rightarrow> path" where
  "staging name = [''staging'', name]"

section \<open>Operations\<close>

definition ensure_exclusive :: "store \<Rightarrow> error + unit" where
  "ensure_exclusive st =
     (if sto_mode st = ExclusiveLock then Inr ()
      else Inl (with_next ''Reopen the store with LockMode::Exclusive''
             (error_new Busy ''store mutation requires an exclusive lock'')))"

definition used_bytes :: "node \<Rightarrow> u64" where
  "used_bytes t = dir_size [] t"

definition snapshot_sizes :: "node \<Rightarrow> error + (string \<times> u64) list" where
  "snapshot_sizes t =
     (if \<not> path_exists [''snapshots''] t then Inr []
      else try_bind (read_dir [''snapshots''] t)
        (\<lambda>es. Inr (map (\<lambda>e. (fst e, dir_size (snapshot_dir (fst e)) t))
                      (filter (\<lambda>e. valid_raw (fst e) \<and> is_dir (snd e)) es))))"

definition ensure_budget :: "store \<Rightarrow> u64 \<Rightarrow> node \<Rightarrow> error + unit" where
  "ensure_budget st extra t =
     (let used = used_bytes t
      in if sat_add64 used extra > store_budget (sto_limits st)
         then (let sizes = sort_key (\<lambda>x. - int (snd x)) (case snapshot_sizes t of Inl _ \<Rightarrow> [] | Inr sz \<Rightarrow> sz);
                   largest = map (\<lambda>x. fst x @ '' ('' @ show_dec (snd x div 2 ^ 20) @ '' MiB)'') (take 3 sizes)
               in Inl (with_next ''Delete snapshots you no longer need with trace_prune (or `trace-mcp prune`), or raise TRACE_MCP_STORE_BUDGET''
                    (error_new LimitExceeded
                      (''store budget '' @ show_dec (store_budget (sto_limits st)) @ '' exceeded (used '' @ show_dec used @
                       '', extra '' @ show_dec extra @ ''); largest snapshots: '' @
                       (if largest = [] then ''none'' else join_str '', '' largest)))))
         else Inr ())"

definition remove_snapshot ::
    "(fs_call \<Rightarrow> error option) \<Rightarrow> store \<Rightarrow> string \<Rightarrow> node \<Rightarrow> (error + u64) \<times> node" where
  "remove_snapshot io st i t =
     (case ensure_exclusive st of
        Inl e \<Rightarrow> (Inl e, t)
      | Inr _ \<Rightarrow>
          if \<not> path_exists (resolve_path (snapshot_dir i)) t then (Inl (not_found (''snapshot '' @ i)), t)
          else (case io (MeasureDir (resolve_path (snapshot_dir i))) of
                  Some e \<Rightarrow> (Inl e, t)
                | None \<Rightarrow>
                    (let n = dir_size (resolve_path (snapshot_dir i)) t
                     in case remove_dir_all io (snapshot_dir i) t of
                          (Inl e, t') \<Rightarrow> (Inl e, t')
                        | (Inr _, t') \<Rightarrow> (Inr n, t'))))"

text \<open>\<^verbatim>\<open>Path::with_extension\<close> on the last component.\<close>

definition with_extension :: "path \<Rightarrow> string \<Rightarrow> path" where
  "with_extension p ext =
     (let name = last p;
          stem = (case rsplit_once_ch (CHR ''.'') name of None \<Rightarrow> name | Some (a, b) \<Rightarrow> if a = [] then name else a)
      in butlast p @ [stem @ ''.'' @ ext])"

definition create_file :: "path \<Rightarrow> string \<Rightarrow> node \<Rightarrow> error + node" where
  "create_file p text t =
     (if dir_at p t then Inl (error_of_io IoOther ''Is a directory'')
      else if \<not> dir_at (butlast p) t then Inl (error_of_io IoNotFound ''No such file or directory'')
      else Inr (put p (Some (FileN text)) t))"

text \<open>
  A disk is the tree as the processes see it and the files whose content has not been synced. A crash keeps
  the tree, except that of an unsynced file only some beginning may have reached the disk: \<open>got\<close> tells how
  much. Directory operations reach the disk in order; a crash before one does finds an earlier disk.
\<close>

record disk =
  dk_tree :: node
  dk_dirty :: "path list"

definition cut_file :: "(path \<Rightarrow> nat) \<Rightarrow> path \<Rightarrow> node \<Rightarrow> node" where
  "cut_file got p t =
     (case file_at p t of None \<Rightarrow> t | Some text \<Rightarrow> put p (Some (FileN (take (got p) text))) t)"

definition crash_tree :: "(path \<Rightarrow> nat) \<Rightarrow> disk \<Rightarrow> node" where
  "crash_tree got d = fold (cut_file got) (dk_dirty d) (dk_tree d)"

text \<open>The calls a JSON file is written with; \<open>io\<close> tells which of them fail.\<close>

datatype disk_op = MakeDirs path | MakeFile path | WriteText path string | SyncFile path | MoveFile path path

definition append_text :: "path \<Rightarrow> string \<Rightarrow> node \<Rightarrow> error + node" where
  "append_text p text t =
     (case file_at p t of
        None \<Rightarrow> Inl (error_of_io IoNotFound ''No such file or directory'')
      | Some old \<Rightarrow> Inr (put p (Some (FileN (old @ text))) t))"

definition run_op :: "(disk_op \<Rightarrow> error option) \<Rightarrow> disk_op \<Rightarrow> disk \<Rightarrow> error + disk" where
  "run_op io op d =
     (case io op of
        Some e \<Rightarrow> Inl e
      | None \<Rightarrow>
          (case op of
             MakeDirs p \<Rightarrow> try_bind (create_dir_all p (dk_tree d)) (\<lambda>t. Inr (d\<lparr>dk_tree := t\<rparr>))
           | MakeFile p \<Rightarrow>
               try_bind (create_file p [] (dk_tree d)) (\<lambda>t. Inr \<lparr>dk_tree = t, dk_dirty = p # dk_dirty d\<rparr>)
           | WriteText p text \<Rightarrow>
               try_bind (append_text p text (dk_tree d)) (\<lambda>t. Inr \<lparr>dk_tree = t, dk_dirty = p # dk_dirty d\<rparr>)
           | SyncFile p \<Rightarrow> Inr (d\<lparr>dk_dirty := removeAll p (dk_dirty d)\<rparr>)
           | MoveFile p q \<Rightarrow>
               try_bind (rename_path p q (dk_tree d)) (\<lambda>t.
                 Inr \<lparr>dk_tree = t, dk_dirty = map (\<lambda>a. if a = p then q else a) (removeAll q (dk_dirty d))\<rparr>)))"

text \<open>
  The calls one after another, with the disks they lead through from the first to the last. The flag of a call
  tells whether its error is passed on with \<open>?\<close> or dropped.
\<close>

fun run_ops :: "(disk_op \<Rightarrow> error option) \<Rightarrow> (disk_op \<times> bool) list \<Rightarrow> disk \<Rightarrow> (error + unit) \<times> disk list" where
  "run_ops io [] d = (Inr (), [d])"
| "run_ops io ((op, checked) # ops) d =
     (case run_op io op d of
        Inl e \<Rightarrow> if checked then (Inl e, [d]) else map_prod id (Cons d) (run_ops io ops d)
      | Inr d' \<Rightarrow> map_prod id (Cons d) (run_ops io ops d'))"

text \<open>
  \<open>pieces\<close> is the serialised value in the pieces the buffered writer hands on; a value that cannot be
  serialised is a piece that fails. The result of the sync is dropped.
\<close>

definition write_json_ops :: "path \<Rightarrow> string list \<Rightarrow> (disk_op \<times> bool) list" where
  "write_json_ops p pieces =
     (let tmp = with_extension p ''json.tmp''
      in [(MakeDirs (butlast p), True), (MakeFile tmp, True)] @ map (\<lambda>s. (WriteText tmp s, True)) pieces @
         [(SyncFile tmp, False), (MoveFile tmp p, True)])"

definition write_json ::
    "(disk_op \<Rightarrow> error option) \<Rightarrow> store \<Rightarrow> path \<Rightarrow> string list \<Rightarrow> disk \<Rightarrow> (error + unit) \<times> disk list" where
  "write_json io st p pieces d =
     (case ensure_exclusive st of
        Inl e \<Rightarrow> (Inl e, [d])
      | Inr _ \<Rightarrow> run_ops io (write_json_ops p pieces) d)"

definition publish_dir :: "store \<Rightarrow> path \<Rightarrow> path \<Rightarrow> node \<Rightarrow> (error + unit) \<times> node" where
  "publish_dir st src dest t =
     (case ensure_exclusive st of
        Inl e \<Rightarrow> (Inl e, t)
      | Inr _ \<Rightarrow>
          if path_exists dest t
          then (Inl (error_new InvalidArgument (''destination already exists: '' @ join_str ''/'' (sto_root st # dest))), t)
          else (case create_dir_all (butlast dest) t of
                  Inl e \<Rightarrow> (Inl e, t)
                | Inr t1 \<Rightarrow>
                    (case rename_path src dest t1 of
                       Inl e \<Rightarrow> (Inl e, t1)
                     | Inr t2 \<Rightarrow> (Inr (), t2))))"

section \<open>Opening\<close>

definition recover_entry :: "string \<Rightarrow> node \<Rightarrow> node" where
  "recover_entry x t = (case rename_path (staging x) [''quarantine'', x] t of Inl _ \<Rightarrow> t | Inr t' \<Rightarrow> t')"

definition recover_staging :: "node \<Rightarrow> error + node" where
  "recover_staging t =
     try_bind (create_dir_all [''quarantine''] t) (\<lambda>t1.
       Inr (case read_dir [''staging''] t1 of
              Inl _ \<Rightarrow> t1
            | Inr es \<Rightarrow> fold recover_entry (map fst es) t1))"

text \<open>
  Two locks can be held together when both are shared. Each try of the loop finds the locks other
  processes hold at that time; the last try is the first one at or after the deadline.
\<close>

definition lock_free :: "lock_mode \<Rightarrow> lock_mode list \<Rightarrow> bool" where
  "lock_free mode held \<longleftrightarrow> (case mode of SharedLock \<Rightarrow> ExclusiveLock \<notin> set held | ExclusiveLock \<Rightarrow> held = [])"

definition open_with :: "string \<Rightarrow> limits \<Rightarrow> lock_mode \<Rightarrow> nat \<Rightarrow> lock_mode list list \<Rightarrow> node \<Rightarrow> (error + store) \<times> node" where
  "open_with root lim mode wait_ms tries t =
     (case fold_try create_dir_all [[''sessions''], [''snapshots''], [''reports''], [''jobs''], [''staging'']] t of
        Inl e \<Rightarrow> (Inl e, t)
      | Inr t1 \<Rightarrow>
          (case (if path_exists [''LOCK''] t1 then (if dir_at [''LOCK''] t1 then Inl (error_of_io IoOther ''Is a directory'') else Inr t1)
                 else create_file [''LOCK''] [] t1) of
             Inl e \<Rightarrow> (Inl e, t1)
           | Inr t2 \<Rightarrow>
               if \<not> (\<exists>held\<in>set tries. lock_free mode held)
               then (Inl (with_next ''Retry, raise --store-wait-ms, or use a separate --store directory''
                      (error_new Busy (''store '' @ root @ '' is locked by another process after waiting '' @ show_dec wait_ms @ '' ms''))), t2)
               else if mode = ExclusiveLock
               then (case recover_staging t2 of
                       Inl e \<Rightarrow> (Inl e, t2)
                     | Inr t3 \<Rightarrow> (Inr \<lparr>sto_root = root, sto_mode = mode, sto_limits = lim\<rparr>, t3))
               else (Inr \<lparr>sto_root = root, sto_mode = mode, sto_limits = lim\<rparr>, t2)))"

section \<open>Publishing\<close>

lemma not_prefix_butlast: "p \<noteq> [] \<Longrightarrow> \<not> prefix p (butlast p)"
  by (metis append_butlast_last_id not_Cons_self2 prefix_order.dual_order.antisym prefixI append_self_conv)

lemma publish_dir_cases:
  assumes "publish_dir st src dest t = (r, t')"
  obtains (refused) e where "r = Inl e" "t' = t"
    | (unmoved) e where "r = Inl e" "create_dir_all (butlast dest) t = Inr t'"
    | (moved) t1 where "r = Inr ()" "sto_mode st = ExclusiveLock" "look dest t = None"
        "create_dir_all (butlast dest) t = Inr t1" "rename_path src dest t1 = Inr t'"
  using assms
  by (auto simp: publish_dir_def ensure_exclusive_def path_exists_def split: if_splits sum.splits)

text \<open>
  C25: Publishing is a move. When publishing a staged directory succeeds, the store was open for writing
  and the destination free, and afterwards the destination holds exactly the staged files, nothing is left
  at the old place, and every other file and the space used are as before. When it fails, no file has changed.
\<close>

theorem publish_dir_moves:
  assumes "publish_dir st src dest t = (r, t')" "names_ok t"
  shows "bytes t' = bytes t \<and>
    (case r of
       Inl e \<Rightarrow> \<forall>q. file_at q t' = file_at q t
     | Inr _ \<Rightarrow> sto_mode st = ExclusiveLock \<and> look dest t = None \<and>
         (\<forall>q. file_at q t' = (if prefix dest q then file_at (src @ drop (length dest) q) t
            else if prefix src q then None else file_at q t)))"
  using assms(1)
proof (cases rule: publish_dir_cases)
  case (refused e)
  then show ?thesis by simp
next
  case (unmoved e)
  then show ?thesis
    using create_dir_all_files create_dir_all_size [OF _ assms(2)] by auto
next
  case (moved t1)
  note size = create_dir_all_size [OF moved(4) assms(2)]
  have dest: "dest \<noteq> []"
    using moved(3) by auto
  have free: "look dest t1 = None"
    using create_dir_all_look [OF moved(4) not_prefix_butlast [OF dest]] moved(3) by simp
  then have "src \<noteq> dest"
    using moved(5) by (auto simp: rename_path_def)
  then obtain n where n: "look src t1 = Some n" "\<not> prefix dest src" "\<not> prefix src dest"
      "t' = put dest (Some n) (put src None t1)"
      "\<And>q. file_at q t' = (if prefix dest q then file_at (src @ drop (length dest) q) t1
         else if prefix src q then None else file_at q t1)"
    using rename_path_files [OF moved(5)] by metis
  have src: "src \<noteq> []"
    using n(3) by auto
  let ?u = "put src None t1"
  have "bytes ?u + bytes n = bytes t1"
    using bytes_put [OF conjunct1 [OF size] look_parent [OF n(1) src] src, of None] n(1) by (simp add: bytes_opt_def)
  moreover have "look dest ?u = None"
    using look_put_other [OF n(3) n(2)] free by simp
  moreover have "names_ok ?u"
    using size names_ok_put [of t1 None src] by simp
  moreover have "dir_at (butlast dest) ?u"
  proof (rule ccontr)
    assume "\<not> dir_at (butlast dest) ?u"
    moreover have "look dest t' = Some n"
      using rename_path_files [OF moved(5) \<open>src \<noteq> dest\<close>] n(1) by metis
    moreover have "look dest t' \<noteq> None \<Longrightarrow> dir_at (butlast dest) t'"
      using look_parent dest by blast
    ultimately have "dir_at (butlast dest) t'"
      by simp
    then show False
      using dir_at_put_above [of "butlast dest" dest "Some n" ?u] n(4) \<open>\<not> dir_at (butlast dest) ?u\<close> dest
      by (metis append_butlast_last_id not_prefix_butlast prefixI prefix_order.refl)
  qed
  ultimately have "bytes t' = bytes t1"
    using bytes_put [of ?u dest "Some n"] dest n(4) by (simp add: bytes_opt_def)
  then show ?thesis
    using moved size n(5) create_dir_all_files [OF moved(4)] by simp
qed

definition demo_store :: store where
  "demo_store = \<lparr>sto_root = ''/store'', sto_mode = ExclusiveLock, sto_limits = limits_default (\<lambda>_. None)\<rparr>"

definition demo_tree :: node where
  "demo_tree = DirN [(''snapshots'', DirN []), (''staging'', DirN [(''sess_1'', DirN [(''manifest.json'', FileN ''{}'')])])]"

definition demo_published :: node where
  "demo_published =
     DirN [(''snapshots'', DirN [(''s_1'', DirN [(''manifest.json'', FileN ''{}'')])]), (''staging'', DirN [])]"

lemma demo_publish:
  "publish_dir demo_store (staging ''sess_1'') (snapshot_dir ''s_1'') demo_tree = (Inr (), demo_published)"
  by (simp add: publish_dir_def ensure_exclusive_def demo_store_def demo_tree_def demo_published_def staging_def
      snapshot_dir_def path_exists_def set_entry_def rename_path_def replaceable_def)

theorem publish_dir_moves_witness:
  "file_at [''snapshots'', ''s_1'', ''manifest.json''] demo_published = Some ''{}'' \<and> bytes demo_published = bytes demo_tree"
proof -
  have "names_ok demo_tree"
    by (simp add: demo_tree_def)
  from publish_dir_moves [OF demo_publish this] show ?thesis
    by (simp add: staging_def snapshot_dir_def demo_tree_def)
qed

section \<open>Removing snapshots and the budget\<close>

lemma resolve_path_plain: "\<forall>c\<in>set p. c \<noteq> ''.'' \<and> c \<noteq> ''..'' \<Longrightarrow> resolve_path p = p"
proof -
  have "\<forall>c\<in>set p. c \<noteq> ''.'' \<and> c \<noteq> ''..'' \<Longrightarrow>
      fold (\<lambda>c acc. if c = ''.'' then acc else if c = ''..'' then tl acc else c # acc) p acc = rev p @ acc" for acc
    by (induction p arbitrary: acc) auto
  then show "\<forall>c\<in>set p. c \<noteq> ''.'' \<and> c \<noteq> ''..'' \<Longrightarrow> resolve_path p = p"
    by (simp add: resolve_path_def)
qed

lemma resolve_snapshot_dir [simp]: "i \<noteq> ''.'' \<Longrightarrow> i \<noteq> ''..'' \<Longrightarrow> resolve_path (snapshot_dir i) = snapshot_dir i"
  by (rule resolve_path_plain) (auto simp: snapshot_dir_def)

lemma ensure_budget_iff:
  "ensure_budget st extra t = Inr () \<longleftrightarrow> sat_add64 (used_bytes t) extra \<le> store_budget (sto_limits st)"
  by (auto simp: ensure_budget_def Let_def)

text \<open>A removal that is not refused runs over the directory of the snapshot.\<close>

lemma remove_snapshot_cases:
  assumes "remove_snapshot io st i t = (r, t')" "i \<noteq> ''.''" "i \<noteq> ''..''"
  obtains (refused) e where "r = Inl e" "t' = t"
      "sto_mode st \<noteq> ExclusiveLock \<or> \<not> dir_at (snapshot_dir i) t \<or> (\<exists>c. io c = Some e)"
    | (ran) es q m where "sto_mode st = ExclusiveLock" "look (snapshot_dir i) t = Some (DirN es)"
        "remove_tree io (snapshot_dir i) (DirN es) = (q, m)" "t' = put (snapshot_dir i) m t"
        "r = (case q of Inl e \<Rightarrow> Inl e | Inr _ \<Rightarrow> Inr (dir_size (snapshot_dir i) t))"
proof -
  have raw: "last_call (snapshot_dir i) io = io"
    using assms(2,3) by (simp add: last_call_def snapshot_dir_def)
  have ne: "snapshot_dir i \<noteq> []"
    by (simp add: snapshot_dir_def)
  show ?thesis
  proof (cases "sto_mode st = ExclusiveLock \<and> io (MeasureDir (snapshot_dir i)) = None \<and> dir_at (snapshot_dir i) t")
    case True
    then obtain es where es: "look (snapshot_dir i) t = Some (DirN es)"
      by (auto simp: dir_at_def split: option.splits elim: is_dir.elims)
    obtain q m where "remove_tree io (snapshot_dir i) (DirN es) = (q, m)"
      by fastforce
    then show ?thesis
      using True es assms raw ne
      by (intro ran [of es q m])
        (auto simp: remove_snapshot_def ensure_exclusive_def path_exists_def remove_dir_all_def Let_def split: sum.splits)
  next
    case False
    then show ?thesis
      using assms raw
      by (auto simp: remove_snapshot_def ensure_exclusive_def path_exists_def remove_dir_all_def Let_def dir_at_def
          split: if_splits option.splits node.splits intro: refused)
  qed
qed

text \<open>
  C26: Removing a snapshot is confined and honest, whichever of its system calls fail. For an ordinary id, no
  file outside the snapshot is touched, and a file inside it is either as before or gone. A successful removal
  needs the exclusive lock, leaves nothing of the snapshot and reports what the used space drops by. A failed
  one leaves the snapshot directory standing, perhaps with fewer files, and without the exclusive lock it
  changes nothing; it only fails without the lock, without a directory or with the error of a system
  call that failed.
\<close>

theorem remove_snapshot_exact:
  assumes "remove_snapshot io st i t = (r, t')" "names_ok t" "bytes t \<le> u64_max" "i \<noteq> ''.''" "i \<noteq> ''..''"
  shows "(\<forall>q. \<not> prefix (snapshot_dir i) q \<longrightarrow> file_at q t' = file_at q t) \<and>
    (\<forall>q. file_at q t' \<in> {file_at q t, None}) \<and>
    (case r of
       Inl e \<Rightarrow> dir_at (snapshot_dir i) t' = dir_at (snapshot_dir i) t \<and> used_bytes t' \<le> used_bytes t \<and>
         (sto_mode st \<noteq> ExclusiveLock \<longrightarrow> t' = t) \<and>
         (sto_mode st \<noteq> ExclusiveLock \<or> \<not> dir_at (snapshot_dir i) t \<or> (\<exists>c. io c = Some e))
     | Inr n \<Rightarrow> sto_mode st = ExclusiveLock \<and> look (snapshot_dir i) t' = None \<and>
         (\<forall>q. prefix (snapshot_dir i) q \<longrightarrow> file_at q t' = None) \<and> used_bytes t' + n = used_bytes t)"
  using assms(1,4,5)
proof (cases rule: remove_snapshot_cases)
  case (refused e)
  then show ?thesis by auto
next
  case (ran es q m)
  let ?p = "snapshot_dir i"
  have p: "?p \<noteq> []" "dir_at (butlast ?p) t"
    using look_parent [OF ran(2)] by (simp_all add: snapshot_dir_def)
  note left = remove_tree_leaves(1) [OF names_ok_look [OF assms(2) ran(2)] ran(3)]
  have size: "bytes t' + bytes (DirN es) = bytes t + bytes_opt m"
    using bytes_put [OF assms(2) p(2,1), of m] ran by (simp add: bytes_opt_def)
  have less: "bytes_opt m \<le> bytes (DirN es)"
    using left by (auto simp: part_of_def bytes_opt_def split: option.splits)
  have files: "file_at a t' = (if prefix ?p a then (case m of None \<Rightarrow> None | Some n \<Rightarrow> file_at (drop (length ?p) a) n)
      else file_at a t)" for a
    using file_at_put [OF p(2,1)] ran(4) by simp
  have inside: "file_at a t' \<in> {file_at a t, None}" for a
  proof (cases "prefix ?p a")
    case True
    then obtain z where z: "a = ?p @ z"
      by (elim prefixE)
    have "file_at a t = file_at z (DirN es)"
      using ran(2) by (simp add: file_at_append z)
    moreover have "m = Some n \<Longrightarrow> file_at z n \<in> {file_at z (DirN es), None}" for n
      using left by (simp add: part_of_def)
    ultimately show ?thesis
      using files [of a] z by (cases m) auto
  qed (use files [of a] in simp)
  have there: "look ?p t' = m"
    using look_put_below [OF p(2,1), of "[]" m] ran(4) by (cases m) auto
  have "bytes (DirN es) \<le> bytes t"
    using bytes_put [OF assms(2) p(2,1), of None] ran(2) by (simp add: bytes_opt_def)
  then have "used_bytes t' = bytes t'" "used_bytes t = bytes t" "dir_size ?p t = bytes (DirN es)"
    using assms(3) size less ran(2) by (auto simp: used_bytes_def dir_size_eq bytes_opt_def)
  then show ?thesis
    using left ran(1,2,5) files inside there size less
    by (cases q) (auto simp: dir_at_def part_of_def bytes_opt_def)
qed

text \<open>Without faults every snapshot directory can be removed, and then the budget is freed.\<close>

lemma remove_snapshot_healthy:
  assumes "sto_mode st = ExclusiveLock" "dir_at (snapshot_dir i) t" "\<And>c. io c = None" "i \<noteq> ''.''" "i \<noteq> ''..''"
  shows "\<exists>t'. remove_snapshot io st i t = (Inr (dir_size (snapshot_dir i) t), t')"
proof -
  obtain r t' where r: "remove_snapshot io st i t = (r, t')"
    by fastforce
  from r assms(4,5) show ?thesis
  proof (cases rule: remove_snapshot_cases)
    case (refused e)
    then show ?thesis using assms by auto
  next
    case (ran es q m)
    then show ?thesis
      using r remove_tree_all(1) [of io "snapshot_dir i" "DirN es"] assms(3) by (simp add: snapshot_dir_def del: remove_tree.simps)
  qed
qed

text \<open>A snapshot with two files; the second cannot be unlinked, so the first is lost and the removal fails.\<close>

definition two_files :: node where
  "two_files = DirN [(''snapshots'', DirN [(''s_1'', DirN [(''a'', FileN ''xy''), (''b'', FileN ''z'')])]), (''LOCK'', FileN [])]"

definition stuck_file :: "fs_call \<Rightarrow> error option" where
  "stuck_file = (\<lambda>_. None)(Unlink [''snapshots'', ''s_1'', ''b''] := Some (error_of_io IoPermissionDenied ''b''))"

theorem remove_snapshot_exact_witness:
  "(\<exists>t'. remove_snapshot (\<lambda>_. None) demo_store ''s_1'' two_files = (Inr 3, t') \<and> used_bytes t' + 3 = used_bytes two_files \<and>
     file_at [''snapshots'', ''s_1'', ''a''] t' = None \<and> file_at [''LOCK''] t' = Some []) \<and>
   (\<exists>e t'. remove_snapshot stuck_file demo_store ''s_1'' two_files = (Inl e, t') \<and>
     file_at [''snapshots'', ''s_1'', ''a''] t' = None \<and> file_at [''snapshots'', ''s_1'', ''b''] t' = Some ''z'' \<and>
     dir_at (snapshot_dir ''s_1'') t' \<and> used_bytes t' \<le> used_bytes two_files)"
proof -
  have t: "names_ok two_files" "bytes two_files \<le> u64_max"
    by (simp_all add: two_files_def u64_max_def)
  have "dir_size [''snapshots'', ''s_1''] two_files = 3"
    by (simp add: dir_size_eq bytes_opt_def two_files_def u64_max_def)
  then have ok: "remove_snapshot (\<lambda>_. None) demo_store ''s_1'' two_files = (Inr 3, put [''snapshots'', ''s_1''] None two_files)"
    by (simp add: remove_snapshot_def ensure_exclusive_def demo_store_def path_exists_def remove_dir_all_def last_call_def
        snapshot_dir_def resolve_path_def two_files_def Let_def)
  have bad: "remove_snapshot stuck_file demo_store ''s_1'' two_files =
      (Inl (error_of_io IoPermissionDenied ''b''), put [''snapshots'', ''s_1''] (Some (DirN [(''b'', FileN ''z'')])) two_files)"
    by (simp add: remove_snapshot_def ensure_exclusive_def demo_store_def path_exists_def remove_dir_all_def last_call_def
        snapshot_dir_def resolve_path_def two_files_def stuck_file_def Let_def)
  note exact = remove_snapshot_exact [OF _ t]
  have files: "file_at [''LOCK''] two_files = Some []" "dir_at (snapshot_dir ''s_1'') two_files"
    by (simp_all add: two_files_def snapshot_dir_def)
  have "file_at [''snapshots'', ''s_1'', ''a''] (put [''snapshots'', ''s_1''] (Some (DirN [(''b'', FileN ''z'')])) two_files) = None"
    "file_at [''snapshots'', ''s_1'', ''b''] (put [''snapshots'', ''s_1''] (Some (DirN [(''b'', FileN ''z'')])) two_files) = Some ''z''"
    by (simp_all add: two_files_def set_entry_def)
  then show ?thesis
    using ok bad exact [OF ok] exact [OF bad] files by (simp add: snapshot_dir_def)
qed

text \<open>
  The id \<open>..\<close> is a valid snapshot id, and removing the snapshot it names empties the whole store
  before the removal fails.
\<close>

theorem parent_id_empties_store:
  assumes "sto_mode st = ExclusiveLock"
  shows "from_raw ''SnapshotId'' ''..'' = Inr ''..'' \<and>
    remove_snapshot (\<lambda>_. None) st ''..'' (DirN es) =
      (Inl (error_of_io IoNotFound ''No such file or directory''), DirN [])"
proof -
  have raw: "resolve_path (snapshot_dir ''..'') = []" "last (snapshot_dir ''..'') = ''..''"
    by (simp_all add: resolve_path_def snapshot_dir_def)
  have "remove_entries (last_call (snapshot_dir ''..'') (\<lambda>_. None)) [] es = (Inr (), [])"
    by (rule remove_tree_all(2)) (simp add: last_call_def raw)
  then show ?thesis
    using assms raw
    by (simp add: from_raw_def remove_snapshot_def ensure_exclusive_def path_exists_def remove_dir_all_def last_call_def)
qed

section \<open>Writing JSON files\<close>

definition json_path :: "string \<Rightarrow> string \<Rightarrow> path" where
  "json_path dir i = [dir, i @ ''.json'']"

definition json_tmp :: "string \<Rightarrow> string \<Rightarrow> path" where
  "json_tmp dir i = [dir, i @ ''.json.tmp'']"

lemma json_paths: "session_path i = json_path ''sessions'' i" "job_path i = json_path ''jobs'' i"
  by (simp_all add: session_path_def job_path_def json_path_def)

lemma json_tmp_eq:
  assumes "i \<noteq> []"
  shows "with_extension (json_path dir i) ''json.tmp'' = json_tmp dir i"
proof -
  have "rsplit_once_ch (CHR ''.'') (i @ CHR ''.'' # ''json'') = Some (i, ''json'')"
    by (rule rsplit_once_ch_append) simp
  then show ?thesis
    using assms by (simp add: with_extension_def json_path_def json_tmp_def)
qed

lemma file_at_FileN: "file_at r (FileN s) = (if r = [] then Some s else None)"
  by (cases r) auto

lemma create_file_files:
  assumes "create_file p text t = Inr t'" "p \<noteq> []"
  shows "file_at q t' = (if q = p then Some text else file_at q t) \<and> look p t' = Some (FileN text)"
proof -
  have c: "\<not> dir_at p t" "dir_at (butlast p) t" "t' = put p (Some (FileN text)) t"
    using assms(1) by (auto simp: create_file_def split: if_splits)
  have "file_at q t = None" if pq: "prefix p q" "q \<noteq> p"
  proof -
    obtain r where r: "q = p @ r" "r \<noteq> []"
      using pq by (auto elim!: prefixE)
    then show ?thesis
      using c(1) by (cases "look p t"; cases "the (look p t)") (auto simp: file_at_append dir_at_def file_at_FileN)
  qed
  moreover have "file_at (drop (length p) q) (FileN text) = (if q = p then Some text else None)" if "prefix p q"
    using that by (auto simp: file_at_FileN elim!: prefixE)
  ultimately show ?thesis
    using file_at_put [OF c(2) assms(2), of q "Some (FileN text)"] look_put_below [OF c(2) assms(2), of "[]" "Some (FileN text)"]
    by (auto simp: c(3))
qed

lemma below_file: "look p t = Some (FileN s) \<or> look p t = None \<Longrightarrow> prefix p q \<Longrightarrow> q \<noteq> p \<Longrightarrow> file_at q t = None"
  by (auto simp: file_at_append file_at_FileN elim!: prefixE split: if_splits)

lemma rename_file:
  assumes "rename_path src dst t = Inr t'" "src \<noteq> dst" "look src t = Some (FileN text)"
  shows "file_at q t' = (if q = dst then Some text else if q = src then None else file_at q t)"
proof -
  have "replaceable (FileN text) (look dst t)"
    using assms by (auto simp: rename_path_def split: if_splits)
  then have old: "file_at q t = None" if "prefix dst q" "q \<noteq> dst" for q
    using that below_file by (auto simp: replaceable_def split: option.splits node.splits)
  have below: "file_at (src @ r) t = (if r = [] then Some text else None)" for r
    by (simp add: file_at_append assms(3) file_at_FileN)
  have moved: "file_at q t' = (if prefix dst q then file_at (src @ drop (length dst) q) t
      else if prefix src q then None else file_at q t)" "\<not> prefix dst src"
    using rename_path_files [OF assms(1,2)] by metis+
  show ?thesis
  proof (cases "prefix dst q")
    case True
    then obtain r where "q = dst @ r"
      by (elim prefixE)
    then show ?thesis
      using moved below [of r] old [OF True] True by auto
  next
    case False
    then show ?thesis
      using moved below_file [of src t "text" q] assms(3) by (auto elim!: prefixE)
  qed
qed

lemma file_at_parent: "file_at p t = Some s \<Longrightarrow> p \<noteq> [] \<Longrightarrow> dir_at (butlast p) t"
  by (auto simp: file_at_def intro: look_parent split: option.splits node.splits)

lemma put_file_files:
  assumes "file_at p t = Some old" "p \<noteq> []"
  shows "file_at q (put p (Some (FileN s)) t) = (if q = p then Some s else file_at q t)"
proof -
  have "look p t = Some (FileN old)"
    using assms(1) by (auto simp: file_at_def split: option.splits node.splits)
  then show ?thesis
    using file_at_put [OF file_at_parent [OF assms] assms(2), of q "Some (FileN s)"] below_file [of p t old q]
    by (auto simp: file_at_FileN elim!: prefixE)
qed

text \<open>What a crash leaves: the synced files, and a beginning of each of the others.\<close>

lemma cut_file_files:
  "p \<noteq> [] \<Longrightarrow> file_at q (cut_file got p t) = (if q = p then map_option (take (got p)) (file_at p t) else file_at q t)"
  by (auto simp: cut_file_def put_file_files split: option.split)

lemma crash_files:
  assumes "[] \<notin> set (dk_dirty d)"
  shows "file_at q (crash_tree got d) =
    (if q \<in> set (dk_dirty d) then map_option (take (got q)) (file_at q (dk_tree d)) else file_at q (dk_tree d))"
proof -
  have "file_at q (fold (cut_file got) ps t) =
      (if q \<in> set ps then map_option (take (got q)) (file_at q t) else file_at q t)" if "[] \<notin> set ps" for ps t
    using that
    by (induction ps arbitrary: t) (auto simp: cut_file_files option.map_comp comp_def)
  then show ?thesis
    using assms by (simp add: crash_tree_def)
qed

text \<open>A property that every call keeps holds of all the disks on the way.\<close>

lemma run_ops_all:
  assumes "run_ops io ops d = (r, ds)" "P d"
    and "\<And>op c d d'. (op, c) \<in> set ops \<Longrightarrow> P d \<Longrightarrow> run_op io op d = Inr d' \<Longrightarrow> P d'"
  shows "ds \<noteq> [] \<and> (\<forall>d\<in>set ds. P d)"
  using assms
proof (induction ops arbitrary: d ds)
  case (Cons oc ops)
  obtain op c where oc: "oc = (op, c)"
    by fastforce
  have step: "P d'" if "run_op io op d = Inr d'" for d'
    using Cons.prems(3) [of op c d d'] Cons.prems(2) that oc by simp
  have rest: "es \<noteq> [] \<and> (\<forall>x\<in>set es. P x)" if "run_ops io ops x = (r, es)" "P x" for x es
    using Cons.IH [OF that] Cons.prems(3) oc by auto
  show ?case
    using Cons.prems(1,2) oc step rest
    by (cases "run_op io op d"; cases "run_ops io ops d"; cases "run_ops io ops (projr (run_op io op d))")
      (auto split: if_splits)
qed auto

lemma run_ops_append:
  "run_ops io (xs @ ys) d =
     (case run_ops io xs d of
        (Inl e, ds) \<Rightarrow> (Inl e, ds)
      | (Inr _, ds) \<Rightarrow> map_prod id ((@) (butlast ds)) (run_ops io ys (last ds)))"
proof (induction xs arbitrary: d)
  case (Cons oc xs)
  have ne: "run_ops io xs d = (r, ds) \<Longrightarrow> ds \<noteq> []" for r ds d
    using run_ops_all [of io xs d r ds "\<lambda>_. True"] by simp
  obtain op c where "oc = (op, c)"
    by fastforce
  then show ?case
    using Cons.IH by (auto simp: map_prod_def split: sum.split prod.split dest!: ne)
qed (simp add: map_prod_def split: prod.split)

lemma run_ops_checked:
  "run_ops io ((op, True) # ops) d = (Inr (), ds) \<longleftrightarrow>
     (\<exists>d' es. run_op io op d = Inr d' \<and> run_ops io ops d' = (Inr (), es) \<and> ds = d # es)"
  by (auto simp: map_prod_def split: sum.splits prod.splits)

text \<open>Before the rename only the temporary file changes.\<close>

definition only_tmp :: "path \<Rightarrow> disk \<Rightarrow> disk \<Rightarrow> bool" where
  "only_tmp tmp d d' \<longleftrightarrow>
     (\<forall>q. q \<noteq> tmp \<longrightarrow> file_at q (dk_tree d') = file_at q (dk_tree d) \<and> (q \<in> set (dk_dirty d') \<longleftrightarrow> q \<in> set (dk_dirty d)))"

lemma run_op_only_tmp:
  assumes "run_op io op d = Inr d'" "op \<in> {MakeFile tmp, WriteText tmp s, SyncFile tmp} \<or> (\<exists>p. op = MakeDirs p)" "tmp \<noteq> []"
  shows "only_tmp tmp d d'"
  using assms create_dir_all_files create_file_files [of tmp "[]"] put_file_files [of tmp]
  by (auto simp: run_op_def only_tmp_def append_text_def try_bind_Inr_iff split: option.splits)

lemma only_tmp_trans: "only_tmp tmp a b \<Longrightarrow> only_tmp tmp b c \<Longrightarrow> only_tmp tmp a c"
  by (auto simp: only_tmp_def)

text \<open>The calls up to the rename: when they are done the temporary file holds the whole text.\<close>

lemma write_pieces:
  assumes "run_ops io (map (\<lambda>s. (WriteText tmp s, True)) pieces) d = (Inr (), ds)" "tmp \<noteq> []"
    "file_at tmp (dk_tree d) = Some old" "tmp \<in> set (dk_dirty d)"
  shows "file_at tmp (dk_tree (last ds)) = Some (old @ concat pieces) \<and> tmp \<in> set (dk_dirty (last ds))"
  using assms(1,3,4)
proof (induction pieces arbitrary: d ds old)
  case (Cons s pieces)
  obtain d' es where d': "run_op io (WriteText tmp s) d = Inr d'" "ds = d # es"
    "run_ops io (map (\<lambda>s. (WriteText tmp s, True)) pieces) d' = (Inr (), es)"
    using Cons.prems(1) by (auto simp: run_ops_checked simp del: run_ops.simps)
  have "file_at tmp (dk_tree d') = Some (old @ s)" "tmp \<in> set (dk_dirty d')"
    using d'(1) Cons.prems(2) put_file_files [OF Cons.prems(2) assms(2)]
    by (auto simp: run_op_def append_text_def try_bind_Inr_iff split: option.splits)
  moreover have "es \<noteq> []"
    using run_ops_all [OF d'(3), of "\<lambda>_. True"] by simp
  ultimately show ?case
    using Cons.IH [OF d'(3)] d'(2) by simp
qed auto

definition fill_ops :: "path \<Rightarrow> string list \<Rightarrow> (disk_op \<times> bool) list" where
  "fill_ops p pieces = (let tmp = with_extension p ''json.tmp''
     in [(MakeDirs (butlast p), True), (MakeFile tmp, True)] @ map (\<lambda>s. (WriteText tmp s, True)) pieces)"

lemma write_json_ops_split:
  "write_json_ops p pieces = fill_ops p pieces @
     [(SyncFile (with_extension p ''json.tmp''), False), (MoveFile (with_extension p ''json.tmp'') p, True)]"
  by (simp add: write_json_ops_def fill_ops_def Let_def)

lemma fill_only_tmp:
  assumes "run_ops io (fill_ops p pieces) d = (r, ds)" "tmp = with_extension p ''json.tmp''" "tmp \<noteq> []"
  shows "ds \<noteq> [] \<and> (\<forall>d'\<in>set ds. only_tmp tmp d d')"
  using assms(1)
proof (rule run_ops_all)
  fix op c a b
  assume "(op, c) \<in> set (fill_ops p pieces)" "only_tmp tmp d a" "run_op io op a = Inr b"
  then show "only_tmp tmp d b"
    using run_op_only_tmp [OF _ _ assms(3)] only_tmp_trans assms(2)
    by (auto simp: fill_ops_def Let_def)
qed (simp add: only_tmp_def)

lemma fill_text:
  assumes "run_ops io (fill_ops p pieces) d = (Inr (), ds)" "tmp = with_extension p ''json.tmp''" "tmp \<noteq> []"
  shows "file_at tmp (dk_tree (last ds)) = Some (concat pieces) \<and> tmp \<in> set (dk_dirty (last ds))"
proof -
  obtain d1 d2 es where d: "run_op io (MakeDirs (butlast p)) d = Inr d1" "run_op io (MakeFile tmp) d1 = Inr d2"
    "run_ops io (map (\<lambda>s. (WriteText tmp s, True)) pieces) d2 = (Inr (), es)" "ds = d # d1 # es"
    using assms(1,2) by (auto simp: fill_ops_def Let_def run_ops_checked simp del: run_ops.simps)
  have "file_at tmp (dk_tree d2) = Some []" "tmp \<in> set (dk_dirty d2)"
    using d(2) create_file_files [of tmp "[]"] assms(3)
    by (auto simp: run_op_def try_bind_Inr_iff split: option.splits)
  moreover have "es \<noteq> []"
    using run_ops_all [OF d(3), of "\<lambda>_. True"] by simp
  ultimately show ?thesis
    using write_pieces [OF d(3) assms(3)] d(4) by simp
qed

text \<open>The two calls behind: the sync, whose failure is dropped, and the rename.\<close>

lemma rename_disk:
  assumes "run_op io (MoveFile tmp p) a = Inr b" "file_at tmp (dk_tree a) = Some text" "tmp \<noteq> p"
  shows "file_at q (dk_tree b) = (if q = p then Some text else if q = tmp then None else file_at q (dk_tree a))"
    "q \<noteq> p \<Longrightarrow> q \<noteq> tmp \<Longrightarrow> q \<in> set (dk_dirty b) \<longleftrightarrow> q \<in> set (dk_dirty a)"
    "p \<in> set (dk_dirty b) \<longleftrightarrow> tmp \<in> set (dk_dirty a)"
proof -
  obtain t where b: "rename_path tmp p (dk_tree a) = Inr t"
      "b = \<lparr>dk_tree = t, dk_dirty = map (\<lambda>x. if x = tmp then p else x) (removeAll p (dk_dirty a))\<rparr>"
    using assms(1) by (auto simp: run_op_def try_bind_Inr_iff split: option.splits)
  have "look tmp (dk_tree a) = Some (FileN text)"
    using assms(2) by (auto simp: file_at_def split: option.splits node.splits)
  then show "file_at q (dk_tree b) = (if q = p then Some text else if q = tmp then None else file_at q (dk_tree a))"
    using rename_file [OF b(1) assms(3)] b(2) by simp
  show "q \<noteq> p \<Longrightarrow> q \<noteq> tmp \<Longrightarrow> q \<in> set (dk_dirty b) \<longleftrightarrow> q \<in> set (dk_dirty a)"
    "p \<in> set (dk_dirty b) \<longleftrightarrow> tmp \<in> set (dk_dirty a)"
    using b(2) assms(3) by auto
qed

lemma write_json_cases:
  assumes "write_json io st p pieces d = (r, ds)" "tmp = with_extension p ''json.tmp''" "tmp \<noteq> []" "tmp \<noteq> p"
  obtains (kept) e where "r = Inl e" "ds \<noteq> []" "\<forall>d'\<in>set ds. only_tmp tmp d d'"
    | (moved) es a b where "r = Inr ()" "sto_mode st = ExclusiveLock" "ds = es @ [b]" "\<forall>d'\<in>set es. only_tmp tmp d d'"
        "only_tmp tmp d a" "file_at tmp (dk_tree a) = Some (concat pieces)" "run_op io (MoveFile tmp p) a = Inr b"
        "tmp \<in> set (dk_dirty a) \<longleftrightarrow> io (SyncFile tmp) \<noteq> None"
proof (cases "ensure_exclusive st")
  case (Inl e)
  then show ?thesis
    using assms(1) by (intro kept [of e]) (auto simp: write_json_def only_tmp_def)
next
  case (Inr u)
  obtain q fs where f: "run_ops io (fill_ops p pieces) d = (q, fs)"
    by fastforce
  note only = fill_only_tmp [OF f assms(2,3)]
  show ?thesis
  proof (cases q)
    case (Inl e)
    then show ?thesis
      using assms(1) Inr f only by (intro kept [of e]) (auto simp: write_json_def write_json_ops_split run_ops_append)
  next
    case ok: (Inr w)
    let ?l = "last fs"
    have l: "only_tmp tmp d ?l" "file_at tmp (dk_tree ?l) = Some (concat pieces)" "fs = butlast fs @ [?l]"
        "tmp \<in> set (dk_dirty ?l)"
      using only fill_text [OF _ assms(2,3)] f ok by (auto simp: last_in_set)
    define a where "a = (case run_op io (SyncFile tmp) ?l of Inl e \<Rightarrow> ?l | Inr x \<Rightarrow> x)"
    have a: "only_tmp tmp d a" "file_at tmp (dk_tree a) = Some (concat pieces)"
        "tmp \<in> set (dk_dirty a) \<longleftrightarrow> io (SyncFile tmp) \<noteq> None"
      using l(1,2,4) by (auto simp: a_def run_op_def only_tmp_def split: option.split)
    have run: "write_json io st p pieces d =
        (case run_op io (MoveFile tmp p) a of Inl e \<Rightarrow> (Inl e, fs @ [a]) | Inr b \<Rightarrow> (Inr (), fs @ [a, b]))"
      using Inr f ok l(3) assms(2)
      by (simp add: write_json_def write_json_ops_split run_ops_append a_def split: sum.split)
    show ?thesis
    proof (cases "run_op io (MoveFile tmp p) a")
      case (Inl e)
      then show ?thesis
        using run assms(1) only a by (intro kept [of e]) auto
    next
      case step: (Inr b)
      have "sto_mode st = ExclusiveLock"
        using Inr by (auto simp: ensure_exclusive_def split: if_splits)
      then show ?thesis
        using run assms(1) only a step by (intro moved [of "fs @ [a]" b a]) auto
    qed
  qed
qed





text \<open>
  The error of the sync is dropped. When the sync fails and everything else works, the rename puts a file in place of
  which a crash may have kept any beginning, so that the old content is lost and the new one is torn.
\<close>

theorem unsynced_rename_torn:
  assumes "i \<noteq> []" "[] \<notin> set (dk_dirty d)" "io (SyncFile (json_tmp dir i)) \<noteq> None"
    "write_json io st (json_path dir i) pieces d = (Inr (), ds)"
  shows "file_at (json_path dir i) (crash_tree (\<lambda>_. k) (last ds)) = Some (take k (concat pieces))"
proof -
  let ?p = "json_path dir i" and ?tmp = "json_tmp dir i"
  have tmp: "?tmp = with_extension ?p ''json.tmp''" "?tmp \<noteq> []" "?tmp \<noteq> ?p" "?p \<noteq> []"
    using json_tmp_eq [OF assms(1)] by (auto simp: json_tmp_def json_path_def)
  from assms(4) tmp(1-3) show ?thesis
  proof (cases rule: write_json_cases)
    case (moved es a b)
    note disk = rename_disk [OF moved(7,6) tmp(3)]
    have "[] \<notin> set (dk_dirty b)"
      using disk(2) [of "[]"] moved(5) assms(2) tmp(2,4) by (auto simp: only_tmp_def)
    then show ?thesis
      using crash_files [of b ?p] disk(1) [of ?p] disk(3) moved(3,8) assms(3) by simp
  qed simp
qed

section \<open>Recovery\<close>

lemma look_rename_other:
  assumes "rename_path src dst t = Inr t'" "\<not> prefix src q" "\<not> prefix q src" "\<not> prefix dst q" "\<not> prefix q dst"
  shows "look q t' = look q t"
proof (cases "src = dst")
  case True
  then show ?thesis
    using assms by (auto simp: rename_path_def split: option.splits if_splits)
next
  case False
  from rename_path_files [OF assms(1) False] show ?thesis
    using look_put_other assms(2-5) by metis
qed

lemma recover_entry_other:
  assumes "q = [a, y] @ r" "a = ''staging'' \<or> a = ''quarantine''" "x \<noteq> y"
  shows "look q (recover_entry x t) = look q t"
  using assms look_rename_other [of "staging x" "[''quarantine'', x]" t _ q]
  by (auto simp: recover_entry_def staging_def split: sum.split)

lemma recover_entry_outside:
  assumes "\<not> prefix [''staging''] q" "\<not> prefix [''quarantine''] q"
  shows "file_at q (recover_entry x t) = file_at q t"
proof (cases "rename_path (staging x) [''quarantine'', x] t")
  case (Inr t')
  have "\<not> prefix [''quarantine'', x] q" "\<not> prefix (staging x) q" "staging x \<noteq> [''quarantine'', x]"
    using assms by (auto simp: staging_def prefix_def)
  moreover from this(3) have "file_at q t' = (if prefix [''quarantine'', x] q
      then file_at (staging x @ drop (length [''quarantine'', x]) q) t else if prefix (staging x) q then None else file_at q t)"
    using rename_path_files [OF Inr] by metis
  ultimately show ?thesis
    using Inr by (simp add: recover_entry_def)
qed (simp add: recover_entry_def)

lemma recover_entry_quarantine: "dir_at [''quarantine''] t \<Longrightarrow> dir_at [''quarantine''] (recover_entry x t)"
proof (cases "rename_path (staging x) [''quarantine'', x] t")
  case (Inr t')
  assume d: "dir_at [''quarantine''] t"
  have "staging x \<noteq> [''quarantine'', x]" "\<not> prefix (staging x) [''quarantine'']" "\<not> prefix [''quarantine''] (staging x)"
    by (simp_all add: staging_def)
  moreover from this(1) obtain n where "t' = put [''quarantine'', x] (Some n) (put (staging x) None t)"
    using rename_path_files [OF Inr] by metis
  ultimately show ?thesis
    using d Inr look_put_other [of "staging x" "[''quarantine'']" None t]
      dir_at_put_above [of "[''quarantine'']" "[''quarantine'', x]" "Some n" "put (staging x) None t"]
    unfolding recover_entry_def by (simp add: dir_at_def)
qed (simp add: recover_entry_def)

lemma recover_entry_moves:
  assumes "dir_at [''quarantine''] t" "look (staging x) t = Some n" "look [''quarantine'', x] t = None"
  shows "look (staging x) (recover_entry x t) = None \<and> look [''quarantine'', x] (recover_entry x t) = Some n"
proof -
  let ?q = "[''quarantine'', x]"
  have par: "\<not> prefix (staging x) ?q" "\<not> prefix ?q (staging x)" "staging x \<noteq> []"
    by (simp_all add: staging_def)
  have "rename_path (staging x) ?q t = Inr (put ?q (Some n) (put (staging x) None t))"
    using assms par by (simp add: rename_path_def replaceable_def)
  then have r: "recover_entry x t = put ?q (Some n) (put (staging x) None t)"
    by (simp add: recover_entry_def)
  have "look (staging x @ []) (put (staging x) None t) = None"
    using look_put_below [OF look_parent [OF assms(2) par(3)] par(3), of "[]" None] by simp
  moreover have "dir_at (butlast ?q) (put (staging x) None t)"
    using assms(1) look_put_other [of "staging x" "[''quarantine'']" None t] by (simp add: dir_at_def staging_def)
  ultimately show ?thesis
    using look_put_other [OF par(2,1), of "Some n"] look_put_below [of ?q "put (staging x) None t" "[]" "Some n"]
    by (simp add: r)
qed

lemma recover_fold_other:
  assumes "q = [a, y] @ r" "a = ''staging'' \<or> a = ''quarantine''" "y \<notin> set xs"
  shows "look q (fold recover_entry xs t) = look q t"
  using assms(3)
proof (induction xs arbitrary: t)
  case (Cons x xs)
  then show ?case
    using recover_entry_other [OF assms(1,2), of x t] by auto
qed simp

lemma recover_fold_quarantine: "dir_at [''quarantine''] t \<Longrightarrow> dir_at [''quarantine''] (fold recover_entry xs t)"
  by (induction xs arbitrary: t) (auto intro: recover_entry_quarantine)

lemma recover_fold_moves:
  assumes "distinct xs" "x \<in> set xs" "dir_at [''quarantine''] t" "look (staging x) t = Some n" "look [''quarantine'', x] t = None"
  shows "look (staging x) (fold recover_entry xs t) = None \<and> look [''quarantine'', x] (fold recover_entry xs t) = Some n"
proof -
  obtain ys zs where xs: "xs = ys @ x # zs" "x \<notin> set ys" "x \<notin> set zs"
    using assms(1,2) by (metis distinct.simps(2) distinct_append not_distinct_conv_prefix split_list_first)
  let ?t = "fold recover_entry ys t"
  have "look (staging x) ?t = Some n" "look [''quarantine'', x] ?t = None"
    using recover_fold_other [of _ _ x "[]", OF _ _ xs(2)] assms(4,5) by (auto simp: staging_def)
  then have "look (staging x) (recover_entry x ?t) = None \<and> look [''quarantine'', x] (recover_entry x ?t) = Some n"
    by (intro recover_entry_moves recover_fold_quarantine assms(3))
  then show ?thesis
    using recover_fold_other [of _ _ x "[]", OF _ _ xs(3)] by (auto simp: xs(1) staging_def)
qed

text \<open>
  Opening a store for writing loses nothing: files outside the staging and quarantine directories stay,
  and a staged entry whose name is free in quarantine is moved there as a whole.
\<close>

theorem recover_staging_keeps:
  assumes "recover_staging t = Inr t'" "names_ok t"
  shows "(\<forall>q. \<not> prefix [''staging''] q \<and> \<not> prefix [''quarantine''] q \<longrightarrow> file_at q t' = file_at q t) \<and>
    (\<forall>x n. look (staging x) t = Some n \<and> look [''quarantine'', x] t = None \<longrightarrow>
       look (staging x) t' = None \<and> look [''quarantine'', x] t' = Some n)"
proof -
  obtain t1 where t1: "create_dir_all [''quarantine''] t = Inr t1"
      and t': "t' = (case read_dir [''staging''] t1 of Inl _ \<Rightarrow> t1 | Inr es \<Rightarrow> fold recover_entry (map fst es) t1)"
    using assms(1) by (auto simp: recover_staging_def try_bind_Inr_iff)
  have same: "look q t1 = look q t" if "\<not> prefix q [''quarantine'']" for q
    using create_dir_all_look [OF t1 that] .
  have quar: "dir_at [''quarantine''] t1"
    using create_dir_all_dirs [OF t1] by simp
  have outside: "file_at q (fold recover_entry xs u) = file_at q u"
    if "\<not> prefix [''staging''] q" "\<not> prefix [''quarantine''] q" for q xs u
    using that by (induction xs arbitrary: u) (auto simp: recover_entry_outside)
  have moved: "look (staging x) t' = None \<and> look [''quarantine'', x] t' = Some n"
    if x: "look (staging x) t = Some n" "look [''quarantine'', x] t = None" for x n
  proof -
    have x1: "look (staging x) t1 = Some n" "look [''quarantine'', x] t1 = None"
      using x same by (simp_all add: staging_def)
    then obtain es where es: "look [''staging''] t1 = Some (DirN es)"
      using nonempty_above [of "[''staging'']" x "[]"] by (auto simp: staging_def)
    then have dist: "distinct (map fst es)" "x \<in> set (map fst es)"
    proof -
      have "names_ok t1"
        using create_dir_all_size [OF t1 assms(2)] by simp
      then have "names_ok (DirN es)"
        using names_ok_look es by blast
      then show "distinct (map fst es)"
        by simp
      have "look [x] (DirN es) = Some n"
        using x1(1) es look_append [of "[''staging'']" "[x]" t1] by (simp add: staging_def)
      then show "x \<in> set (map fst es)"
        by (auto split: option.splits dest: map_of_SomeD simp: rev_image_eqI)
    qed
    have "t' = fold recover_entry (map fst es) t1"
      using t' es by (simp add: read_dir_def)
    then show ?thesis
      using recover_fold_moves [OF dist quar x1] by simp
  qed
  moreover have "file_at q t' = file_at q t" if "\<not> prefix [''staging''] q" "\<not> prefix [''quarantine''] q" for q
    using outside [OF that] create_dir_all_files [OF t1, of q] t' by (auto split: sum.splits)
  ultimately show ?thesis
    by blast
qed

end
