(* ===== verification/Byte_Layout.thy ===== *)
theory Byte_Layout
  imports Error_Codes
begin

text \<open>
  Little-endian integers in byte buffers: \<^verbatim>\<open>to_le_bytes\<close>, \<^verbatim>\<open>from_le_bytes\<close> on a slice (a slice out
  of range panics), and \<^verbatim>\<open>usize\<close> sums that wrap, as in a release build. A byte buffer is a list of
  numbers below 256.
\<close>

type_synonym octets = "nat list"

definition wadd :: "nat \<Rightarrow> nat \<Rightarrow> nat" where
  "wadd a b = (a + b) mod 2 ^ 64"

definition wmul :: "nat \<Rightarrow> nat \<Rightarrow> nat" where
  "wmul a b = (a * b) mod 2 ^ 64"

definition wsub :: "nat \<Rightarrow> nat \<Rightarrow> nat" where
  "wsub a b = (a + (2 ^ 64 - b mod 2 ^ 64)) mod 2 ^ 64"

fun le_bytes :: "nat \<Rightarrow> nat \<Rightarrow> octets" where
  "le_bytes 0 v = []"
| "le_bytes (Suc n) v = v mod 256 # le_bytes n (v div 256)"

fun le_val :: "octets \<Rightarrow> nat" where
  "le_val [] = 0"
| "le_val (b # bs) = b + 256 * le_val bs"

definition slice :: "octets \<Rightarrow> nat \<Rightarrow> nat \<Rightarrow> failure + octets" where
  "slice xs a b = (if a \<le> b \<and> b \<le> length xs then Inr (take (b - a) (drop a xs)) else Inl Panic)"

definition rd :: "nat \<Rightarrow> octets \<Rightarrow> nat \<Rightarrow> failure + nat" where
  "rd n xs off = try_bind (slice xs off (off + n)) (\<lambda>b. Inr (le_val b))"

definition text_of :: "octets \<Rightarrow> string" where
  "text_of bs = map char_of bs"

definition bytes_of :: "string \<Rightarrow> octets" where
  "bytes_of s = map of_char s"

definition trim_nul :: "string \<Rightarrow> string" where
  "trim_nul s = rev (dropWhile (\<lambda>c. c = CHR 0x00) (rev s))"

definition count_ones :: "nat \<Rightarrow> nat" where
  "count_ones v = length (filter (\<lambda>i. odd (v div 2 ^ i)) [0..<64])"

lemma length_le_bytes [simp]: "length (le_bytes n v) = n"
  by (induction n arbitrary: v) simp_all

lemma le_bytes_range: "b \<in> set (le_bytes n v) \<Longrightarrow> b < 256"
  by (induction n arbitrary: v) auto

lemma le_val_le_bytes: "le_val (le_bytes n v) = v mod 256 ^ n"
proof (induction n arbitrary: v)
  case (Suc n)
  then show ?case
    by (simp add: mod_mult2_eq mult.commute)
qed simp

lemma le_val_small: "v < 256 ^ n \<Longrightarrow> le_val (le_bytes n v) = v"
  by (simp add: le_val_le_bytes)

lemma text_of_bytes_of [simp]: "text_of (bytes_of s) = s"
  by (simp add: text_of_def bytes_of_def)

lemma length_bytes_of [simp]: "length (bytes_of s) = length s"
  by (simp add: bytes_of_def)

lemma text_of_append [simp]: "text_of (a @ b) = text_of a @ text_of b"
  by (simp add: text_of_def)

lemma trim_nul_padded:
  "CHR 0x00 \<notin> set s \<Longrightarrow> trim_nul (s @ replicate n (CHR 0x00)) = s"
proof -
  assume s: "CHR 0x00 \<notin> set s"
  have "dropWhile (\<lambda>c. c = CHR 0x00) (replicate n (CHR 0x00) @ rev s) = dropWhile (\<lambda>c. c = CHR 0x00) (rev s)"
    by (induction n) simp_all
  also have "\<dots> = rev s"
    using s by (cases "rev s") (simp_all, metis list.set_intros(1) set_rev)
  finally show ?thesis
    by (simp add: trim_nul_def)
qed

text \<open>Reading at a position of a buffer in three parts.\<close>

lemma slice_middle [simp]:
  "a = length pre \<Longrightarrow> b = length pre + length mid \<Longrightarrow> slice (pre @ mid @ post) a b = Inr mid"
  by (simp add: slice_def)

lemma rd_middle:
  "off = length pre \<Longrightarrow> rd n (pre @ le_bytes n v @ post) off = Inr (v mod 256 ^ n)"
  by (simp add: rd_def le_val_le_bytes)

lemma slice_shift:
  "a \<le> b \<Longrightarrow> b \<le> length mid \<Longrightarrow> slice (pre @ mid @ post) (length pre + a) (length pre + b) = slice mid a b"
  by (simp add: slice_def)

lemma rd_shift:
  "k + n \<le> length mid \<Longrightarrow> rd n (pre @ mid @ post) (length pre + k) = rd n mid k"
  using slice_shift [of k "k + n" mid pre post] by (simp add: rd_def add.assoc)

lemma rd_skip: "length a \<le> k \<Longrightarrow> rd n (a @ b) k = rd n b (k - length a)"
proof -
  assume "length a \<le> k"
  then obtain j where "k = length a + j"
    using le_Suc_ex by blast
  then show ?thesis
    by (simp add: rd_def slice_def add.assoc)
qed

lemma rd_here: "rd n (le_bytes n v @ b) 0 = Inr (v mod 256 ^ n)"
  using rd_middle [of 0 "[]" n v b] by simp

lemma wadd_small: "a + b < 2 ^ 64 \<Longrightarrow> wadd a b = a + b"
  by (simp add: wadd_def)

lemma wsub_small:
  assumes "b \<le> a" "a < 2 ^ 64"
  shows "wsub a b = a - b"
proof -
  have "a + (2 ^ 64 - b mod 2 ^ 64) = (a - b) + 2 ^ 64"
    using assms by simp
  then have "wsub a b = ((a - b) + 2 ^ 64) mod 2 ^ 64"
    by (simp only: wsub_def)
  also have "\<dots> = (a - b) mod 2 ^ 64"
    by (rule mod_add_self2)
  also have "\<dots> = a - b"
    using assms by (intro mod_less) simp
  finally show ?thesis .
qed

lemma rd_eq: "k + n \<le> length xs \<Longrightarrow> rd n xs k = Inr (le_val (take n (drop k xs)))"
  by (simp add: rd_def slice_def)

end
