(* ===== verification/Perf_Data.thy ===== *)
theory Perf_Data
  imports Byte_Layout
begin

text \<open>
  \<^verbatim>\<open>src/capture/perfdata.rs\<close>: the reader of the \<^verbatim>\<open>perf.data\<close> format. A file is a buffer of bytes. Offsets
  and sizes come from the file and are added as in a release build (they wrap); a slice out of
  range panics. The walks over the data section are \<^verbatim>\<open>while\<close> loops on such sums, so they are
  partial functions: \<open>None\<close> is a walk that does not end.
\<close>

section \<open>Data\<close>

definition PERF_RECORD_AUXTRACE :: nat where
  "PERF_RECORD_AUXTRACE = 71"

definition MAGIC :: octets where
  "MAGIC = bytes_of ''PERFILE2''"

record aux_blob =
  ab_cpu :: nat
  ab_tid :: nat
  ab_bytes :: nat
  ab_file_offset :: nat

record intel_pt_info =
  pi_pmu_type :: nat
  pi_time_shift :: nat
  pi_time_mult :: nat
  pi_time_zero :: nat
  pi_cap_user_time_zero :: bool
  pi_tsc_bit :: nat
  pi_noretcomp_bit :: nat
  pi_have_sched_switch :: nat
  pi_snapshot_mode :: bool
  pi_per_cpu_mmaps :: bool
  pi_mtc_bit :: nat
  pi_mtc_freq_bits :: nat
  pi_tsc_ctc_ratio_n :: nat
  pi_tsc_ctc_ratio_d :: nat
  pi_cyc_bit :: nat
  pi_max_nonturbo_ratio :: nat

definition intel_pt_info_default :: intel_pt_info where
  "intel_pt_info_default =
     \<lparr>pi_pmu_type = 0, pi_time_shift = 0, pi_time_mult = 0, pi_time_zero = 0,
      pi_cap_user_time_zero = False, pi_tsc_bit = 0, pi_noretcomp_bit = 0, pi_have_sched_switch = 0,
      pi_snapshot_mode = False, pi_per_cpu_mmaps = False, pi_mtc_bit = 0, pi_mtc_freq_bits = 0,
      pi_tsc_ctc_ratio_n = 0, pi_tsc_ctc_ratio_d = 0, pi_cyc_bit = 0, pi_max_nonturbo_ratio = 0\<rparr>"

datatype sideband_record =
    SbMmap (sb_pid: nat) (sb_tid: nat) (sb_time: nat) (sb_start: nat) (sb_len: nat) (sb_pgoff: nat)
      (sb_exec: bool) (sb_path: string)
  | SbComm (sb_pid: nat) (sb_tid: nat) (sb_time: nat) (sb_comm: string) (sb_exec: bool)
  | SbFork (sb_pid: nat) (sb_ppid: nat) (sb_tid: nat) (sb_ptid: nat) (sb_time: nat)
  | SbExit (sb_pid: nat) (sb_ppid: nat) (sb_tid: nat) (sb_ptid: nat) (sb_time: nat)
  | SbSwitch (sb_pid: nat) (sb_tid: nat) (sb_cpu: nat) (sb_time: nat) (sb_out: bool)
  | SbItraceStart (sb_pid: nat) (sb_tid: nat) (sb_cpu: nat) (sb_time: nat)
  | SbLost (sb_time: nat) (sb_cpu: nat) (sb_lost: nat)

record perf_data =
  pd_info :: intel_pt_info
  pd_sideband :: "sideband_record list"
  pd_blobs :: "aux_blob list"
  pd_sample_type :: nat

section \<open>Time\<close>

text \<open>Shift amounts of 64 or more are reduced, as in a release build.\<close>

definition tsc_to_ns :: "intel_pt_info \<Rightarrow> nat \<Rightarrow> nat" where
  "tsc_to_ns info tsc =
     (let sh = pi_time_shift info mod 64;
          quot = tsc div 2 ^ sh;
          rm = tsc mod 2 ^ sh
      in wadd (wadd (pi_time_zero info) (wmul quot (pi_time_mult info)))
           (wmul rm (pi_time_mult info) div 2 ^ sh))"

definition ns_to_tsc :: "intel_pt_info \<Rightarrow> nat \<Rightarrow> nat" where
  "ns_to_tsc info ns =
     (let delta = wsub ns (pi_time_zero info)
      in if pi_time_mult info = 0 then 0
         else ((delta * 2 ^ (pi_time_shift info mod 128)) mod 2 ^ 128 div pi_time_mult info) mod 2 ^ 64)"

section \<open>The trailer of a record\<close>

text \<open>The bits of \<^verbatim>\<open>sample_type\<close>, by their exponents.\<close>

definition SAMPLE_TID :: nat where "SAMPLE_TID = 1"
definition SAMPLE_TIME :: nat where "SAMPLE_TIME = 2"
definition SAMPLE_ID :: nat where "SAMPLE_ID = 6"
definition SAMPLE_CPU :: nat where "SAMPLE_CPU = 7"
definition SAMPLE_STREAM_ID :: nat where "SAMPLE_STREAM_ID = 9"
definition SAMPLE_IDENTIFIER :: nat where "SAMPLE_IDENTIFIER = 16"
definition MISC_COMM_EXEC :: nat where "MISC_COMM_EXEC = 13"
definition MISC_SWITCH_OUT :: nat where "MISC_SWITCH_OUT = 13"

definition has_bit :: "nat \<Rightarrow> nat \<Rightarrow> bool" where
  "has_bit v k \<longleftrightarrow> odd (v div 2 ^ k)"

record record_trailer =
  rt_pid :: nat
  rt_tid :: nat
  rt_time :: nat
  rt_cpu :: nat

definition trailer_len :: "nat \<Rightarrow> nat" where
  "trailer_len st =
     sum_list (map (\<lambda>(b, n). if has_bit st b then n else 0)
       [(SAMPLE_TID, 8), (SAMPLE_TIME, 8), (SAMPLE_ID, 8), (SAMPLE_STREAM_ID, 8), (SAMPLE_CPU, 8),
        (SAMPLE_IDENTIFIER, 8)])"

definition parse_trailer :: "octets \<Rightarrow> nat \<Rightarrow> failure + record_trailer" where
  "parse_trailer rec st =
     (let t = \<lparr>rt_pid = 0, rt_tid = 0, rt_time = 0, rt_cpu = 0\<rparr>; n = trailer_len st
      in if length rec < n then Inr t
         else (let off = length rec - n in
           try_bind (if has_bit st SAMPLE_TID
                     then try_bind (rd 4 rec off) (\<lambda>p. try_bind (rd 4 rec (off + 4)) (\<lambda>i.
                            Inr (t\<lparr>rt_pid := p, rt_tid := i\<rparr>, off + 8)))
                     else Inr (t, off)) (\<lambda>(t, off).
           try_bind (if has_bit st SAMPLE_TIME
                     then try_bind (rd 8 rec off) (\<lambda>v. Inr (t\<lparr>rt_time := v\<rparr>, off + 8))
                     else Inr (t, off)) (\<lambda>(t, off).
           let off = (if has_bit st SAMPLE_ID then off + 8 else off);
               off = (if has_bit st SAMPLE_STREAM_ID then off + 8 else off)
           in if has_bit st SAMPLE_CPU then try_bind (rd 4 rec off) (\<lambda>v. Inr (t\<lparr>rt_cpu := v\<rparr>))
              else Inr t))))"

section \<open>Reading the sideband and the blobs\<close>

definition pt_words :: "octets \<Rightarrow> nat \<Rightarrow> failure + intel_pt_info" where
  "pt_words file pos =
     try_bind (map_try (\<lambda>i. rd 8 file (pos + 16 + i * 8)) [0..<16]) (\<lambda>p.
       Inr \<lparr>pi_pmu_type = p ! 0, pi_time_shift = p ! 1, pi_time_mult = p ! 2, pi_time_zero = p ! 3,
            pi_cap_user_time_zero = (p ! 4 \<noteq> 0), pi_tsc_bit = p ! 5, pi_noretcomp_bit = p ! 6,
            pi_have_sched_switch = p ! 7, pi_snapshot_mode = (p ! 8 \<noteq> 0),
            pi_per_cpu_mmaps = (p ! 9 \<noteq> 0), pi_mtc_bit = p ! 10, pi_mtc_freq_bits = p ! 11,
            pi_tsc_ctc_ratio_n = p ! 12, pi_tsc_ctc_ratio_d = p ! 13, pi_cyc_bit = p ! 14,
            pi_max_nonturbo_ratio = p ! 15\<rparr>)"

definition push_side :: "sideband_record \<Rightarrow> perf_data \<Rightarrow> perf_data" where
  "push_side s out = out\<lparr>pd_sideband := pd_sideband out @ [s]\<rparr>"

definition read_lost :: "octets \<Rightarrow> record_trailer \<Rightarrow> failure + sideband_record" where
  "read_lost rec tr =
     try_bind (rd 8 (drop 8 rec) 8) (\<lambda>n.
       Inr (SbLost (rt_time tr) (rt_cpu tr) n))"

definition read_comm ::
    "octets \<Rightarrow> nat \<Rightarrow> octets \<Rightarrow> nat \<Rightarrow> record_trailer \<Rightarrow> nat \<Rightarrow> failure + sideband_record" where
  "read_comm file pos rec st tr misc =
     try_bind (rd 4 file (pos + 8)) (\<lambda>pid.
     try_bind (rd 4 file (pos + 12)) (\<lambda>tid.
     try_bind (slice (drop 8 rec) 8 (length (drop 8 rec) - trailer_len st)) (\<lambda>raw.
       Inr (SbComm pid tid (rt_time tr) (trim_nul (text_of raw)) (has_bit misc MISC_COMM_EXEC)))))"

definition read_task :: "octets \<Rightarrow> nat \<Rightarrow> nat \<Rightarrow> failure + sideband_record" where
  "read_task file pos ty =
     try_bind (rd 4 file (pos + 8)) (\<lambda>pid.
     try_bind (rd 4 file (pos + 12)) (\<lambda>ppid.
     try_bind (rd 4 file (pos + 16)) (\<lambda>tid.
     try_bind (rd 4 file (pos + 20)) (\<lambda>ptid.
     try_bind (rd 8 file (pos + 24)) (\<lambda>time.
       Inr (if ty = 7 then SbFork pid ppid tid ptid time else SbExit pid ppid tid ptid time))))))"

definition read_mmap ::
    "octets \<Rightarrow> nat \<Rightarrow> nat \<Rightarrow> nat \<Rightarrow> record_trailer \<Rightarrow> failure + sideband_record" where
  "read_mmap file pos sz st tr =
     try_bind (rd 4 file (pos + 8)) (\<lambda>pid.
     try_bind (rd 4 file (pos + 12)) (\<lambda>tid.
     try_bind (rd 8 file (pos + 16)) (\<lambda>start.
     try_bind (rd 8 file (pos + 24)) (\<lambda>len.
     try_bind (rd 8 file (pos + 32)) (\<lambda>pgoff.
     try_bind (rd 4 file (pos + 64)) (\<lambda>prot.
     (let name_start = pos + 72; name_end = wsub (wadd pos sz) (trailer_len st)
      in try_bind (if name_end > name_start then slice file name_start name_end else Inr []) (\<lambda>raw.
           Inr (SbMmap pid tid (rt_time tr) start len pgoff (has_bit prot 2) (trim_nul (text_of raw)))))))))))"

definition read_blob :: "octets \<Rightarrow> nat \<Rightarrow> nat \<Rightarrow> failure + aux_blob" where
  "read_blob file pos sz =
     try_bind (rd 8 file (pos + 8)) (\<lambda>n.
     try_bind (rd 4 file (pos + 40)) (\<lambda>cpu.
     try_bind (rd 4 file (pos + 36)) (\<lambda>tid.
       Inr \<lparr>ab_cpu = cpu, ab_tid = tid, ab_bytes = n, ab_file_offset = wadd pos sz\<rparr>)))"

text \<open>The effect of one record, and how far the blob after it reaches.\<close>

definition read_record ::
    "octets \<Rightarrow> nat \<Rightarrow> nat \<Rightarrow> nat \<Rightarrow> nat \<Rightarrow> nat \<Rightarrow> octets \<Rightarrow> perf_data \<Rightarrow> failure + nat \<times> perf_data" where
  "read_record file st pos ty misc sz rec out =
     try_bind (parse_trailer rec st) (\<lambda>tr.
       let side = (\<lambda>r. try_bind r (\<lambda>s. Inr (0, push_side s out)))
       in if ty = 2 then side (read_lost rec tr)
          else if ty = 3 then side (read_comm file pos rec st tr misc)
          else if ty = 4 \<or> ty = 7 then side (read_task file pos ty)
          else if ty = 10 then side (read_mmap file pos sz st tr)
          else if ty = 12
          then side (try_bind (rd 4 file (pos + 8)) (\<lambda>pid. try_bind (rd 4 file (pos + 12)) (\<lambda>tid.
                 Inr (SbItraceStart pid tid (rt_cpu tr) (rt_time tr)))))
          else if ty = 14 \<or> ty = 15
          then Inr (0, push_side (SbSwitch (rt_pid tr) (rt_tid tr) (rt_cpu tr) (rt_time tr)
                         (has_bit misc MISC_SWITCH_OUT)) out)
          else if ty = 70
          then try_bind (rd 4 file (pos + 8)) (\<lambda>kind.
                 if kind = 1 \<and> sz \<ge> 8 + 8 + 17 * 8
                 then try_bind (pt_words file pos) (\<lambda>info. Inr (0, out\<lparr>pd_info := info\<rparr>))
                 else Inr (0, out))
          else if ty = PERF_RECORD_AUXTRACE
          then try_bind (read_blob file pos sz) (\<lambda>b.
                 Inr (ab_bytes b, out\<lparr>pd_blobs := pd_blobs out @ [b]\<rparr>))
          else Inr (0, out))"

definition record_header :: "octets \<Rightarrow> nat \<Rightarrow> failure + nat \<times> nat \<times> nat" where
  "record_header file pos =
     try_bind (rd 4 file pos) (\<lambda>ty. try_bind (rd 2 file (pos + 4)) (\<lambda>misc.
     try_bind (rd 2 file (pos + 6)) (\<lambda>sz. Inr (ty, misc, sz))))"

partial_function (option) read_loop ::
    "octets \<Rightarrow> nat \<Rightarrow> nat \<Rightarrow> nat \<Rightarrow> perf_data \<Rightarrow> (failure + perf_data) option" where
  "read_loop file st stop pos out =
     (if wadd pos 8 \<le> stop
      then (case record_header file pos of
              Inl e \<Rightarrow> Some (Inl e)
            | Inr (ty, misc, sz) \<Rightarrow>
                if sz < 8 \<or> wadd pos sz > stop then Some (Inr out)
                else (case slice file pos (wadd pos sz) of
                        Inl e \<Rightarrow> Some (Inl e)
                      | Inr rec \<Rightarrow>
                          (case read_record file st pos ty misc sz rec out of
                             Inl e \<Rightarrow> Some (Inl e)
                           | Inr (skip, out') \<Rightarrow>
                               read_loop file st stop (wadd (wadd pos skip) sz) out')))
      else Some (Inr out))"

definition read_perf_data :: "octets \<Rightarrow> (failure + perf_data) option" where
  "read_perf_data file =
     (if length file < 104 \<or> take 8 file \<noteq> MAGIC
      then Some (Inl (Err (decode_failed ''perf.data: bad header'')))
      else
        (case map_try (rd 8 file) [24, 32, 40, 48] of
           Inl e \<Rightarrow> Some (Inl e)
         | Inr w \<Rightarrow>
             (let attrs_off = w ! 0; attrs_size = w ! 1; data_off = w ! 2; data_size = w ! 3
              in if attrs_size < 40 \<or> wadd attrs_off 40 > length file
                    \<or> wadd data_off data_size > length file
                 then Some (Inl (Err (decode_failed ''perf.data: sections beyond EOF'')))
                 else (case rd 8 file (wadd attrs_off 24) of
                         Inl e \<Rightarrow> Some (Inl e)
                       | Inr st \<Rightarrow>
                           map_option (map_sum id (\<lambda>out. out\<lparr>pd_sideband := sort_key sb_time (pd_sideband out)\<rparr>))
                             (read_loop file st (wadd data_off data_size) data_off
                                \<lparr>pd_info = intel_pt_info_default, pd_sideband = [], pd_blobs = [],
                                 pd_sample_type = st\<rparr>)))))"

section \<open>Listing the blobs\<close>

text \<open>The file is read through a cursor here: a seek beyond \<^verbatim>\<open>i64::MAX\<close> fails, a record header that is
  cut off by the end of the file ends the walk.\<close>

definition seek_error :: error where
  "seek_error = error_of_io IoOther ''Invalid argument (os error 22)''"

function blob_loop :: "octets \<Rightarrow> nat \<Rightarrow> nat \<Rightarrow> aux_blob list \<Rightarrow> error + aux_blob list" where
  "blob_loop file stop pos out =
     (if wadd pos 8 \<le> stop
      then if pos \<ge> 2 ^ 63 then Inl seek_error
           else if length file < pos + 8 then Inr out
           else
             (let ty = le_val (take 4 (drop pos file));
                  sz = le_val (take 2 (drop (pos + 6) file))
              in if sz < 8
                 then Inl (decode_failed (''perf.data: record of size '' @ show_dec sz
                             @ '' at offset '' @ show_dec pos))
                 else if ty = PERF_RECORD_AUXTRACE
                 then if length file < pos + 48
                      then Inl (decode_failed ''perf.data: auxtrace body: failed to fill whole buffer'')
                      else
                        (let body = take 40 (drop (pos + 8) file);
                             aux_size = le_val (take 8 body);
                             b = \<lparr>ab_cpu = le_val (take 4 (drop 32 body)), ab_tid = le_val (take 4 (drop 28 body)),
                                  ab_bytes = aux_size, ab_file_offset = pos + sz\<rparr>
                         in blob_loop file stop (sat_add64 (pos + sz) aux_size) (out @ [b]))
                 else blob_loop file stop (pos + sz) out)
      else Inr out)"
  by pat_completeness auto
termination
  by (relation "measure (\<lambda>(_, _, pos, _). 2 ^ 64 - pos)") (auto simp: sat_add64_def u64_max_def)

definition auxtrace_blobs :: "octets \<Rightarrow> error + aux_blob list" where
  "auxtrace_blobs file =
     (if length file < 56
      then Inl (decode_failed ''perf.data header: failed to fill whole buffer'')
      else if take 8 file \<noteq> MAGIC then Inl (decode_failed ''perf.data: bad magic (expected PERFILE2)'')
      else (let data_off = le_val (take 8 (drop 40 file)); data_size = le_val (take 8 (drop 48 file))
            in blob_loop file (sat_add64 data_off data_size) data_off []))"

definition auxtrace_cpus :: "octets \<Rightarrow> error + nat list" where
  "auxtrace_cpus file =
     try_bind (auxtrace_blobs file) (\<lambda>bs.
       Inr (remdups_adj (sort (map ab_cpu (filter (\<lambda>b. ab_bytes b > 0) bs)))))"

section \<open>Splitting by CPU\<close>

text \<open>The data section without the blobs of other CPUs.\<close>

partial_function (option) split_loop ::
    "octets \<Rightarrow> nat list \<Rightarrow> nat \<Rightarrow> nat \<Rightarrow> octets \<Rightarrow> (failure + octets) option" where
  "split_loop file cpus data_end pos out =
     (if wadd pos 8 \<le> data_end
      then (case record_header file pos of
              Inl e \<Rightarrow> Some (Inl e)
            | Inr (ty, _, sz) \<Rightarrow>
                if sz < 8 \<or> wadd pos sz > data_end then Some (Inr out)
                else if ty = PERF_RECORD_AUXTRACE
                then (case try_bind (rd 8 file (pos + 8)) (\<lambda>n.
                             try_bind (rd 4 file (pos + 40)) (\<lambda>cpu. Inr (n, cpu))) of
                        Inl e \<Rightarrow> Some (Inl e)
                      | Inr (aux_size, rec_cpu) \<Rightarrow>
                          (let total = wadd sz aux_size
                           in if wadd pos total > data_end then Some (Inr out)
                              else if rec_cpu \<in> set cpus
                              then (case slice file pos (wadd pos total) of
                                      Inl e \<Rightarrow> Some (Inl e)
                                    | Inr b \<Rightarrow> split_loop file cpus data_end (wadd pos total) (out @ b))
                              else split_loop file cpus data_end (wadd pos total) out))
                else (case slice file pos (wadd pos sz) of
                        Inl e \<Rightarrow> Some (Inl e)
                      | Inr b \<Rightarrow> split_loop file cpus data_end (wadd pos sz) (out @ b)))
      else Some (Inr out))"

text \<open>The feature blobs are copied behind a new table.\<close>

fun relocate ::
    "octets \<Rightarrow> nat \<Rightarrow> nat list \<Rightarrow> nat \<Rightarrow> octets \<times> octets \<Rightarrow> failure + octets \<times> octets" where
  "relocate file table_off [] next_blob tb = Inr tb"
| "relocate file table_off (i # is) next_blob tb =
     (let e = table_off + i * 16
      in try_bind (rd 8 file e) (\<lambda>off.
         try_bind (rd 8 file (e + 8)) (\<lambda>sz.
           if wadd off sz > length file
           then Inl (Err (decode_failed ''perf.data: feature blob beyond EOF''))
           else try_bind (slice file off (wadd off sz)) (\<lambda>blob.
                  relocate file table_off is (wadd next_blob sz)
                    (fst tb @ le_bytes 8 next_blob @ le_bytes 8 sz, snd tb @ blob)))))"

definition split_by_cpus :: "octets \<Rightarrow> nat list \<Rightarrow> (failure + octets) option" where
  "split_by_cpus file cpus =
     (if length file < 104 \<or> take 8 file \<noteq> MAGIC
      then Some (Inl (Err (decode_failed ''perf.data: bad header'')))
      else
        (let data_off = le_val (take 8 (drop 40 file)); data_size = le_val (take 8 (drop 48 file));
             data_end = wadd data_off data_size
         in if data_end > length file
            then Some (Inl (Err (decode_failed ''perf.data: data section beyond EOF'')))
            else
              (let nfeat = sum_list (map (\<lambda>i. count_ones (le_val (take 8 (drop (72 + i * 8) file)))) [0..<4]);
                   table_len = nfeat * 16
               in if data_end + table_len > length file
                  then Some (Inl (Err (decode_failed ''perf.data: feature table beyond EOF'')))
                  else
                    (case slice file 0 data_off of
                       Inl e \<Rightarrow> Some (Inl e)
                     | Inr head \<Rightarrow>
                         map_option (\<lambda>r. try_bind r (\<lambda>out.
                           let new_data_size = length out - data_off
                           in try_bind (relocate file data_end [0..<nfeat] (length out + table_len) ([], []))
                                (\<lambda>(table, blobs).
                                  let res = out @ table @ blobs
                                  in if length res < 56 then Inl Panic
                                     else Inr (take 48 res @ le_bytes 8 new_data_size @ drop 56 res))))
                           (split_loop file cpus data_end data_off head)))))"

definition split_by_cpu :: "octets \<Rightarrow> nat \<Rightarrow> (failure + octets) option" where
  "split_by_cpu file cpu = split_by_cpus file [cpu]"

end
