(* ===== verification/Perf_Split.thy ===== *)
theory Perf_Split
  imports Perf_Data
begin

text \<open>
  Splitting of well-formed \<^verbatim>\<open>perf.data\<close> files. The format is described by a list of chunks: records
  with their bodies, where an \<^verbatim>\<open>AUXTRACE\<close> record is followed by raw trace bytes.
\<close>

record chunk =
  ck_type :: nat
  ck_misc :: nat
  ck_body :: octets
  ck_aux :: octets

definition record_bytes :: "nat \<Rightarrow> nat \<Rightarrow> octets \<Rightarrow> octets" where
  "record_bytes ty misc body = le_bytes 4 ty @ le_bytes 2 misc @ le_bytes 2 (8 + length body) @ body"

definition chunk_bytes :: "chunk \<Rightarrow> octets" where
  "chunk_bytes c = record_bytes (ck_type c) (ck_misc c) (ck_body c) @ ck_aux c"

definition ck_cpu :: "chunk \<Rightarrow> nat" where
  "ck_cpu c = le_val (take 4 (drop 32 (ck_body c)))"

definition ck_tid :: "chunk \<Rightarrow> nat" where
  "ck_tid c = le_val (take 4 (drop 28 (ck_body c)))"

definition chunk_ok :: "chunk \<Rightarrow> bool" where
  "chunk_ok c \<longleftrightarrow> ck_type c < 2 ^ 32 \<and> ck_misc c < 2 ^ 16 \<and> 8 + length (ck_body c) < 2 ^ 16 \<and>
     (if ck_type c = PERF_RECORD_AUXTRACE
      then 40 \<le> length (ck_body c) \<and> le_val (take 8 (ck_body c)) = length (ck_aux c)
      else ck_aux c = [])"

definition data_bytes :: "chunk list \<Rightarrow> octets" where
  "data_bytes cs = concat (map chunk_bytes cs)"

fun feature_table :: "nat \<Rightarrow> octets list \<Rightarrow> octets" where
  "feature_table off [] = []"
| "feature_table off (f # fs) = le_bytes 8 off @ le_bytes 8 (length f) @ feature_table (off + length f) fs"

definition set_data_size :: "nat \<Rightarrow> octets \<Rightarrow> octets" where
  "set_data_size n xs = take 48 xs @ le_bytes 8 n @ drop 56 xs"

definition perf_file :: "octets \<Rightarrow> chunk list \<Rightarrow> octets list \<Rightarrow> octets" where
  "perf_file head cs feats =
     (let data = data_bytes cs; off = length head + length data
      in set_data_size (length data) head @ data @ feature_table (off + 16 * length feats) feats @ concat feats)"

definition head_ok :: "octets \<Rightarrow> nat \<Rightarrow> bool" where
  "head_ok head n \<longleftrightarrow> 104 \<le> length head \<and> take 8 head = MAGIC \<and>
     le_val (take 8 (drop 40 head)) = length head \<and>
     sum_list (map (\<lambda>i. count_ones (le_val (take 8 (drop (72 + i * 8) head)))) [0..<4]) = n"

lemma length_record_bytes [simp]: "length (record_bytes ty misc body) = 8 + length body"
  by (simp add: record_bytes_def)

lemma record_header_at:
  assumes "ty < 2 ^ 32" "misc < 2 ^ 16" "8 + length body < 2 ^ 16"
  shows "record_header (pre @ record_bytes ty misc body @ post) (length pre) = Inr (ty, misc, 8 + length body)"
proof -
  let ?r = "record_bytes ty misc body"
  have "rd 4 (pre @ ?r @ post) (length pre) = Inr ty"
    using assms(1) rd_shift [of 0 4 ?r pre post] by (simp add: record_bytes_def rd_here)
  moreover have "rd 2 (pre @ ?r @ post) (length pre + 4) = Inr misc"
    using assms(2) rd_shift [of 4 2 ?r pre post] by (simp add: record_bytes_def rd_here rd_skip)
  moreover have "rd 2 (pre @ ?r @ post) (length pre + 6) = Inr (8 + length body)"
    using assms(3) rd_shift [of 6 2 ?r pre post] by (simp add: record_bytes_def rd_here rd_skip)
  ultimately show ?thesis
    by (simp add: record_header_def)
qed

lemma rd_body:
  "k + n \<le> length body \<Longrightarrow>
   rd n (pre @ record_bytes ty misc body @ post) (length pre + (8 + k)) = Inr (le_val (take n (drop k body)))"
  using rd_shift [of "8 + k" n "record_bytes ty misc body" pre post]
  by (simp add: record_bytes_def rd_skip rd_eq)

lemma data_bytes_Cons: "data_bytes (c # cs) = chunk_bytes c @ data_bytes cs"
  by (simp add: data_bytes_def)

definition keeps :: "nat list \<Rightarrow> chunk \<Rightarrow> bool" where
  "keeps cpus c \<longleftrightarrow> ck_type c \<noteq> PERF_RECORD_AUXTRACE \<or> ck_cpu c \<in> set cpus"

lemma split_loop_chunks:
  assumes "\<forall>c\<in>set cs. chunk_ok c" "length pre + length (data_bytes cs) + 8 < 2 ^ 64"
  shows "split_loop (pre @ data_bytes cs @ post) cpus (length pre + length (data_bytes cs)) (length pre) out =
    Some (Inr (out @ data_bytes (filter (keeps cpus) cs)))"
  using assms
proof (induction cs arbitrary: pre out)
  case Nil
  then show ?case
    by (subst split_loop.simps) (simp add: data_bytes_def wadd_small)
next
  case (Cons c cs)
  let ?d = "data_bytes cs"
  let ?r = "record_bytes (ck_type c) (ck_misc c) (ck_body c)"
  define buf where "buf = pre @ data_bytes (c # cs) @ post"
  define stop where "stop = length pre + length (data_bytes (c # cs))"
  have whole: "buf = pre @ ?r @ (ck_aux c @ ?d @ post)"
    by (simp add: buf_def data_bytes_Cons chunk_bytes_def)
  have ok: "chunk_ok c"
    using Cons.prems(1) by simp
  have n: "length (chunk_bytes c) = 8 + length (ck_body c) + length (ck_aux c)"
    by (simp add: chunk_bytes_def)
  have stop: "stop = length pre + length (chunk_bytes c) + length ?d" "stop + 8 < 2 ^ 64"
    using Cons.prems(2) by (simp_all add: stop_def data_bytes_Cons)
  have header: "record_header buf (length pre) = Inr (ck_type c, ck_misc c, 8 + length (ck_body c))"
    unfolding whole using ok by (intro record_header_at) (auto simp: chunk_ok_def)
  have IH: "split_loop buf cpus stop (length pre + length (chunk_bytes c)) out' =
      Some (Inr (out' @ data_bytes (filter (keeps cpus) cs)))" for out'
    using Cons.IH [of "pre @ chunk_bytes c" out'] Cons.prems
    by (simp add: data_bytes_Cons buf_def stop_def add.assoc)
  have piece: "slice buf (length pre) (length pre + length (chunk_bytes c)) = Inr (chunk_bytes c)"
    unfolding buf_def data_bytes_Cons append_assoc by (rule slice_middle) simp_all
  have fits: "wadd (length pre) 8 \<le> stop" "\<not> wadd (length pre) (8 + length (ck_body c)) > stop"
    "wadd (length pre) (length (chunk_bytes c)) = length pre + length (chunk_bytes c)"
    "\<not> stop < length pre + length (chunk_bytes c)"
    using stop n by (simp_all add: wadd_small)
  have "split_loop buf cpus stop (length pre) out =
      Some (Inr (out @ (if keeps cpus c then chunk_bytes c else []) @ data_bytes (filter (keeps cpus) cs)))"
  proof (cases "ck_type c = PERF_RECORD_AUXTRACE")
    case True
    then have body: "40 \<le> length (ck_body c)" "le_val (take 8 (ck_body c)) = length (ck_aux c)"
      using ok by (simp_all add: chunk_ok_def)
    have words: "rd 8 buf (length pre + 8) = Inr (length (ck_aux c))"
      "rd 4 buf (length pre + 40) = Inr (ck_cpu c)"
      using body rd_body [of 0 8 "ck_body c" pre "ck_type c" "ck_misc c" "ck_aux c @ ?d @ post"]
        rd_body [of 32 4 "ck_body c" pre "ck_type c" "ck_misc c" "ck_aux c @ ?d @ post"]
      by (simp_all add: whole ck_cpu_def)
    have total: "wadd (8 + length (ck_body c)) (length (ck_aux c)) = length (chunk_bytes c)"
      using stop n by (simp add: wadd_small)
    show ?thesis
      using fits True
      by (subst split_loop.simps) (simp add: header words total piece IH keeps_def Let_def)
  next
    case False
    then have "length (chunk_bytes c) = 8 + length (ck_body c)"
      using ok n by (simp add: chunk_ok_def)
    then show ?thesis
      using fits False piece IH
      by (subst split_loop.simps) (simp add: header keeps_def)
  qed
  then show ?case
    by (simp add: buf_def stop_def data_bytes_Cons)
qed

fun feature_offsets :: "nat \<Rightarrow> octets list \<Rightarrow> nat list" where
  "feature_offsets off [] = []"
| "feature_offsets off (f # fs) = off # feature_offsets (off + length f) fs"

lemma length_feature_table [simp]: "length (feature_table off fs) = 16 * length fs"
  by (induction fs arbitrary: off) simp_all

text \<open>Relocation copies each blob; the table is read entry by entry.\<close>

lemma relocate_features:
  assumes "buf = pre @ feature_table off fs @ concat done1 @ concat fs @ post"
    and "length pre = table_off + 16 * k" "off = length pre + 16 * length fs + length (concat done1)"
    and "length buf < 2 ^ 63" "next_blob + length (concat fs) < 2 ^ 64"
  shows "relocate buf table_off [k..<k + length fs] next_blob (t, b) =
    Inr (t @ feature_table next_blob fs, b @ concat fs)"
  using assms
proof (induction fs arbitrary: pre off done1 k next_blob t b)
  case (Cons f fs)
  have range: "[k..<k + length (f # fs)] = k # [Suc k..<Suc k + length fs]"
    by (subst upt_conv_Cons) (simp_all del: upt_Suc)
  let ?e = "table_off + k * 16"
  have e: "?e = length pre"
    using Cons.prems(2) by simp
  have bounds: "off < 2 ^ 63" "off + length f < 2 ^ 63" "length f < 2 ^ 63"
    using Cons.prems(1,3,4) by simp_all
  have "rd 8 buf ?e = Inr off"
    unfolding e Cons.prems(1) using bounds rd_middle [of "length pre" pre 8 off] by simp
  moreover have "rd 8 buf (?e + 8) = Inr (length f)"
    unfolding e Cons.prems(1) using bounds
      rd_middle [of "length pre + 8" "pre @ le_bytes 8 off" 8 "length f"] by simp
  moreover have "slice buf off (off + length f) = Inr f"
    using slice_middle [of off "pre @ feature_table off (f # fs) @ concat done1" "off + length f" f "concat fs @ post"]
      Cons.prems(1,3) by simp
  moreover have "wadd off (length f) = off + length f" "\<not> length buf < off + length f"
    using bounds Cons.prems(1,3) by (simp_all add: wadd_small)
  moreover have "wadd next_blob (length f) = next_blob + length f"
    using Cons.prems(5) by (simp add: wadd_small)
  moreover have "relocate buf table_off [Suc k..<Suc k + length fs] (next_blob + length f)
      (t @ le_bytes 8 next_blob @ le_bytes 8 (length f), b @ f) =
    Inr ((t @ le_bytes 8 next_blob @ le_bytes 8 (length f)) @ feature_table (next_blob + length f) fs,
         (b @ f) @ concat fs)"
    by (rule Cons.IH [of "pre @ le_bytes 8 off @ le_bytes 8 (length f)" "off + length f" "done1 @ [f]"])
      (use Cons.prems in simp_all)
  ultimately show ?case
    unfolding range by (simp add: Let_def)
qed simp

section \<open>Listing the blobs of a well-formed file\<close>

fun blobs_at :: "nat \<Rightarrow> chunk list \<Rightarrow> aux_blob list" where
  "blobs_at pos [] = []"
| "blobs_at pos (c # cs) =
     (if ck_type c = PERF_RECORD_AUXTRACE
      then [\<lparr>ab_cpu = ck_cpu c, ab_tid = ck_tid c, ab_bytes = length (ck_aux c),
             ab_file_offset = pos + 8 + length (ck_body c)\<rparr>] else [])
     @ blobs_at (pos + length (chunk_bytes c)) cs"

declare blob_loop.simps [simp del]

lemma rd_val: "rd n xs k = Inr v \<Longrightarrow> k + n \<le> length xs \<and> le_val (take n (drop k xs)) = v"
  by (auto simp: rd_def slice_def try_bind_def split: if_splits)

lemma blob_loop_chunks:
  assumes "\<forall>c\<in>set cs. chunk_ok c" "length pre + length (data_bytes cs) + 8 < 2 ^ 63"
  shows "blob_loop (pre @ data_bytes cs @ post) (length pre + length (data_bytes cs)) (length pre) out =
    Inr (out @ blobs_at (length pre) cs)"
  using assms
proof (induction cs arbitrary: pre out)
  case Nil
  then show ?case
    by (subst blob_loop.simps) (simp add: data_bytes_def wadd_small)
next
  case (Cons c cs)
  let ?d = "data_bytes cs"
  let ?r = "record_bytes (ck_type c) (ck_misc c) (ck_body c)"
  define buf where "buf = pre @ data_bytes (c # cs) @ post"
  define stop where "stop = length pre + length (data_bytes (c # cs))"
  have whole: "buf = pre @ ?r @ (ck_aux c @ ?d @ post)"
    by (simp add: buf_def data_bytes_Cons chunk_bytes_def)
  have ok: "chunk_ok c"
    using Cons.prems(1) by simp
  have n: "length (chunk_bytes c) = 8 + length (ck_body c) + length (ck_aux c)"
    by (simp add: chunk_bytes_def)
  have stop: "stop = length pre + length (chunk_bytes c) + length ?d" "stop + 8 < 2 ^ 63"
    using Cons.prems(2) by (simp_all add: stop_def data_bytes_Cons)
  have "record_header buf (length pre) = Inr (ck_type c, ck_misc c, 8 + length (ck_body c))"
    unfolding whole using ok by (intro record_header_at) (auto simp: chunk_ok_def)
  then have head: "rd 4 buf (length pre) = Inr (ck_type c)" "rd 2 buf (length pre + 6) = Inr (8 + length (ck_body c))"
    by (auto simp: record_header_def try_bind_Inr_iff)
  have fits: "wadd (length pre) 8 \<le> stop" "length pre < 2 ^ 63" "length pre + 8 \<le> length buf"
    using stop n by (simp_all add: wadd_small buf_def data_bytes_Cons)
  have IH: "blob_loop buf stop (length pre + length (chunk_bytes c)) out' =
      Inr (out' @ blobs_at (length pre + length (chunk_bytes c)) cs)" for out'
    using Cons.IH [of "pre @ chunk_bytes c" out'] Cons.prems
    by (simp add: data_bytes_Cons buf_def stop_def add.assoc)
  have "blob_loop buf stop (length pre) out = Inr (out @ blobs_at (length pre) (c # cs))"
  proof (cases "ck_type c = PERF_RECORD_AUXTRACE")
    case True
    then have body: "40 \<le> length (ck_body c)" "le_val (take 8 (ck_body c)) = length (ck_aux c)"
      using ok by (simp_all add: chunk_ok_def)
    have whole_body: "take 40 (drop (length pre + 8) buf) = take 40 (ck_body c)"
      using body(1) by (simp add: whole record_bytes_def)
    have "length pre + 48 \<le> length buf"
      using body(1) by (simp add: whole)
    moreover have "sat_add64 (length pre + (8 + length (ck_body c))) (length (ck_aux c)) =
        length pre + length (chunk_bytes c)"
      using stop n by (simp add: sat_add64_def u64_max_def)
    moreover have "take 8 (take 40 (ck_body c)) = take 8 (ck_body c)"
      "take 4 (drop 32 (take 40 (ck_body c))) = take 4 (drop 32 (ck_body c))"
      "take 4 (drop 28 (take 40 (ck_body c))) = take 4 (drop 28 (ck_body c))"
      by (simp_all add: drop_take min_def)
    ultimately show ?thesis
      using fits rd_val [OF head(1)] rd_val [OF head(2)] True body(2) IH
      by (subst blob_loop.simps) (simp add: Let_def whole_body ck_cpu_def ck_tid_def add.assoc)
  next
    case False
    then have "length (chunk_bytes c) = 8 + length (ck_body c)"
      using ok n by (simp add: chunk_ok_def)
    then show ?thesis
      using fits rd_val [OF head(1)] rd_val [OF head(2)] False IH
      by (subst blob_loop.simps) (simp add: Let_def)
  qed
  then show ?case
    by (simp add: buf_def stop_def)
qed

section \<open>Files\<close>

lemma set_data_size_fields:
  assumes "56 \<le> length xs"
  shows "length (set_data_size n xs) = length xs" "take 8 (set_data_size n xs) = take 8 xs"
    "take 8 (drop 40 (set_data_size n xs)) = take 8 (drop 40 xs)"
    "take 8 (drop 48 (set_data_size n xs)) = le_bytes 8 n"
    "set_data_size m (set_data_size n xs @ ys) = set_data_size m xs @ ys"
  using assms by (simp_all add: set_data_size_def drop_take)

lemma set_data_size_feature:
  assumes "104 \<le> length xs" "i < 4"
  shows "take 8 (drop (72 + i * 8) (set_data_size n xs)) = take 8 (drop (72 + i * 8) xs)"
  using assms by (simp add: set_data_size_def min_def)

lemma perf_file_header:
  fixes feats :: "octets list"
  assumes "head_ok head n" "length (data_bytes cs) < 2 ^ 64"
  defines "buf \<equiv> perf_file head cs feats"
  shows "take 8 buf = MAGIC" "le_val (take 8 (drop 40 buf)) = length head" "104 \<le> length buf"
    "le_val (take 8 (drop 48 buf)) = length (data_bytes cs)"
    "sum_list (map (\<lambda>i. count_ones (le_val (take 8 (drop (72 + i * 8) buf)))) [0..<4]) = n"
proof -
  have h: "104 \<le> length head" "take 8 head = MAGIC" "le_val (take 8 (drop 40 head)) = length head"
    "sum_list (map (\<lambda>i. count_ones (le_val (take 8 (drop (72 + i * 8) head)))) [0..<4]) = n"
    using assms(1) by (simp_all add: head_ok_def)
  show "take 8 buf = MAGIC" "le_val (take 8 (drop 40 buf)) = length head" "104 \<le> length buf"
    "le_val (take 8 (drop 48 buf)) = length (data_bytes cs)"
    using h(1-3) assms(2) by (simp_all add: buf_def perf_file_def Let_def set_data_size_fields le_val_le_bytes)
  have "map (\<lambda>i. count_ones (le_val (take 8 (drop (72 + i * 8) buf)))) [0..<4] =
      map (\<lambda>i. count_ones (le_val (take 8 (drop (72 + i * 8) head)))) [0..<4]"
    using h(1) by (intro map_cong) (simp_all add: buf_def perf_file_def Let_def set_data_size_feature set_data_size_fields(1))
  then show "sum_list (map (\<lambda>i. count_ones (le_val (take 8 (drop (72 + i * 8) buf)))) [0..<4]) = n"
    using h(4) by (simp only:)
qed

lemma auxtrace_blobs_file:
  assumes "head_ok head n" "\<forall>c\<in>set cs. chunk_ok c" "length (perf_file head cs feats) + 8 < 2 ^ 63"
  shows "auxtrace_blobs (perf_file head cs feats) = Inr (blobs_at (length head) cs)"
proof -
  let ?buf = "perf_file head cs feats"
  define post where "post = feature_table (length head + length (data_bytes cs) + 16 * length feats) feats @ concat feats"
  have buf: "?buf = set_data_size (length (data_bytes cs)) head @ data_bytes cs @ post"
    by (simp add: perf_file_def post_def Let_def)
  have head: "56 \<le> length head"
    using assms(1) by (simp add: head_ok_def)
  have small: "length head + length (data_bytes cs) + 8 < 2 ^ 63"
    using assms(3) by (simp add: buf set_data_size_fields(1) [OF head])
  have loop: "blob_loop ?buf (length head + length (data_bytes cs)) (length head) [] = Inr (blobs_at (length head) cs)"
    using blob_loop_chunks [OF assms(2), of "set_data_size (length (data_bytes cs)) head" post "[]"] small
    by (simp add: buf set_data_size_fields(1) [OF head])
  have sum: "sat_add64 (length head) (length (data_bytes cs)) = length head + length (data_bytes cs)"
    using small by (simp add: sat_add64_def u64_max_def)
  show ?thesis
    using perf_file_header [OF assms(1), of cs feats] small loop
    by (simp add: auxtrace_blobs_def Let_def sum)
qed

lemma blobs_at_filter:
  "map (\<lambda>b. (ab_cpu b, ab_tid b, ab_bytes b)) (blobs_at pos' (filter (keeps cpus) cs)) =
   filter (\<lambda>(cpu, _). cpu \<in> set cpus) (map (\<lambda>b. (ab_cpu b, ab_tid b, ab_bytes b)) (blobs_at pos cs))"
  by (induction cs arbitrary: pos pos') (auto simp: keeps_def)

lemma length_data_filter: "length (data_bytes (filter P cs)) \<le> length (data_bytes cs)"
  by (induction cs) (auto simp: data_bytes_def)

lemma split_file:
  assumes "head_ok head (length feats)" "\<forall>c\<in>set cs. chunk_ok c"
    and "length (perf_file head cs feats) + 8 < 2 ^ 63"
  shows "split_by_cpus (perf_file head cs feats) cpus =
    Some (Inr (perf_file head (filter (keeps cpus) cs) feats))"
proof -
  define buf where "buf = perf_file head cs feats"
  define h where "h = set_data_size (length (data_bytes cs)) head"
  define off where "off = length head + length (data_bytes cs) + 16 * length feats"
  let ?D = "data_bytes (filter (keeps cpus) cs)"
  let ?next = "length h + length ?D + 16 * length feats"
  have head: "56 \<le> length head"
    using assms(1) by (simp add: head_ok_def)
  have h: "length h = length head"
    by (simp add: h_def set_data_size_fields(1) [OF head])
  have buf: "buf = h @ data_bytes cs @ feature_table off feats @ concat feats"
    by (simp add: buf_def h_def off_def perf_file_def Let_def)
  have small: "length h + length (data_bytes cs) + 16 * length feats + length (concat feats) + 8 < 2 ^ 63"
    using assms(3) unfolding buf_def [symmetric] by (simp add: buf del: length_concat)
  have less: "length ?D \<le> length (data_bytes cs)"
    by (rule length_data_filter)
  have start: "slice buf 0 (length head) = Inr h"
    using slice_middle [of 0 "[]" "length head" h] by (simp add: buf h)
  have loop: "split_loop buf cpus (length head + length (data_bytes cs)) (length head) h = Some (Inr (h @ ?D))"
    using split_loop_chunks [OF assms(2), of h "feature_table off feats @ concat feats" cpus h] small
    by (simp add: buf h)
  have moved: "relocate buf (length head + length (data_bytes cs)) [0..<length feats] ?next ([], []) =
      Inr (feature_table ?next feats, concat feats)"
    using relocate_features [of buf "h @ data_bytes cs" off feats "[]" "[]" "length head + length (data_bytes cs)" 0 ?next "[]" "[]"]
      small less by (simp add: buf h off_def del: length_concat)
  have end1: "wadd (length head) (length (data_bytes cs)) = length head + length (data_bytes cs)"
    using small h by (simp add: wadd_small)
  have new: "take 48 (h @ ?D @ r) @ le_bytes 8 (length ?D) @ drop 56 (h @ ?D @ r) =
      set_data_size (length ?D) head @ ?D @ r" for r
    using set_data_size_fields(5) [OF head, of "length ?D" "length (data_bytes cs)" "?D @ r"]
    by (simp add: set_data_size_def [of _ "h @ _"] h_def [symmetric])
  have len: "length head + length (data_bytes cs) \<le> length buf"
    "length head + length (data_bytes cs) + length feats * 16 \<le> length buf"
    by (simp_all add: buf h)
  have "length (data_bytes cs) < 2 ^ 64"
    using small by simp
  note header = perf_file_header [OF assms(1) this, of feats, folded buf_def]
  have "split_by_cpus buf cpus = Some (Inr (set_data_size (length ?D) head @ ?D @
      feature_table ?next feats @ concat feats))"
    using header len head start loop moved new [of "feature_table ?next feats @ concat feats"]
    unfolding split_by_cpus_def Let_def
    by (simp add: end1 h mult.commute del: length_concat append_assoc add: append_assoc [symmetric])
  moreover have "perf_file head (filter (keeps cpus) cs) feats =
      set_data_size (length ?D) head @ ?D @ feature_table ?next feats @ concat feats"
    by (simp add: perf_file_def h Let_def)
  ultimately show ?thesis
    unfolding buf_def by (simp only:)
qed

text \<open>
  C36: Splitting a well-formed file by CPUs gives the well-formed file of the remaining chunks: every
  record is kept in order but the AUX records of other CPUs, which go with their trace bytes; the
  size of the data section is updated and the feature table is rewritten for the moved blobs, whose
  bytes are unchanged. The copy lists exactly the AUX blobs of the wanted CPUs.
\<close>

theorem split_keeps_cpus:
  assumes "head_ok head (length feats)" "\<forall>c\<in>set cs. chunk_ok c"
    and "length (perf_file head cs feats) + 8 < 2 ^ 63"
  shows "\<exists>bs copy bs'. split_by_cpus (perf_file head cs feats) cpus = Some (Inr copy) \<and>
    copy = perf_file head (filter (keeps cpus) cs) feats \<and>
    auxtrace_blobs (perf_file head cs feats) = Inr bs \<and> auxtrace_blobs copy = Inr bs' \<and>
    map (\<lambda>b. (ab_cpu b, ab_tid b, ab_bytes b)) bs' =
      filter (\<lambda>(cpu, _). cpu \<in> set cpus) (map (\<lambda>b. (ab_cpu b, ab_tid b, ab_bytes b)) bs)"
proof -
  have "length (perf_file head (filter (keeps cpus) cs) feats) \<le> length (perf_file head cs feats)"
    using assms(1) length_data_filter [of "keeps cpus" cs]
    by (simp add: perf_file_def head_ok_def Let_def set_data_size_fields(1))
  then have "auxtrace_blobs (perf_file head (filter (keeps cpus) cs) feats) =
      Inr (blobs_at (length head) (filter (keeps cpus) cs))"
    using assms by (intro auxtrace_blobs_file [OF assms(1)]) auto
  then show ?thesis
    using split_file [OF assms] auxtrace_blobs_file [OF assms] blobs_at_filter by blast
qed

definition demo_head :: octets where
  "demo_head = MAGIC @ replicate 32 0 @ le_bytes 8 104 @ replicate 56 0"

definition demo_aux :: "nat \<Rightarrow> octets \<Rightarrow> chunk" where
  "demo_aux cpu aux =
     \<lparr>ck_type = 71, ck_misc = 0,
      ck_body = le_bytes 8 (length aux) @ replicate 20 0 @ le_bytes 4 7 @ le_bytes 4 cpu @ replicate 4 0,
      ck_aux = aux\<rparr>"

lemma demo_head_ok: "head_ok demo_head 0"
proof -
  have "le_val (replicate n 0) = 0" for n
    by (induction n) simp_all
  then have "le_val (take 8 (drop (72 + i * 8) demo_head)) = 0" if "i \<in> set [0..<4]" for i
    using that by (simp add: demo_head_def MAGIC_def)
  moreover have "count_ones 0 = 0"
    by (simp add: count_ones_def)
  ultimately have "map (\<lambda>i. count_ones (le_val (take 8 (drop (72 + i * 8) demo_head)))) [0..<4] = map (\<lambda>_. 0) [0..<4]"
    by (intro map_cong refl) (simp only:)
  then have "sum_list (map (\<lambda>i. count_ones (le_val (take 8 (drop (72 + i * 8) demo_head)))) [0..<4]) = 0"
    by (simp only: sum_list_0)
  moreover have "length demo_head = 104" "take 8 demo_head = MAGIC" "take 8 (drop 40 demo_head) = le_bytes 8 104"
    by (simp_all add: demo_head_def MAGIC_def)
  ultimately show ?thesis
    by (simp add: head_ok_def le_val_le_bytes)
qed

lemma demo_aux_ok:
  assumes "length aux < 2 ^ 64" "cpu < 2 ^ 32"
  shows "chunk_ok (demo_aux cpu aux)" "ck_cpu (demo_aux cpu aux) = cpu" "ck_tid (demo_aux cpu aux) = 7"
  using assms by (simp_all add: chunk_ok_def demo_aux_def PERF_RECORD_AUXTRACE_def ck_cpu_def ck_tid_def le_val_le_bytes)

lemma split_keeps_cpus_witness:
  "\<exists>bs copy bs'. split_by_cpus (perf_file demo_head [demo_aux 5 [1, 2], demo_aux 3 [9]] []) [3] = Some (Inr copy) \<and>
     auxtrace_blobs copy = Inr bs' \<and> map (\<lambda>b. (ab_cpu b, ab_tid b, ab_bytes b)) bs' = [(3, 7, 1)]"
proof -
  let ?cs = "[demo_aux 5 [1, 2], demo_aux 3 [9]]"
  have ok: "head_ok demo_head (length ([] :: octets list))" "\<forall>c\<in>set ?cs. chunk_ok c"
    using demo_head_ok by (simp_all add: demo_aux_ok)
  have "length demo_head = 104"
    by (simp add: demo_head_def MAGIC_def)
  then have small: "length (perf_file demo_head ?cs []) + 8 < 2 ^ 63"
    by (simp add: perf_file_def set_data_size_fields(1) Let_def data_bytes_def chunk_bytes_def demo_aux_def)
  have "map (\<lambda>b. (ab_cpu b, ab_tid b, ab_bytes b)) (blobs_at 104 ?cs) = [(5, 7, 2), (3, 7, 1)]"
    using demo_aux_ok [of "[1, 2]" 5] demo_aux_ok [of "[9]" 3]
    by (simp add: PERF_RECORD_AUXTRACE_def) (simp add: demo_aux_def)
  moreover have "auxtrace_blobs (perf_file demo_head ?cs []) = Inr (blobs_at 104 ?cs)"
    using auxtrace_blobs_file [OF ok(1,2) small] \<open>length demo_head = 104\<close> by simp
  ultimately show ?thesis
    using split_keeps_cpus [OF ok small, of "[3]"] by auto
qed

section \<open>A file that is never left\<close>

text \<open>
  The size of a blob is added to the size of its record without a check: a blob size of
  $2^{64}$ less the record makes the walk stay where it is.
\<close>

definition looping_file :: octets where
  "looping_file = set_data_size 48 demo_head @
     record_bytes 71 0 (le_bytes 8 (2 ^ 64 - 48) @ replicate 32 0)"

lemma looping_words:
  "record_header looping_file 104 = Inr (71, 0, 48)"
  "rd 8 looping_file 112 = Inr (2 ^ 64 - 48)" "rd 4 looping_file 144 = Inr 0"
proof -
  have len: "length (set_data_size 48 demo_head) = 104"
    by (simp add: set_data_size_def demo_head_def MAGIC_def)
  let ?body = "le_bytes 8 (2 ^ 64 - 48) @ replicate 32 0"
  show "record_header looping_file 104 = Inr (71, 0, 48)"
    using record_header_at [of 71 0 ?body "set_data_size 48 demo_head" "[]"] len
    by (simp add: looping_file_def)
  have "le_val (replicate n 0) = 0" for n
    by (induction n) simp_all
  then show "rd 8 looping_file 112 = Inr (2 ^ 64 - 48)" "rd 4 looping_file 144 = Inr 0"
    using rd_body [of 0 8 ?body "set_data_size 48 demo_head" 71 0 "[]"] len
      rd_body [of 32 4 ?body "set_data_size 48 demo_head" 71 0 "[]"]
    by (simp_all add: looping_file_def le_val_le_bytes)
qed

lemma split_may_hang: "split_by_cpus looping_file [1] = None"
proof -
  have none: "split_loop looping_file [1] 152 104 out = None" for out
  proof (rule ccontr)
    assume "split_loop looping_file [1] 152 104 out \<noteq> None"
    then obtain r where "split_loop looping_file [1] 152 104 out = Some r"
      by blast
    then have "\<not> (looping_file = looping_file \<and> [1] = [1::nat] \<and> 152 = (152::nat) \<and> 104 = (104::nat))"
    proof (rule split_loop.raw_induct [where P = "\<lambda>f cpus stop pos out r.
          \<not> (f = looping_file \<and> cpus = [1] \<and> stop = 152 \<and> pos = 104)", rotated], goal_cases)
      case (1 loop f cpus stop pos out r)
      show ?case
      proof
        assume "f = looping_file \<and> cpus = [1] \<and> stop = 152 \<and> pos = 104"
        then have "loop looping_file [1] 152 104 out = Some r"
          using 1(2) looping_words
          by (simp add: wadd_def PERF_RECORD_AUXTRACE_def Let_def)
        then show False
          using 1(1) by blast
      qed
    qed
    then show False
      by simp
  qed
  let ?c = "\<lparr>ck_type = 71, ck_misc = 0,
      ck_body = le_bytes 8 (2 ^ 64 - 48) @ replicate 32 0, ck_aux = []\<rparr>"
  have whole: "perf_file demo_head [?c] [] = looping_file"
    by (simp add: looping_file_def perf_file_def Let_def data_bytes_def chunk_bytes_def)
  have n: "length (data_bytes [?c]) = 48"
    by (simp add: data_bytes_def chunk_bytes_def)
  have "length demo_head = 104"
    by (simp add: demo_head_def MAGIC_def)
  then have len: "length demo_head = 104" "length looping_file = 152"
    by (simp_all add: looping_file_def set_data_size_fields(1))
  have "length (data_bytes [?c]) < 2 ^ 64"
    unfolding n by simp
  note header = perf_file_header [OF demo_head_ok this, of "[]", unfolded whole n len]
  have "\<exists>h. slice looping_file 0 104 = Inr h"
    using len by (simp add: slice_def)
  then show ?thesis
    using header none unfolding split_by_cpus_def Let_def by (auto simp: wadd_def len)
qed

section \<open>Time conversion\<close>

lemma wadd_wsub:
  assumes "z < 2 ^ 64" "d < 2 ^ 64"
  shows "wsub (wadd z d) z = d"
proof -
  have "wsub (wadd z d) z = ((z + d) mod 2 ^ 64 + (2 ^ 64 - z)) mod 2 ^ 64"
    using assms(1) by (simp only: wsub_def wadd_def mod_less)
  also have "\<dots> = (z + d + (2 ^ 64 - z)) mod 2 ^ 64"
    by (rule mod_add_left_eq)
  also have "z + d + (2 ^ 64 - z) = d + 2 ^ 64"
    using assms(1) by simp
  also have "(d + 2 ^ 64) mod 2 ^ 64 = d"
    unfolding mod_add_self2 using assms(2) by (rule mod_less)
  finally show ?thesis .
qed

lemma wadd_assoc: "wadd (wadd a b) c = wadd a (b + c)"
  by (simp add: wadd_def mod_add_left_eq add.assoc)

text \<open>
  Converting a time stamp to nanoseconds and back never runs ahead, and falls short by less than
  one nanosecond's worth of ticks and one tick, as long as the products fit in 64 bits; the zero
  point of the clock does not matter, even where the sum with it wraps.
\<close>

theorem tsc_roundtrip:
  fixes info :: intel_pt_info
  defines "sh \<equiv> pi_time_shift info" and "mult \<equiv> pi_time_mult info"
  assumes "sh < 64" "0 < mult" "pi_time_zero info < 2 ^ 64" "tsc < 2 ^ 64"
    and "(tsc mod 2 ^ sh) * mult < 2 ^ 64" "tsc * mult < 2 ^ 64 * 2 ^ sh"
  shows "ns_to_tsc info (tsc_to_ns info tsc) \<le> tsc \<and>
    (tsc - ns_to_tsc info (tsc_to_ns info tsc)) * mult < 2 ^ sh + mult"
proof -
  let ?q = "tsc div 2 ^ sh" and ?r = "tsc mod 2 ^ sh"
  let ?d = "tsc * mult div 2 ^ sh"
  have "tsc * mult = (?q * 2 ^ sh + ?r) * mult"
    by (simp only: div_mult_mod_eq)
  also have "\<dots> = ?q * mult * 2 ^ sh + ?r * mult"
    by (simp only: algebra_simps)
  finally have "?d = (?q * mult * 2 ^ sh + ?r * mult) div 2 ^ sh"
    by (rule arg_cong)
  then have split: "?d = ?q * mult + ?r * mult div 2 ^ sh"
    by simp
  have d: "?d < 2 ^ 64"
    using assms(8) by (simp only: less_mult_imp_div_less)
  then have "wmul ?q mult = ?q * mult" "wmul ?r mult = ?r * mult"
    using split assms(7) by (simp_all add: wmul_def)
  then have "tsc_to_ns info tsc = wadd (pi_time_zero info) ?d"
    using assms(3) by (simp add: tsc_to_ns_def Let_def wadd_assoc split sh_def [symmetric] mult_def [symmetric])
  then have delta: "wsub (tsc_to_ns info tsc) (pi_time_zero info) = ?d"
    using wadd_wsub [OF assms(5) d] by simp
  have "?d * 2 ^ sh \<le> tsc * mult"
    by (rule div_times_less_eq_dividend)
  then have "?d * 2 ^ sh div mult \<le> tsc * mult div mult"
    by (rule div_le_mono)
  then have le: "?d * 2 ^ sh div mult \<le> tsc"
    using assms(4) by simp
  have "?d * 2 ^ sh < 2 ^ 64 * 2 ^ sh"
    using d by simp
  also have "(2::nat) ^ 64 * 2 ^ sh \<le> 2 ^ 64 * 2 ^ 64"
    using assms(3) by (intro mult_left_mono power_increasing) simp_all
  finally have "?d * 2 ^ sh < 2 ^ 128"
    by simp
  then have conv: "ns_to_tsc info (tsc_to_ns info tsc) = ?d * 2 ^ sh div mult"
    using assms(3,4,6) delta le by (simp add: ns_to_tsc_def sh_def [symmetric] mult_def [symmetric] Let_def)
  have "tsc * mult < ?d * 2 ^ sh + 2 ^ sh"
    using dividend_less_div_times [of "2 ^ sh" "tsc * mult"] by (simp add: add.commute)
  moreover have "?d * 2 ^ sh < (?d * 2 ^ sh div mult) * mult + mult"
    using dividend_less_div_times [OF assms(4), of "?d * 2 ^ sh"] by (simp only: add.commute)
  ultimately show ?thesis
    using le assms(4) unfolding conv diff_mult_distrib by linarith
qed

lemma tsc_roundtrip_witness:
  "ns_to_tsc (intel_pt_info_default\<lparr>pi_time_shift := 4, pi_time_mult := 7, pi_time_zero := 2 ^ 64 - 1\<rparr>)
     (tsc_to_ns (intel_pt_info_default\<lparr>pi_time_shift := 4, pi_time_mult := 7, pi_time_zero := 2 ^ 64 - 1\<rparr>) 100) \<le> 100"
  using tsc_roundtrip [of "intel_pt_info_default\<lparr>pi_time_shift := 4, pi_time_mult := 7, pi_time_zero := 2 ^ 64 - 1\<rparr>" 100]
  by simp

end
