(* ===== verification/Direct_Bundle.thy ===== *)
theory Direct_Bundle
  imports Perf_Split Pt_Config
begin

unbundle bit_operations_syntax

text \<open>
  The snapshot bundle of \<^verbatim>\<open>src/capture/direct.rs\<close>: the PMU description, the \<^verbatim>\<open>config\<close> word, the records
  the direct recorder synthesizes and the file it writes. Ring memory and \<^verbatim>\<open>/proc\<close> are inputs; the
  state of the recorder itself is in \<open>Direct_Recorder\<close>.
\<close>

section \<open>The PMU\<close>

record pt_pmu =
  pmu_type :: nat
  pmu_bits :: "string \<rightharpoonup> nat \<times> nat"
  pmu_mtc_periods :: nat
  pmu_cycle_thresholds :: nat
  pmu_psb_periods :: nat

text \<open>One file of the \<^verbatim>\<open>format\<close> directory: \<^verbatim>\<open>config:10\<close> or \<^verbatim>\<open>config:14-17\<close>.\<close>

definition parse_format :: "string \<Rightarrow> (nat \<times> nat) option" where
  "parse_format spec =
     (case strip_prefix_str ''config:'' (trim_str spec) of
        None \<Rightarrow> None
      | Some r \<Rightarrow>
          (let num = (\<lambda>s. case parse_u32 s of None \<Rightarrow> 0 | Some v \<Rightarrow> v)
           in case split_once_ch (CHR ''-'') r of
                Some (a, b) \<Rightarrow> Some (num a, num b)
              | None \<Rightarrow> Some (num r, num r)))"

fun strip_0x :: "string \<Rightarrow> string" where
  "strip_0x (a # b # s) = (if a = CHR ''0'' \<and> b = CHR ''x'' then strip_0x s else a # b # s)"
| "strip_0x s = s"

definition parse_caps :: "string option \<Rightarrow> nat" where
  "parse_caps txt =
     (case Option.bind txt (\<lambda>s. parse_uint 16 u64_max (strip_0x (trim_str s))) of None \<Rightarrow> 0 | Some v \<Rightarrow> v)"

text \<open>\<^verbatim>\<open>discover\<close>, from the text of \<^verbatim>\<open>type\<close>, the readable files of \<^verbatim>\<open>format\<close> (or the error of reading the
  directory) and the text of \<^verbatim>\<open>caps\<close>.\<close>

definition pmu_discover ::
    "string option \<Rightarrow> string + (string \<times> string option) list \<Rightarrow> (string \<Rightarrow> string option) \<Rightarrow> error + pt_pmu" where
  "pmu_discover type_txt formats caps =
     (case Option.bind type_txt (\<lambda>s. parse_u32 (trim_str s)) of
        None \<Rightarrow> Inl (error_new PtUnavailable ''intel_pt PMU not in sysfs'')
      | Some ty \<Rightarrow>
          (case formats of
             Inl msg \<Rightarrow> Inl (error_new PtUnavailable (''intel_pt format: '' @ msg))
           | Inr fs \<Rightarrow>
               Inr \<lparr>pmu_type = ty,
                    pmu_bits = fold (\<lambda>(name, spec) m. case Option.bind spec parse_format of
                                      None \<Rightarrow> m | Some w \<Rightarrow> m(name \<mapsto> w)) fs Map.empty,
                    pmu_mtc_periods = parse_caps (caps ''mtc_periods''),
                    pmu_cycle_thresholds = parse_caps (caps ''cycle_thresholds''),
                    pmu_psb_periods = parse_caps (caps ''psb_periods'')\<rparr>))"

definition pmu_bit :: "pt_pmu \<Rightarrow> string \<Rightarrow> nat option" where
  "pmu_bit pmu name = map_option fst (pmu_bits pmu name)"

text \<open>\<^verbatim>\<open>1u64 << b\<close> and \<^verbatim>\<open>v << b\<close> of a release build.\<close>

definition shl64 :: "nat \<Rightarrow> nat \<Rightarrow> nat" where
  "shl64 v b = (v * 2 ^ (b mod 64)) mod 2 ^ 64"

definition pmu_field :: "pt_pmu \<Rightarrow> string \<Rightarrow> nat \<Rightarrow> nat" where
  "pmu_field pmu name v =
     (case pmu_bits pmu name of
        None \<Rightarrow> 0
      | Some (lo, hi) \<Rightarrow>
          (let width = (hi + 2 ^ 32 - lo + 1) mod 2 ^ 32
           in shl64 (if width \<ge> 64 then v else v mod 2 ^ width) lo))"

definition pmu_flag :: "pt_pmu \<Rightarrow> string \<Rightarrow> nat" where
  "pmu_flag pmu name = (case pmu_bit pmu name of None \<Rightarrow> 0 | Some b \<Rightarrow> shl64 1 b)"

definition opt_default :: "'a \<Rightarrow> 'a option \<Rightarrow> 'a" where
  "opt_default d v = (case v of None \<Rightarrow> d | Some x \<Rightarrow> x)"

definition pmu_config :: "pt_pmu \<Rightarrow> pt_terms \<Rightarrow> nat" where
  "pmu_config pmu t =
     (let c = pmu_flag pmu ''pt'';
          c = (if pt_tsc t then c OR pmu_flag pmu ''tsc'' else c);
          c = (if pt_mtc t then c OR pmu_flag pmu ''mtc'' OR pmu_field pmu ''mtc_period'' (opt_default 3 (pt_mtc_period t)) else c);
          c = (if pt_cyc t then c OR pmu_flag pmu ''cyc'' OR pmu_field pmu ''cyc_thresh'' (opt_default 0 (pt_cyc_thresh t)) else c);
          c = (if pt_noretcomp t then c OR pmu_flag pmu ''noretcomp'' else c);
          c = (if pt_branch t then c OR pmu_flag pmu ''branch'' else c)
      in c OR pmu_field pmu ''psb_period'' (pt_psb_period t))"

section \<open>Events and processes\<close>

text \<open>A thread's event: the size of its ring, its names, what was taken from the ring, and the timing
  words of its metadata page (shift, multiplier, zero, capability).\<close>

record pt_event =
  pe_pid :: nat
  pe_tid :: nat
  pe_comm :: string
  pe_aux_len :: nat
  pe_snapshot :: "octets option"
  pe_wrapped :: bool
  pe_timing :: "nat \<times> nat \<times> nat \<times> bool"

record proc_info =
  pr_pid :: nat
  pr_ppid :: nat
  pr_comm :: string
  pr_maps :: "(nat \<times> nat \<times> nat \<times> string) list"
  pr_exec_ns :: "nat option"

section \<open>Records\<close>

definition BUNDLE_SAMPLE_TYPE :: nat where
  "BUNDLE_SAMPLE_TYPE = 65671"

definition ATTR_SIZE :: nat where
  "ATTR_SIZE = 136"

definition trailer_bytes :: "nat \<Rightarrow> nat \<Rightarrow> nat \<Rightarrow> nat \<Rightarrow> octets" where
  "trailer_bytes pid tid time cpu =
     le_bytes 4 pid @ le_bytes 4 tid @ le_bytes 8 time @ le_bytes 4 cpu @ le_bytes 4 0 @ le_bytes 8 0"

definition padded :: "string \<Rightarrow> nat \<Rightarrow> octets" where
  "padded s least =
     (let n = length s + 1; m = max n least
      in bytes_of s @ replicate ((if m mod 8 = 0 then m else m + (8 - m mod 8)) - length s) 0)"

definition info_words :: "pt_pmu \<Rightarrow> pt_event list \<Rightarrow> nat \<times> nat \<Rightarrow> nat list" where
  "info_words pmu events ratio =
     (case (case events of [] \<Rightarrow> (0, 0, 0, False) | e # _ \<Rightarrow> pe_timing e) of
        (shift, mult, zero, cap_zero) \<Rightarrow>
          [pmu_type pmu, shift, mult, zero, of_bool cap_zero, pmu_flag pmu ''tsc'',
           pmu_flag pmu ''noretcomp'', 0, 1, 0, pmu_flag pmu ''mtc'', pmu_mtc_periods pmu,
           fst ratio, snd ratio, pmu_flag pmu ''cyc'', 0, 0])"

definition info_record :: "pt_pmu \<Rightarrow> pt_event list \<Rightarrow> nat \<times> nat \<Rightarrow> octets" where
  "info_record pmu events ratio =
     record_bytes 70 0 (le_bytes 4 1 @ le_bytes 4 0 @ concat (map (le_bytes 8) (info_words pmu events ratio)))"

definition fork_record :: "nat \<Rightarrow> nat \<Rightarrow> nat \<Rightarrow> nat \<Rightarrow> octets \<Rightarrow> octets" where
  "fork_record pid ppid tid ptid trail =
     record_bytes 7 0 ((le_bytes 4 pid @ le_bytes 4 ppid @ le_bytes 4 tid @ le_bytes 4 ptid @ le_bytes 8 0) @ trail)"

definition comm_record :: "nat \<Rightarrow> nat \<Rightarrow> nat \<Rightarrow> string \<Rightarrow> octets \<Rightarrow> octets" where
  "comm_record misc pid tid comm trail =
     record_bytes 3 misc ((le_bytes 4 pid @ le_bytes 4 tid @ padded comm 16) @ trail)"

definition mmap_record :: "nat \<Rightarrow> nat \<times> nat \<times> nat \<times> string \<Rightarrow> octets \<Rightarrow> octets" where
  "mmap_record pid m trail =
     (case m of (start, len, pgoff, path) \<Rightarrow>
        record_bytes 10 2 ((le_bytes 4 pid @ le_bytes 4 pid @ le_bytes 8 start @ le_bytes 8 len
          @ le_bytes 8 pgoff @ replicate 8 0 @ replicate 16 0 @ le_bytes 4 5 @ le_bytes 4 0
          @ padded path 8) @ trail))"

definition itrace_record :: "nat \<Rightarrow> nat \<Rightarrow> octets \<Rightarrow> octets" where
  "itrace_record pid tid trail = record_bytes 12 0 ((le_bytes 4 pid @ le_bytes 4 tid) @ trail)"

definition proc_records :: "nat option \<Rightarrow> proc_info \<Rightarrow> octets list" where
  "proc_records root p =
     (let pid = pr_pid p; t = opt_default 0 (pr_exec_ns p)
      in (if Some pid \<noteq> root
          then fork_record pid (pr_ppid p) pid (pr_ppid p) (trailer_bytes pid pid 0 0)
          else comm_record 0 pid pid ''perf-exec'' (trailer_bytes pid pid 0 0))
         # comm_record (if pr_exec_ns p \<noteq> None then 2 ^ 13 else 0) pid pid (pr_comm p)
             (trailer_bytes pid pid t 0)
         # map (\<lambda>m. mmap_record pid m (trailer_bytes pid pid t 0)) (pr_maps p))"

definition event_records :: "nat \<times> pt_event \<Rightarrow> octets list" where
  "event_records ie =
     (case ie of (i, e) \<Rightarrow>
        (let pid = pe_pid e; tid = pe_tid e; trail = trailer_bytes pid tid 0 (as_u32 i)
         in (if tid \<noteq> pid
             then fork_record pid pid tid pid trail
                  # (if pe_comm e \<noteq> [] then [comm_record 0 pid tid (pe_comm e) trail] else [])
             else [])
            @ [itrace_record pid tid trail]))"

definition blob_record :: "nat \<Rightarrow> pt_event \<Rightarrow> octets \<Rightarrow> octets" where
  "blob_record i e blob =
     record_bytes 71 0 (le_bytes 8 (length blob) @ le_bytes 8 0 @ le_bytes 8 0 @ le_bytes 4 (as_u32 i)
       @ le_bytes 4 (pe_tid e) @ le_bytes 4 (as_u32 i) @ le_bytes 4 0)"

definition event_blob :: "nat \<times> pt_event \<Rightarrow> octets" where
  "event_blob ie =
     (case pe_snapshot (snd ie) of
        None \<Rightarrow> []
      | Some blob \<Rightarrow> if blob = [] then [] else blob_record (fst ie) (snd ie) blob @ blob)"

section \<open>The file\<close>

definition attr_bytes :: "pt_pmu \<Rightarrow> pt_terms \<Rightarrow> octets" where
  "attr_bytes pmu terms =
     le_bytes 4 (pmu_type pmu) @ le_bytes 4 ATTR_SIZE @ le_bytes 8 (pmu_config pmu terms) @ le_bytes 8 0
     @ le_bytes 8 BUNDLE_SAMPLE_TYPE @ le_bytes 8 0 @ le_bytes 8 (2 ^ 5 + 2 ^ 6 + 2 ^ 18) @ replicate 88 0"

definition bundle_data ::
    "pt_pmu \<Rightarrow> pt_event list \<Rightarrow> proc_info list \<Rightarrow> nat option \<Rightarrow> nat \<times> nat \<Rightarrow> octets" where
  "bundle_data pmu events procs root ratio =
     info_record pmu events ratio
     @ concat (concat (map (proc_records root) procs))
     @ concat (concat (map event_records (List.enumerate 0 events)))
     @ concat (map event_blob (List.enumerate 0 events))"

definition write_bundle ::
    "pt_pmu \<Rightarrow> pt_terms \<Rightarrow> pt_event list \<Rightarrow> proc_info list \<Rightarrow> nat option \<Rightarrow> nat \<times> nat \<Rightarrow> octets \<times> nat" where
  "write_bundle pmu terms events procs root ratio =
     (let data = bundle_data pmu events procs root ratio;
          raw_total = sum_list (map (\<lambda>e. case pe_snapshot e of None \<Rightarrow> 0 | Some b \<Rightarrow> length b) events);
          header_len = 104;
          ids_off = header_len + ATTR_SIZE + 16;
          data_off = ids_off + 8
      in (MAGIC @ le_bytes 8 header_len @ le_bytes 8 (ATTR_SIZE + 16) @ le_bytes 8 header_len
          @ le_bytes 8 (ATTR_SIZE + 16) @ le_bytes 8 data_off @ le_bytes 8 (length data)
          @ replicate 16 0 @ replicate 32 0 @ attr_bytes pmu terms @ le_bytes 8 ids_off @ le_bytes 8 8
          @ le_bytes 8 0 @ data, raw_total))"

end
