(* ===== verification/Direct_Recorder.thy ===== *)
theory Direct_Recorder
  imports Direct_Bundle
begin

text \<open>
  The direct recorder of \<^verbatim>\<open>src/capture/direct.rs\<close>: one AUX ring per thread, within a budget for all of
  them. What the kernel does (opening an event, the memory of a ring, the files under \<^verbatim>\<open>/proc\<close>, the clock)
  is the record \<open>world\<close> each operation is given; the launch shim's report lines and the polling of an
  attached process drive the recorder.
\<close>

section \<open>The kernel's side\<close>

record world =
  w_page :: nat
  w_perf_open :: "nat \<Rightarrow> (bool \<times> string) option"
  w_set_filter :: "string \<Rightarrow> string option"
  w_mmap_base :: "string option"
  w_mmap_aux :: "nat \<Rightarrow> string option"
  w_task_comm :: "nat \<Rightarrow> nat \<Rightarrow> string option"
  w_timing :: "nat \<Rightarrow> nat \<times> nat \<times> nat \<times> bool"
  w_status :: "nat \<Rightarrow> string option"
  w_comm :: "nat \<Rightarrow> string option"
  w_maps :: "nat \<Rightarrow> string option"
  w_tasks :: "nat \<Rightarrow> string list option"
  w_tsc :: nat
  w_ring :: "nat \<Rightarrow> octets \<times> nat"

text \<open>\<^verbatim>\<open>str::lines\<close>: a final line feed starts no line; a carriage return before one is dropped.\<close>

definition drop_cr :: "string \<Rightarrow> string" where
  "drop_cr l = (if l \<noteq> [] \<and> last l = CHR 0x0D then butlast l else l)"

definition lines_of :: "string \<Rightarrow> string list" where
  "lines_of s =
     (let ls = split_ch (CHR 0x0A) s
      in map drop_cr (butlast ls) @ (if last ls = [] then [] else [last ls]))"

definition status_field :: "string \<Rightarrow> string \<Rightarrow> nat option" where
  "status_field key st =
     (case List.map_filter (strip_prefix_str key) (lines_of st) of
        [] \<Rightarrow> None
      | v # _ \<Rightarrow> parse_u32 (trim_str v))"

definition tgid_of :: "world \<Rightarrow> nat \<Rightarrow> nat" where
  "tgid_of w tid = opt_default tid (Option.bind (w_status w tid) (status_field ''Tgid:''))"

text \<open>\<^verbatim>\<open>now_ns\<close>: the time stamp counter, converted as the reader of the bundle will convert it.\<close>

definition now_ns :: "world \<Rightarrow> pt_event \<Rightarrow> nat" where
  "now_ns w e =
     (case pe_timing e of (shift, mult, zero, _) \<Rightarrow>
        tsc_to_ns (intel_pt_info_default\<lparr>pi_time_shift := shift, pi_time_mult := mult, pi_time_zero := zero\<rparr>) (w_tsc w))"

section \<open>Opening an event\<close>

text \<open>The quoted form \<^verbatim>\<open>{:?}\<close> of a string, for ASCII text.\<close>

definition debug_char :: "char \<Rightarrow> string" where
  "debug_char c =
     (if c = CHR 0x22 \<or> c = CHR 0x5C then [CHR 0x5C, c]
      else if c = CHR 0x09 then [CHR 0x5C, CHR ''t'']
      else if c = CHR 0x0A then [CHR 0x5C, CHR ''n'']
      else if c = CHR 0x0D then [CHR 0x5C, CHR ''r'']
      else if c = CHR 0x00 then [CHR 0x5C, CHR ''0'']
      else if (of_char c :: nat) < 32 \<or> (of_char c :: nat) = 127
      then CHR 0x5C # ''u{'' @ show_hex (of_char c) @ ''}'' else [c])"

definition debug_str :: "string \<Rightarrow> string" where
  "debug_str s = [CHR 0x22] @ concat (map debug_char s) @ [CHR 0x22]"

definition replace_str :: "string \<Rightarrow> string \<Rightarrow> string \<Rightarrow> string" where
  "replace_str p r s = join_str r (split_str p s)"

definition kernel_clause :: "string \<Rightarrow> string" where
  "kernel_clause c = replace_str ''@ '' ''@'' (replace_str '' @'' ''@'' (replace_str '' @ '' ''@'' (trim_str c)))"

definition kernel_filter :: "string \<Rightarrow> string" where
  "kernel_filter f = join_str '','' (map kernel_clause (split_ch (CHR '','') f))"

definition open_event :: "world \<Rightarrow> nat \<Rightarrow> nat \<Rightarrow> nat \<Rightarrow> string option \<Rightarrow> error + pt_event" where
  "open_event w pid tid aux_bytes flt =
     (let aux_len = next_power_of_two (max aux_bytes (w_page w * 2))
      in try_bind (case w_perf_open w tid of
                     None \<Rightarrow> Inr ()
                   | Some (denied, err) \<Rightarrow>
                       Inl (with_next ''check /proc/sys/kernel/perf_event_paranoid and RLIMIT_MEMLOCK''
                              (error_new (if denied then PermissionDenied else PtUnavailable)
                                 (''perf_event_open(intel_pt, tid '' @ show_dec tid @ ''): '' @ err)))) (\<lambda>_.
         try_bind (case flt of
                     None \<Rightarrow> Inr ()
                   | Some f \<Rightarrow>
                       if CHR 0x00 \<in> set (kernel_filter f)
                       then Inl (invalid_argument ''address filter contains NUL'')
                       else (case w_set_filter w (kernel_filter f) of
                               None \<Rightarrow> Inr ()
                             | Some err \<Rightarrow> Inl (error_new UnsupportedPtConfig
                                 (''address filter '' @ debug_str f @ '' rejected: '' @ err)))) (\<lambda>_.
         try_bind (case w_mmap_base w of
                     None \<Rightarrow> Inr ()
                   | Some err \<Rightarrow> Inl (error_new PtUnavailable (''mmap perf ring: '' @ err))) (\<lambda>_.
         try_bind (case w_mmap_aux w aux_len of
                     None \<Rightarrow> Inr ()
                   | Some err \<Rightarrow>
                       Inl (with_next ''lower aux_bytes_per_buffer or raise RLIMIT_MEMLOCK''
                              (error_new PtUnavailable
                                 (''mmap AUX ring ('' @ show_dec aux_len @ '' bytes): '' @ err)))) (\<lambda>_.
           Inr \<lparr>pe_pid = pid, pe_tid = tid, pe_comm = (case w_task_comm w pid tid of None \<Rightarrow> [] | Some c \<Rightarrow> trim_str c),
                pe_aux_len = aux_len, pe_snapshot = None, pe_wrapped = False, pe_timing = w_timing w tid\<rparr>)))))"

text \<open>The ring in stream order: with the tail first when the writer has been around.\<close>

definition take_snapshot :: "octets \<times> nat \<Rightarrow> pt_event \<Rightarrow> pt_event" where
  "take_snapshot rh e =
     (if pe_snapshot e \<noteq> None then e
      else (case rh of (ring, head) \<Rightarrow>
        (let len = pe_aux_len e; pos = head mod len;
             wrapped = (head \<ge> len \<or> (\<exists>b\<in>set (drop (len - 64) ring). b \<noteq> 0))
         in e\<lparr>pe_snapshot := Some ((if wrapped then drop pos ring else []) @ take pos ring),
              pe_wrapped := wrapped\<rparr>)))"

section \<open>Reading a process\<close>

definition parse_map_line :: "string \<Rightarrow> (nat \<times> nat \<times> nat \<times> string) option" where
  "parse_map_line line =
     (case split_whitespace line of
        r # perms # off # _ # _ # rest \<Rightarrow>
          (let path = (case rest of [] \<Rightarrow> [] | p # _ \<Rightarrow> p)
           in if CHR ''x'' \<notin> set perms then None
              else if path = [] \<or> (\<not> prefix ''/'' path \<and> path \<noteq> ''[vdso]'') then None
              else (case split_once_ch (CHR ''-'') r of
                      None \<Rightarrow> None
                    | Some (a, b) \<Rightarrow>
                        (case (parse_uint 16 u64_max a, parse_uint 16 u64_max b, parse_uint 16 u64_max off) of
                           (Some start, Some stop, Some pgoff) \<Rightarrow> Some (start, wsub stop start, pgoff, path)
                         | _ \<Rightarrow> None)))
      | toks \<Rightarrow> None)"

definition proc_read :: "world \<Rightarrow> nat \<Rightarrow> proc_info option" where
  "proc_read w pid =
     (case w_comm w pid of
        None \<Rightarrow> None
      | Some comm \<Rightarrow>
          (case w_maps w pid of
             None \<Rightarrow> None
           | Some maps \<Rightarrow>
               Some \<lparr>pr_pid = pid,
                     pr_ppid = opt_default 0 (Option.bind (w_status w pid) (status_field ''PPid:'')),
                     pr_comm = trim_str comm, pr_maps = List.map_filter parse_map_line (lines_of maps),
                     pr_exec_ns = None\<rparr>))"

section \<open>The recorder\<close>

record direct_recorder =
  dr_attach :: "nat option"
  dr_aux_bytes :: nat
  dr_aux_budget :: nat
  dr_aux_used :: nat
  dr_filter :: "string option"
  dr_root :: "nat option"
  dr_events :: "pt_event list"
  dr_procs :: "(nat \<times> proc_info) list"
  dr_notes :: "string list"

datatype report_action = Opened nat | LeaderExit nat | NoAction

definition recorder_new :: "nat option \<Rightarrow> nat \<Rightarrow> nat \<Rightarrow> direct_recorder" where
  "recorder_new target aux_bytes aux_budget =
     \<lparr>dr_attach = target, dr_aux_bytes = aux_bytes, dr_aux_budget = aux_budget, dr_aux_used = 0,
      dr_filter = None, dr_root = target, dr_events = [], dr_procs = [], dr_notes = []\<rparr>"

definition put_proc :: "proc_info \<Rightarrow> direct_recorder \<Rightarrow> direct_recorder" where
  "put_proc p d = d\<lparr>dr_procs := AList.update (pr_pid p) p (dr_procs d)\<rparr>"

definition add_note :: "string \<Rightarrow> direct_recorder \<Rightarrow> direct_recorder" where
  "add_note n d = d\<lparr>dr_notes := dr_notes d @ [n]\<rparr>"

definition traced :: "direct_recorder \<Rightarrow> nat \<Rightarrow> bool" where
  "traced d tid \<longleftrightarrow> (\<exists>e\<in>set (dr_events d). pe_tid e = tid)"

text \<open>The size of the next ring: what is left of the budget, rounded down to a power of two.\<close>

definition ring_size :: "direct_recorder \<Rightarrow> nat" where
  "ring_size d =
     (let n = min (dr_aux_bytes d) (dr_aux_budget d - dr_aux_used d)
      in if n \<ge> 65536 then highest_bit n else 0)"

definition add_event :: "pt_event \<Rightarrow> direct_recorder \<Rightarrow> direct_recorder" where
  "add_event e d = d\<lparr>dr_aux_used := dr_aux_used d + pe_aux_len e, dr_events := dr_events d @ [e]\<rparr>"

definition poll_task :: "world \<Rightarrow> nat \<Rightarrow> bool \<Rightarrow> string \<Rightarrow> direct_recorder \<Rightarrow> direct_recorder" where
  "poll_task w pid late name d =
     (case parse_u32 name of
        None \<Rightarrow> d
      | Some tid \<Rightarrow>
          if traced d tid then d
          else if ring_size d = 0
          then add_note (''thread '' @ show_dec tid @ '' not traced: AUX budget exhausted'') d
          else (case open_event w pid tid (ring_size d) (dr_filter d) of
                  Inl err \<Rightarrow> add_note (''thread '' @ show_dec tid @ '' could not be traced: '' @ error_display err) d
                | Inr ev \<Rightarrow>
                    (let d1 = add_event ev d
                     in if late
                        then add_note (''thread '' @ show_dec tid
                               @ '' appeared after attach: traced from its discovery, not its start'') d1
                        else d1)))"

definition poll_threads :: "world \<Rightarrow> direct_recorder \<Rightarrow> direct_recorder" where
  "poll_threads w d =
     (case dr_attach d of
        None \<Rightarrow> d
      | Some pid \<Rightarrow>
          (case w_tasks w pid of
             None \<Rightarrow> d
           | Some names \<Rightarrow> fold (poll_task w pid (dr_events d \<noteq> [])) names d))"

definition recorder_attach :: "world \<Rightarrow> nat \<Rightarrow> nat \<Rightarrow> nat \<Rightarrow> error + direct_recorder" where
  "recorder_attach w pid aux_bytes aux_budget =
     (let d = poll_threads w (recorder_new (Some pid) aux_bytes aux_budget)
      in if dr_events d = []
         then Inl (not_found (''pid '' @ show_dec pid @ '': no threads to trace (is it alive?)''))
         else Inr (case proc_read w pid of None \<Rightarrow> d | Some p \<Rightarrow> put_proc p d))"

definition report_exec :: "world \<Rightarrow> nat \<Rightarrow> direct_recorder \<Rightarrow> report_action \<times> direct_recorder" where
  "report_exec w tid d =
     (let pid = tgid_of w tid; t = map_option (now_ns w) (find (\<lambda>e. pe_tid e = tid) (dr_events d))
      in (Opened pid,
          case proc_read w pid of None \<Rightarrow> d | Some p \<Rightarrow> put_proc (p\<lparr>pr_exec_ns := t\<rparr>) d))"

definition opened_proc :: "world \<Rightarrow> nat \<Rightarrow> nat option \<Rightarrow> direct_recorder \<Rightarrow> direct_recorder" where
  "opened_proc w pid exec_ns d =
     (case proc_read w pid of
        Some p \<Rightarrow> put_proc (p\<lparr>pr_exec_ns := exec_ns\<rparr>) d
      | None \<Rightarrow>
          (case map_of (dr_procs d) pid of
             Some p \<Rightarrow> d\<lparr>dr_procs := AList.update pid (p\<lparr>pr_exec_ns := opt_or exec_ns (pr_exec_ns p)\<rparr>) (dr_procs d)\<rparr>
           | None \<Rightarrow> d))"

definition report_thread :: "world \<Rightarrow> bool \<Rightarrow> nat \<Rightarrow> direct_recorder \<Rightarrow> report_action \<times> direct_recorder" where
  "report_thread w exec tid d0 =
     (let pid = tgid_of w tid;
          d = (if exec \<and> dr_root d0 = None then d0\<lparr>dr_root := Some pid\<rparr> else d0)
      in if traced d tid then (NoAction, d)
         else if ring_size d = 0
         then (NoAction, add_note (''thread '' @ show_dec tid @ '' not traced: AUX budget ''
                           @ show_dec (dr_aux_budget d) @ '' exhausted'') d)
         else (case open_event w pid tid (ring_size d) (dr_filter d) of
                 Inl e \<Rightarrow> (NoAction, add_note (''thread '' @ show_dec tid @ '' could not be traced: '' @ error_display e) d)
               | Inr ev \<Rightarrow>
                   (Opened pid, opened_proc w pid (if exec then Some (now_ns w ev) else None) (add_event ev d))))"

definition snapshot_tid :: "world \<Rightarrow> nat \<Rightarrow> direct_recorder \<Rightarrow> direct_recorder" where
  "snapshot_tid w tid d =
     (case position (\<lambda>e. pe_tid e = tid) (dr_events d) of
        None \<Rightarrow> d
      | Some i \<Rightarrow> d\<lparr>dr_events := (dr_events d)[i := take_snapshot (w_ring w tid) (dr_events d ! i)]\<rparr>)"

definition refresh_proc :: "world \<Rightarrow> nat \<Rightarrow> direct_recorder \<Rightarrow> direct_recorder" where
  "refresh_proc w pid d =
     (case proc_read w pid of
        None \<Rightarrow> d
      | Some p \<Rightarrow> put_proc (p\<lparr>pr_exec_ns := Option.bind (map_of (dr_procs d) pid) pr_exec_ns\<rparr>) d)"

definition report_exit :: "world \<Rightarrow> nat \<Rightarrow> direct_recorder \<Rightarrow> report_action \<times> direct_recorder" where
  "report_exit w tid d0 =
     (let d = snapshot_tid w tid d0
      in if tgid_of w tid = tid then (LeaderExit tid, refresh_proc w tid d) else (NoAction, d))"

definition handle_report :: "world \<Rightarrow> string \<Rightarrow> direct_recorder \<Rightarrow> report_action \<times> direct_recorder" where
  "handle_report w line d =
     (case split_whitespace line of
        [] \<Rightarrow> (NoAction, d)
      | kind # args \<Rightarrow>
          (case (case args of [] \<Rightarrow> None | a # _ \<Rightarrow> parse_u32 a) of
             Some tid \<Rightarrow>
               if kind = ''exec'' \<and> traced d tid then report_exec w tid d
               else if kind = ''exec'' \<or> kind = ''thread'' then report_thread w (kind = ''exec'') tid d
               else if kind = ''exit'' then report_exit w tid d
               else if kind = ''error'' then (NoAction, add_note (''launch shim: '' @ line) d)
               else (NoAction, d)
           | None \<Rightarrow>
               if kind = ''error'' then (NoAction, add_note (''launch shim: '' @ line) d) else (NoAction, d)))"

definition recorder_finish :: "world \<Rightarrow> direct_recorder \<Rightarrow> nat list \<times> direct_recorder" where
  "recorder_finish w d0 =
     (let d = d0\<lparr>dr_events := map (\<lambda>e. take_snapshot (w_ring w (pe_tid e)) e) (dr_events d0)\<rparr>;
          pids = remdups_adj (sort (map pe_pid (dr_events d)))
      in fold (\<lambda>pid (live, d).
            if proc_read w pid = None then (live, d) else (live @ [pid], refresh_proc w pid d)) pids ([], d))"

definition recorder_write ::
    "pt_pmu \<Rightarrow> pt_terms \<Rightarrow> nat \<times> nat \<Rightarrow> direct_recorder \<Rightarrow> error + octets \<times> nat" where
  "recorder_write pmu terms ratio d =
     (if dr_events d = []
      then Inl (with_next ''TRACE_MCP_RECORDER=perf falls back to perf record''
             (error_new PtUnavailable
               (''direct recorder traced no thread: '' @
                (if dr_notes d = [] then ''no thread was reported by the launch shim''
                 else join_str ''; '' (dr_notes d)))))
      else Inr (write_bundle pmu terms (dr_events d) (sort_key pr_pid (map snd (dr_procs d))) (dr_root d) ratio))"

definition wrapped_rings :: "direct_recorder \<Rightarrow> nat" where
  "wrapped_rings d = length (filter pe_wrapped (dr_events d))"

end
