(* ===== verification/Bundle_Roundtrip.thy ===== *)
theory Bundle_Roundtrip
  imports Direct_Bundle
begin

text \<open>
  The reader of \<^verbatim>\<open>perfdata.rs\<close> and the writer of \<^verbatim>\<open>direct.rs\<close> agree: what the recorder writes is read
  back as the processes, threads and trace bytes it had.
\<close>

section \<open>The reading loop over chunks\<close>

text \<open>A chunk the reader understands, wherever it stands, as the effect \<open>f\<close> on the data read so far.\<close>

definition reads :: "nat \<Rightarrow> chunk \<Rightarrow> (nat \<Rightarrow> perf_data \<Rightarrow> perf_data) \<Rightarrow> bool" where
  "reads st c f \<longleftrightarrow> chunk_ok c \<and>
     (\<forall>pre post out. length pre + length (chunk_bytes c) < 2 ^ 63 \<longrightarrow>
        read_record (pre @ record_bytes (ck_type c) (ck_misc c) (ck_body c) @ post) st (length pre)
          (ck_type c) (ck_misc c) (8 + length (ck_body c))
          (record_bytes (ck_type c) (ck_misc c) (ck_body c)) out =
        Inr (length (ck_aux c), f (length pre) out))"

fun run_effects :: "nat \<Rightarrow> (chunk \<times> (nat \<Rightarrow> perf_data \<Rightarrow> perf_data)) list \<Rightarrow> perf_data \<Rightarrow> perf_data" where
  "run_effects pos [] out = out"
| "run_effects pos ((c, f) # cs) out = run_effects (pos + length (chunk_bytes c)) cs (f pos out)"

lemma read_loop_chunks:
  assumes "\<forall>(c, f)\<in>set cs. reads st c f" "length pre + length (data_bytes (map fst cs)) + 8 < 2 ^ 63"
  shows "read_loop (pre @ data_bytes (map fst cs) @ post) st (length pre + length (data_bytes (map fst cs)))
      (length pre) out = Some (Inr (run_effects (length pre) cs out))"
  using assms
proof (induction cs arbitrary: pre out)
  case Nil
  then show ?case
    by (subst read_loop.simps) (simp add: data_bytes_def wadd_small)
next
  case (Cons cf cs)
  obtain c f where cf: "cf = (c, f)"
    by (cases cf)
  let ?d = "data_bytes (map fst cs)"
  let ?r = "record_bytes (ck_type c) (ck_misc c) (ck_body c)"
  define buf where "buf = pre @ data_bytes (map fst (cf # cs)) @ post"
  define stop where "stop = length pre + length (data_bytes (map fst (cf # cs)))"
  have whole: "buf = pre @ ?r @ (ck_aux c @ ?d @ post)"
    by (simp add: buf_def cf data_bytes_Cons chunk_bytes_def)
  have reads: "reads st c f" and ok: "chunk_ok c"
    using Cons.prems(1) cf by (auto simp: reads_def)
  have n: "length (chunk_bytes c) = 8 + length (ck_body c) + length (ck_aux c)"
    by (simp add: chunk_bytes_def)
  have stop: "stop = length pre + length (chunk_bytes c) + length ?d" "stop + 8 < 2 ^ 63"
    using Cons.prems(2) by (simp_all add: stop_def cf data_bytes_Cons)
  have header: "record_header buf (length pre) = Inr (ck_type c, ck_misc c, 8 + length (ck_body c))"
    unfolding whole using ok by (intro record_header_at) (auto simp: chunk_ok_def)
  have piece: "slice buf (length pre) (length pre + (8 + length (ck_body c))) = Inr ?r"
    unfolding whole by (rule slice_middle) simp_all
  have effect: "read_record buf st (length pre) (ck_type c) (ck_misc c) (8 + length (ck_body c)) ?r out =
      Inr (length (ck_aux c), f (length pre) out)"
    using reads stop unfolding reads_def whole by simp
  have IH: "read_loop buf st stop (length pre + length (chunk_bytes c)) out' =
      Some (Inr (run_effects (length pre + length (chunk_bytes c)) cs out'))" for out'
    using Cons.IH [of "pre @ chunk_bytes c" out'] Cons.prems
    by (simp add: cf data_bytes_Cons buf_def stop_def add.assoc)
  have fits: "wadd (length pre) 8 \<le> stop" "\<not> stop < wadd (length pre) (8 + length (ck_body c))"
    "wadd (length pre) (8 + length (ck_body c)) = length pre + (8 + length (ck_body c))"
    "wadd (wadd (length pre) (length (ck_aux c))) (8 + length (ck_body c)) = length pre + length (chunk_bytes c)"
    using stop n by (simp_all add: wadd_small)
  have "read_loop buf st stop (length pre) out = Some (Inr (run_effects (length pre) (cf # cs) out))"
    using fits piece effect IH by (subst read_loop.simps) (simp add: header cf)
  then show ?case
    by (simp add: buf_def stop_def)
qed

section \<open>The trailer\<close>

lemma bundle_bits:
  "has_bit BUNDLE_SAMPLE_TYPE SAMPLE_TID" "has_bit BUNDLE_SAMPLE_TYPE SAMPLE_TIME"
  "\<not> has_bit BUNDLE_SAMPLE_TYPE SAMPLE_ID" "\<not> has_bit BUNDLE_SAMPLE_TYPE SAMPLE_STREAM_ID"
  "has_bit BUNDLE_SAMPLE_TYPE SAMPLE_CPU" "has_bit BUNDLE_SAMPLE_TYPE SAMPLE_IDENTIFIER"
  by (simp_all add: has_bit_def BUNDLE_SAMPLE_TYPE_def SAMPLE_TID_def SAMPLE_TIME_def SAMPLE_ID_def
      SAMPLE_STREAM_ID_def SAMPLE_CPU_def SAMPLE_IDENTIFIER_def)

lemma trailer_len_bundle [simp]: "trailer_len BUNDLE_SAMPLE_TYPE = 32"
  using bundle_bits by (simp add: trailer_len_def)

lemma trailer_of_any:
  assumes "32 \<le> length rec"
  shows "\<exists>t. parse_trailer rec BUNDLE_SAMPLE_TYPE = Inr t"
  using assms bundle_bits by (simp add: parse_trailer_def Let_def rd_eq)

lemma length_trailer_bytes [simp]: "length (trailer_bytes pid tid time cpu) = 32"
  by (simp add: trailer_bytes_def)

lemma trailer_written:
  assumes "pid < 2 ^ 32" "tid < 2 ^ 32" "time < 2 ^ 64" "cpu < 2 ^ 32"
  shows "parse_trailer (xs @ trailer_bytes pid tid time cpu) BUNDLE_SAMPLE_TYPE =
    Inr \<lparr>rt_pid = pid, rt_tid = tid, rt_time = time, rt_cpu = cpu\<rparr>"
proof -
  have "rd n (xs @ trailer_bytes pid tid time cpu) (length xs + k) = rd n (trailer_bytes pid tid time cpu) k" for n k
    by (subst rd_skip) simp_all
  from this [of 4 0] this [of 4 4] this [of 8 8] this [of 4 16] show ?thesis
    using assms bundle_bits
    by (simp add: parse_trailer_def Let_def) (simp add: trailer_bytes_def rd_here rd_skip)
qed

lemma record_trailer_written:
  assumes "pid < 2 ^ 32" "tid < 2 ^ 32" "time < 2 ^ 64" "cpu < 2 ^ 32"
  shows "parse_trailer (record_bytes ty misc (body @ trailer_bytes pid tid time cpu)) BUNDLE_SAMPLE_TYPE =
    Inr \<lparr>rt_pid = pid, rt_tid = tid, rt_time = time, rt_cpu = cpu\<rparr>"
  using trailer_written [OF assms, of "le_bytes 4 ty @ le_bytes 2 misc @
      le_bytes 2 (8 + length (body @ trailer_bytes pid tid time cpu)) @ body"]
  by (simp add: record_bytes_def)

text \<open>A field of the body, at an offset from the start of the record.\<close>

lemma rd_field:
  assumes "8 \<le> k" "k - 8 + n \<le> length body"
  shows "rd n (pre @ record_bytes ty misc body @ post) (length pre + k) =
    Inr (le_val (take n (drop (k - 8) body)))"
  using rd_body [OF assms(2), of pre ty misc post] assms(1) by simp

lemma le_val_small4 [simp]: "v < 2 ^ 32 \<Longrightarrow> le_val (le_bytes 4 v) = v"
  by (simp add: le_val_le_bytes)

lemma le_val_small8 [simp]: "v < 2 ^ 64 \<Longrightarrow> le_val (le_bytes 8 v) = v"
  by (simp add: le_val_le_bytes)

section \<open>Each kind of record\<close>

definition plain_chunk :: "nat \<Rightarrow> nat \<Rightarrow> octets \<Rightarrow> chunk" where
  "plain_chunk ty misc body = \<lparr>ck_type = ty, ck_misc = misc, ck_body = body, ck_aux = []\<rparr>"

lemma plain_chunk_bytes: "chunk_bytes (plain_chunk ty misc body) = record_bytes ty misc body"
  by (simp add: chunk_bytes_def plain_chunk_def)

lemma plain_chunk_ok:
  "ty < 2 ^ 32 \<Longrightarrow> ty \<noteq> 71 \<Longrightarrow> misc < 2 ^ 16 \<Longrightarrow> 8 + length body < 2 ^ 16 \<Longrightarrow> chunk_ok (plain_chunk ty misc body)"
  by (simp add: chunk_ok_def plain_chunk_def PERF_RECORD_AUXTRACE_def)

lemma reads_plain:
  assumes "ty < 2 ^ 32" "ty \<noteq> 71" "misc < 2 ^ 16" "8 + length body < 2 ^ 16"
    and "\<And>pre post out. length pre + 8 + length body < 2 ^ 63 \<Longrightarrow>
      read_record (pre @ record_bytes ty misc body @ post) st (length pre) ty misc (8 + length body)
        (record_bytes ty misc body) out = Inr (0, f (length pre) out)"
  shows "reads st (plain_chunk ty misc body) f"
  unfolding reads_def using plain_chunk_ok [OF assms(1-4)] assms(5)
  by (simp add: plain_chunk_bytes) (simp add: plain_chunk_def)

lemma reads_fork:
  assumes "pid < 2 ^ 32" "ppid < 2 ^ 32" "tid < 2 ^ 32" "ptid < 2 ^ 32" "cpu < 2 ^ 32"
  shows "reads BUNDLE_SAMPLE_TYPE
    (plain_chunk 7 0 ((le_bytes 4 pid @ le_bytes 4 ppid @ le_bytes 4 tid @ le_bytes 4 ptid @ le_bytes 8 0)
       @ trailer_bytes pid tid 0 cpu)) (\<lambda>_. push_side (SbFork pid ppid tid ptid 0))"
  using assms record_trailer_written [OF assms(1,3) _ assms(5), of 0 7 0]
  by (intro reads_plain)
    (simp_all add: read_record_def read_task_def rd_field Let_def del: append_assoc)

lemma padded_eq: "\<exists>k. padded s n = bytes_of s @ replicate (Suc k) 0"
proof -
  let ?m = "max (length s + 1) n"
  have "0 < (if ?m mod 8 = 0 then ?m else ?m + (8 - ?m mod 8)) - length s"
    by (auto simp: max_def)
  then obtain k where "(if ?m mod 8 = 0 then ?m else ?m + (8 - ?m mod 8)) - length s = Suc k"
    using gr0_implies_Suc by blast
  then have "padded s n = bytes_of s @ replicate (Suc k) 0"
    unfolding padded_def Let_def by (simp only:)
  then show ?thesis
    by blast
qed

lemma padded_length: "length (padded s n) \<le> max (length s + 1) n + 7"
  by (auto simp: padded_def Let_def)

lemma padded_length_min: "n \<le> length (padded s n)"
  by (auto simp: padded_def Let_def)

lemma padded_text:
  assumes "CHR 0x00 \<notin> set s"
  shows "trim_nul (text_of (padded s n)) = s"
proof -
  obtain k where "padded s n = bytes_of s @ replicate (Suc k) 0"
    using padded_eq by blast
  moreover have "text_of (replicate m 0) = replicate m (CHR 0x00)" for m
    by (simp add: text_of_def char_of_def)
  ultimately show ?thesis
    using trim_nul_padded [OF assms, of "Suc k"] by (simp del: replicate.simps)
qed

lemma slice_at:
  assumes "xs = a @ b @ c" "i = length a" "j = length a + length b"
  shows "slice xs i j = Inr b"
  using assms by simp

lemma reads_comm:
  assumes "pid < 2 ^ 32" "tid < 2 ^ 32" "time < 2 ^ 64" "cpu < 2 ^ 32" "misc < 2 ^ 16"
    and "CHR 0x00 \<notin> set comm" "length comm < 65000"
  shows "reads BUNDLE_SAMPLE_TYPE
    (plain_chunk 3 misc ((le_bytes 4 pid @ le_bytes 4 tid @ padded comm 16) @ trailer_bytes pid tid time cpu))
    (\<lambda>_. push_side (SbComm pid tid time comm (has_bit misc MISC_COMM_EXEC)))"
    (is "reads _ (plain_chunk 3 misc (?head @ ?trail)) _")
proof (rule reads_plain)
  show "8 + length (?head @ ?trail) < 2 ^ 16"
    using padded_length [of comm 16] assms(7) by simp
next
  fix pre post :: octets and out
  let ?rec = "record_bytes 3 misc (?head @ ?trail)"
  have raw: "slice (drop 8 ?rec) 8 (length (drop 8 ?rec) - trailer_len BUNDLE_SAMPLE_TYPE) = Inr (padded comm 16)"
    by (rule slice_at [of _ "le_bytes 4 pid @ le_bytes 4 tid" _ ?trail]) (simp_all add: record_bytes_def)
  show "read_record (pre @ ?rec @ post) BUNDLE_SAMPLE_TYPE (length pre) 3 misc (8 + length (?head @ ?trail)) ?rec out =
      Inr (0, push_side (SbComm pid tid time comm (has_bit misc MISC_COMM_EXEC)) out)"
    using assms record_trailer_written [OF assms(1-4), of 3 misc ?head] raw
    by (simp add: read_record_def read_comm_def rd_field padded_text Let_def del: append_assoc)
qed (use assms(5) in simp_all)

lemma reads_mmap:
  assumes "pid < 2 ^ 32" "time < 2 ^ 64" "start < 2 ^ 64" "len < 2 ^ 64" "pgoff < 2 ^ 64"
    and "CHR 0x00 \<notin> set path" "length path < 65000"
  shows "reads BUNDLE_SAMPLE_TYPE
    (plain_chunk 10 2 ((le_bytes 4 pid @ le_bytes 4 pid @ le_bytes 8 start @ le_bytes 8 len
          @ le_bytes 8 pgoff @ replicate 8 0 @ replicate 16 0 @ le_bytes 4 5 @ le_bytes 4 0
          @ padded path 8) @ trailer_bytes pid pid time 0))
    (\<lambda>_. push_side (SbMmap pid pid time start len pgoff True path))"
    (is "reads _ (plain_chunk 10 2 (?head @ ?trail)) _")
proof (rule reads_plain)
  show "8 + length (?head @ ?trail) < 2 ^ 16"
    using padded_length [of path 8] assms(7) by simp
next
  fix pre post :: octets and out
  let ?rec = "record_bytes 10 2 (?head @ ?trail)"
  assume small: "length pre + 8 + length (?head @ ?trail) < 2 ^ 63"
  have "pre @ ?rec @ post = (pre @ take 72 ?rec) @ padded path 8 @ (?trail @ post)"
    by (simp add: record_bytes_def)
  then have raw: "slice (pre @ ?rec @ post) (length pre + 72) (length pre + 72 + length (padded path 8)) = Inr (padded path 8)"
    by (rule slice_at) (simp_all add: record_bytes_def)
  have stop: "wsub (wadd (length pre) (8 + length (?head @ ?trail))) (trailer_len BUNDLE_SAMPLE_TYPE) =
      length pre + 72 + length (padded path 8)"
    using small by (simp add: wadd_small wsub_small)
  have "length pre + 72 < length pre + 72 + length (padded path 8)"
    using padded_length_min [of 8 path] by (cases "padded path 8") simp_all
  moreover have "has_bit 5 2"
    by (simp add: has_bit_def)
  ultimately show "read_record (pre @ ?rec @ post) BUNDLE_SAMPLE_TYPE (length pre) 10 2 (8 + length (?head @ ?trail)) ?rec out =
      Inr (0, push_side (SbMmap pid pid time start len pgoff True path) out)"
    using assms record_trailer_written [OF assms(1,1,2), of 0 10 2 ?head] raw stop
    by (simp add: read_record_def read_mmap_def rd_field padded_text Let_def del: append_assoc)
qed simp_all

lemma reads_itrace:
  assumes "pid < 2 ^ 32" "tid < 2 ^ 32" "cpu < 2 ^ 32"
  shows "reads BUNDLE_SAMPLE_TYPE
    (plain_chunk 12 0 ((le_bytes 4 pid @ le_bytes 4 tid) @ trailer_bytes pid tid 0 cpu))
    (\<lambda>_. push_side (SbItraceStart pid tid cpu 0))"
  using assms record_trailer_written [OF assms(1,2) _ assms(3), of 0 12 0]
  by (intro reads_plain)
    (simp_all add: read_record_def rd_field Let_def del: append_assoc)

lemma take_word:
  "i < length ws \<Longrightarrow> take 8 (drop (8 * i) (concat (map (le_bytes 8) ws))) = le_bytes 8 (ws ! i)"
proof (induction ws arbitrary: i)
  case (Cons w ws)
  then show ?case
    by (cases i) simp_all
qed simp

lemma reads_info:
  assumes "length ws = 17" "\<forall>w\<in>set ws. w < 2 ^ 64"
  shows "reads BUNDLE_SAMPLE_TYPE
    (plain_chunk 70 0 (le_bytes 4 1 @ le_bytes 4 0 @ concat (map (le_bytes 8) ws)))
    (\<lambda>_ out. out\<lparr>pd_info := \<lparr>pi_pmu_type = ws ! 0, pi_time_shift = ws ! 1, pi_time_mult = ws ! 2,
      pi_time_zero = ws ! 3, pi_cap_user_time_zero = (ws ! 4 \<noteq> 0), pi_tsc_bit = ws ! 5,
      pi_noretcomp_bit = ws ! 6, pi_have_sched_switch = ws ! 7, pi_snapshot_mode = (ws ! 8 \<noteq> 0),
      pi_per_cpu_mmaps = (ws ! 9 \<noteq> 0), pi_mtc_bit = ws ! 10, pi_mtc_freq_bits = ws ! 11,
      pi_tsc_ctc_ratio_n = ws ! 12, pi_tsc_ctc_ratio_d = ws ! 13, pi_cyc_bit = ws ! 14,
      pi_max_nonturbo_ratio = ws ! 15\<rparr>\<rparr>)"
    (is "reads _ (plain_chunk 70 0 ?body) _")
proof (rule reads_plain)
  have len: "length (concat (map (le_bytes 8) ws)) = 136"
    using assms(1) by (simp add: length_concat comp_def sum_list_triv)
  then show "8 + length ?body < 2 ^ 16"
    by simp
  fix pre post :: octets and out
  let ?rec = "record_bytes 70 0 ?body"
  obtain t where t: "parse_trailer ?rec BUNDLE_SAMPLE_TYPE = Inr t"
    using trailer_of_any [of ?rec] len by auto
  have word: "rd 8 (pre @ ?rec @ post) (length pre + 16 + i * 8) = Inr (ws ! i)" if "i \<in> set [0..<16]" for i
  proof -
    have "rd 8 (pre @ ?rec @ post) (length pre + (8 + (8 + 8 * i))) = Inr (le_val (take 8 (drop (8 + 8 * i) ?body)))"
      using that len by (intro rd_body) simp
    then show ?thesis
      using that assms take_word [of i ws] by (simp add: ac_simps)
  qed
  have "rd 4 (pre @ ?rec @ post) (length pre + 8) = Inr 1"
    using rd_field [of 8 4 ?body pre 70 0 post] by simp
  then show "read_record (pre @ ?rec @ post) BUNDLE_SAMPLE_TYPE (length pre) 70 0 (8 + length ?body) ?rec out =
    Inr (0, out\<lparr>pd_info := \<lparr>pi_pmu_type = ws ! 0, pi_time_shift = ws ! 1, pi_time_mult = ws ! 2,
      pi_time_zero = ws ! 3, pi_cap_user_time_zero = (ws ! 4 \<noteq> 0), pi_tsc_bit = ws ! 5,
      pi_noretcomp_bit = ws ! 6, pi_have_sched_switch = ws ! 7, pi_snapshot_mode = (ws ! 8 \<noteq> 0),
      pi_per_cpu_mmaps = (ws ! 9 \<noteq> 0), pi_mtc_bit = ws ! 10, pi_mtc_freq_bits = ws ! 11,
      pi_tsc_ctc_ratio_n = ws ! 12, pi_tsc_ctc_ratio_d = ws ! 13, pi_cyc_bit = ws ! 14,
      pi_max_nonturbo_ratio = ws ! 15\<rparr>\<rparr>)"
    using map_try_all [of "[0..<16]" "\<lambda>i. rd 8 (pre @ ?rec @ post) (length pre + 16 + i * 8)" "\<lambda>i. ws ! i", OF word]
    unfolding read_record_def t pt_words_def Let_def try_bind_simps
    by (simp add: len numeral_2_eq_2 del: upt_Suc)
qed simp_all

definition blob_chunk :: "nat \<Rightarrow> nat \<Rightarrow> octets \<Rightarrow> chunk" where
  "blob_chunk i tid blob =
     \<lparr>ck_type = 71, ck_misc = 0,
      ck_body = le_bytes 8 (length blob) @ le_bytes 8 0 @ le_bytes 8 0 @ le_bytes 4 i @ le_bytes 4 tid
        @ le_bytes 4 i @ le_bytes 4 0, ck_aux = blob\<rparr>"

lemma reads_blob:
  assumes "i < 2 ^ 32" "tid < 2 ^ 32" "length blob < 2 ^ 64"
  shows "reads BUNDLE_SAMPLE_TYPE (blob_chunk i tid blob)
    (\<lambda>pos out. out\<lparr>pd_blobs := pd_blobs out @
       [\<lparr>ab_cpu = i, ab_tid = tid, ab_bytes = length blob, ab_file_offset = pos + 48\<rparr>]\<rparr>)"
  unfolding reads_def
proof (intro conjI allI impI)
  show "chunk_ok (blob_chunk i tid blob)"
    using assms by (simp add: chunk_ok_def blob_chunk_def PERF_RECORD_AUXTRACE_def)
next
  fix pre post :: octets and out
  assume small: "length pre + length (chunk_bytes (blob_chunk i tid blob)) < 2 ^ 63"
  let ?c = "blob_chunk i tid blob"
  let ?rec = "record_bytes (ck_type ?c) (ck_misc ?c) (ck_body ?c)"
  obtain t where t: "parse_trailer ?rec BUNDLE_SAMPLE_TYPE = Inr t"
    using trailer_of_any [of ?rec] by (auto simp: blob_chunk_def)
  have "rd 8 (pre @ ?rec @ post) (length pre + 8) = Inr (length blob)"
    "rd 4 (pre @ ?rec @ post) (length pre + 40) = Inr i"
    "rd 4 (pre @ ?rec @ post) (length pre + 36) = Inr tid"
    using assms by (simp_all add: blob_chunk_def rd_field)
  moreover have "wadd (length pre) 48 = length pre + 48"
    using small by (simp add: wadd_small chunk_bytes_def blob_chunk_def)
  ultimately show "read_record (pre @ ?rec @ post) BUNDLE_SAMPLE_TYPE (length pre) (ck_type ?c) (ck_misc ?c)
      (8 + length (ck_body ?c)) ?rec out =
    Inr (length (ck_aux ?c), out\<lparr>pd_blobs := pd_blobs out @
       [\<lparr>ab_cpu = i, ab_tid = tid, ab_bytes = length blob, ab_file_offset = length pre + 48\<rparr>]\<rparr>)"
    using t by (simp add: read_record_def read_blob_def PERF_RECORD_AUXTRACE_def Let_def)
      (simp add: blob_chunk_def)
qed

section \<open>What a bundle says\<close>

type_synonym described = "chunk \<times> (nat \<Rightarrow> perf_data \<Rightarrow> perf_data)"

definition side_of_proc :: "nat option \<Rightarrow> proc_info \<Rightarrow> sideband_record list" where
  "side_of_proc root p =
     (let pid = pr_pid p; t = opt_default 0 (pr_exec_ns p)
      in (if Some pid \<noteq> root then SbFork pid (pr_ppid p) pid (pr_ppid p) 0
          else SbComm pid pid 0 ''perf-exec'' False)
         # SbComm pid pid t (pr_comm p) (pr_exec_ns p \<noteq> None)
         # map (\<lambda>(start, len, pgoff, path). SbMmap pid pid t start len pgoff True path) (pr_maps p))"

definition side_of_event :: "nat \<times> pt_event \<Rightarrow> sideband_record list" where
  "side_of_event ie =
     (case ie of (i, e) \<Rightarrow>
        (if pe_tid e \<noteq> pe_pid e
         then SbFork (pe_pid e) (pe_pid e) (pe_tid e) (pe_pid e) 0
              # (if pe_comm e \<noteq> [] then [SbComm (pe_pid e) (pe_tid e) 0 (pe_comm e) False] else [])
         else [])
        @ [SbItraceStart (pe_pid e) (pe_tid e) i 0])"

definition bundle_side :: "pt_event list \<Rightarrow> proc_info list \<Rightarrow> nat option \<Rightarrow> sideband_record list" where
  "bundle_side events procs root =
     concat (map (side_of_proc root) procs) @ concat (map side_of_event (List.enumerate 0 events))"

definition proc_ok :: "proc_info \<Rightarrow> bool" where
  "proc_ok p \<longleftrightarrow> pr_pid p < 2 ^ 32 \<and> pr_ppid p < 2 ^ 32 \<and> opt_default 0 (pr_exec_ns p) < 2 ^ 64 \<and>
     CHR 0x00 \<notin> set (pr_comm p) \<and> length (pr_comm p) < 65000 \<and>
     (\<forall>(start, len, pgoff, path)\<in>set (pr_maps p). start < 2 ^ 64 \<and> len < 2 ^ 64 \<and> pgoff < 2 ^ 64 \<and>
        CHR 0x00 \<notin> set path \<and> length path < 65000)"

definition event_ok :: "pt_event \<Rightarrow> bool" where
  "event_ok e \<longleftrightarrow> pe_pid e < 2 ^ 32 \<and> pe_tid e < 2 ^ 32 \<and>
     CHR 0x00 \<notin> set (pe_comm e) \<and> length (pe_comm e) < 65000 \<and>
     (case pe_snapshot e of None \<Rightarrow> True | Some b \<Rightarrow> length b < 2 ^ 63) \<and>
     (case pe_timing e of (shift, mult, zero, _) \<Rightarrow> shift < 2 ^ 64 \<and> mult < 2 ^ 64 \<and> zero < 2 ^ 64)"

text \<open>A written record that the reader turns into one sideband record.\<close>

definition says :: "octets \<Rightarrow> sideband_record \<Rightarrow> bool" where
  "says r s \<longleftrightarrow> (\<exists>ty misc body. r = record_bytes ty misc body \<and>
     reads BUNDLE_SAMPLE_TYPE (plain_chunk ty misc body) (\<lambda>_. push_side s))"

lemma says_fork:
  "pid < 2 ^ 32 \<Longrightarrow> ppid < 2 ^ 32 \<Longrightarrow> tid < 2 ^ 32 \<Longrightarrow> ptid < 2 ^ 32 \<Longrightarrow> cpu < 2 ^ 32 \<Longrightarrow>
   says (fork_record pid ppid tid ptid (trailer_bytes pid tid 0 cpu)) (SbFork pid ppid tid ptid 0)"
  unfolding says_def fork_record_def using reads_fork by blast

lemma says_comm:
  "pid < 2 ^ 32 \<Longrightarrow> tid < 2 ^ 32 \<Longrightarrow> time < 2 ^ 64 \<Longrightarrow> cpu < 2 ^ 32 \<Longrightarrow> misc < 2 ^ 16 \<Longrightarrow>
   CHR 0x00 \<notin> set comm \<Longrightarrow> length comm < 65000 \<Longrightarrow>
   says (comm_record misc pid tid comm (trailer_bytes pid tid time cpu))
     (SbComm pid tid time comm (has_bit misc MISC_COMM_EXEC))"
  unfolding says_def comm_record_def using reads_comm by blast

lemma says_mmap:
  "pid < 2 ^ 32 \<Longrightarrow> time < 2 ^ 64 \<Longrightarrow> start < 2 ^ 64 \<Longrightarrow> len < 2 ^ 64 \<Longrightarrow> pgoff < 2 ^ 64 \<Longrightarrow>
   CHR 0x00 \<notin> set path \<Longrightarrow> length path < 65000 \<Longrightarrow>
   says (mmap_record pid (start, len, pgoff, path) (trailer_bytes pid pid time 0))
     (SbMmap pid pid time start len pgoff True path)"
  unfolding says_def mmap_record_def prod.case using reads_mmap by blast

lemma says_itrace:
  "pid < 2 ^ 32 \<Longrightarrow> tid < 2 ^ 32 \<Longrightarrow> cpu < 2 ^ 32 \<Longrightarrow>
   says (itrace_record pid tid (trailer_bytes pid tid 0 cpu)) (SbItraceStart pid tid cpu 0)"
  unfolding says_def itrace_record_def using reads_itrace by blast

lemma misc_bits: "has_bit 8192 MISC_COMM_EXEC" "\<not> has_bit 0 MISC_COMM_EXEC"
  by (simp_all add: has_bit_def MISC_COMM_EXEC_def)

lemma proc_says: "proc_ok p \<Longrightarrow> list_all2 says (proc_records root p) (side_of_proc root p)"
proof -
  assume ok: "proc_ok p"
  let ?t = "opt_default 0 (pr_exec_ns p)"
  have "list_all2 says (map (\<lambda>m. mmap_record (pr_pid p) m (trailer_bytes (pr_pid p) (pr_pid p) ?t 0)) (pr_maps p))
      (map (\<lambda>(start, len, pgoff, path). SbMmap (pr_pid p) (pr_pid p) ?t start len pgoff True path) (pr_maps p))"
    unfolding list_all2_map1 list_all2_map2
    using ok by (intro list.rel_refl_strong) (auto simp: proc_ok_def intro!: says_mmap)
  moreover have "says (comm_record (if pr_exec_ns p \<noteq> None then 2 ^ 13 else 0) (pr_pid p) (pr_pid p) (pr_comm p)
      (trailer_bytes (pr_pid p) (pr_pid p) ?t 0)) (SbComm (pr_pid p) (pr_pid p) ?t (pr_comm p) (pr_exec_ns p \<noteq> None))"
    using says_comm [of "pr_pid p" "pr_pid p" ?t 0 "if pr_exec_ns p \<noteq> None then 2 ^ 13 else 0" "pr_comm p"]
      ok misc_bits by (auto simp: proc_ok_def split: if_splits)
  moreover have "says (fork_record (pr_pid p) (pr_ppid p) (pr_pid p) (pr_ppid p) (trailer_bytes (pr_pid p) (pr_pid p) 0 0))
      (SbFork (pr_pid p) (pr_ppid p) (pr_pid p) (pr_ppid p) 0)"
    using ok by (intro says_fork) (simp_all add: proc_ok_def)
  moreover have "says (comm_record 0 (pr_pid p) (pr_pid p) ''perf-exec'' (trailer_bytes (pr_pid p) (pr_pid p) 0 0))
      (SbComm (pr_pid p) (pr_pid p) 0 ''perf-exec'' False)"
    using says_comm [of "pr_pid p" "pr_pid p" 0 0 0 "''perf-exec''"] ok misc_bits by (simp add: proc_ok_def)
  ultimately show ?thesis
    by (simp add: proc_records_def side_of_proc_def Let_def)
qed

lemma event_says:
  assumes "event_ok e" "i < 2 ^ 32"
  shows "list_all2 says (event_records (i, e)) (side_of_event (i, e))"
  using assms says_fork [of "pe_pid e" "pe_pid e" "pe_tid e" "pe_pid e" i]
    says_comm [of "pe_pid e" "pe_tid e" 0 i 0 "pe_comm e"] says_itrace [of "pe_pid e" "pe_tid e" i] misc_bits
  by (auto simp: event_records_def side_of_event_def event_ok_def as_u32_def Let_def)

lemma list_all2_concat:
  "(\<And>x. x \<in> set xs \<Longrightarrow> list_all2 R (f x) (g x)) \<Longrightarrow> list_all2 R (concat (map f xs)) (concat (map g xs))"
  by (induction xs) (auto intro: list_all2_appendI)

lemma says_list:
  assumes "list_all2 says rs ss"
  shows "\<exists>cs. concat rs = data_bytes (map fst cs) \<and> (\<forall>(c, f)\<in>set cs. reads BUNDLE_SAMPLE_TYPE c f) \<and>
    (\<forall>pos out. run_effects pos cs out = out\<lparr>pd_sideband := pd_sideband out @ ss\<rparr>)"
  using assms
proof (induction rule: list_all2_induct)
  case Nil
  then show ?case
    by (intro exI [of _ "[]"]) (simp add: data_bytes_def)
next
  case (Cons r rs s ss)
  obtain cs where cs: "concat rs = data_bytes (map fst cs)" "\<forall>(c, f)\<in>set cs. reads BUNDLE_SAMPLE_TYPE c f"
    "\<And>pos out. run_effects pos cs out = out\<lparr>pd_sideband := pd_sideband out @ ss\<rparr>"
    using Cons.IH by blast
  obtain ty misc body where r: "r = record_bytes ty misc body"
    "reads BUNDLE_SAMPLE_TYPE (plain_chunk ty misc body) (\<lambda>_. push_side s)"
    using Cons.hyps(1) by (auto simp: says_def)
  show ?case
    by (rule exI [of _ "(plain_chunk ty misc body, \<lambda>_. push_side s) # cs"])
      (use cs r in \<open>simp add: data_bytes_Cons plain_chunk_bytes push_side_def\<close>)
qed

definition taken_blobs :: "(nat \<times> pt_event) list \<Rightarrow> (nat \<times> nat \<times> octets) list" where
  "taken_blobs ies =
     concat (map (\<lambda>(i, e). case pe_snapshot e of
       None \<Rightarrow> [] | Some b \<Rightarrow> if b = [] then [] else [(i, pe_tid e, b)]) ies)"

definition blob_view :: "octets \<Rightarrow> aux_blob \<Rightarrow> nat \<times> nat \<times> octets" where
  "blob_view buf b = (ab_cpu b, ab_tid b, take (ab_bytes b) (drop (ab_file_offset b) buf))"

lemma run_effects_append:
  "run_effects pos (as @ bs) out =
     run_effects (pos + length (data_bytes (map fst as))) bs (run_effects pos as out)"
  by (induction as arbitrary: pos out) (auto simp: data_bytes_def add.assoc)

lemma blobs_list:
  assumes "\<forall>(i, e)\<in>set ies. i < 2 ^ 32 \<and> event_ok e"
  shows "\<exists>cs. concat (map event_blob ies) = data_bytes (map fst cs) \<and>
    (\<forall>(c, f)\<in>set cs. reads BUNDLE_SAMPLE_TYPE c f) \<and>
    (\<forall>pre post out. \<exists>bs. run_effects (length pre) cs out = out\<lparr>pd_blobs := pd_blobs out @ bs\<rparr> \<and>
       map (blob_view (pre @ data_bytes (map fst cs) @ post)) bs = taken_blobs ies)"
  using assms
proof (induction ies)
  case Nil
  then show ?case
    by (intro exI [of _ "[]"]) (auto simp: data_bytes_def taken_blobs_def intro!: exI [of _ "[]"])
next
  case (Cons ie ies)
  obtain i e where ie: "ie = (i, e)"
    by (cases ie)
  obtain cs where cs: "concat (map event_blob ies) = data_bytes (map fst cs)"
    "\<forall>(c, f)\<in>set cs. reads BUNDLE_SAMPLE_TYPE c f"
    "\<And>pre post out. \<exists>bs. run_effects (length pre) cs out = out\<lparr>pd_blobs := pd_blobs out @ bs\<rparr> \<and>
       map (blob_view (pre @ data_bytes (map fst cs) @ post)) bs = taken_blobs ies"
    using Cons.IH Cons.prems by auto
  show ?case
  proof (cases "pe_snapshot e = None \<or> pe_snapshot e = Some []")
    case True
    then have "event_blob ie = []" "taken_blobs (ie # ies) = taken_blobs ies"
      by (auto simp: event_blob_def taken_blobs_def ie)
    then show ?thesis
      using cs by (intro exI [of _ cs]) simp
  next
    case False
    then obtain b where b: "pe_snapshot e = Some b" "b \<noteq> []"
      by auto
    have ok: "i < 2 ^ 32" "pe_tid e < 2 ^ 32" "length b < 2 ^ 64"
      using Cons.prems b(1) by (auto simp: ie event_ok_def)
    let ?c = "blob_chunk i (pe_tid e) b"
    let ?blob = "\<lambda>pos. \<lparr>ab_cpu = i, ab_tid = pe_tid e, ab_bytes = length b, ab_file_offset = pos + 48\<rparr>"
    let ?f = "\<lambda>pos out. out\<lparr>pd_blobs := pd_blobs out @ [?blob pos]\<rparr>"
    have form: "event_blob ie = chunk_bytes ?c"
      using b ok by (simp add: event_blob_def ie blob_record_def chunk_bytes_def blob_chunk_def as_u32_def)
    have "\<exists>bs. run_effects (length pre) ((?c, ?f) # cs) out = out\<lparr>pd_blobs := pd_blobs out @ bs\<rparr> \<and>
       map (blob_view (pre @ data_bytes (map fst ((?c, ?f) # cs)) @ post)) bs = taken_blobs (ie # ies)" for pre post out
    proof -
      obtain bs where bs: "run_effects (length (pre @ chunk_bytes ?c)) cs (?f (length pre) out) =
          (?f (length pre) out)\<lparr>pd_blobs := pd_blobs (?f (length pre) out) @ bs\<rparr>"
        "map (blob_view ((pre @ chunk_bytes ?c) @ data_bytes (map fst cs) @ post)) bs = taken_blobs ies"
        using cs(3) by blast
      have "blob_view (pre @ chunk_bytes ?c @ data_bytes (map fst cs) @ post) (?blob (length pre)) = (i, pe_tid e, b)"
        by (simp add: blob_view_def chunk_bytes_def blob_chunk_def record_bytes_def)
      then show ?thesis
        using bs b(2) by (intro exI [of _ "?blob (length pre) # bs"])
          (simp add: data_bytes_Cons taken_blobs_def ie b(1))
    qed
    then show ?thesis
      using cs(1,2) reads_blob [OF ok] form by (intro exI [of _ "(?c, ?f) # cs"]) (simp add: data_bytes_Cons)
  qed
qed

section \<open>The round trip\<close>

lemma shl64_small: "shl64 v b < 2 ^ 64"
  by (simp add: shl64_def)

lemma pmu_flag_small: "pmu_flag pmu name < 2 ^ 64"
  using shl64_small by (simp add: pmu_flag_def split: option.splits)

definition pmu_ok :: "pt_pmu \<Rightarrow> nat \<times> nat \<Rightarrow> bool" where
  "pmu_ok pmu ratio \<longleftrightarrow> pmu_type pmu < 2 ^ 32 \<and> pmu_mtc_periods pmu < 2 ^ 64 \<and> fst ratio < 2 ^ 64 \<and> snd ratio < 2 ^ 64"

lemma info_words_ok:
  assumes "pmu_ok pmu ratio" "\<forall>e\<in>set events. event_ok e"
  shows "length (info_words pmu events ratio) = 17" "\<forall>w\<in>set (info_words pmu events ratio). w < 2 ^ 64"
proof -
  have "case (case events of [] \<Rightarrow> (0, 0, 0, False) | e # _ \<Rightarrow> pe_timing e) of
      (shift, mult, zero, cap) \<Rightarrow> shift < 2 ^ 64 \<and> mult < 2 ^ 64 \<and> zero < 2 ^ 64"
    using assms(2) by (auto simp: event_ok_def split: list.splits)
  then show "length (info_words pmu events ratio) = 17" "\<forall>w\<in>set (info_words pmu events ratio). w < 2 ^ 64"
    using assms(1) pmu_flag_small [of pmu]
    by (auto simp: info_words_def pmu_ok_def split: prod.splits)
qed

lemma bundle_chunks:
  assumes "pmu_ok pmu ratio" "\<forall>p\<in>set procs. proc_ok p" "\<forall>e\<in>set events. event_ok e" "length events < 2 ^ 32"
  shows "\<exists>cs. bundle_data pmu events procs root ratio = data_bytes (map fst cs) \<and>
    (\<forall>(c, f)\<in>set cs. reads BUNDLE_SAMPLE_TYPE c f) \<and>
    (\<forall>pre out. pd_sideband out = [] \<longrightarrow> pd_blobs out = [] \<longrightarrow>
      (let pd = run_effects (length pre) cs out
       in pd_sample_type pd = pd_sample_type out \<and> pd_sideband pd = bundle_side events procs root \<and>
          map (blob_view (pre @ data_bytes (map fst cs))) (pd_blobs pd) = taken_blobs (List.enumerate 0 events) \<and>
          (events \<noteq> [] \<longrightarrow> (pi_time_shift (pd_info pd), pi_time_mult (pd_info pd), pi_time_zero (pd_info pd),
             pi_cap_user_time_zero (pd_info pd)) = pe_timing (hd events))))"
proof -
  let ?ies = "List.enumerate 0 events" and ?ws = "info_words pmu events ratio"
  have ies: "\<forall>(i, e)\<in>set ?ies. i < 2 ^ 32 \<and> event_ok e"
    using assms(3,4) by (auto simp: in_set_enumerate_eq)
  have "list_all2 says (concat (map (proc_records root) procs)) (concat (map (side_of_proc root) procs))"
    using assms(2) by (intro list_all2_concat proc_says) simp
  moreover have "list_all2 says (concat (map event_records ?ies)) (concat (map side_of_event ?ies))"
  proof (rule list_all2_concat)
    fix ie assume "ie \<in> set ?ies"
    then show "list_all2 says (event_records ie) (side_of_event ie)"
      using ies event_says by (cases ie) auto
  qed
  ultimately have "list_all2 says (concat (map (proc_records root) procs) @ concat (map event_records ?ies))
      (bundle_side events procs root)"
    unfolding bundle_side_def by (rule list_all2_appendI)
  then obtain cs where cs: "concat (concat (map (proc_records root) procs) @ concat (map event_records ?ies)) =
      data_bytes (map fst cs)" "\<forall>(c, f)\<in>set cs. reads BUNDLE_SAMPLE_TYPE c f"
    "\<And>pos out. run_effects pos cs out = out\<lparr>pd_sideband := pd_sideband out @ bundle_side events procs root\<rparr>"
    using says_list by blast
  obtain bl where bl: "concat (map event_blob ?ies) = data_bytes (map fst bl)"
    "\<forall>(c, f)\<in>set bl. reads BUNDLE_SAMPLE_TYPE c f"
    "\<And>pre post out. \<exists>bs. run_effects (length pre) bl out = out\<lparr>pd_blobs := pd_blobs out @ bs\<rparr> \<and>
       map (blob_view (pre @ data_bytes (map fst bl) @ post)) bs = taken_blobs ?ies"
    using blobs_list [OF ies] by blast
  let ?info = "plain_chunk 70 0 (le_bytes 4 1 @ le_bytes 4 0 @ concat (map (le_bytes 8) ?ws))"
  obtain f where f: "reads BUNDLE_SAMPLE_TYPE ?info f"
    "\<And>pos out. pd_sideband (f pos out) = pd_sideband out \<and> pd_blobs (f pos out) = pd_blobs out \<and>
       pd_sample_type (f pos out) = pd_sample_type out \<and>
       (pi_time_shift (pd_info (f pos out)), pi_time_mult (pd_info (f pos out)), pi_time_zero (pd_info (f pos out)),
        pi_cap_user_time_zero (pd_info (f pos out))) = (?ws ! 1, ?ws ! 2, ?ws ! 3, ?ws ! 4 \<noteq> 0)"
    using that [OF reads_info [OF info_words_ok [OF assms(1,3)]]] by simp
  have timing: "(?ws ! 1, ?ws ! 2, ?ws ! 3, ?ws ! 4 \<noteq> 0) = pe_timing (hd events)" if "events \<noteq> []"
    using that by (cases events) (auto simp: info_words_def split: prod.splits)
  let ?cs = "(?info, f) # cs @ bl"
  have data: "bundle_data pmu events procs root ratio = data_bytes (map fst ?cs)"
    using cs(1) bl(1) by (simp add: bundle_data_def info_record_def data_bytes_def plain_chunk_bytes)
  show ?thesis
  proof (intro exI [of _ ?cs] conjI data allI impI)
    show "\<forall>(c, f)\<in>set ?cs. reads BUNDLE_SAMPLE_TYPE c f"
      using f(1) cs(2) bl(2) by auto
  next
    fix pre :: octets and out :: perf_data
    assume empty: "pd_sideband out = []" "pd_blobs out = []"
    let ?pre = "pre @ chunk_bytes ?info @ data_bytes (map fst cs)"
    let ?mid = "(f (length pre) out)\<lparr>pd_sideband := bundle_side events procs root\<rparr>"
    obtain bs where bs: "run_effects (length ?pre) bl ?mid = ?mid\<lparr>pd_blobs := pd_blobs ?mid @ bs\<rparr>"
      "map (blob_view (?pre @ data_bytes (map fst bl) @ [])) bs = taken_blobs ?ies"
      using bl(3) by blast
    have "run_effects (length pre) ?cs out = run_effects (length ?pre) bl ?mid"
      using cs(3) f(2) [of "length pre" out] empty by (simp add: run_effects_append add.assoc)
    moreover have "pre @ data_bytes (map fst ?cs) = ?pre @ data_bytes (map fst bl) @ []"
      by (simp add: data_bytes_def)
    ultimately show "let pd = run_effects (length pre) ?cs out
       in pd_sample_type pd = pd_sample_type out \<and> pd_sideband pd = bundle_side events procs root \<and>
          map (blob_view (pre @ data_bytes (map fst ?cs))) (pd_blobs pd) = taken_blobs ?ies \<and>
          (events \<noteq> [] \<longrightarrow> (pi_time_shift (pd_info pd), pi_time_mult (pd_info pd), pi_time_zero (pd_info pd),
             pi_cap_user_time_zero (pd_info pd)) = pe_timing (hd events))"
      using bs f(2) [of "length pre" out] empty timing
      by (simp only: Let_def) simp
  qed
qed

definition bundle_head :: "pt_pmu \<Rightarrow> pt_terms \<Rightarrow> nat \<Rightarrow> octets" where
  "bundle_head pmu terms n =
     MAGIC @ le_bytes 8 104 @ le_bytes 8 152 @ le_bytes 8 104 @ le_bytes 8 152 @ le_bytes 8 264 @ le_bytes 8 n
     @ replicate 16 0 @ replicate 32 0 @ attr_bytes pmu terms @ le_bytes 8 256 @ le_bytes 8 8 @ le_bytes 8 0"

lemma bundle_head_fields:
  assumes "n < 2 ^ 64"
  shows "length (bundle_head pmu terms n) = 264" "take 8 (bundle_head pmu terms n @ xs) = MAGIC"
    "rd 8 (bundle_head pmu terms n @ xs) 24 = Inr 104" "rd 8 (bundle_head pmu terms n @ xs) 32 = Inr 152"
    "rd 8 (bundle_head pmu terms n @ xs) 40 = Inr 264" "rd 8 (bundle_head pmu terms n @ xs) 48 = Inr n"
    "rd 8 (bundle_head pmu terms n @ xs) 128 = Inr BUNDLE_SAMPLE_TYPE"
  using assms by (simp_all add: bundle_head_def attr_bytes_def MAGIC_def BUNDLE_SAMPLE_TYPE_def rd_skip rd_here)

text \<open>
  C1: A bundle that the direct recorder writes is read back by the \<^verbatim>\<open>perf.data\<close> reader as what the
  recorder knew: the processes, mappings and threads as sideband records in the order of their
  times, the timing words of the first ring, and for every thread with trace data one blob, on a
  pseudo CPU of the thread's index, that covers exactly the bytes taken from its ring.
\<close>

theorem bundle_roundtrip:
  assumes "pmu_ok pmu ratio" "\<forall>p\<in>set procs. proc_ok p" "\<forall>e\<in>set events. event_ok e" "length events < 2 ^ 32"
    and "length (fst (write_bundle pmu terms events procs root ratio)) + 8 < 2 ^ 63"
  shows "\<exists>pd. read_perf_data (fst (write_bundle pmu terms events procs root ratio)) = Some (Inr pd) \<and>
    pd_sample_type pd = BUNDLE_SAMPLE_TYPE \<and>
    pd_sideband pd = sort_key sb_time (bundle_side events procs root) \<and>
    map (blob_view (fst (write_bundle pmu terms events procs root ratio))) (pd_blobs pd) =
      taken_blobs (List.enumerate 0 events) \<and>
    (events \<noteq> [] \<longrightarrow> (pi_time_shift (pd_info pd), pi_time_mult (pd_info pd), pi_time_zero (pd_info pd),
       pi_cap_user_time_zero (pd_info pd)) = pe_timing (hd events))"
proof -
  obtain cs where cs: "bundle_data pmu events procs root ratio = data_bytes (map fst cs)"
    "\<forall>(c, f)\<in>set cs. reads BUNDLE_SAMPLE_TYPE c f"
    "\<And>pre out. pd_sideband out = [] \<Longrightarrow> pd_blobs out = [] \<Longrightarrow>
      (let pd = run_effects (length pre) cs out
       in pd_sample_type pd = pd_sample_type out \<and> pd_sideband pd = bundle_side events procs root \<and>
          map (blob_view (pre @ data_bytes (map fst cs))) (pd_blobs pd) = taken_blobs (List.enumerate 0 events) \<and>
          (events \<noteq> [] \<longrightarrow> (pi_time_shift (pd_info pd), pi_time_mult (pd_info pd), pi_time_zero (pd_info pd),
             pi_cap_user_time_zero (pd_info pd)) = pe_timing (hd events)))"
    using bundle_chunks [OF assms(1-4), of root] by blast
  let ?data = "data_bytes (map fst cs)"
  let ?head = "bundle_head pmu terms (length ?data)"
  let ?out = "\<lparr>pd_info = intel_pt_info_default, pd_sideband = [], pd_blobs = [], pd_sample_type = BUNDLE_SAMPLE_TYPE\<rparr>"
  have buf: "fst (write_bundle pmu terms events procs root ratio) = ?head @ ?data"
    by (simp add: write_bundle_def Let_def bundle_head_def ATTR_SIZE_def cs(1))
  have len: "length ?head = 264" and small: "264 + length ?data + 8 < 2 ^ 63"
    using assms(5) bundle_head_fields(1) [of "length ?data" pmu terms]
    by (simp_all add: buf)
  have loop: "read_loop (?head @ ?data) BUNDLE_SAMPLE_TYPE (264 + length ?data) 264 ?out =
      Some (Inr (run_effects 264 cs ?out))"
    using read_loop_chunks [OF cs(2), of ?head "[]" ?out] small by (simp add: len)
  have "length ?data < 2 ^ 64"
    using small by simp
  note fields = bundle_head_fields(2-) [OF this, of pmu terms ?data]
  have "read_perf_data (?head @ ?data) =
      Some (Inr ((run_effects 264 cs ?out)\<lparr>pd_sideband := sort_key sb_time (pd_sideband (run_effects 264 cs ?out))\<rparr>))"
    using fields loop small
    by (simp add: read_perf_data_def len wadd_small del: take_append)
  moreover note cs(3) [of ?out ?head, unfolded len Let_def]
  ultimately show ?thesis
    unfolding buf by simp
qed

definition demo_pmu :: pt_pmu where
  "demo_pmu = \<lparr>pmu_type = 11, pmu_bits = [''tsc'' \<mapsto> (10, 10), ''mtc_period'' \<mapsto> (14, 17)],
              pmu_mtc_periods = 585, pmu_cycle_thresholds = 0, pmu_psb_periods = 63\<rparr>"

definition demo_terms :: pt_terms where
  "demo_terms = \<lparr>pt_profile = Balanced, pt_tsc = True, pt_mtc = True, pt_mtc_period = Some 3, pt_cyc = False,
                pt_cyc_thresh = None, pt_noretcomp = False, pt_psb_period = 3, pt_branch = True,
                pt_event_spec = []\<rparr>"

definition demo_event :: pt_event where
  "demo_event = \<lparr>pe_pid = 42, pe_tid = 43, pe_comm = ''w'', pe_aux_len = 65536,
                 pe_snapshot = Some [1, 2, 3], pe_wrapped = False, pe_timing = (31, 7, 9, True)\<rparr>"

definition demo_proc :: proc_info where
  "demo_proc = \<lparr>pr_pid = 42, pr_ppid = 7, pr_comm = ''a'', pr_maps = [(4096, 8192, 0, ''/a'')],
                pr_exec_ns = Some 5\<rparr>"

lemma demo_bundle_ok: "pmu_ok demo_pmu (2, 1)" "proc_ok demo_proc" "event_ok demo_event"
  by (simp_all add: pmu_ok_def demo_pmu_def proc_ok_def demo_proc_def event_ok_def demo_event_def opt_default_def)

lemma demo_bundle_small:
  "length (fst (write_bundle demo_pmu demo_terms [demo_event] [demo_proc] (Some 42) (2, 1))) + 8 < 2 ^ 63"
  by (simp add: write_bundle_def bundle_data_def info_record_def info_words_def proc_records_def event_records_def
      event_blob_def blob_record_def fork_record_def comm_record_def mmap_record_def itrace_record_def padded_def
      attr_bytes_def MAGIC_def demo_event_def demo_proc_def demo_pmu_def Let_def)

lemma bundle_roundtrip_witness:
  "\<exists>pd. read_perf_data (fst (write_bundle demo_pmu demo_terms [demo_event] [demo_proc] (Some 42) (2, 1))) = Some (Inr pd) \<and>
     map (blob_view (fst (write_bundle demo_pmu demo_terms [demo_event] [demo_proc] (Some 42) (2, 1)))) (pd_blobs pd) =
       [(0, 43, [1, 2, 3])] \<and>
     pi_time_shift (pd_info pd) = 31"
proof -
  have "\<forall>p\<in>set [demo_proc]. proc_ok p" "\<forall>e\<in>set [demo_event]. event_ok e" "length [demo_event] < 2 ^ 32"
    by (simp_all add: demo_bundle_ok)
  from bundle_roundtrip [OF demo_bundle_ok(1) this demo_bundle_small] show ?thesis
    by (auto simp: taken_blobs_def) (auto simp: demo_event_def)
qed

end
