(* ===== verification/Recorder_Props.thy ===== *)
theory Recorder_Props
  imports Direct_Recorder Bundle_Roundtrip
begin

text \<open>
  What the direct recorder keeps: the AUX budget, one ring per thread, the process table; what a snapshot
  of a ring holds; and that everything it took comes back from the file it writes.
\<close>

section \<open>The well-formed recorder\<close>

definition page_ok :: "world \<Rightarrow> bool" where
  "page_ok w \<longleftrightarrow> w_page w * 2 \<le> 65536"

definition ring_ok :: "nat \<Rightarrow> pt_event \<Rightarrow> bool" where
  "ring_ok most e \<longleftrightarrow> is_power_of_two (pe_aux_len e) \<and> 65536 \<le> pe_aux_len e \<and> pe_aux_len e \<le> most"

definition recorder_ok :: "direct_recorder \<Rightarrow> bool" where
  "recorder_ok d \<longleftrightarrow>
     dr_aux_bytes d < 2 ^ 64 \<and>
     dr_aux_used d = sum_list (map pe_aux_len (dr_events d)) \<and> dr_aux_used d \<le> dr_aux_budget d \<and>
     distinct (map pe_tid (dr_events d)) \<and> (\<forall>e\<in>set (dr_events d). ring_ok (dr_aux_bytes d) e) \<and>
     distinct (map fst (dr_procs d)) \<and> (\<forall>(k, p)\<in>set (dr_procs d). pr_pid p = k)"

text \<open>The states a recorder goes through; \<^verbatim>\<open>filter\<close> is set by the session before any thread starts.\<close>

inductive recorder_run :: "direct_recorder \<Rightarrow> bool" where
  spawned: "aux_bytes < 2 ^ 64 \<Longrightarrow> recorder_run (recorder_new None aux_bytes budget)"
| attached: "aux_bytes < 2 ^ 64 \<Longrightarrow> page_ok w \<Longrightarrow> recorder_attach w pid aux_bytes budget = Inr d \<Longrightarrow> recorder_run d"
| filtered: "recorder_run d \<Longrightarrow> recorder_run (d\<lparr>dr_filter := flt\<rparr>)"
| reported: "recorder_run d \<Longrightarrow> page_ok w \<Longrightarrow> recorder_run (snd (handle_report w line d))"
| polled: "recorder_run d \<Longrightarrow> page_ok w \<Longrightarrow> recorder_run (poll_threads w d)"
| finished: "recorder_run d \<Longrightarrow> recorder_run (snd (recorder_finish w d))"

lemma ring_size_bounds:
  assumes "ring_size d \<noteq> 0" "dr_aux_bytes d < 2 ^ 64"
  shows "is_power_of_two (ring_size d)" "65536 \<le> ring_size d" "ring_size d \<le> dr_aux_bytes d"
    "ring_size d \<le> dr_aux_budget d - dr_aux_used d"
proof -
  define n where "n = min (dr_aux_bytes d) (dr_aux_budget d - dr_aux_used d)"
  have n: "65536 \<le> n" "ring_size d = 2 ^ ilog2 n"
    using assms(1) by (auto simp: ring_size_def n_def highest_bit_def Let_def split: if_splits)
  have "(2::nat) ^ 16 < 2 ^ Suc (ilog2 n)"
    using ilog2_bounds [of n] n(1) by (simp del: power_Suc)
  then have "16 < Suc (ilog2 n)"
    by (rule power_less_imp_less_exp [rotated]) simp
  then have "(2::nat) ^ 16 \<le> 2 ^ ilog2 n"
    by (intro power_increasing) simp_all
  then show "65536 \<le> ring_size d"
    using n by simp
  have "ilog2 n < 64"
    using n(1) min.cobounded1 [of "dr_aux_bytes d" "dr_aux_budget d - dr_aux_used d"] assms(2)
    by (intro ilog2_lt) (unfold n_def, linarith+)
  then show "is_power_of_two (ring_size d)"
    using n by (simp add: power_is_power)
  have "ring_size d \<le> n"
    using ilog2_bounds [of n] n by simp
  then show "ring_size d \<le> dr_aux_bytes d" "ring_size d \<le> dr_aux_budget d - dr_aux_used d"
    by (simp_all add: n_def)
qed

lemma next_power_of_power:
  assumes "is_power_of_two n" "65536 \<le> n"
  shows "next_power_of_two n = n"
proof -
  obtain k where k: "n = 2 ^ k" "k < 64"
    using assms(1) by (auto simp: is_power_of_two_def)
  then obtain m where m: "k = Suc m"
    using assms(2) by (cases k) auto
  have "0 < n - 1" "2 ^ m \<le> n - 1" "n - 1 < 2 ^ Suc m"
    using assms(2) k m by auto
  have "ilog2 (n - 1) = m"
  proof (rule antisym)
    have "ilog2 (n - 1) < Suc m"
      using \<open>0 < n - 1\<close> \<open>n - 1 < 2 ^ Suc m\<close> by (rule ilog2_lt)
    then show "ilog2 (n - 1) \<le> m" by simp
    have "(2::nat) ^ m < 2 ^ Suc (ilog2 (n - 1))"
      using ilog2_bounds [OF \<open>0 < n - 1\<close>] \<open>2 ^ m \<le> n - 1\<close> by linarith
    then have "m < Suc (ilog2 (n - 1))"
      by (rule power_less_imp_less_exp [rotated]) simp
    then show "m \<le> ilog2 (n - 1)" by simp
  qed
  moreover have "(2::nat) ^ Suc m < 2 ^ 64"
    using k m by (intro power_strict_increasing) simp_all
  ultimately show ?thesis
    using assms(2) k m by (simp add: next_power_of_two_def del: power_Suc)
qed

lemma open_event_ring:
  assumes "open_event w pid tid n flt = Inr e" "is_power_of_two n" "65536 \<le> n" "page_ok w"
  shows "pe_aux_len e = n \<and> pe_tid e = tid \<and> pe_pid e = pid \<and> pe_snapshot e = None"
proof -
  have "max n (w_page w * 2) = n"
    using assms(3,4) by (simp add: page_ok_def)
  then show ?thesis
    using assms(1) next_power_of_power [OF assms(2,3)]
    by (auto simp: open_event_def Let_def try_bind_def split: sum.splits option.splits if_splits prod.splits)
qed

lemma opened_ok:
  assumes "recorder_ok d" "\<not> traced d tid" "ring_size d \<noteq> 0" "page_ok w"
    "open_event w pid tid (ring_size d) flt = Inr e"
  shows "recorder_ok (add_event e d)"
proof -
  have small: "dr_aux_bytes d < 2 ^ 64"
    using assms(1) by (simp add: recorder_ok_def)
  note size = ring_size_bounds [OF assms(3) small]
  note e = open_event_ring [OF assms(5) size(1,2) assms(4)]
  show ?thesis
    using assms(1,2,3) e size by (auto simp: recorder_ok_def add_event_def traced_def ring_ok_def)
qed

lemma ok_same_rings:
  assumes "recorder_ok d" "dr_events d' = dr_events d" "dr_aux_used d' = dr_aux_used d"
    "dr_aux_budget d' = dr_aux_budget d" "dr_aux_bytes d' = dr_aux_bytes d" "dr_procs d' = dr_procs d"
  shows "recorder_ok d'"
  using assms by (simp add: recorder_ok_def)

lemma note_ok [simp]: "recorder_ok (add_note n d) = recorder_ok d"
  by (simp add: recorder_ok_def add_note_def)

lemma filter_ok [simp]: "recorder_ok (d\<lparr>dr_filter := f\<rparr>) = recorder_ok d"
  by (simp add: recorder_ok_def)

lemma root_ok [simp]: "recorder_ok (d\<lparr>dr_root := r\<rparr>) = recorder_ok d"
  by (simp add: recorder_ok_def)

lemma set_update_insert: "set (AList.update k v xs) \<subseteq> insert (k, v) (set xs)"
  by (induction xs) auto

lemma procs_update_ok:
  assumes "recorder_ok d" "pr_pid p = k"
  shows "recorder_ok (d\<lparr>dr_procs := AList.update k p (dr_procs d)\<rparr>)"
  using assms set_update_insert [of k p "dr_procs d"] by (fastforce simp: recorder_ok_def distinct_update)

lemma put_proc_ok [simp, intro]: "recorder_ok d \<Longrightarrow> recorder_ok (put_proc p d)"
  by (simp add: put_proc_def procs_update_ok)

lemma take_snapshot_same [simp]:
  "pe_tid (take_snapshot rh e) = pe_tid e" "pe_pid (take_snapshot rh e) = pe_pid e"
  "pe_aux_len (take_snapshot rh e) = pe_aux_len e" "pe_timing (take_snapshot rh e) = pe_timing e"
  "pe_snapshot (take_snapshot rh e) \<noteq> None"
  by (auto simp: take_snapshot_def Let_def split: prod.split)

lemma ring_ok_snapshot [simp]: "ring_ok n (take_snapshot rh e) = ring_ok n e"
  by (simp add: ring_ok_def)

text \<open>Only the rings' own fields count.\<close>

lemma ok_snapshots:
  assumes "recorder_ok d" "length es = length (dr_events d)"
    "\<And>i. i < length es \<Longrightarrow> es ! i = dr_events d ! i \<or> (\<exists>rh. es ! i = take_snapshot rh (dr_events d ! i))"
  shows "recorder_ok (d\<lparr>dr_events := es\<rparr>)"
proof -
  have eq: "map f es = map f (dr_events d)" if "\<And>rh e. f (take_snapshot rh e) = f e" for f :: "pt_event \<Rightarrow> 'a"
    using assms(2,3) that by (intro nth_equalityI) (auto, metis)
  have "map (ring_ok (dr_aux_bytes d)) es = map (ring_ok (dr_aux_bytes d)) (dr_events d)"
    by (rule eq) simp
  then have "(\<forall>e\<in>set es. ring_ok (dr_aux_bytes d) e) = (\<forall>e\<in>set (dr_events d). ring_ok (dr_aux_bytes d) e)"
    by (metis in_set_conv_nth length_map nth_map)
  moreover have "map pe_tid es = map pe_tid (dr_events d)" "map pe_aux_len es = map pe_aux_len (dr_events d)"
    by (rule eq, simp)+
  ultimately show ?thesis
    using assms(1) by (simp add: recorder_ok_def)
qed

lemma snapshot_tid_ok: "recorder_ok d \<Longrightarrow> recorder_ok (snapshot_tid w tid d)"
  by (auto simp: snapshot_tid_def nth_list_update dest!: position_SomeD intro!: ok_snapshots
      simp del: split_paired_All split_paired_Ex split: option.split) blast

lemma refresh_ok: "recorder_ok d \<Longrightarrow> recorder_ok (refresh_proc w pid d)"
  by (auto simp: refresh_proc_def split: option.split)

lemma opened_proc_ok:
  assumes "recorder_ok d"
  shows "recorder_ok (opened_proc w pid t d)"
proof (cases "map_of (dr_procs d) pid")
  case None
  then show ?thesis using assms by (auto simp: opened_proc_def split: option.split)
next
  case (Some p)
  then have "pr_pid p = pid"
    using assms map_of_SomeD by (fastforce simp: recorder_ok_def)
  then show ?thesis
    using assms Some by (auto simp: opened_proc_def procs_update_ok split: option.split)
qed

lemma poll_task_ok: "recorder_ok d \<Longrightarrow> page_ok w \<Longrightarrow> recorder_ok (poll_task w pid late name d)"
  using opened_ok [of d _ w pid]
  by (auto simp: poll_task_def Let_def split: option.split sum.split)

lemma poll_ok:
  assumes "recorder_ok d" "page_ok w"
  shows "recorder_ok (poll_threads w d)"
proof -
  have "recorder_ok (fold (poll_task w pid late) names d)" for pid late names
    using assms(1) by (induction names arbitrary: d) (auto intro: poll_task_ok assms(2))
  then show ?thesis
    using assms(1) by (auto simp: poll_threads_def split: option.split)
qed

lemma report_thread_ok:
  assumes "recorder_ok d" "page_ok w"
  shows "recorder_ok (snd (report_thread w exec tid d))"
proof -
  define d1 where "d1 = (if exec \<and> dr_root d = None then d\<lparr>dr_root := Some (tgid_of w tid)\<rparr> else d)"
  have "recorder_ok d1"
    using assms(1) by (simp add: d1_def)
  then show ?thesis
    using opened_ok [of d1 tid w "tgid_of w tid"] assms(2)
    unfolding report_thread_def Let_def d1_def [symmetric]
    by (auto intro!: opened_proc_ok split: sum.split)
qed

lemma report_ok:
  assumes "recorder_ok d" "page_ok w"
  shows "recorder_ok (snd (handle_report w line d))"
proof -
  have "recorder_ok (snd (report_exec w tid d))" "recorder_ok (snd (report_exit w tid d))" for tid
    using assms(1) by (auto simp: report_exec_def report_exit_def Let_def refresh_ok snapshot_tid_ok split: option.split)
  then show ?thesis
    using assms report_thread_ok by (auto simp: handle_report_def split: list.split option.split)
qed

lemma finish_fold:
  "snd (fold (\<lambda>pid (live, d). if proc_read w pid = None then (live, d) else (live @ [pid], refresh_proc w pid d)) pids (live, d)) =
     fold (\<lambda>pid d. refresh_proc w pid d) pids d"
  by (induction pids arbitrary: live d) (auto simp: refresh_proc_def)

lemma finish_eq:
  "snd (recorder_finish w d) = fold (refresh_proc w) (remdups_adj (sort (map pe_pid (dr_events d))))
     (d\<lparr>dr_events := map (\<lambda>e. take_snapshot (w_ring w (pe_tid e)) e) (dr_events d)\<rparr>)"
  by (simp add: recorder_finish_def finish_fold o_def Let_def)

lemma refresh_fold_ok: "recorder_ok d \<Longrightarrow> recorder_ok (fold (refresh_proc w) pids d)"
  by (induction pids arbitrary: d) (auto intro: refresh_ok)

lemma finish_ok:
  assumes "recorder_ok d"
  shows "recorder_ok (snd (recorder_finish w d))"
  unfolding finish_eq using assms by (intro refresh_fold_ok ok_snapshots) (auto simp del: split_paired_All split_paired_Ex)

lemma new_ok: "n < 2 ^ 64 \<Longrightarrow> recorder_ok (recorder_new t n budget)"
  by (simp add: recorder_ok_def recorder_new_def)

lemma attach_ok:
  assumes "recorder_attach w pid n budget = Inr d" "n < 2 ^ 64" "page_ok w"
  shows "recorder_ok d"
  using assms poll_ok [OF new_ok [OF assms(2), of "Some pid" budget] assms(3)]
  by (auto simp: recorder_attach_def Let_def split: if_splits option.splits)

text \<open>
  C33: Whatever the launch shim reports and however often an attached process is polled, the direct
  recorder stays well formed: the AUX memory in use is the sum of its rings and never exceeds the
  budget, no thread has two rings, every ring is a power of two of at least 64 KiB and at most the
  size asked for, and the process table has one entry per process, under its own id.
\<close>

theorem recorder_well_formed:
  assumes "recorder_run d"
  shows "recorder_ok d"
  using assms by induction (simp_all add: new_ok attach_ok report_ok poll_ok finish_ok)

text \<open>A kernel that grants every event, with nothing under \<^verbatim>\<open>/proc\<close>.\<close>

definition demo_world :: "(nat \<Rightarrow> octets \<times> nat) \<Rightarrow> world" where
  "demo_world rings =
     \<lparr>w_page = 4096, w_perf_open = (\<lambda>_. None), w_set_filter = (\<lambda>_. None), w_mmap_base = None,
      w_mmap_aux = (\<lambda>_. None), w_task_comm = (\<lambda>_ _. None), w_timing = (\<lambda>_. (0, 1, 0, True)),
      w_status = (\<lambda>_. None), w_comm = (\<lambda>_. None), w_maps = (\<lambda>_. None), w_tasks = (\<lambda>_. None), w_tsc = 0,
      w_ring = rings\<rparr>"

definition demo_recorder :: direct_recorder where
  "demo_recorder =
     (let w = demo_world (\<lambda>_. ([], 0))
      in snd (handle_report w ''thread 7'' (snd (handle_report w ''exec 5'' (recorder_new None 131072 200000)))))"

lemma recorder_well_formed_witness:
  "map (\<lambda>e. (pe_tid e, pe_aux_len e)) (dr_events demo_recorder) = [(5, 131072), (7, 65536)] \<and> recorder_ok demo_recorder"
proof
  have lines: "split_whitespace ''exec 5'' = [''exec'', ''5'']" "split_whitespace ''thread 7'' = [''thread'', ''7'']"
    "parse_u32 ''5'' = Some 5" "parse_u32 ''7'' = Some 7"
    by (simp_all add: split_whitespace_def is_ws_def parse_uint_def digit_val_def u32_max_def)
  have powers: "highest_bit 131072 = 131072" "highest_bit 68928 = 65536"
    "next_power_of_two 131072 = 131072" "next_power_of_two 65536 = 65536"
    by (simp_all add: highest_bit_def next_power_of_two_def ilog2.simps [of "numeral k" for k] ilog2.simps [of "Suc 0"])
  show "map (\<lambda>e. (pe_tid e, pe_aux_len e)) (dr_events demo_recorder) = [(5, 131072), (7, 65536)]"
    by (simp add: demo_recorder_def demo_world_def handle_report_def lines report_thread_def recorder_new_def
        traced_def ring_size_def powers open_event_def opened_proc_def add_event_def tgid_of_def opt_default_def
        proc_read_def try_bind_def Let_def)
  have "page_ok (demo_world rings)" for rings
    by (simp add: page_ok_def demo_world_def)
  then have "recorder_run demo_recorder"
    unfolding demo_recorder_def Let_def by (intro recorder_run.intros) simp_all
  then show "recorder_ok demo_recorder"
    by (rule recorder_well_formed)
qed

section \<open>What a snapshot holds\<close>

text \<open>The memory of a ring of \<open>n\<close> bytes, zero at first, after the trace \<open>s\<close> was written to it.\<close>

fun ring_write :: "nat \<Rightarrow> octets \<Rightarrow> nat \<Rightarrow> octets \<Rightarrow> octets" where
  "ring_write n r i [] = r"
| "ring_write n r i (b # s) = ring_write n (r[i mod n := b]) (Suc i) s"

definition ring_of :: "nat \<Rightarrow> octets \<Rightarrow> octets" where
  "ring_of n s = ring_write n (replicate n 0) 0 s"

lemma ring_write_snoc: "ring_write n r i (s @ [b]) = (ring_write n r i s)[(i + length s) mod n := b]"
  by (induction s arbitrary: r i) auto

lemma length_ring_write [simp]: "length (ring_write n r i s) = length r"
  by (induction s arbitrary: r i) auto

lemma length_ring_of [simp]: "length (ring_of n s) = n"
  by (simp add: ring_of_def)

text \<open>In stream order, the ring is the last \<open>n\<close> bytes of the trace, after as many zeros as are missing.\<close>

lemma ring_stream:
  assumes "0 < n"
  shows "drop (length s mod n) (ring_of n s) @ take (length s mod n) (ring_of n s) =
    replicate (n - length s) 0 @ drop (length s - n) s"
proof (induction s rule: rev_induct)
  case Nil
  then show ?case by (simp add: ring_of_def)
next
  case (snoc b s)
  let ?p = "length s mod n"
  let ?r = "ring_of n s"
  let ?all = "drop ?p ?r @ take ?p ?r"
  have p: "?p < n" using assms by simp
  have r: "ring_of n (s @ [b]) = ?r[?p := b]"
    by (simp add: ring_of_def ring_write_snoc)
  have m: "length (s @ [b]) mod n = Suc ?p mod n"
    by (simp add: mod_Suc_eq)
  have "drop (Suc ?p mod n) (?r[?p := b]) @ take (Suc ?p mod n) (?r[?p := b]) = tl ?all @ [b]"
  proof (cases "Suc ?p = n")
    case True
    then have "drop ?p ?r = [last ?r]"
      by (metis Suc_diff_1 assms diff_Suc_1 drop_eq_Nil length_ring_of less_irrefl list.size(3) append_butlast_last_id butlast_conv_take append_eq_conv_conj length_butlast)
    moreover have "?r[?p := b] = take ?p ?r @ [b]"
      using True p by (simp add: upd_conv_take_nth_drop)
    ultimately show ?thesis using True by simp
  next
    case False
    then have "Suc ?p < n" using p by simp
    then show ?thesis
      using p by (simp add: upd_conv_take_nth_drop drop_Suc tl_drop take_Suc_conv_app_nth)
  qed
  also have "?all = replicate (n - length s) 0 @ drop (length s - n) s"
    by (rule snoc.IH)
  also have "tl (replicate (n - length s) 0 @ drop (length s - n) s) @ [b] =
      replicate (n - length (s @ [b])) 0 @ drop (length (s @ [b]) - n) (s @ [b])"
    using assms by (cases "length s < n") (simp_all add: Suc_diff_le drop_Suc tl_drop not_less Suc_diff_Suc [symmetric])
  finally show ?case
    unfolding r m .
qed

text \<open>Before the writer has been around, the ring is the trace and zeros.\<close>

lemma ring_early: "length s \<le> n \<Longrightarrow> ring_of n s = s @ replicate (n - length s) 0"
proof (induction s rule: rev_induct)
  case Nil
  then show ?case by (simp add: ring_of_def)
next
  case (snoc b s)
  then have "ring_of n s = s @ replicate (n - length s) 0" "length s < n" by simp_all
  moreover have "replicate (n - length s) 0 = 0 # replicate (n - Suc (length s)) (0::nat)"
    using snoc.prems by (simp add: Suc_diff_Suc [symmetric])
  ultimately show ?case
    by (simp add: ring_of_def ring_write_snoc list_update_append)
qed

text \<open>
  C34: The snapshot of a ring is, up to leading zeros, the end of the trace its thread wrote, and it never
  exceeds the ring: the whole trace while it fits, the last \<open>n\<close> bytes of it once the kernel's head
  has passed the ring's size, and the same when the head is reported modulo the ring and the last 64
  bytes of the ring have been written.
\<close>

theorem snapshot_is_trace_end:
  assumes "pe_snapshot e = None" "pe_aux_len e = n" "64 \<le> n"
    and "head = length s \<or> head = length s mod n"
    and "e' = take_snapshot (ring_of n s, head) e"
  shows "\<exists>z k. pe_snapshot e' = Some (replicate z 0 @ drop k s) \<and> k \<le> length s \<and> z + (length s - k) \<le> n \<and>
    (length s < n \<longrightarrow> k = 0) \<and> (pe_wrapped e' \<longrightarrow> k = length s - n) \<and>
    (head = length s \<and> n \<le> length s \<longrightarrow> pe_wrapped e' \<and> z = 0)"
proof -
  let ?p = "length s mod n"
  have pos: "head mod n = ?p" "?p < n" "?p \<le> length s"
    using assms(3,4) by auto
  define wr where "wr = (head \<ge> n \<or> (\<exists>b\<in>set (drop (n - 64) (ring_of n s)). b \<noteq> 0))"
  have e': "pe_snapshot e' = Some ((if wr then drop ?p (ring_of n s) else []) @ take ?p (ring_of n s))"
    "pe_wrapped e' = wr"
  proof -
    have "e' = e\<lparr>pe_snapshot := Some ((if wr then drop ?p (ring_of n s) else []) @ take ?p (ring_of n s)),
                 pe_wrapped := wr\<rparr>"
      unfolding assms(5) take_snapshot_def Let_def prod.case assms(1,2) pos(1) wr_def by (simp only: simp_thms if_False)
    then show "pe_snapshot e' = Some ((if wr then drop ?p (ring_of n s) else []) @ take ?p (ring_of n s))"
      "pe_wrapped e' = wr" by simp_all
  qed
  have full: "drop ?p (ring_of n s) @ take ?p (ring_of n s) = replicate (n - length s) 0 @ drop (length s - n) s"
    using assms(3) by (intro ring_stream) simp
  show ?thesis
  proof (cases wr)
    case True
    then show ?thesis
      using e' full by (intro exI [of _ "n - length s"] exI [of _ "length s - n"]) auto
  next
    case False
    then have "head < n" by (simp add: wr_def)
    have "take ?p (ring_of n s) = drop (length s - ?p) s"
    proof (cases "length s < n")
      case True
      then show ?thesis using ring_early [of s n] by simp
    next
      case False
      have "take ?p (ring_of n s) = drop (n - ?p) (drop ?p (ring_of n s) @ take ?p (ring_of n s))"
        by simp
      also have "\<dots> = drop (length s - ?p) s"
        using False pos(2) unfolding full by simp
      finally show ?thesis .
    qed
    then show ?thesis
      using e' False pos \<open>head < n\<close>
      by (intro exI [of _ 0] exI [of _ "length s - ?p"]) auto
  qed
qed

lemma snapshot_is_trace_end_witness:
  "\<exists>z k. pe_snapshot (take_snapshot (ring_of 64 (replicate 65 7), 65)
      (demo_event\<lparr>pe_snapshot := None, pe_aux_len := 64\<rparr>)) = Some (replicate z 0 @ drop k (replicate 65 7)) \<and> k = 1 \<and> z = 0"
proof -
  let ?e = "demo_event\<lparr>pe_snapshot := None, pe_aux_len := 64\<rparr>"
  have "pe_snapshot ?e = None" "pe_aux_len ?e = 64" "(64::nat) \<le> 64"
    "(65::nat) = length (replicate 65 (7::nat)) \<or> (65::nat) = length (replicate 65 (7::nat)) mod 64"
    by simp_all
  from snapshot_is_trace_end [OF this refl] show ?thesis
    by auto
qed

section \<open>From the rings to the reader\<close>

lemma refresh_same [simp]:
  "dr_events (refresh_proc w pid d) = dr_events d" "dr_root (refresh_proc w pid d) = dr_root d"
  by (simp_all add: refresh_proc_def put_proc_def split: option.split)

lemma refresh_fold_same [simp]:
  "dr_events (fold (refresh_proc w) pids d) = dr_events d"
  by (induction pids arbitrary: d) simp_all

lemma finish_events:
  "dr_events (snd (recorder_finish w d)) = map (\<lambda>e. take_snapshot (w_ring w (pe_tid e)) e) (dr_events d)"
  by (simp add: finish_eq)

text \<open>The trace data of every thread: what its exit left, or what its ring holds at the end.\<close>

definition thread_trace :: "world \<Rightarrow> pt_event \<Rightarrow> octets" where
  "thread_trace w e = the (pe_snapshot (take_snapshot (w_ring w (pe_tid e)) e))"

definition recorded_traces :: "world \<Rightarrow> direct_recorder \<Rightarrow> (nat \<times> nat \<times> octets) list" where
  "recorded_traces w d =
     filter (\<lambda>(i, tid, b). b \<noteq> [])
       (map (\<lambda>(i, e). (i, pe_tid e, thread_trace w e)) (List.enumerate 0 (dr_events d)))"

lemma taken_all:
  "taken_blobs (List.enumerate k (map (\<lambda>e. take_snapshot (w_ring w (pe_tid e)) e) es)) =
     filter (\<lambda>(i, tid, b). b \<noteq> []) (map (\<lambda>(i, e). (i, pe_tid e, thread_trace w e)) (List.enumerate k es))"
proof (induction es arbitrary: k)
  case Nil
  then show ?case by (simp add: taken_blobs_def)
next
  case (Cons e es)
  obtain b where "pe_snapshot (take_snapshot (w_ring w (pe_tid e)) e) = Some b"
    using take_snapshot_same(5) by blast
  then show ?case
    using Cons.IH [of "Suc k"] by (simp add: taken_blobs_def thread_trace_def)
qed

text \<open>
  C35: A recording survives its file: after \<^verbatim>\<open>finish\<close> the recorder of at least one thread writes a bundle,
  and the reader of \<^verbatim>\<open>perf.data\<close> files finds in it, for every traced thread with trace data, exactly the bytes
  of its snapshot, on the pseudo CPU of the thread's index, and no other blob; the processes in order of
  their ids, their mappings and the threads as sideband records in the order of their times; and the
  timing words of the first ring.
\<close>

theorem recording_read_back:
  assumes "recorder_finish w d = (live, d')" "dr_events d \<noteq> []" "length (dr_events d) < 2 ^ 32"
    and "pmu_ok pmu ratio" "\<forall>(k, p)\<in>set (dr_procs d'). proc_ok p" "\<forall>e\<in>set (dr_events d'). event_ok e"
    and "\<And>f n. recorder_write pmu terms ratio d' = Inr (f, n) \<Longrightarrow> length f + 8 < 2 ^ 63"
  shows "\<exists>f n pd. recorder_write pmu terms ratio d' = Inr (f, n) \<and> read_perf_data f = Some (Inr pd) \<and>
    map (blob_view f) (pd_blobs pd) = recorded_traces w d \<and>
    pd_sideband pd = sort_key sb_time (bundle_side (dr_events d') (sort_key pr_pid (map snd (dr_procs d'))) (dr_root d')) \<and>
    (pi_time_shift (pd_info pd), pi_time_mult (pd_info pd), pi_time_zero (pd_info pd),
       pi_cap_user_time_zero (pd_info pd)) = pe_timing (hd (dr_events d))"
proof -
  have ev: "dr_events d' = map (\<lambda>e. take_snapshot (w_ring w (pe_tid e)) e) (dr_events d)"
    using finish_events [of w d] assms(1) by simp
  let ?procs = "sort_key pr_pid (map snd (dr_procs d'))"
  let ?out = "write_bundle pmu terms (dr_events d') ?procs (dr_root d') ratio"
  have wr: "recorder_write pmu terms ratio d' = Inr (fst ?out, snd ?out)"
    using ev assms(2) by (simp add: recorder_write_def)
  have "\<forall>p\<in>set ?procs. proc_ok p" "length (dr_events d') < 2 ^ 32"
    using assms(3,5) ev by auto
  from bundle_roundtrip [OF assms(4) this(1) assms(6) this(2), of terms "dr_root d'"] assms(7) [OF wr]
  obtain pd where "read_perf_data (fst ?out) = Some (Inr pd)"
      and "map (blob_view (fst ?out)) (pd_blobs pd) = taken_blobs (List.enumerate 0 (dr_events d'))"
      and "pd_sideband pd = sort_key sb_time (bundle_side (dr_events d') ?procs (dr_root d'))"
      and "(pi_time_shift (pd_info pd), pi_time_mult (pd_info pd), pi_time_zero (pd_info pd),
        pi_cap_user_time_zero (pd_info pd)) = pe_timing (hd (dr_events d'))"
    using ev assms(2) by auto
  moreover have "pe_timing (hd (dr_events d')) = pe_timing (hd (dr_events d))"
    using assms(2) by (simp add: ev hd_map)
  ultimately show ?thesis
    using wr taken_all [of 0 w "dr_events d"] unfolding recorded_traces_def ev [symmetric]
    by (intro exI [of _ "fst ?out"] exI [of _ "snd ?out"] exI [of _ pd]) simp
qed

definition demo_recording :: direct_recorder where
  "demo_recording = (recorder_new (Some 42) 65536 65536)
     \<lparr>dr_aux_used := 65536, dr_events := [demo_event], dr_procs := [(42, demo_proc)]\<rparr>"

lemma recording_read_back_witness:
  "\<exists>f n pd. recorder_write demo_pmu demo_terms (2, 1) demo_recording = Inr (f, n) \<and>
     read_perf_data f = Some (Inr pd) \<and> map (blob_view f) (pd_blobs pd) = [(0, 43, [1, 2, 3])]"
proof -
  let ?w = "demo_world (\<lambda>_. ([], 0))"
  have snap: "take_snapshot rh demo_event = demo_event" for rh
    by (simp add: take_snapshot_def demo_event_def)
  have none: "proc_read ?w pid = None" for pid
    by (simp add: proc_read_def demo_world_def)
  have fin: "recorder_finish ?w demo_recording = ([], demo_recording)"
    by (simp add: recorder_finish_def none Let_def demo_recording_def snap recorder_new_def)
  have d: "dr_events demo_recording = [demo_event]" "dr_procs demo_recording = [(42, demo_proc)]"
    "dr_root demo_recording = Some 42"
    by (simp_all add: demo_recording_def recorder_new_def)
  note ok = demo_bundle_ok
  from demo_bundle_small have "\<exists>f n pd. recorder_write demo_pmu demo_terms (2, 1) demo_recording = Inr (f, n) \<and>
     read_perf_data f = Some (Inr pd) \<and> map (blob_view f) (pd_blobs pd) = recorded_traces ?w demo_recording \<and>
     pd_sideband pd = sort_key sb_time (bundle_side (dr_events demo_recording)
       (sort_key pr_pid (map snd (dr_procs demo_recording))) (dr_root demo_recording)) \<and>
     (pi_time_shift (pd_info pd), pi_time_mult (pd_info pd), pi_time_zero (pd_info pd),
       pi_cap_user_time_zero (pd_info pd)) = pe_timing (hd (dr_events demo_recording))"
    by (intro recording_read_back [OF fin]) (auto simp: d ok ok [simplified] recorder_write_def)
  moreover have "recorded_traces ?w demo_recording = [(0, 43, [1, 2, 3])]"
    by (simp add: recorded_traces_def d thread_trace_def snap) (simp add: demo_event_def)
  ultimately show ?thesis by metis
qed

section \<open>What the reports lose\<close>

text \<open>A further thread of a process takes the time of its exec from the process table.\<close>

lemma thread_report_forgets_exec:
  assumes "\<not> traced d tid" "ring_size d \<noteq> 0"
    "open_event w (tgid_of w tid) tid (ring_size d) (dr_filter d) = Inr ev"
    "proc_read w (tgid_of w tid) = Some p"
  shows "map_of (dr_procs (snd (report_thread w False tid d))) (tgid_of w tid) = Some (p\<lparr>pr_exec_ns := None\<rparr>)"
proof -
  have "pr_pid p = tgid_of w tid"
    using assms(4) by (auto simp: proc_read_def split: option.splits)
  then show ?thesis
    using assms by (simp add: report_thread_def opened_proc_def put_proc_def add_event_def update_conv' Let_def)
qed

text \<open>While the refresh at its exit or at the end keeps it.\<close>

lemma refresh_keeps_exec:
  assumes "map_of (dr_procs d) pid = Some p"
  shows "\<exists>q. map_of (dr_procs (refresh_proc w pid d)) pid = Some q \<and> pr_exec_ns q = pr_exec_ns p"
proof (cases "proc_read w pid")
  case None
  then show ?thesis using assms by (simp add: refresh_proc_def)
next
  case (Some q)
  then have "pr_pid q = pid"
    by (auto simp: proc_read_def split: option.splits)
  then show ?thesis
    using assms Some by (simp add: refresh_proc_def put_proc_def update_conv')
qed

text \<open>A thread whose id was used before gets no ring and leaves no note.\<close>

lemma reused_tid_not_traced:
  assumes "traced d tid"
  shows "dr_events (snd (report_thread w False tid d)) = dr_events d" "dr_notes (snd (report_thread w False tid d)) = dr_notes d"
  using assms by (simp_all add: report_thread_def Let_def)

text \<open>The path of a mapping ends at its first blank.\<close>

lemma map_path_cut_at_blank:
  "parse_map_line ''1000-3000 r-xp 0 fd:01 7 /opt/my app'' = Some (4096, 8192, 0, ''/opt/my'')"
  by (simp add: parse_map_line_def split_whitespace_def is_ws_def split_once_ch_def parse_uint_def digit_val_def
      u64_max_def wsub_def)

end
