(* ===== verification/Native_Streams.thy ===== *)
theory Native_Streams
  imports Perf_Data Stream_Merge Image_Index
begin

text \<open>
  \<^verbatim>\<open>src/decode/native.rs\<close> around the decoder: the sideband as records, who runs when on a CPU, what is
  mapped where, the cutting of trace buffers at PSB packets and the dealing of the pieces to workers.
  The x86 length decoder (iced-x86) is an argument: the length of the instruction at the head of a
  byte sequence, if it is valid.
\<close>

section \<open>Cutting at PSB packets\<close>

definition PSB :: octets where
  "PSB = concat (replicate 8 [2, 130])"

definition MIN_CHUNK :: nat where
  "MIN_CHUNK = 2097152"

function psb_from :: "octets \<Rightarrow> nat \<Rightarrow> nat list" where
  "psb_from data i =
     (if i + 16 \<le> length data
      then if take 16 (drop i data) = PSB then i # psb_from data (i + 16) else psb_from data (i + 1)
      else [])"
  by pat_completeness auto
termination by (relation "measure (\<lambda>(data, i). length data - i)") auto

declare psb_from.simps [simp del]

definition psb_offsets :: "octets \<Rightarrow> nat list" where
  "psb_offsets data = psb_from data 0"

definition push_cut :: "nat \<Rightarrow> nat \<Rightarrow> nat \<Rightarrow> nat list \<Rightarrow> nat list" where
  "push_cut len target off cuts =
     (if off - last cuts \<ge> target \<and> len - off \<ge> MIN_CHUNK div 2 then cuts @ [off] else cuts)"

definition windows :: "nat list \<Rightarrow> (nat \<times> nat) list" where
  "windows cuts = map (\<lambda>(a, b). (a, b - a)) (zip cuts (tl cuts))"

definition split_at_psb :: "octets \<Rightarrow> nat \<Rightarrow> (nat \<times> nat) list" where
  "split_at_psb data parts =
     (if parts \<le> 1 \<or> length data < 2 * MIN_CHUNK then [(0, length data)]
      else (let target = max (length data div parts) MIN_CHUNK
            in windows (fold (push_cut (length data) target) (psb_offsets data) [0] @ [length data])))"

section \<open>The sideband\<close>

definition some_time :: "nat \<Rightarrow> nat option" where
  "some_time t = (if t \<noteq> 0 then Some t else None)"

definition sideband_raw :: "sideband_record \<Rightarrow> raw_record option" where
  "sideband_raw s =
     (case s of
        SbMmap pid tid time start len pgoff exec path \<Rightarrow>
          if \<not> exec then None
          else Some (RMmap \<lparr>mm_pid = pid, mm_tid = tid, mm_time = some_time time, mm_start = start, mm_len = len,
                            mm_pgoff = pgoff, mm_prot = ''r-xp'', mm_path = path\<rparr>)
      | SbComm pid tid time comm exec \<Rightarrow>
          Some (RTask \<lparr>t_kind = (if exec then TExec else TComm), t_pid = pid, t_tid = tid, t_ppid = None,
                       t_ptid = None, t_time = some_time time, t_comm = Some comm\<rparr>)
      | SbFork pid ppid tid ptid time \<Rightarrow>
          Some (RTask \<lparr>t_kind = TFork, t_pid = pid, t_tid = tid, t_ppid = Some ppid, t_ptid = Some ptid,
                       t_time = some_time time, t_comm = None\<rparr>)
      | SbExit pid ppid tid ptid time \<Rightarrow>
          Some (RTask \<lparr>t_kind = TExit, t_pid = pid, t_tid = tid, t_ppid = Some ppid, t_ptid = Some ptid,
                       t_time = some_time time, t_comm = None\<rparr>)
      | SbSwitch pid tid cpu time out \<Rightarrow> Some (RSwitch pid tid (some_time time) out)
      | SbLost time cpu lost \<Rightarrow> Some (RLost \<lparr>l_time = some_time time, l_cpu = Some cpu, l_lost = lost\<rparr>)
      | SbItraceStart pid tid cpu time \<Rightarrow> None)"

definition sideband_records :: "perf_data \<Rightarrow> batch" where
  "sideband_records pd =
     List.map_filter (\<lambda>s. map_option (Pair (some_time (sb_time s))) (sideband_raw s)) (pd_sideband pd)"

section \<open>Who runs, what is mapped\<close>

type_synonym schedule = "(nat \<times> nat \<times> nat) list"
type_synonym pid_maps = "nat \<rightharpoonup> (nat \<times> nat \<times> nat \<times> string) list"

definition switched_in :: "nat \<Rightarrow> sideband_record \<Rightarrow> (nat \<times> nat \<times> nat) option" where
  "switched_in cpu s =
     (case s of
        SbSwitch pid tid c time out \<Rightarrow> if \<not> out \<and> c = cpu then Some (time, pid, tid) else None
      | SbItraceStart pid tid c time \<Rightarrow> if c = cpu then Some (time, pid, tid) else None
      | _ \<Rightarrow> None)"

definition schedule_for_cpu :: "perf_data \<Rightarrow> nat \<Rightarrow> schedule" where
  "schedule_for_cpu pd cpu = remdups_adj (sort (List.map_filter (switched_in cpu) (pd_sideband pd)))"

definition map_step :: "sideband_record \<Rightarrow> pid_maps \<Rightarrow> pid_maps" where
  "map_step s m =
     (case s of
        SbMmap pid tid time start len pgoff exec path \<Rightarrow>
          if exec then m(pid \<mapsto> (case m pid of None \<Rightarrow> [] | Some l \<Rightarrow> l) @ [(start, len, pgoff, path)]) else m
      | SbComm pid tid time comm exec \<Rightarrow> if exec then m(pid := None) else m
      | _ \<Rightarrow> m)"

definition mappings_by_pid :: "perf_data \<Rightarrow> pid_maps" where
  "mappings_by_pid pd = fold map_step (pd_sideband pd) Map.empty"

definition exec_step :: "sideband_record \<Rightarrow> (nat \<rightharpoonup> nat) \<Rightarrow> nat \<rightharpoonup> nat" where
  "exec_step s m = (case s of SbComm pid tid time comm exec \<Rightarrow> if exec then m(pid \<mapsto> time) else m | _ \<Rightarrow> m)"

definition exec_times :: "perf_data \<Rightarrow> nat \<rightharpoonup> nat" where
  "exec_times pd = fold exec_step (pd_sideband pd) Map.empty"

text \<open>A file section registered with libipt: file, offset, size and address.\<close>

type_synonym img_section = "string \<times> nat \<times> nat \<times> nat"

definition mapped_section :: "archived_image list \<Rightarrow> nat \<times> nat \<times> nat \<times> string \<Rightarrow> img_section option" where
  "mapped_section images m =
     (case m of (start, len, pgoff, path) \<Rightarrow>
        (case find (\<lambda>i. img_path (ai_identity i) = path) images of
           None \<Rightarrow> None
         | Some a \<Rightarrow>
             (let n = min len (length (ai_bytes a) - pgoff)
              in if n = 0 then None else Some (ai_archive_path a, pgoff, n, start))))"

text \<open>\<open>add_file\<close> is libipt's answer to registering a section; one it refuses gets no id. The id is the
  section.\<close>

definition register_section ::
    "(img_section \<Rightarrow> bool) \<Rightarrow> archived_image list \<Rightarrow> nat \<Rightarrow> nat \<times> nat \<times> nat \<times> string \<Rightarrow>
     (nat \<times> nat \<rightharpoonup> img_section) \<Rightarrow> nat \<times> nat \<rightharpoonup> img_section" where
  "register_section add_file images pid m ids =
     (case mapped_section images m of
        None \<Rightarrow> ids
      | Some s \<Rightarrow> if add_file s then ids((pid, fst m) \<mapsto> s) else ids)"

definition fill_section_cache ::
    "(img_section \<Rightarrow> bool) \<Rightarrow> (nat \<times> (nat \<times> nat \<times> nat \<times> string) list) list \<Rightarrow> archived_image list \<Rightarrow>
     nat \<times> nat \<rightharpoonup> img_section" where
  "fill_section_cache add_file maps images =
     fold (\<lambda>(pid, ms). fold (register_section add_file images pid) ms) maps Map.empty"

text \<open>\<open>image_error\<close> is the text of the error when libipt cannot make an image for a process.\<close>

definition build_image ::
    "(nat \<Rightarrow> string option) \<Rightarrow> nat \<Rightarrow> (nat \<times> nat \<times> nat \<times> string) list \<Rightarrow> archived_image list \<Rightarrow>
     (nat \<times> nat \<rightharpoonup> img_section) \<Rightarrow> error + img_section list" where
  "build_image image_error pid maps images ids =
     (case image_error pid of
        Some e \<Rightarrow> Inl (decode_failed (''libipt image: '' @ e))
      | None \<Rightarrow>
          Inr (List.map_filter (\<lambda>m. if mapped_section images m = None then None else ids (pid, fst m)) maps))"

definition locate :: "nat \<Rightarrow> nat \<Rightarrow> pid_maps \<Rightarrow> archived_image list \<Rightarrow> (nat \<times> nat) option" where
  "locate ip pid maps images =
     (case maps pid of
        None \<Rightarrow> None
      | Some ms \<Rightarrow>
          (case find (\<lambda>(s, l, _, _). ip \<ge> s \<and> ip < sat_add64 s l) (rev ms) of
             None \<Rightarrow> None
           | Some (start, len, pgoff, path) \<Rightarrow>
               (case position (\<lambda>i. img_path (ai_identity i) = path) images of
                  None \<Rightarrow> None
                | Some ii \<Rightarrow> map_option (Pair ii) (file_offset ip start pgoff))))"

definition insn_len_at ::
    "(octets \<Rightarrow> nat \<Rightarrow> nat option) \<Rightarrow> nat \<Rightarrow> nat \<Rightarrow> pid_maps \<Rightarrow> archived_image list \<Rightarrow> nat option" where
  "insn_len_at insn_len ip pid maps images =
     (case locate ip pid maps images of
        None \<Rightarrow> None
      | Some (ii, off) \<Rightarrow>
          (let bytes = ai_bytes (images ! ii)
           in if off \<ge> length bytes then None else insn_len (take 16 (drop off bytes)) ip))"

section \<open>Dealing the pieces\<close>

fun group_blob :: "aux_blob \<Rightarrow> (nat \<times> aux_blob list) list \<Rightarrow> (nat \<times> aux_blob list) list" where
  "group_blob b [] = [(ab_cpu b, [b])]"
| "group_blob b ((c, v) # gs) = (if c = ab_cpu b then (c, v @ [b]) # gs else (c, v) # group_blob b gs)"

definition blobs_per_cpu :: "aux_blob list \<Rightarrow> (nat \<times> aux_blob list) list" where
  "blobs_per_cpu bs = fold (\<lambda>b gs. if ab_bytes b = 0 then gs else group_blob b gs) bs []"

definition tail_start :: "octets \<Rightarrow> nat \<Rightarrow> nat \<Rightarrow> nat \<Rightarrow> nat" where
  "tail_start f start stop tail_div =
     (if tail_div > 1
      then (case find (\<lambda>off. start + off \<ge> stop - (stop - start) div tail_div)
                   (psb_offsets (take (stop - start) (drop start f))) of
              None \<Rightarrow> start
            | Some off \<Rightarrow> start + off)
      else start)"

definition blob_pieces :: "octets \<Rightarrow> nat \<Rightarrow> nat \<Rightarrow> nat \<Rightarrow> aux_blob \<Rightarrow> failure + (nat \<times> aux_blob) list" where
  "blob_pieces f tail_div parts cpu b =
     (let start0 = ab_file_offset b; stop = min (sat_add64 start0 (ab_bytes b)) (length f)
      in if start0 > stop then Inl Panic
         else (let start = tail_start f start0 stop tail_div
               in Inr (map (\<lambda>(off, n). (cpu, \<lparr>ab_cpu = cpu, ab_tid = ab_tid b, ab_bytes = n,
                                              ab_file_offset = start + off\<rparr>))
                         (split_at_psb (take (stop - start) (drop start f)) parts))))"

definition work_items ::
    "octets \<Rightarrow> nat \<Rightarrow> nat \<Rightarrow> aux_blob list \<Rightarrow> failure + (nat \<times> aux_blob) list" where
  "work_items f tail_div parts bs =
     map_sum id concat (map_try (\<lambda>(cpu, b). blob_pieces f tail_div parts cpu b)
       (concat (map (\<lambda>(cpu, v). map (Pair cpu) v) (blobs_per_cpu bs))))"

definition worker_groups :: "nat \<Rightarrow> 'a list \<Rightarrow> 'a list list" where
  "worker_groups parallelism items =
     (let workers = min (max parallelism 1) (max (length items) 1)
      in filter (\<lambda>g. g \<noteq> []) (deal 0 items (replicate workers [])))"

fun chunks_of :: "nat \<Rightarrow> 'a list \<Rightarrow> 'a list list" where
  "chunks_of n [] = []"
| "chunks_of n (x # xs) = (x # take (n - 1) xs) # chunks_of n (drop (n - 1) xs)"

text \<open>The streams of a file: the batches of the sideband, and the pieces of each worker.\<close>

definition native_streams ::
    "octets \<Rightarrow> nat \<Rightarrow> nat \<Rightarrow> (failure + perf_data \<times> batch list \<times> (nat \<times> aux_blob) list list) option" where
  "native_streams f tail_div parallelism =
     map_option (\<lambda>r. try_bind r (\<lambda>pd.
       if pi_time_mult (pd_info pd) = 0
       then Inl (Err (decode_failed ''perf.data has no Intel PT AUXTRACE_INFO (not a PT capture?)''))
       else try_bind (work_items f tail_div (max parallelism 1) (pd_blobs pd)) (\<lambda>items.
              Inr (pd, chunks_of batch_size (sideband_records pd), worker_groups parallelism items))))
       (read_perf_data f)"

text \<open>\<^verbatim>\<open>mtc_period_from_spec\<close>.\<close>

definition split_spec :: "string \<Rightarrow> string list" where
  "split_spec s = concat (map (split_ch (CHR ''/'')) (split_ch (CHR '','') s))"

definition mtc_period_from_spec :: "string \<Rightarrow> nat" where
  "mtc_period_from_spec spec =
     (case List.map_filter (strip_prefix_str ''mtc_period='') (split_spec spec) of
        [] \<Rightarrow> 3
      | v # _ \<Rightarrow> (case parse_uint 10 255 v of None \<Rightarrow> 3 | Some p \<Rightarrow> p))"

end
