(* ===== verification/Native_Decode.thy ===== *)
theory Native_Decode
  imports Native_Streams
begin

text \<open>
  \<^verbatim>\<open>decode_blob\<close> of \<^verbatim>\<open>src/decode/native.rs\<close>: one trace buffer through libipt's block decoder. The decoder is
  a state of any type with the operations of \<open>decoder_ops\<close>; blocks become branch samples, events become
  trace boundaries, interrupts and losses, the running task follows the schedule, and every batch is
  stamped so that times do not run backwards. Loops whose end is up to the decoder are partial
  functions. The diagnostics printed for debugging are left out.
\<close>

section \<open>The decoder's interface\<close>

datatype pt_code = PtEos | PtNomap | PtEventIgnored | PtOther

type_synonym pt_error = "pt_code \<times> string"

record pt_status =
  st_event_pending :: bool
  st_eos :: bool

record pt_block =
  b_ip :: nat
  b_end :: nat
  b_ninsn :: nat
  b_iclass :: nat
  b_size :: nat

datatype ev_kind =
    EvEnabled nat | EvDisabled nat | EvAsyncDisabled nat | EvAsyncBranch nat nat | EvOverflow | EvOther

record decoder_event =
  ev_kind :: ev_kind
  ev_tsc :: "nat option"
  ev_ip_suppressed :: bool

record 'd decoder_ops =
  op_sync_forward :: "'d \<Rightarrow> pt_error option \<times> 'd"
  op_sync_offset :: "'d \<Rightarrow> nat option"
  op_set_sync :: "nat \<Rightarrow> 'd \<Rightarrow> pt_error option \<times> 'd"
  op_next :: "'d \<Rightarrow> (pt_error + pt_block \<times> pt_status) \<times> 'd"
  op_event :: "'d \<Rightarrow> (pt_error + decoder_event \<times> pt_status) \<times> 'd"
  op_time :: "'d \<Rightarrow> nat option"
  op_offset :: "'d \<Rightarrow> nat option"
  op_resync :: "'d \<Rightarrow> (pt_error + pt_status) \<times> 'd"
  op_set_image :: "img_section list \<Rightarrow> 'd \<Rightarrow> 'd"

section \<open>Classes of blocks\<close>

datatype native_class =
    NcUnknown | NcOther | NcCall | NcReturn | NcJump | NcCondJump | NcFarCall | NcFarReturn | NcFarJump
  | NcPtwrite | NcIndirect

definition block_class :: "pt_block \<Rightarrow> native_class" where
  "block_class b =
     (if b_iclass b = 1 then NcOther else if b_iclass b = 2 then NcCall else if b_iclass b = 3 then NcReturn
      else if b_iclass b = 4 then NcJump else if b_iclass b = 5 then NcCondJump
      else if b_iclass b = 6 then NcFarCall else if b_iclass b = 7 then NcFarReturn
      else if b_iclass b = 8 then NcFarJump else if b_iclass b = 9 then NcPtwrite
      else if b_iclass b = 10 then NcIndirect else NcUnknown)"

fun class_flags :: "native_class \<Rightarrow> flags" where
  "class_flags NcCall = F_CALL"
| "class_flags NcReturn = F_RETURN"
| "class_flags NcCondJump = F_JCC"
| "class_flags NcJump = F_JMP"
| "class_flags NcFarCall = F_SYSCALL"
| "class_flags NcFarReturn = F_SYSRET"
| "class_flags NcFarJump = F_JMP"
| "class_flags NcIndirect = F_JMP"
| "class_flags _ = F_JMP"

section \<open>State\<close>

text \<open>What a blob is decoded with; \<open>ne_image_error pid\<close> is libipt's error when it cannot make an image of a
  process, \<open>ne_accepts k\<close> tells whether the consumer is still there for batch \<open>k\<close>.\<close>

record native_env =
  ne_cpu :: nat
  ne_info :: intel_pt_info
  ne_schedule :: schedule
  ne_maps :: pid_maps
  ne_images :: "archived_image list"
  ne_instructions :: "(nat \<times> nat \<times> nat \<times> nat) option"
  ne_wanted :: "nat set option"
  ne_execs :: "nat \<rightharpoonup> nat"
  ne_sections :: "nat \<times> nat \<rightharpoonup> img_section"
  ne_insn_len :: "octets \<Rightarrow> nat \<Rightarrow> nat option"
  ne_image_error :: "nat \<Rightarrow> string option"
  ne_accepts :: "nat \<Rightarrow> bool"

record prev_block =
  pv_end :: nat
  pv_class :: native_class
  pv_time :: "nat option"
  pv_size :: nat

record 'd native_state =
  nd_dec :: 'd
  nd_batch :: batch
  nd_sent :: "batch list"
  nd_emitted :: nat
  nd_idx :: nat
  nd_pid :: nat
  nd_tid :: nat
  nd_image_for :: nat
  nd_image_cache :: "nat \<rightharpoonup> img_section list"
  nd_foreign_keys :: "nat set"
  nd_foreign :: bool
  nd_last_branch :: "nat option"
  nd_prev :: "prev_block option"
  nd_last_time :: "nat option"
  nd_stuck_off :: nat
  nd_stuck_rounds :: nat
  nd_len_cache :: "nat \<times> nat \<rightharpoonup> nat"
  nd_blocks :: nat
  nd_last_resync :: nat
  nd_mono :: nat
  nd_plan :: "nat list option"

definition native_init :: "batch list \<Rightarrow> nat list option \<Rightarrow> 'd \<Rightarrow> 'd native_state" where
  "native_init sent plan d =
     \<lparr>nd_dec = d, nd_batch = [], nd_sent = sent, nd_emitted = 0, nd_idx = 0, nd_pid = u32_max, nd_tid = 0,
      nd_image_for = u32_max, nd_image_cache = Map.empty, nd_foreign_keys = {}, nd_foreign = False,
      nd_last_branch = None, nd_prev = None, nd_last_time = None, nd_stuck_off = u64_max, nd_stuck_rounds = 0,
      nd_len_cache = Map.empty, nd_blocks = 0, nd_last_resync = u64_max, nd_mono = 0, nd_plan = plan\<rparr>"

definition push_tagged :: "tagged list \<Rightarrow> 'd native_state \<Rightarrow> 'd native_state" where
  "push_tagged ts st = st\<lparr>nd_batch := nd_batch st @ ts\<rparr>"

section \<open>Flushing a batch\<close>

fun stamp :: "nat \<Rightarrow> raw_record \<Rightarrow> raw_record" where
  "stamp t (RSample s) = RSample (s\<lparr>s_time := Some t\<rparr>)"
| "stamp t (RDecoderError e) = RDecoderError (e\<lparr>de_time := Some t\<rparr>)"
| "stamp t (RLost l) = RLost (l\<lparr>l_time := Some t\<rparr>)"
| "stamp t r = r"

fun clamp_batch :: "nat \<Rightarrow> batch \<Rightarrow> nat \<times> batch" where
  "clamp_batch least [] = (least, [])"
| "clamp_batch least ((None, r) # b) = (case clamp_batch least b of (m, b') \<Rightarrow> (m, (None, r) # b'))"
| "clamp_batch least ((Some v, r) # b) =
     (let c = max v least in case clamp_batch c b of (m, b') \<Rightarrow> (m, (Some c, stamp c r) # b'))"

definition flush_batch :: "native_env \<Rightarrow> 'd native_state \<Rightarrow> error + 'd native_state" where
  "flush_batch en st =
     (if nd_batch st = [] then Inr st
      else if \<not> ne_accepts en (length (nd_sent st)) then Inl (cancelled_error ''native decode consumer stopped'')
      else (case clamp_batch (nd_mono st) (nd_batch st) of
              (m, full) \<Rightarrow> Inr (st\<lparr>nd_batch := [], nd_sent := nd_sent st @ [full], nd_mono := m\<rparr>)))"

section \<open>Times and tasks\<close>

definition known_time :: "native_env \<Rightarrow> 'd decoder_ops \<Rightarrow> 'd \<Rightarrow> nat option" where
  "known_time en ops d =
     (case op_time ops d of
        None \<Rightarrow> None
      | Some tsc \<Rightarrow> if tsc = u64_max then None else Some (tsc_to_ns (ne_info en) tsc))"

definition raw_time :: "native_env \<Rightarrow> 'd decoder_ops \<Rightarrow> 'd \<Rightarrow> nat option" where
  "raw_time en ops d = map_option (tsc_to_ns (ne_info en)) (op_time ops d)"

function advance :: "schedule \<Rightarrow> nat \<Rightarrow> nat \<Rightarrow> nat" where
  "advance sched idx t =
     (if idx + 1 < length sched \<and> fst (sched ! (idx + 1)) \<le> t then advance sched (idx + 1) t else idx)"
  by pat_completeness auto
termination by (relation "measure (\<lambda>(sched, idx, _). length sched - idx)") auto

declare advance.simps [simp del]

definition run_task :: "native_env \<Rightarrow> nat option \<Rightarrow> 'd native_state \<Rightarrow> 'd native_state" where
  "run_task en time st =
     (case time of
        None \<Rightarrow> st
      | Some t \<Rightarrow>
          (let i = advance (ne_schedule en) (nd_idx st) t
           in if i < length (ne_schedule en) \<and> fst (ne_schedule en ! i) \<le> t
              then (case ne_schedule en ! i of (_, pid, tid) \<Rightarrow> st\<lparr>nd_idx := i, nd_pid := pid, nd_tid := tid\<rparr>)
              else st\<lparr>nd_idx := i\<rparr>))"

definition branch_sample :: "native_env \<Rightarrow> 'd native_state \<Rightarrow> nat option \<Rightarrow> nat \<Rightarrow> nat \<Rightarrow> flags \<Rightarrow> tagged" where
  "branch_sample en st time ip addr fl =
     (time, RSample \<lparr>s_pid = nd_pid st, s_tid = nd_tid st, s_cpu = Some (ne_cpu en), s_time = time,
                     s_event = Branches, s_ip = Some ip, s_addr = Some addr, s_flags = fl,
                     s_insn_len = None, s_insn = []\<rparr>)"

definition error_record ::
    "native_env \<Rightarrow> 'd native_state \<Rightarrow> nat option \<Rightarrow> nat option \<Rightarrow> nat \<Rightarrow> string \<Rightarrow> tagged" where
  "error_record en st time ip code msg =
     (time, RDecoderError \<lparr>de_time = time, de_cpu = Some (ne_cpu en),
                           de_pid = (if nd_pid st = u32_max then None else Some (nd_pid st)),
                           de_tid = Some (nd_tid st), de_ip = ip, de_code = Some code, de_message = msg\<rparr>)"

section \<open>The branch that ended a block\<close>

text \<open>The length of the last instruction, remembered per task and address.\<close>

definition last_len :: "native_env \<Rightarrow> prev_block \<Rightarrow> 'd native_state \<Rightarrow> nat \<times> 'd native_state" where
  "last_len en p st =
     (if pv_size p \<noteq> 0 then (pv_size p, st)
      else (case nd_len_cache st (nd_pid st, pv_end p) of
              Some n \<Rightarrow> (n, st)
            | None \<Rightarrow>
                (let n = (case insn_len_at (ne_insn_len en) (pv_end p) (nd_pid st) (ne_maps en) (ne_images en) of
                            None \<Rightarrow> 0 | Some n \<Rightarrow> n)
                 in (n, st\<lparr>nd_len_cache := (nd_len_cache st)((nd_pid st, pv_end p) \<mapsto> n)\<rparr>))))"

definition branch_taken ::
    "native_env \<Rightarrow> native_class set \<Rightarrow> prev_block \<Rightarrow> nat \<Rightarrow> 'd native_state \<Rightarrow> bool \<times> 'd native_state" where
  "branch_taken en silent p target st =
     (if pv_class p = NcCondJump
      then (case last_len en p st of (n, st') \<Rightarrow> (n = 0 \<or> target \<noteq> wadd (pv_end p) n, st'))
      else (pv_class p \<notin> silent, st))"

definition push_branch :: "native_env \<Rightarrow> prev_block \<Rightarrow> nat \<Rightarrow> flags \<Rightarrow> 'd native_state \<Rightarrow> 'd native_state" where
  "push_branch en p target extra st =
     (push_tagged [branch_sample en st (pv_time p) (pv_end p) target (flags_union (class_flags (pv_class p)) extra)] st)
       \<lparr>nd_emitted := nd_emitted st + 1\<rparr>"

text \<open>The closure \<^verbatim>\<open>pending_branch\<close>: a far call is left to the event.\<close>

definition pending_branch ::
    "native_env \<Rightarrow> nat \<Rightarrow> flags \<Rightarrow> 'd native_state \<Rightarrow> bool \<times> 'd native_state" where
  "pending_branch en target extra st =
     (case nd_prev st of
        None \<Rightarrow> (False, st)
      | Some p \<Rightarrow>
          (case branch_taken en {NcUnknown, NcOther, NcPtwrite, NcFarCall} p target st of
             (taken, st') \<Rightarrow> (taken, if taken then push_branch en p target extra st' else st')))"

text \<open>The previous block's branch when the next block with instructions arrives.\<close>

definition block_branch :: "native_env \<Rightarrow> pt_block \<Rightarrow> 'd native_state \<Rightarrow> 'd native_state" where
  "block_branch en b st =
     (case nd_prev st of
        None \<Rightarrow> st
      | Some p \<Rightarrow>
          if b_ninsn b = 0 then st
          else (case branch_taken en {NcUnknown, NcOther, NcPtwrite} p (b_ip b) st of
                  (taken, st') \<Rightarrow>
                    if taken
                    then (let st'' = push_branch en p (b_ip b) 0 st'
                          in st''\<lparr>nd_last_branch := Some (length (nd_batch st'') - 1)\<rparr>)
                    else st'))"

section \<open>Instructions of a block\<close>

fun emit_loop ::
    "native_env \<Rightarrow> nat \<Rightarrow> nat \<Rightarrow> nat option \<Rightarrow> octets \<Rightarrow> nat \<Rightarrow> nat \<Rightarrow> nat \<Rightarrow> nat \<Rightarrow> tagged list" where
  "emit_loop en pid tid time bytes pos ip stop 0 = []"
| "emit_loop en pid tid time bytes pos ip stop (Suc n) =
     (if pos \<ge> length bytes then []
      else (case ne_insn_len en (drop pos bytes) ip of
              None \<Rightarrow> []
            | Some len \<Rightarrow>
                (time, RSample \<lparr>s_pid = pid, s_tid = tid, s_cpu = Some (ne_cpu en), s_time = time,
                               s_event = InstructionsEvent, s_ip = Some ip, s_addr = Some 0, s_flags = 0,
                               s_insn_len = Some len, s_insn = take 15 (take len (drop pos bytes))\<rparr>)
                # (if ip = stop then []
                   else emit_loop en pid tid time bytes (pos + len) (wadd ip len) stop n)))"

definition emit_instructions :: "native_env \<Rightarrow> pt_block \<Rightarrow> nat option \<Rightarrow> 'd native_state \<Rightarrow> 'd native_state" where
  "emit_instructions en b time st =
     (case locate (b_ip b) (nd_pid st) (ne_maps en) (ne_images en) of
        None \<Rightarrow> st
      | Some (ii, off) \<Rightarrow>
          push_tagged (emit_loop en (nd_pid st) (nd_tid st) time (ai_bytes (ne_images en ! ii)) off (b_ip b) (b_end b)
            (b_ninsn b)) st)"

definition detail :: "native_env \<Rightarrow> pt_block \<Rightarrow> nat option \<Rightarrow> 'd native_state \<Rightarrow> 'd native_state" where
  "detail en b time st =
     (case (ne_instructions en, time) of
        (Some (spid, stid, lo, hi), Some t) \<Rightarrow>
          if nd_pid st = spid \<and> nd_tid st = stid \<and> t \<ge> lo \<and> t < hi then emit_instructions en b time st else st
      | _ \<Rightarrow> st)"

section \<open>Events\<close>

text \<open>A trace that stops without an address after a direct branch: the branch already recorded for this
  block is where it ended.\<close>

definition folded_branch :: "pt_block \<Rightarrow> 'd native_state \<Rightarrow> (nat \<times> nat option \<times> sample) option" where
  "folded_branch b st =
     (case nd_last_branch st of
        None \<Rightarrow> None
      | Some i \<Rightarrow>
          if b_ninsn b = 0 \<or> block_class b \<in> {NcFarCall, NcFarReturn, NcFarJump} \<or> i \<ge> length (nd_batch st) then None
          else (case nd_batch st ! i of
                  (t, RSample sm) \<Rightarrow> if s_addr sm = Some (b_ip b) then Some (i, t, sm) else None
                | _ \<Rightarrow> None))"

definition fold_branch :: "nat \<times> nat option \<times> sample \<Rightarrow> 'd native_state \<Rightarrow> 'd native_state" where
  "fold_branch f st =
     (case f of (i, t, sm) \<Rightarrow>
        st\<lparr>nd_batch := (nd_batch st)[i := (t, RSample (sm\<lparr>s_flags := flags_union (s_flags sm) F_TR_END\<rparr>))],
           nd_last_branch := None, nd_prev := None\<rparr>)"

definition trace_end_sample :: "native_env \<Rightarrow> nat option \<Rightarrow> bool \<Rightarrow> nat \<Rightarrow> 'd native_state \<Rightarrow> 'd native_state" where
  "trace_end_sample en time suppressed ip st =
     (let cls = (case nd_prev st of None \<Rightarrow> NcUnknown | Some p \<Rightarrow> pv_class p);
          at = (if suppressed then (case nd_prev st of None \<Rightarrow> 0 | Some p \<Rightarrow> pv_end p) else ip)
      in (push_tagged [branch_sample en st time at 0
            (flags_union F_TR_END (if cls = NcFarCall then F_SYSCALL else 0))] st)\<lparr>nd_prev := None\<rparr>)"

definition on_disabled ::
    "native_env \<Rightarrow> pt_block \<Rightarrow> nat option \<Rightarrow> bool \<Rightarrow> nat \<Rightarrow> 'd native_state \<Rightarrow> 'd native_state" where
  "on_disabled en b time suppressed ip st =
     (case (if suppressed then folded_branch b st else None) of
        Some f \<Rightarrow> fold_branch f st
      | None \<Rightarrow>
          (case (if suppressed then (False, st) else pending_branch en ip F_TR_END st) of
             (merged, st') \<Rightarrow>
               if merged then st'\<lparr>nd_prev := None\<rparr> else trace_end_sample en time suppressed ip st'))"

definition handle_event ::
    "native_env \<Rightarrow> pt_block \<Rightarrow> decoder_event \<Rightarrow> 'd native_state \<Rightarrow> 'd native_state" where
  "handle_event en b ev st0 =
     (let time = (case ev_tsc ev of None \<Rightarrow> nd_last_time st0 | Some tsc \<Rightarrow> Some (tsc_to_ns (ne_info en) tsc));
          st = run_task en time st0;
          sample = (\<lambda>ip addr fl st. push_tagged [branch_sample en st time ip addr fl] st)
      in case ev_kind ev of
           EvEnabled ip \<Rightarrow> (sample 0 ip (flags_union F_TR_START F_JMP) st)\<lparr>nd_prev := None\<rparr>
         | EvDisabled ip \<Rightarrow> on_disabled en b time (ev_ip_suppressed ev) ip st
         | EvAsyncDisabled at \<Rightarrow>
             (sample at 0 (flags_union F_TR_END F_ASYNC) (snd (pending_branch en at 0 st)))\<lparr>nd_prev := None\<rparr>
         | EvAsyncBranch from to \<Rightarrow> (sample from to F_HW_INT st)\<lparr>nd_prev := None\<rparr>
         | EvOverflow \<Rightarrow>
             (push_tagged [(time, RLost \<lparr>l_time = time, l_cpu = Some (ne_cpu en), l_lost = 1\<rparr>)] st)
               \<lparr>nd_prev := None\<rparr>
         | EvOther \<Rightarrow> st)"

partial_function (option) event_loop ::
    "native_env \<Rightarrow> 'd decoder_ops \<Rightarrow> pt_block \<Rightarrow> pt_status \<Rightarrow> 'd native_state \<Rightarrow> (pt_status \<times> 'd native_state) option" where
  "event_loop en ops b status st =
     (if \<not> st_event_pending status then Some (status, st)
      else (case op_event ops (nd_dec st) of
              (Inl _, d) \<Rightarrow> Some (status, st\<lparr>nd_dec := d\<rparr>)
            | (Inr (ev, status'), d) \<Rightarrow> event_loop en ops b status' (handle_event en b ev (st\<lparr>nd_dec := d\<rparr>))))"

text \<open>Events that are only drained.\<close>

partial_function (option) drain :: "'d decoder_ops \<Rightarrow> pt_status \<Rightarrow> 'd \<Rightarrow> 'd option" where
  "drain ops status d =
     (if \<not> st_event_pending status then Some d
      else (case op_event ops d of
              (Inl _, d') \<Rightarrow> Some d'
            | (Inr (_, status'), d') \<Rightarrow> drain ops status' d'))"

section \<open>Images\<close>

definition image_key :: "native_env \<Rightarrow> nat option \<Rightarrow> 'd native_state \<Rightarrow> bool \<times> nat" where
  "image_key en time st =
     (let pre = (case (ne_execs en (nd_pid st), time) of (Some t, Some now) \<Rightarrow> now < t | _ \<Rightarrow> False)
      in (pre, if pre then nd_pid st OR 2 ^ 31 else nd_pid st))"

definition task_maps :: "native_env \<Rightarrow> nat \<Rightarrow> (nat \<times> nat \<times> nat \<times> string) list" where
  "task_maps en pid = (case ne_maps en pid of None \<Rightarrow> [] | Some ms \<Rightarrow> ms)"

definition is_foreign :: "native_env \<Rightarrow> bool \<Rightarrow> nat \<Rightarrow> bool" where
  "is_foreign en pre pid \<longleftrightarrow>
     pre \<or> (case ne_wanted en of None \<Rightarrow> False | Some w \<Rightarrow> pid \<notin> w) \<or>
     (case task_maps en pid of
        [] \<Rightarrow> False
      | (_, _, _, path) # _ \<Rightarrow> \<not> (\<exists>i\<in>set (ne_images en). img_path (ai_identity i) = path))"

text \<open>The cached image of a key, built when there is none.\<close>

definition cached_image ::
    "native_env \<Rightarrow> bool \<Rightarrow> nat \<Rightarrow> 'd native_state \<Rightarrow> error + img_section list \<times> 'd native_state" where
  "cached_image en pre key st =
     (case nd_image_cache st key of
        Some img \<Rightarrow> Inr (img, st)
      | None \<Rightarrow>
          (let foreign = is_foreign en pre (nd_pid st);
               maps = (if foreign then [] else task_maps en (nd_pid st))
           in try_bind (build_image (ne_image_error en) (nd_pid st) maps (ne_images en) (ne_sections en)) (\<lambda>img.
                Inr (img, st\<lparr>nd_image_cache := (nd_image_cache st)(key \<mapsto> img),
                             nd_foreign_keys :=
                               (if foreign then insert key (nd_foreign_keys st) else nd_foreign_keys st)\<rparr>))))"

definition select_image ::
    "native_env \<Rightarrow> 'd decoder_ops \<Rightarrow> nat option \<Rightarrow> 'd native_state \<Rightarrow> error + 'd native_state" where
  "select_image en ops time st =
     (case image_key en time st of (pre, key) \<Rightarrow>
        if key = nd_image_for st \<or> nd_pid st = u32_max then Inr st
        else try_bind (cached_image en pre key st) (\<lambda>(img, st1).
               Inr (st1\<lparr>nd_dec := op_set_image ops img (nd_dec st1),
                        nd_image_for := key, nd_foreign := (key \<in> nd_foreign_keys st1)\<rparr>)))"

section \<open>Errors and resynchronisation\<close>

fun resync_loop ::
    "'d decoder_ops \<Rightarrow> nat \<Rightarrow> nat \<Rightarrow> nat \<Rightarrow> 'd native_state \<Rightarrow> (bool \<times> 'd native_state) option" where
  "resync_loop ops err_off stalled 0 st = Some (False, st)"
| "resync_loop ops err_off stalled (Suc n) st =
     (case op_resync ops (nd_dec st) of
        (Inr status, d) \<Rightarrow>
          (let now = (case op_offset ops d of None \<Rightarrow> u64_max | Some v \<Rightarrow> v)
           in if now = nd_last_resync st \<and> now \<le> err_off
              then if stalled + 1 > 8 then Some (False, st\<lparr>nd_dec := d\<rparr>)
                   else Option.bind (drain ops status d) (\<lambda>d'. resync_loop ops err_off (stalled + 1) n (st\<lparr>nd_dec := d'\<rparr>))
              else Some (True, st\<lparr>nd_dec := d, nd_last_resync := now\<rparr>))
      | (Inl (code, _), d) \<Rightarrow>
          if code = PtEventIgnored
          then (case op_event ops d of
                  (Inl _, d') \<Rightarrow> Some (False, st\<lparr>nd_dec := d'\<rparr>)
                | (Inr _, d') \<Rightarrow> resync_loop ops err_off stalled n (st\<lparr>nd_dec := d'\<rparr>))
          else Some (False, st\<lparr>nd_dec := d\<rparr>))"

text \<open>The result tells whether decoding goes on in this region.\<close>

definition on_decode_error ::
    "native_env \<Rightarrow> 'd decoder_ops \<Rightarrow> pt_error \<Rightarrow> 'd native_state \<Rightarrow> (bool \<times> 'd native_state) option" where
  "on_decode_error en ops e st =
     (if fst e = PtEos then Some (False, st)
      else
        (let t = raw_time en ops (nd_dec st);
             st1 = (if nd_foreign st then st
                    else push_tagged [error_record en st t (map_option pv_end (nd_prev st))
                           (if fst e = PtNomap then 5 else 6) (''libipt: '' @ snd e)] st)
         in resync_loop ops (case op_offset ops (nd_dec st) of None \<Rightarrow> u64_max | Some v \<Rightarrow> v) 0 1024
              (st1\<lparr>nd_prev := None\<rparr>)))"

section \<open>One block\<close>

text \<open>Every 65536 blocks: has the decoder consumed a packet since? Eight times not is a loop.\<close>

definition loop_guard ::
    "native_env \<Rightarrow> 'd decoder_ops \<Rightarrow> pt_block \<Rightarrow> 'd native_state \<Rightarrow> bool \<times> 'd native_state" where
  "loop_guard en ops b st0 =
     (let st = st0\<lparr>nd_blocks := nd_blocks st0 + 1\<rparr>
      in if nd_blocks st mod 65536 \<noteq> 0 then (False, st)
         else
           (let off = (case op_offset ops (nd_dec st) of None \<Rightarrow> u64_max | Some v \<Rightarrow> v);
                st1 = (if off = nd_stuck_off st then st\<lparr>nd_stuck_rounds := nd_stuck_rounds st + 1\<rparr>
                       else st\<lparr>nd_stuck_off := off, nd_stuck_rounds := 0\<rparr>)
            in if nd_stuck_rounds st1 \<ge> 8
               then (True, (push_tagged [error_record en st1 (raw_time en ops (nd_dec st1)) (Some (b_ip b)) 6
                      (''never-ending loop at 0x'' @ show_hex (b_ip b) @ '' (no packet consumed)'')] st1)
                        \<lparr>nd_prev := None, nd_stuck_rounds := 0\<rparr>)
               else (False, st1)))"

datatype 'd after_block = Resume "'d native_state" | NextSync "'d native_state"

text \<open>After the events: the task of the next block, its image, a full batch, and the end of the region.\<close>

definition finish_block ::
    "native_env \<Rightarrow> 'd decoder_ops \<Rightarrow> pt_status \<Rightarrow> 'd native_state \<Rightarrow> error + 'd after_block" where
  "finish_block en ops status st0 =
     (let time = (case known_time en ops (nd_dec st0) of None \<Rightarrow> nd_last_time st0 | Some t \<Rightarrow> Some t)
      in try_bind (select_image en ops time (run_task en time st0)) (\<lambda>st1.
         try_bind (if length (nd_batch st1) \<ge> 2048
                   then try_bind (flush_batch en st1) (\<lambda>st. Inr (st\<lparr>nd_last_branch := None\<rparr>))
                   else Inr st1) (\<lambda>st.
           Inr (if st_eos status then NextSync st
                else (case (nd_plan st, ne_instructions en, time) of
                        (Some _, Some (_, _, _, hi), Some t) \<Rightarrow>
                          if t > hi then NextSync (st\<lparr>nd_plan := Some []\<rparr>) else Resume st
                      | _ \<Rightarrow> Resume st)))))"

definition on_block ::
    "native_env \<Rightarrow> 'd decoder_ops \<Rightarrow> pt_block \<Rightarrow> pt_status \<Rightarrow> 'd native_state \<Rightarrow> (error + 'd after_block) option" where
  "on_block en ops b status st0 =
     (let now = known_time en ops (nd_dec st0);
          time = (case now of None \<Rightarrow> nd_last_time st0 | Some t \<Rightarrow> Some t)
      in case loop_guard en ops b (st0\<lparr>nd_last_time := time\<rparr>) of
           (True, st) \<Rightarrow> Some (Inr (NextSync st))
         | (False, st) \<Rightarrow>
             (let st1 = detail en b time (block_branch en b st);
                  st2 = (if b_ninsn b > 0
                         then st1\<lparr>nd_prev := Some \<lparr>pv_end = b_end b, pv_class = block_class b, pv_time = time,
                                                     pv_size = b_size b\<rparr>\<rparr>
                         else st1)
              in Option.bind (event_loop en ops b status st2) (\<lambda>(status', st3).
                   Some (finish_block en ops status' st3))))"

definition decode_step ::
    "native_env \<Rightarrow> 'd decoder_ops \<Rightarrow> 'd native_state \<Rightarrow> (error + 'd after_block) option" where
  "decode_step en ops st =
     (case op_next ops (nd_dec st) of
        (Inl e, d) \<Rightarrow>
          Option.bind (on_decode_error en ops e (st\<lparr>nd_dec := d\<rparr>)) (\<lambda>(again, st').
            Some (Inr (if again then Resume st' else NextSync st')))
      | (Inr (b, status), d) \<Rightarrow> on_block en ops b status (st\<lparr>nd_dec := d\<rparr>))"

section \<open>Regions\<close>

text \<open>The next region: the next PSB, or the next one planned; \<open>None\<close> is the end of the buffer.\<close>

definition after_sync ::
    "native_env \<Rightarrow> pt_error option \<times> 'd \<Rightarrow> 'd native_state \<Rightarrow> bool \<times> 'd native_state" where
  "after_sync en r st =
     (case r of
        (None, d) \<Rightarrow> (True, st\<lparr>nd_dec := d\<rparr>)
      | (Some (code, msg), d) \<Rightarrow>
          if code = PtEos then (False, st\<lparr>nd_dec := d\<rparr>)
          else (False, push_tagged [error_record en st None None 1 (''libipt sync: '' @ msg)] (st\<lparr>nd_dec := d\<rparr>)))"

definition sync_step :: "native_env \<Rightarrow> 'd decoder_ops \<Rightarrow> 'd native_state \<Rightarrow> bool \<times> 'd native_state" where
  "sync_step en ops st =
     (case nd_plan st of
        None \<Rightarrow> after_sync en (op_sync_forward ops (nd_dec st)) st
      | Some [] \<Rightarrow> (False, st)
      | Some (off # q) \<Rightarrow> after_sync en (op_set_sync ops off (nd_dec st)) (st\<lparr>nd_plan := Some q\<rparr>))"

partial_function (option) decode_loop ::
    "native_env \<Rightarrow> 'd decoder_ops \<Rightarrow> bool \<Rightarrow> 'd native_state \<Rightarrow> (error + 'd native_state) option" where
  "decode_loop en ops synced st =
     (if synced
      then Option.bind (decode_step en ops st) (\<lambda>r.
             case r of
               Inl e \<Rightarrow> Some (Inl e)
             | Inr (Resume st') \<Rightarrow> decode_loop en ops True st'
             | Inr (NextSync st') \<Rightarrow> decode_loop en ops False st')
      else (case sync_step en ops st of
              (found, st') \<Rightarrow> if found then decode_loop en ops True st' else Some (Inr st')))"

text \<open>The index of the PSBs for an instruction window, and the regions that overlap it.\<close>

partial_function (option) index_loop ::
    "native_env \<Rightarrow> 'd decoder_ops \<Rightarrow> 'd \<Rightarrow> (nat \<times> nat) list \<Rightarrow> ((nat \<times> nat) list \<times> 'd) option" where
  "index_loop en ops d index =
     (case op_sync_forward ops d of
        (Some _, d1) \<Rightarrow> Some (index, d1)
      | (None, d1) \<Rightarrow>
          (let off = (case op_sync_offset ops d1 of None \<Rightarrow> 0 | Some v \<Rightarrow> v)
           in case op_next ops d1 of
                (Inl _, d2) \<Rightarrow> index_loop en ops d2 (index @ [(off, 0)])
              | (Inr (_, status), d2) \<Rightarrow>
                  Option.bind (drain ops status d2) (\<lambda>d3.
                    index_loop en ops d3 (index @ [(off, case known_time en ops d3 of None \<Rightarrow> 0 | Some t \<Rightarrow> t)]))))"

fun plan_offsets :: "nat \<Rightarrow> nat \<Rightarrow> (nat \<times> nat) list \<Rightarrow> nat list" where
  "plan_offsets lo hi [] = []"
| "plan_offsets lo hi ((off, t0) # rest) =
     (let t1 = (case rest of [] \<Rightarrow> u64_max | (_, t) # _ \<Rightarrow> t)
      in (if t1 > lo \<and> t0 \<le> hi then [off] else []) @ plan_offsets lo hi rest)"

definition decode_plan ::
    "native_env \<Rightarrow> 'd decoder_ops \<Rightarrow> 'd \<Rightarrow> (nat list option \<times> 'd) option" where
  "decode_plan en ops d =
     (case ne_instructions en of
        None \<Rightarrow> Some (None, d)
      | Some (_, _, lo, hi) \<Rightarrow>
          Option.bind (index_loop en ops d []) (\<lambda>(index, d'). Some (Some (plan_offsets lo hi index), d')))"

text \<open>\<open>sent\<close> are the batches the worker has sent for earlier pieces.\<close>

definition decode_blob ::
    "native_env \<Rightarrow> 'd decoder_ops \<Rightarrow> batch list \<Rightarrow> 'd \<Rightarrow> (error + nat \<times> batch list) option" where
  "decode_blob en ops sent d0 =
     Option.bind (decode_plan en ops d0) (\<lambda>(plan, d).
     Option.bind (decode_loop en ops False (native_init sent plan d)) (\<lambda>r.
       Some (try_bind r (\<lambda>st. try_bind (flush_batch en st) (\<lambda>st'. Inr (nd_emitted st', nd_sent st'))))))"

text \<open>A worker decodes its pieces one after another into its stream; \<open>start\<close> builds a decoder on a buffer.\<close>

fun worker_run ::
    "(nat \<Rightarrow> native_env) \<Rightarrow> 'd decoder_ops \<Rightarrow> (octets \<Rightarrow> error + 'd) \<Rightarrow> octets \<Rightarrow> (nat \<times> aux_blob) list \<Rightarrow>
     nat \<Rightarrow> batch list \<Rightarrow> (error + nat \<times> batch list) option" where
  "worker_run env ops start f [] acc sent = Some (Inr (acc, sent))"
| "worker_run env ops start f ((cpu, b) # items) acc sent =
     (let lo = ab_file_offset b; hi = min (sat_add64 lo (ab_bytes b)) (length f)
      in case start (take (hi - lo) (drop lo f)) of
           Inl e \<Rightarrow> Some (Inl e)
         | Inr d \<Rightarrow>
             Option.bind (decode_blob (env cpu) ops sent d) (\<lambda>r.
               case r of
                 Inl e \<Rightarrow> Some (Inl e)
               | Inr (n, sent') \<Rightarrow> worker_run env ops start f items (acc + n) sent'))"

end
