(* ===== verification/Native_Returns.thy ===== *)
theory Native_Returns
  imports Native_Decode
begin

text \<open>
  A piece of trace is decoded in finitely many steps, although libipt can produce blocks without end from a
  jump to itself and although resynchronising can take it back to the start of the region it is in.
\<close>

section \<open>What libipt's block decoder does on a finite buffer\<close>

text \<open>
  The parts of a decoder's state the end of the loop depends on, as \<^verbatim>\<open>libipt/src\<close> has them: \<open>v_sync\<close> that it has been
  synchronised (before that \<^verbatim>\<open>pt_pkt_get_offset\<close> has no position), \<open>v_psb\<close> the PSB it read last
  (\<^verbatim>\<open>decoder->sync\<close>), \<open>v_pos\<close> its packet position, \<open>v_pend\<close> the number of events still to be reported, and
  \<open>v_head\<close> that the event to report next is a status update, which only the header behind a PSB queues.
  \<open>v_home p\<close> is the position after synchronising at the PSB \<open>p\<close>.
\<close>

record 'd decoder_view =
  v_sync :: "'d \<Rightarrow> bool"
  v_psb :: "'d \<Rightarrow> nat"
  v_pos :: "'d \<Rightarrow> nat"
  v_head :: "'d \<Rightarrow> bool"
  v_home :: "nat \<Rightarrow> nat"
  v_pend :: "'d \<Rightarrow> nat"

text \<open>Reading on: past a further PSB, or in the same region to no earlier packet.\<close>

definition goes_on :: "'d decoder_view \<Rightarrow> 'd \<Rightarrow> 'd \<Rightarrow> bool" where
  "goes_on v d d' \<longleftrightarrow>
     v_psb v d < v_psb v d' \<or>
     v_psb v d' = v_psb v d \<and> (v_head v d' \<longrightarrow> v_head v d) \<and> v_pos v d \<le> v_pos v d'"

text \<open>
  What libipt's functions do: \<^verbatim>\<open>pt_pkt_sync_forward\<close> finds a PSB behind the last one; \<^verbatim>\<open>pt_blk_next\<close>,
  \<^verbatim>\<open>pt_blk_event\<close> and \<^verbatim>\<open>pt_blk_set_image\<close> read on, and a reported event is not reported again; \<^verbatim>\<open>pt_blk_resync\<close>
  goes back to the current PSB (\<^verbatim>\<open>pt_blk_resync_at_sync\<close>) when a status update is pending and reads on
  otherwise. A block need not consume a packet, resynchronising may go back any distance to the PSB, and of a
  decoder that is not synchronised nothing is known.
\<close>

definition decoder_contract :: "'d decoder_ops \<Rightarrow> 'd decoder_view \<Rightarrow> nat \<Rightarrow> bool" where
  "decoder_contract ops v n \<longleftrightarrow>
     n \<le> u64_max \<and>
     (\<forall>d. v_sync v d \<longrightarrow> op_offset ops d = Some (v_pos v d) \<and> v_pos v d < n \<and> v_psb v d \<le> n \<and>
        (v_head v d \<longrightarrow> v_home v (v_psb v d) \<le> v_pos v d)) \<and>
     (\<forall>d d'. op_sync_forward ops d = (None, d') \<longrightarrow> v_sync v d' \<and> (v_sync v d \<longrightarrow> v_psb v d < v_psb v d')) \<and>
     (\<forall>off d d'. op_set_sync ops off d = (None, d') \<longrightarrow> v_sync v d') \<and>
     (\<forall>d r d'. v_sync v d \<longrightarrow> op_next ops d = (r, d') \<longrightarrow> v_sync v d' \<and> goes_on v d d') \<and>
     (\<forall>d r d'. v_sync v d \<longrightarrow> op_event ops d = (r, d') \<longrightarrow> v_sync v d' \<and> goes_on v d d') \<and>
     (\<forall>d e d'. v_sync v d \<longrightarrow> op_event ops d = (Inr e, d') \<longrightarrow> v_pend v d' < v_pend v d) \<and>
     (\<forall>d e d'. v_sync v d \<longrightarrow> op_resync ops d = (Inl e, d') \<longrightarrow>
        v_sync v d' \<and> v_psb v d \<le> v_psb v d' \<and> (fst e = PtEventIgnored \<longrightarrow> goes_on v d d')) \<and>
     (\<forall>d s d'. v_sync v d \<longrightarrow> op_resync ops d = (Inr s, d') \<longrightarrow>
        v_sync v d' \<and>
        (if v_head v d then v_psb v d' = v_psb v d \<and> v_pos v d' = v_home v (v_psb v d) else goes_on v d d')) \<and>
     (\<forall>d img. v_sync v d \<longrightarrow> v_sync v (op_set_image ops img d) \<and> goes_on v d (op_set_image ops img d))"

lemma goes_on_refl [simp]: "goes_on v d d"
  by (simp add: goes_on_def)

lemma goes_on_trans [trans]: "goes_on v a b \<Longrightarrow> goes_on v b c \<Longrightarrow> goes_on v a c"
  by (auto simp: goes_on_def)

lemma goes_on_psb: "goes_on v a b \<Longrightarrow> v_psb v a \<le> v_psb v b"
  by (auto simp: goes_on_def)

lemma contract_laws:
  assumes "decoder_contract ops v n"
  shows "n \<le> u64_max"
    "v_sync v d \<Longrightarrow> op_offset ops d = Some (v_pos v d)" "v_sync v d \<Longrightarrow> v_pos v d < n" "v_sync v d \<Longrightarrow> v_psb v d \<le> n"
    "v_sync v d \<Longrightarrow> v_head v d \<Longrightarrow> v_home v (v_psb v d) \<le> v_pos v d"
  using assms unfolding decoder_contract_def by metis+

lemma contract_sync:
  assumes "decoder_contract ops v n"
  shows "op_sync_forward ops d = (None, d') \<Longrightarrow> v_sync v d'"
    "op_sync_forward ops d = (None, d') \<Longrightarrow> v_sync v d \<Longrightarrow> v_psb v d < v_psb v d'"
    "op_set_sync ops off d = (None, d') \<Longrightarrow> v_sync v d'"
  using assms unfolding decoder_contract_def by metis+

lemma contract_reads:
  assumes "decoder_contract ops v n" "v_sync v d"
  shows "op_next ops d = (r, d') \<Longrightarrow> v_sync v d' \<and> goes_on v d d'"
    "op_event ops d = (q, d') \<Longrightarrow> v_sync v d' \<and> goes_on v d d'"
    "op_event ops d = (Inr e, d') \<Longrightarrow> v_pend v d' < v_pend v d"
    "v_sync v (op_set_image ops img d) \<and> goes_on v d (op_set_image ops img d)"
  using assms unfolding decoder_contract_def by metis+

lemma contract_resync:
  assumes "decoder_contract ops v n" "v_sync v d"
  shows "op_resync ops d = (Inl x, d') \<Longrightarrow> v_sync v d' \<and> v_psb v d \<le> v_psb v d'"
    "op_resync ops d = (Inl x, d') \<Longrightarrow> fst x = PtEventIgnored \<Longrightarrow> goes_on v d d'"
    "op_resync ops d = (Inr s, d') \<Longrightarrow> v_sync v d'"
    "op_resync ops d = (Inr s, d') \<Longrightarrow> v_head v d \<Longrightarrow> v_psb v d' = v_psb v d \<and> v_pos v d' = v_home v (v_psb v d)"
    "op_resync ops d = (Inr s, d') \<Longrightarrow> \<not> v_head v d \<Longrightarrow> goes_on v d d'"
  using assms unfolding decoder_contract_def by metis+

section \<open>What the steps leave alone\<close>

text \<open>The fields the end of the loop depends on.\<close>

definition gauges :: "'d native_state \<Rightarrow> 'd \<times> nat \<times> nat \<times> nat \<times> nat \<times> nat list option" where
  "gauges st = (nd_dec st, nd_last_resync st, nd_stuck_off st, nd_stuck_rounds st, nd_blocks st, nd_plan st)"

lemma gauges_upd [simp]:
  "gauges (st\<lparr>nd_batch := b\<rparr>) = gauges st" "gauges (st\<lparr>nd_emitted := n\<rparr>) = gauges st"
  "gauges (st\<lparr>nd_idx := n\<rparr>) = gauges st" "gauges (st\<lparr>nd_pid := n\<rparr>) = gauges st" "gauges (st\<lparr>nd_tid := n\<rparr>) = gauges st"
  "gauges (st\<lparr>nd_sent := s\<rparr>) = gauges st" "gauges (st\<lparr>nd_mono := n\<rparr>) = gauges st"
  "gauges (st\<lparr>nd_image_for := n\<rparr>) = gauges st" "gauges (st\<lparr>nd_image_cache := c\<rparr>) = gauges st"
  "gauges (st\<lparr>nd_foreign_keys := ks\<rparr>) = gauges st" "gauges (st\<lparr>nd_foreign := f\<rparr>) = gauges st"
  "gauges (st\<lparr>nd_last_branch := lb\<rparr>) = gauges st" "gauges (st\<lparr>nd_prev := p\<rparr>) = gauges st"
  "gauges (st\<lparr>nd_last_time := lt\<rparr>) = gauges st" "gauges (st\<lparr>nd_len_cache := lc\<rparr>) = gauges st"
  by (simp_all add: gauges_def)

lemma gauges_push [simp]: "gauges (push_tagged ts st) = gauges st"
  by (simp add: push_tagged_def)

lemma gauges_run_task [simp]: "gauges (run_task en time st) = gauges st"
  by (simp add: run_task_def Let_def split: option.split prod.split)

lemma gauges_push_branch [simp]: "gauges (push_branch en p target extra st) = gauges st"
  by (simp add: push_branch_def)

lemma gauges_taken: "branch_taken en silent p target st = (taken, st') \<Longrightarrow> gauges st' = gauges st"
  by (auto simp: branch_taken_def last_len_def Let_def split: if_splits option.splits prod.splits)

lemma gauges_pending [simp]: "gauges (snd (pending_branch en target extra st)) = gauges st"
  by (auto simp: pending_branch_def dest: gauges_taken split: option.split prod.split)

lemma gauges_block_branch [simp]: "gauges (block_branch en b st) = gauges st"
  by (auto simp: block_branch_def Let_def dest: gauges_taken split: option.split prod.split)

lemma gauges_detail [simp]: "gauges (detail en b time st) = gauges st"
  by (auto simp: detail_def emit_instructions_def split: option.split prod.split)

lemma gauges_disabled [simp]: "gauges (on_disabled en b time suppressed ip st) = gauges st"
proof -
  have "gauges (snd (if suppressed then (False, st) else pending_branch en ip F_TR_END st)) = gauges st"
    by simp
  moreover have "gauges (fold_branch f st) = gauges st" for f
    by (simp add: fold_branch_def split: prod.split)
  ultimately show ?thesis
    by (auto simp: on_disabled_def trace_end_sample_def Let_def split: option.split prod.split)
qed

lemma gauges_event [simp]: "gauges (handle_event en b ev st) = gauges st"
  by (simp add: handle_event_def Let_def split: ev_kind.split)

lemma gauges_flush: "flush_batch en st = Inr st' \<Longrightarrow> gauges st' = gauges st"
  by (auto simp: flush_batch_def split: if_splits prod.splits)

section \<open>Loops inside a step\<close>

lemma drain_returns:
  assumes "decoder_contract ops v n" "v_sync v d"
  shows "\<exists>d'. drain ops status d = Some d' \<and> v_sync v d' \<and> goes_on v d d'"
  using assms(2)
proof (induction "v_pend v d" arbitrary: d status rule: less_induct)
  case less
  obtain r d1 where ev: "op_event ops d = (r, d1)"
    by fastforce
  have m: "v_sync v d1" "goes_on v d d1"
    using contract_reads(2) [OF assms(1) less.prems ev] by auto
  show ?case
  proof (cases "st_event_pending status")
    case True
    show ?thesis
    proof (cases r)
      case (Inr e)
      have "v_pend v d1 < v_pend v d"
        using contract_reads(3) [OF assms(1) less.prems] ev Inr by blast
      from less.hyps [OF this m(1)] obtain d' where "drain ops (snd e) d1 = Some d'" "v_sync v d'" "goes_on v d1 d'"
        by blast
      then show ?thesis
        using True ev Inr goes_on_trans [OF m(2)] by (subst drain.simps) (auto split: prod.splits)
    qed (use True ev m in \<open>subst drain.simps; simp\<close>)
  qed (use less.prems in \<open>subst drain.simps; simp\<close>)
qed

definition steps_to :: "'d decoder_view \<Rightarrow> 'd native_state \<Rightarrow> 'd native_state \<Rightarrow> bool" where
  "steps_to v st st' \<longleftrightarrow>
     (v_sync v (nd_dec st) \<longrightarrow> v_sync v (nd_dec st') \<and> goes_on v (nd_dec st) (nd_dec st')) \<and>
     snd (gauges st') = snd (gauges st)"

lemma steps_same: "gauges st' = gauges st \<Longrightarrow> steps_to v st st'"
  by (simp add: steps_to_def gauges_def)

lemma steps_trans: "steps_to v a b \<Longrightarrow> steps_to v b c \<Longrightarrow> steps_to v a c"
  by (auto simp: steps_to_def intro: goes_on_trans)

lemma steps_dec: "v_sync v d \<Longrightarrow> goes_on v (nd_dec st) d \<Longrightarrow> steps_to v st (st\<lparr>nd_dec := d\<rparr>)"
  by (simp add: steps_to_def gauges_def)

lemma steps_synced: "steps_to v st st' \<Longrightarrow> v_sync v (nd_dec st) \<Longrightarrow> v_sync v (nd_dec st')"
  by (simp add: steps_to_def)

lemma event_loop_returns:
  assumes "decoder_contract ops v n" "v_sync v (nd_dec st)"
  shows "\<exists>r. event_loop en ops b status st = Some r \<and> steps_to v st (snd r)"
  using assms(2)
proof (induction "v_pend v (nd_dec st)" arbitrary: st status rule: less_induct)
  case less
  obtain r d where ev: "op_event ops (nd_dec st) = (r, d)"
    by fastforce
  have m: "v_sync v d" "goes_on v (nd_dec st) d"
    using contract_reads(2) [OF assms(1) less.prems ev] by auto
  note to = steps_dec [OF m]
  show ?case
  proof (cases "st_event_pending status")
    case True
    show ?thesis
    proof (cases r)
      case (Inr e)
      let ?st = "handle_event en b (fst e) (st\<lparr>nd_dec := d\<rparr>)"
      have "gauges ?st = gauges (st\<lparr>nd_dec := d\<rparr>)"
        by simp
      then have d: "nd_dec ?st = d" and s: "steps_to v st ?st"
        using steps_trans [OF to steps_same] by (simp_all add: gauges_def)
      have "v_pend v (nd_dec ?st) < v_pend v (nd_dec st)" "v_sync v (nd_dec ?st)"
        using contract_reads(3) [OF assms(1) less.prems] ev Inr d m(1) by simp_all
      from less.hyps [OF this, of "snd e"] obtain r'
        where "event_loop en ops b (snd e) ?st = Some r'" "steps_to v ?st (snd r')"
        by blast
      then show ?thesis
        using True ev Inr steps_trans [OF s]
        by (cases r') (subst event_loop.simps, auto split: prod.splits)
    qed (use True ev to in \<open>subst event_loop.simps; simp\<close>)
  qed (subst event_loop.simps; simp add: steps_same)
qed

text \<open>
  While a failed block is retried the decoder has come to a later PSB, to a later packet, or it went back
  because the header of the PSB was being read when the block failed.
\<close>

definition reaches :: "'d decoder_view \<Rightarrow> 'd \<Rightarrow> 'd \<Rightarrow> bool" where
  "reaches v d d' \<longleftrightarrow>
     v_psb v d < v_psb v d' \<or>
     v_psb v d' = v_psb v d \<and> (v_head v d' \<longrightarrow> v_head v d) \<and> (v_pos v d \<le> v_pos v d' \<or> v_head v d)"

lemma reaches_refl: "reaches v d d"
  by (simp add: reaches_def)

lemma reaches_on: "reaches v a b \<Longrightarrow> goes_on v b c \<Longrightarrow> reaches v a c"
  by (auto simp: reaches_def goes_on_def)

lemma reaches_psb: "reaches v a b \<Longrightarrow> v_psb v a \<le> v_psb v b"
  by (auto simp: reaches_def)

text \<open>What a successful resynchronisation gains on the failed block at \<open>d0\<close>.\<close>

definition gains :: "'d decoder_view \<Rightarrow> 'd \<Rightarrow> nat \<Rightarrow> 'd \<Rightarrow> bool" where
  "gains v d0 prev d \<longleftrightarrow>
     v_psb v d0 < v_psb v d \<or>
     v_psb v d = v_psb v d0 \<and>
       (v_head v d0 \<and> \<not> v_head v d \<or>
        v_head v d0 \<and> prev \<noteq> v_home v (v_psb v d0) \<and> v_pos v d = v_home v (v_psb v d0) \<or>
        \<not> v_head v d0 \<and> \<not> v_head v d \<and> (prev = u64_max \<or> v_pos v d0 < prev \<or> prev < v_pos v d))"

definition resynced :: "'d decoder_view \<Rightarrow> 'd \<Rightarrow> 'd native_state \<Rightarrow> bool \<times> 'd native_state \<Rightarrow> bool" where
  "resynced v d0 st r \<longleftrightarrow>
     (case r of (again, st') \<Rightarrow>
        v_sync v (nd_dec st') \<and> v_psb v d0 \<le> v_psb v (nd_dec st') \<and>
        nd_stuck_off st' = nd_stuck_off st \<and> nd_stuck_rounds st' = nd_stuck_rounds st \<and> nd_plan st' = nd_plan st \<and>
        (again \<longrightarrow> nd_last_resync st' = v_pos v (nd_dec st') \<and> gains v d0 (nd_last_resync st) (nd_dec st')))"

lemma resynced_after: "resynced v d0 (st\<lparr>nd_dec := d\<rparr>) r \<Longrightarrow> resynced v d0 st r"
  by (simp add: resynced_def)

lemma resync_gains:
  assumes "decoder_contract ops v n" "v_sync v d0" "v_sync v a" "reaches v d0 a" "op_resync ops a = (Inr s, d)"
    "\<not> (v_pos v d = prev \<and> v_pos v d \<le> v_pos v d0)"
  shows "gains v d0 prev d"
proof (cases "v_head v a")
  case True
  then show ?thesis
    using contract_resync(4) [OF assms(1,3,5)] contract_laws(5) [OF assms(1,2)] assms(4,6)
    by (auto simp: gains_def reaches_def)
next
  case False
  then show ?thesis
    using contract_resync(5) [OF assms(1,3,5)] assms(4,6)
    by (auto simp: gains_def reaches_def goes_on_def)
qed

lemma resync_reaches:
  assumes "decoder_contract ops v n" "v_sync v a" "reaches v d0 a" "op_resync ops a = (Inr s, d)"
  shows "reaches v d0 d"
proof (cases "v_head v a")
  case True
  then show ?thesis
    using contract_resync(4) [OF assms(1,2,4)] assms(3) by (auto simp: reaches_def)
next
  case False
  then show ?thesis
    using contract_resync(5) [OF assms(1,2,4)] assms(3) by (blast intro: reaches_on)
qed

lemma resync_returns:
  assumes "decoder_contract ops v n" "v_sync v d0" "v_sync v (nd_dec st)" "reaches v d0 (nd_dec st)"
  shows "\<exists>r. resync_loop ops (v_pos v d0) stalled k st = Some r \<and> resynced v d0 st r"
  using assms(3,4)
proof (induction k arbitrary: st stalled)
  case 0
  then show ?case by (simp add: resynced_def reaches_psb)
next
  case (Suc k)
  note con = assms(1) Suc.prems(1)
  have again: "\<exists>r. resync_loop ops (v_pos v d0) stalled k (st\<lparr>nd_dec := d\<rparr>) = Some r \<and> resynced v d0 st r"
    if "v_sync v d" "reaches v d0 d" for d stalled
    using Suc.IH [of "st\<lparr>nd_dec := d\<rparr>" stalled] that resynced_after by fastforce
  have stop: "resynced v d0 st (False, st\<lparr>nd_dec := d\<rparr>)" if "v_sync v d" "v_psb v d0 \<le> v_psb v d" for d
    using that by (simp add: resynced_def)
  have le: "v_psb v d0 \<le> v_psb v (nd_dec st)"
    using Suc.prems(2) by (rule reaches_psb)
  obtain r d where rs: "op_resync ops (nd_dec st) = (r, d)"
    by fastforce
  show ?case
  proof (cases r)
    case (Inl e)
    have d: "v_sync v d" "v_psb v d0 \<le> v_psb v d"
      using contract_resync(1) [OF con rs [unfolded Inl]] le by auto
    show ?thesis
    proof (cases "fst e = PtEventIgnored")
      case True
      obtain r2 d2 where ev: "op_event ops d = (r2, d2)"
        by fastforce
      have "reaches v d0 d"
        using contract_resync(2) [OF con rs [unfolded Inl] True] Suc.prems(2) by (blast intro: reaches_on)
      then have d2: "v_sync v d2" "reaches v d0 d2"
        using contract_reads(2) [OF assms(1) d(1) ev] by (auto intro: reaches_on)
      show ?thesis
        using True Inl rs ev again [OF d2] stop [OF d2(1) reaches_psb [OF d2(2)]]
        by (cases e; cases r2) auto
    qed (use Inl rs stop [OF d] in \<open>cases e; auto\<close>)
  next
    case (Inr status)
    have d: "v_sync v d" "reaches v d0 d"
      using contract_resync(3) [OF con rs [unfolded Inr]] resync_reaches [OF con Suc.prems(2) rs [unfolded Inr]]
      by auto
    have off: "op_offset ops d = Some (v_pos v d)"
      using contract_laws(2) [OF assms(1) d(1)] .
    show ?thesis
    proof (cases "v_pos v d = nd_last_resync st \<and> v_pos v d \<le> v_pos v d0")
      case True
      obtain d2 where d2: "drain ops status d = Some d2" "v_sync v d2" "goes_on v d d2"
        using drain_returns [OF assms(1) d(1)] by blast
      have "reaches v d0 d2"
        using d(2) d2(3) by (rule reaches_on)
      then show ?thesis
        using True Inr rs off d2(1) again [OF d2(2)] stop [OF d(1) reaches_psb [OF d(2)]]
        by (auto simp: Let_def)
    next
      case False
      have "resynced v d0 st (True, st\<lparr>nd_dec := d, nd_last_resync := v_pos v d\<rparr>)"
        using resync_gains [OF assms(1,2) Suc.prems rs [unfolded Inr] False] d reaches_psb [OF d(2)]
        by (simp add: resynced_def)
      moreover have "resync_loop ops (v_pos v d0) stalled (Suc k) st =
          Some (True, st\<lparr>nd_dec := d, nd_last_resync := v_pos v d\<rparr>)"
        using False Inr rs off by (auto simp: Let_def)
      ultimately show ?thesis by blast
    qed
  qed
qed

section \<open>The measure\<close>

lemma measures_mono:
  "(x, y) \<in> measures fs \<Longrightarrow> \<forall>f\<in>set fs. f z \<le> f x \<Longrightarrow> (z, y) \<in> measures fs"
  by (induction fs) force+

lemma measures_mono2:
  "(x, y) \<in> measures fs \<Longrightarrow> \<forall>f\<in>set fs. f y \<le> f z \<Longrightarrow> (x, z) \<in> measures fs"
  by (induction fs) force+

lemma measures_trans: "(x, y) \<in> measures fs \<Longrightarrow> (y, z) \<in> measures fs \<Longrightarrow> (x, z) \<in> measures fs"
  by (induction fs) force+

text \<open>
  In this order: the regions still planned, the PSBs behind the current one, whether a region is being
  decoded, whether its header is being read and may still be restarted, how far the last resynchronisation
  and the guard's last look are, and how often the guard has looked and will look again.
\<close>

definition plan_left :: "'d native_state \<Rightarrow> nat" where
  "plan_left st = (case nd_plan st of None \<Rightarrow> 0 | Some q \<Rightarrow> length q)"

definition psbs_left :: "'d decoder_view \<Rightarrow> nat \<Rightarrow> 'd \<Rightarrow> nat" where
  "psbs_left v n d = (if v_sync v d then n - v_psb v d else n + 1)"

definition ahead :: "nat \<Rightarrow> nat \<Rightarrow> bool" where
  "ahead off p \<longleftrightarrow> off \<noteq> u64_max \<and> p < off"

definition left :: "nat \<Rightarrow> nat \<Rightarrow> nat" where
  "left n off = (if off = u64_max then n + 1 else n - off)"

definition region_ranks :: "'d decoder_view \<Rightarrow> nat \<Rightarrow> (bool \<times> 'd native_state \<Rightarrow> nat) list" where
  "region_ranks v n =
     [\<lambda>(synced, st). plan_left st, \<lambda>(synced, st). psbs_left v n (nd_dec st), \<lambda>(synced, st). of_bool synced]"

definition header_ranks :: "'d decoder_view \<Rightarrow> (bool \<times> 'd native_state \<Rightarrow> nat) list" where
  "header_ranks v =
     [\<lambda>(synced, st). of_bool (v_head v (nd_dec st)),
      \<lambda>(synced, st). of_bool (v_head v (nd_dec st) \<and> nd_last_resync st \<noteq> v_home v (v_psb v (nd_dec st)))]"

definition resync_ranks :: "'d decoder_view \<Rightarrow> nat \<Rightarrow> (bool \<times> 'd native_state \<Rightarrow> nat) list" where
  "resync_ranks v n =
     [\<lambda>(synced, st). of_bool (ahead (nd_last_resync st) (v_pos v (nd_dec st))),
      \<lambda>(synced, st). left n (nd_last_resync st)]"

definition guard_ranks :: "'d decoder_view \<Rightarrow> nat \<Rightarrow> (bool \<times> 'd native_state \<Rightarrow> nat) list" where
  "guard_ranks v n =
     [\<lambda>(synced, st). of_bool (ahead (nd_stuck_off st) (v_pos v (nd_dec st))),
      \<lambda>(synced, st). left n (nd_stuck_off st), \<lambda>(synced, st). 8 - nd_stuck_rounds st,
      \<lambda>(synced, st). 65536 - nd_blocks st mod 65536]"

definition decode_rel :: "'d decoder_view \<Rightarrow> nat \<Rightarrow> ((bool \<times> 'd native_state) \<times> (bool \<times> 'd native_state)) set" where
  "decode_rel v n = measures (region_ranks v n @ header_ranks v @ resync_ranks v n @ guard_ranks v n)"

lemma wf_decode_rel: "wf (decode_rel v n)"
  by (simp add: decode_rel_def)

lemma left_less: "p < n \<Longrightarrow> n \<le> u64_max \<Longrightarrow> off = u64_max \<or> off < p \<Longrightarrow> left n p < left n off"
  by (auto simp: left_def)

lemma psbs_mono: "v_sync v d' \<Longrightarrow> v_psb v d \<le> v_psb v d' \<Longrightarrow> psbs_left v n d' \<le> psbs_left v n d"
  by (auto simp: psbs_left_def)

lemma psbs_less: "v_sync v d' \<Longrightarrow> v_psb v d' \<le> n \<Longrightarrow> v_sync v d \<Longrightarrow> v_psb v d < v_psb v d' \<Longrightarrow>
    psbs_left v n d' < psbs_left v n d"
  by (auto simp: psbs_left_def)

lemma rel_psb:
  assumes "plan_left st' \<le> plan_left st" "psbs_left v n (nd_dec st') < psbs_left v n (nd_dec st)"
  shows "((synced', st'), (synced, st)) \<in> decode_rel v n"
  using assms by (auto simp: decode_rel_def region_ranks_def order_le_less)

lemma rel_region_end:
  assumes "plan_left st' \<le> plan_left st" "psbs_left v n (nd_dec st') \<le> psbs_left v n (nd_dec st)"
  shows "((False, st'), (True, st)) \<in> decode_rel v n"
  using assms by (auto simp: decode_rel_def region_ranks_def order_le_less)

text \<open>Reading on lowers or keeps every rank, or it reaches a further PSB.\<close>

definition ranks :: "'d decoder_view \<Rightarrow> nat \<Rightarrow> (bool \<times> 'd native_state \<Rightarrow> nat) list" where
  "ranks v n = region_ranks v n @ header_ranks v @ resync_ranks v n @ guard_ranks v n"

lemma steps_ranks:
  assumes con: "decoder_contract ops v n" and "steps_to v st1 st2" "v_sync v (nd_dec st1)"
  shows "((True, st2), (True, st1)) \<in> decode_rel v n \<or> (\<forall>f\<in>set (ranks v n). f (True, st2) \<le> f (True, st1))"
proof -
  have s: "v_sync v (nd_dec st2)" "goes_on v (nd_dec st1) (nd_dec st2)"
    and g: "nd_last_resync st2 = nd_last_resync st1" "nd_stuck_off st2 = nd_stuck_off st1"
      "nd_stuck_rounds st2 = nd_stuck_rounds st1" "nd_blocks st2 = nd_blocks st1" "plan_left st2 = plan_left st1"
    using assms(2,3) by (auto simp: steps_to_def gauges_def plan_left_def)
  show ?thesis
  proof (cases "v_psb v (nd_dec st1) < v_psb v (nd_dec st2)")
    case True
    then have "((True, st2), (True, st1)) \<in> decode_rel v n"
      using psbs_less [OF s(1) contract_laws(4) [OF con s(1)] assms(3)] g by (intro rel_psb) simp_all
    then show ?thesis ..
  next
    case False
    then have "v_psb v (nd_dec st2) = v_psb v (nd_dec st1)" "v_head v (nd_dec st2) \<longrightarrow> v_head v (nd_dec st1)"
      "v_pos v (nd_dec st1) \<le> v_pos v (nd_dec st2)"
      using s(2) by (auto simp: goes_on_def)
    then show ?thesis
      using g psbs_mono [OF s(1), of "nd_dec st1" n]
      by (simp add: ranks_def region_ranks_def header_ranks_def resync_ranks_def guard_ranks_def ahead_def of_bool_def)
  qed
qed

lemma rel_steps:
  assumes "decoder_contract ops v n" "((True, st1), (True, st)) \<in> decode_rel v n" "steps_to v st1 st2"
    "v_sync v (nd_dec st1)"
  shows "((True, st2), (True, st)) \<in> decode_rel v n"
  using steps_ranks [OF assms(1,3,4)]
proof
  assume "((True, st2), (True, st1)) \<in> decode_rel v n"
  then show ?thesis
    using assms(2) unfolding decode_rel_def by (rule measures_trans)
next
  assume "\<forall>f\<in>set (ranks v n). f (True, st2) \<le> f (True, st1)"
  with assms(2) show ?thesis
    unfolding decode_rel_def ranks_def [symmetric] by (rule measures_mono)
qed

lemma rel_weaken:
  assumes "decoder_contract ops v n" "((True, st'), (True, st1)) \<in> decode_rel v n" "steps_to v st st1"
    "v_sync v (nd_dec st)"
  shows "((True, st'), (True, st)) \<in> decode_rel v n"
  using steps_ranks [OF assms(1,3,4)]
proof
  assume "((True, st1), (True, st)) \<in> decode_rel v n"
  with assms(2) show ?thesis
    unfolding decode_rel_def by (rule measures_trans)
next
  assume "\<forall>f\<in>set (ranks v n). f (True, st1) \<le> f (True, st)"
  with assms(2) show ?thesis
    unfolding decode_rel_def ranks_def [symmetric] by (rule measures_mono2)
qed

section \<open>One step\<close>

text \<open>The state of a region: the decoder is synchronised and the guard has not given up.\<close>

definition in_region :: "'d decoder_view \<Rightarrow> 'd native_state \<Rightarrow> bool" where
  "in_region v st \<longleftrightarrow> v_sync v (nd_dec st) \<and> nd_stuck_rounds st < 8"

lemma region_steps: "in_region v st \<Longrightarrow> steps_to v st st' \<Longrightarrow> in_region v st'"
  by (auto simp: in_region_def steps_to_def gauges_def)

definition step_ok :: "'d decoder_view \<Rightarrow> nat \<Rightarrow> 'd native_state \<Rightarrow> error + 'd after_block \<Rightarrow> bool" where
  "step_ok v n st r =
     (case r of
        Inl e \<Rightarrow> True
      | Inr (Resume st') \<Rightarrow> in_region v st' \<and> ((True, st'), (True, st)) \<in> decode_rel v n
      | Inr (NextSync st') \<Rightarrow>
          in_region v st' \<and> v_psb v (nd_dec st) \<le> v_psb v (nd_dec st') \<and> plan_left st' \<le> plan_left st)"

lemma step_ok_rel:
  "step_ok v n st (Inr (NextSync st')) \<Longrightarrow> ((False, st'), (True, st)) \<in> decode_rel v n"
  by (rule rel_region_end) (auto simp: step_ok_def in_region_def intro: psbs_mono)

lemma guard_rel:
  assumes "plan_left st' = plan_left st" "nd_dec st' = nd_dec st" "nd_last_resync st' = nd_last_resync st"
    "(x, y) \<in> measures (guard_ranks v n)" "x = (True, st')" "y = (True, st)"
  shows "((True, st'), (True, st)) \<in> decode_rel v n"
  using assms by (simp add: decode_rel_def region_ranks_def header_ranks_def resync_ranks_def)

lemma guard_step:
  assumes con: "decoder_contract ops v n" and "in_region v st" "loop_guard en ops b st = (stuck, st')"
  shows "nd_dec st' = nd_dec st" "nd_plan st' = nd_plan st" "in_region v st'"
    "\<not> stuck \<Longrightarrow> ((True, st'), (True, st)) \<in> decode_rel v n"
proof -
  let ?off = "v_pos v (nd_dec st)"
  let ?m = "(nd_blocks st + 1) mod 65536"
  have "v_sync v (nd_dec st)"
    using assms(2) by (simp add: in_region_def)
  then have off: "?off < n" "?off \<noteq> u64_max" "op_offset ops (nd_dec st) = Some ?off"
    using contract_laws(2,3) [OF con] contract_laws(1) [OF con] by fastforce+
  have "nd_dec st' = nd_dec st \<and> nd_plan st' = nd_plan st \<and> nd_last_resync st' = nd_last_resync st \<and> in_region v st' \<and>
    (\<not> stuck \<longrightarrow> ((True, st'), (True, st)) \<in> measures (guard_ranks v n))"
  proof (cases "?m = 0")
    case False
    have "65536 - (nd_blocks st + 1) mod 65536 < 65536 - nd_blocks st mod 65536"
      using False by (simp add: mod_Suc split: if_splits)
    then show ?thesis
      using assms(2,3) False by (auto simp: loop_guard_def Let_def in_region_def guard_ranks_def)
  next
    case True
    show ?thesis
    proof (cases "?off = nd_stuck_off st")
      case same: True
      show ?thesis
        using assms(2,3) True same off
        by (auto simp: loop_guard_def Let_def in_region_def push_tagged_def guard_ranks_def split: if_splits)
    next
      case False
      have "ahead (nd_stuck_off st) ?off \<or> left n ?off < left n (nd_stuck_off st)"
        using left_less [OF off(1) contract_laws(1) [OF con], of "nd_stuck_off st"] False
        unfolding ahead_def by linarith
      then show ?thesis
        using assms(2,3) True False off
        by (auto simp: loop_guard_def Let_def in_region_def push_tagged_def guard_ranks_def ahead_def split: if_splits)
    qed
  qed
  then show "nd_dec st' = nd_dec st" "nd_plan st' = nd_plan st" "in_region v st'"
    "\<not> stuck \<Longrightarrow> ((True, st'), (True, st)) \<in> decode_rel v n"
    using guard_rel [of st' st _ _ v n] by (auto simp: plan_left_def)
qed

lemma select_steps:
  assumes "decoder_contract ops v n" "select_image en ops time st = Inr st'"
  shows "steps_to v st st'"
  using assms(2) contract_reads(4) [OF assms(1)]
  by (auto simp: steps_to_def select_image_def cached_image_def try_bind_def Let_def gauges_def
      split: prod.splits option.splits if_splits sum.splits)

text \<open>After a block: go on, or leave the region, with the plan cut when the window is over.\<close>

lemma finish_steps:
  assumes "decoder_contract ops v n"
  shows "case finish_block en ops status st of
      Inl e \<Rightarrow> True
    | Inr (Resume st') \<Rightarrow> steps_to v st st'
    | Inr (NextSync st') \<Rightarrow> \<exists>st2. steps_to v st st2 \<and> (st' = st2 \<or> st' = st2\<lparr>nd_plan := Some []\<rparr>)"
proof -
  define time where "time = (case known_time en ops (nd_dec st) of None \<Rightarrow> nd_last_time st | Some t \<Rightarrow> Some t)"
  show ?thesis
  proof (cases "select_image en ops time (run_task en time st)")
    case (Inr st1)
    have s1: "steps_to v st st1"
      by (rule steps_trans [OF steps_same select_steps [OF assms Inr]]) simp
    have to: "steps_to v st st2" if "gauges st2 = gauges st1" for st2
      using steps_trans [OF s1 steps_same [OF that]] .
    have full: "steps_to v st (st2\<lparr>nd_last_branch := None\<rparr>)" if "flush_batch en st1 = Inr st2" for st2
      using gauges_flush [OF that] by (intro to) simp
    show ?thesis
      using Inr s1 full unfolding finish_block_def time_def [symmetric] Let_def
      by (auto simp: try_bind_def split: sum.splits after_block.splits option.splits if_splits)
  qed (simp add: finish_block_def time_def [symmetric] Let_def try_bind_def)
qed

lemma block_returns:
  assumes con: "decoder_contract ops v n" and "in_region v st"
  shows "\<exists>r. on_block en ops b status st = Some r \<and> step_ok v n st r"
proof -
  define time where "time = (case known_time en ops (nd_dec st) of None \<Rightarrow> nd_last_time st | Some t \<Rightarrow> Some t)"
  obtain stuck st1 where guard: "loop_guard en ops b (st\<lparr>nd_last_time := time\<rparr>) = (stuck, st1)"
    by fastforce
  have "in_region v (st\<lparr>nd_last_time := time\<rparr>)"
    using assms(2) by (simp add: in_region_def)
  note g = guard_step [OF con this guard]
  have plan: "plan_left st1 = plan_left st"
    using g(2) by (simp add: plan_left_def)
  have rel: "\<not> stuck \<Longrightarrow> ((True, st1), (True, st)) \<in> decode_rel v n"
    using g(4) by (simp add: decode_rel_def region_ranks_def header_ranks_def resync_ranks_def guard_ranks_def plan_left_def)
  show ?thesis
  proof (cases stuck)
    case True
    then show ?thesis
      using g(1,3) plan by (simp add: on_block_def time_def [symmetric] guard Let_def step_ok_def)
  next
    case False
    define st2 where "st2 = detail en b time (block_branch en b st1)"
    define st3 where "st3 = (if b_ninsn b > 0
        then st2\<lparr>nd_prev := Some \<lparr>pv_end = b_end b, pv_class = block_class b, pv_time = time, pv_size = b_size b\<rparr>\<rparr>
        else st2)"
    have s3: "steps_to v st1 st3"
      by (rule steps_same) (simp add: st3_def st2_def)
    have sync: "v_sync v (nd_dec st1)"
      using g(3) by (simp add: in_region_def)
    obtain status' st4 where ev: "event_loop en ops b status st3 = Some (status', st4)" "steps_to v st3 st4"
      using event_loop_returns [OF con steps_synced [OF s3 sync], of en b status] by fastforce
    note s4 = steps_trans [OF s3 ev(2)]
    have on: "in_region v st' \<and> ((True, st'), (True, st)) \<in> decode_rel v n \<and> plan_left st' = plan_left st \<and>
        v_psb v (nd_dec st) \<le> v_psb v (nd_dec st')" if "steps_to v st4 st'" for st'
      using steps_trans [OF s4 that] region_steps [OF g(3)] rel_steps [OF con rel [OF False] _ sync] plan g(1) sync
      by (auto simp: steps_to_def gauges_def plan_left_def goes_on_psb)
    have "step_ok v n st (finish_block en ops status' st4)"
      using finish_steps [OF con, of st4 en status'] on
      by (fastforce simp: step_ok_def in_region_def plan_left_def split: sum.splits after_block.splits)
    moreover have "on_block en ops b status st = Some (finish_block en ops status' st4)"
      using False ev(1) [unfolded st3_def st2_def]
      unfolding on_block_def Let_def time_def [symmetric] guard
      by (cases "b_ninsn b > 0") simp_all
    ultimately show ?thesis by blast
  qed
qed

lemma gains_rel:
  assumes con: "decoder_contract ops v n" and "v_sync v (nd_dec st)" "v_sync v (nd_dec st')"
    "plan_left st' = plan_left st" "gains v (nd_dec st) (nd_last_resync st) (nd_dec st')"
    "nd_last_resync st' = v_pos v (nd_dec st')"
  shows "((True, st'), (True, st)) \<in> decode_rel v n"
proof (cases "v_psb v (nd_dec st) < v_psb v (nd_dec st')")
  case True
  then show ?thesis
    using psbs_less [OF assms(3) contract_laws(4) [OF con assms(3)] assms(2)] assms(4) by (intro rel_psb) simp_all
next
  case False
  then have same: "v_psb v (nd_dec st') = v_psb v (nd_dec st)"
    "psbs_left v n (nd_dec st') = psbs_left v n (nd_dec st)"
    using assms(2,3,5) by (auto simp: gains_def psbs_left_def)
  have "nd_last_resync st' < n"
    using contract_laws(3) [OF con assms(3)] assms(6) by simp
  note less = left_less [OF this contract_laws(1) [OF con]]
  show ?thesis
    using assms(4-6) False same less [of "nd_last_resync st"]
    by (auto simp: decode_rel_def region_ranks_def header_ranks_def resync_ranks_def gains_def ahead_def)
qed

lemma error_returns:
  assumes con: "decoder_contract ops v n" and "in_region v st"
  shows "\<exists>again st'. on_decode_error en ops e st = Some (again, st') \<and>
    step_ok v n st (Inr (if again then Resume st' else NextSync st'))"
proof (cases "fst e = PtEos")
  case True
  then show ?thesis
    using assms(2) by (auto simp: on_decode_error_def step_ok_def)
next
  case False
  let ?st = "(if nd_foreign st then st
      else push_tagged [error_record en st (raw_time en ops (nd_dec st)) (map_option pv_end (nd_prev st))
             (if fst e = PtNomap then 5 else 6) (''libipt: '' @ snd e)] st)\<lparr>nd_prev := None\<rparr>"
  have g: "gauges ?st = gauges st"
    by simp
  then have same: "nd_dec ?st = nd_dec st" "nd_last_resync ?st = nd_last_resync st" "nd_stuck_off ?st = nd_stuck_off st"
    "nd_stuck_rounds ?st = nd_stuck_rounds st" "nd_plan ?st = nd_plan st"
    unfolding gauges_def by simp_all
  have sync: "v_sync v (nd_dec st)"
    using assms(2) by (simp add: in_region_def)
  obtain again st' where r: "resync_loop ops (v_pos v (nd_dec st)) 0 1024 ?st = Some (again, st')"
    "resynced v (nd_dec st) ?st (again, st')"
    using resync_returns [OF con sync, of ?st 0 1024] sync reaches_refl unfolding same by fastforce
  have "on_decode_error en ops e st = Some (again, st')"
    using False r(1) contract_laws(2) [OF con sync] by (simp add: on_decode_error_def Let_def)
  moreover have st': "in_region v st'" "plan_left st' = plan_left st" "v_psb v (nd_dec st) \<le> v_psb v (nd_dec st')"
    using r(2) assms(2) unfolding resynced_def same by (auto simp: in_region_def plan_left_def same)
  moreover have "((True, st'), (True, st)) \<in> decode_rel v n" if again
    using gains_rel [OF con sync _ st'(2)] r(2) that unfolding resynced_def same by auto
  ultimately show ?thesis
    by (auto simp: step_ok_def)
qed

lemma step_returns:
  assumes con: "decoder_contract ops v n" and "in_region v st"
  shows "\<exists>r. decode_step en ops st = Some r \<and> step_ok v n st r"
proof -
  obtain r d where nx: "op_next ops (nd_dec st) = (r, d)"
    by fastforce
  let ?st = "st\<lparr>nd_dec := d\<rparr>"
  have sync: "v_sync v (nd_dec st)"
    using assms(2) by (simp add: in_region_def)
  have d: "v_sync v d" "goes_on v (nd_dec st) d"
    using contract_reads(1) [OF con sync nx] by auto
  have b: "in_region v ?st"
    using assms(2) d(1) by (simp add: in_region_def)
  have lift: "step_ok v n st q" if "step_ok v n ?st q" for q
  proof -
    have "((True, st'), (True, st)) \<in> decode_rel v n" if "((True, st'), (True, ?st)) \<in> decode_rel v n" for st'
      using rel_weaken [OF con that steps_dec [OF d] sync] .
    then show ?thesis
      using that goes_on_psb [OF d(2)]
      by (auto simp: step_ok_def plan_left_def split: sum.splits after_block.splits)
  qed
  show ?thesis
  proof (cases r)
    case (Inl e)
    then show ?thesis
      using error_returns [OF con b, of en e] nx lift by (fastforce simp: decode_step_def)
  next
    case (Inr bs)
    then show ?thesis
      using block_returns [OF con b] nx lift by (cases bs) (fastforce simp: decode_step_def)
  qed
qed

section \<open>The loops\<close>

lemma loop_returns:
  assumes con: "decoder_contract ops v n" and "nd_stuck_rounds st < 8" "synced \<longrightarrow> v_sync v (nd_dec st)"
  shows "\<exists>r. decode_loop en ops synced st = Some r"
  using assms(2,3)
proof (induction "(synced, st)" arbitrary: synced st rule: wf_induct_rule [OF wf_decode_rel [of v n]])
  case (1 synced st)
  show ?case
  proof (cases synced)
    case True
    then have "in_region v st"
      using 1(2,3) by (simp add: in_region_def)
    then obtain r where r: "decode_step en ops st = Some r" "step_ok v n st r"
      using step_returns [OF con] by blast
    have "\<exists>q. decode_loop en ops synced' st' = Some q"
      if "((synced', st'), (True, st)) \<in> decode_rel v n" "in_region v st'" for synced' st'
      using 1(1) [of synced' st'] that True by (simp add: in_region_def)
    then show ?thesis
      using r True step_ok_rel [of v n st]
      by (subst decode_loop.simps) (auto simp: step_ok_def split: sum.splits after_block.splits)
  next
    case False
    have go: "\<exists>r. decode_loop en ops True (st\<lparr>nd_plan := q, nd_dec := d\<rparr>) = Some r"
      if "v_sync v d" "((True, st\<lparr>nd_plan := q, nd_dec := d\<rparr>), (synced, st)) \<in> decode_rel v n" for d q
      using 1(1) [OF that(2)] 1(2) that(1) by simp
    show ?thesis
    proof (cases "nd_plan st")
      case None
      obtain q d where s: "op_sync_forward ops (nd_dec st) = (q, d)"
        by fastforce
      have same: "st\<lparr>nd_plan := None\<rparr> = st"
        using None by simp
      have "\<exists>r. decode_loop en ops True (st\<lparr>nd_dec := d\<rparr>) = Some r" if "q = None"
      proof -
        have d: "v_sync v d"
          using contract_sync(1) [OF con] s that by blast
        have "v_sync v (nd_dec st) \<longrightarrow> v_psb v (nd_dec st) < v_psb v d"
          using contract_sync(2) [OF con] s that by blast
        then have "psbs_left v n d < psbs_left v n (nd_dec st)"
          using contract_laws(4) [OF con d] d by (auto simp: psbs_left_def)
        then show ?thesis
          using go [OF d rel_psb, of None] None same by (simp add: plan_left_def)
      qed
      then show ?thesis
        using False None s
        by (subst decode_loop.simps) (auto simp: sync_step_def after_sync_def split: option.split prod.split)
    next
      case (Some p)
      show ?thesis
      proof (cases p)
        case (Cons off p')
        obtain q d where s: "op_set_sync ops off (nd_dec st) = (q, d)"
          by fastforce
        have "\<exists>r. decode_loop en ops True (st\<lparr>nd_plan := Some p', nd_dec := d\<rparr>) = Some r" if "q = None"
        proof (rule go)
          show "v_sync v d"
            using contract_sync(3) [OF con] s that by blast
          show "((True, st\<lparr>nd_plan := Some p', nd_dec := d\<rparr>), (synced, st)) \<in> decode_rel v n"
            using Some Cons by (simp add: decode_rel_def region_ranks_def plan_left_def)
        qed
        then show ?thesis
          using False Some Cons s
          by (subst decode_loop.simps) (auto simp: sync_step_def after_sync_def split: option.split prod.split)
      qed (use False Some in \<open>subst decode_loop.simps; simp add: sync_step_def\<close>)
    qed
  qed
qed

lemma index_returns:
  assumes con: "decoder_contract ops v n"
  shows "\<exists>r. index_loop en ops d index = Some r"
proof (induction "psbs_left v n d" arbitrary: d index rule: less_induct)
  case less
  obtain q d1 where s: "op_sync_forward ops d = (q, d1)"
    by fastforce
  show ?case
  proof (cases q)
    case None
    have d1: "v_sync v d1"
      using contract_sync(1) [OF con s [unfolded None]] .
    have "psbs_left v n d1 < psbs_left v n d"
      using contract_sync(2) [OF con s [unfolded None]] contract_laws(4) [OF con d1] d1 by (auto simp: psbs_left_def)
    then have again: "\<exists>r. index_loop en ops d' index' = Some r" if "v_sync v d'" "goes_on v d1 d'" for d' index'
      using less.hyps psbs_mono [OF that(1) goes_on_psb [OF that(2)], of n] by simp
    obtain r d2 where nx: "op_next ops d1 = (r, d2)"
      by fastforce
    have d2: "v_sync v d2" "goes_on v d1 d2"
      using contract_reads(1) [OF con d1 nx] by auto
    show ?thesis
    proof (cases r)
      case (Inl e)
      then show ?thesis
        using None s nx again [OF d2] by (subst index_loop.simps) (simp add: Let_def)
    next
      case (Inr bs)
      obtain b status where bs: "bs = (b, status)"
        by fastforce
      obtain d3 where d3: "drain ops status d2 = Some d3" "v_sync v d3" "goes_on v d2 d3"
        using drain_returns [OF con d2(1)] by blast
      then show ?thesis
        using None s nx Inr bs again [OF d3(2) goes_on_trans [OF d2(2) d3(3)]]
        by (subst index_loop.simps) (simp add: Let_def)
    qed
  qed (use s in \<open>subst index_loop.simps; simp\<close>)
qed

text \<open>
  C38: Decoding a piece of trace returns, with a result or an error and with or without an instruction
  window, for every decoder that keeps libipt's contract. Blocks need not consume packets and a
  resynchronisation may go back to the start of the region: the guard against never-ending loops gives up the
  first, and a resynchronisation that gets no further than the last one the second.
\<close>

theorem decode_blob_returns:
  assumes "decoder_contract ops v n"
  shows "\<exists>r. decode_blob en ops sent d = Some r"
proof -
  obtain plan d' where "decode_plan en ops d = Some (plan, d')"
    using index_returns [OF assms, of en d "[]"]
    by (cases "ne_instructions en") (auto simp: decode_plan_def)
  moreover obtain r where "decode_loop en ops False (native_init sent plan d') = Some r"
    using loop_returns [OF assms, of "native_init sent plan d'" False] by (auto simp: native_init_def)
  ultimately show ?thesis
    by (simp add: decode_blob_def)
qed

text \<open>
  A trace of two regions: in the first the program jumps to itself and the same block comes for ever without a
  packet being consumed; in the second every block fails in the header, so that resynchronising goes back to
  the PSB every time.
\<close>

definition stuck_trace :: "nat decoder_ops" where
  "stuck_trace =
     \<lparr>op_sync_forward = (\<lambda>d. if d = 0 then (None, 1) else if d = 1 then (None, 2) else (Some (PtEos, ''eos''), d)),
      op_sync_offset = (\<lambda>d. if d = 0 then None else if d = 1 then Some 0 else Some 64),
      op_set_sync = (\<lambda>off d. (None, if off = 0 then 1 else 2)),
      op_next = (\<lambda>d. if d = 1
          then (Inr (\<lparr>b_ip = 16, b_end = 16, b_ninsn = 1, b_iclass = 4, b_size = 0\<rparr>,
                     \<lparr>st_event_pending = False, st_eos = False\<rparr>), d)
          else (Inl (PtOther, ''bad status update''), 3)),
      op_event = (\<lambda>d. (Inl (PtOther, ''no event''), d)), op_time = (\<lambda>_. Some 1),
      op_offset = (\<lambda>d. if d = 0 then None else if d = 1 then Some 32 else if d = 2 then Some 80 else Some 96),
      op_resync = (\<lambda>d. if d = 3 then (Inr \<lparr>st_event_pending = True, st_eos = False\<rparr>, 2) else (Inl (PtOther, ''no''), d)),
      op_set_image = (\<lambda>_ d. d)\<rparr>"

definition stuck_view :: "nat decoder_view" where
  "stuck_view =
     \<lparr>v_sync = (\<lambda>d. d \<noteq> 0), v_psb = (\<lambda>d. if d \<le> 1 then 0 else 64),
      v_pos = (\<lambda>d. if d = 1 then 32 else if d = 2 then 80 else 96), v_head = (\<lambda>d. d \<ge> 2), v_home = (\<lambda>_. 80),
      v_pend = (\<lambda>_. 0)\<rparr>"

definition decode_env :: native_env where
  "decode_env =
     \<lparr>ne_cpu = 0, ne_info = intel_pt_info_default\<lparr>pi_time_mult := 1\<rparr>, ne_schedule = [(0, 7, 8)], ne_maps = Map.empty,
      ne_images = [], ne_instructions = None, ne_wanted = None, ne_execs = Map.empty, ne_sections = Map.empty,
      ne_insn_len = (\<lambda>_ _. None), ne_image_error = (\<lambda>_. None), ne_accepts = (\<lambda>_. True)\<rparr>"

lemma stuck_trace_contract: "decoder_contract stuck_trace stuck_view 128"
  by (auto simp: decoder_contract_def stuck_trace_def stuck_view_def goes_on_def u64_max_def split: if_splits)

lemma decode_blob_returns_witness:
  "(\<exists>b. op_next stuck_trace 1 = (Inr b, 1)) \<and> (\<exists>e. op_next stuck_trace 2 = (Inl e, 3)) \<and>
   (\<exists>s. op_resync stuck_trace 3 = (Inr s, 2)) \<and> op_offset stuck_trace 3 = Some 96 \<and> op_offset stuck_trace 2 = Some 80 \<and>
   (\<exists>r. decode_blob decode_env stuck_trace [] 0 = Some r) \<and>
   (\<exists>r. decode_blob (decode_env\<lparr>ne_instructions := Some (7, 8, 0, 100)\<rparr>) stuck_trace [] 0 = Some r)"
proof -
  note returns = decode_blob_returns [OF stuck_trace_contract, of _ "[]" 0]
  have "op_offset stuck_trace 2 = Some 80" "op_offset stuck_trace 3 = Some 96"
    by (simp_all add: stuck_trace_def)
  then show ?thesis
    using returns [of decode_env] returns [of "decode_env\<lparr>ne_instructions := Some (7, 8, 0, 100)\<rparr>"]
    by (simp add: stuck_trace_def)
qed

end
