(* ===== verification/Native_Split.thy ===== *)
theory Native_Split
  imports Native_Streams
begin

text \<open>
  The cutting of trace buffers: pieces that start at PSB packets, cover the buffer and are at most as many as
  the workers; the work items of a file and who is on a CPU at a time.
\<close>

section \<open>PSB offsets\<close>

lemma psb_from_props:
  "off \<in> set (psb_from data i) \<Longrightarrow> i \<le> off \<and> off + 16 \<le> length data \<and> take 16 (drop off data) = PSB"
proof (induction data i rule: psb_from.induct)
  case (1 data i)
  from 1(3) have "off = i \<or> off \<in> set (psb_from data (i + 16)) \<or> off \<in> set (psb_from data (i + 1))"
    "i + 16 \<le> length data"
    by (subst (asm) psb_from.simps, auto split: if_splits)+
  with 1 show ?case
    by (subst (asm) psb_from.simps) (auto split: if_splits)
qed

lemma psb_from_sorted: "sorted_wrt (<) (psb_from data i)"
proof (induction data i rule: psb_from.induct)
  case (1 data i)
  then show ?case
    by (subst psb_from.simps) (auto dest!: psb_from_props)
qed

section \<open>Cuts\<close>

text \<open>Cuts so far: each at least \<open>target\<close> after the one before, and at PSBs of the buffer but for the first.\<close>

definition cuts_ok :: "octets \<Rightarrow> nat \<Rightarrow> nat list \<Rightarrow> bool" where
  "cuts_ok data target cuts \<longleftrightarrow>
     cuts \<noteq> [] \<and> hd cuts = 0 \<and> (\<forall>(a, n)\<in>set (windows cuts). target \<le> n) \<and> sorted cuts \<and>
     (\<forall>off\<in>set (tl cuts). take 16 (drop off data) = PSB) \<and> last cuts \<le> length data \<and>
     (tl cuts \<noteq> [] \<longrightarrow> MIN_CHUNK div 2 \<le> length data - last cuts)"

lemma windows_snoc: "cuts \<noteq> [] \<Longrightarrow> windows (cuts @ [c]) = windows cuts @ [(last cuts, c - last cuts)]"
proof (induction cuts)
  case (Cons a cuts)
  then show ?case
    by (cases cuts) (simp_all add: windows_def)
qed simp

lemma windows_Cons: "windows (a # b # cs) = (a, b - a) # windows (b # cs)"
  by (simp add: windows_def)

lemma map_fst_windows: "map fst (windows cs) = butlast cs"
  by (induction cs rule: induct_list012) (simp_all add: windows_def)

lemma length_windows: "length (windows cs) = length cs - 1"
  by (simp add: windows_def)

lemma sorted_le_last: "sorted xs \<Longrightarrow> x \<in> set xs \<Longrightarrow> x \<le> last xs"
  by (induction xs) (auto split: if_splits)

lemma push_cut_ok:
  assumes "cuts_ok data target cuts" "last cuts \<le> off" "off + 16 \<le> length data" "take 16 (drop off data) = PSB"
  shows "cuts_ok data target (push_cut (length data) target off cuts)"
proof (cases "off - last cuts \<ge> target \<and> length data - off \<ge> MIN_CHUNK div 2")
  case True
  have "\<forall>c\<in>set cuts. c \<le> off"
    using assms(1,2) by (meson cuts_ok_def sorted_le_last le_trans)
  with True assms show ?thesis
    by (auto simp: push_cut_def cuts_ok_def windows_snoc sorted_append)
next
  case False
  then show ?thesis
    using assms(1) by (auto simp: push_cut_def)
qed

lemma push_cut_last: "last cuts \<le> off \<Longrightarrow> last (push_cut n target off cuts) \<le> off"
  by (simp add: push_cut_def)

lemma cuts_fold:
  assumes "sorted_wrt (<) offs" "\<forall>off\<in>set offs. last cuts \<le> off \<and> off + 16 \<le> length data \<and> take 16 (drop off data) = PSB"
    "cuts_ok data target cuts"
  shows "cuts_ok data target (fold (push_cut (length data) target) offs cuts)"
  using assms
proof (induction offs arbitrary: cuts)
  case (Cons off offs)
  have "last (push_cut (length data) target off cuts) \<le> off" "cuts_ok data target (push_cut (length data) target off cuts)"
    using Cons.prems push_cut_last push_cut_ok by auto
  then show ?case
    using Cons.prems(1,2) by (auto intro!: Cons.IH dest: less_imp_le)
qed simp

text \<open>Pieces between sorted cuts are what lies between the first and the last.\<close>

definition piece :: "octets \<Rightarrow> nat \<times> nat \<Rightarrow> octets" where
  "piece data w = (case w of (off, n) \<Rightarrow> take n (drop off data))"

lemma piece_pair: "piece data (off, n) = take n (drop off data)"
  by (simp add: piece_def)

lemma pieces_between:
  assumes "sorted cuts" "cuts \<noteq> []" "last cuts \<le> length data"
  shows "concat (map (piece data) (windows cuts)) = take (last cuts - hd cuts) (drop (hd cuts) data)"
  using assms
proof (induction cuts rule: induct_list012)
  case (3 a b cs)
  let ?z = "last (b # cs)"
  have le: "a \<le> b" "b \<le> ?z"
    using 3(3) by auto
  have "concat (map (piece data) (windows (b # cs))) = take (?z - b) (drop b data)"
    using 3 by simp
  moreover have "take (b - a) (drop a data) @ take (?z - b) (drop b data) = take (?z - a) (drop a data)"
    using le take_add [of "b - a" "?z - b" "drop a data"] by simp
  ultimately show ?case
    by (simp only: windows_Cons list.map concat.simps piece_pair list.sel last_ConsR list.distinct if_False simp_thms)
qed (simp_all add: windows_def)

lemma windows_total:
  assumes "\<forall>(a, n)\<in>set (windows cuts). target \<le> n" "sorted cuts" "cuts \<noteq> []"
  shows "(length cuts - 1) * target + hd cuts \<le> last cuts"
  using assms
proof (induction cuts rule: induct_list012)
  case (3 a b cs)
  then have "(length (b # cs) - 1) * target + b \<le> last (b # cs)" "target \<le> b - a" "a \<le> b"
    by (auto simp: windows_Cons)
  then show ?case by simp
qed (simp_all add: windows_def)

text \<open>
  C40: The pieces of a trace buffer cover it without gap or overlap, every piece but the first starts at a PSB packet,
  so the decoder can start there; when there is more than one, all but the last are at least 2 MiB long and
  the last at least 1 MiB; and there are never more pieces than workers, for up to a million of them.
\<close>

theorem split_at_psb_covers:
  assumes "ps = split_at_psb data parts"
  shows "concat (map (\<lambda>(off, n). take n (drop off data)) ps) = data \<and>
    (\<exists>n0 rest. ps = (0, n0) # rest \<and> (\<forall>(off, n)\<in>set rest. take 16 (drop off data) = PSB)) \<and>
    (length ps > 1 \<longrightarrow> (\<forall>(off, n)\<in>set (butlast ps). 2 ^ 21 \<le> n) \<and> 2 ^ 20 \<le> snd (last ps)) \<and>
    (parts \<le> 2 ^ 20 \<longrightarrow> length ps \<le> max parts 1)"
proof (cases "parts \<le> 1 \<or> length data < 2 * MIN_CHUNK")
  case True
  then have "ps = [(0, length data)]"
    using assms by (simp only: split_at_psb_def if_True)
  then show ?thesis by simp
next
  case False
  define target where "target = max (length data div parts) MIN_CHUNK"
  define cuts where "cuts = fold (push_cut (length data) target) (psb_offsets data) [0]"
  have ps: "ps = windows (cuts @ [length data])"
    using assms False by (simp only: split_at_psb_def target_def cuts_def Let_def if_False)
  have "cuts_ok data target [0]"
    by (simp add: cuts_ok_def windows_def)
  moreover have "\<forall>off\<in>set (psb_offsets data). last [0] \<le> off \<and> off + 16 \<le> length data \<and> take 16 (drop off data) = PSB"
    using psb_from_props by (auto simp: psb_offsets_def)
  ultimately have ok: "cuts_ok data target cuts"
    unfolding cuts_def using psb_from_sorted [of data 0] by (intro cuts_fold) (simp_all add: psb_offsets_def)
  note ok_parts = ok [unfolded cuts_ok_def]
  have sorted: "sorted (cuts @ [length data])"
    using ok_parts sorted_le_last [of cuts] by (auto simp: sorted_append intro: le_trans)
  have split: "ps = windows cuts @ [(last cuts, length data - last cuts)]"
    using ps ok_parts by (simp add: windows_snoc)
  have "concat (map (piece data) ps) = data"
    using pieces_between [OF sorted] ok_parts unfolding ps by (cases cuts) auto
  moreover have "\<exists>n0 rest. ps = (0, n0) # rest \<and> (\<forall>(off, n)\<in>set rest. take 16 (drop off data) = PSB)"
  proof -
    have "map fst ps = cuts"
      using ok_parts by (simp add: split map_fst_windows)
    then obtain p rest where "ps = p # rest" "fst p = 0" "map fst rest = tl cuts"
      using ok_parts by (cases ps) auto
    moreover have "take 16 (drop off data) = PSB" if "(off, n) \<in> set rest" for off n
      using that ok_parts calculation(3) by (metis fst_conv image_eqI list.set_map)
    ultimately show ?thesis by (cases p) auto
  qed
  moreover have "length ps > 1 \<longrightarrow> (\<forall>(off, n)\<in>set (butlast ps). 2 ^ 21 \<le> n) \<and> 2 ^ 20 \<le> snd (last ps)"
  proof
    assume "length ps > 1"
    then have "tl cuts \<noteq> []"
      unfolding split length_append length_windows by (cases cuts) auto
    then show "(\<forall>(off, n)\<in>set (butlast ps). 2 ^ 21 \<le> n) \<and> 2 ^ 20 \<le> snd (last ps)"
      using ok_parts unfolding split target_def MIN_CHUNK_def by fastforce
  qed
  moreover have "length ps \<le> max parts 1" if "parts \<le> 2 ^ 20"
  proof (rule ccontr)
    assume "\<not> length ps \<le> max parts 1"
    then have many: "parts < length cuts"
      using False ok_parts unfolding split length_append length_windows by auto
    then have "tl cuts \<noteq> []"
      using False by (cases cuts) auto
    then have tail: "2 ^ 20 + last cuts \<le> length data"
      using ok_parts by (auto simp: MIN_CHUNK_def le_diff_conv2)
    have "parts * (length data div parts) \<le> parts * target"
      by (intro mult_le_mono2) (simp add: target_def)
    also have "\<dots> \<le> (length cuts - 1) * target"
      using many by (intro mult_right_mono) auto
    also have "\<dots> \<le> last cuts"
      using windows_total [of cuts target] ok_parts by auto
    finally have "parts * (length data div parts) \<le> last cuts" .
    moreover have "length data < parts * (length data div parts) + parts"
      using False mult_div_mod_eq [of parts "length data"] mod_less_divisor [of parts "length data"] by linarith
    ultimately show False
      using tail that by linarith
  qed
  ultimately show ?thesis
    by (simp add: piece_def [abs_def])
qed

text \<open>Two runs of zeros of 2 MiB with a PSB packet between them.\<close>

definition demo_trace :: octets where
  "demo_trace = replicate (2 ^ 21) 0 @ PSB @ replicate (2 ^ 21) 0"

lemma length_PSB: "length PSB = 16" and hd_PSB: "hd PSB = 2"
  by code_simp+

lemma length_demo_trace: "length demo_trace = 2 ^ 22 + 16"
  by (simp add: demo_trace_def length_PSB)

lemma psb_from_skip:
  assumes "\<forall>k. i \<le> k \<and> k < i + n \<longrightarrow> data ! k \<noteq> 2" "i + n \<le> length data"
  shows "psb_from data i = psb_from data (i + n)"
  using assms
proof (induction n arbitrary: i)
  case (Suc n)
  have "take 16 (drop i data) \<noteq> PSB"
  proof
    assume "take 16 (drop i data) = PSB"
    then have "hd (take 16 (drop i data)) = 2"
      by (simp add: hd_PSB)
    then show False
      using Suc.prems by (simp add: hd_drop_conv_nth)
  qed
  then have "psb_from data i = (if i + 16 \<le> length data then psb_from data (i + 1) else [])"
    by (subst psb_from.simps) simp
  moreover have "psb_from data (i + 1) = psb_from data (i + Suc n)"
    using Suc.IH [of "i + 1"] Suc.prems by simp
  moreover have "psb_from data (i + Suc n) = []" if "\<not> i + 16 \<le> length data"
    using that by (subst psb_from.simps) simp
  ultimately show ?case
    by auto
qed simp

lemma split_at_psb_covers_witness:
  "split_at_psb demo_trace 3 = [(0, 2 ^ 21), (2 ^ 21, 2 ^ 21 + 16)] \<and> take 16 (drop (2 ^ 21) demo_trace) = PSB"
proof -
  have "psb_offsets demo_trace = psb_from demo_trace (2 ^ 21)"
    using psb_from_skip [of 0 "2 ^ 21" demo_trace]
    by (simp add: psb_offsets_def demo_trace_def nth_append length_PSB)
  also have "\<dots> = 2 ^ 21 # psb_from demo_trace (2 ^ 21 + 16)"
    by (subst psb_from.simps) (simp add: demo_trace_def length_PSB)
  also have "psb_from demo_trace (2 ^ 21 + 16) = psb_from demo_trace (2 ^ 21 + 16 + 2 ^ 21)"
    by (rule psb_from_skip) (auto simp: demo_trace_def nth_append length_PSB)
  also have "\<dots> = []"
    by (subst psb_from.simps) (simp add: length_demo_trace)
  finally have "psb_offsets demo_trace = [2 ^ 21]" .
  then have "split_at_psb demo_trace 3 = [(0, 2 ^ 21), (2 ^ 21, 2 ^ 21 + 16)]"
    by (simp add: split_at_psb_def MIN_CHUNK_def length_demo_trace push_cut_def windows_def)
  then show ?thesis
    using split_at_psb_covers [of _ demo_trace 3, OF refl] by simp
qed

section \<open>Work items\<close>

text \<open>Every piece is decoded by exactly one worker, and there are no idle workers.\<close>

lemma worker_groups_partition:
  "mset (concat (worker_groups parallelism items)) = mset items"
  "\<forall>g\<in>set (worker_groups parallelism items). g \<noteq> []"
proof -
  let ?w = "min (max parallelism 1) (max (length items) 1)"
  have start: "\<forall>k < length (replicate ?w []). length (replicate ?w [] ! k) = share 0 (length (replicate ?w [])) k"
    using share_0 by simp
  have "0 < length (replicate ?w [])"
    by (simp add: less_max_iff_disj)
  from deal_spec [OF this start, of items] have "mset (concat (deal 0 items (replicate ?w []))) = mset items"
    by simp
  moreover have "concat (filter (\<lambda>g. g \<noteq> []) gs) = concat gs" for gs :: "'a list list"
    by (induction gs) auto
  ultimately show "mset (concat (worker_groups parallelism items)) = mset items"
    by (simp add: worker_groups_def Let_def)
qed (simp add: worker_groups_def Let_def)

end
