(* ===== verification/Native_Props.thy ===== *)
theory Native_Props
  imports Native_Returns Native_Split
begin

text \<open>
  What a piece of trace contributes to its worker's stream: records whose times do not run backwards, each from
  a task of the schedule; who is on the CPU at a time; and what becomes of the streams in the merge.
\<close>

section \<open>The records of a piece\<close>

definition tasks :: "native_env \<Rightarrow> (nat \<times> nat) set" where
  "tasks en = insert (u32_max, 0) (snd ` set (ne_schedule en))"

definition worker_record :: "native_env \<Rightarrow> raw_record \<Rightarrow> bool" where
  "worker_record en r =
     (case r of
        RSample s \<Rightarrow> (s_pid s, s_tid s) \<in> tasks en \<and> s_cpu s = Some (ne_cpu en)
      | RDecoderError e \<Rightarrow> de_cpu e = Some (ne_cpu en)
      | RLost l \<Rightarrow> l_cpu l = Some (ne_cpu en)
      | _ \<Rightarrow> False)"

definition tag_ok :: "native_env \<Rightarrow> tagged \<Rightarrow> bool" where
  "tag_ok en e \<longleftrightarrow> merge_time (snd e) = fst e \<and> worker_record en (snd e)"

definition times :: "tagged list \<Rightarrow> nat list" where
  "times b = List.map_filter fst b"

definition native_ok :: "native_env \<Rightarrow> batch list \<Rightarrow> 'd native_state \<Rightarrow> bool" where
  "native_ok en old st \<longleftrightarrow>
     (\<exists>new. nd_sent st = old @ new \<and> (\<forall>e\<in>set (concat new). tag_ok en e) \<and> sorted (times (concat new)) \<and>
        (\<forall>t\<in>set (times (concat new)). t \<le> nd_mono st)) \<and>
     (\<forall>e\<in>set (nd_batch st). tag_ok en e) \<and> (nd_pid st, nd_tid st) \<in> tasks en"

named_theorems native_keeps

lemma ok_upd [simp]:
  "native_ok en old (st\<lparr>nd_dec := a\<rparr>) = native_ok en old st"
  "native_ok en old (st\<lparr>nd_emitted := n\<rparr>) = native_ok en old st"
  "native_ok en old (st\<lparr>nd_idx := n\<rparr>) = native_ok en old st"
  "native_ok en old (st\<lparr>nd_image_for := n\<rparr>) = native_ok en old st"
  "native_ok en old (st\<lparr>nd_image_cache := c\<rparr>) = native_ok en old st"
  "native_ok en old (st\<lparr>nd_foreign_keys := ks\<rparr>) = native_ok en old st"
  "native_ok en old (st\<lparr>nd_foreign := f\<rparr>) = native_ok en old st"
  "native_ok en old (st\<lparr>nd_last_branch := lb\<rparr>) = native_ok en old st"
  "native_ok en old (st\<lparr>nd_prev := p\<rparr>) = native_ok en old st"
  "native_ok en old (st\<lparr>nd_last_time := lt\<rparr>) = native_ok en old st"
  "native_ok en old (st\<lparr>nd_stuck_off := n\<rparr>) = native_ok en old st"
  "native_ok en old (st\<lparr>nd_stuck_rounds := n\<rparr>) = native_ok en old st"
  "native_ok en old (st\<lparr>nd_len_cache := lc\<rparr>) = native_ok en old st"
  "native_ok en old (st\<lparr>nd_blocks := n\<rparr>) = native_ok en old st"
  "native_ok en old (st\<lparr>nd_last_resync := n\<rparr>) = native_ok en old st"
  "native_ok en old (st\<lparr>nd_plan := q\<rparr>) = native_ok en old st"
  by (simp_all add: native_ok_def)

lemma push_tagged_ok [simp]:
  "native_ok en old (push_tagged ts st) \<longleftrightarrow> native_ok en old st \<and> (\<forall>e\<in>set ts. tag_ok en e)"
  by (auto simp: native_ok_def push_tagged_def)

lemma push_tagged_same [simp]:
  "nd_pid (push_tagged ts st) = nd_pid st" "nd_tid (push_tagged ts st) = nd_tid st"
  by (simp_all add: push_tagged_def)

lemma ok_task: "native_ok en old st \<Longrightarrow> (nd_pid st, nd_tid st) \<in> tasks en"
  by (simp add: native_ok_def)

lemma branch_sample_ok [simp]:
  "native_ok en old st \<Longrightarrow> tag_ok en (branch_sample en st time ip addr fl)"
  by (simp add: tag_ok_def branch_sample_def merge_time_def worker_record_def native_ok_def)

lemma error_record_ok [simp]: "tag_ok en (error_record en st time ip code msg)"
  by (simp add: tag_ok_def error_record_def merge_time_def worker_record_def)

lemma run_task_ok [native_keeps]: "native_ok en old st \<Longrightarrow> native_ok en old (run_task en time st)"
  by (auto simp: run_task_def native_ok_def tasks_def image_iff Let_def split: option.split prod.split)
    (metis nth_mem snd_conv)+

lemma last_len_ok: "native_ok en old st \<Longrightarrow> native_ok en old (snd (last_len en p st))"
  by (simp add: last_len_def Let_def split: option.split)

lemma branch_taken_ok:
  "branch_taken en silent p target st = (taken, st') \<Longrightarrow> native_ok en old st \<Longrightarrow> native_ok en old st'"
  using last_len_ok [of en old st p] by (auto simp: branch_taken_def split: if_splits prod.splits)

lemma push_branch_ok: "native_ok en old st \<Longrightarrow> native_ok en old (push_branch en p target extra st)"
  by (simp add: push_branch_def)

lemma pending_branch_ok [native_keeps]:
  "native_ok en old st \<Longrightarrow> native_ok en old (snd (pending_branch en target extra st))"
  by (auto simp: pending_branch_def push_branch_ok branch_taken_ok split: option.split prod.split)

lemma block_branch_ok [native_keeps]: "native_ok en old st \<Longrightarrow> native_ok en old (block_branch en b st)"
  by (auto simp: block_branch_def Let_def push_branch_ok branch_taken_ok split: option.split prod.split)

lemma emit_loop_ok:
  "(pid, tid) \<in> tasks en \<Longrightarrow> e \<in> set (emit_loop en pid tid time bytes pos ip stop n) \<Longrightarrow> tag_ok en e"
  by (induction n arbitrary: pos ip)
    (auto simp: tag_ok_def merge_time_def worker_record_def split: if_splits option.splits)

lemma detail_ok [native_keeps]: "native_ok en old st \<Longrightarrow> native_ok en old (detail en b time st)"
  by (auto simp: detail_def emit_instructions_def split: option.split prod.split intro: emit_loop_ok ok_task)

lemma fold_branch_ok:
  assumes "native_ok en old st" "folded_branch b st = Some f"
  shows "native_ok en old (fold_branch f st)"
proof -
  obtain i t sm where f: "f = (i, t, sm)" "i < length (nd_batch st)" "nd_batch st ! i = (t, RSample sm)"
    using assms(2) by (auto simp: folded_branch_def split: option.splits if_splits prod.splits raw_record.splits)
  have "tag_ok en (t, RSample sm)"
    using assms(1) f(2,3) by (auto simp: native_ok_def dest: nth_mem)
  then have "tag_ok en (t, RSample (sm\<lparr>s_flags := fl\<rparr>))" for fl
    by (simp add: tag_ok_def merge_time_def worker_record_def)
  then show ?thesis
    using assms(1) set_update_subset_insert [of "nd_batch st" i]
    by (fastforce simp: fold_branch_def f(1) native_ok_def)
qed

lemma trace_end_ok [native_keeps]: "native_ok en old st \<Longrightarrow> native_ok en old (trace_end_sample en time suppressed ip st)"
  by (simp add: trace_end_sample_def Let_def)

lemma on_disabled_ok [native_keeps]:
  assumes "native_ok en old st"
  shows "native_ok en old (on_disabled en b time suppressed ip st)"
proof (cases "if suppressed then folded_branch b st else None")
  case (Some f)
  then show ?thesis
    using assms fold_branch_ok [of en old st b f] by (auto simp: on_disabled_def split: if_splits)
next
  case None
  then show ?thesis
    using assms pending_branch_ok [of en old st ip F_TR_END] trace_end_ok
    by (auto simp: on_disabled_def split: prod.split)
qed

lemma handle_event_ok [native_keeps]:
  assumes "native_ok en old st"
  shows "native_ok en old (handle_event en b ev st)"
proof -
  define time where
    "time = (case ev_tsc ev of None \<Rightarrow> nd_last_time st | Some tsc \<Rightarrow> Some (tsc_to_ns (ne_info en) tsc))"
  define st1 where "st1 = run_task en time st"
  have ok: "native_ok en old st1"
    unfolding st1_def by (rule run_task_ok [OF assms])
  note sample = branch_sample_ok [OF ok] branch_sample_ok [OF pending_branch_ok [OF ok]]
  have lost: "tag_ok en (t, RLost \<lparr>l_time = t, l_cpu = Some (ne_cpu en), l_lost = n\<rparr>)" for t n
    by (simp add: tag_ok_def merge_time_def worker_record_def)
  show ?thesis
    unfolding handle_event_def Let_def time_def [symmetric] st1_def [symmetric]
    by (cases "ev_kind ev") (simp_all add: ok sample lost native_keeps)
qed

lemma event_loop_ok:
  assumes "event_loop en ops b status st = Some r" "native_ok en old st"
  shows "native_ok en old (snd r)"
  using assms
proof (induction rule: event_loop.raw_induct [rotated, consumes 1, case_names step])
  case (step loop en ops b status st r)
  obtain res d where ev: "op_event ops (nd_dec st) = (res, d)"
    by fastforce
  show ?case
  proof (cases "st_event_pending status")
    case True
    show ?thesis
    proof (cases res)
      case (Inr e)
      obtain evt status' where e: "e = (evt, status')"
        by fastforce
      have "loop en ops b status' (handle_event en b evt (st\<lparr>nd_dec := d\<rparr>)) = Some r"
        using step(2) True ev Inr e by simp
      moreover have "native_ok en old (handle_event en b evt (st\<lparr>nd_dec := d\<rparr>))"
        using step(3) by (simp add: handle_event_ok)
      ultimately show ?thesis
        by (rule step(1))
    qed (use step(2,3) True ev in auto)
  qed (use step(2,3) in auto)
qed

lemma select_image_ok:
  "select_image en ops time st = Inr st' \<Longrightarrow> native_ok en old st \<Longrightarrow> native_ok en old st'"
  by (auto simp: select_image_def cached_image_def try_bind_def Let_def
      split: option.splits prod.splits if_splits sum.splits)

lemma resync_loop_ok:
  "resync_loop ops err_off stalled n st = Some (again, st') \<Longrightarrow> native_ok en old st \<Longrightarrow> native_ok en old st'"
proof (induction n arbitrary: stalled st)
  case (Suc n)
  from Suc.prems show ?case
    by (auto simp: Let_def bind_eq_Some_conv split: prod.splits sum.splits if_splits option.splits
        dest!: Suc.IH)
qed simp

lemma on_decode_error_ok:
  "on_decode_error en ops e st = Some (again, st') \<Longrightarrow> native_ok en old st \<Longrightarrow> native_ok en old st'"
  by (auto simp: on_decode_error_def Let_def split: if_splits dest!: resync_loop_ok)

lemma loop_guard_ok: "native_ok en old st \<Longrightarrow> native_ok en old (snd (loop_guard en ops b st))"
  by (simp add: loop_guard_def Let_def)

section \<open>Flushing\<close>

lemma clamp_batch_props:
  assumes "clamp_batch least b = (m, b')" "\<forall>e\<in>set b. tag_ok en e"
  shows "(\<forall>e\<in>set b'. tag_ok en e) \<and> sorted (times b') \<and> least \<le> m \<and> (\<forall>t\<in>set (times b'). least \<le> t \<and> t \<le> m)"
  using assms
proof (induction least b arbitrary: m b' rule: clamp_batch.induct)
  case (3 least v r b)
  obtain b1 where b1: "clamp_batch (max v least) b = (m, b1)" "b' = (Some (max v least), stamp (max v least) r) # b1"
    using 3(2) by (auto simp: Let_def split: prod.splits)
  have "tag_ok en (Some (max v least), stamp (max v least) r)"
    using 3(3) by (cases r) (auto simp: tag_ok_def merge_time_def worker_record_def)
  then show ?case
    using 3(1) [OF refl b1(1)] 3(3) b1(2) by (auto simp: times_def List.map_filter_simps)
qed (auto simp: times_def List.map_filter_simps split: prod.splits)

lemma flush_ok:
  assumes "flush_batch en st = Inr st'" "native_ok en old st"
  shows "native_ok en old st' \<and> nd_batch st' = []"
proof (cases "nd_batch st = []")
  case True
  then show ?thesis using assms by (simp add: flush_batch_def)
next
  case False
  obtain m full where full: "clamp_batch (nd_mono st) (nd_batch st) = (m, full)"
    "st' = st\<lparr>nd_batch := [], nd_sent := nd_sent st @ [full], nd_mono := m\<rparr>"
    using assms(1) False by (auto simp: flush_batch_def split: if_splits prod.splits)
  obtain new where new: "nd_sent st = old @ new" "\<forall>e\<in>set (concat new). tag_ok en e" "sorted (times (concat new))"
    "\<forall>t\<in>set (times (concat new)). t \<le> nd_mono st" "\<forall>e\<in>set (nd_batch st). tag_ok en e"
    "(nd_pid st, nd_tid st) \<in> tasks en"
    using assms(2) by (auto simp: native_ok_def)
  note c = clamp_batch_props [OF full(1) new(5)]
  have "times (concat (new @ [full])) = times (concat new) @ times full"
    by (simp add: times_def List.map_filter_def)
  then show ?thesis
    using new c by (auto simp: native_ok_def full(2) sorted_append intro!: exI [of _ "new @ [full]"] intro: order_trans)
qed

definition after_ok :: "native_env \<Rightarrow> batch list \<Rightarrow> error + 'd after_block \<Rightarrow> bool" where
  "after_ok en old r = (case r of Inl e \<Rightarrow> True | Inr (Resume st) \<Rightarrow> native_ok en old st | Inr (NextSync st) \<Rightarrow> native_ok en old st)"

lemma finish_block_ok:
  assumes "native_ok en old st"
  shows "after_ok en old (finish_block en ops status st)"
proof -
  define time where "time = (case known_time en ops (nd_dec st) of None \<Rightarrow> nd_last_time st | Some t \<Rightarrow> Some t)"
  have ok: "native_ok en old st1" if "select_image en ops time (run_task en time st) = Inr st1" for st1
    using select_image_ok [OF that] assms by (simp add: native_keeps)
  show ?thesis
  proof (cases "select_image en ops time (run_task en time st)")
    case (Inr st1)
    then show ?thesis
      using ok [OF Inr] flush_ok [OF _ ok [OF Inr]]
      unfolding finish_block_def Let_def time_def [symmetric]
      by (auto simp: after_ok_def try_bind_def split: sum.splits option.split prod.split)
  qed (simp add: finish_block_def Let_def time_def [symmetric] after_ok_def try_bind_def)
qed

lemma on_block_ok:
  assumes "on_block en ops b status st = Some r" "native_ok en old st"
  shows "after_ok en old r"
proof -
  define time where "time = (case known_time en ops (nd_dec st) of None \<Rightarrow> nd_last_time st | Some t \<Rightarrow> Some t)"
  obtain stuck st1 where guard: "loop_guard en ops b (st\<lparr>nd_last_time := time\<rparr>) = (stuck, st1)"
    by fastforce
  have ok: "native_ok en old st1"
    using loop_guard_ok [of en old "st\<lparr>nd_last_time := time\<rparr>" ops b] assms(2) guard by simp
  then have "native_ok en old (detail en b time (block_branch en b st1))"
    by (simp add: native_keeps)
  then show ?thesis
    using assms(1) ok finish_block_ok
    unfolding on_block_def Let_def time_def [symmetric] guard
    by (cases stuck)
      (auto simp: after_ok_def bind_eq_Some_conv split: if_splits dest!: event_loop_ok [where old = old])
qed

lemma decode_step_ok:
  assumes "decode_step en ops st = Some r" "native_ok en old st"
  shows "after_ok en old r"
  using assms
  by (auto simp: decode_step_def after_ok_def bind_eq_Some_conv split: prod.splits sum.splits if_splits
      dest!: on_block_ok [where old = old] on_decode_error_ok [where en = en and old = old])

lemma sync_step_ok: "native_ok en old st \<Longrightarrow> native_ok en old (snd (sync_step en ops st))"
  by (auto simp: sync_step_def after_sync_def split: option.split list.split prod.split)

lemma decode_loop_ok:
  assumes "decode_loop en ops synced st = Some r" "native_ok en old st"
  shows "case r of Inl e \<Rightarrow> True | Inr st' \<Rightarrow> native_ok en old st'"
  using assms
proof (induction rule: decode_loop.raw_induct [rotated, consumes 1, case_names step])
  case (step loop en ops synced st r)
  show ?case
  proof (cases synced)
    case True
    then obtain q where q: "decode_step en ops st = Some q" "(case q of Inl e \<Rightarrow> Some (Inl e)
        | Inr (Resume st') \<Rightarrow> loop en ops True st' | Inr (NextSync st') \<Rightarrow> loop en ops False st') = Some r"
      using step(2) by (auto simp: bind_eq_Some_conv)
    show ?thesis
    proof (cases q)
      case (Inr a)
      obtain synced' st' where "loop en ops synced' st' = Some r" "native_ok en old st'"
        using q(2) decode_step_ok [OF q(1) step(3)] Inr by (cases a) (auto simp: after_ok_def)
      then show ?thesis
        by (rule step(1))
    qed (use q(2) in auto)
  next
    case False
    obtain found st' where s: "sync_step en ops st = (found, st')"
      by fastforce
    have "native_ok en old st'"
      using sync_step_ok [OF step(3), of ops] s by simp
    then show ?thesis
      using step(1,2) False s by (auto split: if_splits)
  qed
qed

text \<open>
  C37: Whatever the decoder answers, a piece of trace adds to its worker's stream records in the order of
  their times: tags equal the records' own times and never run backwards, every sample is on the piece's CPU and belongs to
  a task that the schedule of that CPU names (or to none, before the first), and besides samples there
  are only decoder errors and losses.
\<close>

theorem native_stream_ordered:
  assumes "decode_blob en ops sent d = Some (Inr (n, sent'))"
  shows "\<exists>new. sent' = sent @ new \<and> sorted (times (concat new)) \<and>
    (\<forall>(t, r)\<in>set (concat new). merge_time r = t \<and> worker_record en r)"
proof -
  obtain plan d' q where q: "decode_loop en ops False (native_init sent plan d') = Some q"
    "try_bind q (\<lambda>st. try_bind (flush_batch en st) (\<lambda>st'. Inr (nd_emitted st', nd_sent st'))) = Inr (n, sent')"
    using assms by (auto simp: decode_blob_def bind_eq_Some_conv)
  obtain st where st: "q = Inr st"
    using q(2) by (cases q) (auto simp: try_bind_def)
  obtain st' where "flush_batch en st = Inr st'"
    using q(2) st by (cases "flush_batch en st") (auto simp: try_bind_def)
  then have run: "decode_loop en ops False (native_init sent plan d') = Some (Inr st)"
    "flush_batch en st = Inr st'" "sent' = nd_sent st'"
    using q st by (auto simp: try_bind_def)
  have "native_ok en sent (native_init sent plan d')"
    by (simp add: native_ok_def native_init_def times_def List.map_filter_simps tasks_def)
  then have "native_ok en sent st"
    using decode_loop_ok [OF run(1)] by auto
  from flush_ok [OF run(2) this] have "native_ok en sent st'"
    by simp
  then show ?thesis
    unfolding run(3) native_ok_def tag_ok_def by fastforce
qed

section \<open>Who is on the CPU\<close>

lemma advance_le_length: "idx < length sched \<Longrightarrow> advance sched idx t < length sched"
  by (induction sched idx t rule: advance.induct) (subst advance.simps, auto)

lemma advance_spec:
  assumes "sorted (map fst sched)" "idx < length sched" "idx = 0 \<or> fst (sched ! idx) \<le> t"
    "i = advance sched idx t"
  shows "i < length sched" "i = 0 \<or> fst (sched ! i) \<le> t" "\<forall>k. i < k \<and> k < length sched \<longrightarrow> t < fst (sched ! k)"
proof -
  have "i < length sched \<and> (i = 0 \<or> fst (sched ! i) \<le> t) \<and> (\<forall>k. i < k \<and> k < length sched \<longrightarrow> t < fst (sched ! k))"
    using assms
  proof (induction sched idx t arbitrary: i rule: advance.induct)
    case (1 sched idx t)
    show ?case
    proof (cases "idx + 1 < length sched \<and> fst (sched ! (idx + 1)) \<le> t")
      case True
      then have "advance sched idx t = advance sched (idx + 1) t"
        by (subst advance.simps) simp
      then show ?thesis
        using 1 True by simp
    next
      case False
      then have "i = idx"
        using 1(5) by (subst (asm) advance.simps) (simp only: if_False)
      moreover have "t < fst (sched ! k)" if "idx < k" "k < length sched" for k
      proof -
        have "fst (sched ! (idx + 1)) \<le> fst (sched ! k)"
          using that 1(2) sorted_nth_mono [of "map fst sched" "idx + 1" k] by simp
        then show ?thesis
          using that False by auto
      qed
      ultimately show ?thesis
        using 1(3,4) by auto
    qed
  qed
  then show "i < length sched" "i = 0 \<or> fst (sched ! i) \<le> t" "\<forall>k. i < k \<and> k < length sched \<longrightarrow> t < fst (sched ! k)"
    by auto
qed

lemma schedule_sorted: "sorted (schedule_for_cpu pd cpu)"
  by (simp add: schedule_for_cpu_def)

lemma schedule_times_sorted: "sorted (map fst (schedule_for_cpu pd cpu))"
proof -
  have "map fst (schedule_for_cpu pd cpu) ! i \<le> map fst (schedule_for_cpu pd cpu) ! j"
    if "i \<le> j" "j < length (schedule_for_cpu pd cpu)" for i j
    using sorted_nth_mono [OF schedule_sorted that] that by (auto simp: less_eq_prod_def)
  then show ?thesis
    by (simp add: sorted_iff_nth_mono)
qed

text \<open>The switches to a task on a CPU that have happened by a time.\<close>

definition switches_by :: "perf_data \<Rightarrow> nat \<Rightarrow> nat \<Rightarrow> (nat \<times> nat \<times> nat) set" where
  "switches_by pd cpu t = {e \<in> set (List.map_filter (switched_in cpu) (pd_sideband pd)). fst e \<le> t}"

text \<open>
  C39: The task a decoded block belongs to is the one the sideband switched in last on that CPU, at or before the
  block's time, as long as times do not go back over a switch; before the first switch it stays as it was.
\<close>

theorem running_task:
  assumes "ne_schedule en = schedule_for_cpu pd cpu"
    and "nd_idx st = 0 \<or> nd_idx st < length (ne_schedule en) \<and> fst (ne_schedule en ! nd_idx st) \<le> t"
    and "st' = run_task en (Some t) st"
  shows "(nd_pid st', nd_tid st') =
    (if switches_by pd cpu t = {} then (nd_pid st, nd_tid st) else snd (Max (switches_by pd cpu t)))"
proof -
  let ?s = "schedule_for_cpu pd cpu"
  define i where "i = advance ?s (nd_idx st) t"
  have set: "switches_by pd cpu t = {e \<in> set ?s. fst e \<le> t}"
    by (simp add: switches_by_def schedule_for_cpu_def)
  show ?thesis
  proof (cases "?s = []")
    case True
    then show ?thesis
      using assms(1,3) set by (auto simp: run_task_def advance.simps)
  next
    case False
    then have "nd_idx st < length ?s" "nd_idx st = 0 \<or> fst (?s ! nd_idx st) \<le> t"
      using assms(1,2) by auto
    note i = advance_spec [OF schedule_times_sorted this i_def]
    show ?thesis
    proof (cases "fst (?s ! i) \<le> t")
      case True
      have "Max (switches_by pd cpu t) = ?s ! i"
      proof (rule Max_eqI)
        show "?s ! i \<in> switches_by pd cpu t"
          using i(1) True by (simp add: set)
        fix e
        assume "e \<in> switches_by pd cpu t"
        then obtain k where "k < length ?s" "e = ?s ! k" "fst e \<le> t"
          by (auto simp: set in_set_conv_nth)
        then have "k \<le> i"
          using i(3) by (meson not_le)
        then show "e \<le> ?s ! i"
          using \<open>e = ?s ! k\<close> i(1) schedule_sorted by (simp add: sorted_nth_mono)
      qed (simp add: set)
      moreover have "?s ! i \<in> switches_by pd cpu t"
        using i(1) True by (simp add: set)
      ultimately show ?thesis
        using assms(1,3) i(1) True i_def by (auto simp: run_task_def Let_def split: prod.splits)
    next
      case False
      then have "i = 0"
        using i(2) by simp
      have "switches_by pd cpu t = {}"
        using i(3) False \<open>i = 0\<close> by (auto simp: set in_set_conv_nth not_le) (metis gr0I not_le fst_conv)
      then show ?thesis
        using assms(1,3) False i_def by (simp add: run_task_def)
    qed
  qed
qed

definition demo_sideband :: perf_data where
  "demo_sideband =
     \<lparr>pd_info = intel_pt_info_default,
      pd_sideband = [SbSwitch 7 8 0 100 False, SbSwitch 7 8 0 150 True, SbItraceStart 5 5 0 0, SbSwitch 9 9 1 160 False],
      pd_blobs = [], pd_sample_type = 0\<rparr>"

lemma running_task_witness:
  "nd_pid (run_task (decode_env\<lparr>ne_schedule := schedule_for_cpu demo_sideband 0\<rparr>) (Some 170) (native_init [] None False)) = 7"
proof -
  let ?en = "decode_env\<lparr>ne_schedule := schedule_for_cpu demo_sideband 0\<rparr>"
  have "switches_by demo_sideband 0 170 = {(100, 7, 8), (0, 5, 5)}"
    by (auto simp: switches_by_def switched_in_def demo_sideband_def List.map_filter_simps)
  moreover have "Max {(100, 7, 8), (0, 5, 5)} = (100::nat, 7::nat, 8::nat)"
    by (rule Max_eqI) auto
  ultimately show ?thesis
    using running_task [of ?en demo_sideband 0 "native_init [] None False" 170, OF _ _ refl]
    by (simp add: decode_env_def native_init_def)
qed

end
