(* ===== verification/Native_Merge.thy ===== *)
theory Native_Merge
  imports Native_Props
begin

text \<open>
  The streams of the native decoder in the merge of \<^verbatim>\<open>service.rs\<close>: what becomes of an overflow, and of the
  order of a worker that decodes several pieces.
\<close>

section \<open>Running the loop by hand\<close>

lemma decode_loop_sync:
  "sync_step en ops st = (True, st') \<Longrightarrow> decode_loop en ops False st = decode_loop en ops True st'"
  "sync_step en ops st = (False, st') \<Longrightarrow> decode_loop en ops False st = Some (Inr st')"
  by (subst decode_loop.simps, simp)+

lemma decode_loop_step:
  "decode_step en ops st = Some (Inr (Resume st')) \<Longrightarrow> decode_loop en ops True st = decode_loop en ops True st'"
  "decode_step en ops st = Some (Inr (NextSync st')) \<Longrightarrow> decode_loop en ops True st = decode_loop en ops False st'"
  by (subst decode_loop.simps, simp)+

section \<open>A piece with one overflow\<close>

text \<open>A decoder on a buffer with one PSB and, at the given time, one overflow of the trace ring.\<close>

definition overflow_ops :: "(nat \<times> nat) decoder_ops" where
  "overflow_ops =
     \<lparr>op_sync_forward = (\<lambda>(t, k). if k = 0 then (None, (t, 1)) else (Some (PtEos, ''eos''), (t, k))),
      op_sync_offset = (\<lambda>_. Some 0), op_set_sync = (\<lambda>_ d. (Some (PtOther, ''no''), d)),
      op_next = (\<lambda>(t, k). if k = 1
         then (Inr (\<lparr>b_ip = 0, b_end = 0, b_ninsn = 0, b_iclass = 0, b_size = 0\<rparr>,
                    \<lparr>st_event_pending = True, st_eos = False\<rparr>), (t, 2))
         else (Inl (PtEos, ''eos''), (t, k))),
      op_event = (\<lambda>(t, k). (Inr (\<lparr>ev_kind = EvOverflow, ev_tsc = Some t, ev_ip_suppressed = False\<rparr>,
                              \<lparr>st_event_pending = False, st_eos = False\<rparr>), (t, 3))),
      op_time = (\<lambda>(t, k). Some t), op_offset = (\<lambda>(t, k). Some k),
      op_resync = (\<lambda>d. (Inl (PtOther, ''no''), d)), op_set_image = (\<lambda>_ d. d)\<rparr>"

definition overflow_record :: "nat \<Rightarrow> tagged" where
  "overflow_record t = (Some t, RLost \<lparr>l_time = Some t, l_cpu = Some 0, l_lost = 1\<rparr>)"

lemma overflow_decoded:
  assumes "t < u64_max"
  shows "decode_blob decode_env overflow_ops sent (t, 0) = Some (Inr (0, sent @ [[overflow_record t]]))"
proof -
  have ns: "tsc_to_ns (intel_pt_info_default\<lparr>pi_time_mult := 1\<rparr>) t = t"
    using assms by (simp add: tsc_to_ns_def intel_pt_info_default_def wadd_def wmul_def u64_max_def Let_def)
  have adv: "advance [(0, 7, 8)] 0 t = 0"
    by (simp add: advance.simps)
  define st0 where "st0 = native_init sent None (t, 0 :: nat)"
  define st1 where "st1 = st0\<lparr>nd_dec := (t, 1)\<rparr>"
  have "sync_step decode_env overflow_ops st0 = (True, st1)"
    by (simp add: st1_def st0_def sync_step_def native_init_def overflow_ops_def after_sync_def)
  note l1 = decode_loop_sync(1) [OF this]
  define st2 where "st2 = st1\<lparr>nd_dec := (t, 3), nd_batch := [overflow_record t], nd_pid := 7, nd_tid := 8,
      nd_last_time := Some t, nd_blocks := 1, nd_image_for := 7, nd_image_cache := [7 \<mapsto> []]\<rparr>"
  have "decode_step decode_env overflow_ops st1 = Some (Inr (Resume st2))"
    using assms ns adv
    by (simp add: decode_step_def on_block_def st1_def st0_def st2_def native_init_def overflow_ops_def decode_env_def
        known_time_def loop_guard_def block_branch_def detail_def event_loop.simps handle_event_def run_task_def
        push_tagged_def overflow_record_def finish_block_def select_image_def cached_image_def image_key_def is_foreign_def
        task_maps_def build_image_def List.map_filter_simps try_bind_def u32_max_def Let_def)
  note l2 = decode_loop_step(1) [OF this]
  have "decode_step decode_env overflow_ops st2 = Some (Inr (NextSync st2))"
    by (simp add: decode_step_def on_decode_error_def st2_def st1_def st0_def native_init_def overflow_ops_def)
  note l3 = decode_loop_step(2) [OF this]
  have "sync_step decode_env overflow_ops st2 = (False, st2)"
    by (simp add: sync_step_def after_sync_def st2_def st1_def st0_def native_init_def overflow_ops_def)
  note l4 = decode_loop_sync(2) [OF this]
  have "flush_batch decode_env st2 = Inr (st2\<lparr>nd_batch := [], nd_sent := sent @ [[overflow_record t]], nd_mono := t\<rparr>)"
    by (simp add: flush_batch_def st2_def st1_def st0_def native_init_def decode_env_def overflow_record_def)
  moreover have "nd_emitted st2 = 0"
    by (simp add: st2_def st1_def st0_def native_init_def)
  ultimately show ?thesis
    using l1 l2 l3 l4
    by (simp add: decode_blob_def decode_plan_def st0_def [symmetric] decode_env_def try_bind_def)
qed

lemma native_stream_ordered_witness:
  "decode_blob decode_env overflow_ops [] (9, 0) = Some (Inr (0, [[overflow_record 9]])) \<and> worker_record decode_env (snd (overflow_record 9))"
proof -
  have run: "decode_blob decode_env overflow_ops [] (9, 0) = Some (Inr (0, [[overflow_record 9]]))"
    using overflow_decoded [of 9 "[]"] by (simp add: u64_max_def)
  then show ?thesis
    using native_stream_ordered [OF run] by auto
qed

text \<open>The merge takes losses from the sideband stream only: the gap of the ring's overflow never reaches
  the consumer.\<close>

lemma overflow_not_delivered:
  "worker_run (\<lambda>_. decode_env) overflow_ops (\<lambda>bs. Inr (hd bs, 0)) [9] [(0, \<lparr>ab_cpu = 0, ab_tid = 8, ab_bytes = 1, ab_file_offset = 0\<rparr>)] 0 [] =
     Some (Inr (0, [[overflow_record 9]]))"
  "merge_records [[], [[overflow_record 9]]] sink s = Inr s"
proof -
  show "worker_run (\<lambda>_. decode_env) overflow_ops (\<lambda>bs. Inr (hd bs, 0)) [9] [(0, \<lparr>ab_cpu = 0, ab_tid = 8, ab_bytes = 1, ab_file_offset = 0\<rparr>)] 0 [] =
      Some (Inr (0, [[overflow_record 9]]))"
    using overflow_decoded [of 9 "[]"] by (simp add: u64_max_def sat_add64_def)
  show "merge_records [[], [[overflow_record 9]]] sink s = Inr s"
    by (simp add: merge_records_def rx_new_def rx_next.simps tag_key_def overflow_record_def merge_loop.simps
        sideband_def)
qed

text \<open>Two pieces of one worker: the second starts its own clock, and the stream is not in order.\<close>

lemma worker_stream_unordered:
  "\<exists>sent. worker_run (\<lambda>_. decode_env) overflow_ops (\<lambda>bs. Inr (hd bs, 0)) [9, 4]
     [(0, \<lparr>ab_cpu = 0, ab_tid = 8, ab_bytes = 1, ab_file_offset = 0\<rparr>),
      (1, \<lparr>ab_cpu = 1, ab_tid = 8, ab_bytes = 1, ab_file_offset = 1\<rparr>)] 0 [] = Some (Inr (0, sent)) \<and>
     \<not> sorted (times (concat sent))"
proof -
  have "worker_run (\<lambda>_. decode_env) overflow_ops (\<lambda>bs. Inr (hd bs, 0)) [9, 4]
     [(0, \<lparr>ab_cpu = 0, ab_tid = 8, ab_bytes = 1, ab_file_offset = 0\<rparr>),
      (1, \<lparr>ab_cpu = 1, ab_tid = 8, ab_bytes = 1, ab_file_offset = 1\<rparr>)] 0 [] =
     Some (Inr (0, [[overflow_record 9], [overflow_record 4]]))"
    using overflow_decoded [of 9 "[]"] overflow_decoded [of 4 "[[overflow_record 9]]"]
    by (simp add: u64_max_def sat_add64_def)
  moreover have "times (concat [[overflow_record 9], [overflow_record 4]]) = [9, 4]"
    by (simp add: times_def overflow_record_def List.map_filter_simps)
  ultimately show ?thesis by simp
qed

section \<open>Planned regions\<close>

text \<open>A decoder on a buffer with two PSBs, a loss after each, that runs on over the second PSB, as libipt does: the
  position and the next PSB to synchronise to.\<close>

definition two_regions :: "(nat \<times> nat) decoder_ops" where
  "two_regions =
     \<lparr>op_sync_forward = (\<lambda>(p, q). if q < 2 then (None, (q, q + 1)) else (Some (PtEos, ''eos''), (p, q))),
      op_sync_offset = (\<lambda>(p, q). Some p), op_set_sync = (\<lambda>off (p, q). (None, (off, q))),
      op_next = (\<lambda>(p, q). if p < 2
         then (Inr (\<lparr>b_ip = 0, b_end = 0, b_ninsn = 0, b_iclass = 0, b_size = 0\<rparr>,
                    \<lparr>st_event_pending = True, st_eos = False\<rparr>), (p + 1, q))
         else (Inl (PtEos, ''eos''), (p, q))),
      op_event = (\<lambda>(p, q). (Inr (\<lparr>ev_kind = EvOverflow, ev_tsc = Some (4 + p), ev_ip_suppressed = False\<rparr>,
                              \<lparr>st_event_pending = False, st_eos = False\<rparr>), (p, q))),
      op_time = (\<lambda>(p, q). Some (4 + p)), op_offset = (\<lambda>(p, q). Some p),
      op_resync = (\<lambda>d. (Inl (PtOther, ''no''), d)), op_set_image = (\<lambda>_ d. d)\<rparr>"

lemma two_regions_ops:
  "op_sync_forward two_regions (p, q) = (if q < 2 then (None, (q, q + 1)) else (Some (PtEos, ''eos''), (p, q)))"
  "op_sync_offset two_regions (p, q) = Some p" "op_set_sync two_regions off (p, q) = (None, (off, q))"
  "op_next two_regions (p, q) = (if p < 2
     then (Inr (\<lparr>b_ip = 0, b_end = 0, b_ninsn = 0, b_iclass = 0, b_size = 0\<rparr>,
                \<lparr>st_event_pending = True, st_eos = False\<rparr>), (p + 1, q))
     else (Inl (PtEos, ''eos''), (p, q)))"
  "op_event two_regions (p, q) = (Inr (\<lparr>ev_kind = EvOverflow, ev_tsc = Some (4 + p), ev_ip_suppressed = False\<rparr>,
     \<lparr>st_event_pending = False, st_eos = False\<rparr>), (p, q))"
  "op_time two_regions (p, q) = Some (4 + p)" "op_offset two_regions (p, q) = Some p"
  "op_set_image two_regions img (p, q) = (p, q)"
  by (simp_all add: two_regions_def)

definition window_env :: native_env where
  "window_env = decode_env\<lparr>ne_instructions := Some (7, 8, 0, 100)\<rparr>"

lemma small_times: "t < 1000 \<Longrightarrow> tsc_to_ns (intel_pt_info_default\<lparr>pi_time_mult := 1\<rparr>) t = t"
  by (simp add: tsc_to_ns_def intel_pt_info_default_def wadd_def wmul_def Let_def)

lemma two_regions_plan:
  "decode_plan window_env two_regions (0, 0) = Some (Some [0, 1], (2, 2))"
proof -
  have drain: "drain two_regions \<lparr>st_event_pending = True, st_eos = False\<rparr> (p, q) = Some (p, q)" for p q
    by (subst drain.simps, simp add: two_regions_ops, subst drain.simps, simp)
  have time: "known_time window_env two_regions (p, q) = Some (4 + p)" if "p < 3" for p q
    using that small_times [of "4 + p"]
    by (simp add: known_time_def window_env_def decode_env_def two_regions_ops u64_max_def)
  have "index_loop window_env two_regions (0, 0) [] = index_loop window_env two_regions (1, 1) [(0, 5)]"
    by (subst index_loop.simps) (simp add: two_regions_ops drain time)
  also have "\<dots> = index_loop window_env two_regions (2, 2) [(0, 5), (1, 6)]"
    by (subst index_loop.simps) (simp add: two_regions_ops drain time numeral_2_eq_2)
  also have "\<dots> = Some ([(0, 5), (1, 6)], (2, 2))"
    by (subst index_loop.simps) (simp add: two_regions_ops)
  finally have "index_loop window_env two_regions (0, 0) [] = Some ([(0, 5), (1, 6)], (2, 2))" .
  moreover have "ne_instructions window_env = Some (7, 8, 0, 100)"
    by (simp add: window_env_def)
  ultimately show ?thesis
    by (simp add: decode_plan_def u64_max_def)
qed

text \<open>The state while the window is decoded.\<close>

definition in_window :: "nat \<times> nat \<Rightarrow> tagged list \<Rightarrow> nat \<Rightarrow> nat list \<Rightarrow> nat option \<Rightarrow> (nat \<times> nat) native_state" where
  "in_window d b n q t = (native_init [] (Some q) d)\<lparr>nd_batch := b, nd_pid := 7, nd_tid := 8, nd_last_time := t,
     nd_blocks := n, nd_image_for := 7, nd_image_cache := [7 \<mapsto> []]\<rparr>"

lemmas window_step = decode_step_def on_block_def native_init_def in_window_def two_regions_ops window_env_def
  decode_env_def known_time_def loop_guard_def block_branch_def detail_def event_loop.simps handle_event_def
  run_task_def push_tagged_def overflow_record_def finish_block_def select_image_def cached_image_def image_key_def is_foreign_def
  task_maps_def build_image_def List.map_filter_simps try_bind_def u32_max_def u64_max_def Let_def advance.simps
  small_times small_times [simplified] emit_instructions_def locate_def

lemma window_block:
  assumes "p < 2" "n < 10" "length b < 10"
  shows "decode_step window_env two_regions (in_window (p, 2) b n q t) =
      Some (Inr (Resume (in_window (p + 1, 2) (b @ [overflow_record (5 + p)]) (n + 1) q (Some (5 + p)))))"
  using assms by (simp add: window_step)

lemma window_first:
  "decode_step window_env two_regions ((native_init [] (Some [1]) (0, 2))) =
     Some (Inr (Resume (in_window (1, 2) [overflow_record 5] 1 [1] (Some 5))))"
  by (simp add: window_step)

lemma window_end:
  "decode_step window_env two_regions (in_window (2, 2) b n q t) = Some (Inr (NextSync (in_window (2, 2) b n q t)))"
  by (simp add: decode_step_def on_decode_error_def two_regions_ops in_window_def native_init_def)

text \<open>The decoder has run through the second region when it is asked to decode that region again.\<close>

lemma planned_regions_repeat:
  "decode_blob window_env two_regions [] (0, 0) =
     Some (Inr (0, [[overflow_record 5, overflow_record 6, overflow_record 6]]))"
proof -
  have "sync_step window_env two_regions (native_init [] (Some [0, 1]) (2, 2)) = (True, native_init [] (Some [1]) (0, 2))"
    by (simp add: sync_step_def after_sync_def native_init_def two_regions_ops)
  note l1 = decode_loop_sync(1) [OF this]
  note l2 = decode_loop_step(1) [OF window_first]
  note l3 = decode_loop_step(1) [OF window_block [of 1 1 "[overflow_record 5]" "[1]" "Some 5"]]
  note l4 = decode_loop_step(2) [OF window_end]
  have "sync_step window_env two_regions (in_window (2, 2) b n [1] t) = (True, in_window (1, 2) b n [] t)" for b n t
    by (simp add: sync_step_def after_sync_def in_window_def native_init_def two_regions_ops)
  note l5 = decode_loop_sync(1) [OF this]
  note l6 = decode_loop_step(1) [OF window_block [of 1 2 "[overflow_record 5, overflow_record 6]" "[]" "Some 6"]]
  have "sync_step window_env two_regions (in_window (2, 2) b n [] t) = (False, in_window (2, 2) b n [] t)" for b n t
    by (simp add: sync_step_def in_window_def native_init_def)
  note l7 = decode_loop_sync(2) [OF this]
  let ?b = "[overflow_record 5, overflow_record 6, overflow_record 6]"
  have "decode_loop window_env two_regions False (native_init [] (Some [0, 1]) (2, 2)) =
      Some (Inr (in_window (2, 2) ?b 3 [] (Some 6)))"
    using l2 l3 l6 unfolding l1
    by (simp add: l4 [unfolded numeral_2_eq_2] l5 [unfolded numeral_2_eq_2 One_nat_def] l7 [unfolded numeral_2_eq_2]
        numeral_2_eq_2 numeral_3_eq_3)
  moreover have "flush_batch window_env (in_window (2, 2) ?b 3 [] (Some 6)) =
      Inr ((in_window (2, 2) ?b 3 [] (Some 6))\<lparr>nd_batch := [], nd_sent := [?b], nd_mono := 6\<rparr>)"
    by (simp add: flush_batch_def in_window_def native_init_def window_env_def decode_env_def overflow_record_def)
  moreover have "nd_emitted (in_window d b n q t) = 0" for d b n q t
    by (simp add: in_window_def native_init_def)
  ultimately show ?thesis
    by (simp add: decode_blob_def two_regions_plan try_bind_def)
qed

end
