(* ===== verification/Fast_Line.thy ===== *)
theory Fast_Line
  imports Perf_Records
begin

text \<open>
  \<^verbatim>\<open>src/decode/perf_script/fastline.rs\<close>: the scanner that reads the sample lines
  of \<^verbatim>\<open>perf script\<close>. It walks the bytes with raw pointers, decodes numbers from
  16-byte windows with masked arithmetic and reads up to 32 bytes past the end of
  the line. The cursor is a position in a block of readable bytes; the remaining
  length is the pointer difference read as \<^verbatim>\<open>usize\<close>, and a load outside of the
  block is the value \<open>Fault\<close>. A second, plain definition of every scanner over
  the bytes of the line alone is the reference they are proved against.
\<close>

unbundle bit_operations_syntax

section \<open>Tables\<close>

definition GUARD :: nat where
  "GUARD = 32"

definition INVALID :: nat where
  "INVALID = 255"

text \<open>The two loops that fill \<^verbatim>\<open>HEX_LUT\<close>.\<close>

definition HEX_LUT :: "nat list" where
  "HEX_LUT =
     (let t = fold (\<lambda>i t. t[48 + i := i]) [0..<10] (replicate 256 INVALID)
      in fold (\<lambda>i t. (t[97 + i := 10 + i])[65 + i := 10 + i]) [0..<6] t)"

definition POW10 :: "nat list" where
  "POW10 = [1, 10, 100, 1000, 10000, 100000, 1000000, 10000000, 100000000, 1000000000]"

section \<open>The cursor\<close>

text \<open>
  \<open>Reject\<close> is the early \<^verbatim>\<open>return None\<close>; \<open>Fault\<close> a read outside of the readable
  bytes, undefined behaviour in Rust.
\<close>

datatype stop = Reject | Fault

type_synonym 'a scan = "stop + 'a"

datatype cur = Cur (cu_mem: string) (cu_p: nat) (cu_end: nat)

text \<open>\<^verbatim>\<open>offset_from\<close> cast to \<^verbatim>\<open>usize\<close>: past the end the difference wraps.\<close>

definition cu_rem :: "cur \<Rightarrow> nat" where
  "cu_rem c = nat ((int (cu_end c) - int (cu_p c)) mod 2 ^ 64)"

definition load :: "cur \<Rightarrow> nat \<Rightarrow> nat \<Rightarrow> string scan" where
  "load c off n =
     (if cu_p c + off + n \<le> length (cu_mem c)
      then Inr (take n (drop (cu_p c + off) (cu_mem c)))
      else Inl Fault)"

definition load16 :: "cur \<Rightarrow> string scan" where
  "load16 c = load c 0 16"

text \<open>A little-endian \<^verbatim>\<open>u64\<close>.\<close>

definition le64 :: "string \<Rightarrow> 64 word" where
  "le64 bs = foldr (\<lambda>b w. push_bit 8 w OR of_nat (of_char b)) bs 0"

definition load8 :: "cur \<Rightarrow> 64 word scan" where
  "load8 c = map_sum id le64 (load c 0 8)"

definition adv :: "nat \<Rightarrow> cur \<Rightarrow> cur" where
  "adv n c = Cur (cu_mem c) (cu_p c + n) (cu_end c)"

definition peek :: "cur \<Rightarrow> char scan" where
  "peek c = map_sum id hd (load c 0 1)"

section \<open>Scanners\<close>

definition trailing_zeros :: "'a::len word \<Rightarrow> nat" where
  "trailing_zeros w =
     (case position (bit w) [0..<LENGTH('a)] of None \<Rightarrow> LENGTH('a) | Some i \<Rightarrow> i)"

text \<open>The mask with a bit for every byte of the window that satisfies \<open>P\<close>.\<close>

definition mask_of :: "(char \<Rightarrow> bool) \<Rightarrow> string \<Rightarrow> 32 word" where
  "mask_of P w =
     foldl (\<lambda>m (i, b). m OR push_bit i (of_bool (P b))) 0 (enumerate 0 w)"

definition window_len :: "(char \<Rightarrow> bool) \<Rightarrow> string \<Rightarrow> nat \<Rightarrow> nat" where
  "window_len P w r = trailing_zeros (mask_of P w OR push_bit (min r 16) 1)"

text \<open>\<^verbatim>\<open>b.wrapping_sub(b'0')\<close> on a byte.\<close>

definition dec_digit :: "char \<Rightarrow> nat" where
  "dec_digit b = (of_char b + 208) mod 256"

definition dec :: "cur \<Rightarrow> (nat \<times> nat \<times> cur) scan" where
  "dec c =
     map_sum id
       (\<lambda>w. let n = window_len (\<lambda>b. 9 < dec_digit b) w (cu_rem c);
                v = foldl (\<lambda>v (i, d). let take1 = of_bool (i < n)
                                      in v * (1 + 9 * take1) + d * take1)
                      0 (enumerate 0 (map dec_digit w))
            in (v, n, adv n c))
       (load16 c)"

definition hex_digit :: "char \<Rightarrow> nat" where
  "hex_digit b = HEX_LUT ! of_char b"

definition hex :: "cur \<Rightarrow> (nat \<times> nat \<times> cur) scan" where
  "hex c =
     map_sum id
       (\<lambda>w. let n = window_len (\<lambda>b. hex_digit b = INVALID) w (cu_rem c);
                v = foldl (\<lambda>v (i, x). let take1 = of_bool (i < n)
                                      in push_bit (4 * take1) v OR of_nat (x * take1))
                      (0 :: 64 word)
                      (enumerate 0 (map (\<lambda>b. hex_digit b AND 15) w))
            in (unat v, n, adv n c))
       (load16 c)"

function skip_ws :: "cur \<Rightarrow> cur scan" where
  "skip_ws c =
     (let r = cu_rem c
      in if r = 0 then Inr c
         else (case load8 c of
                 Inl e \<Rightarrow> Inl e
               | Inr w \<Rightarrow>
                   (let x = w XOR 0x2020202020202020
                    in if x = 0 \<and> 8 \<le> r then skip_ws (adv 8 c)
                       else (let first = if x = 0 then 8 else trailing_zeros x div 8
                             in Inr (adv (min first r) c)))))"
  by pat_completeness auto
termination
  by (relation "measure (\<lambda>c. length (cu_mem c) - cu_p c)")
    (auto simp: load8_def load_def adv_def split: if_splits)

definition is_stop :: "char \<Rightarrow> bool" where
  "is_stop b \<longleftrightarrow> b = CHR '' '' \<or> b = CHR 0x09 \<or> b = CHR 0x0A"

function token_len_from :: "cur \<Rightarrow> nat \<Rightarrow> nat scan" where
  "token_len_from c n =
     (let r = cu_rem c
      in if n < r
         then (case load c n 16 of
                 Inl e \<Rightarrow> Inl e
               | Inr w \<Rightarrow>
                   (let k = trailing_zeros (mask_of is_stop w)
                    in if k < 16 then Inr (min (n + k) r) else token_len_from c (n + 16)))
         else Inr r)"
  by pat_completeness auto
termination
  by (relation "measure (\<lambda>(c, n). length (cu_mem c) - (cu_p c + n))")
    (auto simp: load_def split: if_splits)

definition token_len :: "cur \<Rightarrow> nat scan" where
  "token_len c = token_len_from c 0"

definition token :: "cur \<Rightarrow> string scan" where
  "token c = (case token_len c of Inl e \<Rightarrow> Inl e | Inr n \<Rightarrow> load c 0 n)"

definition starts_with :: "string \<Rightarrow> cur \<Rightarrow> bool scan" where
  "starts_with lit c =
     (if cu_rem c < length lit then Inr False
      else map_sum id (\<lambda>bs. bs = lit) (load c 0 (length lit)))"

definition is_hex_token :: "string \<Rightarrow> bool" where
  "is_hex_token tok \<longleftrightarrow>
     tok \<noteq> [] \<and> length tok \<le> 16 \<and> list_all (\<lambda>b. hex_digit b \<noteq> INVALID) tok"

declare skip_ws.simps [simp del] token_len_from.simps [simp del]

section \<open>Reference scanners\<close>

definition is_digit :: "nat \<Rightarrow> char \<Rightarrow> bool" where
  "is_digit b c \<longleftrightarrow> digit_val b c \<noteq> None"

definition run_of :: "nat \<Rightarrow> string \<Rightarrow> string" where
  "run_of b s = takeWhile (is_digit b) (take 16 s)"

definition num_of :: "nat \<Rightarrow> string \<Rightarrow> nat" where
  "num_of b ds = (case digits_val b 0 ds of None \<Rightarrow> 0 | Some v \<Rightarrow> v)"

definition skip_spaces :: "string \<Rightarrow> string" where
  "skip_spaces s = dropWhile (\<lambda>b. b = CHR '' '') s"

definition token_of :: "string \<Rightarrow> string" where
  "token_of s = takeWhile (\<lambda>b. \<not> is_stop b) s"

definition is_hex_word :: "string \<Rightarrow> bool" where
  "is_hex_word tok \<longleftrightarrow> tok \<noteq> [] \<and> length tok \<le> 16 \<and> list_all (is_digit 16) tok"

section \<open>Masks and windows\<close>

lemma trailing_zeros_eq:
  fixes w :: "'a::len word"
  assumes "k < LENGTH('a)" "bit w k" "\<And>j. j < k \<Longrightarrow> \<not> bit w j"
  shows "trailing_zeros w = k"
proof (cases "position (bit w) [0..<LENGTH('a)]")
  case None
  then show ?thesis using assms by (auto simp: position_None_iff)
next
  case (Some i)
  from position_SomeD [OF this] have i: "i < LENGTH('a)" "bit w i" "\<forall>j<i. \<not> bit w j"
    by auto
  have "i = k" by (metis assms(2,3) i(2,3) linorder_neqE_nat)
  with Some show ?thesis by (simp add: trailing_zeros_def)
qed

lemma bit_mask_of:
  assumes "length w \<le> 32"
  shows "bit (mask_of P w) i \<longleftrightarrow> i < length w \<and> P (w ! i)"
  using assms unfolding mask_of_def
proof (induction w rule: rev_induct)
  case Nil
  then show ?case by simp
next
  case (snoc b w)
  then show ?case
    by (cases "i = length w")
      (auto simp: enumerate_append_eq nth_append bit_or_iff bit_push_bit_iff bit_of_bool_iff)
qed

lemma length_takeWhile_eq:
  assumes "k \<le> length xs" "\<And>j. j < k \<Longrightarrow> P (xs ! j)" "k < length xs \<Longrightarrow> \<not> P (xs ! k)"
  shows "length (takeWhile P xs) = k"
  using assms by (metis linorder_le_less_linear linorder_neqE_nat nth_length_takeWhile
      length_takeWhile_le order_le_less takeWhile_nth set_takeWhileD nth_mem nth_length_takeWhile)

lemma window_len_eq:
  assumes "length w = 16"
  shows "window_len P w r = min (length (takeWhile (\<lambda>b. \<not> P b) w)) r"
proof -
  define t where "t = length (takeWhile (\<lambda>b. \<not> P b) w)"
  define u where "u = mask_of P w OR push_bit (min r 16) 1"
  have t: "t \<le> 16" using assms length_takeWhile_le [of "\<lambda>b. \<not> P b" w] by (simp add: t_def)
  have bits: "bit u i \<longleftrightarrow> i < 16 \<and> P (w ! i) \<or> i = min r 16" for i
    unfolding u_def using assms
    by (auto simp: bit_mask_of bit_or_iff bit_exp_iff)
  have "trailing_zeros u = min t (min r 16)"
  proof (rule trailing_zeros_eq)
    show "bit u (min t (min r 16))"
    proof (cases "t < min r 16")
      case True
      then have "\<not> \<not> P (w ! t)"
        using assms unfolding t_def
        by (intro nth_length_takeWhile) simp
      then show ?thesis using True by (simp add: bits)
    next
      case False
      then have "min t (min r 16) = min r 16" by linarith
      then show ?thesis by (simp add: bits)
    qed
    show "\<not> bit u j" if j: "j < min t (min r 16)" for j
    proof -
      have "j < length (takeWhile (\<lambda>b. \<not> P b) w)" using j by (simp add: t_def)
      then have "\<not> P (w ! j)" by (metis nth_mem set_takeWhileD takeWhile_nth)
      moreover have "j \<noteq> min r 16" using j by linarith
      ultimately show ?thesis by (simp add: bits)
    qed
  qed simp
  then show ?thesis using t by (simp add: window_len_def u_def t_def)
qed

lemma byte_minus_0:
  "48 \<le> n \<Longrightarrow> n \<le> 57 \<Longrightarrow> (n + 208) mod 256 = n - 48"
  "n < 48 \<Longrightarrow> (n + 208) mod 256 = n + 208"
  "57 < n \<Longrightarrow> n < 256 \<Longrightarrow> (n + 208) mod 256 = n - 48" for n :: nat
  by (auto simp: mod_if)

lemma is_digit_10: "is_digit 10 b \<longleftrightarrow> 48 \<le> (of_char b :: nat) \<and> of_char b \<le> (57 :: nat)"
  by (auto simp: is_digit_def digit_val_def Let_def)

lemma dec_digit_iff: "9 < dec_digit b \<longleftrightarrow> \<not> is_digit 10 b"
proof -
  define n :: nat where "n = of_char b"
  have n: "n < 256" by (simp add: n_def nat_of_char_less_256)
  have "9 < (n + 208) mod 256 \<longleftrightarrow> \<not> (48 \<le> n \<and> n \<le> 57)"
    using byte_minus_0 [of n] n by (cases "n < 48"; cases "57 < n") simp_all
  then show ?thesis by (simp add: dec_digit_def is_digit_10 n_def)
qed

lemma dec_digit_val: "is_digit 10 b \<Longrightarrow> digit_val 10 b = Some (dec_digit b)"
  by (auto simp: is_digit_10 digit_val_def dec_digit_def byte_minus_0 Let_def)

lemma fill_digits:
  "48 + k \<le> length t \<Longrightarrow>
   fold (\<lambda>i t. t[48 + i := i]) [0..<k] t ! j = (if 48 \<le> j \<and> j < 48 + k then j - 48 else t ! j) \<and>
   length (fold (\<lambda>i t. t[48 + i := i]) [0..<k] t) = length t"
  by (induction k) (auto simp: nth_list_update)

lemma fill_letters:
  "97 + k \<le> length t \<Longrightarrow> k \<le> 26 \<Longrightarrow>
   fold (\<lambda>i t. (t[97 + i := 10 + i])[65 + i := 10 + i]) [0..<k] t ! j =
     (if 97 \<le> j \<and> j < 97 + k then j - 87 else if 65 \<le> j \<and> j < 65 + k then j - 55 else t ! j) \<and>
   length (fold (\<lambda>i t. (t[97 + i := 10 + i])[65 + i := 10 + i]) [0..<k] t) = length t"
  by (induction k) (auto simp: nth_list_update)

lemma HEX_LUT_nth:
  "j < 256 \<Longrightarrow> HEX_LUT ! j =
     (if 97 \<le> j \<and> j < 103 then j - 87 else if 65 \<le> j \<and> j < 71 then j - 55
      else if 48 \<le> j \<and> j < 58 then j - 48 else 255)"
  unfolding HEX_LUT_def Let_def
  by (subst fill_letters [THEN conjunct1]) (simp_all add: fill_digits INVALID_def)

lemma hex_digit_eq: "hex_digit b = (case digit_val 16 b of None \<Rightarrow> 255 | Some v \<Rightarrow> v)"
  by (auto simp: hex_digit_def HEX_LUT_nth nat_of_char_less_256 digit_val_def Let_def)

lemma digit_val_less: "digit_val b c = Some v \<Longrightarrow> v < b"
  by (auto simp: digit_val_def Let_def split: if_splits)

lemma hex_digit_iff: "hex_digit b = INVALID \<longleftrightarrow> \<not> is_digit 16 b"
  by (auto simp: hex_digit_eq is_digit_def INVALID_def dest: digit_val_less split: option.splits)

lemma hex_digit_val: "is_digit 16 b \<Longrightarrow> digit_val 16 b = Some (hex_digit b) \<and> hex_digit b < 16"
  by (auto simp: hex_digit_eq is_digit_def dest: digit_val_less split: option.splits)

lemma is_hex_token_eq: "is_hex_token = is_hex_word"
  by (auto simp: fun_eq_iff is_hex_token_def is_hex_word_def hex_digit_iff list_all_iff)

lemma masked_fold_dec:
  "foldl (\<lambda>v (i, d). let take1 = of_bool (i < n) in v * (1 + 9 * take1) + d * take1)
     (v0 :: nat) (enumerate 0 ds) = foldl (\<lambda>v d. v * 10 + d) v0 (take n ds)"
  by (induction ds rule: rev_induct) (auto simp: enumerate_append_eq)

lemma masked_fold_hex:
  "foldl (\<lambda>v (i, x). let take1 = of_bool (i < n) in push_bit (4 * take1) v OR of_nat (x * take1))
     (v0 :: 64 word) (enumerate 0 xs) = foldl (\<lambda>v x. push_bit 4 v OR of_nat x) v0 (take n xs)"
  by (induction xs rule: rev_induct) (auto simp: enumerate_append_eq)

lemma digits_val_foldl:
  "\<lbrakk>\<forall>c\<in>set s. digit_val b c = Some (f c)\<rbrakk> \<Longrightarrow>
   digits_val b a s = Some (foldl (\<lambda>v d. v * b + d) a (map f s))"
  by (induction s arbitrary: a) auto

lemma push_nibble:
  fixes v :: "64 word"
  assumes "unat v < 16 ^ k" "k < 16" "x < 16"
  shows "unat (push_bit 4 v OR of_nat x) = unat v * 16 + x"
proof -
  have small: "unat v < 2 ^ 60"
  proof -
    have "(16::nat) ^ k \<le> 16 ^ 15" using assms(2) by (intro power_increasing) auto
    with assms(1) show ?thesis by simp
  qed
  have x: "unat (of_nat x :: 64 word) = x"
    using assms(3) by (simp add: unat_of_nat take_bit_nat_eq_self)
  have "push_bit 4 v AND of_nat x = 0"
  proof (rule bit_word_eqI)
    fix n :: nat
    have "bit (of_nat x :: 64 word) n \<Longrightarrow> n < 4"
    proof -
      assume "bit (of_nat x :: 64 word) n"
      then have "bit x n" by (simp add: bit_of_nat_iff)
      moreover have "take_bit 4 x = x" using assms(3) by (simp add: take_bit_nat_eq_self)
      ultimately show "n < 4" by (metis bit_take_bit_iff)
    qed
    then show "bit (push_bit 4 v AND of_nat x) n = bit (0 :: 64 word) n"
      by (auto simp: bit_and_iff bit_push_bit_iff)
  qed
  then have "push_bit 4 v OR of_nat x = push_bit 4 v + of_nat x"
    by (simp add: disjunctive_add_eq_or)
  moreover have "unat (push_bit 4 v) = unat v * 16"
    using small by (simp add: push_bit_eq_mult unat_mult_lem [THEN iffD1])
  ultimately show ?thesis
    using small x assms(3) by (simp add: unat_word_ariths)
qed

lemma foldl_nibbles:
  assumes "length xs \<le> 16" "\<forall>x\<in>set xs. x < 16"
  shows "unat (foldl (\<lambda>v x. push_bit 4 v OR of_nat x) (0 :: 64 word) xs)
           = foldl (\<lambda>v d. v * 16 + d) 0 xs
         \<and> foldl (\<lambda>v d. v * 16 + d) 0 xs < 16 ^ length xs"
  using assms
proof (induction xs rule: rev_induct)
  case Nil
  then show ?case by simp
next
  case (snoc x xs)
  then have IH: "unat (foldl (\<lambda>v x. push_bit 4 v OR of_nat x) (0 :: 64 word) xs)
           = foldl (\<lambda>v d. v * 16 + d) 0 xs"
    and b: "foldl (\<lambda>v d. v * 16 + d) 0 xs < 16 ^ length xs" and x: "x < 16"
    and l: "length xs < 16"
    by auto
  from push_nibble [of "foldl (\<lambda>v x. push_bit 4 v OR of_nat x) 0 xs" "length xs" x] IH b x l
  show ?case by auto
qed

section \<open>The cursor and the bytes of the line\<close>

text \<open>
  \<open>view c s\<close>: the cursor stands inside the line, before its bytes \<open>s\<close>; 32 bytes
  follow the line in memory and the first of them is none of the characters the
  parser peeks for.
\<close>

definition structural :: "char set" where
  "structural = {CHR ''/'', CHR ''['', CHR '']'', CHR ''.'', CHR '':''}"

definition view :: "cur \<Rightarrow> string \<Rightarrow> bool" where
  "view c s \<longleftrightarrow>
     cu_p c \<le> cu_end c \<and> cu_end c + GUARD \<le> length (cu_mem c) \<and> length (cu_mem c) < 2 ^ 63 \<and>
     cu_mem c ! cu_end c \<notin> structural \<and> s = drop (cu_p c) (take (cu_end c) (cu_mem c))"

lemma view_rem: "view c s \<Longrightarrow> cu_rem c = length s"
proof -
  assume "view c s"
  then have "cu_p c \<le> cu_end c" "cu_end c < 2 ^ 63" "length s = cu_end c - cu_p c"
    by (auto simp: view_def GUARD_def min_def)
  then have "(int (cu_end c) - int (cu_p c)) mod 2 ^ 64 = int (length s)"
    by (subst mod_pos_pos_trivial) (auto simp: of_nat_diff)
  then show ?thesis by (simp add: cu_rem_def)
qed

lemma view_adv: "view c s \<Longrightarrow> n \<le> length s \<Longrightarrow> view (adv n c) (drop n s)"
  by (auto simp: view_def adv_def GUARD_def add.commute min_def split: if_splits)

lemma view_load:
  assumes "view c s" "n + off \<le> length s + GUARD"
  shows "\<exists>w. load c off n = Inr w \<and> length w = n \<and> take (length s - off) w = take n (drop off s)"
proof -
  from assms have b: "cu_p c + off + n \<le> length (cu_mem c)"
    and l: "length s = cu_end c - cu_p c"
    by (auto simp: view_def min_def GUARD_def)
  have "take (length s - off) (take n (drop (cu_p c + off) (cu_mem c))) = take n (drop off s)"
  proof -
    have s: "s = take (length s) (drop (cu_p c) (cu_mem c))"
      using assms(1) l by (simp add: view_def drop_take)
    have "drop off s = take (length s - off) (drop (cu_p c + off) (cu_mem c))"
      by (subst s) (simp add: drop_take add.commute)
    then show ?thesis by (simp add: min.commute)
  qed
  with b show ?thesis by (simp add: load_def)
qed

lemma view_peek:
  assumes "view c s"
  shows "\<exists>ch. peek c = Inr ch \<and> (\<forall>x\<in>structural. ch = x \<longleftrightarrow> s \<noteq> [] \<and> hd s = x)"
proof -
  obtain w where w: "load c 0 1 = Inr w" "length w = 1" "take (length s) w = take 1 s"
    using view_load [OF assms, of 1 0] by (auto simp: GUARD_def)
  show ?thesis
  proof (cases s)
    case Nil
    then have "cu_p c = cu_end c" "cu_end c < length (cu_mem c)"
      using assms by (auto simp: view_def GUARD_def)
    then have "hd w = cu_mem c ! cu_end c"
      using w(1,2) by (auto simp: load_def hd_drop_conv_nth split: if_splits)
    with Nil w show ?thesis using assms by (auto simp: peek_def view_def)
  next
    case (Cons a t)
    with w(2,3) have "hd w = a" by (cases w) auto
    with Cons w(1) show ?thesis by (simp add: peek_def)
  qed
qed

lemma takeWhile_nthD: "j < length (takeWhile P xs) \<Longrightarrow> P (xs ! j)"
  by (metis nth_mem set_takeWhileD takeWhile_nth)

lemma take_takeWhile_min:
  "take (min (length (takeWhile P w)) r) w = takeWhile P (take r w)"
proof (induction w arbitrary: r)
  case (Cons a w)
  then show ?case by (cases r) auto
qed simp

lemma window_run:
  assumes "view c s" "load16 c = Inr w" "length w = 16" "take (length s) w = take 16 s"
    and "\<And>b. P b \<longleftrightarrow> \<not> is_digit base b"
  shows "take (window_len P w (cu_rem c)) w = run_of base s"
    and "window_len P w (cu_rem c) = length (run_of base s)"
proof -
  have P: "(\<lambda>b. \<not> P b) = is_digit base" using assms(5) by auto
  show *: "take (window_len P w (cu_rem c)) w = run_of base s"
    using assms(3,4) by (simp add: window_len_eq P view_rem [OF assms(1)] take_takeWhile_min run_of_def)
  have "window_len P w (cu_rem c) \<le> length w"
    using assms(3) length_takeWhile_le [of "is_digit base" w] by (simp add: window_len_eq P)
  then show "window_len P w (cu_rem c) = length (run_of base s)"
    using * by (metis length_take min.absorb2)
qed

lemma run_of_digits: "c \<in> set (run_of b s) \<Longrightarrow> is_digit b c"
  by (auto simp: run_of_def dest: set_takeWhileD)

lemma length_run_of: "length (run_of b s) \<le> length s" "length (run_of b s) \<le> 16"
  unfolding run_of_def by (metis length_takeWhile_le length_take min.bounded_iff)+

lemma view_dec:
  assumes "view c s"
  shows "dec c = Inr (num_of 10 (run_of 10 s), length (run_of 10 s), adv (length (run_of 10 s)) c)"
proof -
  obtain w where w: "load16 c = Inr w" "length w = 16" "take (length s) w = take 16 s"
    using view_load [OF assms, of 16 0] by (auto simp: GUARD_def load16_def)
  note run = window_run [OF assms w, of "\<lambda>b. 9 < dec_digit b" 10, OF dec_digit_iff]
  have "digits_val 10 0 (run_of 10 s) = Some (foldl (\<lambda>v d. v * 10 + d) 0 (map dec_digit (run_of 10 s)))"
    by (rule digits_val_foldl) (auto dest: run_of_digits dec_digit_val)
  then show ?thesis
    using run unfolding dec_def w(1) masked_fold_dec map_sum.simps(2) Let_def [of "window_len _ _ _"]
    by (simp add: take_map num_of_def)
qed

lemma view_hex:
  assumes "view c s"
  shows "hex c = Inr (num_of 16 (run_of 16 s), length (run_of 16 s), adv (length (run_of 16 s)) c)"
proof -
  obtain w where w: "load16 c = Inr w" "length w = 16" "take (length s) w = take 16 s"
    using view_load [OF assms, of 16 0] by (auto simp: GUARD_def load16_def)
  note run = window_run [OF assms w, of "\<lambda>b. hex_digit b = INVALID" 16, OF hex_digit_iff]
  have nib: "map (\<lambda>b. hex_digit b AND 15) (run_of 16 s) = map hex_digit (run_of 16 s)"
  proof (rule map_cong [OF refl])
    fix b assume "b \<in> set (run_of 16 s)"
    then have "hex_digit b < 16" by (auto dest: run_of_digits hex_digit_val)
    then have "take_bit 4 (hex_digit b) = hex_digit b" by (simp add: take_bit_nat_eq_self)
    then show "hex_digit b AND 15 = hex_digit b" by (simp add: take_bit_eq_mask mask_eq_exp_minus_1)
  qed
  have "digits_val 16 0 (run_of 16 s) = Some (foldl (\<lambda>v d. v * 16 + d) 0 (map hex_digit (run_of 16 s)))"
    by (rule digits_val_foldl) (auto dest: run_of_digits hex_digit_val)
  moreover have "unat (foldl (\<lambda>v x. push_bit 4 v OR of_nat x) (0 :: 64 word) (map hex_digit (run_of 16 s)))
      = foldl (\<lambda>v d. v * 16 + d) 0 (map hex_digit (run_of 16 s))"
    by (rule foldl_nibbles [THEN conjunct1]) (auto simp: length_run_of dest: run_of_digits hex_digit_val)
  ultimately show ?thesis
    using run unfolding hex_def w(1) masked_fold_hex map_sum.simps(2) Let_def [of "window_len _ _ _"]
    by (simp add: take_map num_of_def nib)
qed

lemma view_starts_with:
  "view c s \<Longrightarrow> length lit \<le> GUARD \<Longrightarrow> starts_with lit c = Inr (prefix lit s)"
proof -
  assume v: "view c s" and "length lit \<le> GUARD"
  then obtain w where w: "load c 0 (length lit) = Inr w" "length w = length lit"
      "take (length s) w = take (length lit) s"
    using view_load [OF v, of "length lit" 0] by auto
  have "prefix lit s \<longleftrightarrow> length lit \<le> length s \<and> take (length lit) s = lit"
    by (metis append_eq_conv_conj append_take_drop_id prefixI prefix_def prefix_length_le)
  then show "starts_with lit c = Inr (prefix lit s)"
    using w by (auto simp: starts_with_def view_rem [OF v])
qed

section \<open>Skipping spaces and finding the end of a token\<close>

lemma bit_le64:
  "length bs \<le> 8 \<Longrightarrow>
   bit (le64 bs) i \<longleftrightarrow> i < 8 * length bs \<and> bit (of_char (bs ! (i div 8)) :: nat) (i mod 8)"
proof (induction bs arbitrary: i)
  case Nil
  then show ?case by (simp add: le64_def)
next
  case (Cons b bs)
  have byte: "bit (of_char b :: nat) j \<Longrightarrow> j < 8" for j
  proof -
    have "take_bit 8 (of_char b :: nat) = of_char b"
      using nat_of_char_less_256 [of b] by (simp add: take_bit_nat_eq_self)
    then show "bit (of_char b :: nat) j \<Longrightarrow> j < 8" by (metis bit_take_bit_iff)
  qed
  have cons: "le64 (b # bs) = push_bit 8 (le64 bs) OR of_nat (of_char b)"
    by (simp add: le64_def)
  show ?case
  proof (cases "i < 8")
    case True
    then show ?thesis
      by (simp add: cons bit_or_iff bit_push_bit_iff bit_of_nat_iff)
  next
    case False
    then obtain k where k: "i = k + 8" by (metis add.commute le_Suc_ex not_less)
    have A: "bit (push_bit 8 (le64 bs)) i \<longleftrightarrow> bit (le64 bs) k \<and> i < 64"
      using k by (auto simp: bit_push_bit_iff)
    have B: "\<not> bit (of_nat (of_char b) :: 64 word) i"
      using byte False by (auto simp: bit_of_nat_iff)
    have C: "bit (le64 bs) k \<longleftrightarrow> k < 8 * length bs \<and> bit (of_char (bs ! (k div 8)) :: nat) (k mod 8)"
      using Cons.IH Cons.prems by simp
    have D: "i div 8 = Suc (k div 8)" "i mod 8 = k mod 8"
      using k by simp_all
    have E: "k < 8 * length bs \<Longrightarrow> i < 64"
      using k Cons.prems by simp
    have "bit (le64 (b # bs)) i \<longleftrightarrow> k < 8 * length bs \<and> bit (of_char (bs ! (k div 8)) :: nat) (k mod 8)"
      unfolding cons bit_or_iff using A B C E by blast
    then show ?thesis
      unfolding D nth_Cons_Suc using k by simp
  qed
qed

lemma spaces_word: "(0x2020202020202020 :: 64 word) = le64 (replicate 8 CHR '' '')"
  by code_simp

lemma bit_xor_spaces:
  assumes "length bs = 8" "k < 8" "m < 8"
  shows "bit (le64 bs XOR le64 (replicate 8 CHR '' '')) (8 * k + m) \<longleftrightarrow>
         (bit (of_char (bs ! k) :: nat) m \<noteq> bit (of_char CHR '' '' :: nat) m)"
proof -
  have "(8 * k + m) div 8 = k" "(8 * k + m) mod 8 = m" "8 * k + m < 8 * 8"
    using assms by simp_all
  moreover have "bit (le64 cs) (8 * k + m) \<longleftrightarrow> bit (of_char (cs ! k) :: nat) m" if "length cs = 8" for cs
    using calculation that by (simp add: bit_le64)
  ultimately show ?thesis
    using assms by (simp only: bit_xor_iff length_replicate nth_replicate)
qed

lemma byte_differs:
  assumes "b \<noteq> (c :: char)"
  shows "\<exists>m<8. bit (of_char b :: nat) m \<noteq> bit (of_char c :: nat) m"
proof (rule ccontr)
  assume "\<not> ?thesis"
  then have "take_bit 8 (of_char b :: nat) = take_bit 8 (of_char c)"
    by (intro bit_eqI) (auto simp: bit_take_bit_iff)
  then have "(of_char b :: nat) = of_char c"
    by (simp add: take_bit_nat_eq_self nat_of_char_less_256)
  with assms show False by simp
qed

lemma first_non_space:
  assumes "length bs = 8"
  shows "let x = le64 bs XOR le64 (replicate 8 CHR '' '')
         in (x = 0 \<longleftrightarrow> (\<forall>b\<in>set bs. b = CHR '' '')) \<and>
            (x \<noteq> 0 \<longrightarrow> trailing_zeros x div 8 = length (takeWhile (\<lambda>b. b = CHR '' '') bs))"
proof -
  define x where "x = le64 bs XOR le64 (replicate 8 CHR '' '')"
  define sp :: nat where "sp = of_char CHR '' ''"
  define k where "k = length (takeWhile (\<lambda>b. b = CHR '' '') bs)"
  have bit_x: "bit x i \<longleftrightarrow> bit (of_char (bs ! (i div 8)) :: nat) (i mod 8) \<noteq>
      bit sp (i mod 8)" if "i < 64" for i
    using bit_xor_spaces [OF assms, of "i div 8" "i mod 8"] that
    unfolding sp_def [symmetric] x_def [symmetric] by simp
  have space: "bs ! j = CHR '' ''" if "j < k" for j
    using takeWhile_nthD [OF that [unfolded k_def]] .
  have zero: "\<not> bit x i" if "i < 8 * k" "i < 64" for i
    using that bit_x [of i] space [of "i div 8"]
    by (simp only: sp_def div_less_iff_less_mult mult.commute zero_less_numeral)
  show ?thesis
  proof (cases "k = 8")
    case True
    have "x = 0"
      by (rule bit_word_eqI) (use zero True in auto)
    moreover have "\<forall>b\<in>set bs. b = CHR '' ''"
      using space True assms by (auto simp: in_set_conv_nth)
    ultimately show ?thesis by (simp add: x_def Let_def)
  next
    case False
    have k8: "k < 8"
      using False assms length_takeWhile_le [of "\<lambda>b. b = CHR '' ''" bs] by (simp add: k_def)
    then have ne: "bs ! k \<noteq> CHR '' ''"
      using assms unfolding k_def by (intro nth_length_takeWhile) simp
    from byte_differs [OF this] obtain m where m: "m < 8"
        "bit (of_char (bs ! k) :: nat) m \<noteq> bit sp m"
      unfolding sp_def by blast
    have one: "bit x (8 * k + m)" using bit_x [of "8 * k + m"] m k8 by simp
    obtain t where t: "t \<le> 8 * k + m" "bit x t" "\<And>j. j < t \<Longrightarrow> \<not> bit x j"
      using one by (metis exists_least_iff leI)
    have "t < 64" using t(1) k8 m(1) by linarith
    then have tz: "trailing_zeros x = t" using t by (intro trailing_zeros_eq) auto
    have "8 * k \<le> t" using zero [of t] t(2) \<open>t < 64\<close> by (meson not_less)
    moreover have "t < 8 * Suc k" using t(1) m(1) by simp
    ultimately have "t div 8 = k" by (simp add: div_nat_eqI mult.commute)
    moreover have "x \<noteq> 0" using one by auto
    moreover have "bs ! k \<in> set bs" using k8 assms by simp
    then have "\<not> (\<forall>b\<in>set bs. b = CHR '' '')" using ne by blast
    ultimately show ?thesis by (simp add: tz x_def [symmetric] k_def [symmetric] Let_def)
  qed
qed

lemma takeWhile_first:
  "takeWhile P (take n s) = take n s \<Longrightarrow> n \<le> length s \<Longrightarrow>
   length (takeWhile P s) = n + length (takeWhile P (drop n s))"
proof -
  assume a: "takeWhile P (take n s) = take n s" "n \<le> length s"
  then have "\<forall>x\<in>set (take n s). P x"
    by (simp only: takeWhile_eq_all_conv)
  then have "takeWhile P (take n s @ drop n s) = take n s @ takeWhile P (drop n s)"
    by (intro takeWhile_append2) blast
  with a(2) show ?thesis
    by (simp only: append_take_drop_id length_append length_take min.absorb2)
qed

lemma view_skip_ws:
  "view c s \<Longrightarrow>
   skip_ws c = Inr (adv (length (takeWhile (\<lambda>b. b = CHR '' '') s)) c)"
proof (induction c arbitrary: s rule: skip_ws.induct)
  case (1 c)
  note v = "1.prems"
  let ?sp = "\<lambda>b. b = CHR '' ''"
  show ?case
  proof (cases "s = []")
    case True
    then show ?thesis using view_rem [OF v] by (simp add: skip_ws.simps [of c] adv_def)
  next
    case False
    obtain bs where bs: "load c 0 8 = Inr bs" "length bs = 8" "take (length s) bs = take 8 s"
      using view_load [OF v, of 8 0] by (auto simp: GUARD_def)
    let ?x = "le64 bs XOR 0x2020202020202020 :: 64 word"
    have l8: "load8 c = Inr (le64 bs)" by (simp add: load8_def bs(1))
    note fns = first_non_space [OF bs(2), unfolded Let_def spaces_word [symmetric]]
    have tw: "min (length (takeWhile ?sp bs)) (length s) = length (takeWhile ?sp (take 8 s))"
    proof -
      have "length (takeWhile ?sp (take (length s) bs)) = min (length (takeWhile ?sp bs)) (length s)"
        by (metis length_take min.commute take_takeWhile_min min.assoc min.absorb2 length_takeWhile_le)
      then show ?thesis by (simp add: bs(3))
    qed
    show ?thesis
    proof (cases "?x = 0 \<and> 8 \<le> length s")
      case True
      then have sp: "takeWhile ?sp (take 8 s) = take 8 s"
      proof -
        have "take 8 s = bs" using bs(2,3) True by simp
        then show ?thesis unfolding takeWhile_eq_all_conv using fns True by blast
      qed
      have "skip_ws (adv 8 c) = Inr (adv (length (takeWhile ?sp (drop 8 s))) (adv 8 c))"
        using "1.IH" [OF refl _ l8 refl] True False v by (simp add: view_rem [OF v] view_adv)
      then show ?thesis
        using takeWhile_first [OF sp] True False
        by (simp add: skip_ws.simps [of c] view_rem [OF v] l8 adv_def add.assoc)
    next
      case no: False
      have "(if ?x = 0 then 8 else trailing_zeros ?x div 8) = length (takeWhile ?sp bs)"
        using fns bs(2) by (auto simp: takeWhile_eq_all_conv [THEN iffD2])
      moreover have "length (takeWhile ?sp (take 8 s)) = length (takeWhile ?sp s)"
      proof (cases "length s < 8")
        case False
        with no have "?x \<noteq> 0" by simp
        moreover have t8: "take 8 s = bs" using bs(2,3) False by simp
        ultimately obtain b where "b \<in> set (take 8 s)" "\<not> ?sp b"
          using fns by blast
        then have "takeWhile ?sp (take 8 s @ drop 8 s) = takeWhile ?sp (take 8 s)"
          by (rule takeWhile_append1)
        then show ?thesis by (simp only: append_take_drop_id)
      qed simp
      ultimately show ?thesis
        using no False tw by (auto simp: skip_ws.simps [of c] view_rem [OF v] l8 Let_def)
    qed
  qed
qed

lemma mask_stop:
  assumes "length w = 16"
  shows "(let k = trailing_zeros (mask_of P w)
          in (k < 16 \<longleftrightarrow> (\<exists>b\<in>set w. P b)) \<and> (k < 16 \<longrightarrow> k = length (takeWhile (\<lambda>b. \<not> P b) w)))"
proof -
  define t where "t = length (takeWhile (\<lambda>b. \<not> P b) w)"
  have bits: "bit (mask_of P w) i \<longleftrightarrow> i < 16 \<and> P (w ! i)" for i
    using assms by (simp add: bit_mask_of)
  show ?thesis
  proof (cases "\<exists>b\<in>set w. P b")
    case True
    have t: "t < 16"
    proof (rule ccontr)
      assume "\<not> t < 16"
      then have "takeWhile (\<lambda>b. \<not> P b) w = w"
        using assms unfolding t_def by (metis leI take_all takeWhile_eq_take)
      with True show False unfolding takeWhile_eq_all_conv by blast
    qed
    then have "P (w ! t)"
      using assms nth_length_takeWhile [of "\<lambda>b. \<not> P b" w] by (simp add: t_def)
    moreover have "\<not> P (w ! j)" if "j < t" for j
      using takeWhile_nthD [OF that [unfolded t_def]] .
    ultimately have "trailing_zeros (mask_of P w) = t"
      using t by (intro trailing_zeros_eq) (auto simp: bits)
    with True t show ?thesis by (simp add: t_def)
  next
    case False
    then have "position (bit (mask_of P w)) [0..<32] = None"
      using assms by (auto simp: position_None_iff bits)
    with False show ?thesis by (simp add: trailing_zeros_def)
  qed
qed

lemma view_token_len_from:
  "view c s \<Longrightarrow> n \<le> length s + 15 \<Longrightarrow> \<forall>b\<in>set (take n s). \<not> is_stop b \<Longrightarrow>
   token_len_from c n = Inr (length (token_of s))"
proof (induction c n arbitrary: s rule: token_len_from.induct)
  case (1 c n)
  note v = "1.prems"(1) and rem = view_rem [OF "1.prems"(1)]
  let ?P = "\<lambda>b. \<not> is_stop b"
  show ?case
  proof (cases "n < length s")
    case False
    then have "token_of s = s"
      using "1.prems"(3) by (simp add: token_of_def)
    with False show ?thesis by (simp add: token_len_from.simps [of c n] rem)
  next
    case True
    obtain w where w: "load c n 16 = Inr w" "length w = 16" "take (length s - n) w = take 16 (drop n s)"
      using view_load [OF v, of 16 n] True by (auto simp: GUARD_def)
    let ?k = "trailing_zeros (mask_of is_stop w)"
    note m = mask_stop [OF w(2), of is_stop, unfolded Let_def]
    have split: "length (token_of s) = n + length (takeWhile ?P (drop n s))"
      unfolding token_of_def using "1.prems"(3) True
      by (intro takeWhile_first) (simp_all add: takeWhile_eq_all_conv)
    have tw: "length (takeWhile ?P (take 16 (drop n s))) = min (length (takeWhile ?P w)) (length s - n)"
      unfolding w(3) [symmetric] take_takeWhile_min [symmetric]
      using length_takeWhile_le [of ?P w] by simp
    show ?thesis
    proof (cases "?k < 16")
      case k: True
      have "length (takeWhile ?P (drop n s)) = min ?k (length s - n)"
      proof (cases "\<exists>b\<in>set (take 16 (drop n s)). \<not> ?P b")
        case True
        then have "takeWhile ?P (take 16 (drop n s) @ drop 16 (drop n s)) =
                   takeWhile ?P (take 16 (drop n s))"
          by (metis takeWhile_append1)
        then show ?thesis using tw m k by (simp only: append_take_drop_id)
      next
        case False
        then have all: "takeWhile ?P (take 16 (drop n s)) = take 16 (drop n s)"
          by (simp add: takeWhile_eq_all_conv)
        moreover have "length (drop n s) \<le> 16"
        proof (rule ccontr)
          assume "\<not> ?thesis"
          then have "take 16 (drop n s) = w" using w(2,3) by simp
          then show False using False m k by auto
        qed
        ultimately show ?thesis using tw m k by simp
      qed
      then have "length (token_of s) = min (n + ?k) (length s)"
        using split True by simp
      with k True show ?thesis by (simp add: token_len_from.simps [of c n] rem w(1) Let_def)
    next
      case k: False
      have "\<forall>b\<in>set (take (n + 16) s). \<not> is_stop b"
      proof
        fix b assume "b \<in> set (take (n + 16) s)"
        then consider "b \<in> set (take n s)" | "b \<in> set (take 16 (drop n s))"
          by (auto simp: take_add)
        then show "\<not> is_stop b"
        proof cases
          case 2
          then have "b \<in> set w" unfolding w(3) [symmetric] by (meson in_set_takeD)
          then show ?thesis using m k by blast
        qed (use "1.prems"(3) in blast)
      qed
      then have "token_len_from c (n + 16) = Inr (length (token_of s))"
        using "1.IH" [OF refl _ w(1) refl] True k v rem by simp
      with k True show ?thesis by (simp add: token_len_from.simps [of c n] rem w(1) Let_def)
    qed
  qed
qed

lemma view_token:
  assumes "view c s"
  shows "token c = Inr (token_of s)"
proof -
  have len: "token_len c = Inr (length (token_of s))"
    unfolding token_len_def using assms by (intro view_token_len_from) auto
  have le: "length (token_of s) \<le> length s"
    by (simp add: token_of_def length_takeWhile_le)
  then obtain w where w: "load c 0 (length (token_of s)) = Inr w" "length w = length (token_of s)"
      "take (length s) w = take (length (token_of s)) s"
    using view_load [OF assms, of "length (token_of s)" 0] by auto
  have "take (length (token_of s)) s = token_of s"
    by (simp add: token_of_def takeWhile_eq_take [symmetric])
  with w le len show ?thesis by (simp add: token_def)
qed

end
