(* ===== verification/Fast_Parse.thy ===== *)
theory Fast_Parse
  imports Fast_Line
begin

text \<open>
  \<^verbatim>\<open>parse_sample_guarded\<close> and \<^verbatim>\<open>parse_sample\<close> of
  \<^verbatim>\<open>src/decode/perf_script/fastline.rs\<close>, one definition per stretch of the line,
  the reference parser over plain strings, and the proof that both agree whatever
  bytes follow the line.
\<close>

section \<open>Progress of the scanners\<close>

lemma token_within: "token c = Inr t \<Longrightarrow> cu_p c + length t \<le> length (cu_mem c)"
  by (auto simp: token_def load_def split: sum.splits if_splits)

lemma skip_ws_forward:
  "skip_ws c = Inr c' \<Longrightarrow> cu_mem c' = cu_mem c \<and> cu_p c \<le> cu_p c' \<and> cu_end c' = cu_end c"
proof (induction c rule: skip_ws.induct)
  case (1 c)
  show ?case
  proof (cases "cu_rem c = 0")
    case True
    with "1.prems" show ?thesis by (simp add: skip_ws.simps [of c])
  next
    case False
    with "1.prems" obtain w where w: "load8 c = Inr w"
      by (cases "load8 c") (auto simp: skip_ws.simps [of c])
    show ?thesis
    proof (cases "w XOR 0x2020202020202020 = 0 \<and> 8 \<le> cu_rem c")
      case True
      have "skip_ws (adv 8 c) = Inr c'"
        using "1.prems" False w True by (simp add: skip_ws.simps [of c])
      from "1.IH" [OF refl False w refl True this] show ?thesis by (auto simp: adv_def)
    next
      case no: False
      with "1.prems" False w show ?thesis
        by (auto simp: skip_ws.simps [of c] adv_def Let_def split: if_splits)
    qed
  qed
qed

lemma dec_forward:
  "dec c = Inr (v, n, c') \<Longrightarrow> c' = adv n c"
  by (cases "load16 c") (auto simp: dec_def Let_def)

lemma hex_forward:
  "hex c = Inr (v, n, c') \<Longrightarrow> c' = adv n c"
  by (cases "load16 c") (auto simp: hex_def Let_def)

lemma token_len_le_rem: "token_len_from c n = Inr k \<Longrightarrow> k \<le> cu_rem c"
proof (induction c n rule: token_len_from.induct)
  case (1 c n)
  from "1.prems" show ?case
    by (subst (asm) token_len_from.simps)
      (auto simp: Let_def split: sum.splits if_splits dest!: "1.IH" [OF refl _ _ refl])
qed

lemma hex_token_forward:
  assumes "token c = Inr t" "is_hex_token t" "hex c = Inr (v, n, c')"
  shows "0 < n"
proof -
  from assms(1) obtain k where k: "token_len c = Inr k" "load c 0 k = Inr t"
    by (auto simp: token_def split: sum.splits)
  from assms(2) have t: "t \<noteq> []" "\<not> hex_digit (hd t) = INVALID"
    by (auto simp: is_hex_token_def list_all_iff)
  have kt: "k = length t" using k(2) by (auto simp: load_def split: if_splits)
  obtain w where w: "load16 c = Inr w" using assms(3) by (cases "load16 c") (auto simp: hex_def)
  then have len: "length w = 16" by (auto simp: load16_def load_def split: if_splits)
  have "hd w = hd t"
    using k(2) w t(1) kt by (auto simp: load16_def load_def split: if_splits)
      (metis hd_take length_greater_0_conv)
  then have "0 < length (takeWhile (\<lambda>b. \<not> hex_digit b = INVALID) w)"
    using t(2) len by (cases w) auto
  moreover have "0 < cu_rem c"
    using token_len_le_rem [of c 0 k] k(1) kt t(1) by (cases t) (auto simp: token_len_def)
  moreover have "n = window_len (\<lambda>b. hex_digit b = INVALID) w (cu_rem c)"
    using assms(3) w by (simp add: hex_def Let_def)
  ultimately show ?thesis using len by (simp add: window_len_eq)
qed

section \<open>The parser\<close>

definition expect :: "char \<Rightarrow> cur \<Rightarrow> cur scan" where
  "expect ch c = try_bind (peek c) (\<lambda>x. if x = ch then Inr (adv 1 c) else Inl Reject)"

definition fl_task :: "cur \<Rightarrow> ((nat \<times> nat) \<times> cur) scan" where
  "fl_task c =
     try_bind (skip_ws c) (\<lambda>c.
     try_bind (dec c) (\<lambda>(pid, n, c).
       if n = 0 then Inl Reject
       else try_bind (expect (CHR ''/'') c) (\<lambda>c.
            try_bind (dec c) (\<lambda>(tid, n, c).
              if n = 0 then Inl Reject
              else try_bind (skip_ws c) (\<lambda>c. Inr ((pid, tid), c))))))"

definition fl_cpu :: "cur \<Rightarrow> (nat option \<times> cur) scan" where
  "fl_cpu c =
     try_bind (peek c) (\<lambda>ch.
       if ch = CHR ''['' then
         try_bind (dec (adv 1 c)) (\<lambda>(v, n, c).
           if n = 0 then Inl Reject
           else try_bind (expect (CHR '']'') c) (\<lambda>c.
                try_bind (skip_ws c) (\<lambda>c. Inr (Some (as_u32 v), c))))
       else Inr (None, c))"

definition fl_time :: "cur \<Rightarrow> (nat \<times> cur) scan" where
  "fl_time c =
     try_bind (dec c) (\<lambda>(sec, n, c).
       if n = 0 then Inl Reject
       else try_bind (expect (CHR ''.'') c) (\<lambda>c.
            try_bind (dec c) (\<lambda>(frac, fd, c).
              if fd = 0 then Inl Reject
              else if 9 < fd then Inl Reject
              else try_bind (expect (CHR '':'') c) (\<lambda>c.
                   case checked_mul64 sec 1000000000 of
                     None \<Rightarrow> Inl Reject
                   | Some s \<Rightarrow>
                       (case checked_add64 s (frac * POW10 ! (9 - fd)) of
                          None \<Rightarrow> Inl Reject
                        | Some t \<Rightarrow> try_bind (skip_ws c) (\<lambda>c. Inr (t, c)))))))"

text \<open>The event name of a token, \<^verbatim>\<open>None\<close> when the line is not a sample.\<close>

definition event_of_token :: "string \<Rightarrow> sample_event option" where
  "event_of_token ev =
     (case (if prefix ''branches'' ev then Some Branches
            else if prefix ''instructions'' ev then Some InstructionsEvent
            else None) of
        None \<Rightarrow> None
      | Some e \<Rightarrow> if ev \<noteq> [] \<and> last ev = CHR '':'' then Some e else None)"

definition fl_event :: "cur \<Rightarrow> (sample_event \<times> cur) scan" where
  "fl_event c =
     try_bind (token c) (\<lambda>ev.
       case event_of_token ev of
         None \<Rightarrow> Inl Reject
       | Some e \<Rightarrow> try_bind (skip_ws (adv (length ev) c)) (\<lambda>c. Inr (e, c)))"

text \<open>One flag token; \<^verbatim>\<open>hw int\<close> is its own flag.\<close>

definition flag_step :: "bool \<Rightarrow> flags \<Rightarrow> string \<Rightarrow> flags option" where
  "flag_step prev_hw fl tok =
     (case from_token tok of
        None \<Rightarrow> None
      | Some f \<Rightarrow> if f = F_INT \<and> prev_hw then Some (flags_union fl F_HW_INT)
                  else Some (flags_union fl f))"

function fl_flags :: "flags \<Rightarrow> bool \<Rightarrow> cur \<Rightarrow> ((flags \<times> bool) \<times> cur) scan" where
  "fl_flags fl prev_hw c =
     (case token c of
        Inl e \<Rightarrow> Inl e
      | Inr tok \<Rightarrow>
          if tok = [] then Inr ((fl, prev_hw), c)
          else (case flag_step prev_hw fl tok of
                  None \<Rightarrow> Inr ((fl, prev_hw), c)
                | Some fl' \<Rightarrow>
                    (case skip_ws (adv (length tok) c) of
                       Inl e \<Rightarrow> Inl e
                     | Inr c' \<Rightarrow> fl_flags fl' (tok = ''hw'') c')))"
  by pat_completeness auto
termination
  by (relation "measure (\<lambda>(_, _, c). length (cu_mem c) - cu_p c)")
    (auto simp: adv_def dest!: token_within skip_ws_forward simp flip: length_greater_0_conv)

definition fl_hex :: "cur \<Rightarrow> (nat \<times> cur) scan" where
  "fl_hex c = map_sum id (\<lambda>(v, _, c). (v, c)) (hex c)"

text \<open>The second address, after \<^verbatim>\<open>=>\<close> or bare; \<open>a\<close> is the first one.\<close>

definition fl_second ::
  "sample_event \<Rightarrow> nat \<Rightarrow> cur \<Rightarrow> ((nat option \<times> nat option) \<times> cur) scan" where
  "fl_second event a c =
     try_bind (starts_with ''=>'' c) (\<lambda>arrow.
       if arrow then
         try_bind (skip_ws (adv 2 c)) (\<lambda>c.
         try_bind (token c) (\<lambda>t.
           if is_hex_token t
           then try_bind (fl_hex c) (\<lambda>(b, c).
                try_bind (skip_ws c) (\<lambda>c. Inr ((Some a, Some b), c)))
           else Inl Reject))
       else
         try_bind (token c) (\<lambda>t.
           if is_hex_token t
           then try_bind (fl_hex c) (\<lambda>(b, c).
                try_bind (skip_ws c) (\<lambda>c.
                  Inr (if is_instruction event then (Some b, Some a) else (Some a, Some b), c)))
           else try_bind (skip_ws c) (\<lambda>c. Inr ((Some a, None), c))))"

definition fl_addrs :: "sample_event \<Rightarrow> cur \<Rightarrow> ((nat option \<times> nat option) \<times> cur) scan" where
  "fl_addrs event c =
     try_bind (token c) (\<lambda>first.
       if is_hex_token first
       then try_bind (fl_hex c) (\<lambda>(a, c). try_bind (skip_ws c) (fl_second event a))
       else Inr ((None, None), c))"

text \<open>The bytes after \<^verbatim>\<open>insn:\<close>; past the fifteenth they are dropped.\<close>

definition push_insn :: "nat \<Rightarrow> insn_bytes \<Rightarrow> insn_bytes" where
  "push_insn v bs = (if length bs < 15 then bs @ [v mod 256] else bs)"

function fl_bytes :: "insn_bytes \<Rightarrow> cur \<Rightarrow> (insn_bytes \<times> cur) scan" where
  "fl_bytes bs c =
     (case token c of
        Inl e \<Rightarrow> Inl e
      | Inr t \<Rightarrow>
          if length t \<noteq> 2 \<or> \<not> is_hex_token t then Inr (bs, c)
          else (case hex c of
                  Inl e \<Rightarrow> Inl e
                | Inr (v, n, c1) \<Rightarrow>
                    (case skip_ws c1 of
                       Inl e \<Rightarrow> Inl e
                     | Inr c2 \<Rightarrow> fl_bytes (push_insn v bs) c2)))"
  by pat_completeness auto
termination
proof (relation "measure (\<lambda>(_, c). length (cu_mem c) - cu_p c)", goal_cases)
  case (2 bs c t vnc v nc n c1 c2)
  then have "0 < n" "c1 = adv n c" "cu_p c + length t \<le> length (cu_mem c)"
    using hex_token_forward [of c t v n c1] hex_forward [of c v n c1] token_within [of c t] by auto
  moreover have "t \<noteq> []" using 2 by auto
  ultimately show ?case
    using skip_ws_forward [of c1 c2] 2 by (auto simp: adv_def simp flip: length_greater_0_conv)
qed simp

declare fl_flags.simps [simp del] fl_bytes.simps [simp del]

lemma fl_bytes_forward:
  "fl_bytes bs c = Inr (bs', c') \<Longrightarrow> cu_mem c' = cu_mem c \<and> cu_p c \<le> cu_p c'"
proof (induction bs c rule: fl_bytes.induct)
  case (1 bs c)
  obtain t where t: "token c = Inr t"
    using "1.prems" by (subst (asm) fl_bytes.simps) (auto split: sum.splits)
  show ?case
  proof (cases "length t \<noteq> 2 \<or> \<not> is_hex_token t")
    case True
    with "1.prems" t show ?thesis by (subst (asm) fl_bytes.simps) auto
  next
    case False
    with "1.prems" t obtain v n c1 c2 where h: "hex c = Inr (v, n, c1)" "skip_ws c1 = Inr c2"
        "fl_bytes (push_insn v bs) c2 = Inr (bs', c')"
      by (subst (asm) fl_bytes.simps) (auto split: sum.splits)
    from "1.IH" [OF t False h(1) refl refl h(2,3)] skip_ws_forward [OF h(2)] hex_forward [OF h(1)]
    show ?thesis by (auto simp: adv_def)
  qed
qed

text \<open>
  The fields after the addresses: lengths, instruction bytes and flags. \<open>il\<close> is
  \<^verbatim>\<open>insn_len\<close>.
\<close>

definition fl_ilen :: "nat \<Rightarrow> cur \<Rightarrow> (nat \<times> cur) scan" where
  "fl_ilen k c =
     try_bind (skip_ws (adv k c)) (\<lambda>c.
     try_bind (dec c) (\<lambda>(v, n, c).
       if n = 0 then Inl Reject
       else if 255 < v then Inl Reject
       else try_bind (skip_ws c) (\<lambda>c. Inr (v, c))))"

lemma fl_ilen_forward:
  "fl_ilen k c = Inr (v, c') \<Longrightarrow> cu_mem c' = cu_mem c \<and> cu_p c + k \<le> cu_p c'"
  by (auto simp: fl_ilen_def try_bind_Inr_iff adv_def split: if_splits
      dest!: skip_ws_forward dec_forward)

function fl_tail ::
  "flags \<Rightarrow> bool \<Rightarrow> nat option \<Rightarrow> insn_bytes \<Rightarrow> cur \<Rightarrow> (flags \<times> nat option \<times> insn_bytes) scan" where
  "fl_tail fl prev_hw il bs c =
     (case token c of
        Inl e \<Rightarrow> Inl e
      | Inr tok \<Rightarrow>
          if tok = [] then Inr (fl, il, bs)
          else if tok = ''ilen:'' \<or> tok = ''insnlen:'' then
            (case fl_ilen (length tok) c of
               Inl e \<Rightarrow> Inl e
             | Inr (v, c') \<Rightarrow> fl_tail fl prev_hw (Some v) bs c')
          else if tok = ''insn:'' then
            (case skip_ws (adv (length tok) c) of
               Inl e \<Rightarrow> Inl e
             | Inr c1 \<Rightarrow>
                 (case fl_bytes bs c1 of
                    Inl e \<Rightarrow> Inl e
                  | Inr (bs', c2) \<Rightarrow> fl_tail fl prev_hw il bs' c2))
          else (case flag_step prev_hw fl tok of
                  None \<Rightarrow> Inl Reject
                | Some fl' \<Rightarrow>
                    (case skip_ws (adv (length tok) c) of
                       Inl e \<Rightarrow> Inl e
                     | Inr c' \<Rightarrow> fl_tail fl' (tok = ''hw'') il bs c')))"
  by pat_completeness auto
termination
proof (relation "measure (\<lambda>(_, _, _, _, c). length (cu_mem c) - cu_p c)", goal_cases)
  case 1
  then show ?case by simp
next
  case (2 fl prev_hw il bs c tok r v c')
  then show ?case
    using token_within [of c tok] fl_ilen_forward [of "length tok" c v c'] by auto
next
  case (3 fl prev_hw il bs c tok c1 r bs' c2)
  then show ?case
    using token_within [of c tok] skip_ws_forward [of "adv (length tok) c" c1]
      fl_bytes_forward [of bs c1 bs' c2]
    by (auto simp: adv_def)
next
  case (4 fl prev_hw il bs c tok fl' c')
  moreover from 4 have "0 < length tok" by simp
  ultimately show ?case
    using token_within [of c tok] skip_ws_forward [of "adv (length tok) c" c']
    by (auto simp: adv_def simp flip: length_greater_0_conv)
qed

declare fl_tail.simps [simp del]

definition nonzero :: "nat \<Rightarrow> nat option" where
  "nonzero t = (if t \<noteq> 0 then Some t else None)"

definition parse_cursor :: "cur \<Rightarrow> sample scan" where
  "parse_cursor c =
     try_bind (fl_task c) (\<lambda>((pid, tid), c).
     try_bind (fl_cpu c) (\<lambda>(cpu, c).
     try_bind (fl_time c) (\<lambda>(time_ns, c).
     try_bind (fl_event c) (\<lambda>(event, c).
     try_bind (fl_flags 0 False c) (\<lambda>((fl, prev_hw), c).
     try_bind (fl_addrs event c) (\<lambda>((ip, addr), c).
     try_bind (fl_tail fl prev_hw None [] c) (\<lambda>(fl, il, bs).
       Inr \<lparr>s_pid = as_u32 pid, s_tid = as_u32 tid, s_cpu = cpu, s_time = nonzero time_ns,
            s_event = event, s_ip = ip, s_addr = addr, s_flags = fl, s_insn_len = il,
            s_insn = bs\<rparr>)))))))"

text \<open>
  \<open>parse_sample_guarded mem n\<close>: the line is the first \<open>n\<close> bytes of the readable
  memory \<open>mem\<close>.
\<close>

definition parse_sample_guarded :: "string \<Rightarrow> nat \<Rightarrow> sample scan" where
  "parse_sample_guarded mem n = parse_cursor (Cur mem 0 n)"

definition parse_sample :: "string \<Rightarrow> sample scan" where
  "parse_sample line = parse_sample_guarded (line @ replicate GUARD (CHR 0x00)) (length line)"

section \<open>Reference parser\<close>

text \<open>The same grammar over the bytes of the line, as a plain recursive parser.\<close>

definition ref_number :: "nat \<Rightarrow> string \<Rightarrow> (nat \<times> string) option" where
  "ref_number b s =
     (let r = run_of b s in if r = [] then None else Some (num_of b r, drop (length r) s))"

fun ref_char :: "char \<Rightarrow> string \<Rightarrow> string option" where
  "ref_char x [] = None"
| "ref_char x (c # s) = (if c = x then Some s else None)"

definition ref_task :: "string \<Rightarrow> ((nat \<times> nat) \<times> string) option" where
  "ref_task s =
     Option.bind (ref_number 10 (skip_spaces s)) (\<lambda>(pid, s).
     Option.bind (ref_char (CHR ''/'') s) (\<lambda>s.
     Option.bind (ref_number 10 s) (\<lambda>(tid, s). Some ((pid, tid), skip_spaces s))))"

definition ref_cpu :: "string \<Rightarrow> (nat option \<times> string) option" where
  "ref_cpu s =
     (case ref_char (CHR ''['') s of
        None \<Rightarrow> Some (None, s)
      | Some s \<Rightarrow>
          Option.bind (ref_number 10 s) (\<lambda>(v, s).
          Option.bind (ref_char (CHR '']'') s) (\<lambda>s. Some (Some (as_u32 v), skip_spaces s))))"

definition ref_time :: "string \<Rightarrow> (nat \<times> string) option" where
  "ref_time s =
     Option.bind (ref_number 10 s) (\<lambda>(sec, s).
     Option.bind (ref_char (CHR ''.'') s) (\<lambda>s.
     Option.bind (ref_number 10 s) (\<lambda>(frac, s').
       if 9 < length s - length s' then None
       else Option.bind (ref_char (CHR '':'') s') (\<lambda>s''.
              let t = sec * 10 ^ 9 + frac * 10 ^ (9 - (length s - length s'))
              in if t \<le> u64_max then Some (t, skip_spaces s'') else None))))"

definition ref_event :: "string \<Rightarrow> (sample_event \<times> string) option" where
  "ref_event s =
     (let ev = token_of s
      in Option.bind (event_of_token ev) (\<lambda>e. Some (e, skip_spaces (drop (length ev) s))))"

lemma token_of_length: "length (token_of s) \<le> length s"
  by (simp add: token_of_def length_takeWhile_le)

lemma skip_drop_less:
  "0 < n \<Longrightarrow> n \<le> length s \<Longrightarrow> length (skip_spaces (drop n s)) < length s"
  unfolding skip_spaces_def by (rule le_less_trans [OF length_dropWhile_le]) simp

lemma token_progress:
  "token_of s \<noteq> [] \<Longrightarrow> length (skip_spaces (drop (length (token_of s)) s)) < length s"
  by (rule skip_drop_less) (simp_all add: token_of_length)

function ref_flags :: "flags \<Rightarrow> bool \<Rightarrow> string \<Rightarrow> (flags \<times> bool) \<times> string" where
  "ref_flags fl prev_hw s =
     (let tok = token_of s
      in if tok = [] then ((fl, prev_hw), s)
         else (case flag_step prev_hw fl tok of
                 None \<Rightarrow> ((fl, prev_hw), s)
               | Some fl' \<Rightarrow>
                   ref_flags fl' (tok = ''hw'') (skip_spaces (drop (length tok) s))))"
  by pat_completeness auto

termination
  by (relation "measure (\<lambda>(_, _, s). length s)") (auto intro: token_progress)

definition ref_hex :: "string \<Rightarrow> (nat \<times> string) option" where
  "ref_hex s =
     (let t = token_of s
      in if is_hex_word t then Some (num_of 16 t, drop (length t) s) else None)"

definition ref_second ::
  "sample_event \<Rightarrow> nat \<Rightarrow> string \<Rightarrow> ((nat option \<times> nat option) \<times> string) option" where
  "ref_second event a s =
     (if prefix ''=>'' s
      then (case ref_hex (skip_spaces (drop 2 s)) of
              None \<Rightarrow> None
            | Some (b, s) \<Rightarrow> Some ((Some a, Some b), skip_spaces s))
      else (case ref_hex s of
              None \<Rightarrow> Some ((Some a, None), skip_spaces s)
            | Some (b, s) \<Rightarrow>
                Some (if is_instruction event then (Some b, Some a) else (Some a, Some b),
                      skip_spaces s)))"

definition ref_addrs ::
  "sample_event \<Rightarrow> string \<Rightarrow> ((nat option \<times> nat option) \<times> string) option" where
  "ref_addrs event s =
     (case ref_hex s of
        None \<Rightarrow> Some ((None, None), s)
      | Some (a, s) \<Rightarrow> ref_second event a (skip_spaces s))"

function ref_bytes :: "insn_bytes \<Rightarrow> string \<Rightarrow> insn_bytes \<times> string" where
  "ref_bytes bs s =
     (let t = token_of s
      in if length t \<noteq> 2 \<or> \<not> is_hex_word t then (bs, s)
         else ref_bytes (push_insn (num_of 16 t) bs) (skip_spaces (drop (length t) s)))"
  by pat_completeness auto
termination
proof (relation "measure (\<lambda>(_, s). length s)", goal_cases)
  case (2 bs s t)
  then have "token_of s \<noteq> []" by auto
  from token_progress [OF this] show ?case using 2 by simp
qed simp

declare ref_flags.simps [simp del] ref_bytes.simps [simp del]

lemma ref_bytes_length: "length (snd (ref_bytes bs s)) \<le> length s"
proof (induction bs s rule: ref_bytes.induct)
  case (1 bs s)
  show ?case
  proof (cases "length (token_of s) \<noteq> 2 \<or> \<not> is_hex_word (token_of s)")
    case True
    then show ?thesis by (auto simp: ref_bytes.simps [of bs s] Let_def)
  next
    case False
    then have "token_of s \<noteq> []" by auto
    from "1.IH" [OF refl False] token_progress [OF this] False show ?thesis
      by (simp add: ref_bytes.simps [of bs s] Let_def)
  qed
qed

definition ref_ilen :: "nat \<Rightarrow> string \<Rightarrow> (nat \<times> string) option" where
  "ref_ilen k s =
     Option.bind (ref_number 10 (skip_spaces (drop k s))) (\<lambda>(v, s).
       if 255 < v then None else Some (v, skip_spaces s))"

lemma skip_spaces_length: "length (skip_spaces s) \<le> length s"
  by (simp add: skip_spaces_def length_dropWhile_le)

lemma ref_ilen_length: "ref_ilen k s = Some (v, s') \<Longrightarrow> length s' \<le> length s - k"
  using skip_spaces_length [of "drop k s"]
  by (auto simp: ref_ilen_def ref_number_def bind_eq_Some_conv Let_def split: if_splits
      intro!: order_trans [OF skip_spaces_length])

function ref_tail ::
  "flags \<Rightarrow> bool \<Rightarrow> nat option \<Rightarrow> insn_bytes \<Rightarrow> string \<Rightarrow> (flags \<times> nat option \<times> insn_bytes) option" where
  "ref_tail fl prev_hw il bs s =
     (let tok = token_of s; after = skip_spaces (drop (length tok) s)
      in if tok = [] then Some (fl, il, bs)
         else if tok = ''ilen:'' \<or> tok = ''insnlen:'' then
           (case ref_ilen (length tok) s of
              None \<Rightarrow> None
            | Some (v, s') \<Rightarrow> ref_tail fl prev_hw (Some v) bs s')
         else if tok = ''insn:'' then
           (case ref_bytes bs after of (bs', s') \<Rightarrow> ref_tail fl prev_hw il bs' s')
         else (case flag_step prev_hw fl tok of
                 None \<Rightarrow> None
               | Some fl' \<Rightarrow> ref_tail fl' (tok = ''hw'') il bs after))"
  by pat_completeness auto
termination
proof (relation "measure (\<lambda>(_, _, _, _, s). length s)", goal_cases)
  case 1
  then show ?case by simp
next
  case (2 fl prev_hw il bs s tok after r v s')
  then show ?case
    using ref_ilen_length [of "length tok" s v s'] token_of_length [of s] by auto
next
  case (3 fl prev_hw il bs s tok after bs' s')
  have "s' = snd (ref_bytes bs after)"
    using 3 by (metis snd_conv)
  moreover have "length after < length s"
    using 3 token_progress [of s] by metis
  ultimately show ?case
    using ref_bytes_length [of bs after] by simp
next
  case (4 fl prev_hw il bs s tok after fl')
  then show ?case using token_progress [of s] by auto
qed

declare ref_tail.simps [simp del]

definition ref_sample :: "string \<Rightarrow> sample option" where
  "ref_sample line =
     Option.bind (ref_task line) (\<lambda>((pid, tid), s).
     Option.bind (ref_cpu s) (\<lambda>(cpu, s).
     Option.bind (ref_time s) (\<lambda>(time_ns, s).
     Option.bind (ref_event s) (\<lambda>(event, s).
     case ref_flags 0 False s of ((fl, prev_hw), s) \<Rightarrow>
     Option.bind (ref_addrs event s) (\<lambda>((ip, addr), s).
     Option.bind (ref_tail fl prev_hw None [] s) (\<lambda>(fl, il, bs).
       Some \<lparr>s_pid = as_u32 pid, s_tid = as_u32 tid, s_cpu = cpu, s_time = nonzero time_ns,
             s_event = event, s_ip = ip, s_addr = addr, s_flags = fl, s_insn_len = il,
             s_insn = bs\<rparr>))))))"

section \<open>The scanner simulates the reference parser\<close>

definition sim :: "('a \<times> cur) scan \<Rightarrow> ('a \<times> string) option \<Rightarrow> bool" where
  "sim r o1 = (case o1 of
                None \<Rightarrow> r = Inl Reject
              | Some (x, s) \<Rightarrow> \<exists>c. r = Inr (x, c) \<and> view c s)"

lemma sim_simps [simp]:
  "sim (Inl Reject) None" "sim (Inr (x, c)) (Some (x, s)) \<longleftrightarrow> view c s"
  by (auto simp: sim_def)

lemma sim_bind:
  assumes "sim r o1" "\<And>x c s. view c s \<Longrightarrow> sim (f (x, c)) (g (x, s))"
  shows "sim (try_bind r f) (Option.bind o1 g)"
proof (cases o1)
  case None
  with assms(1) have "r = Inl Reject" by (simp add: sim_def)
  with None show ?thesis by simp
next
  case (Some xs)
  with assms(1) obtain c where "r = Inr (fst xs, c)" "view c (snd xs)"
    by (auto simp: sim_def split: prod.splits)
  with assms(2) [of c "snd xs" "fst xs"] Some show ?thesis by simp
qed

lemma view_skip_spaces:
  assumes "view c s"
  obtains c' where "skip_ws c = Inr c'" "view c' (skip_spaces s)"
proof -
  let ?n = "length (takeWhile (\<lambda>b. b = CHR '' '') s)"
  have "skip_spaces s = drop ?n s"
    unfolding skip_spaces_def by (rule dropWhile_eq_drop)
  then have "view (adv ?n c) (skip_spaces s)"
    using view_adv [OF assms, of ?n, OF length_takeWhile_le] by (simp only:)
  with that [OF view_skip_ws [OF assms]] show ?thesis .
qed

lemma sim_skip:
  assumes "view c s" "\<And>c. view c (skip_spaces s) \<Longrightarrow> sim (f c) o1"
  shows "sim (try_bind (skip_ws c) f) o1"
proof -
  obtain c' where "skip_ws c = Inr c'" "view c' (skip_spaces s)"
    using assms(1) by (rule view_skip_spaces)
  with assms(2) show ?thesis by simp
qed

lemma sim_dec:
  assumes "view c s"
    and "\<And>v c' s'. view c' s' \<Longrightarrow> length s' \<le> length s \<Longrightarrow> sim (f v (length s - length s') c') (g v s')"
  shows "sim (try_bind (dec c) (\<lambda>(v, n, c'). if n = 0 then Inl Reject else f v n c'))
             (Option.bind (ref_number 10 s) (\<lambda>(v, s'). g v s'))"
proof -
  let ?r = "run_of 10 s"
  have "view (adv (length ?r) c) (drop (length ?r) s)"
    using view_adv [OF assms(1) length_run_of(1)] .
  from assms(2) [OF this] show ?thesis
    using length_run_of(1) [of 10 s] by (simp add: view_dec [OF assms(1)] ref_number_def Let_def)
qed

lemma sim_expect:
  assumes "view c s" "x \<in> structural" "\<And>c' s'. view c' s' \<Longrightarrow> sim (f c') (g s')"
  shows "sim (try_bind (expect x c) f) (Option.bind (ref_char x s) g)"
proof -
  obtain ch where ch: "peek c = Inr ch" "ch = x \<longleftrightarrow> s \<noteq> [] \<and> hd s = x"
    using view_peek [OF assms(1)] assms(2) by blast
  show ?thesis
  proof (cases "ch = x")
    case True
    with ch obtain t where s: "s = x # t" by (cases s) auto
    with view_adv [OF assms(1), of 1] have "view (adv 1 c) t" by simp
    with assms(3) True ch s show ?thesis by (simp add: expect_def)
  next
    case False
    with ch have "ref_char x s = None" by (cases s) auto
    moreover have "expect x c = Inl Reject" using False ch(1) by (simp add: expect_def)
    ultimately show ?thesis by simp
  qed
qed

lemma structural_chars:
  "CHR ''/'' \<in> structural" "CHR ''['' \<in> structural" "CHR '']'' \<in> structural"
  "CHR ''.'' \<in> structural" "CHR '':'' \<in> structural"
  by (simp_all add: structural_def)

lemma sim_task: "view c s \<Longrightarrow> sim (fl_task c) (ref_task s)"
  unfolding fl_task_def ref_task_def
  by (intro sim_skip sim_dec sim_expect structural_chars) (assumption | simp)+

lemma sim_cpu:
  assumes "view c s"
  shows "sim (fl_cpu c) (ref_cpu s)"
proof -
  obtain ch where ch: "peek c = Inr ch" "ch = CHR ''['' \<longleftrightarrow> s \<noteq> [] \<and> hd s = CHR ''[''"
    using view_peek [OF assms] structural_chars by blast
  show ?thesis
  proof (cases "ch = CHR ''[''")
    case True
    with ch obtain t where s: "s = CHR ''['' # t" by (cases s) auto
    with view_adv [OF assms, of 1] have "view (adv 1 c) t" by simp
    then have "sim (try_bind (dec (adv 1 c)) (\<lambda>(v, n, c).
           if n = 0 then Inl Reject
           else try_bind (expect (CHR '']'') c) (\<lambda>c.
                try_bind (skip_ws c) (\<lambda>c. Inr (Some (as_u32 v), c)))))
         (Option.bind (ref_number 10 t) (\<lambda>(v, s).
          Option.bind (ref_char (CHR '']'') s) (\<lambda>s. Some (Some (as_u32 v), skip_spaces s))))"
      by (intro sim_skip sim_dec sim_expect structural_chars) (assumption | simp)+
    with True ch(1) s show ?thesis by (simp add: fl_cpu_def ref_cpu_def)
  next
    case False
    with ch have "ref_char (CHR ''['') s = None" by (cases s) auto
    with False ch(1) assms show ?thesis by (simp add: fl_cpu_def ref_cpu_def)
  qed
qed

lemma POW10_nth: "n \<le> 9 \<Longrightarrow> POW10 ! n = 10 ^ n"
proof -
  assume "n \<le> 9"
  moreover have p: "POW10 = map (\<lambda>n. 10 ^ n) [0..<10]" by (simp add: POW10_def upt_rec)
  ultimately show ?thesis unfolding p by (subst nth_map) auto
qed

lemma sim_if:
  "(\<not> b \<Longrightarrow> sim r o1) \<Longrightarrow> sim (if b then Inl Reject else r) (if b then None else o1)"
  by simp

text \<open>The two checked operations accept exactly the times that fit 64 bits.\<close>

lemma checked_time:
  assumes "\<And>t. sim (f t) (g t)"
  shows "sim (case checked_mul64 sec 1000000000 of
                None \<Rightarrow> Inl Reject
              | Some a \<Rightarrow> (case checked_add64 a (frac * POW10 ! (9 - fd)) of
                             None \<Rightarrow> Inl Reject
                           | Some t \<Rightarrow> f t))
             (let t = sec * 10 ^ 9 + frac * 10 ^ (9 - fd) in if t \<le> u64_max then g t else None)"
  using assms [of "sec * 1000000000 + frac * 10 ^ (9 - fd)"]
  by (auto simp: checked_mul64_def checked_add64_def POW10_nth Let_def)

lemma sim_time: "view c s \<Longrightarrow> sim (fl_time c) (ref_time s)"
  unfolding fl_time_def ref_time_def
  by (intro sim_skip sim_dec sim_expect sim_if checked_time structural_chars)
    (assumption | simp)+

lemma sim_event:
  assumes "view c s"
  shows "sim (fl_event c) (ref_event s)"
proof (cases "event_of_token (token_of s)")
  case None
  then show ?thesis
    by (simp add: fl_event_def ref_event_def view_token [OF assms] Let_def)
next
  case (Some e)
  have "sim (try_bind (skip_ws (adv (length (token_of s)) c)) (\<lambda>c. Inr (e, c)))
            (Some (e, skip_spaces (drop (length (token_of s)) s)))"
    by (rule sim_skip [OF view_adv [OF assms token_of_length]]) simp
  with Some show ?thesis
    by (simp add: fl_event_def ref_event_def view_token [OF assms] Let_def)
qed

lemma sim_flags:
  "view c s \<Longrightarrow> \<exists>c'. fl_flags fl prev_hw c = Inr (fst (ref_flags fl prev_hw s), c') \<and>
     view c' (snd (ref_flags fl prev_hw s))"
proof (induction fl prev_hw s arbitrary: c rule: ref_flags.induct)
  case (1 fl prev_hw s)
  note v = "1.prems" and tok = view_token [OF "1.prems"]
  show ?case
  proof (cases "token_of s = [] \<or> flag_step prev_hw fl (token_of s) = None")
    case True
    with v tok show ?thesis
      by (auto simp: fl_flags.simps [of fl prev_hw c] ref_flags.simps [of fl prev_hw s] Let_def)
  next
    case False
    then obtain fl' where fl': "flag_step prev_hw fl (token_of s) = Some fl'" by auto
    obtain c1 where c1: "skip_ws (adv (length (token_of s)) c) = Inr c1"
        "view c1 (skip_spaces (drop (length (token_of s)) s))"
      using view_adv [OF v token_of_length] by (rule view_skip_spaces)
    from False "1.IH" [OF refl _ fl' c1(2)] show ?thesis
      by (simp add: fl_flags.simps [of fl prev_hw c] ref_flags.simps [of fl prev_hw s] Let_def
          tok fl' c1(1))
  qed
qed

text \<open>A hexadecimal token is exactly what the 16-byte window decodes.\<close>

lemma run_of_hex_word:
  assumes "is_hex_word (token_of s)"
  shows "run_of 16 s = token_of s"
proof -
  let ?t = "token_of s"
  have s: "s = ?t @ dropWhile (\<lambda>b. \<not> is_stop b) s" by (simp add: token_of_def)
  have t: "length ?t \<le> 16" "\<forall>b\<in>set ?t. is_digit 16 b"
    using assms by (auto simp: is_hex_word_def list_all_iff)
  have "take 16 s = ?t @ take (16 - length ?t) (dropWhile (\<lambda>b. \<not> is_stop b) s)"
    using t(1) by (subst s) (simp only: take_append take_all)
  then have "run_of 16 s =
      ?t @ takeWhile (is_digit 16) (take (16 - length ?t) (dropWhile (\<lambda>b. \<not> is_stop b) s))"
    using t(2) by (simp only: run_of_def) (intro takeWhile_append2, blast)
  moreover have "takeWhile (is_digit 16) (take k (dropWhile (\<lambda>b. \<not> is_stop b) s)) = []" for k
  proof (cases "dropWhile (\<lambda>b. \<not> is_stop b) s")
    case (Cons a u)
    then have "is_stop a" by (metis dropWhile_eq_Cons_conv)
    then have "\<not> is_digit 16 a" by (auto simp: is_stop_def is_digit_def digit_val_def Let_def)
    with Cons show ?thesis by (cases k) auto
  next
    case Nil
    show ?thesis unfolding Nil by simp
  qed
  ultimately show ?thesis by simp
qed

lemma sim_hex:
  assumes "view c s" "is_hex_word (token_of s)"
  shows "sim (fl_hex c) (ref_hex s)"
  using assms view_adv [OF assms(1) token_of_length]
  by (simp add: fl_hex_def ref_hex_def view_hex run_of_hex_word Let_def)

text \<open>Reading an optional address: the token decides, the window decodes.\<close>

lemma sim_address:
  assumes v: "view c s"
    and some: "\<And>b c s. view c s \<Longrightarrow> sim (f b c) (g b s)"
    and none: "sim (z c) o1"
  shows "sim (try_bind (token c) (\<lambda>t.
           if is_hex_token t
           then try_bind (fl_hex c) (\<lambda>(b, c). try_bind (skip_ws c) (f b))
           else z c))
         (case ref_hex s of None \<Rightarrow> o1 | Some (b, s) \<Rightarrow> g b (skip_spaces s))"
proof (cases "is_hex_word (token_of s)")
  case True
  let ?a = "num_of 16 (token_of s)" and ?s = "drop (length (token_of s)) s"
  have hex: "ref_hex s = Some (?a, ?s)" using True by (simp add: ref_hex_def Let_def)
  with sim_hex [OF v True] obtain c1 where c1: "fl_hex c = Inr (?a, c1)" "view c1 ?s"
    by (auto simp: sim_def)
  have "sim (try_bind (skip_ws c1) (f ?a)) (g ?a (skip_spaces ?s))"
    using c1(2) some by (rule sim_skip)
  with True show ?thesis by (simp add: view_token [OF v] is_hex_token_eq hex c1(1))
next
  case False
  with none show ?thesis
    by (simp add: view_token [OF v] is_hex_token_eq ref_hex_def Let_def)
qed

lemma sim_second:
  assumes v: "view c s"
  shows "sim (fl_second event a c) (ref_second event a s)"
proof -
  have sw: "starts_with ''=>'' c = Inr (prefix ''=>'' s)"
    by (rule view_starts_with [OF v]) (simp add: GUARD_def)
  show ?thesis
  proof (cases "prefix ''=>'' s")
    case True
    then have "2 \<le> length s" using prefix_length_le by fastforce
    from view_adv [OF v this] show ?thesis
      using True unfolding fl_second_def ref_second_def sw try_bind_simps if_P [OF True]
      by (intro sim_skip sim_address) (assumption | simp)+
  next
    case False
    show ?thesis
      using v unfolding fl_second_def ref_second_def sw try_bind_simps if_not_P [OF False]
      by (intro sim_address sim_skip [OF v]) (assumption | simp)+
  qed
qed

lemma sim_addrs:
  assumes "view c s"
  shows "sim (fl_addrs event c) (ref_addrs event s)"
  unfolding fl_addrs_def ref_addrs_def
  using assms by (intro sim_address sim_second) (assumption | simp)+

lemma view_bytes:
  "view c s \<Longrightarrow> \<exists>c'. fl_bytes bs c = Inr (fst (ref_bytes bs s), c') \<and> view c' (snd (ref_bytes bs s))"
proof (induction bs s arbitrary: c rule: ref_bytes.induct)
  case (1 bs s)
  note v = "1.prems" and tok = view_token [OF "1.prems"]
  show ?case
  proof (cases "length (token_of s) \<noteq> 2 \<or> \<not> is_hex_word (token_of s)")
    case True
    with v tok show ?thesis
      by (auto simp: fl_bytes.simps [of bs c] ref_bytes.simps [of bs s] Let_def is_hex_token_eq)
  next
    case False
    then have w: "is_hex_word (token_of s)" by simp
    obtain c1 where c1: "hex c = Inr (num_of 16 (token_of s), length (token_of s), c1)"
        "view c1 (drop (length (token_of s)) s)"
      using view_adv [OF v token_of_length] by (simp add: view_hex [OF v] run_of_hex_word [OF w])
    obtain c2 where c2: "skip_ws c1 = Inr c2" "view c2 (skip_spaces (drop (length (token_of s)) s))"
      using c1(2) by (rule view_skip_spaces)
    from "1.IH" [OF refl False c2(2)] False show ?thesis
      by (auto simp: fl_bytes.simps [of bs c] ref_bytes.simps [of bs s] Let_def tok c1(1) c2(1)
          is_hex_token_eq)
  qed
qed

lemma sim_ilen:
  "view c s \<Longrightarrow> k \<le> length s \<Longrightarrow> sim (fl_ilen k c) (ref_ilen k s)"
  unfolding fl_ilen_def ref_ilen_def
  by (intro sim_skip sim_dec sim_if) (rule view_adv | assumption | simp)+

lemma sim_tail:
  "view c s \<Longrightarrow> fl_tail fl prev_hw il bs c =
     (case ref_tail fl prev_hw il bs s of None \<Rightarrow> Inl Reject | Some x \<Rightarrow> Inr x)"
proof (induction fl prev_hw il bs s arbitrary: c rule: ref_tail.induct)
  case (1 fl prev_hw il bs s)
  note v = "1.prems" and tok = view_token [OF "1.prems"]
  note unfold = fl_tail.simps [of fl prev_hw il bs c] ref_tail.simps [of fl prev_hw il bs s] Let_def tok
  let ?t = "token_of s"
  obtain c1 where c1: "skip_ws (adv (length ?t) c) = Inr c1" "view c1 (skip_spaces (drop (length ?t) s))"
    using view_adv [OF v token_of_length] by (rule view_skip_spaces)
  consider (e) "?t = []" | (l) "?t \<noteq> []" "?t = ''ilen:'' \<or> ?t = ''insnlen:''"
    | (b) "?t \<noteq> []" "\<not> (?t = ''ilen:'' \<or> ?t = ''insnlen:'')" "?t = ''insn:''"
    | (f) "?t \<noteq> []" "\<not> (?t = ''ilen:'' \<or> ?t = ''insnlen:'')" "?t \<noteq> ''insn:''"
    by blast
  then show ?case
  proof cases
    case e
    then show ?thesis by (simp add: unfold)
  next
    case l
    have "sim (fl_ilen (length ?t) c) (ref_ilen (length ?t) s)"
      by (rule sim_ilen [OF v token_of_length])
    then show ?thesis
    proof (cases "ref_ilen (length ?t) s")
      case None
      with \<open>sim _ _\<close> have "fl_ilen (length ?t) c = Inl Reject" by (simp add: sim_def)
      with None l show ?thesis by (simp add: unfold)
    next
      case (Some vs)
      with \<open>sim _ _\<close> obtain c2 where c2: "fl_ilen (length ?t) c = Inr (fst vs, c2)" "view c2 (snd vs)"
        by (auto simp: sim_def split: prod.splits)
      from "1.IH"(1) [OF refl refl l Some prod.collapse c2(2)] l show ?thesis
        by (simp add: unfold c2(1) Some split: prod.splits)
    qed
  next
    case b
    obtain bs' s' where r: "ref_bytes bs (skip_spaces (drop (length ?t) s)) = (bs', s')"
      by (metis prod.exhaust)
    obtain c2 where c2: "fl_bytes bs c1 = Inr (bs', c2)" "view c2 s'"
      using view_bytes [OF c1(2), of bs] unfolding r by auto
    from "1.IH"(2) [OF refl refl b r [symmetric] c2(2)] b c1(1) c2(1) r show ?thesis
      by (simp add: unfold)
  next
    case f
    show ?thesis
    proof (cases "flag_step prev_hw fl ?t")
      case None
      with f show ?thesis by (simp add: unfold)
    next
      case (Some fl')
      from "1.IH"(3) [OF refl refl f Some c1(2)] f show ?thesis
        by (simp add: unfold c1(1) Some)
    qed
  qed
qed

lemma sim_cases:
  assumes "sim r o1"
  obtains "r = Inl Reject" "o1 = None" | x s c where "r = Inr (x, c)" "o1 = Some (x, s)" "view c s"
  using assms by (cases o1) (auto simp: sim_def)

lemma parse_cursor_ref:
  assumes "view c s"
  shows "parse_cursor c = (case ref_sample s of None \<Rightarrow> Inl Reject | Some x \<Rightarrow> Inr x)"
proof (cases rule: sim_cases [OF sim_task [OF assms]])
  case task: (2 pt s c)
  show ?thesis
  proof (cases rule: sim_cases [OF sim_cpu [OF task(3)]])
    case cpu: (2 cpu s c)
    show ?thesis
    proof (cases rule: sim_cases [OF sim_time [OF cpu(3)]])
      case time: (2 t s c)
      show ?thesis
      proof (cases rule: sim_cases [OF sim_event [OF time(3)]])
        case event: (2 e s c)
        obtain c1 where flags: "fl_flags 0 False c = Inr (fst (ref_flags 0 False s), c1)"
            "view c1 (snd (ref_flags 0 False s))"
          using sim_flags [OF event(3)] by blast
        obtain fl hw s1 where r: "ref_flags 0 False s = ((fl, hw), s1)" by (metis prod.exhaust)
        show ?thesis
        proof (cases rule: sim_cases [OF sim_addrs [OF flags(2)[unfolded r snd_conv], of e]])
          case addrs: (2 ia s c)
          then show ?thesis
            using task cpu time event flags r sim_tail [OF addrs(3), of fl hw None "[]"]
            by (cases "ref_tail fl hw None [] s")
              (auto simp: parse_cursor_def ref_sample_def split: prod.splits)
        qed (use task cpu time event flags r in
            \<open>simp add: parse_cursor_def ref_sample_def split: prod.splits\<close>)
      qed (use task cpu time in \<open>simp add: parse_cursor_def ref_sample_def split: prod.splits\<close>)
    qed (use task cpu in \<open>simp add: parse_cursor_def ref_sample_def split: prod.splits\<close>)
  qed (use task in \<open>simp add: parse_cursor_def ref_sample_def split: prod.splits\<close>)
qed (simp add: parse_cursor_def ref_sample_def)

lemma view_line:
  assumes "GUARD \<le> length after" "hd after \<notin> structural" "length line + length after < 2 ^ 63"
  shows "view (Cur (line @ after) 0 (length line)) line"
proof -
  have "after \<noteq> []" using assms(1) by (auto simp: GUARD_def)
  then show ?thesis using assms by (simp add: view_def nth_append hd_conv_nth)
qed

lemma guarded_reference:
  assumes "GUARD \<le> length after" "hd after \<notin> structural" "length line + length after < 2 ^ 63"
  shows "parse_sample_guarded (line @ after) (length line) =
         (case ref_sample line of None \<Rightarrow> Inl Reject | Some s \<Rightarrow> Inr s)"
  unfolding parse_sample_guarded_def by (rule parse_cursor_ref [OF view_line [OF assms]])

end
