(* ===== verification/Fast_Props.thy ===== *)
theory Fast_Props
  imports Fast_Parse
begin

text \<open>
  What the sample scanner guarantees: it agrees with the reference parser whatever
  follows the line in memory, and it reads back every sample printed in the layout
  that \<^verbatim>\<open>fastline.rs\<close> documents.
\<close>

section \<open>Printed numbers\<close>

lemma digits_of_length: "n < b ^ k \<Longrightarrow> 0 < k \<Longrightarrow> 2 \<le> b \<Longrightarrow> length (digits_of b n) \<le> k"
proof (induction b n arbitrary: k rule: digits_of.induct)
  case (1 b n)
  show ?case
  proof (cases "n < b")
    case True
    with 1 show ?thesis by (simp add: digits_of.simps [of b n])
  next
    case False
    obtain k' where k': "k = Suc k'" using "1.prems" by (cases k) auto
    have "0 < k'" using "1.prems" False k' by (cases k') auto
    note k = k' this
    have "n div b < b ^ k'"
      using "1.prems" k by (simp add: div_less_iff_less_mult mult.commute)
    with 1 False k have "length (digits_of b (n div b)) \<le> k'" by simp
    with False k "1.prems"(3) show ?thesis by (simp add: digits_of.simps [of b n])
  qed
qed

lemma show_base_length: "n < b ^ k \<Longrightarrow> 0 < k \<Longrightarrow> 2 \<le> b \<Longrightarrow> length (show_base b n) \<le> k"
  by (simp add: show_base_def digits_of_length)

lemma show_base_digits: "2 \<le> b \<Longrightarrow> b \<le> 16 \<Longrightarrow> \<forall>c\<in>set (show_base b n). is_digit b c"
  using digit_char_alnum by (auto simp: is_digit_def)

lemma run_of_append:
  assumes "length ds \<le> 16" "\<forall>c\<in>set ds. is_digit b c" "s = [] \<or> \<not> is_digit b (hd s)"
  shows "run_of b (ds @ s) = ds"
proof -
  have "run_of b (ds @ s) = takeWhile (is_digit b) (ds @ take (16 - length ds) s)"
    using assms(1) by (simp add: run_of_def)
  also have "\<dots> = ds @ takeWhile (is_digit b) (take (16 - length ds) s)"
    using assms(2) by (intro takeWhile_append2) blast
  also have "takeWhile (is_digit b) (take (16 - length ds) s) = []"
    using assms(3) by (cases s; cases "16 - length ds") auto
  finally show ?thesis by simp
qed

lemma ref_number_digits:
  assumes "ds \<noteq> []" "length ds \<le> 16" "\<forall>c\<in>set ds. is_digit b c" "\<not> is_digit b x"
  shows "ref_number b (ds @ x # s) = Some (num_of b ds, x # s)"
  using assms by (simp add: ref_number_def run_of_append Let_def)

lemma num_of_show: "2 \<le> b \<Longrightarrow> b \<le> 16 \<Longrightarrow> num_of b (show_base b n) = n"
  by (simp add: num_of_def digits_val_show_base)

lemma ref_number_show:
  assumes "n < 10 ^ 16" "\<not> is_digit 10 x"
  shows "ref_number 10 (show_dec n @ x # s) = Some (n, x # s)"
  using assms show_base_length [of n 10 16] by (simp add: ref_number_digits show_base_digits num_of_show)

lemma skip_spaces_simps [simp]:
  "skip_spaces (CHR '' '' # s) = skip_spaces s"
  "c \<noteq> CHR '' '' \<Longrightarrow> skip_spaces (c # s) = c # s"
  "skip_spaces [] = []"
  by (simp_all add: skip_spaces_def)

lemma digit_not_space: "is_digit b c \<Longrightarrow> b \<le> 16 \<Longrightarrow> c \<noteq> CHR '' ''"
  by (auto simp: is_digit_def digit_val_def Let_def split: if_splits)

lemma skip_spaces_digits:
  "ds \<noteq> [] \<Longrightarrow> \<forall>c\<in>set ds. is_digit b c \<Longrightarrow> b \<le> 16 \<Longrightarrow> skip_spaces (ds @ s) = ds @ s"
  by (cases ds) (auto simp: digit_not_space)

lemma digit_no_stop: "is_digit b c \<Longrightarrow> b \<le> 16 \<Longrightarrow> \<not> is_stop b' \<or> b' \<noteq> c"
  by (auto simp: is_stop_def is_digit_def digit_val_def Let_def split: if_splits)

lemma token_of_digits:
  assumes "\<forall>c\<in>set ds. is_digit b c" "b \<le> 16" "s = [] \<or> is_stop (hd s)"
  shows "token_of (ds @ s) = ds"
proof -
  have "token_of (ds @ s) = ds @ takeWhile (\<lambda>c. \<not> is_stop c) s"
    unfolding token_of_def using assms(1,2) digit_no_stop by (intro takeWhile_append2) blast
  also have "takeWhile (\<lambda>c. \<not> is_stop c) s = []"
    using assms(3) by (cases s) auto
  finally show ?thesis by simp
qed

section \<open>The documented layout\<close>

definition pad9 :: "nat \<Rightarrow> string" where
  "pad9 n = replicate (9 - length (show_dec n)) (CHR ''0'') @ show_dec n"

definition hex2 :: "nat \<Rightarrow> string" where
  "hex2 b = insn_hex_byte b"

definition sample_insn :: "sample \<Rightarrow> string" where
  "sample_insn s =
     (case s_insn_len s of None \<Rightarrow> [] | Some n \<Rightarrow> '' ilen: '' @ show_dec n) @
     (if s_insn s = [] then [] else '' insn:'' @ concat (map (\<lambda>b. CHR '' '' # hex2 b) (s_insn s)))"

definition sample_line :: "sample \<Rightarrow> string" where
  "sample_line s =
     show_dec (s_pid s) @ ''/'' @ show_dec (s_tid s) @
     (case s_cpu s of None \<Rightarrow> '' '' | Some c \<Rightarrow> '' ['' @ show_dec c @ ''] '') @
     show_dec (the (s_time s) div 10 ^ 9) @ ''.'' @ pad9 (the (s_time s) mod 10 ^ 9) @ '': '' @
     (if s_event s = Branches then ''branches:u: '' else ''instructions:u: '') @
     concat (map (\<lambda>n. n @ '' '') (flag_names (s_flags s))) @
     (if s_event s = Branches
      then show_hex (the (s_ip s)) @ '' => '' @ show_hex (the (s_addr s))
      else show_hex (the (s_addr s)) @ '' '' @ show_hex (the (s_ip s))) @
     sample_insn s"

definition printable :: "sample \<Rightarrow> bool" where
  "printable s \<longleftrightarrow>
     s_pid s \<le> u32_max \<and> s_tid s \<le> u32_max \<and>
     (case s_cpu s of None \<Rightarrow> True | Some c \<Rightarrow> c \<le> u32_max) \<and>
     (case s_time s of None \<Rightarrow> False | Some t \<Rightarrow> 0 < t \<and> t \<le> u64_max) \<and>
     s_event s \<noteq> OtherEvent \<and>
     (case s_ip s of None \<Rightarrow> False | Some a \<Rightarrow> a \<le> u64_max) \<and>
     (case s_addr s of None \<Rightarrow> False | Some a \<Rightarrow> a \<le> u64_max) \<and>
     \<not> has_flag (s_flags s) F_UNKNOWN \<and>
     (case s_insn_len s of None \<Rightarrow> True | Some n \<Rightarrow> n \<le> 255) \<and>
     length (s_insn s) \<le> 15 \<and> (\<forall>b\<in>set (s_insn s). b < 256)"

lemma num_of_pad: "num_of 10 (replicate k (CHR ''0'') @ s) = num_of 10 s"
proof -
  have "digits_val 10 0 (replicate k (CHR ''0'') @ s) = digits_val 10 0 s"
    by (induction k) (simp_all add: digit_val_def)
  then show ?thesis by (simp add: num_of_def)
qed

lemma pad9:
  assumes "n < 10 ^ 9"
  shows "length (pad9 n) = 9" "num_of 10 (pad9 n) = n" "\<forall>c\<in>set (pad9 n). is_digit 10 c"
proof -
  show "length (pad9 n) = 9" using show_base_length [of n 10 9] assms by (simp add: pad9_def)
  show "num_of 10 (pad9 n) = n" by (simp add: pad9_def num_of_pad num_of_show)
  have "is_digit 10 CHR ''0''" by (simp add: is_digit_def digit_val_def)
  then show "\<forall>c\<in>set (pad9 n). is_digit 10 c"
    using show_base_digits [of 10 n] by (auto simp: pad9_def)
qed

lemma ref_task_line:
  assumes "pid \<le> u32_max" "tid \<le> u32_max"
  shows "ref_task (show_dec pid @ ''/'' @ show_dec tid @ CHR '' '' # s) = Some ((pid, tid), skip_spaces s)"
proof -
  have small: "pid < 10 ^ 16" "tid < 10 ^ 16" using assms by (simp_all add: u32_max_def)
  have "\<not> is_digit 10 CHR ''/''" "\<not> is_digit 10 CHR '' ''"
    by (simp_all add: is_digit_def digit_val_def)
  then show ?thesis
    using small by (simp add: ref_task_def skip_spaces_digits [OF _ show_base_digits] ref_number_show)
qed

lemma ref_cpu_line:
  assumes "c \<le> u32_max"
  shows "ref_cpu (''['' @ show_dec c @ ''] '' @ s) = Some (Some c, skip_spaces s)"
proof -
  have "c < 10 ^ 16" "as_u32 c = c" using assms by (simp_all add: u32_max_def as_u32_def)
  moreover have "\<not> is_digit 10 CHR '']''" by (simp add: is_digit_def digit_val_def)
  ultimately show ?thesis by (simp add: ref_cpu_def ref_number_show)
qed

lemma ref_cpu_none: "s \<noteq> [] \<Longrightarrow> is_digit 10 (hd s) \<Longrightarrow> ref_cpu s = Some (None, s)"
  by (cases s) (auto simp: ref_cpu_def is_digit_def digit_val_def)

lemma ref_time_line:
  assumes "t \<le> u64_max"
  shows "ref_time (show_dec (t div 10 ^ 9) @ ''.'' @ pad9 (t mod 10 ^ 9) @ '': '' @ s) =
         Some (t, skip_spaces s)"
proof -
  have sec: "t div 10 ^ 9 < 10 ^ 16" using assms by (simp add: u64_max_def div_less_iff_less_mult)
  have ns: "t mod 10 ^ 9 < 10 ^ 9" by simp
  note p = pad9 [OF ns]
  have "pad9 (t mod 10 ^ 9) \<noteq> []" using p(1) by auto
  moreover have "\<not> is_digit 10 CHR ''.''" "\<not> is_digit 10 CHR '':''"
    by (simp_all add: is_digit_def digit_val_def)
  ultimately show ?thesis
    using sec p assms by (simp add: ref_time_def ref_number_show ref_number_digits Let_def)
qed

lemma ref_event_line:
  "ref_event (''branches:u: '' @ s) = Some (Branches, skip_spaces s)"
  "ref_event (''instructions:u: '' @ s) = Some (InstructionsEvent, skip_spaces s)"
  by (simp_all add: ref_event_def token_of_def is_stop_def event_of_token_def Let_def)

section \<open>Flags\<close>

lemma ref_flags_name:
  assumes "(b, name) \<in> set flag_table" "b \<noteq> F_UNKNOWN" "skip_spaces s = s"
  shows "ref_flags fl False (name @ CHR '' '' # s) = ref_flags (flags_union fl b) False s"
  using assms
  by (auto simp: flag_table_def ref_flags.simps [of _ _ "_ # _"] token_of_def is_stop_def
      flag_step_def from_token_def Let_def flag_bits flags_union_def)

lemma skip_names:
  assumes "set tab \<subseteq> set flag_table" "skip_spaces s = s"
  shows "skip_spaces (concat (map (\<lambda>(b, n). n @ '' '') tab) @ s) =
         concat (map (\<lambda>(b, n). n @ '' '') tab) @ s"
proof (cases tab)
  case (Cons bn tab')
  moreover obtain b n where "bn = (b, n)" by force
  ultimately have "(b, n) \<in> set flag_table" "tab = (b, n) # tab'"
    using assms(1) by auto
  then show ?thesis by (auto simp: flag_table_def)
qed (use assms in simp)

lemma flag_names_table:
  "concat (map (\<lambda>n. n @ '' '') (flag_names fl)) =
   concat (map (\<lambda>(b, n). n @ '' '') (filter (\<lambda>(b, _). has_flag fl b) flag_table))"
  by (simp add: flag_names_def o_def case_prod_unfold)

lemma ref_flags_names:
  assumes "set tab \<subseteq> set flag_table" "\<forall>(b, n)\<in>set tab. b \<noteq> F_UNKNOWN" "skip_spaces s = s"
  shows "ref_flags fl False (concat (map (\<lambda>(b, n). n @ '' '') tab) @ s) =
         ref_flags (foldl flags_union fl (map fst tab)) False s"
  using assms
proof (induction tab arbitrary: fl)
  case Nil
  then show ?case by simp
next
  case (Cons bn tab)
  obtain b n where bn: "bn = (b, n)" by force
  let ?rest = "concat (map (\<lambda>(b, n). n @ '' '') tab) @ s"
  have "skip_spaces ?rest = ?rest"
    using Cons.prems by (intro skip_names) auto
  with Cons bn show ?case using ref_flags_name [of b n ?rest fl] by simp
qed

text \<open>No word made of hexadecimal digits is a flag.\<close>

lemma hex_not_flag:
  assumes "\<forall>c\<in>set tok. is_digit 16 c" "tok \<noteq> []"
  shows "from_token tok = None"
proof (rule ccontr)
  assume "from_token tok \<noteq> None"
  then have "tok \<in> {''call'', ''return'', ''jcc'', ''jmp'', ''int'', ''iret'', ''syscall'', ''sysret'',
     ''async'', ''abrt'', ''strt'', ''start'', ''end'', ''vmentry'', ''vmexit'', ''tr'', ''hw'', ''tx'',
     ''trace'', ''begin''}"
    by (auto simp: from_token_def split: if_splits)
  then show False using assms(1) by (auto simp: is_digit_def digit_val_def Let_def)
qed

lemma ref_flags_stop:
  assumes "\<forall>c\<in>set h. is_digit 16 c" "h \<noteq> []" "s = [] \<or> is_stop (hd s)"
  shows "ref_flags fl hw (h @ s) = ((fl, hw), h @ s)"
  using token_of_digits [OF assms(1) _ assms(3)] hex_not_flag [OF assms(1,2)] assms(2)
  by (simp add: ref_flags.simps [of fl hw "h @ s"] Let_def flag_step_def)

lemma ref_flags_line:
  assumes "\<not> has_flag fl F_UNKNOWN" "s = [] \<or> is_stop (hd s)"
  shows "ref_flags 0 False (concat (map (\<lambda>n. n @ '' '') (flag_names fl)) @ show_hex a @ s) =
         ((fl, False), show_hex a @ s)"
proof -
  let ?tab = "filter (\<lambda>(b, _). has_flag fl b) flag_table"
  have "skip_spaces (show_hex a @ s) = show_hex a @ s"
    by (rule skip_spaces_digits [OF _ show_base_digits]) simp_all
  moreover have "foldl flags_union 0 (map fst ?tab) = fl"
    by (rule flag_names_union)
  ultimately show ?thesis
    using assms(1) ref_flags_stop [OF show_base_digits _ assms(2), of a fl False]
    unfolding flag_names_table by (subst ref_flags_names) auto
qed

section \<open>Addresses and the tail of the line\<close>

lemma show_hex_word: "a \<le> u64_max \<Longrightarrow> is_hex_word (show_hex a)"
  using show_base_length [of a 16 16] show_base_digits [of 16 a]
  by (simp add: is_hex_word_def list_all_iff u64_max_def)

lemma ref_hex_show:
  assumes "a \<le> u64_max" "s = [] \<or> is_stop (hd s)"
  shows "ref_hex (show_hex a @ s) = Some (a, s)"
  using token_of_digits [OF show_base_digits _ assms(2), of 16 a] show_hex_word [OF assms(1)]
  by (simp add: ref_hex_def Let_def num_of_show)

lemma skip_spaces_show: "2 \<le> b \<Longrightarrow> b \<le> 16 \<Longrightarrow> skip_spaces (show_base b a @ s) = show_base b a @ s"
  by (rule skip_spaces_digits [OF _ show_base_digits]) simp_all

lemma ref_addrs_line:
  assumes "a \<le> u64_max" "b \<le> u64_max" "s = [] \<or> hd s = CHR '' ''"
  shows "ref_addrs Branches (show_hex a @ '' => '' @ show_hex b @ s) = Some ((Some a, Some b), skip_spaces s)"
    and "ref_addrs InstructionsEvent (show_hex a @ '' '' @ show_hex b @ s) = Some ((Some b, Some a), skip_spaces s)"
proof -
  have s: "s = [] \<or> is_stop (hd s)" using assms(3) by (auto simp: is_stop_def)
  show "ref_addrs Branches (show_hex a @ '' => '' @ show_hex b @ s) = Some ((Some a, Some b), skip_spaces s)"
    using ref_hex_show [OF assms(1), of "'' => '' @ show_hex b @ s"] ref_hex_show [OF assms(2) s]
    by (simp add: ref_addrs_def ref_second_def is_stop_def skip_spaces_show)
  have "\<not> prefix ''=>'' (show_hex b @ s)"
  proof
    assume "prefix ''=>'' (show_hex b @ s)"
    then have "CHR ''='' \<in> set (show_hex b)"
      by (cases "show_hex b") (auto simp: prefix_def dest: arg_cong [of _ _ hd])
    then show False
      using show_base_digits [of 16 b] by (auto simp: is_digit_def digit_val_def)
  qed
  then show "ref_addrs InstructionsEvent (show_hex a @ '' '' @ show_hex b @ s) = Some ((Some b, Some a), skip_spaces s)"
    using ref_hex_show [OF assms(1), of "'' '' @ show_hex b @ s"] ref_hex_show [OF assms(2) s]
    by (simp add: ref_addrs_def ref_second_def is_stop_def skip_spaces_show is_instruction_def)
qed

lemma hex2:
  assumes "b < 256"
  shows "length (hex2 b) = 2" "\<forall>c\<in>set (hex2 b). is_digit 16 c" "num_of 16 (hex2 b) = b"
proof -
  have "b div 16 < 16" "b mod 16 < 16" using assms by (auto simp: div_less_iff_less_mult)
  then have d: "digit_val 16 (digit_char (b div 16)) = Some (b div 16)"
      "digit_val 16 (digit_char (b mod 16)) = Some (b mod 16)"
    by (simp_all add: digit_val_digit_char)
  then show "length (hex2 b) = 2" "\<forall>c\<in>set (hex2 b). is_digit 16 c" "num_of 16 (hex2 b) = b"
    by (auto simp: hex2_def insn_hex_byte_def is_digit_def num_of_def)
qed

lemma ref_bytes_line:
  assumes "\<forall>b\<in>set xs. b < 256" "length bs + length xs \<le> 15"
  shows "ref_bytes bs (skip_spaces (concat (map (\<lambda>b. CHR '' '' # hex2 b) xs))) = (bs @ xs, [])"
  using assms
proof (induction xs arbitrary: bs)
  case Nil
  then show ?case by (simp add: ref_bytes.simps [of _ "[]"] token_of_def Let_def)
next
  case (Cons b xs)
  let ?rest = "concat (map (\<lambda>b. CHR '' '' # hex2 b) xs)"
  note h = hex2 [of b]
  have b: "b < 256" using Cons.prems by simp
  have rest: "?rest = [] \<or> is_stop (hd ?rest)" by (cases xs) (auto simp: is_stop_def)
  have sk: "skip_spaces (hex2 b @ ?rest) = hex2 b @ ?rest"
    using h(1,2) [OF b] by (intro skip_spaces_digits [of _ 16]) auto
  have tok: "token_of (hex2 b @ ?rest) = hex2 b"
    using h(2) [OF b] rest by (intro token_of_digits) auto
  have "is_hex_word (hex2 b)"
    using h(1,2) [OF b] by (auto simp: is_hex_word_def list_all_iff)
  with Cons.IH [of "bs @ [b]"] Cons.prems show ?case
    by (simp add: sk ref_bytes.simps [of bs "hex2 b @ ?rest"] tok h(1,3) [OF b] push_insn_def Let_def)
qed

lemma ref_tail_end: "ref_tail fl hw il bs [] = Some (fl, il, bs)"
  by (simp add: ref_tail.simps [of _ _ _ _ "[]"] token_of_def Let_def)

lemma ref_tail_step:
  "token_of s = ''insn:'' \<Longrightarrow> ref_tail fl hw il bs s =
     (case ref_bytes bs (skip_spaces (drop 5 s)) of (bs', s') \<Rightarrow> ref_tail fl hw il bs' s')"
  "token_of s = ''ilen:'' \<Longrightarrow> ref_tail fl hw il bs s =
     (case ref_ilen 5 s of None \<Rightarrow> None | Some (v, s') \<Rightarrow> ref_tail fl hw (Some v) bs s')"
  by (simp_all add: ref_tail.simps [of fl hw il bs s] Let_def numeral_eq_Suc)

lemma ref_ilen_line:
  assumes "n \<le> 255" "rest = [] \<or> hd rest = CHR '' ''"
  shows "ref_ilen 5 (''ilen:'' @ CHR '' '' # show_dec n @ rest) = Some (n, skip_spaces rest)"
proof -
  have "\<not> is_digit 10 CHR '' ''" by (simp add: is_digit_def digit_val_def)
  then have run: "run_of 10 (show_dec n @ rest) = show_dec n"
    using show_base_length [of n 10 16] show_base_digits [of 10 n] assms
    by (intro run_of_append) auto
  have "drop 5 (''ilen:'' @ CHR '' '' # show_dec n @ rest) = CHR '' '' # show_dec n @ rest"
    by simp
  then show ?thesis
    using assms(1) by (simp add: ref_ilen_def ref_number_def Let_def skip_spaces_show run num_of_show)
qed

lemma ref_tail_insn:
  assumes "\<forall>b\<in>set xs. b < 256" "length xs \<le> 15"
  shows "ref_tail fl hw il [] (skip_spaces (if xs = [] then [] else
           '' insn:'' @ concat (map (\<lambda>b. CHR '' '' # hex2 b) xs))) = Some (fl, il, xs)"
proof (cases xs)
  case Nil
  then show ?thesis by (simp add: ref_tail_end)
next
  case (Cons b ys)
  let ?bytes = "concat (map (\<lambda>b. CHR '' '' # hex2 b) xs)"
  have tok: "token_of (''insn:'' @ ?bytes) = ''insn:''"
    using Cons by (simp add: token_of_def is_stop_def)
  have "ref_tail fl hw il [] (''insn:'' @ ?bytes) = Some (fl, il, xs)"
    using ref_bytes_line [OF assms(1), of "[]"] assms(2)
    unfolding ref_tail_step(1) [OF tok] by (simp add: ref_tail_end)
  with Cons show ?thesis by simp
qed

lemma ref_tail_line:
  assumes "printable s"
  shows "ref_tail fl hw None [] (skip_spaces (sample_insn s)) = Some (fl, s_insn_len s, s_insn s)"
proof -
  let ?insn = "if s_insn s = [] then [] else '' insn:'' @ concat (map (\<lambda>b. CHR '' '' # hex2 b) (s_insn s))"
  have xs: "\<forall>b\<in>set (s_insn s). b < 256" "length (s_insn s) \<le> 15"
    using assms by (auto simp: printable_def)
  note insn = ref_tail_insn [OF xs]
  show ?thesis
  proof (cases "s_insn_len s")
    case None
    with insn show ?thesis by (simp add: sample_insn_def)
  next
    case (Some n)
    then have n: "n \<le> 255" using assms by (simp add: printable_def)
    let ?s = "''ilen:'' @ CHR '' '' # show_dec n @ ?insn"
    have tok: "token_of ?s = ''ilen:''" by (simp add: token_of_def is_stop_def)
    have "ref_ilen 5 ?s = Some (n, skip_spaces ?insn)"
      using n by (rule ref_ilen_line) simp
    then have "ref_tail fl hw None [] ?s = Some (fl, Some n, s_insn s)"
      using insn [of fl hw "Some n"] unfolding ref_tail_step(2) [OF tok] by simp
    with Some show ?thesis by (simp add: sample_insn_def del: if_split)
  qed
qed

lemma ref_sample_line:
  assumes "printable s"
  shows "ref_sample (sample_line s) = Some s"
proof -
  obtain t ip addr where f: "s_time s = Some t" "0 < t" "t \<le> u64_max" "s_ip s = Some ip" "ip \<le> u64_max"
      "s_addr s = Some addr" "addr \<le> u64_max" "s_event s \<noteq> OtherEvent" "s_pid s \<le> u32_max" "s_tid s \<le> u32_max"
      "\<not> has_flag (s_flags s) F_UNKNOWN"
    using assms by (auto simp: printable_def split: option.splits)
  define tail where "tail = sample_insn s"
  have tl: "tail = [] \<or> hd tail = CHR '' ''"
    by (auto simp: tail_def sample_insn_def split: option.splits)
  define addrs where "addrs = (if s_event s = Branches
      then show_hex ip @ '' => '' @ show_hex addr else show_hex addr @ '' '' @ show_hex ip) @ tail"
  define evs where "evs = concat (map (\<lambda>n. n @ '' '') (flag_names (s_flags s))) @ addrs"
  define times where "times = show_dec (t div 10 ^ 9) @ ''.'' @ pad9 (t mod 10 ^ 9) @ '': '' @
     (if s_event s = Branches then ''branches:u: '' else ''instructions:u: '') @ evs"
  define cpus where "cpus = (case s_cpu s of None \<Rightarrow> [] | Some c \<Rightarrow> ''['' @ show_dec c @ ''] '') @ times"
  have line: "sample_line s = show_dec (s_pid s) @ ''/'' @ show_dec (s_tid s) @ CHR '' '' # cpus"
    using f by (simp add: sample_line_def cpus_def times_def evs_def addrs_def tail_def split: option.split)
  have flags: "ref_flags 0 False evs = ((s_flags s, False), addrs)"
    using ref_flags_line [OF f(11)] by (auto simp: evs_def addrs_def is_stop_def)
  have evs: "skip_spaces evs = evs"
    unfolding evs_def flag_names_table
    by (rule skip_names) (auto simp: addrs_def skip_spaces_show)
  have time: "ref_time times = Some (t, (if s_event s = Branches then ''branches:u: ''
      else ''instructions:u: '') @ evs)"
    unfolding times_def ref_time_line [OF f(3)] by simp
  have times: "skip_spaces times = times"
    by (simp add: times_def skip_spaces_show)
  have cpu: "ref_cpu cpus = Some (s_cpu s, times)"
  proof (cases "s_cpu s")
    case None
    have "times \<noteq> []" "is_digit 10 (hd times)"
      using show_base_digits [of 10 "t div 10 ^ 9"] by (simp_all add: times_def hd_append)
    with None show ?thesis by (simp add: cpus_def ref_cpu_none)
  next
    case (Some c)
    then have "c \<le> u32_max" using assms by (simp add: printable_def)
    from ref_cpu_line [OF this] Some times show ?thesis by (simp add: cpus_def)
  qed
  have "skip_spaces cpus = cpus"
    using times by (simp add: cpus_def split: option.split)
  then have task: "ref_task (sample_line s) = Some ((s_pid s, s_tid s), cpus)"
    unfolding line by (subst ref_task_line) (simp_all add: f)
  have ends: "ref_tail (s_flags s) False None [] (skip_spaces tail) = Some (s_flags s, s_insn_len s, s_insn s)"
    unfolding tail_def by (rule ref_tail_line [OF assms])
  have event: "ref_event ((if s_event s = Branches then ''branches:u: '' else ''instructions:u: '') @ evs) =
      Some (s_event s, evs)"
    using f(8) evs ref_event_line [of evs] by (cases "s_event s") auto
  have address: "ref_addrs (s_event s) addrs = Some ((Some ip, Some addr), skip_spaces tail)"
    using f(8) ref_addrs_line(1) [OF f(5,7) tl] ref_addrs_line(2) [OF f(7,5) tl]
    by (cases "s_event s") (auto simp: addrs_def)
  have nonzero: "nonzero t = Some t" using f(2) by (simp add: nonzero_def)
  have "as_u32 (s_pid s) = s_pid s" "as_u32 (s_tid s) = s_tid s"
    using f(9,10) by (simp_all add: as_u32_def u32_max_def)
  then have "ref_sample (sample_line s) =
      Some \<lparr>s_pid = s_pid s, s_tid = s_tid s, s_cpu = s_cpu s, s_time = Some t,
            s_event = s_event s, s_ip = Some ip, s_addr = Some addr, s_flags = s_flags s,
            s_insn_len = s_insn_len s, s_insn = s_insn s\<rparr>"
    unfolding ref_sample_def task
    by (simp only: bind.bind_lunit prod.case cpu time event flags address ends nonzero)
  also have "\<dots> = Some s"
    using f(1,4,6) by simp
  finally show ?thesis .
qed

text \<open>The scanners on a window whose bytes are known, wherever the line ends.\<close>

lemma skip_eight:
  assumes "load c 0 8 = Inr (replicate 8 (CHR '' ''))" "8 \<le> cu_rem c"
  shows "skip_ws c = skip_ws (adv 8 c)"
  using assms spaces_word by (subst skip_ws.simps) (simp add: load8_def Let_def)

lemma skip_nothing:
  assumes "load c 0 8 = Inr (b # bs)" "length bs = 7" "b \<noteq> CHR '' ''"
  shows "skip_ws c = Inr c"
proof -
  let ?x = "le64 (b # bs) XOR 0x2020202020202020 :: 64 word"
  have "?x \<noteq> 0 \<and> trailing_zeros ?x div 8 = 0"
    using first_non_space [of "b # bs"] assms(2,3) by (simp add: Let_def spaces_word)
  then show ?thesis
    using assms(1) by (cases c) (subst skip_ws.simps, simp add: load8_def Let_def adv_def)
qed

lemma skip_fault: "load c 0 8 = Inl Fault \<Longrightarrow> cu_rem c \<noteq> 0 \<Longrightarrow> skip_ws c = Inl Fault"
  by (subst skip_ws.simps) (simp add: load8_def Let_def)

lemma dec_window:
  assumes "load c 0 16 = Inr w" "length w = 16"
  shows "\<exists>v. dec c = Inr (v, min (length (takeWhile (is_digit 10) w)) (cu_rem c),
    adv (min (length (takeWhile (is_digit 10) w)) (cu_rem c)) c)"
  using assms by (simp add: dec_def load16_def window_len_eq dec_digit_iff Let_def)

section \<open>Properties\<close>

text \<open>
  C28: The scanner reads the line and nothing else, given what both callers put behind a line: 32 readable bytes
  of which the first, a newline or a zero, is not one of the five separators the parser peeks for. Then, whatever
  the other bytes are, the branchless windows, the eight-byte space skipper and the sixteen-byte token search
  compute exactly what the plain recursive parser computes on the bytes of the line: no read leaves the
  readable memory, the bytes after the line do not change the result, and the safe wrapper returns the
  same. Without the condition on the first byte the scanner runs past the end
  (\<open>separator_behind_line\<close>).
\<close>

theorem fast_scan_reference:
  assumes "GUARD \<le> length after" "hd after \<notin> structural" "length line + length after < 2 ^ 63"
  shows "parse_sample_guarded (line @ after) (length line) =
           (case ref_sample line of None \<Rightarrow> Inl Reject | Some s \<Rightarrow> Inr s) \<and>
         parse_sample line = parse_sample_guarded (line @ after) (length line)"
proof -
  have "length line + GUARD < 2 ^ 63"
    using assms(1,3) by simp
  then have "parse_sample line = (case ref_sample line of None \<Rightarrow> Inl Reject | Some s \<Rightarrow> Inr s)"
    unfolding parse_sample_def by (intro guarded_reference) (simp_all add: GUARD_def structural_def)
  then show ?thesis
    using guarded_reference [OF assms] by simp
qed

text \<open>
  C1: Samples survive printing. Every sample with a time, two addresses, known flags
  and at most fifteen instruction bytes, printed in the layout of \<^verbatim>\<open>perf script\<close>,
  is read back by the scanner as the same sample.
\<close>

theorem sample_line_roundtrip:
  assumes "printable s" "length (sample_line s) < 2 ^ 62"
  shows "parse_sample (sample_line s) = Inr s"
proof -
  have "length (sample_line s) + length (replicate GUARD CHR 0x00) < 2 ^ 63"
    using assms(2) by (simp add: GUARD_def)
  then show ?thesis
    unfolding parse_sample_def using ref_sample_line [OF assms(1)]
    by (subst guarded_reference) (simp_all add: GUARD_def structural_def)
qed

text \<open>A call line and an instruction line of \<^verbatim>\<open>perf script\<close>.\<close>

definition demo_branch :: sample where
  "demo_branch = \<lparr>s_pid = 12, s_tid = 13, s_cpu = Some 3, s_time = Some 1500000000, s_event = Branches,
     s_ip = Some 0x10, s_addr = Some 0xff, s_flags = F_CALL, s_insn_len = None, s_insn = []\<rparr>"

definition demo_text :: string where
  "demo_text = ''12/13 [3] 1.500000000: branches:u: call 10 => ff''"

theorem fast_scan_reference_witness:
  "parse_sample_guarded (demo_text @ CHR 0x0A # replicate 31 (CHR ''x'')) (length demo_text) =
     (case ref_sample demo_text of None \<Rightarrow> Inl Reject | Some s \<Rightarrow> Inr s) \<and>
   parse_sample demo_text = parse_sample_guarded (demo_text @ CHR 0x0A # replicate 31 (CHR ''x'')) (length demo_text)"
  by (rule fast_scan_reference) (simp_all add: GUARD_def structural_def demo_text_def)

text \<open>
  The contract in the file only asks for 32 readable bytes and says that nothing past the end is consumed. With
  the line \<open>1\<close> and a separator behind it the scanner consumes the separator, the length left wraps
  around, and the reads go on to the end of the readable memory and beyond it.
\<close>

theorem separator_behind_line:
  "parse_sample_guarded (''1/2'' @ replicate 30 (CHR '' '')) 1 = Inl Fault \<and> ref_sample ''1'' = None"
proof
  define m where "m = ''1/2'' @ replicate 30 (CHR '' '')"
  have mem: "load (Cur m p e) 0 n = (if p + n \<le> 33 then Inr (take n (drop p m)) else Inl Fault)" for p e n
    by (simp add: load_def m_def)
  have bytes: "take 8 m = ''1/2'' @ replicate 5 (CHR '' '')" "take 16 m = ''1/2'' @ replicate 13 (CHR '' '')"
    "take 1 (drop 1 m) = ''/''" "take 16 (drop 2 m) = CHR ''2'' # replicate 15 (CHR '' '')"
    "take 8 (drop 3 m) = replicate 8 (CHR '' '')" "take 8 (drop 11 m) = replicate 8 (CHR '' '')"
    "take 8 (drop 19 m) = replicate 8 (CHR '' '')"
    by (simp_all add: m_def numeral_eq_Suc)
  have digit: "is_digit 10 (CHR ''1'')" "\<not> is_digit 10 (CHR ''/'')" "is_digit 10 (CHR ''2'')" "\<not> is_digit 10 (CHR '' '')"
    by (simp_all add: is_digit_10)
  have "load (Cur m 0 1) 0 8 = Inr (CHR ''1'' # ''/2'' @ replicate 5 (CHR '' ''))"
    using bytes(1) mem [of 0 1 8] by simp
  then have start: "skip_ws (Cur m 0 1) = Inr (Cur m 0 1)"
    by (rule skip_nothing) simp_all
  have "load (Cur m 0 1) 0 16 = Inr (''1/2'' @ replicate 13 (CHR '' ''))"
    using bytes(2) mem [of 0 1 16] by simp
  from dec_window [OF this] obtain v where pid: "dec (Cur m 0 1) = Inr (v, 1, Cur m 1 1)"
    using digit by (auto simp: cu_rem_def adv_def)
  have "load (Cur m 1 1) 0 1 = Inr ''/''"
    using bytes(3) mem [of 1 1 1] by simp
  then have slash: "expect (CHR ''/'') (Cur m 1 1) = Inr (Cur m 2 1)"
    by (simp add: expect_def peek_def try_bind_def adv_def numeral_2_eq_2)
  have "load (Cur m 2 1) 0 16 = Inr (CHR ''2'' # replicate 15 (CHR '' ''))"
    using bytes(4) mem [of 2 1 16] by simp
  from dec_window [OF this] obtain w where tid: "dec (Cur m 2 1) = Inr (w, 1, Cur m 3 1)"
    using digit by (auto simp: cu_rem_def adv_def)
  have on: "skip_ws (Cur m p 1) = skip_ws (Cur m (p + 8) 1)" if "p \<in> {3, 11, 19}" for p
  proof -
    have "load (Cur m p 1) 0 8 = Inr (replicate 8 (CHR '' ''))"
      using that bytes(5-7) mem [of p 1 8] by auto
    moreover have "8 \<le> cu_rem (Cur m p 1)"
      using that by (auto simp: cu_rem_def)
    ultimately show ?thesis
      using skip_eight by (simp add: adv_def)
  qed
  have "skip_ws (Cur m 27 1) = Inl Fault"
    by (rule skip_fault) (simp_all add: mem cu_rem_def)
  then have "skip_ws (Cur m 3 1) = Inl Fault"
    using on [of 3] on [of 11] on [of 19] by simp
  then have "fl_task (Cur m 0 1) = Inl Fault"
    by (simp add: fl_task_def start pid slash tid try_bind_def del: One_nat_def)
  then show "parse_sample_guarded (''1/2'' @ replicate 30 (CHR '' '')) 1 = Inl Fault"
    by (simp add: parse_sample_guarded_def parse_cursor_def try_bind_def m_def del: One_nat_def)
  have "is_digit 10 (CHR ''1'')"
    by (rule digit)
  then have "run_of 10 ''1'' = ''1''"
    by (simp add: run_of_def)
  then show "ref_sample ''1'' = None"
    by (simp add: ref_sample_def ref_task_def ref_number_def skip_spaces_def Let_def)
qed

lemma demo_branch_line: "sample_line demo_branch = demo_text"
  by (simp add: sample_line_def demo_branch_def demo_text_def show_base_def digits_of.simps digit_char_def
      pad9_def flag_names_def flag_table_def has_flag_def flag_bits sample_insn_def)
    (intro conjI; code_simp)

theorem sample_line_roundtrip_witness:
  "parse_sample (sample_line demo_branch) = Inr demo_branch"
proof (rule sample_line_roundtrip)
  show "printable demo_branch"
    by (simp add: printable_def demo_branch_def u32_max_def u64_max_def has_flag_def flag_bits)
  show "length (sample_line demo_branch) < 2 ^ 62"
    unfolding demo_branch_line by (simp add: demo_text_def)
qed

end
