(* ===== verification/Perf_Lines.thy ===== *)
theory Perf_Lines
  imports Fast_Props
begin

text \<open>
  The tolerant line parser of \<^verbatim>\<open>src/decode/perf_script.rs\<close>: sideband records,
  decoder errors and the sample dialects the fast scanner refuses, with the
  dispatch between both parsers.
\<close>

section \<open>String functions\<close>

definition trim_end_ch :: "char \<Rightarrow> string \<Rightarrow> string" where
  "trim_end_ch c s = rev (dropWhile (\<lambda>x. x = c) (rev s))"

definition trim_start_ch :: "char \<Rightarrow> string \<Rightarrow> string" where
  "trim_start_ch c s = dropWhile (\<lambda>x. x = c) s"

text \<open>\<^verbatim>\<open>trim_start_matches\<close> on a non-empty pattern.\<close>

function trim_start_str :: "string \<Rightarrow> string \<Rightarrow> string" where
  "trim_start_str p s =
     (if p \<noteq> [] \<and> prefix p s then trim_start_str p (drop (length p) s) else s)"
  by pat_completeness auto
termination
proof (relation "measure (\<lambda>(_, s). length s)", goal_cases)
  case (2 p s)
  then have "0 < length p" "length p \<le> length s" by (auto dest: prefix_length_le)
  then show ?case by (simp del: length_greater_0_conv)
qed simp

declare trim_start_str.simps [simp del]

definition nth_opt :: "nat \<Rightarrow> 'a list \<Rightarrow> 'a option" where
  "nth_opt i xs = (if i < length xs then Some (xs ! i) else None)"

definition rsplit_once_str :: "string \<Rightarrow> string \<Rightarrow> (string \<times> string) option" where
  "rsplit_once_str p s =
     (case split_once_str (rev p) (rev s) of
        None \<Rightarrow> None
      | Some (r, l) \<Rightarrow> Some (rev l, rev r))"

definition find_ch :: "char \<Rightarrow> string \<Rightarrow> nat option" where
  "find_ch c s = position (\<lambda>x. x = c) s"

definition first_word :: "string \<Rightarrow> string option" where
  "first_word s = nth_opt 0 (split_whitespace s)"

definition ok_or :: "'e \<Rightarrow> 'a option \<Rightarrow> 'e + 'a" where
  "ok_or e x = (case x of None \<Rightarrow> Inl e | Some v \<Rightarrow> Inr v)"

section \<open>Fields of a line\<close>

definition parse_perf_time :: "string \<Rightarrow> error + u64" where
  "parse_perf_time s =
     (let tok = trim_end_ch (CHR '':'') (trim_str s);
          (sec_s, frac_s) = (case split_once_ch (CHR ''.'') tok of
                               Some p \<Rightarrow> p | None \<Rightarrow> (tok, ''0''));
          frac = take 9 frac_s @ replicate (9 - length frac_s) (CHR ''0'')
      in try_bind (ok_or (decode_failed (''bad time seconds '' @ tok)) (parse_u64 sec_s)) (\<lambda>sec.
         try_bind (ok_or (decode_failed (''bad time fraction '' @ tok)) (parse_u64 frac)) (\<lambda>nsec.
           ok_or (decode_failed (''time overflow '' @ tok))
             (Option.bind (checked_mul64 sec 1000000000) (\<lambda>s. checked_add64 s nsec)))))"

definition perf_time_arg :: "u64 \<Rightarrow> string" where
  "perf_time_arg abs_ns =
     show_dec (abs_ns div 1000000000) @ ''.'' @ pad9 (abs_ns mod 1000000000)"

text \<open>
  The index loop of \<^verbatim>\<open>split_pid_tid\<close> on the rest of the line: the first
  \<^verbatim>\<open>digits/digits\<close>, given up when one of the numbers does not fit.
\<close>

function split_pid_tid :: "string \<Rightarrow> (u32 \<times> u32 \<times> string) option" where
  "split_pid_tid s =
     (case s of
        [] \<Rightarrow> None
      | c # cs \<Rightarrow>
          if is_digit 10 c
          then (let ds = takeWhile (is_digit 10) s; after = dropWhile (is_digit 10) s
                in if after \<noteq> [] \<and> hd after = CHR ''/''
                   then (case parse_u32 ds of
                           None \<Rightarrow> None
                         | Some pid \<Rightarrow>
                             (let ts = takeWhile (is_digit 10) (tl after);
                                  rest = dropWhile (is_digit 10) (tl after)
                              in if ts \<noteq> []
                                 then (case parse_u32 ts of
                                         None \<Rightarrow> None
                                       | Some tid \<Rightarrow> Some (pid, tid, rest))
                                 else split_pid_tid (drop 1 (tl after))))
                   else split_pid_tid (drop 1 after))
          else split_pid_tid cs)"
  by pat_completeness auto
termination
proof (relation "measure length", goal_cases)
  case (2 s c cs x xa xb xc xd)
  then have "length (dropWhile (is_digit 10) s) < length s"
    using length_dropWhile_le [of "is_digit 10" cs] by auto
  with 2 show ?case by simp
next
  case (3 s c cs x xa)
  then have "length (dropWhile (is_digit 10) s) < length s"
    using length_dropWhile_le [of "is_digit 10" cs] by auto
  with 3 show ?case by simp
qed auto

declare split_pid_tid.simps [simp del]

definition take_cpu :: "string \<Rightarrow> u32 option \<times> string" where
  "take_cpu s =
     (let s = trim_start s
      in case strip_prefix_str ''['' s of
           None \<Rightarrow> (None, s)
         | Some rest \<Rightarrow>
             (case find_ch (CHR '']'') rest of
                None \<Rightarrow> (None, s)
              | Some end1 \<Rightarrow>
                  (parse_u32 (trim_str (take end1 rest)), trim_start (drop (end1 + 1) rest))))"

definition take_time :: "string \<Rightarrow> error + (u64 option \<times> string)" where
  "take_time s =
     (let s = trim_start s; tok = takeWhile (\<lambda>c. \<not> is_ws c) s
      in if tok \<noteq> [] \<and> is_digit 10 (hd tok) \<and> CHR ''.'' \<in> set tok
         then try_bind (parse_perf_time tok) (\<lambda>ns.
                Inr (Some ns,
                     trim_start (trim_start_ch (CHR '':'') (trim_start (drop (length tok) s)))))
         else Inr (None, s))"

definition split_event :: "string \<Rightarrow> (string \<times> string) option" where
  "split_event s =
     (case find_ch (CHR '':'') s of
        None \<Rightarrow> None
      | Some colon \<Rightarrow> Some (trim_str (take colon s), trim_start (drop (colon + 1) s)))"

definition is_alpha :: "char \<Rightarrow> bool" where
  "is_alpha c \<longleftrightarrow> (let n = of_char c :: nat in 65 \<le> n \<and> n \<le> 90 \<or> 97 \<le> n \<and> n \<le> 122)"

definition strip_event_modifiers :: "string \<Rightarrow> string" where
  "strip_event_modifiers s =
     (let s = trim_start s
      in case find_ch (CHR '':'') s of
           None \<Rightarrow> s
         | Some colon \<Rightarrow>
             if 0 < colon \<and> colon \<le> 8 \<and> list_all is_alpha (take colon s)
             then trim_start (drop (colon + 1) s) else s)"

section \<open>Sample lines\<close>

definition is_hex_text :: "string \<Rightarrow> bool" where
  "is_hex_text t \<longleftrightarrow> parse_address t \<noteq> None"

definition parse_ip_addr_flags ::
  "string \<Rightarrow> sample_event \<Rightarrow> u64 option \<times> u64 option \<times> flags" where
  "parse_ip_addr_flags payload event =
     (let payload = trim_str payload
      in if payload = [] then (None, None, 0)
         else case split_once_str ''=>'' payload of
           Some (left, right) \<Rightarrow>
             (let left_toks = split_whitespace left;
                  ip = Option.bind (find is_hex_text (rev left_toks)) parse_address;
                  fl = join_str '' '' (filter (\<lambda>t. \<not> is_hex_text t) left_toks);
                  addr = Option.bind (first_word right) parse_address
              in (ip, addr, flags_parse_str fl))
         | None \<Rightarrow>
             (let toks = split_whitespace payload;
                  hexes = List.map_filter parse_address toks;
                  fl = flags_parse_str (join_str '' '' (filter (\<lambda>t. \<not> is_hex_text t) toks))
              in case hexes of
                   [] \<Rightarrow> (None, None, fl)
                 | [ip] \<Rightarrow> (Some ip, None, fl)
                 | a # b # _ \<Rightarrow>
                     if is_instruction event then (Some b, Some a, fl) else (Some a, Some b, fl)))"

text \<open>The byte loop after \<^verbatim>\<open>insn:\<close>; \<^verbatim>\<open>from_str_radix\<close> takes a leading plus.\<close>

function insn_bytes_loop :: "insn_bytes \<Rightarrow> string \<Rightarrow> insn_bytes" where
  "insn_bytes_loop bs rest =
     (let t = (case first_word rest of Some t \<Rightarrow> t | None \<Rightarrow> [])
      in if t = [] \<or> last t = CHR '':'' \<or> t = ''ilen'' \<or> t = ''insnlen'' then bs
         else if length t = 2 \<and> length bs < 15
         then (case parse_uint 16 255 t of
                 None \<Rightarrow> bs
               | Some v \<Rightarrow> insn_bytes_loop (bs @ [v]) (trim_start (drop (length t) rest)))
         else bs)"
  by pat_completeness auto
termination
  by (relation "measure (\<lambda>(bs, _). 15 - length bs)") auto

declare insn_bytes_loop.simps [simp del]

definition parse_insn_len :: "string \<Rightarrow> string \<Rightarrow> nat option \<Rightarrow> nat option" where
  "parse_insn_len s key len =
     (case find_str key s of
        None \<Rightarrow> len
      | Some idx \<Rightarrow>
          (let after = trim_start_ch (CHR '':'') (trim_start (drop (idx + length key) s))
           in opt_or (Option.bind (first_word after) (parse_uint 10 255)) len))"

definition parse_insn_fields :: "string \<Rightarrow> insn_bytes \<times> nat option" where
  "parse_insn_fields s =
     ((case find_str ''insn:'' s of
         None \<Rightarrow> []
       | Some idx \<Rightarrow> insn_bytes_loop [] (trim_start (drop (idx + 5) s))),
      fold (parse_insn_len s) [''ilen:'', ''insnlen:'', ''ilen'', ''insnlen''] None)"

definition split_insn_suffix :: "string \<Rightarrow> string \<times> insn_bytes \<times> nat option" where
  "split_insn_suffix s =
     (case List.map_filter (\<lambda>k. find_str k s) [''insn:'', ''ilen:'', ''insnlen:''] of
        [] \<Rightarrow> (trim_end s, [], None)
      | i # is \<Rightarrow>
          (let idx = fold min is i
           in (trim_end (take idx s), parse_insn_fields (trim_start (drop idx s)))))"

definition nonzero_time :: "u64 option \<Rightarrow> u64 option" where
  "nonzero_time t = Option.bind t nonzero"

section \<open>Sideband lines\<close>

definition mmap_prot_path :: "string \<Rightarrow> string \<times> string" where
  "mmap_prot_path line =
     (case rsplit_once_str '']:'' line of
        Some (_, after) \<Rightarrow>
          (case split_whitespace after of
             [] \<Rightarrow> ([], [])
           | prot # parts \<Rightarrow> (prot, join_str '' '' parts))
      | None \<Rightarrow>
          ([], (case rev (split_whitespace line) of [] \<Rightarrow> [] | w # _ \<Rightarrow> w)))"

definition parse_mmap_range :: "string \<Rightarrow> (u64 \<times> u64 \<times> u64) option" where
  "parse_mmap_range line =
     Option.bind (find_str ''[0x'' line) (\<lambda>lb.
     Option.bind (find_ch (CHR '']'') (drop (lb + 1) line)) (\<lambda>inner_end.
       let inner = take inner_end (drop (lb + 1) line)
       in Option.bind (nth_opt 0 (split_ch (CHR ''('') inner)) (\<lambda>start_s.
          Option.bind (nth_opt 1 (split_ch (CHR ''('') inner)) (\<lambda>p.
          Option.bind (nth_opt 0 (split_ch (CHR '')'') p)) (\<lambda>len_s.
            let after = (case nth_opt 1 (split_ch (CHR ''@'') inner) of
                           Some a \<Rightarrow> a | None \<Rightarrow> ''0'');
                pgoff_s = (case first_word after of Some w \<Rightarrow> w | None \<Rightarrow> ''0'')
            in Option.bind (parse_address (trim_str start_s)) (\<lambda>start.
               Option.bind (parse_address (trim_str len_s)) (\<lambda>len.
               Option.bind (parse_address pgoff_s) (\<lambda>pgoff. Some (start, len, pgoff)))))))))"

definition parse_mmap :: "string \<Rightarrow> error + mmap_event" where
  "parse_mmap line =
     (let (pid, tid, rest) = (case split_pid_tid line of Some x \<Rightarrow> x | None \<Rightarrow> (0, 0, line));
          rest = snd (take_cpu rest);
          time_ns = (case take_time rest of Inr (t, _) \<Rightarrow> t | Inl _ \<Rightarrow> None);
          (pid, tid) =
            (case Option.bind (nth_opt 1 (split_str ''PERF_RECORD_MMAP'' line))
                    (\<lambda>after. split_pid_tid (trim_start_ch (CHR ''2'') after)) of
               Some (p, t, _) \<Rightarrow> (p, t)
             | None \<Rightarrow> (pid, tid))
      in try_bind (ok_or (decode_failed (''mmap range missing: '' @ line)) (parse_mmap_range line))
           (\<lambda>(start, len, pgoff).
              let (prot, path) = mmap_prot_path line
              in Inr \<lparr>mm_pid = pid, mm_tid = tid, mm_time = nonzero_time time_ns,
                      mm_start = start, mm_len = len, mm_pgoff = pgoff, mm_prot = prot,
                      mm_path = path\<rparr>))"

text \<open>The name of \<^verbatim>\<open>PERF_RECORD_COMM exec: name:PID/TID\<close>.\<close>

definition task_comm :: "string \<Rightarrow> string option" where
  "task_comm line =
     Option.bind (nth_opt 1 (split_str ''PERF_RECORD_COMM'' line)) (\<lambda>s.
       let s = trim_str (trim_start_ch (CHR '':'') (trim_start_str ''exec:'' (trim_str s)));
           name = trim_str (takeWhile (\<lambda>c. c \<noteq> CHR '':'') s)
       in if name = [] then None else Some name)"

definition parse_pair :: "string \<Rightarrow> (string \<times> string) option" where
  "parse_pair s = split_once_ch (CHR '':'') s"

text \<open>\<^verbatim>\<open>(CHILD:CTID):(PARENT:PTID)\<close>, the parent only when it follows directly.\<close>

definition fork_ids :: "string \<Rightarrow> (u32 \<times> u32 \<times> u32 option \<times> u32 option) option" where
  "fork_ids after =
     Option.bind (find_ch (CHR ''('') after) (\<lambda>open1.
     Option.bind (find_ch (CHR '')'') (drop open1 after)) (\<lambda>close1.
     Option.bind (parse_pair (take (close1 - 1) (drop (open1 + 1) after))) (\<lambda>(c, ct).
     Option.bind (parse_u32 (trim_str c)) (\<lambda>c.
     Option.bind (parse_u32 (trim_str ct)) (\<lambda>ct.
       Some (case Option.bind (strip_prefix_str '':('' (drop (open1 + close1 + 1) after))
                    (\<lambda>rest. Option.bind (find_ch (CHR '')'') rest) (\<lambda>end1. parse_pair (take end1 rest))) of
               None \<Rightarrow> (c, ct, None, None)
             | Some (p, pt) \<Rightarrow> (c, ct, parse_u32 (trim_str p), parse_u32 (trim_str pt))))))))"

definition task_ids :: "string \<Rightarrow> task_kind \<Rightarrow> u32 \<times> u32 \<Rightarrow> u32 \<times> u32 \<times> u32 option \<times> u32 option" where
  "task_ids line kind prefix1 =
     (case nth_opt 1 (split_str ''PERF_RECORD_'' line) of
        None \<Rightarrow> (fst prefix1, snd prefix1, None, None)
      | Some after \<Rightarrow>
          (case (if kind = TFork \<or> kind = TExit then fork_ids after else None) of
             Some ids \<Rightarrow> ids
           | None \<Rightarrow>
               (case split_pid_tid after of
                  Some (p, t, _) \<Rightarrow> (p, t, None, None)
                | None \<Rightarrow> (fst prefix1, snd prefix1, None, None))))"

definition parse_task :: "string \<Rightarrow> task_kind \<Rightarrow> error + task_event" where
  "parse_task line kind =
     try_bind (ok_or (decode_failed line) (split_pid_tid line)) (\<lambda>(pid, tid, rest).
     try_bind (take_time (snd (take_cpu rest))) (\<lambda>(time_ns, _).
       let (pid, tid, ppid, ptid) = task_ids line kind (pid, tid)
       in Inr \<lparr>t_kind = kind, t_pid = pid, t_tid = tid, t_ppid = ppid, t_ptid = ptid,
               t_time = nonzero_time time_ns, t_comm = task_comm line\<rparr>))"

definition parse_switch :: "string \<Rightarrow> error + raw_record" where
  "parse_switch line =
     try_bind (ok_or (decode_failed line) (split_pid_tid line)) (\<lambda>(pid, tid, rest).
     try_bind (take_time (snd (take_cpu rest))) (\<lambda>(time_ns, _).
       Inr (RSwitch pid tid (nonzero_time time_ns)
              (contains_str line ''SWITCH_CPU_WIDE OUT'' \<or> contains_str line '' out ''))))"

definition parse_lost :: "string \<Rightarrow> lost_event" where
  "parse_lost line =
     \<lparr>l_time = None, l_cpu = None,
      l_lost = (case List.map_filter parse_u64 (split_whitespace line) of [] \<Rightarrow> 0 | n # _ \<Rightarrow> n)\<rparr>"

definition decoder_error_field ::
  "string \<Rightarrow> string \<Rightarrow> decoder_error_event \<Rightarrow> decoder_error_event" where
  "decoder_error_field key val ev =
     (if key = ''time'' then
        ev\<lparr>de_time := (case parse_perf_time val of Inr t \<Rightarrow> nonzero t | Inl _ \<Rightarrow> None)\<rparr>
      else if key = ''cpu'' then ev\<lparr>de_cpu := parse_u32 val\<rparr>
      else if key = ''pid'' then ev\<lparr>de_pid := parse_u32 val\<rparr>
      else if key = ''tid'' then ev\<lparr>de_tid := parse_u32 val\<rparr>
      else if key = ''ip'' then ev\<lparr>de_ip := parse_address val\<rparr>
      else if key = ''code'' then ev\<lparr>de_code := parse_u32 (trim_end_ch (CHR '':'') val)\<rparr>
      else ev)"

fun decoder_error_fields :: "string list \<Rightarrow> decoder_error_event \<Rightarrow> decoder_error_event" where
  "decoder_error_fields (key # val # toks) ev =
     decoder_error_fields (val # toks) (decoder_error_field key val ev)"
| "decoder_error_fields _ ev = ev"

definition parse_decoder_error :: "string \<Rightarrow> decoder_error_event" where
  "parse_decoder_error line =
     (let ev = decoder_error_fields (split_whitespace line)
                 \<lparr>de_time = None, de_cpu = None, de_pid = None, de_tid = None, de_ip = None,
                  de_code = None, de_message = trim_str line\<rparr>
      in if de_pid ev = None
         then (case split_pid_tid line of
                 Some (p, t, _) \<Rightarrow> ev\<lparr>de_pid := Some p, de_tid := Some t\<rparr>
               | None \<Rightarrow> ev)
         else ev)"

section \<open>Dispatch\<close>

definition parse_sample_line :: "string \<Rightarrow> error + raw_record" where
  "parse_sample_line line =
     try_bind (ok_or (decode_failed (''missing pid/tid: '' @ line)) (split_pid_tid line))
       (\<lambda>(pid, tid, rest).
     let (cpu, rest) = take_cpu rest
     in try_bind (take_time rest) (\<lambda>(time_ns, rest).
        try_bind (ok_or (decode_failed (''missing event: '' @ line)) (split_event (trim_start rest)))
          (\<lambda>(event, after_event).
        let event_name = trim_end_ch (CHR '':'') event;
            after = strip_event_modifiers after_event
        in if contains_str event_name ''mmap'' \<or> prefix ''PERF_RECORD_MMAP'' event_name
           then map_sum id RMmap (parse_mmap line)
           else
             (let event = (if prefix ''branches'' event_name then Branches
                           else if prefix ''instructions'' event_name then InstructionsEvent
                           else OtherEvent);
                  (payload, insn, insn_len) = split_insn_suffix after;
                  (ip, addr, fl) = parse_ip_addr_flags payload event
              in Inr (RSample
                   \<lparr>s_pid = pid, s_tid = tid, s_cpu = cpu, s_time = nonzero_time time_ns,
                    s_event = event, s_ip = ip, s_addr = addr, s_flags = fl,
                    s_insn_len = insn_len, s_insn = insn\<rparr>)))))"

definition parse_line_slow :: "string \<Rightarrow> error + raw_record" where
  "parse_line_slow line =
     (if contains_str line ''instruction trace error'' \<or> contains_str line ''insn trace error''
      then Inr (RDecoderError (parse_decoder_error line))
      else if contains_str line ''PERF_RECORD_LOST''
           \<or> contains_str line '' lost '' \<and> contains_str line ''LOST''
      then Inr (RLost (parse_lost line))
      else if contains_str line ''PERF_RECORD_MMAP'' then map_sum id RMmap (parse_mmap line)
      else if contains_str line ''PERF_RECORD_COMM'' \<or> contains_str line '' PERF_RECORD_EXEC''
      then map_sum id RTask (parse_task line TComm)
      else if contains_str line ''PERF_RECORD_FORK'' then map_sum id RTask (parse_task line TFork)
      else if contains_str line ''PERF_RECORD_EXIT'' then map_sum id RTask (parse_task line TExit)
      else if contains_str line ''PERF_RECORD_SWITCH'' then parse_switch line
      else parse_sample_line line)"

definition parse_line :: "string \<Rightarrow> error + raw_record option" where
  "parse_line line =
     (let line = trim_end line
      in if line = [] \<or> prefix ''#'' line \<or> prefix ''failed to read'' line then Inr None
         else case parse_sample line of
                Inr s \<Rightarrow> Inr (Some (RSample s))
              | Inl _ \<Rightarrow> map_sum id Some (parse_line_slow line))"

end
