(* ===== verification/Perf_Stream.thy ===== *)
theory Perf_Stream
  imports Perf_Lines
begin

text \<open>
  \<^verbatim>\<open>stream_records\<close> of \<^verbatim>\<open>src/decode/perf_script.rs\<close>: the reading loop with its
  one growing buffer, the handling of a line, and the reference that splits the
  whole text at newlines. The reader is the text still to come and a script of
  what every read call does.
\<close>

section \<open>The reader\<close>

text \<open>
  \<^verbatim>\<open>Read::read\<close> into a buffer of \<open>k\<close> bytes: it fails, or it copies between one and
  \<open>k\<close> bytes while any are left; zero bytes mean the end of the text. A script that
  has run out gives as much as fits.
\<close>

datatype read_step = ReadFails string | ReadUpTo nat

type_synonym reader = "string \<times> read_step list"

fun read_some :: "nat \<Rightarrow> reader \<Rightarrow> string + string \<times> reader" where
  "read_some k (inp, []) = Inr (take k inp, drop k inp, [])"
| "read_some k (inp, ReadFails m # sc) = Inl m"
| "read_some k (inp, ReadUpTo n # sc) =
     (let m = min k (max 1 n) in Inr (take m inp, drop m inp, sc))"

section \<open>One line\<close>

record stream_stats =
  st_lines :: u64
  st_bytes :: u64
  st_samples :: u64
  st_unparsed :: u64
  st_streams :: u32

definition stream_stats_default :: stream_stats where
  "stream_stats_default =
     \<lparr>st_lines = 0, st_bytes = 0, st_samples = 0, st_unparsed = 0, st_streams = 0\<rparr>"

definition trim_end_bytes :: "string \<Rightarrow> string" where
  "trim_end_bytes s =
     rev (dropWhile (\<lambda>c. c = CHR 0x0A \<or> c = CHR 0x0D \<or> c = CHR '' '' \<or> c = CHR 0x09) (rev s))"

text \<open>
  What a stretch of the stream ends with: the statistics and the state of the
  caller's sink, its error, or a read outside of the buffer.
\<close>

type_synonym 'k outcome = "failure + stream_stats \<times> 'k"

type_synonym 'k record_sink = "raw_record \<Rightarrow> 'k \<Rightarrow> error + 'k"

definition give :: "'k record_sink \<Rightarrow> raw_record \<Rightarrow> stream_stats \<times> 'k \<Rightarrow> 'k outcome" where
  "give sink rec sk = map_sum Err (Pair (fst sk)) (sink rec (snd sk))"

definition count_sample :: "stream_stats \<times> 'k \<Rightarrow> stream_stats \<times> 'k" where
  "count_sample = map_prod (\<lambda>st. st\<lparr>st_samples := st_samples st + 1\<rparr>) id"

definition count_bytes :: "nat \<Rightarrow> stream_stats \<times> 'k \<Rightarrow> stream_stats \<times> 'k" where
  "count_bytes n = map_prod (\<lambda>st. st\<lparr>st_bytes := st_bytes st + n\<rparr>) id"

definition line_error :: "string \<Rightarrow> nat \<Rightarrow> error \<Rightarrow> decoder_error_event" where
  "line_error text n err =
     (let (pid, tid) = (case split_pid_tid text of
                          Some (p, t, _) \<Rightarrow> (Some p, Some t) | None \<Rightarrow> (None, None))
      in \<lparr>de_time = None, de_cpu = None, de_pid = pid, de_tid = tid, de_ip = None, de_code = None,
          de_message = ''line '' @ show_dec n @ '': '' @ error_display err @ '': '' @ text\<rparr>)"

text \<open>The tolerant half of \<^verbatim>\<open>consume_line\<close>.\<close>

definition consume_slow :: "'k record_sink \<Rightarrow> string \<Rightarrow> stream_stats \<times> 'k \<Rightarrow> 'k outcome" where
  "consume_slow sink text sk =
     (case parse_line_slow text of
        Inr (RSample s) \<Rightarrow> give sink (RSample s) (count_sample sk)
      | Inr rec \<Rightarrow> give sink rec sk
      | Inl err \<Rightarrow>
          (let st = fst sk; st' = st\<lparr>st_unparsed := st_unparsed st + 1\<rparr>
           in give sink (RDecoderError (line_error text (st_lines st) err)) (st', snd sk)))"

definition count_line :: "stream_stats \<times> 'k \<Rightarrow> stream_stats \<times> 'k" where
  "count_line = map_prod (\<lambda>st. st\<lparr>st_lines := st_lines st + 1\<rparr>) id"

text \<open>\<open>consume_line sink mem n\<close>: the line is the first \<open>n\<close> bytes of the memory \<open>mem\<close>.\<close>

definition consume_line :: "'k record_sink \<Rightarrow> string \<Rightarrow> nat \<Rightarrow> stream_stats \<times> 'k \<Rightarrow> 'k outcome" where
  "consume_line sink mem n sk =
     (let sk = count_line sk; line = trim_end_bytes (take n mem)
      in if line = [] \<or> hd line = CHR ''#'' then Inr sk
         else (case parse_sample_guarded mem (length line) of
                 Inr s \<Rightarrow> give sink (RSample s) (count_sample sk)
               | Inl Reject \<Rightarrow> consume_slow sink line sk
               | Inl Fault \<Rightarrow> Inl Panic))"

definition memchr_nl :: "string \<Rightarrow> nat" where
  "memchr_nl hay = (case position (\<lambda>b. b = CHR 0x0A) hay of Some i \<Rightarrow> i | None \<Rightarrow> length hay)"

text \<open>The inner loop over the complete lines of the buffer.\<close>

function consume_lines ::
  "'k record_sink \<Rightarrow> string \<Rightarrow> nat \<Rightarrow> nat \<Rightarrow> stream_stats \<times> 'k \<Rightarrow> 'k outcome" where
  "consume_lines sink buf start data_end sk =
     (if start < data_end
      then (let len = memchr_nl (drop start (take data_end buf)); end1 = start + len
            in case consume_line sink (drop start buf) len (count_bytes (len + 1) sk) of
                 Inl e \<Rightarrow> Inl e
               | Inr sk' \<Rightarrow> consume_lines sink buf (end1 + 1) data_end sk')
      else Inr sk)"
  by pat_completeness auto
termination
  by (relation "measure (\<lambda>(_, _, start, data_end, _). data_end - start)") auto

section \<open>The reading loop\<close>

definition CHUNK :: nat where
  "CHUNK = 4194304"

definition resize :: "nat \<Rightarrow> string \<Rightarrow> string" where
  "resize n buf = take n buf @ replicate (n - length buf) (CHR 0x00)"

definition last_newline :: "string \<Rightarrow> nat option" where
  "last_newline s =
     map_option (\<lambda>i. length s - 1 - i) (position (\<lambda>b. b = CHR 0x0A) (rev s))"

text \<open>The buffer and the unread rest after the complete lines are handed out.\<close>

definition compact :: "string \<Rightarrow> nat \<Rightarrow> nat \<Rightarrow> string \<times> nat" where
  "compact buf data_end filled =
     (let buf1 = drop data_end (take filled buf) @ drop (filled - data_end) buf;
          filled1 = filled - data_end;
          buf2 = (if CHUNK * 4 < length buf1 \<and> filled1 < CHUNK then take CHUNK buf1 else buf1);
          buf3 = (if length buf2 < CHUNK then resize CHUNK buf2 else buf2)
      in (buf3, filled1))"

lemma read_some_progress:
  "read_some k rd = Inr (bytes, rd') \<Longrightarrow> bytes \<noteq> [] \<Longrightarrow>
   fst rd = bytes @ fst rd' \<and> length bytes \<le> k \<and> length (fst rd') < length (fst rd)"
  by (induction k rd rule: read_some.induct) (auto simp: Let_def)

function stream_loop ::
  "'k record_sink \<Rightarrow> string \<Rightarrow> nat \<Rightarrow> reader \<Rightarrow> stream_stats \<times> 'k \<Rightarrow> 'k outcome" where
  "stream_loop sink buf filled rd sk =
     (let buf1 = (if filled = length buf then resize (length buf * 2) buf else buf)
      in case read_some (length buf1 - filled) rd of
           Inl m \<Rightarrow> Inl (Err (decode_failed (''read perf script: '' @ m)))
         | Inr (bytes, rd') \<Rightarrow>
             if bytes = []
             then (if 0 < filled
                   then consume_line sink (resize (filled + GUARD) (take filled buf1)) filled
                          (count_bytes filled sk)
                   else Inr sk)
             else
               (let buf2 = take filled buf1 @ bytes @ drop (filled + length bytes) buf1;
                    filled2 = filled + length bytes
                in case last_newline (take filled2 buf2) of
                     None \<Rightarrow> stream_loop sink buf2 filled2 rd' sk
                   | Some last_nl \<Rightarrow>
                       (let data_end = last_nl + 1;
                            buf3 = (if length buf2 < filled2 + GUARD
                                    then resize (filled2 + GUARD) buf2 else buf2)
                        in case consume_lines sink buf3 0 data_end sk of
                             Inl e \<Rightarrow> Inl e
                           | Inr sk' \<Rightarrow>
                               (case compact buf3 data_end filled2 of
                                  (buf4, filled4) \<Rightarrow> stream_loop sink buf4 filled4 rd' sk'))))"
  by pat_completeness auto

termination
  by (relation "measure (\<lambda>(_, _, _, rd, _). length (fst rd))")
    (auto dest!: read_some_progress)

declare consume_lines.simps [simp del] stream_loop.simps [simp del]

definition stream_records ::
  "'k record_sink \<Rightarrow> reader \<Rightarrow> stream_stats \<Rightarrow> 'k \<Rightarrow> 'k outcome" where
  "stream_records sink rd st k = stream_loop sink (replicate CHUNK (CHR 0x00)) 0 rd (st, k)"

definition parse_reader :: "reader \<Rightarrow> failure + raw_record list" where
  "parse_reader rd =
     map_sum id snd (stream_records (\<lambda>rec out. Inr (out @ [rec])) rd stream_stats_default [])"

section \<open>Reference\<close>

text \<open>A line as text, without memory.\<close>

definition plain_line :: "'k record_sink \<Rightarrow> string \<Rightarrow> stream_stats \<times> 'k \<Rightarrow> 'k outcome" where
  "plain_line sink text sk =
     (let sk = count_line sk; line = trim_end_bytes text
      in if line = [] \<or> hd line = CHR ''#'' then Inr sk
         else (case ref_sample line of
                 Some s \<Rightarrow> give sink (RSample s) (count_sample sk)
               | None \<Rightarrow> consume_slow sink line sk))"

text \<open>The whole text, line by line.\<close>

function plain_stream :: "'k record_sink \<Rightarrow> string \<Rightarrow> stream_stats \<times> 'k \<Rightarrow> 'k outcome" where
  "plain_stream sink text sk =
     (if text = [] then Inr sk
      else (case position (\<lambda>b. b = CHR 0x0A) text of
              None \<Rightarrow> plain_line sink text (count_bytes (length text) sk)
            | Some i \<Rightarrow>
                (case plain_line sink (take i text) (count_bytes (i + 1) sk) of
                   Inl e \<Rightarrow> Inl e
                 | Inr sk' \<Rightarrow> plain_stream sink (drop (i + 1) text) sk')))"
  by pat_completeness auto
termination
  by (relation "measure (\<lambda>(_, text, _). length text)") auto

declare plain_stream.simps [simp del]

section \<open>The lines of the buffer\<close>

lemma trim_end_bytes_split:
  "\<exists>ws. s = trim_end_bytes s @ ws \<and> (ws = [] \<or> hd ws \<in> {CHR 0x0A, CHR 0x0D, CHR '' '', CHR 0x09})"
proof -
  let ?P = "\<lambda>c. c = CHR 0x0A \<or> c = CHR 0x0D \<or> c = CHR '' '' \<or> c = CHR 0x09"
  let ?w = "rev (takeWhile ?P (rev s))"
  have "rev (takeWhile ?P (rev s) @ dropWhile ?P (rev s)) = s" by simp
  then have "s = trim_end_bytes s @ ?w" by (simp add: trim_end_bytes_def del: takeWhile_dropWhile_id)
  moreover have "?w = [] \<or> hd ?w \<in> set ?w" using hd_in_set [of ?w] by blast
  moreover have "\<forall>c\<in>set ?w. ?P c" by (auto dest: set_takeWhileD)
  ultimately show ?thesis by blast
qed

lemma consume_line_plain:
  assumes "GUARD \<le> length after" "hd after \<notin> structural" "length text + length after < 2 ^ 63"
  shows "consume_line sink (text @ after) (length text) sk = plain_line sink text sk"
proof -
  obtain ws where ws: "text = trim_end_bytes text @ ws"
      "ws = [] \<or> hd ws \<in> {CHR 0x0A, CHR 0x0D, CHR '' '', CHR 0x09}"
    using trim_end_bytes_split by blast
  let ?line = "trim_end_bytes text"
  have "hd (ws @ after) \<notin> structural"
    using assms(2) ws(2) by (cases ws) (auto simp: structural_def)
  moreover have "GUARD \<le> length (ws @ after)" using assms(1) by simp
  moreover have "length text = length ?line + length ws" using ws(1) by (metis length_append)
  ultimately have "parse_sample_guarded (?line @ ws @ after) (length ?line) =
      (case ref_sample ?line of None \<Rightarrow> Inl Reject | Some s \<Rightarrow> Inr s)"
    using assms(3) by (intro guarded_reference) simp_all
  moreover have "?line @ ws @ after = text @ after"
    using ws(1) by (metis append.assoc)
  ultimately show ?thesis
    by (simp add: consume_line_def plain_line_def Let_def split: option.split)
qed

lemma plain_stream_line:
  "position (\<lambda>b. b = CHR 0x0A) s = Some i \<Longrightarrow>
   plain_stream sink s sk =
     try_bind (plain_line sink (take i s) (count_bytes (i + 1) sk))
       (plain_stream sink (drop (i + 1) s))"
  by (subst plain_stream.simps) (auto simp: try_bind_def split: sum.split)

lemma position_append: "position P xs = Some i \<Longrightarrow> position P (xs @ ys) = Some i"
  by (induction xs arbitrary: i) (auto split: if_splits)

lemma consume_lines_plain:
  assumes "start \<le> data_end" "data_end + GUARD \<le> length buf" "length buf < 2 ^ 63"
    and "start < data_end \<Longrightarrow> buf ! (data_end - 1) = CHR 0x0A"
  shows "try_bind (consume_lines sink buf start data_end sk) (plain_stream sink rest) =
         plain_stream sink (drop start (take data_end buf) @ rest) sk"
  using assms
proof (induction sink buf start data_end sk rule: consume_lines.induct)
  case (1 sink buf start data_end sk)
  let ?nl = "\<lambda>b. b = CHR 0x0A" and ?seg = "drop start (take data_end buf)"
  show ?case
  proof (cases "start < data_end")
    case False
    then show ?thesis using "1.prems" by (subst consume_lines.simps) simp
  next
    case True
    have len: "length ?seg = data_end - start" using "1.prems" by simp
    have "?seg ! (data_end - 1 - start) = CHR 0x0A" using "1.prems" True by simp
    then have "CHR 0x0A \<in> set ?seg" using len True by (metis diff_commute diff_less nth_mem zero_less_diff zero_less_one)
    then obtain i where i: "position ?nl ?seg = Some i"
      using position_None_iff [of ?nl ?seg] by auto
    from position_SomeD [OF this] have i2: "i < data_end - start" "?seg ! i = CHR 0x0A"
      using len by auto
    have mem: "memchr_nl ?seg = i" by (simp add: memchr_nl_def i)
    let ?line = "take i ?seg" and ?after = "drop (start + i) buf"
    have "?line = take i (drop start buf)"
      using i2(1) by (simp add: drop_take)
    then have line: "drop start buf = ?line @ ?after" "length ?line = i"
      using i2(1) len by (simp_all add: add.commute flip: drop_drop)
    have "hd ?after = CHR 0x0A"
      using i2 "1.prems" by (simp add: hd_drop_conv_nth)
    then have "consume_line sink (?line @ ?after) (length ?line) (count_bytes (i + 1) sk) =
        plain_line sink ?line (count_bytes (i + 1) sk)"
      using i2(1) "1.prems"(2,3) by (intro consume_line_plain) (auto simp: structural_def)
    then have step: "consume_line sink (drop start buf) i (count_bytes (i + 1) sk) =
        plain_line sink ?line (count_bytes (i + 1) sk)"
      using line by metis
    have rhs: "plain_stream sink (?seg @ rest) sk =
        try_bind (plain_line sink ?line (count_bytes (i + 1) sk))
          (plain_stream sink (drop (start + i + 1) (take data_end buf) @ rest))"
      using i2(1) len by (simp add: plain_stream_line [OF position_append [OF i]] add.commute)
    show ?thesis
    proof (cases "plain_line sink ?line (count_bytes (i + 1) sk)")
      case (Inl e)
      then show ?thesis
        unfolding rhs using True by (simp add: consume_lines.simps [of sink buf start data_end sk] mem step [simplified] Let_def)
    next
      case (Inr sk')
      have "try_bind (consume_lines sink buf (start + i + 1) data_end sk') (plain_stream sink rest) =
          plain_stream sink (drop (start + i + 1) (take data_end buf) @ rest) sk'"
        using "1.IH" [OF True refl refl, unfolded mem, OF step [unfolded Inr]] "1.prems" i2(1) by simp
      then show ?thesis
        unfolding rhs using True Inr
        by (simp add: consume_lines.simps [of sink buf start data_end sk] mem step [simplified] Let_def)
    qed
  qed
qed

section \<open>The loop\<close>

lemma last_newline_Some:
  assumes "last_newline s = Some i"
  shows "i < length s \<and> s ! i = CHR 0x0A \<and> CHR 0x0A \<notin> set (drop (i + 1) s)"
proof -
  obtain j where j: "position (\<lambda>b. b = CHR 0x0A) (rev s) = Some j" "i = length s - 1 - j"
    using assms by (auto simp: last_newline_def)
  from position_SomeD [OF j(1)] have d: "j < length s" "rev s ! j = CHR 0x0A"
      "\<forall>k<j. rev s ! k \<noteq> CHR 0x0A"
    by auto
  have "CHR 0x0A \<notin> set (drop (i + 1) s)"
  proof
    assume "CHR 0x0A \<in> set (drop (i + 1) s)"
    then obtain m where m: "m < length s - (i + 1)" "s ! (i + 1 + m) = CHR 0x0A"
      by (auto simp: in_set_conv_nth)
    define k where "k = length s - Suc (i + 1 + m)"
    have k: "k < j" "k < length s" "length s - Suc k = i + 1 + m"
      using j(2) d(1) m(1) by (auto simp: k_def)
    then have "rev s ! k = CHR 0x0A" using m(2) by (simp only: rev_nth)
    with k(1) d(3) show False by blast
  qed
  moreover have "s ! i = CHR 0x0A" using d(1,2) j(2) by (simp add: rev_nth)
  moreover have "i < length s" using d(1) j(2) by linarith
  ultimately show ?thesis by blast
qed

lemma last_newline_None: "last_newline s = None \<Longrightarrow> CHR 0x0A \<notin> set s"
  by (auto simp: last_newline_def position_None_iff)

lemma compact_keeps:
  assumes "compact buf data_end filled = (buf', filled')" "data_end \<le> filled" "filled \<le> length buf"
    and "length buf \<le> B" "CHUNK \<le> B"
  shows "filled' = filled - data_end \<and> take filled' buf' = drop data_end (take filled buf) \<and>
         filled' \<le> length buf' \<and> CHUNK \<le> length buf' \<and> length buf' \<le> B"
proof -
  define buf1 where "buf1 = drop data_end (take filled buf) @ drop (filled - data_end) buf"
  define buf2 where
    "buf2 = (if CHUNK * 4 < length buf1 \<and> filled - data_end < CHUNK then take CHUNK buf1 else buf1)"
  have eq: "filled' = filled - data_end" "buf' = (if length buf2 < CHUNK then resize CHUNK buf2 else buf2)"
    using assms(1) unfolding compact_def Let_def buf1_def [symmetric] buf2_def [symmetric] prod.inject
    by (simp_all only: buf2_def [symmetric])
  have len: "length (drop data_end (take filled buf)) = filled - data_end"
    using assms(3) by (simp only: length_drop length_take min.absorb2)
  have b1: "length buf1 = length buf" "take filled' buf1 = drop data_end (take filled buf)"
    using assms(2,3) len unfolding buf1_def eq(1) length_append
    by (simp_all only: length_drop take_append diff_self_eq_0 take_0 append_Nil2 order_refl take_all le_add_diff_inverse2)
  have b2: "filled' \<le> length buf2" "take filled' buf2 = drop data_end (take filled buf)" "length buf2 \<le> B"
    using b1 assms(2-5) eq(1) by (auto simp: buf2_def min_def)
  show ?thesis
  proof (cases "length buf2 < CHUNK")
    case True
    then have "buf' = buf2 @ replicate (CHUNK - length buf2) CHR 0x00"
      by (simp add: eq(2) resize_def)
    then show ?thesis using True b2 eq(1) assms(5) by (simp del: replicate.simps)
  next
    case False
    then show ?thesis using b2 eq by simp
  qed
qed

lemma stream_loop_plain:
  assumes "\<forall>r\<in>set (snd rd). \<exists>n. r = ReadUpTo n"
    and "filled \<le> length buf" "CHUNK \<le> length buf" "length buf \<le> B"
    and "2 * (filled + length (fst rd)) + GUARD \<le> B" "CHUNK \<le> B" "B + GUARD < 2 ^ 63"
    and "CHR 0x0A \<notin> set (take filled buf)"
  shows "stream_loop sink buf filled rd sk = plain_stream sink (take filled buf @ fst rd) sk"
  using assms
proof (induction sink buf filled rd sk rule: stream_loop.induct)
  case (1 sink buf filled rd sk)
  note prems = "1.prems"
  define buf1 where "buf1 = (if filled = length buf then resize (length buf * 2) buf else buf)"
  define k where "k = length buf1 - filled"
  have b1: "filled < length buf1" "take filled buf1 = take filled buf" "CHUNK \<le> length buf1" "length buf1 \<le> B"
    using prems(2-6) by (auto simp: buf1_def resize_def CHUNK_def)
  obtain bytes rd' where r: "read_some k rd = Inr (bytes, rd')"
    and script: "\<forall>r\<in>set (snd rd'). \<exists>n. r = ReadUpTo n"
    and none: "bytes = [] \<longleftrightarrow> fst rd = []"
  proof -
    have "\<exists>bytes rd'. read_some k rd = Inr (bytes, rd') \<and> (\<forall>r\<in>set (snd rd'). \<exists>n. r = ReadUpTo n) \<and>
        (bytes = [] \<longleftrightarrow> fst rd = [])"
      using prems(1) b1(1) by (cases rd; cases "snd rd") (auto simp: k_def Let_def)
    then show ?thesis using that by blast
  qed
  show ?case
  proof (cases "bytes = []")
    case True
    then have inp: "fst rd = []" using none by simp
    show ?thesis
    proof (cases "filled = 0")
      case True
      then show ?thesis
        using r \<open>bytes = []\<close> inp unfolding k_def buf1_def
        by (subst stream_loop.simps) (simp add: Let_def plain_stream.simps [of sink "[]"])
    next
      case False
      have len: "length (take filled buf) = filled" using prems(2) by simp
      have "consume_line sink (take filled buf @ replicate GUARD CHR 0x00) (length (take filled buf))
          (count_bytes filled sk) = plain_line sink (take filled buf) (count_bytes filled sk)"
        using prems(2,4,7) by (intro consume_line_plain) (auto simp: structural_def GUARD_def)
      moreover have nonl: "position (\<lambda>b. b = CHR 0x0A) (take filled buf) = None"
        using prems(8) unfolding position_None_iff by blast
      moreover have "resize (filled + GUARD) (take filled buf1) = take filled buf @ replicate GUARD CHR 0x00"
        using prems(2) b1(2) by (simp add: resize_def)
      moreover have "plain_stream sink (take filled buf) sk =
          plain_line sink (take filled buf) (count_bytes filled sk)"
        using False len by (subst plain_stream.simps) (auto simp: nonl simp del: length_take)
      ultimately show ?thesis
        using r \<open>bytes = []\<close> inp False len unfolding k_def
        by (subst stream_loop.simps) (simp add: Let_def buf1_def [symmetric] del: length_take)
    qed
  next
    case False
    note prog = read_some_progress [OF r False]
    define buf2 where "buf2 = take filled buf1 @ bytes @ drop (filled + length bytes) buf1"
    define filled2 where "filled2 = filled + length bytes"
    have le: "filled2 \<le> length buf1" using prog b1(1) unfolding filled2_def k_def by linarith
    have len2: "length buf2 = length buf1"
      using le b1(1) by (simp add: buf2_def filled2_def)
    have t2: "take filled2 buf2 = take filled buf @ bytes"
      using b1(1,2) prems(2) by (simp add: buf2_def filled2_def)
    have total: "take filled2 buf2 @ fst rd' = take filled buf @ fst rd"
      using t2 prog by simp
    have room: "2 * (filled2 + length (fst rd')) + GUARD \<le> B"
      using prems(5) prog by (simp add: filled2_def)
    note unfold = r [unfolded k_def] False
    have body: "stream_loop sink buf filled rd sk =
        (case last_newline (take filled2 buf2) of
           None \<Rightarrow> stream_loop sink buf2 filled2 rd' sk
         | Some last_nl \<Rightarrow>
             (let data_end = last_nl + 1;
                  buf3 = (if length buf2 < filled2 + GUARD then resize (filled2 + GUARD) buf2 else buf2)
              in case consume_lines sink buf3 0 data_end sk of
                   Inl e \<Rightarrow> Inl e
                 | Inr sk' \<Rightarrow>
                     (case compact buf3 data_end filled2 of
                        (buf4, filled4) \<Rightarrow> stream_loop sink buf4 filled4 rd' sk')))"
      using unfold by (subst stream_loop.simps)
        (simp only: Let_def buf1_def [symmetric] sum.case prod.case if_False buf2_def filled2_def)
    show ?thesis
    proof (cases "last_newline (take filled2 buf2)")
      case None
      have "stream_loop sink buf2 filled2 rd' sk = plain_stream sink (take filled2 buf2 @ fst rd') sk"
      proof (rule "1.IH"(1) [OF buf1_def r [unfolded k_def] refl False buf2_def filled2_def None])
        show "CHR 0x0A \<notin> set (take filled2 buf2)" by (rule last_newline_None [OF None])
      qed (use script le len2 b1 room prems in auto)
      then show ?thesis using None total by (simp add: body)
    next
      case (Some nl)
      note last = last_newline_Some [OF Some]
      define data_end where "data_end = nl + 1"
      define buf3 where "buf3 = (if length buf2 < filled2 + GUARD then resize (filled2 + GUARD) buf2 else buf2)"
      have nl: "nl < filled2" using last by simp
      have b3: "take filled2 buf3 = take filled2 buf2" "filled2 + GUARD \<le> length buf3" "length buf3 \<le> B"
        using le len2 b1(4) room by (auto simp: buf3_def resize_def)
      obtain buf4 filled4 where c: "compact buf3 data_end filled2 = (buf4, filled4)"
        by (metis prod.exhaust)
      have b4: "filled4 = filled2 - data_end" "take filled4 buf4 = drop data_end (take filled2 buf3)"
          "filled4 \<le> length buf4" "CHUNK \<le> length buf4" "length buf4 \<le> B"
        using compact_keeps [OF c _ _ b3(3) prems(6)] nl b3(2) by (auto simp: data_end_def)
      have rest: "stream_loop sink buf4 filled4 rd' sk' =
          plain_stream sink (drop data_end (take filled2 buf3) @ fst rd') sk'"
        if "consume_lines sink buf3 0 data_end sk = Inr sk'" for sk'
        unfolding b4(2) [symmetric]
      proof (rule "1.IH"(2) [OF buf1_def r [unfolded k_def] refl False buf2_def filled2_def Some data_end_def
            buf3_def that c [symmetric]])
        show "CHR 0x0A \<notin> set (take filled4 buf4)"
          using last unfolding b4(2) b3(1) data_end_def by simp
        show "2 * (filled4 + length (fst rd')) + GUARD \<le> B" using room b4(1) by simp
      qed (use script b4 prems in auto)
      have at: "buf3 ! (data_end - 1) = CHR 0x0A"
        using last nl b3(1) unfolding data_end_def by (metis add_diff_cancel_right' nth_take)
      have "try_bind (consume_lines sink buf3 0 data_end sk)
              (plain_stream sink (drop data_end (take filled2 buf3) @ fst rd')) =
            plain_stream sink (drop 0 (take data_end buf3) @ drop data_end (take filled2 buf3) @ fst rd') sk"
        using nl b3(2,3) prems(7) at by (intro consume_lines_plain) (auto simp: data_end_def)
      moreover have "take data_end buf3 @ drop data_end (take filled2 buf3) = take filled2 buf3"
        using nl by (metis Suc_eq_plus1 Suc_leI append_take_drop_id data_end_def min.absorb1 take_take)
      ultimately have lines: "try_bind (consume_lines sink buf3 0 data_end sk)
              (plain_stream sink (drop data_end (take filled2 buf3) @ fst rd')) =
            plain_stream sink (take filled buf @ fst rd) sk"
        using b3(1) total by (simp only: drop_0 append.assoc [symmetric])
      show ?thesis
        unfolding lines [symmetric] body Some option.case Let_def data_end_def [symmetric] buf3_def [symmetric] c prod.case
        using rest by (cases "consume_lines sink buf3 0 data_end sk") simp_all
    qed
  qed
qed

lemma stream_records_eq:
  assumes "\<forall>r\<in>set script. \<exists>n. r = ReadUpTo n" "length input < 2 ^ 60"
  shows "stream_records sink (input, script) st k = plain_stream sink input (st, k)"
proof -
  have "stream_loop sink (replicate CHUNK CHR 0x00) 0 (input, script) (st, k) =
      plain_stream sink (take 0 (replicate CHUNK CHR 0x00) @ fst (input, script)) (st, k)"
    by (rule stream_loop_plain [where B = "2 ^ 62"])
      (use assms in \<open>simp_all add: CHUNK_def GUARD_def del: replicate.simps\<close>)
  then show ?thesis by (simp add: stream_records_def)
qed

section \<open>Printed samples\<close>

lemma digit_plain: "is_digit b c \<Longrightarrow> b \<le> 16 \<Longrightarrow> c \<noteq> CHR 0x0A \<and> c \<noteq> CHR 0x0D \<and> c \<noteq> CHR 0x09 \<and> c \<noteq> CHR '' '' \<and> c \<noteq> CHR ''#''"
  by (auto simp: is_digit_def digit_val_def Let_def split: if_splits)

lemma show_plain: "c \<in> set (show_base b n) \<Longrightarrow> 2 \<le> b \<Longrightarrow> b \<le> 16 \<Longrightarrow> c \<noteq> CHR 0x0A"
  using show_base_digits digit_plain by blast

lemma flag_name_plain: "n \<in> set (flag_names fl) \<Longrightarrow> CHR 0x0A \<notin> set n"
proof -
  assume "n \<in> set (flag_names fl)"
  then have "n \<in> snd ` set flag_table" by (auto simp: flag_names_def)
  then show "CHR 0x0A \<notin> set n" by (auto simp: flag_table_def)
qed

lemma hex2_plain: "b < 256 \<Longrightarrow> c \<in> set (hex2 b) \<Longrightarrow> c \<noteq> CHR 0x0A"
  using hex2(2) [of b] digit_plain by blast

lemma sample_insn_plain:
  assumes "printable s"
  shows "CHR 0x0A \<notin> set (sample_insn s)"
proof -
  have "CHR 0x0A \<notin> set (show_dec n)" for n
    using show_plain [of _ 10 n] by auto
  moreover have "\<forall>b\<in>set (s_insn s). CHR 0x0A \<notin> set (hex2 b)"
    using assms hex2_plain unfolding printable_def by blast
  ultimately show ?thesis
    unfolding sample_insn_def by (simp split: option.split)
qed

lemma sample_line_no_newline:
  assumes "printable s"
  shows "CHR 0x0A \<notin> set (sample_line s)"
proof -
  have "CHR 0x0A \<notin> set (show_base b n)" if "2 \<le> b" "b \<le> 16" for b n
    using show_plain that by blast
  moreover have "CHR 0x0A \<notin> set (pad9 n)" for n
    using show_plain [of _ 10 n] by (auto simp: pad9_def)
  moreover have "CHR 0x0A \<notin> set (concat (map (\<lambda>n. n @ '' '') (flag_names (s_flags s))))"
    using flag_name_plain by auto
  ultimately show ?thesis
    using sample_insn_plain [OF assms] unfolding sample_line_def
    by (simp split: option.split)
qed

lemma sample_line_ends:
  assumes "printable s"
  shows "trim_end_bytes (sample_line s) = sample_line s" "sample_line s \<noteq> []" "hd (sample_line s) \<noteq> CHR ''#''"
proof -
  have last_show: "is_digit b (last (show_base b n))" if "2 \<le> b" "b \<le> 16" for b n
    using show_base_digits [OF that, of n] by (simp add: last_in_set)
  have hex_insn: "is_digit 16 (last (hex2 b)) \<and> hex2 b \<noteq> []" if "b < 256" for b
    using hex2(1,2) [OF that] by (cases "hex2 b") auto
  have hex10: "is_digit 10 c \<Longrightarrow> is_digit 16 c" for c
    by (auto simp: is_digit_def digit_val_def Let_def split: if_splits)
  have insn: "sample_insn s = [] \<or> is_digit 16 (last (sample_insn s))"
  proof (cases "s_insn s" rule: rev_cases)
    case Nil
    then show ?thesis using last_show [of 10] hex10 by (simp add: sample_insn_def split: option.split)
  next
    case (snoc bs b)
    then have "b < 256" using assms by (simp add: printable_def)
    with snoc hex_insn [of b] show ?thesis by (simp add: sample_insn_def)
  qed
  have last: "is_digit 16 (last (sample_line s))"
  proof (cases "sample_insn s = []")
    case True
    then show ?thesis using last_show [of 16] by (simp add: sample_line_def)
  next
    case False
    then show ?thesis using insn by (simp add: sample_line_def)
  qed
  show ne: "sample_line s \<noteq> []" by (simp add: sample_line_def)
  obtain xs c where xs: "sample_line s = xs @ [c]" using ne by (cases "sample_line s" rule: rev_cases) auto
  have "is_digit 16 c" using last by (simp add: xs)
  then show "trim_end_bytes (sample_line s) = sample_line s"
    using digit_plain [of 16 c] by (simp add: trim_end_bytes_def xs)
  have "is_digit 10 (hd (sample_line s))"
    using show_base_digits [of 10 "s_pid s"] by (simp add: sample_line_def hd_append)
  from digit_plain [OF this] show "hd (sample_line s) \<noteq> CHR ''#''" by simp
qed

lemma plain_line_sample:
  assumes "printable s"
  shows "plain_line sink (sample_line s) sk = give sink (RSample s) (count_sample (count_line sk))"
  using sample_line_ends [OF assms] ref_sample_line [OF assms]
  by (simp add: plain_line_def Let_def)

definition script_text :: "sample list \<Rightarrow> string" where
  "script_text ss = concat (map (\<lambda>s. sample_line s @ [CHR 0x0A]) ss)"

lemma plain_stream_samples:
  assumes "\<forall>s\<in>set ss. printable s"
  shows "\<exists>st'. plain_stream (\<lambda>rec out. Inr (out @ [rec])) (script_text ss) (st, out) =
               Inr (st', out @ map RSample ss) \<and>
         st' = st\<lparr>st_lines := st_lines st + length ss, st_bytes := st_bytes st + length (script_text ss),
                 st_samples := st_samples st + length ss\<rparr>"
  using assms
proof (induction ss arbitrary: st out)
  case Nil
  then show ?case by (simp add: script_text_def plain_stream.simps [of _ "[]"])
next
  case (Cons s ss)
  let ?sink = "\<lambda>rec out. Inr (out @ [rec])"
  have p: "printable s" using Cons.prems by simp
  have first: "script_text (s # ss) = sample_line s @ CHR 0x0A # script_text ss"
    by (simp add: script_text_def)
  have pos: "position (\<lambda>b. b = CHR 0x0A) (xs @ CHR 0x0A # ys) = Some (length xs)"
    if "CHR 0x0A \<notin> set xs" for xs ys
    using that by (induction xs) auto
  show ?case
    using Cons.IH [of "st\<lparr>st_bytes := st_bytes st + Suc (length (sample_line s)), st_lines := Suc (st_lines st),
        st_samples := Suc (st_samples st)\<rparr>" "out @ [RSample s]"] Cons.prems
    unfolding first plain_stream_line [OF pos [OF sample_line_no_newline [OF p]]]
    by (simp add: plain_line_sample [OF p] give_def count_sample_def count_line_def count_bytes_def add.assoc)
qed

section \<open>Properties\<close>

text \<open>
  C29: Reading in pieces. However the reader cuts the text into reads, wherever a cut
  falls inside a line and however often the buffer is compacted, grown or shrunk,
  streaming equals splitting the whole text at newlines and handling line after line,
  up to the first error of the sink; no byte outside of the buffer is ever read.
\<close>

theorem stream_chunking:
  assumes "\<forall>r\<in>set script. \<exists>n. r = ReadUpTo n" "length input < 2 ^ 60"
  shows "stream_records sink (input, script) st k = plain_stream sink input (st, k)"
  by (rule stream_records_eq [OF assms])

text \<open>
  C30: Samples through the stream. The printed lines of any list of samples, read in
  pieces of any sizes, give back exactly these samples in order.
\<close>

theorem sample_stream_roundtrip:
  assumes "\<forall>s\<in>set ss. printable s" "\<forall>r\<in>set script. \<exists>n. r = ReadUpTo n"
    and "length (script_text ss) < 2 ^ 60"
  shows "parse_reader (script_text ss, script) = Inr (map RSample ss)"
  using plain_stream_samples [OF assms(1), of stream_stats_default "[]"]
  unfolding parse_reader_def stream_records_eq [OF assms(2,3)] by auto

theorem stream_chunking_witness:
  "stream_records (\<lambda>rec out. Inr (rec # out)) (demo_text @ [CHR 0x0A], [ReadUpTo 3, ReadUpTo 0, ReadUpTo 9])
     stream_stats_default [] =
   plain_stream (\<lambda>rec out. Inr (rec # out)) (demo_text @ [CHR 0x0A]) (stream_stats_default, [])"
  by (rule stream_chunking) (simp_all add: demo_text_def)

theorem sample_stream_roundtrip_witness:
  "parse_reader (script_text [demo_branch, demo_branch], [ReadUpTo 7, ReadUpTo 60]) =
   Inr [RSample demo_branch, RSample demo_branch]"
proof -
  have "printable demo_branch"
    by (simp add: printable_def demo_branch_def u32_max_def u64_max_def has_flag_def flag_bits)
  moreover have "length (script_text [demo_branch, demo_branch]) < 2 ^ 60"
    by (simp add: script_text_def demo_branch_line) (simp add: demo_text_def)
  ultimately show ?thesis
    using sample_stream_roundtrip [of "[demo_branch, demo_branch]" "[ReadUpTo 7, ReadUpTo 60]"] by simp
qed

end
