(* ===== verification/Perf_Line_Props.thy ===== *)
theory Perf_Line_Props
  imports Perf_Lines
begin

text \<open>
  What the tolerant line parser of \<^verbatim>\<open>decode/perf_script.rs\<close> guarantees: times and
  fork records are read back as they are printed, and where it disagrees with the
  fast scanner.
\<close>

section \<open>Words without spaces\<close>

lemma digit_not_ws: "is_digit b c \<Longrightarrow> b \<le> 16 \<Longrightarrow> \<not> is_ws c"
  by (auto simp: is_ws_def is_digit_def digit_val_def Let_def split: if_splits)

lemma trim_str_no_ws: "\<forall>c\<in>set s. \<not> is_ws c \<Longrightarrow> trim_str s = s"
proof -
  assume s: "\<forall>c\<in>set s. \<not> is_ws c"
  then have "dropWhile is_ws s = s" by (cases s) auto
  moreover have "dropWhile is_ws (rev s) = rev s"
    unfolding dropWhile_eq_self_iff using s by (metis list.set_sel(1) set_rev)
  ultimately show ?thesis by (simp add: trim_str_def trim_start_def trim_end_def)
qed

lemma digits_chars: "c \<in> set (show_base b n) \<Longrightarrow> 2 \<le> b \<Longrightarrow> b \<le> 16 \<Longrightarrow> is_digit b c"
  using show_base_digits by blast

lemma perf_time_arg_chars:
  "c \<in> set (perf_time_arg t) \<Longrightarrow> is_digit 10 c \<or> c = CHR ''.''"
  using pad9(3) [of "t mod 1000000000"] digits_chars [of c 10] by (auto simp: perf_time_arg_def)

lemma perf_time_arg_no_ws: "\<forall>c\<in>set (perf_time_arg t). \<not> is_ws c"
proof
  fix c assume "c \<in> set (perf_time_arg t)"
  from perf_time_arg_chars [OF this] show "\<not> is_ws c"
    by (rule disjE) (simp add: digit_not_ws, simp add: is_ws_def)
qed

lemma digits_val_digits:
  "\<forall>c\<in>set s. is_digit b c \<Longrightarrow> \<exists>v. digits_val b a s = Some v"
  by (induction s arbitrary: a) (auto simp: is_digit_def split: option.splits)

lemma parse_uint_digits:
  assumes "\<forall>c\<in>set s. is_digit 10 c" "s \<noteq> []" "num_of 10 s \<le> m"
  shows "parse_uint 10 m s = Some (num_of 10 s)"
proof -
  have "hd s \<noteq> CHR ''+''" using assms(1,2) by (cases s) (auto simp: is_digit_def digit_val_def)
  then show ?thesis
    using digits_val_digits [OF assms(1), of 0] assms(2,3)
    by (cases s) (auto simp: parse_uint_def num_of_def)
qed

lemma trim_end_ch_last: "s \<noteq> [] \<Longrightarrow> last s \<noteq> c \<Longrightarrow> trim_end_ch c s = s"
  by (cases s rule: rev_cases) (auto simp: trim_end_ch_def)

lemma parse_perf_time_arg:
  assumes "t \<le> u64_max" "cs = [] \<or> cs = '':''"
  shows "parse_perf_time (perf_time_arg t @ cs) = Inr t"
proof -
  let ?sec = "show_dec (t div 1000000000)" and ?ns = "pad9 (t mod 1000000000)"
  have ns: "t mod 1000000000 < 10 ^ 9" by simp
  note p = pad9 [OF ns]
  have "last (perf_time_arg t) \<in> set ?ns"
    using p(1) by (auto simp: perf_time_arg_def)
  then have l: "last (perf_time_arg t) \<noteq> CHR '':''"
    using p(3) by (auto simp: is_digit_def digit_val_def)
  have ne: "perf_time_arg t \<noteq> []" by (simp add: perf_time_arg_def)
  have "trim_str (perf_time_arg t @ cs) = perf_time_arg t @ cs"
    using perf_time_arg_no_ws [of t] assms(2) by (intro trim_str_no_ws) (auto simp: is_ws_def)
  moreover have "trim_end_ch CHR '':'' (perf_time_arg t @ cs) = perf_time_arg t"
    using assms(2) trim_end_ch_last [OF ne l] by (auto simp: trim_end_ch_def)
  moreover have "CHR ''.'' \<notin> set ?sec"
    using digits_chars [of "CHR ''.''" 10] by (auto simp: is_digit_def digit_val_def)
  then have "split_once_ch CHR ''.'' (perf_time_arg t) = Some (?sec, ?ns)"
    using split_once_ch_append [of "CHR ''.''" ?sec ?ns] by (simp add: perf_time_arg_def)
  moreover have "parse_u64 ?sec = Some (t div 1000000000)"
    using assms(1) by (subst parse_uint_show_base) (auto simp: u64_max_def div_le_dividend intro: order_trans [OF div_le_dividend])
  moreover have "parse_u64 ?ns = Some (t mod 1000000000)"
  proof -
    have "?ns \<noteq> []" "num_of 10 ?ns \<le> u64_max" using p(1,2) ns by (auto simp: u64_max_def)
    from parse_uint_digits [OF p(3) this] p(2) show ?thesis by simp
  qed
  ultimately show ?thesis
    using p(1) assms(1)
    by (simp add: parse_perf_time_def Let_def ok_or_def checked_mul64_def checked_add64_def)
qed

section \<open>Fork records\<close>

definition line_prefix :: "u32 \<Rightarrow> u32 \<Rightarrow> u32 \<Rightarrow> u64 \<Rightarrow> string" where
  "line_prefix pid tid cpu t =
     show_dec pid @ ''/'' @ show_dec tid @ '' ['' @ show_dec cpu @ ''] '' @ perf_time_arg t @ '': ''"

definition fork_line :: "u32 \<Rightarrow> u32 \<Rightarrow> u32 \<Rightarrow> u64 \<Rightarrow> u32 \<Rightarrow> u32 \<Rightarrow> u32 \<Rightarrow> u32 \<Rightarrow> string" where
  "fork_line pid tid cpu t c ct p pt =
     line_prefix pid tid cpu t @ ''PERF_RECORD_FORK('' @ show_dec c @ '':'' @ show_dec ct @ ''):('' @
     show_dec p @ '':'' @ show_dec pt @ '')''"

lemma takeWhile_digits:
  assumes "\<forall>c\<in>set ds. is_digit 10 c" "s = [] \<or> \<not> is_digit 10 (hd s)"
  shows "takeWhile (is_digit 10) (ds @ s) = ds" "dropWhile (is_digit 10) (ds @ s) = s"
proof -
  have "takeWhile (is_digit 10) s = []" "dropWhile (is_digit 10) s = s"
    using assms(2) by (cases s; auto)+
  then show "takeWhile (is_digit 10) (ds @ s) = ds" "dropWhile (is_digit 10) (ds @ s) = s"
    using assms(1) by (simp_all add: takeWhile_append2 dropWhile_append2)
qed

lemma no_digit_chars:
  "\<not> is_digit 10 CHR ''/''" "\<not> is_digit 10 CHR '' ''" "\<not> is_digit 10 CHR '':''" "\<not> is_digit 10 CHR '')''"
  "\<not> is_digit 10 CHR '']''" "\<not> is_digit 10 CHR ''.''" "\<not> is_digit 10 CHR ''(''" "\<not> is_digit 10 CHR ''P''"
  by (simp_all add: is_digit_def digit_val_def)

lemma split_pid_tid_show:
  assumes "pid \<le> u32_max" "tid \<le> u32_max" "s = [] \<or> \<not> is_digit 10 (hd s)"
  shows "split_pid_tid (show_dec pid @ ''/'' @ show_dec tid @ s) = Some (pid, tid, s)"
proof -
  obtain c cs where c: "show_dec pid = c # cs" by (meson neq_Nil_conv show_base_nonempty)
  have d: "is_digit 10 c" using digits_chars [of c 10 pid] by (simp add: c)
  have dig: "\<forall>c\<in>set (show_dec n). is_digit 10 c" for n by (rule show_base_digits) simp_all
  have a: "takeWhile (is_digit 10) (show_dec pid @ ''/'' @ show_dec tid @ s) = show_dec pid"
      "dropWhile (is_digit 10) (show_dec pid @ ''/'' @ show_dec tid @ s) = ''/'' @ show_dec tid @ s"
    by (rule takeWhile_digits [OF dig], simp add: no_digit_chars)+
  have b: "takeWhile (is_digit 10) (show_dec tid @ s) = show_dec tid" "dropWhile (is_digit 10) (show_dec tid @ s) = s"
    using takeWhile_digits [OF dig assms(3)] .
  have "parse_u32 (c # cs) = Some pid"
    using parse_uint_show_base [of 10 u32_max pid] assms(1) by (simp add: c)
  then show ?thesis
    using a b assms(2) d no_digit_chars
    by (subst split_pid_tid.simps)
      (simp add: c parse_uint_show_base Let_def split: if_splits list.split)
qed

lemma parse_u32_show: "n \<le> u32_max \<Longrightarrow> parse_u32 (show_dec n) = Some n"
  by (simp add: parse_uint_show_base)

lemma trim_show [simp]: "trim_str (show_dec n) = show_dec n"
  by (rule trim_str_no_ws) (use digits_chars [of _ 10 n] digit_not_ws [of 10] in auto)

lemma find_ch_append: "c \<notin> set a \<Longrightarrow> find_ch c (a @ c # s) = Some (length a)"
  unfolding find_ch_def by (induction a) auto

lemma not_in_show: "\<not> is_digit 10 c \<Longrightarrow> c \<notin> set (show_dec n)"
  using digits_chars [of c 10 n] by auto

lemma take_cpu_show:
  assumes "cpu \<le> u32_max" "s \<noteq> []" "\<not> is_ws (hd s)"
  shows "take_cpu ('' ['' @ show_dec cpu @ ''] '' @ s) = (Some cpu, s)"
proof -
  have "trim_start ('' ['' @ show_dec cpu @ ''] '' @ s) = ''['' @ show_dec cpu @ ''] '' @ s"
    by (simp add: trim_start_def is_ws_def)
  moreover have "find_ch CHR '']'' (show_dec cpu @ ''] '' @ s) = Some (length (show_dec cpu))"
    using find_ch_append [of "CHR '']''" "show_dec cpu" "'' '' @ s"] not_in_show [OF no_digit_chars(5)] by simp
  moreover have "trim_start ('' '' @ s) = s"
    using assms(2,3) by (cases s) (auto simp: trim_start_def is_ws_def)
  ultimately show ?thesis
    using assms(1) by (simp add: take_cpu_def Let_def strip_prefix_str_def parse_u32_show)
qed

lemma take_time_show:
  assumes "t \<le> u64_max" "s \<noteq> []" "\<not> is_ws (hd s)" "hd s \<noteq> CHR '':''"
  shows "take_time (perf_time_arg t @ '': '' @ s) = Inr (Some t, s)"
proof -
  let ?tok = "perf_time_arg t @ '':''"
  have ws: "\<forall>c\<in>set ?tok. \<not> is_ws c" using perf_time_arg_no_ws [of t] by (auto simp: is_ws_def)
  obtain c cs where c: "perf_time_arg t = c # cs" "is_digit 10 c"
    using show_base_digits [of 10 "t div 1000000000"]
    by (cases "show_dec (t div 1000000000)") (auto simp: perf_time_arg_def)
  have start: "trim_start (perf_time_arg t @ '': '' @ s) = perf_time_arg t @ '': '' @ s"
    using c digit_not_ws [of 10 c] by (simp add: trim_start_def)
  have tok: "takeWhile (\<lambda>c. \<not> is_ws c) (perf_time_arg t @ '': '' @ s) = ?tok"
  proof -
    have "takeWhile (\<lambda>c. \<not> is_ws c) (?tok @ CHR '' '' # s) = ?tok @ takeWhile (\<lambda>c. \<not> is_ws c) (CHR '' '' # s)"
      using ws by (intro takeWhile_append2) blast
    then show ?thesis by (simp add: is_ws_def)
  qed
  have dot: "CHR ''.'' \<in> set ?tok" by (simp add: perf_time_arg_def)
  have C: "?tok \<noteq> [] \<and> is_digit 10 (hd ?tok) \<and> CHR ''.'' \<in> set ?tok"
    using dot c by simp
  have D: "drop (length ?tok) (perf_time_arg t @ '': '' @ s) = CHR '' '' # s"
    by simp
  have P: "parse_perf_time ?tok = Inr t"
    by (rule parse_perf_time_arg) (use assms(1) in auto)
  have S: "trim_start (trim_start_ch CHR '':'' (trim_start (CHR '' '' # s))) = s"
    using assms(2-4) by (cases s) (auto simp: trim_start_def trim_start_ch_def is_ws_def)
  show ?thesis
    unfolding take_time_def Let_def start tok if_P [OF C] P try_bind_simps D S ..
qed

lemma find_str_contains: "find_str p s = Some i \<Longrightarrow> contains_str s p"
proof (induction p s arbitrary: i rule: find_str.induct)
  case (2 p c cs)
  show ?case
  proof (cases "prefix p (c # cs)")
    case True
    then show ?thesis by (simp add: contains_str_def prefix_imp_sublist)
  next
    case False
    with 2 show ?thesis by (auto simp: contains_str_def sublist_Cons_right)
  qed
qed (simp add: contains_str_def split: if_splits)

lemma split_str_once:
  assumes "c \<notin> set a" "c \<notin> set b"
  shows "split_str (c # p) (a @ (c # p) @ b) = [a, b]"
proof -
  have "split_str (c # p) b = [b]"
    using find_str_none [OF assms(2), of p] by (simp add: split_str.simps [of _ b] split_once_str_def)
  then show ?thesis
    using split_once_after [OF assms(1), of p b] by (subst split_str.simps) simp
qed

lemma split_str_none: "c \<notin> set s \<Longrightarrow> split_str (c # p) s = [s]"
  using find_str_none [of c s p] by (simp add: split_str.simps [of _ s] split_once_str_def)

lemma fork_ids_show:
  assumes "c \<le> u32_max" "ct \<le> u32_max" "p \<le> u32_max" "pt \<le> u32_max"
  shows "fork_ids (''FORK('' @ show_dec c @ '':'' @ show_dec ct @ ''):('' @ show_dec p @ '':'' @ show_dec pt @ '')'')
         = Some (c, ct, Some p, Some pt)"
proof -
  note no = not_in_show [OF no_digit_chars(4)] not_in_show [OF no_digit_chars(3)]
  let ?tail = "'':('' @ show_dec p @ '':'' @ show_dec pt @ '')''"
  let ?in = "show_dec c @ '':'' @ show_dec ct"
  have close: "find_ch CHR '')'' (''('' @ ?in @ '')'' @ ?tail) = Some (length ?in + 1)"
    using find_ch_append [of "CHR '')''" "''('' @ ?in" ?tail] no by simp
  have close2: "find_ch CHR '')'' (show_dec p @ '':'' @ show_dec pt @ '')'') =
      Some (length (show_dec p @ '':'' @ show_dec pt))"
    using find_ch_append [of "CHR '')''" "show_dec p @ '':'' @ show_dec pt" "[]"] no by simp
  have open1: "find_ch CHR ''('' (''FORK('' @ ?in @ '')'' @ ?tail) = Some 4"
    by (simp add: find_ch_def numeral_eq_Suc)
  have pair: "parse_pair (show_dec a @ '':'' @ show_dec b) = Some (show_dec a, show_dec b)" for a b
    unfolding parse_pair_def using split_once_ch_append [OF no(2), of a "show_dec b"] by simp
  have "drop 4 (''FORK('' @ ?in @ '')'' @ ?tail) = ''('' @ ?in @ '')'' @ ?tail"
    "drop (4 + 1) (''FORK('' @ ?in @ '')'' @ ?tail) = ?in @ '')'' @ ?tail"
    "drop (4 + (length ?in + 1) + 1) (''FORK('' @ ?in @ '')'' @ ?tail) = ?tail"
    by (simp_all add: numeral_eq_Suc)
  moreover have "take (length ?in + 1 - 1) (?in @ '')'' @ ?tail) = ?in" by simp
  moreover have "strip_prefix_str '':('' ?tail = Some (show_dec p @ '':'' @ show_dec pt @ '')'')"
    by (simp add: strip_prefix_str_def)
  moreover have "take (length (show_dec p @ '':'' @ show_dec pt)) (show_dec p @ '':'' @ show_dec pt @ '')'') =
      show_dec p @ '':'' @ show_dec pt" by simp
  ultimately have "fork_ids (''FORK('' @ ?in @ '')'' @ ?tail) = Some (c, ct, Some p, Some pt)"
    unfolding fork_ids_def open1 bind.bind_lunit
    by (simp only: close close2 bind.bind_lunit pair prod.case trim_show parse_u32_show assms option.case)
  then show ?thesis by simp
qed

lemma line_prefix_chars:
  "c \<in> set (line_prefix pid tid cpu t) \<Longrightarrow> is_digit 10 c \<or> c \<in> set ''/[]:. ''"
  using digits_chars [of c 10] perf_time_arg_chars [of c t] by (auto simp: line_prefix_def)

lemma fork_line_chars:
  "c \<in> set (fork_line pid tid cpu t c1 ct p pt) \<Longrightarrow> is_digit 10 c \<or> c \<in> set ''/[]:. PERF_COD(K)''"
  using digits_chars [of c 10] line_prefix_chars [of c pid tid cpu t] by (auto simp: fork_line_def)

lemma contains_needs: "contains_str s p \<Longrightarrow> c \<in> set p \<Longrightarrow> c \<in> set s"
  by (auto simp: contains_str_def dest: set_mono_sublist)

lemma parse_task_fork:
  assumes "pid \<le> u32_max" "tid \<le> u32_max" "cpu \<le> u32_max" "t \<le> u64_max"
    and "c \<le> u32_max" "ct \<le> u32_max" "p \<le> u32_max" "pt \<le> u32_max"
  shows "parse_task (fork_line pid tid cpu t c ct p pt) TFork =
     Inr \<lparr>t_kind = TFork, t_pid = c, t_tid = ct, t_ppid = Some p, t_ptid = Some pt,
          t_time = nonzero t, t_comm = None\<rparr>"
proof -
  let ?line = "fork_line pid tid cpu t c ct p pt"
  let ?after = "''FORK('' @ show_dec c @ '':'' @ show_dec ct @ ''):('' @ show_dec p @ '':'' @ show_dec pt @ '')''"
  have line: "?line = show_dec pid @ ''/'' @ show_dec tid @ '' ['' @ show_dec cpu @ ''] '' @
      perf_time_arg t @ '': '' @ ''PERF_RECORD_'' @ ?after"
    by (simp add: fork_line_def line_prefix_def)
  have pid: "split_pid_tid ?line = Some (pid, tid, '' ['' @ show_dec cpu @ ''] '' @
      perf_time_arg t @ '': '' @ ''PERF_RECORD_'' @ ?after)"
    unfolding line by (rule split_pid_tid_show) (use assms no_digit_chars in simp_all)
  have "is_digit 10 (hd (perf_time_arg t))" "perf_time_arg t \<noteq> []"
    using show_base_digits [of 10 "t div 1000000000"] by (simp_all add: perf_time_arg_def)
  then have cpu: "take_cpu ('' ['' @ show_dec cpu @ ''] '' @ perf_time_arg t @ '': '' @ ''PERF_RECORD_'' @ ?after) =
      (Some cpu, perf_time_arg t @ '': '' @ ''PERF_RECORD_'' @ ?after)"
    by (intro take_cpu_show) (use assms digit_not_ws in simp_all)
  have time: "take_time (perf_time_arg t @ '': '' @ ''PERF_RECORD_'' @ ?after) = Inr (Some t, ''PERF_RECORD_'' @ ?after)"
    by (rule take_time_show) (use assms in \<open>simp_all add: is_ws_def\<close>)
  have "CHR ''P'' \<notin> set (line_prefix pid tid cpu t)"
    using line_prefix_chars [of "CHR ''P''"] no_digit_chars(8) by auto
  moreover have "CHR ''P'' \<notin> set ?after"
    using not_in_show [OF no_digit_chars(8)] by simp
  ultimately have "split_str ''PERF_RECORD_'' ?line = [line_prefix pid tid cpu t, ?after]"
    using split_str_once [of "CHR ''P''" "line_prefix pid tid cpu t" ?after "''ERF_RECORD_''"]
    by (simp add: fork_line_def)
  then have ids: "task_ids ?line TFork (pid, tid) = (c, ct, Some p, Some pt)"
    using fork_ids_show [OF assms(5-8)] by (simp only: task_ids_def nth_opt_def) simp
  have "find_str ''PERF_RECORD_COMM'' ?line = None"
  proof (cases "find_str ''PERF_RECORD_COMM'' ?line")
    case (Some i)
    then have "contains_str ?line ''PERF_RECORD_COMM''" by (rule find_str_contains)
    then have "CHR ''M'' \<in> set ?line" by (rule contains_needs) simp
    from fork_line_chars [OF this] show ?thesis by (auto simp: is_digit_def digit_val_def)
  qed
  then have comm: "task_comm ?line = None"
    by (simp add: task_comm_def split_str.simps [of _ ?line] split_once_str_def nth_opt_def)
  show ?thesis
    unfolding parse_task_def pid ok_or_def option.case try_bind_simps prod.case cpu snd_conv time ids comm Let_def
    by (simp add: nonzero_time_def)
qed

lemma fork_line_slow:
  "parse_line_slow (fork_line pid tid cpu t c ct p pt) =
   map_sum id RTask (parse_task (fork_line pid tid cpu t c ct p pt) TFork)"
proof -
  let ?line = "fork_line pid tid cpu t c ct p pt"
  have no: "\<not> contains_str ?line pat" if "x \<in> set pat" "\<not> is_digit 10 x" "x \<notin> set ''/[]:. PERF_COD(K)''" for pat x
    using contains_needs [OF _ that(1), of ?line] fork_line_chars that(2,3) by blast
  have letters: "\<not> is_digit 10 CHR ''i''" "\<not> is_digit 10 CHR ''L''" "\<not> is_digit 10 CHR ''M''" "\<not> is_digit 10 CHR ''X''"
      "\<not> is_digit 10 CHR ''l''"
    by (simp_all add: is_digit_def digit_val_def)
  have "\<not> contains_str ?line ''instruction trace error''" "\<not> contains_str ?line ''insn trace error''"
      "\<not> contains_str ?line ''PERF_RECORD_LOST''" "\<not> contains_str ?line '' lost ''"
      "\<not> contains_str ?line ''PERF_RECORD_MMAP''" "\<not> contains_str ?line ''PERF_RECORD_COMM''"
      "\<not> contains_str ?line '' PERF_RECORD_EXEC''"
    using letters by (intro no [of "CHR ''i''"] no [of "CHR ''L''"] no [of "CHR ''M''"] no [of "CHR ''X''"] no [of "CHR ''l''"]; simp)+
  moreover have "contains_str ?line ''PERF_RECORD_FORK''"
    unfolding contains_str_def sublist_def
    by (rule exI [of _ "line_prefix pid tid cpu t"],
        rule exI [of _ "''('' @ show_dec c @ '':'' @ show_dec ct @ ''):('' @ show_dec p @ '':'' @ show_dec pt @ '')''"])
      (simp add: fork_line_def)
  ultimately show ?thesis
    by (simp only: parse_line_slow_def simp_thms if_True if_False)
qed

lemma fork_line_refused:
  assumes "pid \<le> u32_max" "tid \<le> u32_max" "cpu \<le> u32_max" "t \<le> u64_max"
  shows "ref_sample (fork_line pid tid cpu t c ct p pt) = None"
proof -
  define after where "after = ''PERF_RECORD_FORK('' @ show_dec c @ '':'' @ show_dec ct @ ''):('' @
     show_dec p @ '':'' @ show_dec pt @ '')''"
  have line: "fork_line pid tid cpu t c ct p pt = show_dec pid @ ''/'' @ show_dec tid @ CHR '' '' #
      ''['' @ show_dec cpu @ ''] '' @ show_dec (t div 10 ^ 9) @ ''.'' @ pad9 (t mod 10 ^ 9) @ '': '' @ after"
    by (simp add: fork_line_def line_prefix_def perf_time_arg_def after_def)
  have "event_of_token (token_of after) = None"
  proof -
    have "token_of after = CHR ''P'' # tl (token_of after)"
      by (simp add: token_of_def after_def is_stop_def)
    then obtain w where "token_of after = CHR ''P'' # w" by blast
    then show ?thesis by (simp add: event_of_token_def)
  qed
  then have "ref_event after = None" by (simp add: ref_event_def Let_def)
  moreover have "skip_spaces after = after" by (simp add: after_def)
  moreover have "skip_spaces (show_dec (t div 10 ^ 9) @ ''.'' @ pad9 (t mod 10 ^ 9) @ '': '' @ after) =
      show_dec (t div 10 ^ 9) @ ''.'' @ pad9 (t mod 10 ^ 9) @ '': '' @ after"
    by (rule skip_spaces_show) simp_all
  ultimately show ?thesis
    unfolding line ref_sample_def ref_task_line [OF assms(1,2)]
    using ref_cpu_line [OF assms(3)] ref_time_line [OF assms(4), of after]
    by (simp del: One_nat_def)
qed

lemma fork_line_short:
  assumes "pid \<le> u32_max" "tid \<le> u32_max" "cpu \<le> u32_max" "t \<le> u64_max"
    and "c \<le> u32_max" "ct \<le> u32_max" "p \<le> u32_max" "pt \<le> u32_max"
  shows "length (fork_line pid tid cpu t c ct p pt) < 1000"
proof -
  have short: "length (show_dec n) \<le> 20" if "n \<le> u64_max" for n
    using show_base_length [of n 10 20] that by (simp add: u64_max_def)
  have short32: "length (show_dec n) \<le> 20" if "n \<le> u32_max" for n
    using short [of n] that by (simp add: u64_max_def u32_max_def)
  have "length (show_dec (t div 1000000000)) \<le> 20"
    using assms(4) by (intro short) (meson div_le_dividend order_trans)
  moreover have "length (pad9 (t mod 1000000000)) = 9" by (rule pad9(1)) simp
  ultimately have "length (perf_time_arg t) \<le> 30" by (simp add: perf_time_arg_def)
  then show ?thesis
    using short32 [OF assms(1)] short32 [OF assms(2)] short32 [OF assms(3)] short32 [OF assms(5)]
      short32 [OF assms(6)] short32 [OF assms(7)] short32 [OF assms(8)]
    by (simp add: fork_line_def line_prefix_def)
qed

section \<open>A tab between two addresses\<close>

definition tab_line :: string where "tab_line = ''1/1 1.5: branches:u: 10'' @ CHR 0x09 # ''20''"

lemma tab_pid: "split_pid_tid tab_line = Some (1, 1, '' 1.5: branches:u: 10'' @ CHR 0x09 # ''20'')"
  by (simp add: tab_line_def split_pid_tid.simps is_digit_def digit_val_def parse_uint_def Let_def u32_max_def)

lemma tab_cpu: "take_cpu ('' 1.5: branches:u: 10'' @ CHR 0x09 # ''20'') = (None, ''1.5: branches:u: 10'' @ CHR 0x09 # ''20'')"
  by (simp add: take_cpu_def trim_start_def is_ws_def strip_prefix_str_def Let_def)

lemma zeros8: "replicate 8 CHR ''0'' = ''00000000''"
  by (simp add: numeral_eq_Suc)

lemma tab_time: "parse_perf_time ''1.5:'' = Inr 1500000000"
  by (simp add: parse_perf_time_def trim_str_def trim_start_def trim_end_def is_ws_def trim_end_ch_def
   split_once_ch_def parse_uint_def digit_val_def u64_max_def ok_or_def checked_mul64_def checked_add64_def zeros8 Let_def)

lemma tab_take_time: "take_time (''1.5: branches:u: 10'' @ CHR 0x09 # ''20'') = Inr (Some 1500000000, ''branches:u: 10'' @ CHR 0x09 # ''20'')"
  using tab_time by (simp add: take_time_def trim_start_def is_ws_def is_digit_def digit_val_def trim_start_ch_def Let_def)

lemma tab_event: "split_event (trim_start (''branches:u: 10'' @ CHR 0x09 # ''20'')) = Some (''branches'', ''u: 10'' @ CHR 0x09 # ''20'')"
  by (simp add: split_event_def find_ch_def trim_start_def trim_str_def trim_end_def is_ws_def)

lemma tab_modifiers: "strip_event_modifiers (''u: 10'' @ CHR 0x09 # ''20'') = ''10'' @ CHR 0x09 # ''20''"
  by (simp add: strip_event_modifiers_def find_ch_def trim_start_def is_ws_def is_alpha_def Let_def)

lemma tab_insn: "split_insn_suffix (''10'' @ CHR 0x09 # ''20'') = (''10'' @ CHR 0x09 # ''20'', [], None)"
  by (simp add: split_insn_suffix_def map_filter_simps trim_end_def is_ws_def)

lemma tab_addrs: "parse_ip_addr_flags (''10'' @ CHR 0x09 # ''20'') Branches = (Some 16, Some 32, 0)"
  by (simp add: parse_ip_addr_flags_def trim_str_def trim_start_def trim_end_def is_ws_def split_once_str_def
   split_whitespace_def is_hex_text_def parse_address_def strip_prefix_str_def parse_uint_def digit_val_def u64_max_def
   map_filter_simps flags_parse_str_def is_instruction_def Let_def)

lemma tab_name: "trim_end_ch CHR '':'' ''branches'' = ''branches'' \<and> \<not> contains_str ''branches'' ''mmap''"
  by (simp add: trim_end_ch_def contains_str_def sublist_Cons_right)

lemma tab_sample_slow: "parse_sample_line tab_line = Inr (RSample \<lparr>s_pid = 1, s_tid = 1, s_cpu = None, s_time = Some 1500000000,
      s_event = Branches, s_ip = Some 16, s_addr = Some 32, s_flags = 0, s_insn_len = None, s_insn = []\<rparr>)"
  unfolding parse_sample_line_def tab_pid ok_or_def option.case try_bind_simps prod.case tab_cpu Let_def tab_take_time tab_event tab_modifiers tab_insn tab_name
  by (simp add: tab_name tab_addrs tab_insn[simplified] tab_addrs [simplified] nonzero_time_def nonzero_def)

lemma tab_dispatch: "parse_line_slow tab_line = parse_sample_line tab_line"
  by (simp add: parse_line_slow_def contains_str_def sublist_Cons_right tab_line_def)
lemma tab_fast: "ref_sample tab_line = Some \<lparr>s_pid = 1, s_tid = 1, s_cpu = None, s_time = Some 1500000000,
      s_event = Branches, s_ip = Some 16, s_addr = None, s_flags = 0, s_insn_len = None, s_insn = []\<rparr>"
  by (simp add: tab_line_def ref_sample_def ref_task_def ref_number_def run_of_def is_digit_def digit_val_def num_of_def
    skip_spaces_def ref_cpu_def ref_time_def u64_max_def ref_event_def token_of_def is_stop_def event_of_token_def
    ref_flags.simps flag_step_def from_token_def ref_addrs_def ref_second_def ref_hex_def is_hex_word_def ref_tail.simps
    as_u32_def nonzero_def Let_def)

section \<open>Properties\<close>

text \<open>
  C1: Times on the command line of \<^verbatim>\<open>perf script\<close>. The argument printed for a time
  bound is read back by the time parser as the same number of nanoseconds, for every
  64-bit time, with or without the colon that ends a time field.
\<close>

theorem perf_time_roundtrip:
  assumes "t \<le> u64_max" "cs = [] \<or> cs = '':''"
  shows "parse_perf_time (perf_time_arg t @ cs) = Inr t"
  by (rule parse_perf_time_arg [OF assms])

text \<open>
  C34: Fork records. A fork line as \<^verbatim>\<open>perf script\<close> prints it is refused by the sample
  scanner, passes all earlier tests of the tolerant parser and gives the child, its
  thread, the parent and the parent's thread of the record, not the task that the
  line starts with.
\<close>

theorem fork_line_parsed:
  assumes "pid \<le> u32_max" "tid \<le> u32_max" "cpu \<le> u32_max" "t \<le> u64_max"
    and "c \<le> u32_max" "ct \<le> u32_max" "p \<le> u32_max" "pt \<le> u32_max"
  shows "parse_line (fork_line pid tid cpu t c ct p pt) =
     Inr (Some (RTask \<lparr>t_kind = TFork, t_pid = c, t_tid = ct, t_ppid = Some p, t_ptid = Some pt,
                       t_time = nonzero t, t_comm = None\<rparr>))"
proof -
  let ?line = "fork_line pid tid cpu t c ct p pt"
  have ends: "trim_end ?line = ?line"
    by (simp add: trim_end_def fork_line_def is_ws_def)
  have "is_digit 10 (hd ?line)" "?line \<noteq> []"
    using show_base_digits [of 10 pid] by (simp_all add: fork_line_def line_prefix_def hd_append)
  then have start: "?line \<noteq> []" "\<not> prefix ''#'' ?line" "\<not> prefix ''failed to read'' ?line"
    by (cases ?line; auto simp: is_digit_def digit_val_def)+
  have "parse_sample ?line = Inl Reject"
    unfolding parse_sample_def
    using fork_line_short [OF assms] fork_line_refused [OF assms(1-4)]
    by (subst guarded_reference) (simp_all add: GUARD_def structural_def)
  then show ?thesis
    using ends start by (simp add: parse_line_def Let_def fork_line_slow parse_task_fork [OF assms])
qed

text \<open>
  The two parsers disagree on tabs. The scanner takes a tab for the end of the
  line: on a branch whose two addresses are separated by a tab it returns the sample
  without its target, and because it succeeds the tolerant parser, which finds both,
  is never asked.
\<close>

theorem tab_hides_target:
  "\<exists>line s s'. parse_line line = Inr (Some (RSample s)) \<and> parse_line_slow line = Inr (RSample s') \<and>
     s_ip s = Some 16 \<and> s_addr s = None \<and> s_ip s' = Some 16 \<and> s_addr s' = Some 32"
proof -
  have "length tab_line < 100" by (simp add: tab_line_def)
  then have "parse_sample tab_line = (case ref_sample tab_line of None \<Rightarrow> Inl Reject | Some s \<Rightarrow> Inr s)"
    unfolding parse_sample_def by (intro guarded_reference) (simp_all add: GUARD_def structural_def)
  moreover have "trim_end tab_line = tab_line" "tab_line \<noteq> []" "\<not> prefix ''#'' tab_line"
      "\<not> prefix ''failed to read'' tab_line"
    by (simp_all add: tab_line_def trim_end_def is_ws_def)
  ultimately have "parse_line tab_line = Inr (Some (RSample \<lparr>s_pid = 1, s_tid = 1, s_cpu = None, s_time = Some 1500000000,
      s_event = Branches, s_ip = Some 16, s_addr = None, s_flags = 0, s_insn_len = None, s_insn = []\<rparr>))"
    by (simp add: parse_line_def Let_def tab_fast)
  then show ?thesis
    using tab_sample_slow tab_dispatch by (intro exI [of _ tab_line]) auto
qed

theorem perf_time_roundtrip_witness: "parse_perf_time (perf_time_arg 1500000000 @ '':'') = Inr 1500000000"
  by (rule perf_time_roundtrip) (simp_all add: u64_max_def)

theorem fork_line_parsed_witness:
  "parse_line (fork_line 12 13 0 5 14 15 12 13) =
     Inr (Some (RTask \<lparr>t_kind = TFork, t_pid = 14, t_tid = 15, t_ppid = Some 12, t_ptid = Some 13,
                       t_time = Some 5, t_comm = None\<rparr>))"
  by (subst fork_line_parsed) (simp_all add: u64_max_def u32_max_def nonzero_def)

end
