(* ===== verification/Spec2Isabelle.thy ===== *)
theory Spec2Isabelle
  imports Reconstruct_Props Call_Trees Compare Source_Lookup Coordinator_Props Branch_Sites Stream_Merge At_Instant Store
    Recorder_Props Native_Merge
    Perf_Stream Perf_Line_Props Fast_Props
begin

text \<open>
  A verification library for trace-mcp, a server that captures Intel PT traces, decodes them into
  calls and answers queries about them. The definitions follow the Rust sources under
  \<^verbatim>\<open>src/src\<close>; each keeps the name of the function or type it models where Isabelle allows it.

  The program. A coordinator (\<^verbatim>\<open>service.rs\<close>) owns sessions and jobs. A session captures a trace with
  \<^verbatim>\<open>perf\<close> or its own recorder (\<^verbatim>\<open>capture/direct.rs\<close>) and publishes it as a snapshot of the store (\<^verbatim>\<open>store.rs\<close>). A decode job
  reads the trace as a stream of records, from readers of \<^verbatim>\<open>perf script\<close> on parts of the file (\<^verbatim>\<open>decode/perf_script.rs\<close>,
  \<^verbatim>\<open>capture/perfdata.rs\<close>) or from the native decoder (\<^verbatim>\<open>decode/native.rs\<close>), merged by time,
  rebuilds the call stack of every thread (\<^verbatim>\<open>decode/reconstruct.rs\<close>) with the symbols of the archived images
  (\<^verbatim>\<open>decode/images.rs\<close>), and writes rows of spans, events and gaps. Queries (\<^verbatim>\<open>analysis/\<close>) page through these
  rows, aggregate them into hot paths, compare two runs and look up sources.

  Theories and what they model.
  \<^item> \<open>Trace_Prelude\<close>: machine arithmetic, string functions, printing and parsing of numbers.
    \<open>Error_Codes\<close>: \<^verbatim>\<open>error.rs\<close>, with \<open>failure\<close> for an error or a panic and the chaining of fallible steps.
    \<open>Json_Ids\<close>: \<^verbatim>\<open>model/ids.rs\<close>, \<^verbatim>\<open>model/json.rs\<close>. \<open>Event_Model\<close>: \<^verbatim>\<open>model/events.rs\<close> and the selections of
    \<^verbatim>\<open>model/report.rs\<close>. \<open>Trace_Model\<close>: \<^verbatim>\<open>model/trace.rs\<close>. \<open>Pt_Config\<close>: \<^verbatim>\<open>model/config.rs\<close>.
  \<^item> \<open>Perf_Records\<close>: the records, flag sets and the process tracker of \<^verbatim>\<open>decode/perf_script.rs\<close>. \<open>Perf_Lines\<close>: its
    tolerant line parser, \<open>Perf_Line_Props\<close> the round trips of printed lines; \<open>Perf_Stream\<close>: the loop that
    cuts the output of the reader process into lines and drops malformed ones. \<open>Fast_Line\<close> (scanner on a byte
    cursor), \<open>Fast_Parse\<close> (its parser and a reference on lists of bytes) and \<open>Fast_Props\<close>:
    \<^verbatim>\<open>decode/perf_script/fastline.rs\<close>.
    \<open>Image_Index\<close>: symbol lookup and address translation of \<^verbatim>\<open>decode/images.rs\<close>.
  \<^item> \<open>Reconstruct\<close> (state and its parts), \<open>Reconstruct_Flow\<close> (one record: \<^verbatim>\<open>push\<close>, \<^verbatim>\<open>push_sample\<close>,
    \<^verbatim>\<open>apply_flow\<close>) and \<open>Reconstruct_Finish\<close> (\<^verbatim>\<open>finish\<close>): the whole reconstructor as functions on a state record.
    \<open>Reconstruct_Steps\<close> splits them into small steps and has the locale that lifts an invariant of the
    steps to whole runs; \<open>Reconstruct_Inv\<close>, \<open>Reconstruct_Forest\<close> and \<open>Reconstruct_Stamps\<close> interpret it
    for the counters and ids, the parent relation and the time stamps; \<open>Reconstruct_Props\<close> has the
    properties, \<open>Reconstruct_Demo\<close> the run their witnesses use, and \<open>Call_Trees\<close> the refinement of the
    recursive evaluation of a call tree.
  \<^item> \<open>Query_Paging\<close>: \<^verbatim>\<open>analysis/page.rs\<close>. \<open>Row_Sorting\<close>: comparators and the stable sort, with a locale for
    consistent comparators that every sorted query interprets. \<open>Timeline\<close>, \<open>Hotpaths\<close>, \<open>Compare\<close>,
    \<open>Source_Lookup\<close>: the files of \<^verbatim>\<open>analysis/\<close> of these names. \<open>At_Instant\<close>: the stacks at an instant and the
    row filter of instructions (\<^verbatim>\<open>service.rs\<close>).
  \<^item> \<open>Coordinator\<close>: the state and handlers of \<^verbatim>\<open>service.rs\<close>. \<open>Coordinator_Steps\<close>: the coordinator among its
    tasks as a step relation, reachable states, and a locale for invariants of the system, interpreted
    for the capacity accounting and for the session table. \<open>Coordinator_Props\<close>: the properties.
  \<^item> \<open>Instructions\<close>: \<^verbatim>\<open>decode/instructions.rs\<close>, the rows of single instructions and the branch sites;
    \<open>Instruction_Props\<close> and \<open>Branch_Sites\<close>: their properties.
  \<^item> \<open>Stream_Merge\<close>: batches, channels, the k-way merge and the CPU groups of \<^verbatim>\<open>service.rs\<close>.
  \<^item> \<open>Byte_Layout\<close>: little-endian integers in byte buffers. \<open>Perf_Data\<close>: \<^verbatim>\<open>capture/perfdata.rs\<close>; \<open>Perf_Split\<close>: the
    splitting by CPU on well-formed files, and the conversion of times.
  \<^item> \<open>Direct_Bundle\<close>: the PMU and the bundle file of \<^verbatim>\<open>capture/direct.rs\<close>; \<open>Bundle_Roundtrip\<close>: what the reader of
    \<open>Perf_Data\<close> finds in it. \<open>Direct_Recorder\<close>: the recorder, its rings and the reports that drive it;
    \<open>Recorder_Props\<close>: its properties.
  \<^item> \<open>Native_Streams\<close> (cutting, schedules, images, dealing to workers) and \<open>Native_Decode\<close> (one piece of trace and
    one worker): \<^verbatim>\<open>decode/native.rs\<close> on top of a decoder given by its operations. \<open>Native_Split\<close>, \<open>Native_Props\<close>,
    \<open>Native_Returns\<close>: the pieces, the records and the end of the decoding; \<open>Native_Merge\<close>: the streams in the merge.
  \<^item> \<open>Store_Files\<close>: directory trees and the file operations the store uses. \<open>Store\<close>: \<^verbatim>\<open>store.rs\<close>.

  What the lemmas show. The reconstructor numbers its rows without holes, builds a forest of spans per thread whose
  complete spans nest in their parents, counts what it emits, keeps evidence in order, fails exactly without
  an origin, over the spill budget or when a call on the spilled files fails, and refines the evaluation of call trees. Paging ends and shows every row
  once; fitting a page to the budget ends; quantiles, self times, hot paths, stacks at an instant and comparisons
  agree with their plain specifications. Merging the reader streams equals a stable sort. In every reachable state of
  the coordinator the counters of captures, reserved decodes, pending compares and running decodes equal the work they
  stand for; all but the last respect their limits (a published capture starts its decode without a look at the limit).
  Session phases only move forward, and starting neither panics nor starts the same request twice. The store publishes by
  moving, removes nothing but the snapshot even when a removal stops halfway, and replaces JSON files atomically unless
  the sync of the new file fails.
  The branchless scanner of sample lines computes the plain reference and does not read outside its guarded
  buffer, given that no separator stands right behind the line; splitting the stream into lines does not depend on how the reads are cut; printed samples and forks parse back.
  Splitting \<^verbatim>\<open>perf.data\<close> by CPUs keeps what it should. The direct recorder stays within its AUX budget, its snapshots
  are the ends of the threads' traces, and a recording is read back from its bundle. The native decoder covers a buffer
  with pieces that start at PSB packets, adds records in time order to a piece's stream, follows the schedule, and returns for
  every decoder that keeps libipt's contract.
  A conditional's outcome is what the next record of its task says, and branch sites are the sums of the rows.
  Printing and parsing of ids, numbers, flags and evidence ranges are inverse. Ring sizes and packet terms stay in the
  hardware's and the caller's limits.

  Conventions. Machine integers are natural numbers with the operations that can leave the range written out; bit sets
  are words. A \<^verbatim>\<open>HashMap\<close> is a map, or an association list where its iteration order could show.
  Errors are the left side of a sum. Loops are structural or measured recursions, with these exceptions. Fuel is in
  \<open>count_instructions\<close>, given the number of bytes (each instruction takes at least one), and in the client
  of the paging property, where the needed number of requests is part of the statement. Loops that need not end are
  partial functions into \<open>option\<close>: over the records of a \<^verbatim>\<open>perf.data\<close> file (\<open>read_loop\<close>, \<open>split_loop\<close>), which return on
  the files of the properties and hang on \<open>looping_file\<close>, and the loops of the native decoder
  (\<open>decode_blob_returns\<close>).

  Parameters. Code outside the repository is an argument: the DWARF frames and line tables (addr2line), the lengths of x86
  instructions (iced-x86), demangled names, hashes, generated ids, the clock, the disk of the coordinator's handlers,
  the printing of decimal fractions, libipt (the operations of \<open>decoder_ops\<close> on a state of any type, and the failures of
  \<^verbatim>\<open>Image::new\<close> in \<open>ne_image_error\<close>), and the kernel's answers to the direct recorder (\<open>world\<close>).
  Termination of the native decoder uses what libipt guarantees (\<open>decoder_contract\<close>, over the functions of a
  \<open>decoder_view\<close>): finding the next synchronisation point goes forward, decoding blocks and draining events never
  goes back, and resynchronising goes to the start of the region when a status update is pending and forward otherwise; an
  offset is known only once the decoder is synchronised.
  Which calls of the operating system fail is an argument too: \<open>x_spill_io\<close> for the flushes and the second pass over the
  spilled rows, a map on \<open>fs_call\<close> for a recursive removal, which stops at the first failing call with part of the
  tree gone, and one on \<open>disk_op\<close> for the writing of JSON files. There the disk is the tree and the files that are not
  synced; of these a crash keeps any beginning, and directory operations reach the disk in order.
  The bytes of a line are characters, so \<^verbatim>\<open>from_utf8_lossy\<close> is the identity.

  Not modelled. Importing bundles and listing sessions by age in \<^verbatim>\<open>store.rs\<close>; the exit sweep; the dispatcher of
  \<^verbatim>\<open>query_snapshot\<close>, which reads the row files; the capture and decode tasks, the \<^verbatim>\<open>perf\<close> recorder, the triggers and the
  doctor, which drive kernel interfaces and child processes; the start of the launch shim and of threads; the diagnostics
  of the native decoder; \<^verbatim>\<open>mcp.rs\<close> and \<^verbatim>\<open>cli.rs\<close>.
\<close>

end
